(* ===== verification/Prelude.thy ===== *)
theory Prelude
  imports Main
begin

section \<open>Prelude: shared types, tables, errors and hints\<close>

text \<open>
  What every component theory shares: the names of the model's basic types, fallible results
  as sums with a bind, Python's truthiness on optional values, and database tables as lists
  of rows with the two ways the code reads them (a primary-key read and
  \<open>scalar_one_or_none\<close> on a filtered select) and the one way it writes an existing row
  (assigning attributes of the row it holds).  The locale \<open>row_store\<close> is the interface the
  repositories rely on; it is interpreted on the list tables below for an arbitrary key.
\<close>

named_theorems table_simps
named_theorems frame_simps

subsection \<open>Basic types\<close>

text \<open>
  UUIDs are natural numbers.  Instants are microseconds on the UTC time line, as
  Python's \<open>datetime\<close> resolves them; a \<open>timedelta(seconds=n)\<close> is \<open>seconds n\<close>.
  JSON values stored in a column are their JSON text.
\<close>

type_synonym uuid = nat
type_synonym instant = int
type_synonym json = string

definition seconds :: "int \<Rightarrow> int" where
  "seconds n = n * 1000000"

definition days :: "int \<Rightarrow> int" where
  "days n = seconds (n * 86400)"

lemma seconds_mono [simp]: "seconds a \<le> seconds b \<longleftrightarrow> a \<le> b"
  by (simp add: seconds_def)

lemma seconds_pos [simp]: "0 < seconds a \<longleftrightarrow> 0 < a"
  by (simp add: seconds_def)

lemma seconds_nonneg [simp]: "0 \<le> seconds a \<longleftrightarrow> 0 \<le> a"
  by (simp add: seconds_def zero_le_mult_iff)

subsection \<open>Fallible results\<close>

text \<open>\<open>Inl\<close> is a raised exception, \<open>Inr\<close> a normal return.\<close>

fun ebind :: "'e + 'a \<Rightarrow> ('a \<Rightarrow> 'e + 'b) \<Rightarrow> 'e + 'b" where
  "ebind (Inl e) f = Inl e"
| "ebind (Inr x) f = f x"

lemma ebind_Inr_iff: "ebind m f = Inr y \<longleftrightarrow> (\<exists>x. m = Inr x \<and> f x = Inr y)"
  by (cases m) auto

lemma ebind_Inl_iff: "ebind m f = Inl e \<longleftrightarrow> m = Inl e \<or> (\<exists>x. m = Inr x \<and> f x = Inl e)"
  by (cases m) auto

text \<open>
  \<open>ensures Q m\<close>: if the step \<open>m\<close> returns, the state and value it returns satisfy \<open>Q\<close>.  The
  rules in \<open>steps\<close> walk a handler's binds, branches and early returns, so a property of a
  handler is proved by \<open>intro steps\<close> and the facts of its leaves.
\<close>

definition ensures :: "('d \<Rightarrow> 'x \<Rightarrow> bool) \<Rightarrow> 'e + ('d \<times> 'x) \<Rightarrow> bool" where
  "ensures Q m \<longleftrightarrow> (\<forall>d x. m = Inr (d, x) \<longrightarrow> Q d x)"

lemma ensures_return [simp]: "ensures Q (Inr (d, x)) \<longleftrightarrow> Q d x"
  by (simp add: ensures_def)

lemma ensures_raise [simp]: "ensures Q (Inl e)"
  by (simp add: ensures_def)

lemma ensures_bind: "(\<And>x. m = Inr x \<Longrightarrow> ensures Q (f x)) \<Longrightarrow> ensures Q (ebind m f)"
  by (cases m) (auto simp: ensures_def)

lemma ensures_option:
  "\<lbrakk>v = None \<Longrightarrow> ensures Q a; \<And>x. v = Some x \<Longrightarrow> ensures Q (b x)\<rbrakk>
   \<Longrightarrow> ensures Q (case v of None \<Rightarrow> a | Some x \<Rightarrow> b x)"
  by (cases v) auto

lemma ensures_pair: "(\<And>x y. p = (x, y) \<Longrightarrow> ensures Q (f x y)) \<Longrightarrow> ensures Q (case p of (x, y) \<Rightarrow> f x y)"
  by (cases p) auto

lemma ensures_if:
  "\<lbrakk>b \<Longrightarrow> ensures Q x; \<not> b \<Longrightarrow> ensures Q y\<rbrakk> \<Longrightarrow> ensures Q (if b then x else y)"
  by auto

lemma ensures_let: "(\<And>y. y = x \<Longrightarrow> ensures Q (f y)) \<Longrightarrow> ensures Q (let y = x in f y)"
  by simp

lemmas steps = ensures_bind ensures_option ensures_pair ensures_if ensures_let

lemma ensuresD: "ensures Q m \<Longrightarrow> m = Inr (d, x) \<Longrightarrow> Q d x"
  by (simp add: ensures_def)

subsection \<open>Optional values\<close>

text \<open>\<open>a or b\<close> on optional strings: \<open>None\<close> and the empty string are falsy.\<close>

fun truthy :: "string option \<Rightarrow> bool" where
  "truthy None = False"
| "truthy (Some x) = (x \<noteq> [])"

definition por :: "string option \<Rightarrow> string option \<Rightarrow> string option" where
  "por a b = (if truthy a then a else b)"

text \<open>The guard \<open>want is not None and have != want\<close>, negated.\<close>

fun matches :: "'a option \<Rightarrow> 'a option \<Rightarrow> bool" where
  "matches None have = True"
| "matches (Some w) have = (have = Some w)"

text \<open>The SQL condition \<open>t IS NULL OR t <= now\<close>.\<close>

fun due :: "instant option \<Rightarrow> instant \<Rightarrow> bool" where
  "due None now = True"
| "due (Some t) now = (t \<le> now)"

text \<open>\<open>limit is not None and count >= limit\<close>.\<close>

fun exhausted :: "int option \<Rightarrow> int \<Rightarrow> bool" where
  "exhausted None count = False"
| "exhausted (Some limit) count = (limit \<le> count)"

lemma due_mono: "due t now \<Longrightarrow> now \<le> later \<Longrightarrow> due t later"
  by (cases t) auto

subsection \<open>Tables\<close>

fun tget :: "('r \<Rightarrow> uuid) \<Rightarrow> 'r list \<Rightarrow> uuid \<Rightarrow> 'r option" where
  "tget key [] i = None"
| "tget key (r # rs) i = (if key r = i then Some r else tget key rs i)"

definition tput :: "('r \<Rightarrow> uuid) \<Rightarrow> 'r \<Rightarrow> 'r list \<Rightarrow> 'r list" where
  "tput key r rs = map (\<lambda>x. if key x = key r then r else x) rs"

text \<open>
  \<open>scalar_one_or_none\<close> on the rows a \<open>WHERE\<close> clause selects: no row is \<open>None\<close>, one row is
  the row, and more than one raises (\<open>None\<close> of the outer option).
\<close>

definition one_or_none :: "'e \<Rightarrow> ('r \<Rightarrow> bool) \<Rightarrow> 'r list \<Rightarrow> 'e + 'r option" where
  "one_or_none multiple P rs =
     (case filter P rs of [] \<Rightarrow> Inr None | [r] \<Rightarrow> Inr (Some r) | _ \<Rightarrow> Inl multiple)"

lemma tget_SomeD: "tget key rs i = Some r \<Longrightarrow> r \<in> set rs \<and> key r = i"
  by (induction rs) (auto split: if_splits)

lemma tget_key [dest]: "tget key rs i = Some r \<Longrightarrow> key r = i"
  by (simp add: tget_SomeD)

lemma tget_None_iff: "tget key rs i = None \<longleftrightarrow> i \<notin> key ` set rs"
  by (induction rs) auto

lemma tget_mem: "distinct (map key rs) \<Longrightarrow> r \<in> set rs \<Longrightarrow> tget key rs (key r) = Some r"
  by (induction rs) (auto simp: rev_image_eqI)

lemma tget_append [table_simps]:
  "tget key (rs @ ss) i = (case tget key rs i of None \<Rightarrow> tget key ss i | Some r \<Rightarrow> Some r)"
  by (induction rs) auto

lemma tget_tput [table_simps]:
  "tget key (tput key r rs) i =
     (if i = key r \<and> tget key rs i \<noteq> None then Some r else tget key rs i)"
  by (induction rs) (auto simp: tput_def)

lemma map_key_tput [table_simps]: "map key (tput key r rs) = map key rs"
  by (induction rs) (auto simp: tput_def)

lemma length_tput [simp]: "length (tput key r rs) = length rs"
  by (simp add: tput_def)

lemma set_tput: "set (tput key r rs) \<subseteq> insert r (set rs)"
  by (auto simp: tput_def)

lemma tput_noop: "distinct (map key rs) \<Longrightarrow> r \<in> set rs \<Longrightarrow> tput key r rs = rs"
  by (auto simp: tput_def inj_on_def distinct_map intro!: map_idI)

lemma map_tput:
  assumes "distinct (map key rs)" and "tget key rs (key r) = Some r0" and "f r = f r0"
  shows "map f (tput key r rs) = map f rs"
proof -
  have "f (if key x = key r then r else x) = f x" if "x \<in> set rs" for x
    using assms that tget_mem [OF assms(1) that] by auto
  then show ?thesis by (auto simp: tput_def)
qed

lemma filter_tput_irrelevant:
  assumes "\<And>x. x \<in> set rs \<Longrightarrow> key x = key r \<Longrightarrow> \<not> P x" and "\<not> P r"
  shows "filter P (tput key r rs) = filter P rs"
  using assms by (induction rs) (auto simp: tput_def)

lemma ball_tput:
  "(\<forall>x \<in> set rs. P x) \<Longrightarrow> P r \<Longrightarrow> \<forall>x \<in> set (tput key r rs). P x"
  by (auto simp: tput_def)

text \<open>
  A select that pins the primary key returns at most one row, so it never raises, and it
  returns what the primary-key read returns if the rest of the condition holds.
\<close>

lemma filter_key:
  "distinct (map key rs) \<Longrightarrow>
   filter (\<lambda>r. key r = i \<and> Q r) rs =
     (case tget key rs i of None \<Rightarrow> [] | Some r \<Rightarrow> if Q r then [r] else [])"
proof (induction rs)
  case Nil
  then show ?case by simp
next
  case (Cons x rs)
  show ?case
  proof (cases "key x = i")
    case True
    with Cons.prems have "tget key rs i = None" by (auto simp: tget_None_iff)
    with Cons True show ?thesis by simp
  next
    case False
    with Cons show ?thesis by simp
  qed
qed

lemma one_or_none_key:
  assumes "distinct (map key rs)"
  shows "one_or_none e (\<lambda>r. key r = i \<and> Q r) rs =
     Inr (case tget key rs i of None \<Rightarrow> None | Some r \<Rightarrow> if Q r then Some r else None)"
  by (simp add: one_or_none_def filter_key [OF assms] split: option.split)

lemma one_or_none_Some:
  assumes "one_or_none e P rs = Inr (Some r)"
  shows "r \<in> set rs \<and> P r"
proof -
  have "filter P rs = [r]" using assms by (auto simp: one_or_none_def split: list.splits)
  then have "r \<in> set (filter P rs)" by simp
  then show ?thesis by simp
qed

lemma one_or_none_None:
  "one_or_none e P rs = Inr None \<longleftrightarrow> (\<forall>r \<in> set rs. \<not> P r)"
proof -
  have "one_or_none e P rs = Inr None \<longleftrightarrow> filter P rs = []"
    by (auto simp: one_or_none_def split: list.splits)
  then show ?thesis by (simp add: filter_empty_conv)
qed

text \<open>Two rows that agree on a unique column are one row, so a select on it is single-valued.\<close>

lemma one_or_none_unique:
  assumes "distinct (map f rs)" and "\<And>r. P r \<Longrightarrow> f r = v"
  shows "one_or_none e P rs \<noteq> Inl e'"
proof -
  have "length (filter P rs) \<le> 1"
    using assms
  proof (induction rs)
    case (Cons x rs)
    show ?case
    proof (cases "P x")
      case True
      with Cons.prems have "\<not> P y" if "y \<in> set rs" for y
        using that by (auto simp: image_iff)
      then have "filter P rs = []" by (simp add: filter_empty_conv)
      with True show ?thesis by simp
    next
      case False
      with Cons show ?thesis by simp
    qed
  qed simp
  then show ?thesis
    by (auto simp: one_or_none_def split: list.splits)
qed

subsection \<open>The row-store interface\<close>

text \<open>
  A repository holds rows addressed by a key.  It relies on three laws: a read returns a row
  with the asked key, a write is seen by the next read of that key, and a write to one key
  leaves every other key alone.
\<close>

locale row_store =
  fixes key :: "'r \<Rightarrow> uuid"
    and get :: "'s \<Rightarrow> uuid \<Rightarrow> 'r option"
    and put :: "'r \<Rightarrow> 's \<Rightarrow> 's"
  assumes get_key: "get s i = Some r \<Longrightarrow> key r = i"
    and get_put: "get (put r s) i = (if i = key r \<and> get s i \<noteq> None then Some r else get s i)"
begin

lemma get_put_same: "get s (key r) \<noteq> None \<Longrightarrow> get (put r s) (key r) = Some r"
  by (simp add: get_put)

lemma get_put_other: "i \<noteq> key r \<Longrightarrow> get (put r s) i = get s i"
  by (simp add: get_put)

lemma put_creates_nothing: "get (put r s) i = None \<longleftrightarrow> get s i = None"
  by (cases "get s i") (auto simp: get_put)

lemma put_put: "key r = key r' \<Longrightarrow> get (put r (put r' s)) i = get (put r s) i"
  by (cases "get s i") (auto simp: get_put)

lemma put_commute:
  "key r \<noteq> key r' \<Longrightarrow> get (put r (put r' s)) i = get (put r' (put r s)) i"
  by (cases "get s i") (auto simp: get_put)

end

lemma list_row_store: "row_store key (tget key) (tput key)"
  by unfold_locales (auto simp: tget_tput)

end
