(* ===== verification/Ingestion_Model.thy ===== *)
theory Ingestion_Model
  imports Prelude
begin

section \<open>Ingestion: the durable tables\<close>

text \<open>
  The tables of \<open>contexta/models/ingestion.py\<close> that the ingestion repositories of
  \<open>contexta/repositories/ingestion_repo.py\<close> read and write: observations, attempts, dead
  letters and outbox events, one record per row, one field per column the code uses, and the
  unique constraints the tables declare.  Generated values (\<open>uuid4()\<close>, the clock) are
  arguments of every operation.  A session knows its tenant, whether its dialect supports
  \<open>FOR UPDATE SKIP LOCKED\<close>, and which rows other transactions hold locked.
\<close>

subsection \<open>Rows\<close>

datatype obs_status =
  OPending | OProcessing | ORetrying | OCompleted | OFailed | ODeadLetter

datatype evt_status = EPending | EClaimed | EPublished | EFailed | EDeadLetter

record observation =
  ob_id :: uuid
  ob_org :: uuid
  ob_user :: uuid
  ob_session :: "uuid option"
  ob_key :: string
  ob_hash :: string
  ob_payload :: json
  ob_metadata :: "json option"
  ob_source :: string
  ob_status :: obs_status
  ob_attempt_count :: int
  ob_lease_owner :: "string option"
  ob_lease_token :: "uuid option"
  ob_lease_until :: "instant option"
  ob_next_attempt_at :: "instant option"
  ob_last_error :: "string option"
  ob_completed_at :: "instant option"
  ob_created_at :: instant
  ob_updated_at :: instant

record attempt =
  at_id :: uuid
  at_org :: uuid
  at_obs :: uuid
  at_number :: int
  at_status :: obs_status
  at_worker :: "string option"
  at_token :: "uuid option"
  at_lease_until :: "instant option"
  at_started_at :: instant
  at_finished_at :: "instant option"
  at_error_type :: "string option"
  at_error_message :: "string option"
  at_error_details :: "json option"

record dead_letter_row =
  dl_org :: uuid
  dl_obs :: uuid
  dl_attempt :: "uuid option"
  dl_reason :: string
  dl_error_type :: "string option"
  dl_error_message :: "string option"
  dl_error_details :: "json option"
  dl_failed_at :: instant

record event =
  ev_id :: uuid
  ev_org :: uuid
  ev_obs :: uuid
  ev_attempt :: "uuid option"
  ev_type :: string
  ev_key :: string
  ev_status :: evt_status
  ev_available_at :: instant
  ev_claimed_at :: "instant option"
  ev_lease_owner :: "string option"
  ev_lease_token :: "uuid option"
  ev_lease_until :: "instant option"
  ev_attempt_count :: int
  ev_published_at :: "instant option"
  ev_last_error :: "string option"
  ev_created_at :: instant

record db =
  observations :: "observation list"
  attempts :: "attempt list"
  dead_letters :: "dead_letter_row list"
  events :: "event list"

definition empty_db :: db where
  "empty_db = \<lparr>observations = [], attempts = [], dead_letters = [], events = []\<rparr>"

subsection \<open>Sessions and errors\<close>

datatype dialect = Postgresql | Cockroachdb | OtherDialect

record session =
  ss_tenant :: uuid
  ss_dialect :: dialect
  ss_locked :: "uuid list"

datatype ingestion_error =
  IdempotencyConflictError | MultipleResultsFound | ValueError | RuntimeError | IntegrityError

type_synonym 'a outcome = "ingestion_error + (db \<times> 'a)"

text \<open>\<open>_with_skip_locked\<close>: a row another transaction holds is skipped, on dialects that can.\<close>

definition with_skip_locked :: "session \<Rightarrow> uuid \<Rightarrow> bool" where
  "with_skip_locked s i \<longleftrightarrow> \<not> (ss_dialect s \<in> {Postgresql, Cockroachdb} \<and> i \<in> set (ss_locked s))"

definition normalize_lease :: "int \<Rightarrow> int" where
  "normalize_lease lease_seconds = max 1 lease_seconds"

lemma normalize_lease_pos [simp]: "0 < normalize_lease n"
  by (simp add: normalize_lease_def)

lemma lease_after_now [simp]: "now < now + seconds (normalize_lease n)"
  by simp

text \<open>
  The scoped single-row selects: \<open>_scope_select\<close> adds the tenant condition on the table
  being selected, \<open>_with_skip_locked\<close> the lock condition.
\<close>

definition select_observation ::
  "session \<Rightarrow> (observation \<Rightarrow> bool) \<Rightarrow> db \<Rightarrow> ingestion_error + observation option" where
  "select_observation s P d =
     one_or_none MultipleResultsFound
       (\<lambda>r. P r \<and> ob_org r = ss_tenant s) (observations d)"

definition lock_observation ::
  "session \<Rightarrow> uuid \<Rightarrow> (observation \<Rightarrow> bool) \<Rightarrow> db \<Rightarrow> ingestion_error + observation option" where
  "lock_observation s i P d =
     one_or_none MultipleResultsFound
       (\<lambda>r. ob_id r = i \<and> P r \<and> ob_org r = ss_tenant s \<and> with_skip_locked s (ob_id r))
       (observations d)"

definition lock_attempt ::
  "session \<Rightarrow> uuid \<Rightarrow> db \<Rightarrow> ingestion_error + attempt option" where
  "lock_attempt s i d =
     one_or_none MultipleResultsFound
       (\<lambda>r. at_id r = i \<and> at_org r = ss_tenant s \<and> with_skip_locked s (at_id r))
       (attempts d)"

definition lock_event ::
  "session \<Rightarrow> uuid \<Rightarrow> db \<Rightarrow> ingestion_error + event option" where
  "lock_event s i d =
     one_or_none MultipleResultsFound
       (\<lambda>r. ev_id r = i \<and> ev_org r = ss_tenant s \<and> with_skip_locked s (ev_id r))
       (events d)"

definition set_observation :: "observation \<Rightarrow> db \<Rightarrow> db" where
  "set_observation r d = d\<lparr>observations := tput ob_id r (observations d)\<rparr>"

definition set_attempt :: "attempt \<Rightarrow> db \<Rightarrow> db" where
  "set_attempt r d = d\<lparr>attempts := tput at_id r (attempts d)\<rparr>"

definition set_event :: "event \<Rightarrow> db \<Rightarrow> db" where
  "set_event r d = d\<lparr>events := tput ev_id r (events d)\<rparr>"

abbreviation get_observation :: "db \<Rightarrow> uuid \<Rightarrow> observation option" where
  "get_observation d \<equiv> tget ob_id (observations d)"

abbreviation get_attempt :: "db \<Rightarrow> uuid \<Rightarrow> attempt option" where
  "get_attempt d \<equiv> tget at_id (attempts d)"

abbreviation get_event :: "db \<Rightarrow> uuid \<Rightarrow> event option" where
  "get_event d \<equiv> tget ev_id (events d)"

interpretation observation_store: row_store ob_id get_observation set_observation
  by unfold_locales (auto simp: set_observation_def tget_tput)

interpretation attempt_store: row_store at_id get_attempt set_attempt
  by unfold_locales (auto simp: set_attempt_def tget_tput)

interpretation event_store: row_store ev_id get_event set_event
  by unfold_locales (auto simp: set_event_def tget_tput)

subsection \<open>The constraints as an invariant\<close>

text \<open>
  \<open>keys_ok\<close>: primary keys and the declared unique constraints
  (\<open>uq_ingestion_observation_org_idempotency\<close>, \<open>uq_ingestion_attempt_observation_number\<close>,
  \<open>uq_ingestion_dead_letter_observation\<close>, \<open>uq_ingestion_outbox_event_org_key\<close>).
  \<open>leases_ok\<close>: a row carries a lease token exactly while it is claimed.  This one is not
  declared anywhere; it is what the operations keep true between status and lease columns.
\<close>

definition keys_ok :: "db \<Rightarrow> bool" where
  "keys_ok d \<longleftrightarrow>
     distinct (map ob_id (observations d)) \<and>
     distinct (map (\<lambda>r. (ob_org r, ob_key r)) (observations d)) \<and>
     distinct (map at_id (attempts d)) \<and>
     distinct (map (\<lambda>r. (at_obs r, at_number r)) (attempts d)) \<and>
     distinct (map (\<lambda>r. (dl_org r, dl_obs r)) (dead_letters d)) \<and>
     distinct (map ev_id (events d)) \<and>
     distinct (map (\<lambda>r. (ev_org r, ev_key r)) (events d))"

definition obs_lease_ok :: "observation \<Rightarrow> bool" where
  "obs_lease_ok r \<longleftrightarrow> (ob_status r = OProcessing \<longleftrightarrow> ob_lease_token r \<noteq> None) \<and>
     (ob_lease_token r = None \<longleftrightarrow> ob_lease_until r = None) \<and>
     (ob_lease_token r = None \<longleftrightarrow> ob_lease_owner r = None)"

definition evt_lease_ok :: "event \<Rightarrow> bool" where
  "evt_lease_ok r \<longleftrightarrow> (ev_status r = EClaimed \<longleftrightarrow> ev_lease_token r \<noteq> None) \<and>
     (ev_lease_token r = None \<longleftrightarrow> ev_lease_until r = None) \<and>
     (ev_lease_token r = None \<longleftrightarrow> ev_lease_owner r = None)"

definition leases_ok :: "db \<Rightarrow> bool" where
  "leases_ok d \<longleftrightarrow> (\<forall>r \<in> set (observations d). obs_lease_ok r) \<and>
     (\<forall>r \<in> set (events d). evt_lease_ok r)"

definition db_ok :: "db \<Rightarrow> bool" where
  "db_ok d \<longleftrightarrow> keys_ok d \<and> leases_ok d"

lemma db_ok_empty: "db_ok empty_db"
  by (simp add: db_ok_def keys_ok_def leases_ok_def empty_db_def)

lemma keys_okD:
  assumes "keys_ok d"
  shows "distinct (map ob_id (observations d))"
    and "distinct (map at_id (attempts d))"
    and "distinct (map ev_id (events d))"
  using assms by (auto simp: keys_ok_def)

lemma db_okD: "db_ok d \<Longrightarrow> keys_ok d" "db_ok d \<Longrightarrow> leases_ok d"
  by (auto simp: db_ok_def)

text \<open>Under the invariant a single-row select by primary key never raises.\<close>

lemma lock_observation_eq:
  assumes "keys_ok d"
  shows "lock_observation s i P d =
    Inr (case get_observation d i of None \<Rightarrow> None
         | Some r \<Rightarrow> if P r \<and> ob_org r = ss_tenant s \<and> with_skip_locked s i then Some r else None)"
  unfolding lock_observation_def one_or_none_key [OF keys_okD(1) [OF assms]]
  by (auto split: option.splits dest: tget_key)

lemma lock_attempt_eq:
  assumes "keys_ok d"
  shows "lock_attempt s i d =
    Inr (case get_attempt d i of None \<Rightarrow> None
         | Some r \<Rightarrow> if at_org r = ss_tenant s \<and> with_skip_locked s i then Some r else None)"
  unfolding lock_attempt_def one_or_none_key [OF keys_okD(2) [OF assms]]
  by (auto split: option.splits dest: tget_key)

lemma lock_event_eq:
  assumes "keys_ok d"
  shows "lock_event s i d =
    Inr (case get_event d i of None \<Rightarrow> None
         | Some r \<Rightarrow> if ev_org r = ss_tenant s \<and> with_skip_locked s i then Some r else None)"
  unfolding lock_event_def one_or_none_key [OF keys_okD(3) [OF assms]]
  by (auto split: option.splits dest: tget_key)

lemmas select_eqs = lock_observation_eq lock_attempt_eq lock_event_eq

text \<open>What a successful locked select says of the row, whatever the table holds.\<close>

lemma lock_observation_SomeD:
  "lock_observation s i P d = Inr (Some r) \<Longrightarrow>
   r \<in> set (observations d) \<and> ob_id r = i \<and> P r \<and> ob_org r = ss_tenant s"
  unfolding lock_observation_def by (drule one_or_none_Some) simp

lemma lock_attempt_SomeD:
  "lock_attempt s i d = Inr (Some r) \<Longrightarrow>
   r \<in> set (attempts d) \<and> at_id r = i \<and> at_org r = ss_tenant s"
  unfolding lock_attempt_def by (drule one_or_none_Some) simp

lemma lock_event_SomeD:
  "lock_event s i d = Inr (Some r) \<Longrightarrow>
   r \<in> set (events d) \<and> ev_id r = i \<and> ev_org r = ss_tenant s"
  unfolding lock_event_def by (drule one_or_none_Some) simp

subsection \<open>Preservation by single writes\<close>

text \<open>
  Writing back a row read from the table keeps every key constraint if the write keeps the
  columns the constraints mention.
\<close>

lemma map_tput_row:
  assumes "distinct (map key rs)" and "r0 \<in> set rs" and "key r = key r0" and "f r = f r0"
  shows "map f (tput key r rs) = map f rs"
  using map_tput [OF assms(1), of r r0 f] tget_mem [OF assms(1,2)] assms(3,4) by simp

lemma keys_ok_set_observation:
  assumes "keys_ok d" and "r0 \<in> set (observations d)"
    and "ob_id r = ob_id r0" and "ob_org r = ob_org r0" and "ob_key r = ob_key r0"
  shows "keys_ok (set_observation r d)"
  using assms map_tput_row [OF keys_okD(1) [OF assms(1)] assms(2), of r "\<lambda>r. (ob_org r, ob_key r)"]
  by (simp add: keys_ok_def set_observation_def map_key_tput)

lemma keys_ok_set_attempt:
  assumes "keys_ok d" and "r0 \<in> set (attempts d)"
    and "at_id r = at_id r0" and "at_obs r = at_obs r0" and "at_number r = at_number r0"
  shows "keys_ok (set_attempt r d)"
  using assms map_tput_row [OF keys_okD(2) [OF assms(1)] assms(2), of r "\<lambda>r. (at_obs r, at_number r)"]
  by (simp add: keys_ok_def set_attempt_def map_key_tput)

lemma keys_ok_set_event:
  assumes "keys_ok d" and "r0 \<in> set (events d)"
    and "ev_id r = ev_id r0" and "ev_org r = ev_org r0" and "ev_key r = ev_key r0"
  shows "keys_ok (set_event r d)"
  using assms map_tput_row [OF keys_okD(3) [OF assms(1)] assms(2), of r "\<lambda>r. (ev_org r, ev_key r)"]
  by (simp add: keys_ok_def set_event_def map_key_tput)

lemma leases_ok_set_observation:
  "leases_ok d \<Longrightarrow> obs_lease_ok r \<Longrightarrow> leases_ok (set_observation r d)"
  by (auto simp: leases_ok_def set_observation_def tput_def)

lemma leases_ok_set_attempt: "leases_ok (set_attempt r d) = leases_ok d"
  by (simp add: leases_ok_def set_attempt_def)

lemma leases_ok_set_event:
  "leases_ok d \<Longrightarrow> evt_lease_ok r \<Longrightarrow> leases_ok (set_event r d)"
  by (auto simp: leases_ok_def set_event_def tput_def)

lemmas set_keys = keys_ok_set_observation keys_ok_set_attempt keys_ok_set_event
lemmas set_leases = leases_ok_set_observation leases_ok_set_attempt leases_ok_set_event

lemma set_sel [table_simps]:
  "observations (set_observation r d) = tput ob_id r (observations d)"
  "attempts (set_observation r d) = attempts d"
  "dead_letters (set_observation r d) = dead_letters d"
  "events (set_observation r d) = events d"
  "observations (set_attempt a d) = observations d"
  "attempts (set_attempt a d) = tput at_id a (attempts d)"
  "dead_letters (set_attempt a d) = dead_letters d"
  "events (set_attempt a d) = events d"
  "observations (set_event e d) = observations d"
  "attempts (set_event e d) = attempts d"
  "dead_letters (set_event e d) = dead_letters d"
  "events (set_event e d) = tput ev_id e (events d)"
  by (simp_all add: set_observation_def set_attempt_def set_event_def)

subsection \<open>Other tenants' rows\<close>

text \<open>
  What a tenant sees of the store: its own rows.  An operation of one tenant must not change
  any other tenant's view.
\<close>

definition tenant_view :: "uuid \<Rightarrow> db \<Rightarrow> db" where
  "tenant_view t d =
     \<lparr>observations = filter (\<lambda>r. ob_org r = t) (observations d),
      attempts = filter (\<lambda>r. at_org r = t) (attempts d),
      dead_letters = filter (\<lambda>r. dl_org r = t) (dead_letters d),
      events = filter (\<lambda>r. ev_org r = t) (events d)\<rparr>"

lemma filter_tput_other:
  assumes "distinct (map key rs)" and "r0 \<in> set rs" and "key r = key r0"
    and "org r0 \<noteq> t" and "org r \<noteq> t"
  shows "filter (\<lambda>x. org x = t) (tput key r rs) = filter (\<lambda>x. org x = t) rs"
proof (rule filter_tput_irrelevant)
  fix x assume "x \<in> set rs" and "key x = key r"
  with assms(1-3) have "x = r0" by (auto simp: distinct_map inj_on_def)
  with assms(4) show "\<not> org x = t" by simp
qed (use assms in simp)

lemma tenant_view_set_observation:
  assumes "keys_ok d" and "r0 \<in> set (observations d)" and "ob_id r = ob_id r0"
    and "ob_org r0 \<noteq> t" and "ob_org r \<noteq> t"
  shows "tenant_view t (set_observation r d) = tenant_view t d"
  using filter_tput_other [OF keys_okD(1) [OF assms(1)] assms(2-5)]
  by (simp add: tenant_view_def set_observation_def)

lemma tenant_view_set_attempt:
  assumes "keys_ok d" and "r0 \<in> set (attempts d)" and "at_id r = at_id r0"
    and "at_org r0 \<noteq> t" and "at_org r \<noteq> t"
  shows "tenant_view t (set_attempt r d) = tenant_view t d"
  using filter_tput_other [OF keys_okD(2) [OF assms(1)] assms(2-5)]
  by (simp add: tenant_view_def set_attempt_def)

lemma tenant_view_set_event:
  assumes "keys_ok d" and "r0 \<in> set (events d)" and "ev_id r = ev_id r0"
    and "ev_org r0 \<noteq> t" and "ev_org r \<noteq> t"
  shows "tenant_view t (set_event r d) = tenant_view t d"
  using filter_tput_other [OF keys_okD(3) [OF assms(1)] assms(2-5)]
  by (simp add: tenant_view_def set_event_def)

lemmas tenant_view_sets =
  tenant_view_set_observation tenant_view_set_attempt tenant_view_set_event

end
