(* ===== verification/Ingestion_Writes.thy ===== *)
theory Ingestion_Writes
  imports Ingestion_Model
begin

section \<open>Ingestion: the writes an operation may make\<close>

text \<open>
  The abstract step relation of the ingestion store.  One step is one tenant-scoped write: an
  update of a row the tenant owns that keeps the constrained columns, or an insert that
  respects the unique constraints.  Every repository operation is shown to be a sequence of
  such writes, so what one write keeps (the constraints, the lease discipline, the other
  tenants' rows) every operation keeps.
\<close>

inductive row_write :: "session \<Rightarrow> db \<Rightarrow> db \<Rightarrow> bool" for s where
  update_observation:
    "\<lbrakk>r0 \<in> set (observations d); ob_org r0 = ss_tenant s; ob_id r = ob_id r0;
      ob_org r = ob_org r0; ob_key r = ob_key r0; obs_lease_ok r\<rbrakk>
     \<Longrightarrow> row_write s d (set_observation r d)"
| update_attempt:
    "\<lbrakk>a0 \<in> set (attempts d); at_org a0 = ss_tenant s; at_id a = at_id a0;
      at_org a = at_org a0; at_obs a = at_obs a0; at_number a = at_number a0\<rbrakk>
     \<Longrightarrow> row_write s d (set_attempt a d)"
| update_event:
    "\<lbrakk>e0 \<in> set (events d); ev_org e0 = ss_tenant s; ev_id e = ev_id e0;
      ev_org e = ev_org e0; ev_key e = ev_key e0; evt_lease_ok e\<rbrakk>
     \<Longrightarrow> row_write s d (set_event e d)"
| insert_observation_row:
    "\<lbrakk>ob_org r = ss_tenant s; ob_id r \<notin> ob_id ` set (observations d); obs_lease_ok r;
      \<forall>x \<in> set (observations d). \<not> (ob_org x = ob_org r \<and> ob_key x = ob_key r)\<rbrakk>
     \<Longrightarrow> row_write s d (d\<lparr>observations := observations d @ [r]\<rparr>)"
| insert_attempt_row:
    "\<lbrakk>at_org a = ss_tenant s; at_id a \<notin> at_id ` set (attempts d);
      \<forall>x \<in> set (attempts d). \<not> (at_obs x = at_obs a \<and> at_number x = at_number a)\<rbrakk>
     \<Longrightarrow> row_write s d (d\<lparr>attempts := attempts d @ [a]\<rparr>)"
| insert_event_row:
    "\<lbrakk>ev_org e = ss_tenant s; ev_id e \<notin> ev_id ` set (events d); evt_lease_ok e;
      \<forall>x \<in> set (events d). \<not> (ev_org x = ev_org e \<and> ev_key x = ev_key e)\<rbrakk>
     \<Longrightarrow> row_write s d (d\<lparr>events := events d @ [e]\<rparr>)"
| insert_dead_letter_row:
    "\<lbrakk>dl_org x = ss_tenant s;
      \<forall>y \<in> set (dead_letters d). \<not> (dl_obs y = dl_obs x \<and> dl_org y = ss_tenant s)\<rbrakk>
     \<Longrightarrow> row_write s d (d\<lparr>dead_letters := dead_letters d @ [x]\<rparr>)"

abbreviation writes :: "session \<Rightarrow> db \<Rightarrow> db \<Rightarrow> bool" where
  "writes s \<equiv> (row_write s)\<^sup>*\<^sup>*"

lemma writes_refl [intro, simp]: "writes s d d"
  by simp

lemma row_write_writes [intro]: "row_write s d d' \<Longrightarrow> writes s d d'"
  by (rule r_into_rtranclp)

lemma writes_trans [trans]: "writes s a b \<Longrightarrow> writes s b c \<Longrightarrow> writes s a c"
  by (rule rtranclp_trans)

subsection \<open>What one write keeps\<close>

lemma row_write_keys_ok: "row_write s d d' \<Longrightarrow> keys_ok d \<Longrightarrow> keys_ok d'"
proof (induction rule: row_write.induct)
  case (update_observation r0 d r)
  from update_observation(7,1,3,4,5) show ?case by (rule keys_ok_set_observation)
next
  case (update_attempt a0 d a)
  from update_attempt(7,1,3,5,6) show ?case by (rule keys_ok_set_attempt)
next
  case (update_event e0 d e)
  from update_event(7,1,3,4,5) show ?case by (rule keys_ok_set_event)
qed (auto simp: keys_ok_def)

lemma row_write_leases_ok: "row_write s d d' \<Longrightarrow> leases_ok d \<Longrightarrow> leases_ok d'"
proof (induction rule: row_write.induct)
  case (update_observation r0 d r)
  then show ?case by (simp add: leases_ok_set_observation)
next
  case (update_attempt a0 d a)
  then show ?case by (simp add: leases_ok_set_attempt)
next
  case (update_event e0 d e)
  then show ?case by (simp add: leases_ok_set_event)
qed (auto simp: leases_ok_def)

lemma row_write_tenant_view:
  "row_write s d d' \<Longrightarrow> keys_ok d \<Longrightarrow> t \<noteq> ss_tenant s \<Longrightarrow> tenant_view t d' = tenant_view t d"
proof (induction rule: row_write.induct)
  case (update_observation r0 d r)
  then show ?case by (intro tenant_view_set_observation [where ?r0.0 = r0]) auto
next
  case (update_attempt a0 d a)
  then show ?case by (intro tenant_view_set_attempt [where ?r0.0 = a0]) auto
next
  case (update_event e0 d e)
  then show ?case by (intro tenant_view_set_event [where ?r0.0 = e0]) auto
qed (auto simp: tenant_view_def)

text \<open>Nothing is ever deleted: the keys of every table only grow.\<close>

lemma row_write_keeps_rows:
  "row_write s d d' \<Longrightarrow>
   ob_id ` set (observations d) \<subseteq> ob_id ` set (observations d') \<and>
   at_id ` set (attempts d) \<subseteq> at_id ` set (attempts d') \<and>
   ev_id ` set (events d) \<subseteq> ev_id ` set (events d') \<and>
   set (dead_letters d) \<subseteq> set (dead_letters d')"
  by (induction rule: row_write.induct)
     (auto simp: table_simps simp flip: set_map)

subsection \<open>What a sequence of writes keeps\<close>

lemma writes_db_ok: "writes s d d' \<Longrightarrow> db_ok d \<Longrightarrow> db_ok d'"
  by (induction rule: rtranclp_induct)
     (auto simp: db_ok_def intro: row_write_keys_ok row_write_leases_ok)

lemma writes_keys_ok: "writes s d d' \<Longrightarrow> keys_ok d \<Longrightarrow> keys_ok d'"
  by (induction rule: rtranclp_induct) (auto intro: row_write_keys_ok)

lemma writes_tenant_view:
  "writes s d d' \<Longrightarrow> keys_ok d \<Longrightarrow> t \<noteq> ss_tenant s \<Longrightarrow> tenant_view t d' = tenant_view t d"
proof (induction rule: rtranclp_induct)
  case (step y z)
  then have "keys_ok y" by (blast intro: writes_keys_ok)
  with step show ?case by (auto dest: row_write_tenant_view)
qed simp

lemma writes_keeps_rows:
  "writes s d d' \<Longrightarrow>
   ob_id ` set (observations d) \<subseteq> ob_id ` set (observations d') \<and>
   at_id ` set (attempts d) \<subseteq> at_id ` set (attempts d') \<and>
   ev_id ` set (events d) \<subseteq> ev_id ` set (events d') \<and>
   set (dead_letters d) \<subseteq> set (dead_letters d')"
proof (induction rule: rtranclp_induct)
  case (step y z)
  from step.IH row_write_keeps_rows [OF step.hyps(2)] show ?case by (meson subset_trans)
qed simp

text \<open>Sequencing: a handler that has only written so far goes on with another operation.\<close>

lemma writes_then:
  assumes "writes s d0 d" and "ensures (\<lambda>d' _. writes s d d') m"
    and "\<And>d' x. writes s d0 d' \<Longrightarrow> ensures (\<lambda>d'' _. writes s d0 d'') (f (d', x))"
  shows "ensures (\<lambda>d'' _. writes s d0 d'') (ebind m f)"
proof (rule ensures_bind)
  fix p assume "m = Inr p"
  then obtain d' x where p: "p = (d', x)" "m = Inr (d', x)" by (cases p) auto
  then have "writes s d0 d'" using assms(1,2) by (auto dest: ensuresD intro: writes_trans)
  then show "ensures (\<lambda>d'' _. writes s d0 d'') (f p)" unfolding p by (rule assms(3))
qed

lemma writes_return: "writes s d0 d \<Longrightarrow> ensures (\<lambda>d'' _. writes s d0 d'') (Inr (d, x))"
  by simp

lemmas writes_facts = writes_db_ok writes_tenant_view writes_keeps_rows

end
