(* ===== verification/Lease.thy ===== *)
theory Lease
  imports Prelude
begin

section \<open>The lease interface\<close>

text \<open>
  What the workers rely on when they claim work from a shared store: an acquisition succeeds
  only when no unexpired lease is in the way, and it leaves a lease of at least \<open>len\<close>
  microseconds (positive).  A caller \<open>'c\<close> is everything that distinguishes one claimer from
  another (session, worker name, lease length, attempt limit); \<open>until\<close> reads the deadline of
  the one resource the instance is about; \<open>acquire\<close> is \<open>None\<close> when the claim is refused.
  Both the observation claim and the outbox claim are instances.
\<close>

locale lease =
  fixes inv :: "'s \<Rightarrow> bool"
    and until :: "'s \<Rightarrow> instant option"
    and acquire :: "'c \<Rightarrow> instant \<Rightarrow> 's \<Rightarrow> 's option"
    and len :: "'c \<Rightarrow> int"
  assumes len_pos: "0 < len c"
    and acquire_inv: "inv s \<Longrightarrow> acquire c now s = Some s' \<Longrightarrow> inv s'"
    and acquire_due: "inv s \<Longrightarrow> acquire c now s = Some s' \<Longrightarrow> due (until s) now"
    and acquire_until: "inv s \<Longrightarrow> acquire c now s = Some s' \<Longrightarrow> until s' = Some (now + len c)"
begin

text \<open>While a lease runs nobody acquires the resource, its holder included.\<close>

lemma exclusive:
  assumes "inv s" and "acquire c now s = Some s'" and "later < now + len c"
  shows "acquire c' later s' = None"
proof (rule ccontr)
  assume "acquire c' later s' \<noteq> None"
  then obtain s'' where "acquire c' later s' = Some s''" by blast
  then have "due (until s') later"
    using acquire_inv [OF assms(1,2)] by (rule acquire_due [rotated])
  with acquire_until [OF assms(1,2)] assms(3) show False by simp
qed

text \<open>
  A history of attempts to acquire, each by some caller at some instant, refused ones leaving
  the state alone: those that succeeded are a lease apart.
\<close>

fun granted :: "('c \<times> instant) list \<Rightarrow> 's \<Rightarrow> ('c \<times> instant) list" where
  "granted [] s = []"
| "granted ((c, t) # ts) s =
     (case acquire c t s of None \<Rightarrow> granted ts s | Some s' \<Rightarrow> (c, t) # granted ts s')"

lemma granted_after:
  assumes "inv s" and "until s = Some u" and "(c, t) \<in> set (granted ts s)"
  shows "u \<le> t"
  using assms
proof (induction ts s arbitrary: u rule: granted.induct)
  case (2 c0 t0 ts s)
  show ?case
  proof (cases "acquire c0 t0 s")
    case None
    with 2 show ?thesis by simp
  next
    case (Some s')
    have u0: "u \<le> t0" using acquire_due [OF 2(3) Some] 2(4) by simp
    have "t0 + len c0 \<le> t" if "(c, t) \<in> set (granted ts s')"
      using 2(2) [OF Some acquire_inv [OF 2(3) Some] acquire_until [OF 2(3) Some] that] .
    with u0 Some 2(5) len_pos [of c0] show ?thesis by fastforce
  qed
qed simp

lemma granted_spaced:
  assumes "inv s"
  shows "sorted_wrt (\<lambda>(c1, t1) (c2, t2). t1 + len c1 \<le> t2) (granted ts s)"
  using assms
proof (induction ts s rule: granted.induct)
  case (2 c0 t0 ts s)
  show ?case
  proof (cases "acquire c0 t0 s")
    case None
    with 2 show ?thesis by simp
  next
    case (Some s')
    have inv': "inv s'" using acquire_inv [OF 2(3) Some] .
    show ?thesis
      using Some 2(2) [OF Some inv'] granted_after [OF inv' acquire_until [OF 2(3) Some]]
      by auto
  qed
qed simp

end

end
