(* ===== verification/Py_Text.thy ===== *)
theory Py_Text
  imports Prelude
begin

section \<open>Python string operations the code uses\<close>

text \<open>
  A Python string is a list of characters; the model covers code points below 256 (the
  \<open>char\<close> type), on which the definitions below agree with CPython's \<open>str\<close> methods:
  \<open>isspace\<close>, \<open>isdigit\<close>, \<open>strip\<close>, \<open>lower\<close>, \<open>casefold\<close> (whose one result above
  that range, for the micro sign, is left unfolded), \<open>split()\<close>, \<open>join\<close>, \<open>in\<close>,
  \<open>startswith\<close>, \<open>find\<close> and \<open>replace\<close>.
\<close>

named_theorems text_simps

subsection \<open>Character classes\<close>

abbreviation code :: "char \<Rightarrow> nat" where
  "code c \<equiv> of_char c"

definition is_space :: "char \<Rightarrow> bool" where
  "is_space c \<longleftrightarrow> code c \<in> {9, 10, 11, 12, 13, 28, 29, 30, 31, 32, 133, 160}"

text \<open>\<open>\d\<close> matches decimal digits; \<open>str.isdigit\<close> also accepts the superscripts.\<close>

definition is_decimal :: "char \<Rightarrow> bool" where
  "is_decimal c \<longleftrightarrow> 48 \<le> code c \<and> code c \<le> 57"

definition is_digit :: "char \<Rightarrow> bool" where
  "is_digit c \<longleftrightarrow> is_decimal c \<or> code c \<in> {178, 179, 185}"

text \<open>\<open>int(c)\<close> of a decimal digit.\<close>

definition digit_val :: "char \<Rightarrow> nat" where
  "digit_val c = code c - 48"

lemma digit_val_less: "is_decimal c \<Longrightarrow> digit_val c < 10"
  by (auto simp: is_decimal_def digit_val_def)

definition is_upper_letter :: "char \<Rightarrow> bool" where
  "is_upper_letter c \<longleftrightarrow>
     (65 \<le> code c \<and> code c \<le> 90) \<or> (192 \<le> code c \<and> code c \<le> 222 \<and> code c \<noteq> 215)"

definition is_ascii_letter :: "char \<Rightarrow> bool" where
  "is_ascii_letter c \<longleftrightarrow>
     (65 \<le> code c \<and> code c \<le> 90) \<or> (97 \<le> code c \<and> code c \<le> 122)"

definition is_word :: "char \<Rightarrow> bool" where
  "is_word c \<longleftrightarrow> is_ascii_letter c \<or> is_digit c \<or> code c = 95
     \<or> code c \<in> {170, 181, 186, 188, 189, 190}
     \<or> (192 \<le> code c \<and> code c \<noteq> 215 \<and> code c \<noteq> 247)"

definition lower_char :: "char \<Rightarrow> char" where
  "lower_char c = (if is_upper_letter c then char_of (code c + 32) else c)"

definition lower :: "string \<Rightarrow> string" where
  "lower s = map lower_char s"

definition casefold :: "string \<Rightarrow> string" where
  "casefold s = concat (map (\<lambda>c. if code c = 223 then ''ss'' else [lower_char c]) s)"

lemma code_lower_char:
  "code (lower_char c) = (if is_upper_letter c then code c + 32 else code c)"
proof (cases "is_upper_letter c")
  case True
  then have "code c + 32 < 256" by (auto simp: is_upper_letter_def)
  with True show ?thesis by (simp add: lower_char_def)
qed (simp add: lower_char_def)

lemma lower_char_idem [simp]: "lower_char (lower_char c) = lower_char c"
proof -
  have "\<not> is_upper_letter (lower_char c)"
    unfolding is_upper_letter_def code_lower_char by (auto simp: is_upper_letter_def)
  then show ?thesis by (simp add: lower_char_def [of "lower_char c"])
qed

lemma lower_idem [simp]: "lower (lower s) = lower s"
  by (simp add: lower_def)

lemma lower_append [text_simps]: "lower (xs @ ys) = lower xs @ lower ys"
  by (simp add: lower_def)

lemma length_lower [simp]: "length (lower s) = length s"
  by (simp add: lower_def)

lemma is_space_lower_char [simp]: "is_space (lower_char c) = is_space c"
  unfolding is_space_def code_lower_char by (auto simp: is_upper_letter_def)

subsection \<open>strip and split\<close>

definition lstrip :: "string \<Rightarrow> string" where
  "lstrip s = dropWhile is_space s"

definition rstrip :: "string \<Rightarrow> string" where
  "rstrip s = rev (dropWhile is_space (rev s))"

definition strip :: "string \<Rightarrow> string" where
  "strip s = rstrip (lstrip s)"

fun split_go :: "string \<Rightarrow> string \<Rightarrow> string list" where
  "split_go w [] = (if w = [] then [] else [rev w])"
| "split_go w (c # cs) =
     (if is_space c then (if w = [] then split_go [] cs else rev w # split_go [] cs)
      else split_go (c # w) cs)"

text \<open>\<open>s.split()\<close>: the maximal runs of non-space characters.\<close>

definition split_ws :: "string \<Rightarrow> string list" where
  "split_ws s = split_go [] s"

text \<open>\<open>sep.join(parts)\<close>.\<close>

fun join :: "string \<Rightarrow> string list \<Rightarrow> string" where
  "join sep [] = []"
| "join sep [p] = p"
| "join sep (p # q # ps) = p @ sep @ join sep (q # ps)"

lemma dropWhile_hd: "dropWhile P xs = y # ys \<Longrightarrow> \<not> P y"
  by (induction xs) (auto split: if_splits)

lemma rstrip_last: "rstrip s \<noteq> [] \<Longrightarrow> \<not> is_space (last (rstrip s))"
proof -
  assume ne: "rstrip s \<noteq> []"
  then obtain y ys where eq: "dropWhile is_space (rev s) = y # ys"
    by (cases "dropWhile is_space (rev s)") (auto simp: rstrip_def)
  then show ?thesis
    using dropWhile_hd [OF eq] by (simp add: rstrip_def)
qed

lemma rstrip_prefix: "\<exists>t. s = rstrip s @ t \<and> (\<forall>c \<in> set t. is_space c)"
proof -
  have "rev s = takeWhile is_space (rev s) @ dropWhile is_space (rev s)" by simp
  then have "s = rstrip s @ rev (takeWhile is_space (rev s))"
    by (metis rev_append rev_rev_ident rstrip_def)
  then show ?thesis by (metis set_rev set_takeWhileD)
qed

lemma lstrip_suffix: "\<exists>p. s = p @ lstrip s \<and> (\<forall>c \<in> set p. is_space c)"
  by (metis lstrip_def set_takeWhileD takeWhile_dropWhile_id)

lemma rstrip_noop: "s \<noteq> [] \<Longrightarrow> \<not> is_space (last s) \<Longrightarrow> rstrip s = s"
  by (cases s rule: rev_cases) (auto simp: rstrip_def)

lemma rstrip_hd: "rstrip s \<noteq> [] \<Longrightarrow> hd (rstrip s) = hd s"
  using rstrip_prefix [of s] by (metis hd_append2)

lemma rstrip_empty_iff: "rstrip s = [] \<longleftrightarrow> (\<forall>c \<in> set s. is_space c)"
  by (simp add: rstrip_def dropWhile_eq_Nil_conv)

lemma lstrip_empty_iff: "lstrip s = [] \<longleftrightarrow> (\<forall>c \<in> set s. is_space c)"
  by (simp add: lstrip_def dropWhile_eq_Nil_conv)

lemma strip_empty_iff: "strip s = [] \<longleftrightarrow> (\<forall>c \<in> set s. is_space c)"
proof -
  obtain p where p: "s = p @ lstrip s" "\<forall>c \<in> set p. is_space c"
    using lstrip_suffix by blast
  then have "(\<forall>c \<in> set s. is_space c) \<longleftrightarrow> (\<forall>c \<in> set (lstrip s). is_space c)"
    by (metis Un_iff set_append)
  then show ?thesis by (simp add: strip_def rstrip_empty_iff)
qed

lemma strip_nonempty:
  assumes "strip s \<noteq> []"
  shows "\<not> is_space (hd (strip s))" and "\<not> is_space (last (strip s))"
proof -
  have "lstrip s \<noteq> []" using assms by (auto simp: strip_def rstrip_def)
  then have "\<not> is_space (hd (lstrip s))"
    unfolding lstrip_def by (metis hd_dropWhile)
  with assms show "\<not> is_space (hd (strip s))" by (simp add: strip_def rstrip_hd)
  show "\<not> is_space (last (strip s))"
    using assms rstrip_last by (simp add: strip_def)
qed

lemma strip_trimmed:
  assumes "s = [] \<or> \<not> is_space (hd s) \<and> \<not> is_space (last s)"
  shows "strip s = s"
proof (cases s)
  case (Cons c cs)
  with assms have "lstrip s = s" by (simp add: lstrip_def)
  with assms Cons show ?thesis by (simp add: strip_def rstrip_noop)
qed (simp add: strip_def lstrip_def rstrip_def)

lemma strip_idem [simp]: "strip (strip s) = strip s"
proof (cases "strip s = []")
  case True
  then show ?thesis by (simp add: strip_empty_iff strip_trimmed)
next
  case False
  then show ?thesis by (intro strip_trimmed disjI2 conjI strip_nonempty)
qed

lemma split_go_words:
  "\<forall>c \<in> set w. \<not> is_space c \<Longrightarrow>
   \<forall>x \<in> set (split_go w s). x \<noteq> [] \<and> (\<forall>c \<in> set x. \<not> is_space c)"
proof (induction s arbitrary: w)
  case Nil
  then show ?case by (cases w) simp_all
next
  case (Cons c cs)
  show ?case
  proof (cases "is_space c")
    case True
    from Cons.IH [of "[]"] have "\<forall>x \<in> set (split_go [] cs). x \<noteq> [] \<and> (\<forall>c \<in> set x. \<not> is_space c)" by fastforce
    with True Cons.prems show ?thesis by (cases "w = []") auto
  next
    case False
    with Cons.IH [of "c # w"] Cons.prems show ?thesis by auto
  qed
qed

lemma split_ws_words:
  "x \<in> set (split_ws s) \<Longrightarrow> x \<noteq> [] \<and> (\<forall>c \<in> set x. \<not> is_space c)"
  using split_go_words [of "[]" s] by (simp add: split_ws_def)

lemma concat_split_go:
  "concat (split_go w s) = rev w @ filter (\<lambda>c. \<not> is_space c) s"
  by (induction s arbitrary: w) simp_all

text \<open>Splitting on white space loses only white space.\<close>

lemma concat_split_ws [text_simps]: "concat (split_ws s) = filter (\<lambda>c. \<not> is_space c) s"
  by (simp add: split_ws_def concat_split_go)

lemma length_join:
  "ps \<noteq> [] \<Longrightarrow> length (join sep ps) = sum_list (map length ps) + length sep * (length ps - 1)"
  by (induction sep ps rule: join.induct) auto

lemma filter_join_space:
  "filter (\<lambda>c. \<not> is_space c) (join sep ps) = filter (\<lambda>c. \<not> is_space c) (concat ps)"
  if "\<forall>c \<in> set sep. is_space c"
  using that by (induction sep ps rule: join.induct) (auto simp: filter_empty_conv)

subsection \<open>Searching\<close>

fun starts_with :: "string \<Rightarrow> string \<Rightarrow> bool" where
  "starts_with s [] = True"
| "starts_with [] (p # ps) = False"
| "starts_with (c # cs) (p # ps) = (c = p \<and> starts_with cs ps)"

text \<open>\<open>sub in s\<close>.\<close>

fun contains :: "string \<Rightarrow> string \<Rightarrow> bool" where
  "contains [] sub = (sub = [])"
| "contains (c # cs) sub = (starts_with (c # cs) sub \<or> contains cs sub)"

text \<open>\<open>s.replace(old, new)\<close> for a non-empty \<open>old\<close>: left to right, without overlap.\<close>

function replace :: "string \<Rightarrow> string \<Rightarrow> string \<Rightarrow> string" where
  "replace old new [] = []"
| "replace old new (c # cs) =
     (if old \<noteq> [] \<and> starts_with (c # cs) old
      then new @ replace old new (drop (length old) (c # cs))
      else c # replace old new cs)"
  by pat_completeness auto
termination
  by (relation "measure (\<lambda>(old, new, s). length s)") auto

lemma starts_with_iff: "starts_with s p \<longleftrightarrow> (\<exists>t. s = p @ t)"
  by (induction s p rule: starts_with.induct) auto

lemma contains_iff: "contains s sub \<longleftrightarrow> (\<exists>p t. s = p @ sub @ t)"
proof (induction s sub rule: contains.induct)
  case (2 c cs sub)
  show ?case
  proof
    assume "contains (c # cs) sub"
    then consider t where "c # cs = sub @ t" | p t where "cs = p @ sub @ t"
      using 2 by (auto simp: starts_with_iff)
    then show "\<exists>p t. c # cs = p @ sub @ t"
      by cases (metis append_Nil, metis append_Cons)
  next
    assume "\<exists>p t. c # cs = p @ sub @ t"
    then obtain p t where eq: "c # cs = p @ sub @ t" by blast
    show "contains (c # cs) sub"
    proof (cases p)
      case Nil
      with eq have "starts_with (c # cs) sub" by (simp add: starts_with_iff)
      then show ?thesis by simp
    next
      case (Cons d ps)
      with eq have "cs = ps @ sub @ t" by simp
      with 2 show ?thesis by auto
    qed
  qed
qed auto

lemma contains_append: "contains s sub \<Longrightarrow> contains (p @ s @ t) sub"
  by (metis append.assoc contains_iff)

lemma replace_none: "\<not> contains s old \<Longrightarrow> replace old new s = s"
  by (induction old new s rule: replace.induct) auto

end
