(* ===== verification/Ingestion_Observations.thy ===== *)
theory Ingestion_Observations
  imports Ingestion_Writes Lease Py_Text
begin

section \<open>Ingestion: the observation repository\<close>

text \<open>
  \<open>IngestionObservationRepository\<close> of \<open>contexta/repositories/ingestion_repo.py\<close>: the
  idempotent insert, the lease claim and the three ways an attempt ends.  The request digest
  (\<open>_request_hash\<close>: canonical JSON under SHA-256) is a parameter of the insert.
\<close>

subsection \<open>Idempotent insert\<close>

record request =
  rq_user :: uuid
  rq_session :: "uuid option"
  rq_payload :: json
  rq_metadata :: "json option"
  rq_source :: string

text \<open>\<open>(idempotency_key or str(uuid4())).strip()\<close>, with a fresh key if nothing is left.\<close>

definition effective_key :: "string option \<Rightarrow> string \<Rightarrow> string" where
  "effective_key key fresh =
     (let k = strip (if truthy key then the key else fresh)
      in if k = [] then fresh else k)"

definition check_idempotency_hash ::
  "observation \<Rightarrow> string \<Rightarrow> ingestion_error + unit" where
  "check_idempotency_hash r h =
     (if ob_hash r \<noteq> [] \<and> ob_hash r \<noteq> h then Inl IdempotencyConflictError else Inr ())"

definition get_by_idempotency_key ::
  "session \<Rightarrow> string \<Rightarrow> db \<Rightarrow> ingestion_error + observation option" where
  "get_by_idempotency_key s k d = select_observation s (\<lambda>r. ob_key r = k) d"

definition new_observation ::
  "session \<Rightarrow> (request \<Rightarrow> string) \<Rightarrow> request \<Rightarrow> string \<Rightarrow> uuid \<Rightarrow> instant \<Rightarrow> observation" where
  "new_observation s digest rq k oid now =
     \<lparr>ob_id = oid, ob_org = ss_tenant s, ob_user = rq_user rq, ob_session = rq_session rq,
      ob_key = k, ob_hash = digest rq, ob_payload = rq_payload rq,
      ob_metadata = rq_metadata rq, ob_source = rq_source rq, ob_status = OPending,
      ob_attempt_count = 0, ob_lease_owner = None, ob_lease_token = None,
      ob_lease_until = None, ob_next_attempt_at = Some now, ob_last_error = None,
      ob_completed_at = None, ob_created_at = now, ob_updated_at = now\<rparr>"

text \<open>
  The insert itself: refused (\<open>ON CONFLICT DO NOTHING\<close>, or \<open>IntegrityError\<close> inside the
  savepoint) when the tenant already has a row with the key.
\<close>

definition insert_row :: "observation \<Rightarrow> db \<Rightarrow> db option" where
  "insert_row r d =
     (if \<exists>x \<in> set (observations d). ob_org x = ob_org r \<and> ob_key x = ob_key r then None
      else Some (d\<lparr>observations := observations d @ [r]\<rparr>))"

definition replay ::
  "ingestion_error \<Rightarrow> session \<Rightarrow> string \<Rightarrow> string \<Rightarrow> db \<Rightarrow> (observation \<times> bool) outcome"
  where
  "replay missing s k h d =
     ebind (get_by_idempotency_key s k d) (\<lambda>found. case found of
       None \<Rightarrow> Inl missing
     | Some r \<Rightarrow> ebind (check_idempotency_hash r h) (\<lambda>_. Inr (d, r, False)))"

definition insert_idempotently ::
  "session \<Rightarrow> (request \<Rightarrow> string) \<Rightarrow> string option \<Rightarrow> request \<Rightarrow> string \<Rightarrow> uuid \<Rightarrow> instant \<Rightarrow> db
   \<Rightarrow> (observation \<times> bool) outcome" where
  "insert_idempotently s digest key rq fresh oid now d =
     (let k = effective_key key fresh; r = new_observation s digest rq k oid now
      in if ss_dialect s = Postgresql then
           (case insert_row r d of
              Some d' \<Rightarrow> Inr (d', r, True)
            | None \<Rightarrow> replay RuntimeError s k (digest rq) d)
         else
           ebind (get_by_idempotency_key s k d) (\<lambda>found. case found of
             Some x \<Rightarrow> ebind (check_idempotency_hash x (digest rq)) (\<lambda>_. Inr (d, x, False))
           | None \<Rightarrow>
               (case insert_row r d of
                  Some d' \<Rightarrow> Inr (d', r, True)
                | None \<Rightarrow> replay IntegrityError s k (digest rq) d)))"

definition insert_observation ::
  "session \<Rightarrow> (request \<Rightarrow> string) \<Rightarrow> string option \<Rightarrow> request \<Rightarrow> string \<Rightarrow> uuid \<Rightarrow> instant \<Rightarrow> db
   \<Rightarrow> observation outcome" where
  "insert_observation s digest key rq fresh oid now d =
     ebind (insert_idempotently s digest key rq fresh oid now d)
       (\<lambda>(d', r, _). Inr (d', r))"

subsection \<open>Claiming an observation\<close>

text \<open>The \<open>WHERE\<close> clause of \<open>claim\<close>, without the tenant and lock conditions.\<close>

definition claimable :: "instant \<Rightarrow> observation \<Rightarrow> bool" where
  "claimable now r \<longleftrightarrow> ob_status r \<in> {OPending, ORetrying, OProcessing} \<and>
     due (ob_next_attempt_at r) now \<and> due (ob_lease_until r) now"

text \<open>\<open>coalesce(max(attempt_number), 0)\<close> over the stored attempts of the observation.\<close>

definition max_attempt_number :: "uuid \<Rightarrow> db \<Rightarrow> int" where
  "max_attempt_number oid d =
     (case map at_number (filter (\<lambda>a. at_obs a = oid) (attempts d)) of
        [] \<Rightarrow> 0 | n # ns \<Rightarrow> fold max ns n)"

definition claimed_observation ::
  "string \<Rightarrow> uuid \<Rightarrow> instant \<Rightarrow> instant \<Rightarrow> int \<Rightarrow> observation \<Rightarrow> observation" where
  "claimed_observation worker tok now lease_until number r =
     r\<lparr>ob_status := OProcessing, ob_attempt_count := max (ob_attempt_count r) number,
       ob_lease_owner := Some worker, ob_lease_token := Some tok,
       ob_lease_until := Some lease_until, ob_next_attempt_at := None, ob_updated_at := now\<rparr>"

definition new_attempt ::
  "session \<Rightarrow> string \<Rightarrow> uuid \<Rightarrow> uuid \<Rightarrow> instant \<Rightarrow> instant \<Rightarrow> int \<Rightarrow> uuid \<Rightarrow> attempt" where
  "new_attempt s worker tok aid now lease_until number oid =
     \<lparr>at_id = aid, at_org = ss_tenant s, at_obs = oid, at_number = number,
      at_status = OProcessing, at_worker = Some worker, at_token = Some tok,
      at_lease_until = Some lease_until, at_started_at = now, at_finished_at = None,
      at_error_type = None, at_error_message = None, at_error_details = None\<rparr>"

text \<open>
  The claim reads (the row and the highest attempt number) and then flushes.  Between the two
  another transaction may have flushed, so the two halves are separate: \<open>claim_read\<close> on the
  state read, \<open>claim_flush\<close> on the state written to.  A duplicate attempt number makes the
  flush fail, the transaction is rolled back and the claim stands down with \<open>None\<close>.
\<close>

definition claim_read ::
  "session \<Rightarrow> uuid \<Rightarrow> int option \<Rightarrow> instant \<Rightarrow> db
   \<Rightarrow> ingestion_error + (observation \<times> int) option" where
  "claim_read s oid max_attempts now d =
     ebind (lock_observation s oid (claimable now) d) (\<lambda>found. case found of
       None \<Rightarrow> Inr None
     | Some r \<Rightarrow>
         if exhausted max_attempts (ob_attempt_count r) then Inr None
         else Inr (Some (r, max_attempt_number oid d + 1)))"

definition claim_flush ::
  "session \<Rightarrow> string \<Rightarrow> int \<Rightarrow> uuid \<Rightarrow> uuid \<Rightarrow> instant \<Rightarrow> observation \<Rightarrow> int \<Rightarrow> db
   \<Rightarrow> db \<times> attempt option" where
  "claim_flush s worker lease_seconds tok aid now r number d =
     (let lease_until = now + seconds (normalize_lease lease_seconds);
          a = new_attempt s worker tok aid now lease_until number (ob_id r)
      in if \<exists>x \<in> set (attempts d). at_obs x = ob_id r \<and> at_number x = number then (d, None)
         else ((set_observation (claimed_observation worker tok now lease_until number r) d)
                 \<lparr>attempts := attempts d @ [a]\<rparr>, Some a))"

definition claim ::
  "session \<Rightarrow> uuid \<Rightarrow> string \<Rightarrow> int \<Rightarrow> int option \<Rightarrow> uuid \<Rightarrow> uuid \<Rightarrow> instant \<Rightarrow> db
   \<Rightarrow> attempt option outcome" where
  "claim s oid worker lease_seconds max_attempts tok aid now d =
     ebind (claim_read s oid max_attempts now d) (\<lambda>found. case found of
       None \<Rightarrow> Inr (d, None)
     | Some (r, number) \<Rightarrow> Inr (claim_flush s worker lease_seconds tok aid now r number d))"

subsection \<open>Ending an attempt\<close>

record error_info =
  er_type :: "string option"
  er_message :: "string option"
  er_details :: "json option"

definition released :: "observation \<Rightarrow> observation" where
  "released r = r\<lparr>ob_lease_owner := None, ob_lease_token := None, ob_lease_until := None\<rparr>"

definition finished_attempt ::
  "obs_status \<Rightarrow> instant \<Rightarrow> error_info \<Rightarrow> attempt \<Rightarrow> attempt" where
  "finished_attempt st now e a =
     a\<lparr>at_status := st, at_finished_at := Some now, at_error_type := er_type e,
       at_error_message := er_message e, at_error_details := er_details e,
       at_lease_until := None\<rparr>"

definition complete_attempt ::
  "session \<Rightarrow> uuid \<Rightarrow> string option \<Rightarrow> uuid option \<Rightarrow> error_info \<Rightarrow> instant \<Rightarrow> db
   \<Rightarrow> attempt option outcome" where
  "complete_attempt s aid worker tok e now d =
     ebind (lock_attempt s aid d) (\<lambda>found. case found of
       None \<Rightarrow> Inr (d, None)
     | Some a \<Rightarrow>
         if \<not> matches worker (at_worker a) then Inr (d, None)
         else if \<not> matches tok (at_token a) then Inr (d, None)
         else if at_status a = OCompleted then Inr (d, Some a)
         else
           let a' = finished_attempt OCompleted now e a; d' = set_attempt a' d
           in ebind (lock_observation s (at_obs a) (\<lambda>_. True) d') (\<lambda>obs. case obs of
                None \<Rightarrow> Inr (d', Some a')
              | Some r \<Rightarrow>
                  Inr (set_observation
                        ((released r)\<lparr>ob_status := OCompleted, ob_completed_at := Some now,
                           ob_last_error := None, ob_updated_at := now\<rparr>) d', Some a')))"

definition succeed_attempt :: "session \<Rightarrow> uuid \<Rightarrow> instant \<Rightarrow> db \<Rightarrow> attempt option outcome" where
  "succeed_attempt s aid now d =
     complete_attempt s aid None None
       \<lparr>er_type = None, er_message = None, er_details = None\<rparr> now d"

definition ingestion_failed :: string where
  "ingestion_failed = ''ingestion failed''"

definition add_dead_letter :: "dead_letter_row \<Rightarrow> db \<Rightarrow> db" where
  "add_dead_letter x d = d\<lparr>dead_letters := dead_letters d @ [x]\<rparr>"

definition find_dead_letter ::
  "session \<Rightarrow> uuid \<Rightarrow> db \<Rightarrow> ingestion_error + dead_letter_row option" where
  "find_dead_letter s oid d =
     one_or_none MultipleResultsFound
       (\<lambda>x. dl_obs x = oid \<and> dl_org x = ss_tenant s) (dead_letters d)"

definition fail_attempt ::
  "session \<Rightarrow> uuid \<Rightarrow> string option \<Rightarrow> uuid option \<Rightarrow> error_info \<Rightarrow> instant option \<Rightarrow> int
   \<Rightarrow> int option \<Rightarrow> instant \<Rightarrow> db \<Rightarrow> attempt option outcome" where
  "fail_attempt s aid worker tok e retry_at retry_delay max_attempts now d =
     ebind (lock_attempt s aid d) (\<lambda>found. case found of
       None \<Rightarrow> Inr (d, None)
     | Some a \<Rightarrow>
         if \<not> matches worker (at_worker a) then Inr (d, None)
         else if \<not> matches tok (at_token a) then Inr (d, None)
         else if at_status a = OCompleted then Inr (d, Some a)
         else
           let a' = finished_attempt OFailed now e a; d' = set_attempt a' d
           in ebind (lock_observation s (at_obs a) (\<lambda>_. True) d') (\<lambda>obs. case obs of
                None \<Rightarrow> Inr (d', Some a')
              | Some r \<Rightarrow>
                  let r' = (released r)\<lparr>ob_last_error := er_message e, ob_updated_at := now\<rparr>
                  in if exhausted max_attempts (ob_attempt_count r) then
                       let d'' = set_observation
                             (r'\<lparr>ob_status := ODeadLetter, ob_next_attempt_at := None\<rparr>) d'
                       in ebind (find_dead_letter s (ob_id r) d'') (\<lambda>letter. case letter of
                            Some _ \<Rightarrow> Inr (d'', Some a')
                          | None \<Rightarrow>
                              Inr (add_dead_letter
                                \<lparr>dl_org = ss_tenant s, dl_obs = ob_id r, dl_attempt = Some aid,
                                 dl_reason = (case por (er_message e)
                                                (por (er_type e) (Some ingestion_failed))
                                              of Some m \<Rightarrow> m | None \<Rightarrow> []),
                                 dl_error_type = er_type e, dl_error_message = er_message e,
                                 dl_error_details = er_details e, dl_failed_at = now\<rparr> d'',
                                Some a'))
                     else
                       Inr (set_observation
                             (r'\<lparr>ob_status := ORetrying,
                                 ob_next_attempt_at := Some (case retry_at of
                                    Some t \<Rightarrow> t
                                  | None \<Rightarrow> now + seconds (max 0 retry_delay))\<rparr>) d', Some a')))"

text \<open>The attempt half of \<open>dead_letter\<close>: \<open>False\<close> is the early \<open>return None\<close>.\<close>

definition dead_letter_attempt ::
  "session \<Rightarrow> uuid \<Rightarrow> uuid option \<Rightarrow> string option \<Rightarrow> uuid option \<Rightarrow> instant \<Rightarrow> db \<Rightarrow> bool outcome"
  where
  "dead_letter_attempt s oid aid worker tok now d =
     (case aid of
        None \<Rightarrow> Inr (d, True)
      | Some i \<Rightarrow>
          ebind (one_or_none MultipleResultsFound
                   (\<lambda>a. at_id a = i \<and> at_obs a = oid \<and> at_org a = ss_tenant s) (attempts d))
            (\<lambda>found. case found of
               None \<Rightarrow> Inr (d, False)
             | Some a \<Rightarrow>
                 if \<not> matches worker (at_worker a) then Inr (d, False)
                 else if \<not> matches tok (at_token a) then Inr (d, False)
                 else Inr (set_attempt
                        (a\<lparr>at_status := ODeadLetter, at_finished_at := Some now,
                           at_lease_until := None\<rparr>) d, True)))"

definition dead_letter ::
  "session \<Rightarrow> uuid \<Rightarrow> uuid option \<Rightarrow> string option \<Rightarrow> uuid option \<Rightarrow> string \<Rightarrow> error_info
   \<Rightarrow> instant \<Rightarrow> db \<Rightarrow> dead_letter_row option outcome" where
  "dead_letter s oid aid worker tok reason e now d =
     ebind (lock_observation s oid (\<lambda>_. True) d) (\<lambda>found. case found of
       None \<Rightarrow> Inr (d, None)
     | Some r \<Rightarrow>
         ebind (dead_letter_attempt s oid aid worker tok now d) (\<lambda>(d', go).
           if \<not> go then Inr (d', None)
           else
             ebind (find_dead_letter s oid d') (\<lambda>letter. case letter of
               Some x \<Rightarrow> Inr (d', Some x)
             | None \<Rightarrow>
                 let x = \<lparr>dl_org = ss_tenant s, dl_obs = oid, dl_attempt = aid,
                          dl_reason = reason, dl_error_type = er_type e,
                          dl_error_message = er_message e, dl_error_details = er_details e,
                          dl_failed_at = now\<rparr>;
                     r' = (released r)\<lparr>ob_status := ODeadLetter, ob_next_attempt_at := None,
                            ob_last_error := por (er_message e) (Some reason),
                            ob_updated_at := now\<rparr>
                 in Inr (add_dead_letter x (set_observation r' d'), Some x))))"

subsection \<open>Every operation is a sequence of tenant-scoped writes\<close>

lemma replay_writes: "replay missing s k h d = Inr (d', x) \<Longrightarrow> d' = d"
  by (auto simp: replay_def ebind_Inr_iff split: option.splits)

lemma insert_row_writes:
  assumes "insert_row r d = Some d'" and "ob_org r = ss_tenant s"
    and "ob_id r \<notin> ob_id ` set (observations d)" and "obs_lease_ok r"
  shows "writes s d d'"
proof -
  from assms(1) have d': "d' = d\<lparr>observations := observations d @ [r]\<rparr>"
    and new: "\<forall>x \<in> set (observations d). \<not> (ob_org x = ob_org r \<and> ob_key x = ob_key r)"
    by (auto simp: insert_row_def split: if_splits)
  show ?thesis unfolding d'
    by (rule row_write_writes, rule row_write.insert_observation_row) (use assms new in auto)
qed

lemma new_observation_ok:
  "ob_org (new_observation s digest rq k oid now) = ss_tenant s"
  "ob_id (new_observation s digest rq k oid now) = oid"
  "obs_lease_ok (new_observation s digest rq k oid now)"
  by (simp_all add: new_observation_def obs_lease_ok_def)

lemma insert_idempotently_writes:
  assumes "insert_idempotently s digest key rq fresh oid now d = Inr (d', r, new)"
    and "oid \<notin> ob_id ` set (observations d)"
  shows "writes s d d'"
proof -
  let ?r = "new_observation s digest rq (effective_key key fresh) oid now"
  from assms(1) consider "d' = d" | "insert_row ?r d = Some d'"
    by (auto simp: insert_idempotently_def Let_def ebind_Inr_iff dest: replay_writes
        split: if_splits option.splits)
  then show ?thesis
    by cases (use assms(2) in \<open>auto intro: insert_row_writes simp: new_observation_ok\<close>)
qed

lemma claim_flush_writes:
  assumes "claim_flush s worker ls tok aid now r number d = (d', res)"
    and "r \<in> set (observations d)" and "ob_org r = ss_tenant s"
    and "aid \<notin> at_id ` set (attempts d)"
  shows "writes s d d'"
proof -
  let ?until = "now + seconds (normalize_lease ls)"
  let ?r = "claimed_observation worker tok now ?until number r"
  let ?a = "new_attempt s worker tok aid now ?until number (ob_id r)"
  let ?d1 = "set_observation ?r d"
  have w1: "row_write s d ?d1"
    by (rule row_write.update_observation [where ?r0.0 = r])
       (use assms in \<open>simp_all add: claimed_observation_def obs_lease_ok_def\<close>)
  show ?thesis
  proof (cases "\<exists>x \<in> set (attempts d). at_obs x = ob_id r \<and> at_number x = number")
    case True
    with assms(1) show ?thesis by (simp add: claim_flush_def)
  next
    case False
    then have w2: "row_write s ?d1 (?d1\<lparr>attempts := attempts ?d1 @ [?a]\<rparr>)"
      by (intro row_write.insert_attempt_row)
         (use assms in \<open>auto simp: new_attempt_def table_simps\<close>)
    from False assms(1) have "d' = ?d1\<lparr>attempts := attempts ?d1 @ [?a]\<rparr>"
      by (auto simp: claim_flush_def Let_def table_simps split: if_splits)
    with w1 w2 show ?thesis by auto
  qed
qed

lemma claim_read_SomeD:
  assumes "claim_read s oid max_attempts now d = Inr (Some (r, number))"
  shows "r \<in> set (observations d)" "ob_id r = oid" "ob_org r = ss_tenant s" "claimable now r"
    "\<not> exhausted max_attempts (ob_attempt_count r)" "number = max_attempt_number oid d + 1"
  using assms
  by (auto simp: claim_read_def ebind_Inr_iff split: option.splits if_splits
      dest!: lock_observation_SomeD)

lemma claim_writes:
  assumes "claim s oid worker ls max_attempts tok aid now d = Inr (d', res)"
    and "aid \<notin> at_id ` set (attempts d)"
  shows "writes s d d'"
proof -
  from assms(1) obtain found where found: "claim_read s oid max_attempts now d = Inr found"
    and rest: "(case found of None \<Rightarrow> Inr (d, None)
       | Some (r, number) \<Rightarrow> Inr (claim_flush s worker ls tok aid now r number d))
       = (Inr (d', res) :: attempt option outcome)"
    by (auto simp: claim_def ebind_Inr_iff)
  show ?thesis
  proof (cases found)
    case (Some p)
    obtain r number where p: "p = (r, number)" by (cases p)
    from rest Some p have "claim_flush s worker ls tok aid now r number d = (d', res)" by simp
    with claim_read_SomeD [OF found [unfolded Some p]] assms(2) show ?thesis
      by (intro claim_flush_writes) auto
  qed (use rest in simp)
qed

text \<open>
  The three ways an attempt ends share one shape: a locked attempt of the tenant whose worker
  and token match is rewritten, then the observation it belongs to is rewritten or left.
\<close>

lemma finished_attempt_keys [simp]:
  "at_id (finished_attempt st now e a) = at_id a" "at_org (finished_attempt st now e a) = at_org a"
  "at_obs (finished_attempt st now e a) = at_obs a"
  "at_number (finished_attempt st now e a) = at_number a"
  by (simp_all add: finished_attempt_def)

lemma released_fields [simp]:
  "ob_id (released r) = ob_id r" "ob_org (released r) = ob_org r" "ob_key (released r) = ob_key r"
  "ob_lease_token (released r) = None" "ob_lease_until (released r) = None"
  "ob_lease_owner (released r) = None" "ob_attempt_count (released r) = ob_attempt_count r"
  by (simp_all add: released_def)

lemma finish_write:
  assumes "lock_attempt s aid d = Inr (Some a)"
  shows "writes s d (set_attempt (finished_attempt st now e a) d)"
  by (rule row_write_writes, rule row_write.update_attempt [where ?a0.0 = a])
     (use lock_attempt_SomeD [OF assms] in simp_all)

lemma release_write:
  assumes "lock_observation s i P d = Inr (Some r)"
    and "ob_id r' = ob_id r" "ob_org r' = ob_org r" "ob_key r' = ob_key r" "obs_lease_ok r'"
  shows "writes s d (set_observation r' d)"
  by (rule row_write_writes, rule row_write.update_observation [where ?r0.0 = r])
     (use lock_observation_SomeD [OF assms(1)] assms(2-) in simp_all)

lemma add_dead_letter_write:
  assumes "find_dead_letter s oid d = Inr None" and "dl_org x = ss_tenant s" and "dl_obs x = oid"
  shows "writes s d (add_dead_letter x d)"
proof -
  from assms(1) have "\<forall>y \<in> set (dead_letters d). \<not> (dl_obs y = oid \<and> dl_org y = ss_tenant s)"
    by (simp add: find_dead_letter_def one_or_none_None)
  then show ?thesis unfolding add_dead_letter_def
    by (intro row_write_writes row_write.insert_dead_letter_row) (use assms in auto)
qed

lemma finish_release_write:
  assumes "lock_attempt s aid d = Inr (Some a)"
    and "lock_observation s i P (set_attempt (finished_attempt st now e a) d) = Inr (Some r)"
    and "ob_id r' = ob_id r" "ob_org r' = ob_org r" "ob_key r' = ob_key r" "obs_lease_ok r'"
  shows "writes s d (set_observation r' (set_attempt (finished_attempt st now e a) d))"
  using writes_trans [OF finish_write [OF assms(1)] release_write [OF assms(2-6)]] .

lemma finish_release_letter_write:
  assumes "lock_attempt s aid d = Inr (Some a)"
    and "lock_observation s i P (set_attempt (finished_attempt st now e a) d) = Inr (Some r)"
    and "find_dead_letter s (ob_id r)
           (set_observation r' (set_attempt (finished_attempt st now e a) d)) = Inr None"
    and "ob_id r' = ob_id r" "ob_org r' = ob_org r" "ob_key r' = ob_key r" "obs_lease_ok r'"
    and "dl_org x = ss_tenant s" and "dl_obs x = ob_id r"
  shows "writes s d (add_dead_letter x
           (set_observation r' (set_attempt (finished_attempt st now e a) d)))"
  using writes_trans [OF finish_release_write [OF assms(1,2,4-7)]
      add_dead_letter_write [OF assms(3,8,9)]] .

lemma complete_attempt_writes:
  "ensures (\<lambda>d' _. writes s d d') (complete_attempt s aid worker tok e now d)"
  unfolding complete_attempt_def Let_def
  by (intro steps; simp?)
     (erule finish_write | erule (1) finish_release_write; simp add: obs_lease_ok_def)+

lemma fail_attempt_writes:
  "ensures (\<lambda>d' _. writes s d d')
     (fail_attempt s aid worker tok e retry_at delay max_attempts now d)"
  unfolding fail_attempt_def Let_def
  by (intro steps; simp?)
     (erule finish_write
      | erule (2) finish_release_letter_write; simp add: obs_lease_ok_def
      | erule (1) finish_release_write; simp add: obs_lease_ok_def)+

lemma dead_letter_attempt_writes:
  "ensures (\<lambda>d' _. writes s d d' \<and> observations d' = observations d
       \<and> dead_letters d' = dead_letters d)
     (dead_letter_attempt s oid aid worker tok now d)"
  unfolding dead_letter_attempt_def
  by (intro steps; simp add: table_simps)
     (rule row_write_writes, drule one_or_none_Some, rule row_write.update_attempt, auto)

lemma dead_letter_writes:
  "ensures (\<lambda>d' _. writes s d d') (dead_letter s oid aid worker tok reason e now d)"
proof -
  have leaf: "writes s d (add_dead_letter x (set_observation r' d'))"
    if r: "lock_observation s oid P d = Inr (Some r)"
      and half: "dead_letter_attempt s oid aid worker tok now d = Inr (d', go)"
      and letter: "find_dead_letter s oid d' = Inr None"
      and r': "ob_id r' = ob_id r" "ob_org r' = ob_org r" "ob_key r' = ob_key r" "obs_lease_ok r'"
      and x: "dl_org x = ss_tenant s" "dl_obs x = oid" for P r d' go r' x
  proof -
    have "writes s d d'" and same: "observations d' = observations d"
      using ensuresD [OF dead_letter_attempt_writes half] by auto
    moreover have "writes s d' (set_observation r' d')"
      by (rule row_write_writes, rule row_write.update_observation [where ?r0.0 = r])
         (use lock_observation_SomeD [OF r] r' same in simp_all)
    moreover have "writes s (set_observation r' d') (add_dead_letter x (set_observation r' d'))"
      by (rule add_dead_letter_write [OF _ x])
         (use letter in \<open>simp add: find_dead_letter_def table_simps\<close>)
    ultimately show ?thesis by (meson writes_trans)
  qed
  show ?thesis
    unfolding dead_letter_def Let_def
    by (intro steps; simp?)
       (erule (2) leaf; simp add: obs_lease_ok_def
        | drule ensuresD [OF dead_letter_attempt_writes], blast)+
qed

lemma insert_idempotently_ensures:
  assumes "oid \<notin> ob_id ` set (observations d)"
  shows "ensures (\<lambda>d' _. writes s d d') (insert_idempotently s digest key rq fresh oid now d)"
  using insert_idempotently_writes assms by (fastforce simp: ensures_def)

lemma claim_ensures:
  assumes "aid \<notin> at_id ` set (attempts d)"
  shows "ensures (\<lambda>d' _. writes s d d') (claim s oid worker ls max_attempts tok aid now d)"
  using claim_writes assms by (fastforce simp: ensures_def)

text \<open>The operations in one bundle, for the run-level results.\<close>

lemmas observation_writes =
  insert_idempotently_ensures claim_ensures
  complete_attempt_writes fail_attempt_writes dead_letter_writes

subsection \<open>What a claim does\<close>

text \<open>
  The inversion of a successful claim: the row was the tenant's, claimable and below the
  attempt limit; the new state holds the leased row and one new attempt.
\<close>

lemma claim_SomeD:
  assumes "claim s oid worker ls max_attempts tok aid now d = Inr (d', Some a)"
  obtains r where "r \<in> set (observations d)" "ob_id r = oid" "ob_org r = ss_tenant s"
    "claimable now r" "\<not> exhausted max_attempts (ob_attempt_count r)"
    "a = new_attempt s worker tok aid now (now + seconds (normalize_lease ls))
           (max_attempt_number oid d + 1) oid"
    "d' = (set_observation (claimed_observation worker tok now
             (now + seconds (normalize_lease ls)) (max_attempt_number oid d + 1) r) d)
            \<lparr>attempts := attempts d @ [a]\<rparr>"
proof -
  from assms obtain r number where read: "claim_read s oid max_attempts now d = Inr (Some (r, number))"
    and flush: "claim_flush s worker ls tok aid now r number d = (d', Some a)"
    by (auto simp: claim_def ebind_Inr_iff split: option.splits)
  from flush claim_read_SomeD(2,6) [OF read]
  have "a = new_attempt s worker tok aid now (now + seconds (normalize_lease ls))
           (max_attempt_number oid d + 1) oid"
    and "d' = (set_observation (claimed_observation worker tok now
             (now + seconds (normalize_lease ls)) (max_attempt_number oid d + 1) r) d)
            \<lparr>attempts := attempts d @ [a]\<rparr>"
    by (auto simp: claim_flush_def Let_def split: if_splits)
  with that claim_read_SomeD(1-5) [OF read] show thesis by blast
qed

lemma get_after_claim:
  assumes "keys_ok d"
    and "claim s oid worker ls max_attempts tok aid now d = Inr (d', Some a)"
  obtains r where "get_observation d oid = Some r" "claimable now r"
    "ob_org r = ss_tenant s"
    "get_observation d' oid = Some (claimed_observation worker tok now
        (now + seconds (normalize_lease ls)) (max_attempt_number oid d + 1) r)"
  using assms(2)
proof (rule claim_SomeD)
  fix r
  assume r: "r \<in> set (observations d)" "ob_id r = oid" "ob_org r = ss_tenant s" "claimable now r"
    and d': "d' = (set_observation (claimed_observation worker tok now
             (now + seconds (normalize_lease ls)) (max_attempt_number oid d + 1) r) d)
            \<lparr>attempts := attempts d @ [a]\<rparr>"
  from r(1,2) tget_mem [OF keys_okD(1) [OF assms(1)]] have get: "get_observation d oid = Some r"
    by auto
  then have "get_observation d' oid = Some (claimed_observation worker tok now
        (now + seconds (normalize_lease ls)) (max_attempt_number oid d + 1) r)"
    using r(2) by (simp add: d' table_simps claimed_observation_def)
  with that get r show thesis by blast
qed

text \<open>The highest attempt number bounds every stored number, so the next one is new.\<close>

lemma fold_max_ge: "(n::int) \<in> set (m # ns) \<Longrightarrow> n \<le> fold max ns m"
proof (induction ns arbitrary: m n)
  case (Cons k ns)
  have "n \<le> max k m \<or> n \<in> set ns" using Cons.prems by auto
  then show ?case
  proof
    assume "n \<le> max k m"
    also have "max k m \<le> fold max ns (max k m)" by (rule Cons.IH) simp
    finally show ?thesis by simp
  next
    assume "n \<in> set ns"
    then have "n \<le> fold max ns (max k m)" by (intro Cons.IH) simp
    then show ?thesis by simp
  qed
qed simp

lemma max_attempt_number_ge:
  assumes "a \<in> set (attempts d)" and "at_obs a = oid"
  shows "at_number a \<le> max_attempt_number oid d"
proof -
  let ?ns = "map at_number (filter (\<lambda>a. at_obs a = oid) (attempts d))"
  have mem: "at_number a \<in> set ?ns" using assms by auto
  then obtain m ns where eq: "?ns = m # ns" by (cases ?ns) auto
  from mem eq fold_max_ge [of "at_number a" m ns] show ?thesis
    by (simp add: max_attempt_number_def)
qed

text \<open>So a claim that read and wrote the same state never loses the number race.\<close>

lemma claim_of_claimable:
  assumes "keys_ok d" and "get_observation d oid = Some r" and "ob_org r = ss_tenant s"
    and "with_skip_locked s oid" and "claimable now r"
    and "\<not> exhausted max_attempts (ob_attempt_count r)"
  shows "\<exists>d' a. claim s oid worker ls max_attempts tok aid now d = Inr (d', Some a)"
proof -
  have id: "ob_id r = oid" using assms(2) by (rule tget_key)
  have read: "claim_read s oid max_attempts now d = Inr (Some (r, max_attempt_number oid d + 1))"
    using assms by (simp add: claim_read_def lock_observation_eq)
  have "\<not> (\<exists>x \<in> set (attempts d). at_obs x = ob_id r
            \<and> at_number x = max_attempt_number oid d + 1)"
    using max_attempt_number_ge [of _ d oid] id by force
  then have "\<exists>d' a. claim_flush s worker ls tok aid now r (max_attempt_number oid d + 1) d
               = (d', Some a)"
    by (simp add: claim_flush_def Let_def)
  with read show ?thesis by (simp add: claim_def)
qed

lemma claim_refused:
  assumes "keys_ok d" and "get_observation d oid = Some r" and "\<not> claimable now r"
  shows "claim s oid worker ls max_attempts tok aid now d = Inr (d, None)"
  using assms by (simp add: claim_def claim_read_def lock_observation_eq)

subsection \<open>The observation claim is a lease\<close>

definition next_attempt_id :: "db \<Rightarrow> uuid" where
  "next_attempt_id d = Suc (sum_list (map at_id (attempts d)))"

lemma next_attempt_id_fresh: "next_attempt_id d \<notin> at_id ` set (attempts d)"
proof
  assume "next_attempt_id d \<in> at_id ` set (attempts d)"
  then have "next_attempt_id d \<in> set (map at_id (attempts d))" by simp
  then have "next_attempt_id d \<le> sum_list (map at_id (attempts d))"
    by (rule member_le_sum_list) simp
  then show False by (simp add: next_attempt_id_def)
qed

definition obs_until :: "uuid \<Rightarrow> db \<Rightarrow> instant option" where
  "obs_until oid d = (case get_observation d oid of None \<Rightarrow> None | Some r \<Rightarrow> ob_lease_until r)"

text \<open>Who claims, for how long and within which attempt limit.\<close>

record claimer =
  cl_session :: session
  cl_worker :: string
  cl_lease :: int
  cl_max :: "int option"
  cl_token :: uuid

definition lease_length :: "claimer \<Rightarrow> int" where
  "lease_length c = seconds (normalize_lease (cl_lease c))"

definition obs_acquire :: "uuid \<Rightarrow> claimer \<Rightarrow> instant \<Rightarrow> db \<Rightarrow> db option" where
  "obs_acquire oid c now d =
     (case claim (cl_session c) oid (cl_worker c) (cl_lease c) (cl_max c) (cl_token c)
             (next_attempt_id d) now d of
        Inr (d', Some _) \<Rightarrow> Some d' | _ \<Rightarrow> None)"

lemma obs_acquire_SomeD:
  "obs_acquire oid c now d = Some d' \<Longrightarrow>
   \<exists>a. claim (cl_session c) oid (cl_worker c) (cl_lease c) (cl_max c) (cl_token c)
         (next_attempt_id d) now d = Inr (d', Some a)"
  by (auto simp: obs_acquire_def split: sum.splits prod.splits option.splits)

interpretation obs_lease: lease keys_ok "obs_until oid" "obs_acquire oid" lease_length
  for oid
proof unfold_locales
  fix d c now d'
  assume ok: "keys_ok d" and "obs_acquire oid c now d = Some d'"
  then obtain a where
    cl: "claim (cl_session c) oid (cl_worker c) (cl_lease c) (cl_max c) (cl_token c)
           (next_attempt_id d) now d = Inr (d', Some a)"
    using obs_acquire_SomeD by blast
  show "keys_ok d'" using claim_writes [OF cl next_attempt_id_fresh] ok by (rule writes_keys_ok)
  from get_after_claim [OF ok cl] obtain r where r: "get_observation d oid = Some r"
      "claimable now r"
      "get_observation d' oid = Some (claimed_observation (cl_worker c) (cl_token c) now
        (now + seconds (normalize_lease (cl_lease c))) (max_attempt_number oid d + 1) r)" by blast
  then show "due (obs_until oid d) now" by (simp add: obs_until_def claimable_def)
  from r(3) show "obs_until oid d' = Some (now + lease_length c)"
    by (simp add: obs_until_def claimed_observation_def lease_length_def)
qed (simp add: lease_length_def)

end
