(* ===== verification/Ingestion_Outbox.thy ===== *)
theory Ingestion_Outbox
  imports Ingestion_Observations
begin

section \<open>Ingestion: the outbox repository\<close>

text \<open>
  \<open>IngestionOutboxRepository\<close> of \<open>contexta/repositories/ingestion_repo.py\<close>: enqueueing an
  event once per key, claiming a batch or one event under a lease, and the three ways a claim
  ends.  \<open>show_id\<close> is \<open>str(uuid)\<close>; \<open>gen\<close> gives the token \<open>uuid4()\<close> returned for
  an event.  Rows created at one instant are claimed in table order, an order the query leaves
  open.
\<close>

subsection \<open>Enqueue\<close>

definition get_by_event_key ::
  "session \<Rightarrow> string \<Rightarrow> db \<Rightarrow> ingestion_error + event option" where
  "get_by_event_key s k d =
     one_or_none MultipleResultsFound (\<lambda>e. ev_key e = k \<and> ev_org e = ss_tenant s) (events d)"

definition new_event ::
  "session \<Rightarrow> uuid \<Rightarrow> string \<Rightarrow> string \<Rightarrow> uuid option \<Rightarrow> instant option \<Rightarrow> uuid \<Rightarrow> instant \<Rightarrow> event" where
  "new_event s oid type k aid available_at eid now =
     \<lparr>ev_id = eid, ev_org = ss_tenant s, ev_obs = oid, ev_attempt = aid, ev_type = type,
      ev_key = k, ev_status = EPending,
      ev_available_at = (case available_at of Some t \<Rightarrow> t | None \<Rightarrow> now),
      ev_claimed_at = None, ev_lease_owner = None, ev_lease_token = None, ev_lease_until = None,
      ev_attempt_count = 0, ev_published_at = None, ev_last_error = None, ev_created_at = now\<rparr>"

definition insert_event :: "event \<Rightarrow> db \<Rightarrow> db option" where
  "insert_event e d =
     (if \<exists>x \<in> set (events d). ev_org x = ev_org e \<and> ev_key x = ev_key e then None
      else Some (d\<lparr>events := events d @ [e]\<rparr>))"

text \<open>The ownership checks \<open>enqueue\<close> makes before it touches the table.\<close>

definition check_enqueue :: "session \<Rightarrow> uuid \<Rightarrow> uuid option \<Rightarrow> db \<Rightarrow> ingestion_error + unit" where
  "check_enqueue s oid aid d =
     ebind (select_observation s (\<lambda>r. ob_id r = oid) d) (\<lambda>found. case found of
       None \<Rightarrow> Inl ValueError
     | Some _ \<Rightarrow>
         (case aid of
            None \<Rightarrow> Inr ()
          | Some i \<Rightarrow>
              ebind (one_or_none MultipleResultsFound
                       (\<lambda>a. at_id a = i \<and> at_org a = ss_tenant s) (attempts d))
                (\<lambda>att. case att of
                   None \<Rightarrow> Inl ValueError
                 | Some a \<Rightarrow> if at_obs a \<noteq> oid then Inl ValueError else Inr ())))"

definition event_replay ::
  "ingestion_error \<Rightarrow> session \<Rightarrow> string \<Rightarrow> db \<Rightarrow> (event \<times> bool) outcome" where
  "event_replay missing s k d =
     ebind (get_by_event_key s k d) (\<lambda>found. case found of
       None \<Rightarrow> Inl missing | Some e \<Rightarrow> Inr (d, e, False))"

definition enqueue ::
  "session \<Rightarrow> (uuid \<Rightarrow> string) \<Rightarrow> uuid \<Rightarrow> string \<Rightarrow> string option \<Rightarrow> uuid option
   \<Rightarrow> instant option \<Rightarrow> uuid \<Rightarrow> instant \<Rightarrow> db \<Rightarrow> (event \<times> bool) outcome" where
  "enqueue s show_id oid type event_key aid available_at eid now d =
     ebind (check_enqueue s oid aid d) (\<lambda>_.
       let k = (if truthy event_key then the event_key else type @ '':'' @ show_id oid);
           e = new_event s oid type k aid available_at eid now
       in if ss_dialect s = Postgresql then
            (case insert_event e d of
               Some d' \<Rightarrow> Inr (d', e, True) | None \<Rightarrow> event_replay RuntimeError s k d)
          else
            ebind (get_by_event_key s k d) (\<lambda>found. case found of
              Some x \<Rightarrow> Inr (d, x, False)
            | None \<Rightarrow> (case insert_event e d of
                Some d' \<Rightarrow> Inr (d', e, True) | None \<Rightarrow> event_replay IntegrityError s k d)))"

subsection \<open>Claims\<close>

text \<open>The \<open>WHERE\<close> clause of \<open>claim_pending\<close>, without the tenant and lock conditions.\<close>

definition event_claimable :: "instant \<Rightarrow> event \<Rightarrow> bool" where
  "event_claimable now e \<longleftrightarrow> ev_status e \<in> {EPending, EFailed, EClaimed} \<and>
     ev_available_at e \<le> now \<and> due (ev_lease_until e) now"

definition max_attempts_reached :: string where
  "max_attempts_reached = ''maximum outbox attempts reached''"

definition exhausted_event :: "event \<Rightarrow> event" where
  "exhausted_event e =
     e\<lparr>ev_status := EDeadLetter, ev_lease_owner := None, ev_lease_token := None,
       ev_lease_until := None, ev_last_error := Some max_attempts_reached\<rparr>"

definition claimed_event ::
  "string \<Rightarrow> uuid \<Rightarrow> instant \<Rightarrow> instant \<Rightarrow> event \<Rightarrow> event" where
  "claimed_event worker tok now lease_until e =
     e\<lparr>ev_status := EClaimed, ev_claimed_at := Some now, ev_lease_owner := Some worker,
       ev_lease_token := Some tok, ev_lease_until := Some lease_until,
       ev_attempt_count := ev_attempt_count e + 1\<rparr>"

definition pending_batch :: "session \<Rightarrow> int \<Rightarrow> instant \<Rightarrow> db \<Rightarrow> event list" where
  "pending_batch s limit now d =
     take (nat (min limit 1000))
       (sort_key ev_created_at
         (filter (\<lambda>e. event_claimable now e \<and> ev_org e = ss_tenant s
                     \<and> with_skip_locked s (ev_id e)) (events d)))"

fun claim_each ::
  "string \<Rightarrow> (uuid \<Rightarrow> uuid) \<Rightarrow> int option \<Rightarrow> instant \<Rightarrow> instant \<Rightarrow> event list \<Rightarrow> db
   \<Rightarrow> db \<times> event list" where
  "claim_each worker gen max_attempts now lease_until [] d = (d, [])"
| "claim_each worker gen max_attempts now lease_until (e # es) d =
     (if exhausted max_attempts (ev_attempt_count e)
      then claim_each worker gen max_attempts now lease_until es (set_event (exhausted_event e) d)
      else
        let e' = claimed_event worker (gen (ev_id e)) now lease_until e;
            (d', claimed) = claim_each worker gen max_attempts now lease_until es (set_event e' d)
        in (d', e' # claimed))"

definition claim_pending ::
  "session \<Rightarrow> string \<Rightarrow> int \<Rightarrow> int \<Rightarrow> int option \<Rightarrow> (uuid \<Rightarrow> uuid) \<Rightarrow> instant \<Rightarrow> db
   \<Rightarrow> event list outcome" where
  "claim_pending s worker limit lease_seconds max_attempts gen now d =
     (if limit \<le> 0 then Inr (d, [])
      else Inr (claim_each worker gen max_attempts now
                  (now + seconds (normalize_lease lease_seconds))
                  (pending_batch s limit now d) d))"

definition claim_event ::
  "session \<Rightarrow> uuid \<Rightarrow> string \<Rightarrow> int \<Rightarrow> int option \<Rightarrow> uuid \<Rightarrow> instant \<Rightarrow> db \<Rightarrow> event option outcome"
  where
  "claim_event s eid worker lease_seconds max_attempts tok now d =
     ebind (lock_event s eid d) (\<lambda>found. case found of
       None \<Rightarrow> Inr (d, None)
     | Some e \<Rightarrow>
         if ev_status e = EPublished then Inr (d, Some e)
         else if ev_status e = EClaimed \<and> \<not> due (ev_lease_until e) now then Inr (d, Some e)
         else if exhausted max_attempts (ev_attempt_count e)
           then Inr (set_event (exhausted_event e) d, Some (exhausted_event e))
         else
           let e' = claimed_event worker tok now (now + seconds (normalize_lease lease_seconds)) e
           in Inr (set_event e' d, Some e'))"

subsection \<open>Ending a claim\<close>

definition released_event :: "event \<Rightarrow> event" where
  "released_event e = e\<lparr>ev_lease_owner := None, ev_lease_token := None, ev_lease_until := None\<rparr>"

definition mark_published ::
  "session \<Rightarrow> uuid \<Rightarrow> string option \<Rightarrow> uuid option \<Rightarrow> instant \<Rightarrow> db \<Rightarrow> bool outcome" where
  "mark_published s eid worker tok now d =
     ebind (lock_event s eid d) (\<lambda>found. case found of
       None \<Rightarrow> Inr (d, False)
     | Some e \<Rightarrow>
         if \<not> matches worker (ev_lease_owner e) then Inr (d, False)
         else if \<not> matches tok (ev_lease_token e) then Inr (d, False)
         else if ev_status e = EPublished then Inr (d, True)
         else if ev_status e \<noteq> EClaimed then Inr (d, False)
         else Inr (set_event ((released_event e)\<lparr>ev_status := EPublished,
                     ev_published_at := Some now, ev_last_error := None\<rparr>) d, True))"

definition retry_event ::
  "session \<Rightarrow> uuid \<Rightarrow> string option \<Rightarrow> instant option \<Rightarrow> string option \<Rightarrow> uuid option \<Rightarrow> instant
   \<Rightarrow> db \<Rightarrow> bool outcome" where
  "retry_event s eid err available_at worker tok now d =
     ebind (lock_event s eid d) (\<lambda>found. case found of
       None \<Rightarrow> Inr (d, False)
     | Some e \<Rightarrow>
         if \<not> matches worker (ev_lease_owner e) then Inr (d, False)
         else if \<not> matches tok (ev_lease_token e) then Inr (d, False)
         else Inr (set_event ((released_event e)\<lparr>ev_status := EFailed,
                     ev_available_at := (case available_at of Some t \<Rightarrow> t | None \<Rightarrow> now),
                     ev_last_error := err\<rparr>) d, True))"

definition fail_event ::
  "session \<Rightarrow> uuid \<Rightarrow> string option \<Rightarrow> instant option \<Rightarrow> string option \<Rightarrow> uuid option
   \<Rightarrow> int option \<Rightarrow> instant \<Rightarrow> db \<Rightarrow> bool outcome" where
  "fail_event s eid err available_at worker tok max_attempts now d =
     ebind (lock_event s eid d) (\<lambda>found. case found of
       None \<Rightarrow> Inr (d, False)
     | Some e \<Rightarrow>
         if \<not> matches worker (ev_lease_owner e) then Inr (d, False)
         else if \<not> matches tok (ev_lease_token e) then Inr (d, False)
         else
           let e' = (released_event e)\<lparr>ev_last_error := err\<rparr>
           in if exhausted max_attempts (ev_attempt_count e)
              then Inr (set_event (e'\<lparr>ev_status := EDeadLetter, ev_available_at := now\<rparr>) d, True)
              else Inr (set_event (e'\<lparr>ev_status := EFailed,
                     ev_available_at := (case available_at of Some t \<Rightarrow> t | None \<Rightarrow> now)\<rparr>) d,
                   True))"

subsection \<open>Every operation is a sequence of tenant-scoped writes\<close>

lemma event_update_fields [simp]:
  "ev_id (exhausted_event e) = ev_id e" "ev_org (exhausted_event e) = ev_org e"
  "ev_key (exhausted_event e) = ev_key e" "evt_lease_ok (exhausted_event e)"
  "ev_id (claimed_event w t n u e) = ev_id e" "ev_org (claimed_event w t n u e) = ev_org e"
  "ev_key (claimed_event w t n u e) = ev_key e" "evt_lease_ok (claimed_event w t n u e)"
  "ev_id (released_event e) = ev_id e" "ev_org (released_event e) = ev_org e"
  "ev_key (released_event e) = ev_key e" "ev_lease_token (released_event e) = None"
  "ev_lease_until (released_event e) = None" "ev_lease_owner (released_event e) = None"
  by (simp_all add: exhausted_event_def claimed_event_def released_event_def evt_lease_ok_def)

lemma event_write:
  assumes "lock_event s eid d = Inr (Some e)"
    and "ev_id e' = ev_id e" "ev_org e' = ev_org e" "ev_key e' = ev_key e" "evt_lease_ok e'"
  shows "writes s d (set_event e' d)"
  by (rule row_write_writes, rule row_write.update_event [where ?e0.0 = e])
     (use lock_event_SomeD [OF assms(1)] assms(2-) in simp_all)

lemma claim_event_writes:
  "ensures (\<lambda>d' _. writes s d d') (claim_event s eid worker ls max_attempts tok now d)"
  unfolding claim_event_def Let_def
  by (intro steps; simp?) (erule event_write; simp)+

lemma mark_published_writes:
  "ensures (\<lambda>d' _. writes s d d') (mark_published s eid worker tok now d)"
  unfolding mark_published_def
  by (intro steps; simp?) (erule event_write; simp add: evt_lease_ok_def)

lemma retry_event_writes:
  "ensures (\<lambda>d' _. writes s d d') (retry_event s eid err at worker tok now d)"
  unfolding retry_event_def
  by (intro steps; simp?) (erule event_write; simp add: evt_lease_ok_def)

lemma fail_event_writes:
  "ensures (\<lambda>d' _. writes s d d') (fail_event s eid err at worker tok max_attempts now d)"
  unfolding fail_event_def Let_def
  by (intro steps; simp?) (erule event_write; simp add: evt_lease_ok_def)+

lemma insert_event_writes:
  assumes "insert_event e d = Some d'" and "ev_org e = ss_tenant s"
    and "ev_id e \<notin> ev_id ` set (events d)" and "evt_lease_ok e"
  shows "writes s d d'"
proof -
  from assms(1) have d': "d' = d\<lparr>events := events d @ [e]\<rparr>"
    and new: "\<forall>x \<in> set (events d). \<not> (ev_org x = ev_org e \<and> ev_key x = ev_key e)"
    by (auto simp: insert_event_def split: if_splits)
  show ?thesis unfolding d'
    by (rule row_write_writes, rule row_write.insert_event_row) (use assms new in auto)
qed

lemma new_event_ok:
  "ev_org (new_event s oid type k aid available_at eid now) = ss_tenant s"
  "ev_id (new_event s oid type k aid available_at eid now) = eid"
  "evt_lease_ok (new_event s oid type k aid available_at eid now)"
  by (simp_all add: new_event_def evt_lease_ok_def)

lemma event_replay_state: "ensures (\<lambda>d' _. d' = d) (event_replay missing s k d)"
  unfolding event_replay_def by (intro steps; simp)

lemma enqueue_writes:
  assumes "eid \<notin> ev_id ` set (events d)"
  shows "ensures (\<lambda>d' _. writes s d d')
           (enqueue s show_id oid type key aid available_at eid now d)"
proof -
  have replay: "ensures (\<lambda>d' _. writes s d d') (event_replay missing s k d)" for missing k
    using event_replay_state [of d missing s k] by (auto simp: ensures_def)
  show ?thesis
    unfolding enqueue_def Let_def
    by (intro steps replay; simp?)
       (erule insert_event_writes; simp add: new_event_ok assms)+
qed

text \<open>
  The batch claim writes rows it selected before its first write; each is still in the table
  when its turn comes, because the selected rows have different keys.
\<close>

lemma claim_each_writes:
  assumes "distinct (map ev_id es)"
    and "\<forall>e \<in> set es. e \<in> set (events d) \<and> ev_org e = ss_tenant s"
  shows "writes s d (fst (claim_each worker gen max_attempts now lease_until es d))"
  using assms
proof (induction es arbitrary: d)
  case (Cons e es)
  have step: "writes s d (set_event e' d)"
    "\<forall>x \<in> set es. x \<in> set (events (set_event e' d)) \<and> ev_org x = ss_tenant s"
    if "ev_id e' = ev_id e" "ev_org e' = ev_org e" "ev_key e' = ev_key e" "evt_lease_ok e'" for e'
  proof -
    show "writes s d (set_event e' d)"
      by (rule row_write_writes, rule row_write.update_event [where ?e0.0 = e])
         (use Cons.prems that in simp_all)
    have "x \<in> set (events (set_event e' d))" if "x \<in> set es" for x
    proof -
      have "ev_id x \<noteq> ev_id e" "x \<in> set (events d)"
        using Cons.prems that by (auto simp: rev_image_eqI)
      with \<open>ev_id e' = ev_id e\<close> show ?thesis by (force simp: table_simps tput_def)
    qed
    with Cons.prems(2) show "\<forall>x \<in> set es. x \<in> set (events (set_event e' d))
        \<and> ev_org x = ss_tenant s" by simp
  qed
  show ?case
    using writes_trans [OF step(1) Cons.IH [OF _ step(2)]] Cons.prems(1)
    by (simp add: Let_def case_prod_beta)
qed simp

lemma pending_batch_mem:
  "e \<in> set (pending_batch s limit now d) \<Longrightarrow>
   e \<in> set (events d) \<and> event_claimable now e \<and> ev_org e = ss_tenant s
   \<and> with_skip_locked s (ev_id e)"
  by (auto simp: pending_batch_def dest!: in_set_takeD)

lemma pending_batch_distinct:
  assumes "keys_ok d"
  shows "distinct (map ev_id (pending_batch s limit now d))"
proof -
  have "distinct (map ev_id (sort_key ev_created_at (filter P (events d))))" for P
    using keys_okD(3) [OF assms] by (simp add: distinct_map inj_on_def)
  then show ?thesis
    by (auto simp: pending_batch_def simp flip: take_map)
qed

lemma claim_pending_writes:
  assumes "keys_ok d"
  shows "ensures (\<lambda>d' _. writes s d d') (claim_pending s worker limit ls max_attempts gen now d)"
proof -
  have "writes s d (fst (claim_each worker gen max_attempts now lu (pending_batch s limit now d) d))"
    for lu
    by (rule claim_each_writes [OF pending_batch_distinct [OF assms]])
       (use pending_batch_mem in blast)
  then show ?thesis
    unfolding claim_pending_def ensures_def by (metis Inr_inject fst_conv rtranclp.rtrancl_refl)
qed

lemmas outbox_writes =
  enqueue_writes claim_pending_writes claim_event_writes
  mark_published_writes retry_event_writes fail_event_writes

subsection \<open>What the claims guarantee\<close>

lemma pending_batch_length: "0 < limit \<Longrightarrow> int (length (pending_batch s limit now d)) \<le> min limit 1000"
  by (auto simp: pending_batch_def)

lemma pending_batch_sorted: "sorted (map ev_created_at (pending_batch s limit now d))"
  by (simp add: pending_batch_def take_map [symmetric] sorted_wrt_take)

text \<open>The batch is empty only if the tenant has nothing claimable.\<close>

lemma pending_batch_empty_iff:
  "0 < limit \<Longrightarrow> pending_batch s limit now d = [] \<longleftrightarrow>
   (\<forall>e \<in> set (events d). \<not> (event_claimable now e \<and> ev_org e = ss_tenant s
        \<and> with_skip_locked s (ev_id e)))"
proof -
  assume "0 < limit"
  then have pos: "nat (min limit 1000) \<noteq> 0" by simp
  have "sort_key f xs = [] \<longleftrightarrow> xs = []" for f :: "event \<Rightarrow> instant" and xs
    by (metis length_0_conv length_sort)
  with pos show ?thesis by (simp add: pending_batch_def filter_empty_conv)
qed

text \<open>The rows a batch claim returns, and what becomes of each selected row.\<close>

lemma claim_each_returns:
  "snd (claim_each worker gen max_attempts now lu es d) =
   map (\<lambda>e. claimed_event worker (gen (ev_id e)) now lu e)
     (filter (\<lambda>e. \<not> exhausted max_attempts (ev_attempt_count e)) es)"
  by (induction es arbitrary: d) (simp_all add: Let_def case_prod_beta)

definition batch_row ::
  "string \<Rightarrow> (uuid \<Rightarrow> uuid) \<Rightarrow> int option \<Rightarrow> instant \<Rightarrow> instant \<Rightarrow> event \<Rightarrow> event" where
  "batch_row worker gen max_attempts now lu e =
     (if exhausted max_attempts (ev_attempt_count e) then exhausted_event e
      else claimed_event worker (gen (ev_id e)) now lu e)"

lemma batch_row_id [simp]: "ev_id (batch_row worker gen max_attempts now lu e) = ev_id e"
  by (simp add: batch_row_def)

lemma claim_each_state:
  assumes "distinct (map ev_id es)" and "ev_id ` set es \<subseteq> ev_id ` set (events d)"
  shows "get_event (fst (claim_each worker gen max_attempts now lu es d)) i =
     (case tget ev_id es i of
        Some e \<Rightarrow> Some (batch_row worker gen max_attempts now lu e)
      | None \<Rightarrow> get_event d i)"
  using assms
proof (induction es arbitrary: d)
  case (Cons e es)
  let ?row = "batch_row worker gen max_attempts now lu e"
  have step: "fst (claim_each worker gen max_attempts now lu (e # es) d)
      = fst (claim_each worker gen max_attempts now lu es (set_event ?row d))"
    by (simp add: batch_row_def Let_def case_prod_beta)
  have ids: "ev_id ` set (events (set_event ?row d)) = ev_id ` set (events d)"
    by (metis list.set_map map_key_tput set_sel(12))
  have "get_event (set_event ?row d) i = (if i = ev_id e then Some ?row else get_event d i)"
  proof (cases "i = ev_id e")
    case True
    then have "get_event d i \<noteq> None" using Cons.prems(2) by (auto simp: tget_None_iff)
    with True show ?thesis by (simp add: table_simps)
  qed (simp add: table_simps)
  moreover have "tget ev_id es (ev_id e) = None" using Cons.prems(1) by (auto simp: tget_None_iff)
  ultimately show ?case
    unfolding step using Cons.IH [of "set_event ?row d"] Cons.prems ids
    by (cases "i = ev_id e") (auto split: option.split)
qed simp

subsection \<open>The single-event claim is a lease\<close>

text \<open>
  \<open>claim_event\<close> also returns rows it did not acquire (published, leased by another worker,
  exhausted); it acquired the row if the row now carries the fresh token.
\<close>

definition evt_until :: "uuid \<Rightarrow> db \<Rightarrow> instant option" where
  "evt_until eid d = (case get_event d eid of None \<Rightarrow> None | Some e \<Rightarrow> ev_lease_until e)"

definition next_token :: "uuid \<Rightarrow> db \<Rightarrow> uuid" where
  "next_token eid d =
     (case get_event d eid of None \<Rightarrow> 0
      | Some e \<Rightarrow> (case ev_lease_token e of None \<Rightarrow> 0 | Some t \<Rightarrow> Suc t))"

definition evt_acquire :: "uuid \<Rightarrow> claimer \<Rightarrow> instant \<Rightarrow> db \<Rightarrow> db option" where
  "evt_acquire eid c now d =
     (case claim_event (cl_session c) eid (cl_worker c) (cl_lease c) (cl_max c)
             (next_token eid d) now d of
        Inr (d', Some e) \<Rightarrow>
          if ev_lease_token e = Some (next_token eid d) then Some d' else None
      | _ \<Rightarrow> None)"

lemma lock_event_get:
  assumes "keys_ok d" and "lock_event s eid d = Inr (Some e)"
  shows "get_event d eid = Some e"
  using assms by (auto simp: lock_event_eq split: option.splits if_splits)

lemma evt_acquire_SomeD:
  assumes "db_ok d" and "evt_acquire eid c now d = Some d'"
  obtains e where "get_event d eid = Some e" "due (ev_lease_until e) now"
    "d' = set_event (claimed_event (cl_worker c) (next_token eid d) now
            (now + lease_length c) e) d"
proof -
  from assms(2) obtain e' where
    cl: "claim_event (cl_session c) eid (cl_worker c) (cl_lease c) (cl_max c) (next_token eid d) now d = Inr (d', Some e')"
    and tok: "ev_lease_token e' = Some (next_token eid d)"
    by (auto simp: evt_acquire_def split: sum.splits prod.splits option.splits if_splits)
  from cl obtain e where lock: "lock_event (cl_session c) eid d = Inr (Some e)"
    by (auto simp: claim_event_def ebind_Inr_iff split: option.splits)
  have get: "get_event d eid = Some e"
    using assms(1) lock by (auto simp: db_ok_def intro: lock_event_get)
  have fresh: "ev_lease_token e \<noteq> Some (next_token eid d)"
    by (auto simp: next_token_def get split: option.splits)
  have "ev_lease_token (exhausted_event e) = None" by (simp add: exhausted_event_def)
  with cl lock tok fresh have d': "d' = set_event (claimed_event (cl_worker c) (next_token eid d) now
            (now + lease_length c) e) d"
    and free: "\<not> (ev_status e = EClaimed \<and> \<not> due (ev_lease_until e) now)"
    by (auto simp: claim_event_def Let_def lease_length_def split: if_splits)
  have "evt_lease_ok e"
    using assms(1) lock_event_SomeD [OF lock] by (simp add: db_ok_def leases_ok_def)
  with free have "due (ev_lease_until e) now"
    by (cases "ev_lease_until e") (auto simp: evt_lease_ok_def)
  with that get d' show thesis by blast
qed

interpretation evt_lease: lease db_ok "evt_until eid" "evt_acquire eid" lease_length
  for eid
proof unfold_locales
  fix d c now d'
  assume ok: "db_ok d" and acq: "evt_acquire eid c now d = Some d'"
  from evt_acquire_SomeD [OF this] obtain e where e: "get_event d eid = Some e"
    "due (ev_lease_until e) now"
    "d' = set_event (claimed_event (cl_worker c) (next_token eid d) now
            (now + lease_length c) e) d" .
  from e(1,2) show "due (evt_until eid d) now" by (simp add: evt_until_def)
  from e(1,3) show "evt_until eid d' = Some (now + lease_length c)"
    by (auto simp: evt_until_def table_simps claimed_event_def dest: tget_key)
  from acq obtain e' where
    "claim_event (cl_session c) eid (cl_worker c) (cl_lease c) (cl_max c) (next_token eid d) now d = Inr (d', Some e')"
    by (auto simp: evt_acquire_def split: sum.splits prod.splits option.splits if_splits)
  then show "db_ok d'" using ensuresD [OF claim_event_writes] ok by (blast intro: writes_db_ok)
qed (simp add: lease_length_def)

end
