(* ===== verification/Ingestion_Worker.thy ===== *)
theory Ingestion_Worker
  imports Ingestion_Outbox
begin

section \<open>Ingestion: the workers that drain the outbox\<close>

text \<open>
  The consumer of \<open>contexta/workers/extraction_tasks.py\<close>.  Each \<open>async with AsyncSessionFactory()\<close> block of
  the consumer is one transaction: on an exception it rolls back, so the state before it is
  kept.  Extraction itself (\<open>FastMemoryOrchestrator.orchestrate\<close> on the stored payload) is the
  parameter \<open>work\<close>, which either returns the memories to embed or raises an error described by an
  \<open>error_info\<close>.  Handing these to the embedding queue, which the code does after the commit but inside
  the same \<open>try\<close>, is the parameter \<open>hand_off\<close>: \<open>Some\<close> is the error it raises.
\<close>

definition no_error :: error_info where
  "no_error = \<lparr>er_type = None, er_message = None, er_details = None\<rparr>"

subsection \<open>Claim transaction\<close>

record claim_info =
  ci_attempt :: "attempt option"
  ci_status :: "obs_status option"
  ci_payload :: "json option"
  ci_event :: "uuid option"
  ci_token :: "uuid option"

definition get_observation_by_id ::
  "session \<Rightarrow> uuid \<Rightarrow> db \<Rightarrow> ingestion_error + observation option" where
  "get_observation_by_id s oid d = select_observation s (\<lambda>r. ob_id r = oid) d"

definition get_event_by_id :: "session \<Rightarrow> uuid \<Rightarrow> db \<Rightarrow> ingestion_error + event option" where
  "get_event_by_id s eid d =
     one_or_none MultipleResultsFound (\<lambda>e. ev_id e = eid \<and> ev_org e = ss_tenant s) (events d)"

definition accepted_key :: "(uuid \<Rightarrow> string) \<Rightarrow> uuid \<Rightarrow> string" where
  "accepted_key show_id oid = ''observation.accepted:'' @ show_id oid"

definition find_outbox_event ::
  "session \<Rightarrow> (uuid \<Rightarrow> string) \<Rightarrow> uuid \<Rightarrow> uuid option \<Rightarrow> db \<Rightarrow> ingestion_error + event option" where
  "find_outbox_event s show_id oid eid d =
     (case eid of
        None \<Rightarrow> get_by_event_key s (accepted_key show_id oid) d
      | Some i \<Rightarrow>
          ebind (get_event_by_id s i d) (\<lambda>found. case found of
            Some e \<Rightarrow> Inr (Some e)
          | None \<Rightarrow> get_by_event_key s (accepted_key show_id oid) d))"

definition observation_missing :: error_info where
  "observation_missing =
     \<lparr>er_type = Some ''ObservationMissing'',
      er_message = Some ''Observation record was not found.'', er_details = None\<rparr>"

text \<open>A found event that is not yet published is claimed too.\<close>

definition claim_found_event ::
  "session \<Rightarrow> event option \<Rightarrow> string \<Rightarrow> int \<Rightarrow> int \<Rightarrow> uuid \<Rightarrow> instant \<Rightarrow> db \<Rightarrow> event option outcome"
  where
  "claim_found_event s found worker max_attempts ls etok now d =
     (case found of
        None \<Rightarrow> Inr (d, None)
      | Some e \<Rightarrow>
          if ev_status e = EPublished then Inr (d, Some e)
          else claim_event s (ev_id e) worker ls (Some max_attempts) etok now d)"

definition claim_durable ::
  "session \<Rightarrow> (uuid \<Rightarrow> string) \<Rightarrow> uuid \<Rightarrow> string \<Rightarrow> uuid option \<Rightarrow> int \<Rightarrow> int
   \<Rightarrow> uuid \<Rightarrow> uuid \<Rightarrow> uuid \<Rightarrow> instant \<Rightarrow> db \<Rightarrow> claim_info outcome" where
  "claim_durable s show_id oid worker eid max_attempts ls tok etok aid now d =
     ebind (claim s oid worker ls (Some max_attempts) tok aid now d) (\<lambda>(d1, att).
     ebind (get_observation_by_id s oid d1) (\<lambda>obs.
     ebind (find_outbox_event s show_id oid eid d1) (\<lambda>found.
     ebind (claim_found_event s found worker max_attempts ls etok now d1) (\<lambda>(d2, ev).
     let event_id = (case ev of None \<Rightarrow> eid | Some e \<Rightarrow> Some (ev_id e));
         event_token = (case ev of None \<Rightarrow> None | Some e \<Rightarrow> ev_lease_token e)
     in case att of
          None \<Rightarrow> Inr (d2, \<lparr>ci_attempt = None, ci_status = map_option ob_status obs,
                    ci_payload = None, ci_event = event_id, ci_token = event_token\<rparr>)
        | Some a \<Rightarrow>
            (case obs of
               None \<Rightarrow>
                 ebind (fail_attempt s (at_id a) (Some worker) (at_token a) observation_missing
                          None 60 (Some max_attempts) now d2)
                   (\<lambda>(d3, _). Inr (d3, \<lparr>ci_attempt = None, ci_status = Some ODeadLetter,
                        ci_payload = None, ci_event = event_id, ci_token = event_token\<rparr>))
             | Some r \<Rightarrow>
                 Inr (d2, \<lparr>ci_attempt = Some a, ci_status = Some (ob_status r),
                    ci_payload = Some (ob_payload r), ci_event = event_id,
                    ci_token = event_token\<rparr>))))))"

subsection \<open>Success and failure transactions\<close>

datatype worker_result =
  Skipped "obs_status option" | LeaseLost | Retrying int | DeadLettered int | Done
| Raised ingestion_error

definition mark_outbox_published ::
  "session \<Rightarrow> uuid option \<Rightarrow> uuid option \<Rightarrow> instant \<Rightarrow> db \<Rightarrow> bool outcome" where
  "mark_outbox_published s eid tok now d =
     (case eid of None \<Rightarrow> Inr (d, False) | Some i \<Rightarrow> mark_published s i None tok now d)"

definition mark_outbox_failed ::
  "session \<Rightarrow> uuid option \<Rightarrow> uuid option \<Rightarrow> string option \<Rightarrow> int \<Rightarrow> int \<Rightarrow> instant \<Rightarrow> db
   \<Rightarrow> bool outcome" where
  "mark_outbox_failed s eid tok err max_attempts retry_delay now d =
     (case eid of
        None \<Rightarrow> Inr (d, False)
      | Some i \<Rightarrow> fail_event s i err (Some (now + seconds (max 0 retry_delay))) None tok
                    (Some max_attempts) now d)"

text \<open>A result together with the state the transaction leaves; a raise leaves the old state.\<close>

definition settle :: "db \<Rightarrow> worker_result outcome \<Rightarrow> db \<times> worker_result" where
  "settle d m = (case m of Inl e \<Rightarrow> (d, Raised e) | Inr p \<Rightarrow> p)"

definition record_attempt_failure ::
  "session \<Rightarrow> uuid \<Rightarrow> attempt \<Rightarrow> string \<Rightarrow> uuid option \<Rightarrow> uuid option \<Rightarrow> error_info
   \<Rightarrow> int \<Rightarrow> int \<Rightarrow> instant \<Rightarrow> instant \<Rightarrow> db \<Rightarrow> db \<times> worker_result" where
  "record_attempt_failure s oid a worker eid etok e max_attempts retry_delay t1 t2 d =
     (case ebind (fail_attempt s (at_id a) (Some worker) (at_token a) e None retry_delay
                    (Some max_attempts) t1 d)
             (\<lambda>(d1, res). case res of
                None \<Rightarrow> Inr (d, None)
              | Some a' \<Rightarrow> ebind (get_observation_by_id s oid d1) (\<lambda>obs.
                  Inr (d1, Some (a', case obs of Some r \<Rightarrow> ob_status r | None \<Rightarrow> ORetrying))))
      of Inl x \<Rightarrow> (d, Raised x)
       | Inr (d1, None) \<Rightarrow> (d1, LeaseLost)
       | Inr (d1, Some (a', st)) \<Rightarrow>
           settle d1 (ebind (mark_outbox_failed s eid etok (er_message e) max_attempts retry_delay t2 d1)
             (\<lambda>(d2, _). Inr (d2, if st = ODeadLetter then DeadLettered (at_number a')
                                 else Retrying (at_number a')))))"

definition process_durable ::
  "session \<Rightarrow> (uuid \<Rightarrow> string) \<Rightarrow> (json \<Rightarrow> error_info + uuid list) \<Rightarrow> (uuid list \<Rightarrow> error_info option)
   \<Rightarrow> (ingestion_error \<Rightarrow> error_info) \<Rightarrow> uuid \<Rightarrow> string \<Rightarrow> uuid option \<Rightarrow> uuid option \<Rightarrow> int \<Rightarrow> int \<Rightarrow> int
   \<Rightarrow> uuid \<Rightarrow> uuid \<Rightarrow> uuid \<Rightarrow> instant \<Rightarrow> instant \<Rightarrow> instant \<Rightarrow> db \<Rightarrow> db \<times> worker_result" where
  "process_durable s show_id work hand_off describe oid worker eid token max_attempts ls retry_delay
     tok etok aid t1 t2 t3 d =
     (case claim_durable s show_id oid worker eid max_attempts ls tok etok aid t1 d of
        Inl e \<Rightarrow> (d, Raised e)
      | Inr (d1, ci) \<Rightarrow>
          (case ci_attempt ci of
             None \<Rightarrow>
               if ci_status ci = Some OCompleted \<and> ci_event ci \<noteq> None
               then settle d1 (ebind (mark_outbox_published s (ci_event ci) (ci_token ci) t2 d1)
                      (\<lambda>(d2, _). Inr (d2, Skipped (ci_status ci))))
               else (d1, Skipped (ci_status ci))
           | Some a \<Rightarrow>
               let event_token = (case ci_token ci of Some t \<Rightarrow> Some t | None \<Rightarrow> token);
                   payload = (case ci_payload ci of Some p \<Rightarrow> p | None \<Rightarrow> []);
                   failure = (\<lambda>e d'. record_attempt_failure s oid a worker (ci_event ci) event_token e
                                max_attempts retry_delay t2 t3 d')
               in case work payload of
                    Inl e \<Rightarrow> failure e d1
                  | Inr mids \<Rightarrow>
                      (case complete_attempt s (at_id a) (Some worker) (at_token a) no_error t2 d1 of
                         Inl x \<Rightarrow> failure (describe x) d1
                       | Inr (_, None) \<Rightarrow> (d1, LeaseLost)
                       | Inr (d2, Some _) \<Rightarrow>
                           (case hand_off mids of
                              Some e \<Rightarrow> failure e d2
                            | None \<Rightarrow>
                                settle d2 (ebind (mark_outbox_published s (ci_event ci) event_token t3 d2)
                                  (\<lambda>(d3, _). Inr (d3, Done)))))))"

subsection \<open>Releasing a claim after an unexpected failure\<close>

datatype disposition = Released | ReleasedDead

definition release_claim_after_failure ::
  "session \<Rightarrow> uuid \<Rightarrow> string \<Rightarrow> int option \<Rightarrow> instant \<Rightarrow> db \<Rightarrow> db \<times> disposition" where
  "release_claim_after_failure s oid err max_attempts now d =
     (case filter (\<lambda>r. ob_id r = oid \<and> ob_org r = ss_tenant s) (observations d) of
        [] \<Rightarrow> (d, Released)
      | r # _ \<Rightarrow>
          let r' = (released r)\<lparr>ob_last_error := Some (take 500 err), ob_updated_at := now\<rparr>
          in if exhausted max_attempts (ob_attempt_count r)
                \<or> ob_status r \<notin> {OProcessing, ORetrying}
             then (set_observation (r'\<lparr>ob_status := ODeadLetter, ob_next_attempt_at := None\<rparr>) d,
                   ReleasedDead)
             else (set_observation (r'\<lparr>ob_status := ORetrying, ob_next_attempt_at := Some now\<rparr>) d,
                   Released))"

subsection \<open>The transactions are sequences of tenant-scoped writes\<close>

lemma claim_found_event_writes:
  "ensures (\<lambda>d' _. writes s d d') (claim_found_event s found worker ma ls etok now d)"
  unfolding claim_found_event_def
  by (intro steps claim_event_writes; simp)

lemma claim_durable_writes:
  assumes "aid \<notin> at_id ` set (attempts d)"
  shows "ensures (\<lambda>d' _. writes s d d')
           (claim_durable s show_id oid worker eid ma ls tok etok aid now d)"
  unfolding claim_durable_def
  apply (rule writes_then [OF writes_refl claim_ensures [OF assms]], unfold prod.case)
  apply (rule ensures_bind, rule ensures_bind)
  apply (erule writes_then [OF _ claim_found_event_writes], unfold prod.case)
  apply (intro ensures_let ensures_option)
    apply (erule writes_return)
   apply (erule writes_then [OF _ fail_attempt_writes], unfold prod.case, erule writes_return)
  apply (erule writes_return)
  done

lemma mark_outbox_published_writes:
  "ensures (\<lambda>d' _. writes s d d') (mark_outbox_published s eid tok now d)"
  unfolding mark_outbox_published_def by (intro steps mark_published_writes; simp)

lemma mark_outbox_failed_writes:
  "ensures (\<lambda>d' _. writes s d d') (mark_outbox_failed s eid tok err ma delay now d)"
  unfolding mark_outbox_failed_def by (intro steps fail_event_writes; simp)

text \<open>\<open>settle\<close> keeps what both outcomes of the transaction keep.\<close>

lemma settle_writes:
  "writes s d0 d \<Longrightarrow> ensures (\<lambda>d' _. writes s d0 d') m \<Longrightarrow> writes s d0 (fst (settle d m))"
  by (auto simp: settle_def ensures_def split: sum.split)

lemma settle_then:
  assumes "writes s d0 d" and "ensures (\<lambda>d' _. writes s d d') m"
  shows "writes s d0 (fst (settle d (ebind m (\<lambda>(d', x). Inr (d', f x)))))"
  by (rule settle_writes [OF assms(1)], rule writes_then [OF assms(1,2)]) simp

lemma record_attempt_failure_writes:
  assumes "writes s d0 d"
  shows "writes s d0 (fst (record_attempt_failure s oid a worker eid etok e ma delay t1 t2 d))"
proof -
  have "ensures (\<lambda>d' _. writes s d0 d')
    (ebind (fail_attempt s (at_id a) (Some worker) (at_token a) e None delay (Some ma) t1 d)
       (\<lambda>(d1, res). case res of None \<Rightarrow> Inr (d, None)
          | Some a' \<Rightarrow> ebind (get_observation_by_id s oid d1) (\<lambda>obs.
              Inr (d1, Some (a', case obs of Some r \<Rightarrow> ob_status r | None \<Rightarrow> ORetrying)))))"
    by (rule writes_then [OF assms fail_attempt_writes], unfold prod.case)
       (intro ensures_option ensures_bind; simp add: assms)
  then show ?thesis
    unfolding record_attempt_failure_def
    by (auto split: sum.split option.split prod.split simp: assms
        intro!: settle_then mark_outbox_failed_writes dest: ensuresD)
qed

lemma process_durable_writes:
  assumes "aid \<notin> at_id ` set (attempts d)"
  shows "writes s d (fst (process_durable s show_id work hand_off describe oid worker eid token ma ls delay
           tok etok aid t1 t2 t3 d))"
proof (cases "claim_durable s show_id oid worker eid ma ls tok etok aid t1 d")
  case (Inr p)
  obtain d1 ci where p: "p = (d1, ci)" by (cases p)
  have w1: "writes s d d1"
    using ensuresD [OF claim_durable_writes [OF assms] Inr [unfolded p]] .
  show ?thesis
  proof (cases "ci_attempt ci")
    case None
    then show ?thesis
      using w1 by (simp add: process_durable_def Inr p settle_then mark_outbox_published_writes)
  next
    case (Some a)
    let ?m = "complete_attempt s (at_id a) (Some worker) (at_token a) no_error t2 d1"
    have "writes s d d2" if "?m = Inr (d2, x)" for d2 x
      using ensuresD [OF complete_attempt_writes that] w1 by (rule writes_trans [rotated])
    then show ?thesis
      using w1
      by (auto simp: process_durable_def Inr p Some Let_def split: sum.split option.split prod.split
          intro!: settle_then record_attempt_failure_writes mark_outbox_published_writes)
  qed
qed (simp add: process_durable_def)

lemma release_claim_writes:
  "writes s d (fst (release_claim_after_failure s oid err ma now d))"
proof (cases "filter (\<lambda>r. ob_id r = oid \<and> ob_org r = ss_tenant s) (observations d)")
  case (Cons r rs)
  then have "r \<in> set (filter (\<lambda>r. ob_id r = oid \<and> ob_org r = ss_tenant s) (observations d))"
    by simp
  then have r: "r \<in> set (observations d)" "ob_org r = ss_tenant s" by auto
  then show ?thesis
    by (auto simp: release_claim_after_failure_def Cons Let_def obs_lease_ok_def
        intro!: row_write_writes row_write.update_observation [where ?r0.0 = r])
qed (simp add: release_claim_after_failure_def)

end
