(* ===== verification/Ingestion_Dispatch.thy ===== *)
theory Ingestion_Dispatch
  imports Ingestion_Worker
begin

section \<open>Ingestion: the dispatcher that hands events to the workers\<close>

text \<open>
  \<open>contexta/workers/outbox_tasks.py\<close>: the query for tenants with pending work, the batch
  claim of one tenant, handing the claimed events to the extraction queue, and the sweep over
  all tenants.  The queue is the parameter \<open>send\<close>: whether \<open>delay\<close> accepts the message
  for an observation, tenant, event and token, or raises.
\<close>

subsection \<open>The dispatcher's query\<close>

text \<open>
  \<open>_pending_organization_ids_async\<close>: the tenants with a claimable event, oldest
  availability first, at most \<open>max 1 (min limit 1000)\<close> of them.
\<close>

definition dispatchable :: "instant \<Rightarrow> event \<Rightarrow> bool" where
  "dispatchable now e \<longleftrightarrow> ev_status e \<in> {EPending, EFailed, EClaimed} \<and>
     ev_available_at e \<le> now \<and> due (ev_lease_until e) now"

definition oldest_available :: "event list \<Rightarrow> uuid \<Rightarrow> instant" where
  "oldest_available es t =
     (case map ev_available_at (filter (\<lambda>e. ev_org e = t) es) of [] \<Rightarrow> 0 | x # xs \<Rightarrow> fold min xs x)"

definition pending_organization_ids :: "int \<Rightarrow> instant \<Rightarrow> db \<Rightarrow> uuid list" where
  "pending_organization_ids limit now d =
     (let es = filter (dispatchable now) (events d)
      in take (nat (max 1 (min limit 1000)))
           (sort_key (oldest_available es) (remdups (map ev_org es))))"

subsection \<open>Claiming and publishing\<close>

record id_result =
  ir_events :: "uuid list"
  ir_observations :: "uuid list"
  ir_attempts :: "uuid list"
  ir_tokens :: "uuid option list"

definition id_result_of :: "event list \<Rightarrow> id_result" where
  "id_result_of es =
     \<lparr>ir_events = map ev_id es, ir_observations = map ev_obs es,
      ir_attempts = map the (filter (\<lambda>a. a \<noteq> None) (map ev_attempt es)),
      ir_tokens = map ev_lease_token es\<rparr>"

definition claim_outbox_events ::
  "session \<Rightarrow> string \<Rightarrow> int \<Rightarrow> int \<Rightarrow> int option \<Rightarrow> (uuid \<Rightarrow> uuid) \<Rightarrow> instant \<Rightarrow> db
   \<Rightarrow> id_result outcome" where
  "claim_outbox_events s worker limit ls max_attempts gen now d =
     ebind (claim_pending s worker limit ls max_attempts gen now d)
       (\<lambda>(d', es). Inr (d', id_result_of es))"

text \<open>The loop over \<open>enumerate(observation_ids)\<close>, indexing the two other lists.\<close>

fun publish_claimed_events ::
  "(uuid \<Rightarrow> uuid \<Rightarrow> uuid \<Rightarrow> uuid option \<Rightarrow> bool) \<Rightarrow> uuid
   \<Rightarrow> uuid list \<Rightarrow> uuid list \<Rightarrow> uuid option list \<Rightarrow> uuid list" where
  "publish_claimed_events send org [] es ts = []"
| "publish_claimed_events send org (oid # oids) [] ts = []"
| "publish_claimed_events send org (oid # oids) (e # es) ts =
     (let tok = (case ts of [] \<Rightarrow> None | t # _ \<Rightarrow> t);
          rest = publish_claimed_events send org oids es (drop 1 ts)
      in if send oid org e tok then e # rest else rest)"

record sweep =
  sw_claimed :: id_result
  sw_published :: "uuid list"
  sw_failures :: "uuid list"

definition empty_sweep :: sweep where
  "empty_sweep = \<lparr>sw_claimed = id_result_of [], sw_published = [], sw_failures = []\<rparr>"

definition publish_failures :: "uuid list \<Rightarrow> uuid list \<Rightarrow> uuid list" where
  "publish_failures claimed published = filter (\<lambda>i. i \<notin> set published) (remdups claimed)"

definition dispatch_one ::
  "session \<Rightarrow> (uuid \<Rightarrow> uuid \<Rightarrow> uuid \<Rightarrow> uuid option \<Rightarrow> bool) \<Rightarrow> string \<Rightarrow> int \<Rightarrow> int
   \<Rightarrow> int option \<Rightarrow> (uuid \<Rightarrow> uuid) \<Rightarrow> instant \<Rightarrow> db \<Rightarrow> sweep outcome" where
  "dispatch_one s send worker limit ls max_attempts gen now d =
     ebind (claim_outbox_events s worker limit ls max_attempts gen now d) (\<lambda>(d', res).
       let published = publish_claimed_events send (ss_tenant s) (ir_observations res)
                         (ir_events res) (ir_tokens res)
       in Inr (d', \<lparr>sw_claimed = res, sw_published = published,
                   sw_failures = publish_failures (ir_events res) published\<rparr>))"

definition add_results :: "id_result \<Rightarrow> id_result \<Rightarrow> id_result" where
  "add_results a b =
     \<lparr>ir_events = ir_events a @ ir_events b, ir_observations = ir_observations a @ ir_observations b,
      ir_attempts = ir_attempts a @ ir_attempts b, ir_tokens = ir_tokens a @ ir_tokens b\<rparr>"

definition add_sweeps :: "sweep \<Rightarrow> sweep \<Rightarrow> sweep" where
  "add_sweeps a b =
     \<lparr>sw_claimed = add_results (sw_claimed a) (sw_claimed b),
      sw_published = sw_published a @ sw_published b,
      sw_failures = sw_failures a @ sw_failures b\<rparr>"

text \<open>
  Each tenant's claim is a transaction of its own, at the instant \<open>clock\<close> gives for it; a
  raise abandons the sweep and keeps what the earlier transactions committed.
\<close>

fun dispatch_tenants ::
  "session \<Rightarrow> (uuid \<Rightarrow> uuid \<Rightarrow> uuid \<Rightarrow> uuid option \<Rightarrow> bool) \<Rightarrow> string \<Rightarrow> int \<Rightarrow> int
   \<Rightarrow> int option \<Rightarrow> (uuid \<Rightarrow> uuid) \<Rightarrow> (uuid \<Rightarrow> instant) \<Rightarrow> uuid list \<Rightarrow> sweep \<Rightarrow> db
   \<Rightarrow> db \<times> (ingestion_error + sweep)" where
  "dispatch_tenants s send worker limit ls max_attempts gen clock [] acc d = (d, Inr acc)"
| "dispatch_tenants s send worker limit ls max_attempts gen clock (t # ts) acc d =
     (case dispatch_one (s\<lparr>ss_tenant := t\<rparr>) send worker limit ls max_attempts gen (clock t) d of
        Inl e \<Rightarrow> (d, Inl e)
      | Inr (d', res) \<Rightarrow>
          dispatch_tenants s send worker limit ls max_attempts gen clock ts
            (add_sweeps acc res) d')"

definition dispatch_outbox_all ::
  "session \<Rightarrow> (uuid \<Rightarrow> uuid \<Rightarrow> uuid \<Rightarrow> uuid option \<Rightarrow> bool) \<Rightarrow> string \<Rightarrow> int \<Rightarrow> int
   \<Rightarrow> int option \<Rightarrow> (uuid \<Rightarrow> uuid) \<Rightarrow> instant \<Rightarrow> (uuid \<Rightarrow> instant) \<Rightarrow> db
   \<Rightarrow> db \<times> (ingestion_error + sweep)" where
  "dispatch_outbox_all s send worker limit ls max_attempts gen now clock d =
     dispatch_tenants s send worker limit ls max_attempts gen clock
       (pending_organization_ids 100 now d) empty_sweep d"

subsection \<open>What the dispatcher does\<close>

lemma claim_outbox_events_writes:
  "keys_ok d \<Longrightarrow> ensures (\<lambda>d' _. writes s d d')
     (claim_outbox_events s worker limit ls max_attempts gen now d)"
  unfolding claim_outbox_events_def
  by (rule writes_then [OF writes_refl claim_pending_writes]) auto

lemma dispatch_one_writes:
  "keys_ok d \<Longrightarrow> ensures (\<lambda>d' _. writes s d d')
     (dispatch_one s send worker limit ls max_attempts gen now d)"
  unfolding dispatch_one_def
  by (rule writes_then [OF writes_refl claim_outbox_events_writes]) (auto simp: Let_def)

text \<open>The queue's answers only decide the report, never the stored state.\<close>

lemma dispatch_one_ignores_send:
  "map_sum id fst (dispatch_one s send worker limit ls max_attempts gen now d) =
   map_sum id fst (claim_pending s worker limit ls max_attempts gen now d)"
  by (simp add: dispatch_one_def claim_outbox_events_def claim_pending_def Let_def
      split: prod.split)

lemma publish_claimed_events_eq:
  "publish_claimed_events send org (map ev_obs es) (map ev_id es) (map ev_lease_token es) =
   map ev_id (filter (\<lambda>e. send (ev_obs e) org (ev_id e) (ev_lease_token e)) es)"
  by (induction es) (simp_all add: Let_def)

end
