(* ===== verification/Ingestion_Runs.thy ===== *)
theory Ingestion_Runs
  imports Ingestion_Dispatch
begin

section \<open>Ingestion: runs of the whole component\<close>

text \<open>
  The ingestion store as a transition system.  A step is one call of a repository operation,
  of a worker transaction or of the dispatcher's claim, by any tenant's session, at any
  instant, with any arguments; the identifiers \<open>uuid4()\<close> draws are new.  The reachable states
  are those of any interleaving of such calls from the empty store.
\<close>

inductive op_step :: "session \<Rightarrow> db \<Rightarrow> db \<Rightarrow> bool" for s d where
  step_insert:
    "\<lbrakk>insert_idempotently s digest key rq fresh oid now d = Inr (d', res);
      oid \<notin> ob_id ` set (observations d)\<rbrakk> \<Longrightarrow> op_step s d d'"
| step_claim:
    "\<lbrakk>claim s oid worker ls max_attempts tok aid now d = Inr (d', att);
      aid \<notin> at_id ` set (attempts d)\<rbrakk> \<Longrightarrow> op_step s d d'"
| step_complete: "complete_attempt s aid worker' tok' e now d = Inr (d', att) \<Longrightarrow> op_step s d d'"
| step_fail:
    "fail_attempt s aid worker' tok' e retry_at delay max_attempts now d = Inr (d', att)
     \<Longrightarrow> op_step s d d'"
| step_dead_letter:
    "dead_letter s oid aid' worker' tok' reason e now d = Inr (d', letter) \<Longrightarrow> op_step s d d'"
| step_enqueue:
    "\<lbrakk>enqueue s show_id oid type key aid' available_at eid now d = Inr (d', ev);
      eid \<notin> ev_id ` set (events d)\<rbrakk> \<Longrightarrow> op_step s d d'"
| step_claim_pending:
    "claim_pending s worker limit ls max_attempts gen now d = Inr (d', es) \<Longrightarrow> op_step s d d'"
| step_claim_event:
    "claim_event s eid worker ls max_attempts tok now d = Inr (d', found) \<Longrightarrow> op_step s d d'"
| step_publish: "mark_published s eid worker' tok' now d = Inr (d', ok) \<Longrightarrow> op_step s d d'"
| step_retry_event:
    "retry_event s eid err available_at worker' tok' now d = Inr (d', ok) \<Longrightarrow> op_step s d d'"
| step_fail_event:
    "fail_event s eid err available_at worker' tok' max_attempts now d = Inr (d', ok)
     \<Longrightarrow> op_step s d d'"
| step_worker:
    "\<lbrakk>process_durable s show_id work hand_off describe oid worker eid' tok' ma ls delay tok etok aid
        t1 t2 t3 d = (d', result);
      aid \<notin> at_id ` set (attempts d)\<rbrakk> \<Longrightarrow> op_step s d d'"
| step_release:
    "release_claim_after_failure s oid error max_attempts now d = (d', disp) \<Longrightarrow> op_step s d d'"
| step_dispatch:
    "dispatch_one s send worker limit ls max_attempts gen now d = Inr (d', sweep) \<Longrightarrow> op_step s d d'"

text \<open>The writes of every step, in one lemma; what follows rests on it.\<close>

lemma op_step_writes:
  assumes "op_step s d d'" and "keys_ok d"
  shows "writes s d d'"
  using assms
proof (cases rule: op_step.cases)
  case step_insert
  then show ?thesis using ensuresD [OF insert_idempotently_ensures] by blast
next
  case step_claim
  then show ?thesis using ensuresD [OF claim_ensures] by blast
next
  case step_complete
  then show ?thesis by (rule ensuresD [OF complete_attempt_writes])
next
  case step_fail
  then show ?thesis by (rule ensuresD [OF fail_attempt_writes])
next
  case step_dead_letter
  then show ?thesis by (rule ensuresD [OF dead_letter_writes])
next
  case (step_enqueue show_id oid type key aid' available_at eid now ev)
  then show ?thesis using ensuresD [OF enqueue_writes] by blast
next
  case step_claim_pending
  then show ?thesis by (rule ensuresD [OF claim_pending_writes [OF assms(2)]])
next
  case step_claim_event
  then show ?thesis by (rule ensuresD [OF claim_event_writes])
next
  case step_publish
  then show ?thesis by (rule ensuresD [OF mark_published_writes])
next
  case step_retry_event
  then show ?thesis by (rule ensuresD [OF retry_event_writes])
next
  case step_fail_event
  then show ?thesis by (rule ensuresD [OF fail_event_writes])
next
  case step_worker
  then show ?thesis by (metis process_durable_writes fst_conv)
next
  case step_release
  then show ?thesis by (metis release_claim_writes fst_conv)
next
  case step_dispatch
  then show ?thesis by (rule ensuresD [OF dispatch_one_writes [OF assms(2)]])
qed

inductive reach :: "db \<Rightarrow> bool" where
  reach_empty: "reach empty_db"
| reach_step: "reach d \<Longrightarrow> op_step s d d' \<Longrightarrow> reach d'"

lemma reach_db_ok: "reach d \<Longrightarrow> db_ok d"
proof (induction rule: reach.induct)
  case (reach_step d s d')
  then show ?case using op_step_writes [of s d d'] writes_db_ok db_okD by blast
qed (rule db_ok_empty)

text \<open>A run by one tenant: every step is one of its sessions'.\<close>

inductive tenant_run :: "uuid \<Rightarrow> db \<Rightarrow> db \<Rightarrow> bool" for t where
  run_refl: "tenant_run t d d"
| run_step: "tenant_run t d d' \<Longrightarrow> op_step s d' d'' \<Longrightarrow> ss_tenant s = t \<Longrightarrow> tenant_run t d d''"

lemma tenant_run_db_ok: "tenant_run t d d' \<Longrightarrow> db_ok d \<Longrightarrow> db_ok d'"
proof (induction rule: tenant_run.induct)
  case (run_step d d' s d'')
  then show ?case using op_step_writes writes_db_ok db_okD by blast
qed simp

lemma tenant_run_view:
  "tenant_run t d d' \<Longrightarrow> db_ok d \<Longrightarrow> u \<noteq> t \<Longrightarrow> tenant_view u d' = tenant_view u d"
proof (induction rule: tenant_run.induct)
  case (run_step d d' s d'')
  then have "db_ok d'" by (blast intro: tenant_run_db_ok)
  with run_step show ?case using op_step_writes writes_tenant_view db_okD by metis
qed simp

text \<open>Rows are never deleted along a run.\<close>

lemma op_step_keeps_rows:
  "op_step s d d' \<Longrightarrow> keys_ok d \<Longrightarrow>
   ob_id ` set (observations d) \<subseteq> ob_id ` set (observations d') \<and>
   at_id ` set (attempts d) \<subseteq> at_id ` set (attempts d') \<and>
   ev_id ` set (events d) \<subseteq> ev_id ` set (events d') \<and>
   set (dead_letters d) \<subseteq> set (dead_letters d')"
  by (rule writes_keeps_rows [OF op_step_writes])

end
