(* ===== verification/Ingestion_Properties.thy ===== *)
theory Ingestion_Properties
  imports Ingestion_Runs
begin

section \<open>Ingestion: what the component promises\<close>

text \<open>
  The properties of the ingestion repositories, the workers and the dispatcher, over the
  transition system of \<open>Ingestion_Runs\<close> and the leases of \<open>Ingestion_Observations\<close> and
  \<open>Ingestion_Outbox\<close>, each with an instance at concrete values.
\<close>

subsection \<open>Concrete values for the instances\<close>

definition demo_session :: session where
  "demo_session = \<lparr>ss_tenant = 1, ss_dialect = Postgresql, ss_locked = []\<rparr>"

definition demo_request :: "string \<Rightarrow> request" where
  "demo_request p = \<lparr>rq_user = 5, rq_session = None, rq_payload = p, rq_metadata = None,
     rq_source = ''api''\<rparr>"

definition demo_row :: observation where
  "demo_row = new_observation demo_session rq_payload (demo_request ''x'') ''k'' 10 0"

definition demo_db :: db where
  "demo_db = \<lparr>observations = [demo_row], attempts = [], dead_letters = [],
     events = [new_event demo_session 10 ''observation.accepted'' ''e'' None None 20 0]\<rparr>"

definition demo_claimer :: "uuid \<Rightarrow> claimer" where
  "demo_claimer tok = \<lparr>cl_session = demo_session, cl_worker = ''w'', cl_lease = 1,
     cl_max = Some 3, cl_token = tok\<rparr>"

text \<open>The definitions a concrete evaluation unfolds.\<close>

lemmas demo_defs = demo_session_def demo_request_def demo_row_def demo_db_def demo_claimer_def

lemma demo_db_steps:
  "insert_idempotently demo_session rq_payload (Some ''k'') (demo_request ''x'') ''f'' 10 0 empty_db
   = Inr (demo_db\<lparr>events := []\<rparr>, demo_row, True)"
  "enqueue demo_session (\<lambda>_. []) 10 ''observation.accepted'' (Some ''e'') None None 20 0
     (demo_db\<lparr>events := []\<rparr>)
   = Inr (demo_db, new_event demo_session 10 ''observation.accepted'' ''e'' None None 20 0, True)"
  by code_simp+

lemma demo_db_reach: "reach demo_db"
proof -
  have "op_step demo_session empty_db (demo_db\<lparr>events := []\<rparr>)"
    by (rule step_insert [OF demo_db_steps(1)]) (simp add: empty_db_def)
  then have r: "reach (demo_db\<lparr>events := []\<rparr>)" by (rule reach_step [OF reach_empty])
  have "op_step demo_session (demo_db\<lparr>events := []\<rparr>) demo_db"
    by (rule step_enqueue [OF demo_db_steps(2)]) simp
  with r show ?thesis by (rule reach_step)
qed

lemma demo_db_ok: "db_ok demo_db" "keys_ok demo_db"
  using reach_db_ok [OF demo_db_reach] by (auto dest: db_okD)

subsection \<open>Invariants of every run\<close>

text \<open>
  Claim C1.  Whatever operations any tenants' workers, dispatchers and clients interleave, the
  declared unique constraints hold, and a row carries a lease token, owner and deadline
  exactly while its status says it is claimed.
\<close>

theorem reachable_states_ok: "reach d \<Longrightarrow> db_ok d"
  by (rule reach_db_ok)

theorem reachable_states_ok_witness: "reach demo_db \<and> db_ok demo_db"
  using demo_db_reach reachable_states_ok [OF demo_db_reach] by simp

text \<open>
  Claim C3.  A tenant's operations, in any number and order, leave every row of every other
  tenant as it was, in every table.
\<close>

theorem other_tenants_untouched:
  "reach d \<Longrightarrow> tenant_run t d d' \<Longrightarrow> u \<noteq> t \<Longrightarrow> tenant_view u d' = tenant_view u d"
  by (rule tenant_run_view [OF _ reach_db_ok])

lemma demo_claim:
  "claim (demo_session\<lparr>ss_tenant := 1\<rparr>) 10 ''w'' 1 None 7 30 0 demo_db
   = Inr (let lu = 1000000 in
       (demo_db\<lparr>observations := [claimed_observation ''w'' 7 0 lu 1 demo_row],
         attempts := [new_attempt demo_session ''w'' 7 30 0 lu 1 10]\<rparr>),
       Some (new_attempt demo_session ''w'' 7 30 0 1000000 1 10))"
  by code_simp

theorem other_tenants_untouched_witness:
  "\<exists>d'. tenant_run 1 demo_db d' \<and> d' \<noteq> demo_db \<and> tenant_view 2 d' = tenant_view 2 demo_db"
proof -
  let ?d = "demo_db\<lparr>observations := [claimed_observation ''w'' 7 0 1000000 1 demo_row],
         attempts := [new_attempt demo_session ''w'' 7 30 0 1000000 1 10]\<rparr>"
  have "op_step demo_session demo_db ?d"
    using demo_claim by (intro step_claim) (auto simp: demo_session_def demo_db_def)
  then have run: "tenant_run 1 demo_db ?d"
    by (rule run_step [OF run_refl]) (simp add: demo_session_def)
  have "attempts ?d \<noteq> attempts demo_db" by (simp add: demo_db_def)
  then have "?d \<noteq> demo_db" by metis
  with run other_tenants_untouched [OF demo_db_reach run, of 2] show ?thesis by auto
qed

subsection \<open>Leases\<close>

text \<open>
  The successful claims of one observation among a history of claim calls (refused calls leave
  the store as it is), and the same for one outbox event.
\<close>

fun claim_history :: "uuid \<Rightarrow> (claimer \<times> instant) list \<Rightarrow> db \<Rightarrow> (claimer \<times> instant) list" where
  "claim_history oid [] d = []"
| "claim_history oid ((c, t) # ts) d =
     (case obs_acquire oid c t d of
        None \<Rightarrow> claim_history oid ts d | Some d' \<Rightarrow> (c, t) # claim_history oid ts d')"

fun event_claim_history ::
  "uuid \<Rightarrow> (claimer \<times> instant) list \<Rightarrow> db \<Rightarrow> (claimer \<times> instant) list" where
  "event_claim_history eid [] d = []"
| "event_claim_history eid ((c, t) # ts) d =
     (case evt_acquire eid c t d of
        None \<Rightarrow> event_claim_history eid ts d
      | Some d' \<Rightarrow> (c, t) # event_claim_history eid ts d')"

lemma claim_history_granted: "claim_history oid ts d = obs_lease.granted oid ts d"
  by (induction oid ts d rule: claim_history.induct) (simp_all split: option.split)

lemma event_claim_history_granted: "event_claim_history eid ts d = evt_lease.granted eid ts d"
  by (induction eid ts d rule: event_claim_history.induct) (simp_all split: option.split)

text \<open>
  In a history of claim calls alone, two claims of one observation that both succeed, by
  whatever workers and in whatever sessions, are at least the first one's lease apart: nobody,
  its holder included, acquires an observation under an unexpired lease.
\<close>

theorem observation_claims_spaced:
  "keys_ok d \<Longrightarrow>
   sorted_wrt (\<lambda>(c1, t1) (c2, t2). t1 + lease_length c1 \<le> t2) (claim_history oid ts d)"
  unfolding claim_history_granted by (rule obs_lease.granted_spaced)

theorem observation_claims_spaced_witness:
  "claim_history 10 [(demo_claimer 1, 0), (demo_claimer 2, 999999), (demo_claimer 3, 1000000)] demo_db
     = [(demo_claimer 1, 0), (demo_claimer 3, 1000000)] \<and>
   sorted_wrt (\<lambda>(c1, t1) (c2, t2). t1 + lease_length c1 \<le> t2)
     (claim_history 10 [(demo_claimer 1, 0), (demo_claimer 2, 999999), (demo_claimer 3, 1000000)] demo_db)"
  by (rule conjI [OF _ observation_claims_spaced [OF demo_db_ok(2)]]) code_simp

text \<open>
  Two claims of one outbox event that each wrote a fresh token to it are at least
  the first one's lease apart.
\<close>

theorem event_claims_spaced:
  "db_ok d \<Longrightarrow>
   sorted_wrt (\<lambda>(c1, t1) (c2, t2). t1 + lease_length c1 \<le> t2) (event_claim_history eid ts d)"
  unfolding event_claim_history_granted by (rule evt_lease.granted_spaced)

theorem event_claims_spaced_witness:
  "event_claim_history 20 [(demo_claimer 1, 0), (demo_claimer 2, 999999), (demo_claimer 3, 1000000)] demo_db
     = [(demo_claimer 1, 0), (demo_claimer 3, 1000000)] \<and>
   sorted_wrt (\<lambda>(c1, t1) (c2, t2). t1 + lease_length c1 \<le> t2)
     (event_claim_history 20 [(demo_claimer 1, 0), (demo_claimer 2, 999999), (demo_claimer 3, 1000000)] demo_db)"
  by (rule conjI [OF _ event_claims_spaced [OF demo_db_ok(1)]]) code_simp

text \<open>
  Two claims that read the same state (the store has no row locks to stop the
  second) do not both succeed: once the first has flushed, the second's flush meets the
  unique attempt number, leaves the store as the first wrote it and returns \<open>None\<close>.
\<close>

theorem racing_claim_stands_down:
  assumes "claim_read s1 oid m1 t1 d = Inr (Some (r1, n1))"
    and "claim_read s2 oid m2 t2 d = Inr (Some (r2, n2))"
    and "claim_flush s1 w1 ls1 tok1 aid1 t1 r1 n1 d = (d1, Some a1)"
  shows "claim_flush s2 w2 ls2 tok2 aid2 t2 r2 n2 d1 = (d1, None)"
proof -
  have n: "n2 = n1" "ob_id r2 = ob_id r1"
    using claim_read_SomeD [OF assms(1)] claim_read_SomeD [OF assms(2)] by simp_all
  have "\<exists>x \<in> set (attempts d1). at_obs x = ob_id r1 \<and> at_number x = n1"
    using assms(3) by (auto simp: claim_flush_def Let_def new_attempt_def split: if_splits)
  with n show ?thesis by (simp add: claim_flush_def)
qed

definition demo_other :: session where
  "demo_other = demo_session\<lparr>ss_dialect := OtherDialect\<rparr>"

lemma demo_race:
  "claim_read demo_other 10 None 0 demo_db = Inr (Some (demo_row, 1))"
  "snd (claim_flush demo_other ''a'' 60 1 31 0 demo_row 1 demo_db) \<noteq> None"
  by code_simp+

theorem racing_claim_stands_down_witness:
  "\<exists>d1 a1. claim_flush demo_other ''a'' 60 1 31 0 demo_row 1 demo_db = (d1, Some a1) \<and>
     claim_flush demo_other ''b'' 60 2 32 0 demo_row 1 d1 = (d1, None)"
proof -
  obtain d1 a1 where f: "claim_flush demo_other ''a'' 60 1 31 0 demo_row 1 demo_db = (d1, Some a1)"
    using demo_race(2) by (cases "claim_flush demo_other ''a'' 60 1 31 0 demo_row 1 demo_db") auto
  from f racing_claim_stands_down [OF demo_race(1) demo_race(1) f] show ?thesis by blast
qed

subsection \<open>Idempotent acceptance\<close>

lemma get_by_idempotency_key_last:
  assumes "get_by_idempotency_key s k d = Inr None" and "ob_key r = k" and "ob_org r = ss_tenant s"
  shows "get_by_idempotency_key s k (d\<lparr>observations := observations d @ [r]\<rparr>) = Inr (Some r)"
proof -
  have "filter (\<lambda>r. ob_key r = k \<and> ob_org r = ss_tenant s) (observations d) = []"
    using assms(1) by (simp add: get_by_idempotency_key_def select_observation_def
        one_or_none_None filter_empty_conv)
  with assms(2,3) show ?thesis
    by (simp add: get_by_idempotency_key_def select_observation_def one_or_none_def)
qed

lemma insert_row_None_get:
  "insert_row r d = None \<longleftrightarrow> (\<exists>x \<in> set (observations d). ob_org x = ob_org r \<and> ob_key x = ob_key r)"
  by (simp add: insert_row_def)

lemma get_key_SomeD:
  "get_by_idempotency_key s k d = Inr (Some r) \<Longrightarrow>
   r \<in> set (observations d) \<and> ob_key r = k \<and> ob_org r = ss_tenant s"
  unfolding get_by_idempotency_key_def select_observation_def by (drule one_or_none_Some) simp

text \<open>After an insert the key finds the row the insert returned.\<close>

lemma insert_then_get:
  assumes "insert_idempotently s digest key rq fresh oid now d = Inr (d1, r, new)"
  shows "get_by_idempotency_key s (effective_key key fresh) d1 = Inr (Some r)"
proof -
  let ?k = "effective_key key fresh"
  let ?r = "new_observation s digest rq ?k oid now"
  have free: "get_by_idempotency_key s ?k d = Inr None"
    if "insert_row ?r d = Some d'" for d'
    using that by (auto simp: insert_row_def new_observation_def get_by_idempotency_key_def
        select_observation_def one_or_none_None split: if_splits)
  have row: "get_by_idempotency_key s ?k d' = Inr (Some ?r)" if "insert_row ?r d = Some d'" for d'
    using get_by_idempotency_key_last [OF free [OF that], of ?r] that
    by (simp add: insert_row_def new_observation_def split: if_splits)
  have rep: "get_by_idempotency_key s ?k d' = Inr (Some x)"
    if "replay m s ?k h d = Inr (d', x, b)" for m h d' x b
    using that by (auto simp: replay_def ebind_Inr_iff split: option.splits)
  show ?thesis
    using assms row rep
    by (auto simp: insert_idempotently_def Let_def ebind_Inr_iff split: if_splits option.splits)
qed

text \<open>With a row under the key, an insert replays it or raises the conflict, in both dialects.\<close>

lemma insert_existing:
  assumes "get_by_idempotency_key s (effective_key key fresh) d = Inr (Some r)"
  shows "insert_idempotently s digest key rq fresh oid now d =
     (if ob_hash r \<noteq> [] \<and> ob_hash r \<noteq> digest rq then Inl IdempotencyConflictError
      else Inr (d, r, False))"
proof -
  have "insert_row (new_observation s digest rq (effective_key key fresh) oid now) d = None"
    using get_key_SomeD [OF assms] by (auto simp: insert_row_def new_observation_def)
  with assms show ?thesis
    by (simp add: insert_idempotently_def Let_def replay_def check_idempotency_hash_def)
qed

text \<open>
  Claim C31.  Accepting an observation is idempotent: when a key has been accepted once, a
  later request under the same key (surrounding white space aside) never adds a row; it gets
  the stored row back, or, when the stored digest differs from its own, the conflict error.
\<close>

theorem accept_is_idempotent:
  assumes "insert_idempotently s digest key rq fresh oid now d = Inr (d1, r, new)"
    and "effective_key key' fresh' = effective_key key fresh"
  shows "insert_idempotently s digest' key' rq' fresh' oid' now' d1 =
     (if ob_hash r \<noteq> [] \<and> ob_hash r \<noteq> digest' rq' then Inl IdempotencyConflictError
      else Inr (d1, r, False))"
  by (rule insert_existing) (use insert_then_get [OF assms(1)] assms(2) in simp)

theorem accept_is_idempotent_witness:
  "insert_idempotently demo_session rq_payload (Some '' k '') (demo_request ''x'') ''g'' 11 5
     (demo_db\<lparr>events := []\<rparr>) = Inr (demo_db\<lparr>events := []\<rparr>, demo_row, False) \<and>
   insert_idempotently demo_session rq_payload (Some ''k'') (demo_request ''y'') ''g'' 11 5
     (demo_db\<lparr>events := []\<rparr>) = Inl IdempotencyConflictError"
proof -
  have h: "effective_key (Some '' k '') ''g'' = effective_key (Some ''k'') ''f''"
    "effective_key (Some ''k'') ''g'' = effective_key (Some ''k'') ''f''"
    "ob_hash demo_row = ''x''"
    by code_simp+
  show ?thesis
    using accept_is_idempotent [OF demo_db_steps(1) h(1)] accept_is_idempotent [OF demo_db_steps(1) h(2)]
    by (simp add: h(3) demo_request_def)
qed

subsection \<open>The dispatcher and the batch claim\<close>

lemma dispatchable_claimable: "dispatchable now e = event_claimable now e"
  by (simp add: dispatchable_def event_claimable_def)

lemma set_pending_organization_ids:
  assumes "card (ev_org ` {e \<in> set (events d). dispatchable now e}) \<le> nat (max 1 (min limit 1000))"
  shows "set (pending_organization_ids limit now d)
         = ev_org ` {e \<in> set (events d). dispatchable now e}"
proof -
  let ?orgs = "map ev_org (filter (dispatchable now) (events d))"
  have set: "set ?orgs = ev_org ` {e \<in> set (events d). dispatchable now e}" by auto
  then have "length (remdups ?orgs) \<le> nat (max 1 (min limit 1000))"
    using assms by (simp add: length_remdups_card_conv)
  then show ?thesis
    using set by (simp add: pending_organization_ids_def Let_def take_all)
qed

text \<open>
  The dispatcher's query mirrors the claim: unless more tenants have work than the
  query may list, it lists a tenant exactly when that tenant's batch claim (no row being held
  by someone else) selects something, an expired claim being work again.
\<close>

theorem dispatcher_mirrors_claim:
  assumes "card (ev_org ` {e \<in> set (events d). dispatchable now e}) \<le> nat (max 1 (min limit 1000))"
    and "0 < n" and "ss_locked s = []"
  shows "ss_tenant s \<in> set (pending_organization_ids limit now d)
         \<longleftrightarrow> pending_batch s n now d \<noteq> []"
  unfolding set_pending_organization_ids [OF assms(1)] pending_batch_empty_iff [OF assms(2)]
  using assms(3) by (fastforce simp: dispatchable_claimable with_skip_locked_def image_iff)

theorem dispatcher_mirrors_claim_witness:
  "1 \<in> set (pending_organization_ids 100 0 demo_db) \<and> pending_batch demo_session 5 0 demo_db \<noteq> []"
proof -
  have "ev_org ` {e \<in> set (events demo_db). dispatchable 0 e} \<subseteq> {1}"
    by (auto simp: demo_db_def new_event_def demo_session_def)
  then have "card (ev_org ` {e \<in> set (events demo_db). dispatchable 0 e}) \<le> card {1::nat}"
    by (rule card_mono [rotated]) simp
  then have "card (ev_org ` {e \<in> set (events demo_db). dispatchable 0 e}) \<le> nat (max 1 (min 100 1000))"
    by simp
  from dispatcher_mirrors_claim [OF this, of 5 demo_session]
  have "1 \<in> set (pending_organization_ids 100 0 demo_db) \<longleftrightarrow> pending_batch demo_session 5 0 demo_db \<noteq> []"
    by (simp add: demo_session_def)
  moreover have "pending_organization_ids 100 0 demo_db = [1]" by code_simp
  ultimately show ?thesis by simp
qed

text \<open>
  A batch claim returns exactly the selected events that have attempts left, each
  now claimed by the worker under its own token, oldest first and at most
  \<open>min limit 1000\<close> of them; a selected event out of attempts is dead-lettered instead; every
  other event and the other tables are left alone.
\<close>

theorem batch_claim_spec:
  fixes s :: session and now :: instant and ls :: int
  assumes "keys_ok d" and "0 < limit"
  defines "batch \<equiv> pending_batch s limit now d"
    and "lu \<equiv> now + seconds (normalize_lease ls)"
  shows "\<exists>d' es. claim_pending s worker limit ls max_attempts gen now d = Inr (d', es) \<and>
    es = map (\<lambda>e. claimed_event worker (gen (ev_id e)) now lu e)
           (filter (\<lambda>e. \<not> exhausted max_attempts (ev_attempt_count e)) batch) \<and>
    int (length es) \<le> min limit 1000 \<and> sorted (map ev_created_at es) \<and>
    (\<forall>i. get_event d' i = (case tget ev_id batch i of
        Some e \<Rightarrow> Some (batch_row worker gen max_attempts now lu e) | None \<Rightarrow> get_event d i)) \<and>
    observations d' = observations d \<and> attempts d' = attempts d \<and> dead_letters d' = dead_letters d"
proof -
  let ?r = "claim_each worker gen max_attempts now lu batch d"
  let ?es = "map (\<lambda>e. claimed_event worker (gen (ev_id e)) now lu e)
           (filter (\<lambda>e. \<not> exhausted max_attempts (ev_attempt_count e)) batch)"
  have claim: "claim_pending s worker limit ls max_attempts gen now d = Inr ?r"
    using assms(2) by (simp add: claim_pending_def batch_def lu_def)
  have frame: "observations (fst (claim_each worker gen max_attempts now lu es d0)) = observations d0 \<and>
     attempts (fst (claim_each worker gen max_attempts now lu es d0)) = attempts d0 \<and>
     dead_letters (fst (claim_each worker gen max_attempts now lu es d0)) = dead_letters d0" for es d0
    by (induction es arbitrary: d0) (simp_all add: Let_def case_prod_beta table_simps)
  have len: "int (length ?es) \<le> min limit 1000"
  proof -
    have "int (length ?es) \<le> int (length batch)" by simp
    also have "\<dots> \<le> min limit 1000" unfolding batch_def by (rule pending_batch_length [OF assms(2)])
    finally show ?thesis .
  qed
  have sorted: "sorted (map ev_created_at ?es)"
  proof -
    have "map ev_created_at ?es = map ev_created_at
        (filter (\<lambda>e. \<not> exhausted max_attempts (ev_attempt_count e)) batch)"
      by (simp add: claimed_event_def)
    then show ?thesis
      using sorted_filter [OF pending_batch_sorted [of s limit now d],
          of "\<lambda>e. \<not> exhausted max_attempts (ev_attempt_count e)"]
      unfolding batch_def by (simp only:)
  qed
  have "ev_id ` set batch \<subseteq> ev_id ` set (events d)"
    using pending_batch_mem [of _ s limit now d] by (auto simp: batch_def)
  then have state: "get_event (fst ?r) i = (case tget ev_id batch i of
        Some e \<Rightarrow> Some (batch_row worker gen max_attempts now lu e) | None \<Rightarrow> get_event d i)" for i
    unfolding batch_def by (intro claim_each_state pending_batch_distinct assms(1))
  have ret: "snd ?r = ?es" by (rule claim_each_returns)
  show ?thesis
    by (rule exI [of _ "fst ?r"], rule exI [of _ ?es], intro conjI allI)
       (use claim len sorted state frame [of batch d] in \<open>simp_all add: prod_eq_iff ret del: length_map\<close>)
qed

theorem batch_claim_spec_witness:
  "\<exists>d' es. claim_pending demo_session ''w'' 5 60 (Some 3) (\<lambda>i. i + 1) 0 demo_db = Inr (d', es) \<and>
     map ev_lease_token es = [Some 21] \<and> observations d' = observations demo_db"
proof -
  have "map (\<lambda>e. ev_lease_token (claimed_event ''w'' (ev_id e + 1) 0 (0 + seconds (normalize_lease 60)) e))
      (filter (\<lambda>e. \<not> exhausted (Some 3) (ev_attempt_count e)) (pending_batch demo_session 5 0 demo_db))
      = [Some 21]"
    by code_simp
  with batch_claim_spec [OF demo_db_ok(2), of 5 demo_session "''w''" 60 "Some 3" "\<lambda>i. i + 1" 0]
  show ?thesis by (auto simp: comp_def)
qed

text \<open>
  Handing events to the queue decides only the report: whatever the queue answers,
  a dispatch leaves the store exactly as the batch claim does, and every claimed event is
  reported as published or as failed and not both.  In particular an event the queue refused
  keeps its lease.
\<close>

theorem dispatch_report_partitions:
  assumes "keys_ok d"
    and "dispatch_one s send worker limit ls max_attempts gen now d = Inr (d', sw)"
  shows "\<exists>es. claim_pending s worker limit ls max_attempts gen now d = Inr (d', es) \<and>
    set (sw_published sw) \<union> set (sw_failures sw) = ev_id ` set es \<and>
    set (sw_published sw) \<inter> set (sw_failures sw) = {} \<and>
    (\<forall>e \<in> set es. ev_id e \<in> set (sw_failures sw) \<longrightarrow> ev_status e = EClaimed \<and> ev_lease_token e \<noteq> None)"
proof -
  from assms(2) obtain es where cp: "claim_pending s worker limit ls max_attempts gen now d = Inr (d', es)"
    and sw: "sw = \<lparr>sw_claimed = id_result_of es,
        sw_published = map ev_id (filter (\<lambda>e. send (ev_obs e) (ss_tenant s) (ev_id e) (ev_lease_token e)) es),
        sw_failures = publish_failures (map ev_id es)
           (map ev_id (filter (\<lambda>e. send (ev_obs e) (ss_tenant s) (ev_id e) (ev_lease_token e)) es))\<rparr>"
    by (auto simp: dispatch_one_def claim_outbox_events_def ebind_Inr_iff Let_def id_result_of_def
        publish_claimed_events_eq)
  have "ev_status e = EClaimed \<and> ev_lease_token e \<noteq> None" if "e \<in> set es" for e
    using cp that claim_each_returns [of worker gen max_attempts now
        "now + seconds (normalize_lease ls)" "pending_batch s limit now d" d]
    by (auto simp: claim_pending_def claimed_event_def split: if_splits)
  with cp sw show ?thesis by (auto simp: publish_failures_def)
qed

theorem dispatch_report_partitions_witness:
  "\<exists>d' sw es. dispatch_one demo_session (\<lambda>_ _ _ _. False) ''w'' 5 60 None (\<lambda>i. i) 0 demo_db = Inr (d', sw) \<and>
     claim_pending demo_session ''w'' 5 60 None (\<lambda>i. i) 0 demo_db = Inr (d', es) \<and>
     sw_published sw = [] \<and> sw_failures sw = [20] \<and> ev_id ` set es = {20}"
proof -
  let ?m = "dispatch_one demo_session (\<lambda>_ _ _ _. False) ''w'' 5 60 None (\<lambda>i. i) 0 demo_db"
  have "map_sum id (\<lambda>(d', sw). (sw_published sw, sw_failures sw)) ?m = Inr ([], [20])"
    by code_simp
  then obtain d' sw where m: "?m = Inr (d', sw)" "sw_published sw = []" "sw_failures sw = [20]"
    by (cases ?m) auto
  from dispatch_report_partitions [OF demo_db_ok(2) m(1)] m show ?thesis by auto
qed

end
