(* ===== verification/Ingestion_Leases.thy ===== *)
theory Ingestion_Leases
  imports Ingestion_Properties
begin

section \<open>Ingestion: the leases of an observation over whole runs\<close>

text \<open>
  Every operation but a claim leaves an observation's lease as it finds it or gives it up.
  Over the runs of the whole component this accounts for every lease ever seen in the store:
  it was taken by a claim that found the observation free or its lease run out.
\<close>

subsection \<open>Operations that never take a lease\<close>

definition lease_of :: "uuid \<Rightarrow> db \<Rightarrow> (uuid \<times> instant option) option" where
  "lease_of oid d =
     (case get_observation d oid of
        None \<Rightarrow> None
      | Some r \<Rightarrow> (case ob_lease_token r of None \<Rightarrow> None | Some t \<Rightarrow> Some (t, ob_lease_until r)))"

definition yields :: "uuid \<Rightarrow> db \<Rightarrow> db \<Rightarrow> bool" where
  "yields oid d d' \<longleftrightarrow> lease_of oid d' = lease_of oid d \<or> lease_of oid d' = None"

lemma yields_refl [simp]: "yields oid d d"
  by (simp add: yields_def)

lemma yields_trans: "yields oid a b \<Longrightarrow> yields oid b c \<Longrightarrow> yields oid a c"
  by (auto simp: yields_def)

lemma yields_same: "observations d' = observations d \<Longrightarrow> yields oid d d'"
  by (simp add: yields_def lease_of_def)

lemma yields_released: "ob_lease_token r = None \<Longrightarrow> yields oid d (set_observation r d)"
  by (simp add: yields_def lease_of_def table_simps tget_tput)

lemma yields_finished:
  "ob_lease_token r = None \<Longrightarrow> yields oid d (set_observation r (set_attempt a d))"
  using yields_trans [OF yields_same yields_released] by (simp add: table_simps)

lemma yields_buried:
  "yields oid d d' \<Longrightarrow> yields oid d (add_dead_letter x d')"
  using yields_trans [OF _ yields_same] by (simp add: add_dead_letter_def)

lemmas yield_leaves = yields_same yields_released yields_finished yields_buried

lemma complete_attempt_yields:
  "ensures (\<lambda>d' _. yields oid d d') (complete_attempt s aid worker tok e now d)"
  unfolding complete_attempt_def Let_def
  by (intro steps; simp add: yield_leaves table_simps)

lemma fail_attempt_yields:
  "ensures (\<lambda>d' _. yields oid d d')
     (fail_attempt s aid worker tok e retry_at delay max_attempts now d)"
  unfolding fail_attempt_def Let_def
  by (intro steps; simp add: yield_leaves table_simps)

lemma dead_letter_yields:
  "ensures (\<lambda>d' _. yields oid d d') (dead_letter s oid' aid worker tok reason e now d)"
proof -
  have half: "yields oid d d'" if "dead_letter_attempt s oid' aid worker tok now d = Inr (d', go)" for d' go
    using ensuresD [OF dead_letter_attempt_writes that] by (simp add: yields_same)
  show ?thesis
    unfolding dead_letter_def Let_def
    by (intro steps; simp)
       (drule half, simp add: yields_buried yields_trans [OF _ yields_released])+
qed

lemma release_claim_yields:
  "yields oid d (fst (release_claim_after_failure s oid' err ma now d))"
  by (auto simp: release_claim_after_failure_def Let_def yields_released split: list.split)

lemma insert_row_yields:
  "insert_row r d = Some d' \<Longrightarrow> ob_lease_token r = None \<Longrightarrow> yields oid d d'"
  by (auto simp: insert_row_def yields_def lease_of_def tget_append split: if_splits option.splits)

lemma insert_idempotently_yields:
  assumes "insert_idempotently s digest key rq fresh i now d = Inr (d', res)"
  shows "yields oid d d'"
proof -
  let ?r = "new_observation s digest rq (effective_key key fresh) i now"
  from assms consider "d' = d" | "insert_row ?r d = Some d'"
    by (cases res) (auto simp: insert_idempotently_def Let_def ebind_Inr_iff dest: replay_writes
        split: if_splits option.splits)
  then show ?thesis
    by cases (auto intro: insert_row_yields simp: new_observation_def)
qed

text \<open>The outbox operations do not touch the observations at all.\<close>

lemma outbox_keeps_observations:
  "ensures (\<lambda>d' _. observations d' = observations d) (claim_event s eid worker ls ma tok now d)"
  "ensures (\<lambda>d' _. observations d' = observations d) (mark_published s eid worker' tok' now d)"
  "ensures (\<lambda>d' _. observations d' = observations d) (retry_event s eid err at worker' tok' now d)"
  "ensures (\<lambda>d' _. observations d' = observations d) (fail_event s eid err at worker' tok' ma now d)"
  unfolding claim_event_def mark_published_def retry_event_def fail_event_def Let_def
  by (intro steps; simp add: table_simps)+

lemma enqueue_keeps_observations:
  "ensures (\<lambda>d' _. observations d' = observations d)
     (enqueue s show_id i type key aid at eid now d)"
proof -
  have replay: "ensures (\<lambda>d' _. observations d' = observations d) (event_replay missing s k d)"
    for missing k
    using event_replay_state [of d missing s k] by (auto simp: ensures_def)
  show ?thesis
    unfolding enqueue_def Let_def insert_event_def
    by (intro steps replay; simp split: if_splits; fastforce)
qed

lemma claim_each_observations:
  "observations (fst (claim_each worker gen ma now lu es d)) = observations d"
  by (induction es arbitrary: d) (simp_all add: Let_def case_prod_beta table_simps)

lemma dispatch_keeps_observations:
  "ensures (\<lambda>d' _. observations d' = observations d) (claim_pending s worker limit ls ma gen now d)"
  "ensures (\<lambda>d' _. observations d' = observations d) (dispatch_one s send worker limit ls ma gen now d)"
proof -
  show "ensures (\<lambda>d' _. observations d' = observations d) (claim_pending s worker limit ls ma gen now d)"
    unfolding claim_pending_def ensures_def
    using claim_each_observations by (metis Inr_inject fst_conv)
  then show "ensures (\<lambda>d' _. observations d' = observations d) (dispatch_one s send worker limit ls ma gen now d)"
    unfolding dispatch_one_def claim_outbox_events_def Let_def
    by (intro steps; auto dest: ensuresD simp: ebind_Inr_iff)
qed

subsection \<open>Claims and the worker\<close>

text \<open>
  \<open>takes oid d d'\<close>: the lease in \<open>d'\<close> is the one a claim on \<open>d\<close> leaves, by some
  worker at some instant.
\<close>

definition takes :: "uuid \<Rightarrow> db \<Rightarrow> db \<Rightarrow> bool" where
  "takes oid d d' \<longleftrightarrow>
     (\<exists>c t d1. obs_acquire oid c t d = Some d1 \<and> lease_of oid d' = lease_of oid d1)"

lemma obs_acquire_of_claim:
  assumes "claim s oid worker ls ma tok aid now d = Inr (d', Some a)"
  shows "\<exists>d1. obs_acquire oid \<lparr>cl_session = s, cl_worker = worker, cl_lease = ls, cl_max = ma,
             cl_token = tok\<rparr> now d = Some d1 \<and> observations d1 = observations d'"
proof -
  from assms obtain r number where "claim_read s oid ma now d = Inr (Some (r, number))"
    and "claim_flush s worker ls tok aid now r number d = (d', Some a)"
    by (auto simp: claim_def ebind_Inr_iff split: option.splits)
  then show ?thesis
    by (auto simp: obs_acquire_def claim_def claim_flush_def Let_def split: if_splits)
qed

lemma claim_takes_or_keeps:
  assumes "claim s i worker ls ma tok aid now d = Inr (d', res)"
  shows "(res = None \<and> d' = d) \<or> lease_of oid d' = lease_of oid d \<or> takes oid d d'"
proof (cases res)
  case None
  with assms have "d' = d"
    by (auto simp: claim_def ebind_Inr_iff claim_flush_def Let_def split: option.splits if_splits)
  with None show ?thesis by simp
next
  case (Some a)
  show ?thesis
  proof (cases "i = oid")
    case True
    with obs_acquire_of_claim [of s oid worker ls ma tok aid now d d' a] assms Some
    have "takes oid d d'" unfolding takes_def lease_of_def by metis
    then show ?thesis by blast
  next
    case False
    from assms [unfolded Some] show ?thesis
    proof (rule claim_SomeD)
      fix r assume "ob_id r = i" and "d' = (set_observation (claimed_observation worker tok now
             (now + seconds (normalize_lease ls)) (max_attempt_number i d + 1) r) d)
            \<lparr>attempts := attempts d @ [a]\<rparr>"
      with False have "lease_of oid d' = lease_of oid d"
        by (auto simp: lease_of_def table_simps tget_tput claimed_observation_def)
      then show ?thesis by blast
    qed
  qed
qed

lemma yields_takes: "takes oid d d1 \<Longrightarrow> yields oid d1 d' \<Longrightarrow> takes oid d d' \<or> yields oid d d'"
  unfolding takes_def yields_def by metis

lemma settle_yields:
  assumes "yields oid d0 d" and "ensures (\<lambda>d' _. yields oid d d') m"
  shows "yields oid d0 (fst (settle d (ebind m (\<lambda>(d', x). Inr (d', f x)))))"
  using assms yields_trans
  by (cases m) (auto simp: settle_def ensures_def split: prod.split)

lemma mark_outbox_yields:
  "ensures (\<lambda>d' _. yields oid d d') (mark_outbox_published s eid tok now d)"
  "ensures (\<lambda>d' _. yields oid d d') (mark_outbox_failed s eid tok err ma delay now d)"
  unfolding mark_outbox_published_def mark_outbox_failed_def
  by (intro steps; auto simp: ensures_def intro: yields_same dest: ensuresD [OF outbox_keeps_observations(2)]
      ensuresD [OF outbox_keeps_observations(4)])+

lemma record_attempt_failure_yields:
  "yields oid d (fst (record_attempt_failure s i a worker eid etok e ma delay t1 t2 d))"
proof -
  have "ensures (\<lambda>d' _. yields oid d d')
    (ebind (fail_attempt s (at_id a) (Some worker) (at_token a) e None delay (Some ma) t1 d)
       (\<lambda>(d1, res). case res of None \<Rightarrow> Inr (d, None)
          | Some a' \<Rightarrow> ebind (get_observation_by_id s i d1) (\<lambda>obs.
              Inr (d1, Some (a', case obs of Some r \<Rightarrow> ob_status r | None \<Rightarrow> ORetrying)))))"
    by (intro steps; auto dest: ensuresD [OF fail_attempt_yields])
  then show ?thesis
    unfolding record_attempt_failure_def
    by (auto split: sum.split option.split prod.split
        intro!: settle_yields mark_outbox_yields dest: ensuresD)
qed

definition tracked :: "uuid \<Rightarrow> db \<Rightarrow> db \<Rightarrow> bool" where
  "tracked oid d d' \<longleftrightarrow> takes oid d d' \<or> yields oid d d'"

lemma tracked_yields [trans]: "tracked oid d d1 \<Longrightarrow> yields oid d1 d' \<Longrightarrow> tracked oid d d'"
  unfolding tracked_def using yields_takes yields_trans by blast

lemma claim_tracked:
  "claim s i worker ls ma tok aid now d = Inr (d', res) \<Longrightarrow> tracked oid d d'"
  using claim_takes_or_keeps [of s i worker ls ma tok aid now d d' res oid]
  by (auto simp: tracked_def yields_def)

lemma claim_durable_tracked:
  "ensures (\<lambda>d' _. tracked oid d d') (claim_durable s show_id i worker eid ma ls tok etok aid now d)"
proof -
  have found: "ensures (\<lambda>d' _. yields oid d1 d') (claim_found_event s found worker ma ls etok now d1)"
    for found d1
    unfolding claim_found_event_def
    by (intro steps; auto simp: ensures_def intro: yields_same
        dest: ensuresD [OF outbox_keeps_observations(1)])
  have two: "tracked oid d d2"
    if "claim s i worker ls (Some ma) tok aid now d = Inr (d1, att)"
      and "claim_found_event s f worker ma ls etok now d1 = Inr (d2, ev)" for d1 att f d2 ev
    using tracked_yields [OF claim_tracked [OF that(1)] ensuresD [OF found that(2)]] .
  show ?thesis
    unfolding claim_durable_def Let_def
    by (intro steps; simp; blast intro: two tracked_yields [OF two] ensuresD [OF fail_attempt_yields])
qed

lemma process_durable_tracked:
  "tracked oid d (fst (process_durable s show_id work hand_off describe i worker eid token ma ls delay
     tok etok aid t1 t2 t3 d))"
proof (cases "claim_durable s show_id i worker eid ma ls tok etok aid t1 d")
  case (Inr p)
  obtain d1 ci where p: "p = (d1, ci)" by (cases p)
  have t: "tracked oid d d1"
    using ensuresD [OF claim_durable_tracked Inr [unfolded p]] .
  have "yields oid d1 (fst (process_durable s show_id work hand_off describe i worker eid token ma ls
     delay tok etok aid t1 t2 t3 d))"
  proof (cases "ci_attempt ci")
    case None
    then show ?thesis
      by (simp add: process_durable_def Inr p settle_yields mark_outbox_yields)
  next
    case (Some a)
    let ?m = "complete_attempt s (at_id a) (Some worker) (at_token a) no_error t2 d1"
    have "yields oid d1 d2" if "?m = Inr (d2, x)" for d2 x
      using ensuresD [OF complete_attempt_yields that] .
    then show ?thesis
      by (auto simp: process_durable_def Inr p Some Let_def split: sum.split option.split prod.split
          intro!: settle_yields mark_outbox_yields record_attempt_failure_yields
          intro: yields_trans [OF _ record_attempt_failure_yields])
  qed
  then show ?thesis using t by (rule tracked_yields [rotated])
qed (simp add: process_durable_def tracked_def)

lemma op_step_tracked:
  assumes "op_step s d d'"
  shows "tracked oid d d'"
  using assms
proof (cases rule: op_step.cases)
  case step_insert
  then show ?thesis by (simp add: tracked_def insert_idempotently_yields)
next
  case step_claim
  then show ?thesis by (simp add: claim_tracked)
next
  case step_complete
  then show ?thesis using ensuresD [OF complete_attempt_yields] by (simp add: tracked_def)
next
  case step_fail
  then show ?thesis using ensuresD [OF fail_attempt_yields] by (simp add: tracked_def)
next
  case step_dead_letter
  then show ?thesis using ensuresD [OF dead_letter_yields] by (simp add: tracked_def)
next
  case step_enqueue
  then show ?thesis using ensuresD [OF enqueue_keeps_observations] by (simp add: tracked_def yields_same)
next
  case step_claim_pending
  then show ?thesis using ensuresD [OF dispatch_keeps_observations(1)] by (simp add: tracked_def yields_same)
next
  case step_claim_event
  then show ?thesis using ensuresD [OF outbox_keeps_observations(1)] by (simp add: tracked_def yields_same)
next
  case step_publish
  then show ?thesis using ensuresD [OF outbox_keeps_observations(2)] by (simp add: tracked_def yields_same)
next
  case step_retry_event
  then show ?thesis using ensuresD [OF outbox_keeps_observations(3)] by (simp add: tracked_def yields_same)
next
  case step_fail_event
  then show ?thesis using ensuresD [OF outbox_keeps_observations(4)] by (simp add: tracked_def yields_same)
next
  case step_worker
  then show ?thesis by (metis process_durable_tracked fst_conv)
next
  case step_release
  then show ?thesis by (metis release_claim_yields fst_conv tracked_def)
next
  case step_dispatch
  then show ?thesis using ensuresD [OF dispatch_keeps_observations(2)] by (simp add: tracked_def yields_same)
qed

subsection \<open>Every lease ever held\<close>

text \<open>
  The run of the component as one observation sees it: \<open>gs\<close> lists, oldest first, the claims
  (who, when) granted since its lease was last given up.  A step either leaves the lease alone,
  or gives it up, or leaves the lease a claim on that state takes.
\<close>

inductive claim_run :: "uuid \<Rightarrow> (claimer \<times> instant) list \<Rightarrow> db \<Rightarrow> bool" for oid where
  run_start: "claim_run oid [] empty_db"
| run_kept:
    "\<lbrakk>claim_run oid gs d; op_step s d d'; lease_of oid d' = lease_of oid d\<rbrakk> \<Longrightarrow> claim_run oid gs d'"
| run_given_up:
    "\<lbrakk>claim_run oid gs d; op_step s d d'; lease_of oid d' = None\<rbrakk> \<Longrightarrow> claim_run oid [] d'"
| run_granted:
    "\<lbrakk>claim_run oid gs d; op_step s d d'; obs_acquire oid c t d = Some d1;
      lease_of oid d' = lease_of oid d1\<rbrakk> \<Longrightarrow> claim_run oid (gs @ [(c, t)]) d'"

lemma claim_run_reach: "claim_run oid gs d \<Longrightarrow> reach d"
  by (induction rule: claim_run.induct) (auto intro: reach.intros)

lemma every_run_has_claims: "reach d \<Longrightarrow> \<exists>gs. claim_run oid gs d"
proof (induction rule: reach.induct)
  case (reach_step d s d')
  then obtain gs where "claim_run oid gs d" by blast
  from op_step_tracked [OF reach_step(2), of oid]
  consider c t d1 where "obs_acquire oid c t d = Some d1" "lease_of oid d' = lease_of oid d1"
    | "lease_of oid d' = lease_of oid d" | "lease_of oid d' = None"
    unfolding tracked_def takes_def yields_def by meson
  then show ?case
  proof cases
    case 1
    from run_granted [OF \<open>claim_run oid gs d\<close> reach_step(2) this] show ?thesis by blast
  next
    case 2
    from run_kept [OF \<open>claim_run oid gs d\<close> reach_step(2) this] show ?thesis by blast
  next
    case 3
    from run_given_up [OF \<open>claim_run oid gs d\<close> reach_step(2) this] show ?thesis by blast
  qed
next
  case reach_empty
  show ?case by (rule exI [of _ "[]"], rule run_start)
qed

lemma lease_of_until:
  assumes "db_ok d" and "lease_of oid d = Some (tok, u)"
  shows "u = obs_until oid d" and "u \<noteq> None"
proof -
  obtain r where r: "get_observation d oid = Some r" "ob_lease_token r = Some tok" "u = ob_lease_until r"
    using assms(2) by (auto simp: lease_of_def split: option.splits)
  moreover have "obs_lease_ok r"
    using assms(1) tget_SomeD [OF r(1)] by (auto simp: db_ok_def leases_ok_def)
  ultimately show "u = obs_until oid d" "u \<noteq> None" by (auto simp: obs_until_def obs_lease_ok_def)
qed

lemma acquired_lease:
  assumes "keys_ok d" and "obs_acquire oid c t d = Some d1"
  shows "lease_of oid d1 = Some (cl_token c, Some (t + lease_length c))"
proof -
  obtain a where "claim (cl_session c) oid (cl_worker c) (cl_lease c) (cl_max c) (cl_token c)
         (next_attempt_id d) t d = Inr (d1, Some a)"
    using obs_acquire_SomeD [OF assms(2)] by blast
  with assms(1) show ?thesis
  proof (rule get_after_claim)
    fix r
    assume "get_observation d1 oid = Some (claimed_observation (cl_worker c) (cl_token c) t
        (t + seconds (normalize_lease (cl_lease c))) (max_attempt_number oid d + 1) r)"
    then show ?thesis by (simp add: lease_of_def claimed_observation_def lease_length_def)
  qed
qed

text \<open>The last claim granted is the one whose lease is in the store.\<close>

lemma claim_run_last:
  "claim_run oid gs d \<Longrightarrow> gs \<noteq> [] \<Longrightarrow>
   lease_of oid d = (case last gs of (c, t) \<Rightarrow> Some (cl_token c, Some (t + lease_length c)))"
proof (induction rule: claim_run.induct)
  case (run_granted gs d s d' c t d1)
  then have "keys_ok d" using claim_run_reach reach_db_ok db_okD by blast
  from acquired_lease [OF this run_granted(3)] run_granted(4) show ?case by simp
qed simp_all

lemma claim_run_spaced:
  "claim_run oid gs d \<Longrightarrow> sorted_wrt (\<lambda>(c1, t1) (c2, t2). t1 + lease_length c1 \<le> t2) gs"
proof (induction rule: claim_run.induct)
  case (run_granted gs d s d' c t d1)
  have ok: "db_ok d" using run_granted(1) claim_run_reach reach_db_ok by blast
  have due: "due (obs_until oid d) t"
    using obs_lease.acquire_due [OF db_okD(1) [OF ok] run_granted(3)] .
  show ?case
  proof (cases gs rule: rev_cases)
    case (snoc hs q)
    obtain c0 t0 where q: "q = (c0, t0)" by (cases q)
    have "lease_of oid d = Some (cl_token c0, Some (t0 + lease_length c0))"
      using claim_run_last [OF run_granted(1)] snoc q by simp
    with lease_of_until(1) [OF ok this] have "obs_until oid d = Some (t0 + lease_length c0)" by simp
    with due have l0: "t0 + lease_length c0 \<le> t" by simp
    have "t1 + lease_length c1 \<le> t" if "(c1, t1) \<in> set hs" for c1 t1
    proof -
      have "t1 + lease_length c1 \<le> t0"
        using run_granted.IH that snoc q by (auto simp: sorted_wrt_append)
      then show ?thesis using l0 obs_lease.len_pos [of c0] by linarith
    qed
    with l0 run_granted.IH snoc q show ?thesis by (auto simp: sorted_wrt_append)
  qed simp
qed simp_all

text \<open>
  Claim C4.  Over any run of the whole component, by whatever sessions, workers and dispatchers,
  each operation one step:
  the claims of one observation granted since its lease was last given up (by completing, failing,
  dead-lettering or releasing it) are each at least the earlier one's lease apart, whoever made
  them, and the lease the store holds is the last one's.  Every reachable state has such a
  history, so no lease is ever seen that was not taken this way.
\<close>

theorem leases_follow_each_other:
  "reach d \<Longrightarrow> (\<exists>gs. claim_run oid gs d) \<and>
     (\<forall>gs. claim_run oid gs d \<longrightarrow>
        sorted_wrt (\<lambda>(c1, t1) (c2, t2). t1 + lease_length c1 \<le> t2) gs \<and>
        (gs \<noteq> [] \<longrightarrow> lease_of oid d = (case last gs of (c, t) \<Rightarrow>
           Some (cl_token c, Some (t + lease_length c)))))"
  using every_run_has_claims claim_run_spaced claim_run_last by blast

lemma demo_claim_run:
  "\<exists>d. claim_run 10 [(demo_claimer 1, 0), (demo_claimer 3, 1000000)] d"
proof -
  have start: "claim_run 10 [] demo_db"
  proof -
    have "claim_run 10 gs d \<Longrightarrow> lease_of 10 d = None \<Longrightarrow> gs = []" for gs d
      using claim_run_last by (cases "gs = []") (auto split: prod.splits)
    moreover have "lease_of 10 demo_db = None" by code_simp
    ultimately show ?thesis using every_run_has_claims [OF demo_db_reach, of 10] by metis
  qed
  have next_claim: "\<exists>d'. claim_run 10 (gs @ [(c, t)]) d' \<and> obs_acquire 10 c t d = Some d'"
    if run: "claim_run 10 gs d" and "obs_acquire 10 c t d \<noteq> None" for gs d c t
  proof -
    from that(2) obtain d' where d': "obs_acquire 10 c t d = Some d'" by auto
    from obs_acquire_SomeD [OF this] obtain a where
      cl: "claim (cl_session c) 10 (cl_worker c) (cl_lease c) (cl_max c) (cl_token c)
         (next_attempt_id d) t d = Inr (d', Some a)" by blast
    have "op_step (cl_session c) d d'" by (rule step_claim [OF cl next_attempt_id_fresh])
    from run_granted [OF run this d' refl] d' show ?thesis by blast
  qed
  have c1: "obs_acquire 10 (demo_claimer 1) 0 demo_db \<noteq> None" by code_simp
  obtain d1 where d1: "claim_run 10 [(demo_claimer 1, 0)] d1"
    "obs_acquire 10 (demo_claimer 1) 0 demo_db = Some d1"
    using next_claim [OF start c1] by auto
  have "obs_acquire 10 (demo_claimer 3) 1000000 (the (obs_acquire 10 (demo_claimer 1) 0 demo_db)) \<noteq> None"
    by code_simp
  then have "obs_acquire 10 (demo_claimer 3) 1000000 d1 \<noteq> None" by (simp only: d1(2) option.sel not_False_eq_True)
  from next_claim [OF d1(1) this] show ?thesis by auto
qed

theorem leases_follow_each_other_witness:
  "\<exists>d. claim_run 10 [(demo_claimer 1, 0), (demo_claimer 3, 1000000)] d \<and>
     lease_of 10 d = Some (cl_token (demo_claimer 3), Some (1000000 + lease_length (demo_claimer 3)))"
proof -
  obtain d where d: "claim_run 10 [(demo_claimer 1, 0), (demo_claimer 3, 1000000)] d"
    using demo_claim_run by blast
  have "(\<exists>gs. claim_run 10 gs d) \<and> (\<forall>gs. claim_run 10 gs d \<longrightarrow>
        sorted_wrt (\<lambda>(c1, t1) (c2, t2). t1 + lease_length c1 \<le> t2) gs \<and>
        (gs \<noteq> [] \<longrightarrow> lease_of 10 d = (case last gs of (c, t) \<Rightarrow>
           Some (cl_token c, Some (t + lease_length c)))))"
    by (rule leases_follow_each_other [OF claim_run_reach [OF d]])
  note this [THEN conjunct2, THEN spec, THEN mp, OF d, THEN conjunct2, THEN mp]
  then have "lease_of 10 d = Some (cl_token (demo_claimer 3), Some (1000000 + lease_length (demo_claimer 3)))"
    by simp
  with d show ?thesis by blast
qed

end
