(* ===== verification/Ingestion_Outcomes.thy ===== *)
theory Ingestion_Outcomes
  imports Ingestion_Leases
begin

section \<open>Ingestion: how attempts end\<close>

text \<open>
  What the end of an attempt leaves in the store, from the single repository call to the whole
  run of a worker, and the two places where a late or mistaken call undoes finished work.
\<close>

subsection \<open>Failing an attempt\<close>

lemma keys_ok_finish:
  assumes "keys_ok d" and "get_attempt d aid = Some a"
  shows "keys_ok (set_attempt (finished_attempt st now e a) d)"
  using tget_SomeD [OF assms(2)]
  by (intro keys_ok_set_attempt [OF assms(1), where ?r0.0 = a]) simp_all

lemma find_dead_letter_returns:
  assumes "keys_ok d"
  shows "find_dead_letter s oid d \<noteq> Inl x"
  unfolding find_dead_letter_def
  by (rule one_or_none_unique [where f = "\<lambda>r. (dl_org r, dl_obs r)" and v = "(ss_tenant s, oid)"])
     (use assms in \<open>auto simp: keys_ok_def\<close>)

lemma find_dead_letter_SomeD:
  "find_dead_letter s oid d = Inr (Some x) \<Longrightarrow>
   x \<in> set (dead_letters d) \<and> dl_obs x = oid \<and> dl_org x = ss_tenant s"
  unfolding find_dead_letter_def by (drule one_or_none_Some) simp

lemma find_dead_letter_set [simp]:
  "find_dead_letter s oid (set_observation r d) = find_dead_letter s oid d"
  "find_dead_letter s oid (set_attempt a d) = find_dead_letter s oid d"
  by (simp_all add: find_dead_letter_def table_simps)

text \<open>The observation as a failed attempt leaves it.\<close>

definition failed_observation ::
  "error_info \<Rightarrow> instant option \<Rightarrow> int \<Rightarrow> int option \<Rightarrow> instant \<Rightarrow> observation \<Rightarrow> observation" where
  "failed_observation e retry_at delay max_attempts now r =
     (let r' = (released r)\<lparr>ob_last_error := er_message e, ob_updated_at := now\<rparr>
      in if exhausted max_attempts (ob_attempt_count r)
         then r'\<lparr>ob_status := ODeadLetter, ob_next_attempt_at := None\<rparr>
         else r'\<lparr>ob_status := ORetrying, ob_next_attempt_at := Some (case retry_at of
                   Some t \<Rightarrow> t | None \<Rightarrow> now + seconds (max 0 delay))\<rparr>)"

lemma failed_observation_id [simp]: "ob_id (failed_observation e ra dl ma now r) = ob_id r"
  by (simp add: failed_observation_def Let_def)

lemma fail_attempt_eq:
  fixes e :: error_info and now :: instant and retry_at delay max_attempts
  assumes ok: "keys_ok d"
    and att: "get_attempt d aid = Some a" "at_org a = ss_tenant s"
      "matches worker (at_worker a)" "matches tok (at_token a)" "at_status a \<noteq> OCompleted"
    and obs: "get_observation d (at_obs a) = Some r" "ob_org r = ss_tenant s"
    and free: "ss_locked s = []"
  defines "d0 \<equiv> set_observation (failed_observation e retry_at delay max_attempts now r)
                  (set_attempt (finished_attempt OFailed now e a) d)"
  shows "\<exists>d'. fail_attempt s aid worker tok e retry_at delay max_attempts now d
            = Inr (d', Some (finished_attempt OFailed now e a)) \<and>
     (d' = d0 \<or> (exhausted max_attempts (ob_attempt_count r) \<and>
        (\<exists>x. d' = add_dead_letter x d0 \<and> dl_obs x = ob_id r \<and> dl_org x = ss_tenant s))) \<and>
     (exhausted max_attempts (ob_attempt_count r) \<longrightarrow>
        (\<exists>x \<in> set (dead_letters d'). dl_obs x = ob_id r \<and> dl_org x = ss_tenant s))"
proof -
  have unlocked: "with_skip_locked s i" for i using free by (simp add: with_skip_locked_def)
  have la: "lock_attempt s aid d = Inr (Some a)"
    using att unlocked by (simp add: lock_attempt_eq [OF ok])
  have lo: "lock_observation s (at_obs a) (\<lambda>_. True) (set_attempt (finished_attempt OFailed now e a) d)
      = Inr (Some r)"
    using obs unlocked by (simp add: lock_observation_eq [OF keys_ok_finish [OF ok att(1)]] table_simps)
  show ?thesis
  proof (cases "exhausted max_attempts (ob_attempt_count r)")
    case False
    then show ?thesis
      using att by (simp add: fail_attempt_def la lo Let_def d0_def failed_observation_def)
  next
    case True
    obtain letter where l: "find_dead_letter s (ob_id r) d = Inr letter"
      using find_dead_letter_returns [OF ok] by (metis sum.exhaust)
    show ?thesis
    proof (cases letter)
      case None
      with att True l show ?thesis
        by (auto simp: fail_attempt_def la lo Let_def d0_def failed_observation_def add_dead_letter_def)
    next
      case (Some x)
      then have "x \<in> set (dead_letters d) \<and> dl_obs x = ob_id r \<and> dl_org x = ss_tenant s"
        using l by (simp add: find_dead_letter_SomeD)
      with Some att True l show ?thesis
        by (auto simp: fail_attempt_def la lo Let_def d0_def failed_observation_def table_simps)
    qed
  qed
qed

text \<open>
  Failing an attempt (its row found, its worker and token matching, not completed)
  ends the attempt as failed and releases the observation's lease; the observation goes to the
  dead letters, with a dead-letter row, exactly when its attempts are used up, and otherwise
  waits for the requested time or the delay.
\<close>

theorem failure_retries_or_buries:
  assumes "keys_ok d"
    and "get_attempt d aid = Some a" "at_org a = ss_tenant s"
    and "matches worker (at_worker a)" "matches tok (at_token a)" "at_status a \<noteq> OCompleted"
    and "get_observation d (at_obs a) = Some r" "ob_org r = ss_tenant s"
    and "ss_locked s = []"
  shows "\<exists>d' r' a'. fail_attempt s aid worker tok e retry_at delay max_attempts now d = Inr (d', Some a') \<and>
     get_attempt d' aid = Some a' \<and> at_status a' = OFailed \<and> at_finished_at a' = Some now \<and>
     get_observation d' (at_obs a) = Some r' \<and>
     ob_lease_owner r' = None \<and> ob_lease_token r' = None \<and> ob_lease_until r' = None \<and>
     (if exhausted max_attempts (ob_attempt_count r)
      then ob_status r' = ODeadLetter \<and> ob_next_attempt_at r' = None \<and>
           (\<exists>x \<in> set (dead_letters d'). dl_obs x = at_obs a \<and> dl_org x = ss_tenant s)
      else ob_status r' = ORetrying \<and> dead_letters d' = dead_letters d \<and>
           ob_next_attempt_at r' = Some (case retry_at of Some t \<Rightarrow> t | None \<Rightarrow> now + seconds (max 0 delay)))"
proof -
  have ids: "at_id a = aid" "ob_id r = at_obs a" using assms(2,7) by (auto dest: tget_key)
  let ?d0 = "set_observation (failed_observation e retry_at delay max_attempts now r)
               (set_attempt (finished_attempt OFailed now e a) d)"
  from fail_attempt_eq [OF assms, of e retry_at delay max_attempts now] obtain d' where
    run: "fail_attempt s aid worker tok e retry_at delay max_attempts now d
            = Inr (d', Some (finished_attempt OFailed now e a))"
    and d': "d' = ?d0 \<or> (exhausted max_attempts (ob_attempt_count r) \<and>
        (\<exists>x. d' = add_dead_letter x ?d0 \<and> dl_obs x = ob_id r \<and> dl_org x = ss_tenant s))"
    and letter: "exhausted max_attempts (ob_attempt_count r) \<longrightarrow>
        (\<exists>x \<in> set (dead_letters d'). dl_obs x = ob_id r \<and> dl_org x = ss_tenant s)"
    by blast
  from d' have tables: "observations d' = observations ?d0" "attempts d' = attempts ?d0"
    "\<not> exhausted max_attempts (ob_attempt_count r) \<longrightarrow> dead_letters d' = dead_letters d"
    by (auto simp: add_dead_letter_def table_simps)
  have obs: "get_observation d' (at_obs a) = Some (failed_observation e retry_at delay max_attempts now r)"
    using tables assms(7) ids by (simp add: table_simps)
  have att: "get_attempt d' aid = Some (finished_attempt OFailed now e a)"
    using tables assms(2) ids by (simp add: table_simps)
  show ?thesis
    by (rule exI [of _ d'], rule exI [of _ "failed_observation e retry_at delay max_attempts now r"],
        rule exI [of _ "finished_attempt OFailed now e a"])
       (use run obs att letter tables ids in
         \<open>simp add: failed_observation_def Let_def finished_attempt_def\<close>)
qed

definition demo_claimed :: db where
  "demo_claimed = demo_db\<lparr>observations := [claimed_observation ''w'' 7 0 1000000 1 demo_row],
     attempts := [new_attempt demo_session ''w'' 7 30 0 1000000 1 10]\<rparr>"

lemma demo_claimed_step:
  "claim demo_session 10 ''w'' 1 None 7 30 0 demo_db
   = Inr (demo_claimed, Some (new_attempt demo_session ''w'' 7 30 0 1000000 1 10))"
  by code_simp

lemma demo_claimed_reach: "reach demo_claimed"
  by (rule reach_step [OF demo_db_reach step_claim [OF demo_claimed_step]]) (simp add: demo_db_def)

lemma demo_claimed_ok: "db_ok demo_claimed" "keys_ok demo_claimed"
  using reach_db_ok [OF demo_claimed_reach] by (auto dest: db_okD)

definition demo_error :: error_info where
  "demo_error = \<lparr>er_type = Some ''E'', er_message = Some ''m'', er_details = None\<rparr>"

lemma demo_claimed_rows:
  "get_attempt demo_claimed 30 = Some (new_attempt demo_session ''w'' 7 30 0 1000000 1 10)"
  "get_observation demo_claimed 10 = Some (claimed_observation ''w'' 7 0 1000000 1 demo_row)"
  by code_simp+

theorem failure_retries_or_buries_witness:
  "\<exists>d' r' a'. fail_attempt demo_session 30 (Some ''w'') (Some 7) demo_error None 60 (Some 1) 5 demo_claimed
       = Inr (d', Some a') \<and> get_observation d' 10 = Some r' \<and> ob_status r' = ODeadLetter \<and>
     (\<exists>x \<in> set (dead_letters d'). dl_obs x = 10)"
  using failure_retries_or_buries [OF demo_claimed_ok(2) demo_claimed_rows(1), of demo_session
      "Some ''w''" "Some 7" "claimed_observation ''w'' 7 0 1000000 1 demo_row" demo_error None 60 "Some 1" 5]
  by (auto simp: demo_claimed_rows new_attempt_def claimed_observation_def demo_row_def
      new_observation_def demo_session_def)

subsection \<open>A worker's run\<close>

text \<open>
  The precondition of a run that will get its work: the observation is claimable and below the
  attempt limit, its event is not published and is either still leased (by the dispatcher
  that sent it) or has attempts left, and no other transaction holds their rows.
\<close>

definition worker_ready ::
  "session \<Rightarrow> uuid \<Rightarrow> uuid \<Rightarrow> int \<Rightarrow> instant \<Rightarrow> db \<Rightarrow> observation \<Rightarrow> event \<Rightarrow> bool" where
  "worker_ready s oid eid ma now d r e \<longleftrightarrow>
     db_ok d \<and> ss_locked s = [] \<and>
     get_observation d oid = Some r \<and> ob_org r = ss_tenant s \<and> claimable now r \<and>
     ob_attempt_count r < ma \<and>
     get_event d eid = Some e \<and> ev_org e = ss_tenant s \<and> ev_status e \<noteq> EPublished \<and>
     (ev_status e = EClaimed \<and> \<not> due (ev_lease_until e) now \<or> ev_attempt_count e < ma)"

definition worker_event :: "string \<Rightarrow> int \<Rightarrow> uuid \<Rightarrow> instant \<Rightarrow> event \<Rightarrow> event" where
  "worker_event worker ls etok now e =
     (if ev_status e = EClaimed \<and> \<not> due (ev_lease_until e) now then e
      else claimed_event worker etok now (now + seconds (normalize_lease ls)) e)"

lemma worker_event_fields [simp]:
  "ev_id (worker_event w ls tok now e) = ev_id e" "ev_org (worker_event w ls tok now e) = ev_org e"
  "ev_status (worker_event w ls tok now e) = EClaimed"
  by (simp_all add: worker_event_def claimed_event_def)

lemma set_event_noop:
  assumes "keys_ok d" and "get_event d i = Some e"
  shows "set_event e d = d"
  using tput_noop [OF keys_okD(3) [OF assms(1)]] tget_SomeD [OF assms(2)]
  by (simp add: set_event_def)

lemma claim_event_eq:
  assumes "keys_ok d" and "get_event d eid = Some e" and "ev_org e = ss_tenant s"
    and "ss_locked s = []" and "ev_status e \<noteq> EPublished"
    and "ev_status e = EClaimed \<and> \<not> due (ev_lease_until e) now \<or> ev_attempt_count e < ma"
  shows "claim_event s eid worker ls (Some ma) etok now d =
     Inr (set_event (worker_event worker ls etok now e) d, Some (worker_event worker ls etok now e))"
proof -
  have "lock_event s eid d = Inr (Some e)"
    using assms by (simp add: lock_event_eq [OF assms(1)] with_skip_locked_def)
  with assms set_event_noop [OF assms(1,2)] show ?thesis
    by (auto simp: claim_event_def worker_event_def Let_def)
qed

text \<open>The store after the claim transaction of a ready worker.\<close>

definition after_claim ::
  "session \<Rightarrow> uuid \<Rightarrow> string \<Rightarrow> int \<Rightarrow> uuid \<Rightarrow> uuid \<Rightarrow> uuid \<Rightarrow> instant \<Rightarrow> observation \<Rightarrow> event
   \<Rightarrow> db \<Rightarrow> db" where
  "after_claim s oid worker ls tok etok aid now r e d =
     (let lu = now + seconds (normalize_lease ls); n = max_attempt_number oid d + 1
      in set_event (worker_event worker ls etok now e)
           ((set_observation (claimed_observation worker tok now lu n r) d)
              \<lparr>attempts := attempts d @ [new_attempt s worker tok aid now lu n oid]\<rparr>))"

lemma claim_eq:
  fixes ls :: int
  assumes "keys_ok d" and "get_observation d oid = Some r" and "ob_org r = ss_tenant s"
    and "ss_locked s = []" and "claimable now r" and "ob_attempt_count r < ma"
  defines "lu \<equiv> now + seconds (normalize_lease ls)" and "n \<equiv> max_attempt_number oid d + 1"
  shows "claim s oid worker ls (Some ma) tok aid now d =
     Inr ((set_observation (claimed_observation worker tok now lu n r) d)
            \<lparr>attempts := attempts d @ [new_attempt s worker tok aid now lu n oid]\<rparr>,
          Some (new_attempt s worker tok aid now lu n oid))"
proof -
  have "with_skip_locked s oid" "\<not> exhausted (Some ma) (ob_attempt_count r)"
    using assms by (simp_all add: with_skip_locked_def)
  from claim_of_claimable [OF assms(1,2,3) this(1) assms(5) this(2)] obtain d' a where
    c: "claim s oid worker ls (Some ma) tok aid now d = Inr (d', Some a)" by blast
  from c show ?thesis
  proof (rule claim_SomeD)
    fix r' assume r': "r' \<in> set (observations d)" "ob_id r' = oid"
      and eqs: "a = new_attempt s worker tok aid now (now + seconds (normalize_lease ls))
           (max_attempt_number oid d + 1) oid"
        "d' = (set_observation (claimed_observation worker tok now
             (now + seconds (normalize_lease ls)) (max_attempt_number oid d + 1) r') d)
            \<lparr>attempts := attempts d @ [a]\<rparr>"
    have "r' = r" using tget_mem [OF keys_okD(1) [OF assms(1)] r'(1)] r'(2) assms(2) by simp
    with c eqs show ?thesis by (simp add: lu_def n_def)
  qed
qed

lemma claim_durable_eq:
  assumes ready: "worker_ready s oid eid ma now d r e" and fresh: "aid \<notin> at_id ` set (attempts d)"
  shows "claim_durable s show_id oid worker (Some eid) ma ls tok etok aid now d =
     Inr (after_claim s oid worker ls tok etok aid now r e d,
       \<lparr>ci_attempt = Some (new_attempt s worker tok aid now (now + seconds (normalize_lease ls))
                              (max_attempt_number oid d + 1) oid),
         ci_status = Some OProcessing, ci_payload = Some (ob_payload r), ci_event = Some eid,
         ci_token = ev_lease_token (worker_event worker ls etok now e)\<rparr>)"
proof -
  let ?lu = "now + seconds (normalize_lease ls)"
  let ?n = "max_attempt_number oid d + 1"
  let ?r = "claimed_observation worker tok now ?lu ?n r"
  let ?a = "new_attempt s worker tok aid now ?lu ?n oid"
  let ?d1 = "(set_observation ?r d)\<lparr>attempts := attempts d @ [?a]\<rparr>"
  have ok: "keys_ok d" and R: "get_observation d oid = Some r" "ob_org r = ss_tenant s"
    and E: "get_event d eid = Some e" "ev_org e = ss_tenant s" "ev_status e \<noteq> EPublished"
    "ev_status e = EClaimed \<and> \<not> due (ev_lease_until e) now \<or> ev_attempt_count e < ma"
    and free: "ss_locked s = []"
    using ready by (auto simp: worker_ready_def db_ok_def)
  have c: "claim s oid worker ls (Some ma) tok aid now d = Inr (?d1, Some ?a)"
    using ready ok by (intro claim_eq) (auto simp: worker_ready_def)
  have ok1: "keys_ok ?d1" using claim_writes [OF c fresh] ok by (rule writes_keys_ok)
  have id: "ob_id r = oid" using R by auto
  have o1: "get_observation ?d1 oid = Some ?r"
    using R id by (simp add: table_simps claimed_observation_def)
  have e1: "get_event ?d1 eid = Some e" using E by (simp add: table_simps)
  have obs: "get_observation_by_id s oid ?d1 = Inr (Some ?r)"
    using o1 R unfolding get_observation_by_id_def select_observation_def one_or_none_key [OF keys_okD(1) [OF ok1]]
    by (simp add: claimed_observation_def)
  have "get_event_by_id s eid ?d1 = Inr (Some e)"
    using e1 E unfolding get_event_by_id_def one_or_none_key [OF keys_okD(3) [OF ok1]] by simp
  then have found: "find_outbox_event s show_id oid (Some eid) ?d1 = Inr (Some e)"
    by (simp add: find_outbox_event_def)
  have ev: "claim_found_event s (Some e) worker ma ls etok now ?d1
      = Inr (set_event (worker_event worker ls etok now e) ?d1, Some (worker_event worker ls etok now e))"
    using claim_event_eq [OF ok1 e1 E(2) free E(3,4)] E(1,3) by (auto simp: claim_found_event_def)
  have ids: "ev_id e = eid" using E(1) by auto
  show ?thesis
    using ids by (simp add: claim_durable_def c obs found ev Let_def after_claim_def)
       (simp add: claimed_observation_def)
qed

lemma after_claim_rows:
  fixes worker :: string and ls :: int and tok etok :: uuid
  assumes ready: "worker_ready s oid eid ma now d r e" and fresh: "aid \<notin> at_id ` set (attempts d)"
  defines "d2 \<equiv> after_claim s oid worker ls tok etok aid now r e d"
    and "lu \<equiv> now + seconds (normalize_lease ls)" and "n \<equiv> max_attempt_number oid d + 1"
  shows "db_ok d2"
    and "get_observation d2 oid = Some (claimed_observation worker tok now lu n r)"
    and "get_attempt d2 aid = Some (new_attempt s worker tok aid now lu n oid)"
    and "get_event d2 eid = Some (worker_event worker ls etok now e)"
    and "dead_letters d2 = dead_letters d"
proof -
  show "db_ok d2"
    unfolding d2_def
    by (rule writes_db_ok [OF ensuresD [OF claim_durable_writes [OF fresh]
            claim_durable_eq [OF ready fresh]]])
       (use ready in \<open>simp add: worker_ready_def\<close>)
  have ids: "ob_id r = oid" "ev_id e = eid" using ready by (auto simp: worker_ready_def)
  show "get_observation d2 oid = Some (claimed_observation worker tok now lu n r)"
    using ready ids by (simp add: d2_def after_claim_def Let_def table_simps worker_ready_def
        claimed_observation_def lu_def n_def)
  have "get_attempt d aid = None" using fresh by (simp add: tget_None_iff)
  then show "get_attempt d2 aid = Some (new_attempt s worker tok aid now lu n oid)"
    by (simp add: d2_def after_claim_def Let_def table_simps new_attempt_def lu_def n_def)
  show "get_event d2 eid = Some (worker_event worker ls etok now e)"
    using ready ids by (simp add: d2_def after_claim_def Let_def table_simps worker_ready_def)
  show "dead_letters d2 = dead_letters d"
    by (simp add: d2_def after_claim_def Let_def table_simps)
qed

text \<open>The two calls that finish a successful run, on the rows they find.\<close>

lemma complete_attempt_eq:
  assumes ok: "keys_ok d" and free: "ss_locked s = []"
    and att: "get_attempt d aid = Some a" "at_org a = ss_tenant s"
      "matches worker (at_worker a)" "matches tok (at_token a)" "at_status a \<noteq> OCompleted"
    and obs: "get_observation d (at_obs a) = Some r" "ob_org r = ss_tenant s"
  shows "complete_attempt s aid worker tok e now d =
     Inr (set_observation ((released r)\<lparr>ob_status := OCompleted, ob_completed_at := Some now,
                             ob_last_error := None, ob_updated_at := now\<rparr>)
            (set_attempt (finished_attempt OCompleted now e a) d),
          Some (finished_attempt OCompleted now e a))"
proof -
  have unlocked: "with_skip_locked s i" for i using free by (simp add: with_skip_locked_def)
  have "lock_attempt s aid d = Inr (Some a)"
    using att unlocked by (simp add: lock_attempt_eq [OF ok])
  moreover have "lock_observation s (at_obs a) (\<lambda>_. True)
      (set_attempt (finished_attempt OCompleted now e a) d) = Inr (Some r)"
    using obs unlocked by (simp add: lock_observation_eq [OF keys_ok_finish [OF ok att(1)]] table_simps)
  ultimately show ?thesis using att by (simp add: complete_attempt_def Let_def)
qed

lemma mark_published_eq:
  assumes "keys_ok d" and "ss_locked s = []"
    and "get_event d eid = Some e" "ev_org e = ss_tenant s" "ev_status e = EClaimed"
    and "matches tok (ev_lease_token e)"
  shows "mark_published s eid None tok now d =
     Inr (set_event ((released_event e)\<lparr>ev_status := EPublished, ev_published_at := Some now,
            ev_last_error := None\<rparr>) d, True)"
  using assms by (simp add: mark_published_def lock_event_eq [OF assms(1)] with_skip_locked_def)

definition failed_event ::
  "string option \<Rightarrow> instant option \<Rightarrow> int option \<Rightarrow> instant \<Rightarrow> event \<Rightarrow> event" where
  "failed_event err at ma now e =
     (let e' = (released_event e)\<lparr>ev_last_error := err\<rparr>
      in if exhausted ma (ev_attempt_count e)
         then e'\<lparr>ev_status := EDeadLetter, ev_available_at := now\<rparr>
         else e'\<lparr>ev_status := EFailed,
                ev_available_at := (case at of Some t \<Rightarrow> t | None \<Rightarrow> now)\<rparr>)"

lemma fail_event_eq:
  assumes "keys_ok d" and "ss_locked s = []"
    and "get_event d eid = Some e" "ev_org e = ss_tenant s" and "matches tok (ev_lease_token e)"
  shows "fail_event s eid err at None tok ma now d = Inr (set_event (failed_event err at ma now e) d, True)"
proof -
  have "lock_event s eid d = Inr (Some e)"
    using assms by (simp add: lock_event_eq [OF assms(1)] with_skip_locked_def)
  then show ?thesis using assms(5) by (simp add: fail_event_def failed_event_def Let_def)
qed

text \<open>A completed observation, its attempt and its event, with nothing left on lease.\<close>

definition accepted_done :: "uuid \<Rightarrow> uuid \<Rightarrow> uuid \<Rightarrow> db \<Rightarrow> bool" where
  "accepted_done oid aid eid d \<longleftrightarrow>
     (\<exists>r. get_observation d oid = Some r \<and> ob_status r = OCompleted \<and> ob_lease_token r = None) \<and>
     (\<exists>a. get_attempt d aid = Some a \<and> at_obs a = oid \<and> at_status a = OCompleted) \<and>
     (\<exists>e. get_event d eid = Some e \<and> ev_status e = EPublished \<and> ev_lease_token e = None)"

text \<open>
  Claim C2.  A worker whose claim is open, whose extraction succeeds and whose memories reach the
  embedding queue finishes the job: it reports success, and the store holds a completed
  observation without a lease, a completed attempt and a published event.
\<close>

theorem worker_success:
  assumes ready: "worker_ready s oid eid ma t1 d r e" and fresh: "aid \<notin> at_id ` set (attempts d)"
    and "work (ob_payload r) = Inr mids" and "hand_off mids = None"
  shows "\<exists>d'. process_durable s show_id work hand_off describe oid worker (Some eid) token ma ls delay
           tok etok aid t1 t2 t3 d = (d', Done) \<and> accepted_done oid aid eid d'"
proof -
  let ?lu = "t1 + seconds (normalize_lease ls)" and ?n = "max_attempt_number oid d + 1"
  let ?d2 = "after_claim s oid worker ls tok etok aid t1 r e d"
  let ?a = "new_attempt s worker tok aid t1 ?lu ?n oid"
  let ?r = "claimed_observation worker tok t1 ?lu ?n r"
  let ?e = "worker_event worker ls etok t1 e"
  note rows = after_claim_rows [OF ready fresh, of worker ls tok etok]
  have free: "ss_locked s = []" and own: "ob_org r = ss_tenant s" "ev_org e = ss_tenant s"
    and ids: "ob_id r = oid" "ev_id e = eid"
    using ready by (auto simp: worker_ready_def)
  obtain d3 where c: "complete_attempt s aid (Some worker) (Some tok) no_error t2 ?d2
      = Inr (d3, Some (finished_attempt OCompleted t2 no_error ?a))"
    and d3: "d3 = set_observation ((released ?r)\<lparr>ob_status := OCompleted, ob_completed_at := Some t2,
                     ob_last_error := None, ob_updated_at := t2\<rparr>)
                (set_attempt (finished_attempt OCompleted t2 no_error ?a) ?d2)"
    using complete_attempt_eq [OF db_okD(1) [OF rows(1)] free rows(3), of "Some worker" "Some tok" ?r
        no_error t2] rows(2) own
    by (simp add: new_attempt_def claimed_observation_def)
  have ok3: "keys_ok d3"
    using ensuresD [OF complete_attempt_writes c] db_okD(1) [OF rows(1)] by (rule writes_keys_ok)
  have e3: "get_event d3 eid = Some ?e" using rows(4) by (simp add: d3 table_simps)
  obtain T where T: "ev_lease_token ?e = Some T"
  proof -
    have "evt_lease_ok ?e"
      using rows(1) tget_SomeD [OF rows(4)] by (auto simp: db_ok_def leases_ok_def)
    with that show thesis by (cases "ev_lease_token ?e") (auto simp: evt_lease_ok_def)
  qed
  have p: "mark_published s eid None (Some T) t3 d3 = Inr (set_event ((released_event ?e)
      \<lparr>ev_status := EPublished, ev_published_at := Some t3, ev_last_error := None\<rparr>) d3, True)"
    using T own by (intro mark_published_eq [OF ok3 free e3]) simp_all
  let ?d4 = "set_event ((released_event ?e)
      \<lparr>ev_status := EPublished, ev_published_at := Some t3, ev_last_error := None\<rparr>) d3"
  have a: "at_id ?a = aid" "at_token ?a = Some tok" "at_obs ?a = oid" by (simp_all add: new_attempt_def)
  have "process_durable s show_id work hand_off describe oid worker (Some eid) token ma ls delay
           tok etok aid t1 t2 t3 d = (?d4, Done)"
    using assms(3,4) c p T a
    by (simp add: process_durable_def claim_durable_eq [OF ready fresh] Let_def settle_def
        mark_outbox_published_def)
  moreover have "get_observation ?d4 oid = Some ((released ?r)\<lparr>ob_status := OCompleted,
      ob_completed_at := Some t2, ob_last_error := None, ob_updated_at := t2\<rparr>)"
    using rows(2) ids by (simp add: d3 table_simps claimed_observation_def)
  moreover have "get_attempt ?d4 aid = Some (finished_attempt OCompleted t2 no_error ?a)"
    using rows(3) a by (simp add: d3 table_simps)
  moreover have "get_event ?d4 eid = Some ((released_event ?e)
      \<lparr>ev_status := EPublished, ev_published_at := Some t3, ev_last_error := None\<rparr>)"
    using e3 ids by (simp add: table_simps)
  ultimately show ?thesis using a by (simp add: accepted_done_def finished_attempt_def)
qed

lemma demo_ready: "worker_ready demo_session 10 20 3 0 demo_db demo_row
    (new_event demo_session 10 ''observation.accepted'' ''e'' None None 20 0)"
proof -
  have "get_observation demo_db 10 = Some demo_row"
    "get_event demo_db 20 = Some (new_event demo_session 10 ''observation.accepted'' ''e'' None None 20 0)"
    by code_simp+
  then show ?thesis
    using demo_db_ok by (simp add: worker_ready_def)
       (simp add: demo_defs new_observation_def new_event_def claimable_def)
qed

theorem worker_success_witness:
  "\<exists>d'. process_durable demo_session (\<lambda>_. []) (\<lambda>_. Inr [5]) (\<lambda>_. None) (\<lambda>_. demo_error) 10 ''w'' (Some 20) None 3 60 60
     7 8 30 0 1 2 demo_db = (d', Done) \<and> accepted_done 10 30 20 d'"
  by (rule worker_success [OF demo_ready]) (simp_all add: demo_db_def)

text \<open>
  When the embedding queue is unreachable after the commit, the worker reports a retry, yet the
  observation stays completed and is not claimable again: the redelivered event is answered
  \<open>skipped\<close> and published, so the embeddings are never asked for.
\<close>

definition unsent :: "db \<times> worker_result" where
  "unsent = process_durable demo_session (\<lambda>_. []) (\<lambda>_. Inr [5]) (\<lambda>_. Some demo_error) (\<lambda>_. demo_error)
     10 ''w'' (Some 20) None 3 60 60 7 8 30 0 1 2 demo_db"

definition redelivered :: "db \<times> worker_result" where
  "redelivered = process_durable demo_session (\<lambda>_. []) (\<lambda>_. Inr [5]) (\<lambda>_. None) (\<lambda>_. demo_error)
     10 ''w'' (Some 20) None 3 60 60 17 18 31 70000000 70000001 70000002 (fst unsent)"

theorem lost_embeddings:
  "snd unsent = Retrying 1 \<and>
   map_option ob_status (get_observation (fst unsent) 10) = Some OCompleted \<and>
   map_option ev_status (get_event (fst unsent) 20) = Some EFailed \<and>
   snd redelivered = Skipped (Some OCompleted) \<and>
   map_option ev_status (get_event (fst redelivered) 20) = Some EPublished"
  by code_simp

text \<open>
  Claim C11.  A worker whose extraction fails never loses the job: the observation is released
  to wait for the retry delay, or, on its last attempt, is dead-lettered with a dead-letter
  row, and the report says which; the event is failed (or dead-lettered) and released with it.
\<close>

theorem worker_failure:
  assumes ready: "worker_ready s oid eid ma t1 d r e" and fresh: "aid \<notin> at_id ` set (attempts d)"
    and "work (ob_payload r) = Inl err"
  defines "n \<equiv> max_attempt_number oid d + 1"
  defines "final \<equiv> ma \<le> max (ob_attempt_count r) n"
  shows "\<exists>d' r' e'. process_durable s show_id work hand_off describe oid worker (Some eid) token ma ls delay
           tok etok aid t1 t2 t3 d = (d', if final then DeadLettered n else Retrying n) \<and>
     get_observation d' oid = Some r' \<and> ob_lease_token r' = None \<and>
     ob_status r' = (if final then ODeadLetter else ORetrying) \<and>
     (final \<longrightarrow> (\<exists>x \<in> set (dead_letters d'). dl_obs x = oid \<and> dl_org x = ss_tenant s)) \<and>
     (\<not> final \<longrightarrow> ob_next_attempt_at r' = Some (t2 + seconds (max 0 delay))) \<and>
     get_event d' eid = Some e' \<and> ev_status e' \<in> {EFailed, EDeadLetter} \<and> ev_lease_token e' = None"
proof -
  let ?lu = "t1 + seconds (normalize_lease ls)"
  let ?d2 = "after_claim s oid worker ls tok etok aid t1 r e d"
  let ?a = "new_attempt s worker tok aid t1 ?lu n oid"
  let ?r = "claimed_observation worker tok t1 ?lu n r"
  let ?e = "worker_event worker ls etok t1 e"
  let ?r' = "failed_observation err None delay (Some ma) t2 ?r"
  let ?a' = "finished_attempt OFailed t2 err ?a"
  note rows = after_claim_rows [OF ready fresh, of worker ls tok etok, folded n_def]
  have free: "ss_locked s = []" and own: "ob_org r = ss_tenant s" "ev_org e = ss_tenant s"
    and ids: "ob_id r = oid" "ev_id e = eid"
    using ready by (auto simp: worker_ready_def)
  have a: "at_id ?a = aid" "at_token ?a = Some tok" "at_obs ?a = oid" "at_number ?a = n"
    by (simp_all add: new_attempt_def)
  have cnt: "ob_attempt_count ?r = max (ob_attempt_count r) n" "ob_id ?r = oid"
    using ids by (simp_all add: claimed_observation_def)
  have final: "exhausted (Some ma) (ob_attempt_count ?r) = final" by (simp add: cnt final_def)
  let ?d0 = "set_observation ?r' (set_attempt ?a' ?d2)"
  obtain d3 where f: "fail_attempt s aid (Some worker) (Some tok) err None delay (Some ma) t2 ?d2
      = Inr (d3, Some ?a')"
    and d3: "d3 = ?d0 \<or> (final \<and> (\<exists>x. d3 = add_dead_letter x ?d0 \<and> dl_obs x = ob_id ?r \<and> dl_org x = ss_tenant s))"
    and letter: "final \<longrightarrow> (\<exists>x \<in> set (dead_letters d3). dl_obs x = ob_id ?r \<and> dl_org x = ss_tenant s)"
    using fail_attempt_eq [OF db_okD(1) [OF rows(1)] rows(3), of s "Some worker" "Some tok" ?r
        err None delay "Some ma" t2] rows(2) own free
    unfolding final by (auto simp: new_attempt_def claimed_observation_def)
  have tables: "observations d3 = observations ?d0" "events d3 = events ?d2"
    using d3 by (auto simp: add_dead_letter_def table_simps)
  have ok3: "keys_ok d3"
    using ensuresD [OF fail_attempt_writes f] db_okD(1) [OF rows(1)] by (rule writes_keys_ok)
  have o3: "get_observation d3 oid = Some ?r'"
    using rows(2) cnt tables by (simp add: table_simps)
  have org: "ob_org ?r' = ss_tenant s"
    using own by (simp add: failed_observation_def Let_def claimed_observation_def)
  have got: "get_observation_by_id s oid d3 = Inr (Some ?r')"
    unfolding get_observation_by_id_def select_observation_def one_or_none_key [OF keys_okD(1) [OF ok3]]
    using o3 org by simp
  have e3: "get_event d3 eid = Some ?e" using rows(4) tables by simp
  obtain T where T: "ev_lease_token ?e = Some T"
  proof -
    have "evt_lease_ok ?e"
      using rows(1) tget_SomeD [OF rows(4)] by (auto simp: db_ok_def leases_ok_def)
    with that show thesis by (cases "ev_lease_token ?e") (auto simp: evt_lease_ok_def)
  qed
  let ?e' = "failed_event (er_message err) (Some (t3 + seconds (max 0 delay))) (Some ma) t3 ?e"
  have g: "fail_event s eid (er_message err) (Some (t3 + seconds (max 0 delay))) None (Some T) (Some ma) t3 d3
      = Inr (set_event ?e' d3, True)"
    using T own by (intro fail_event_eq [OF ok3 free e3]) simp_all
  have st: "ob_status ?r' = (if final then ODeadLetter else ORetrying)"
    using final by (simp add: failed_observation_def Let_def)
  have e': "ev_id ?e' = eid" "ev_status ?e' \<in> {EFailed, EDeadLetter}" "ev_lease_token ?e' = None"
    using ids by (simp_all add: failed_event_def Let_def)
  show ?thesis
  proof (rule exI [of _ "set_event ?e' d3"], rule exI [of _ ?r'], rule exI [of _ ?e'], intro conjI impI)
    show "process_durable s show_id work hand_off describe oid worker (Some eid) token ma ls delay
           tok etok aid t1 t2 t3 d
         = (set_event ?e' d3, if final then DeadLettered n else Retrying n)"
      using assms(3) f got g T a st
      by (simp add: process_durable_def claim_durable_eq [OF ready fresh, folded n_def] Let_def
          record_attempt_failure_def settle_def mark_outbox_failed_def)
    show "get_event (set_event ?e' d3) eid = Some ?e'" using e3 e' by (simp add: table_simps)
    show "get_observation (set_event ?e' d3) oid = Some ?r'" using o3 by (simp add: table_simps)
    show "ob_lease_token ?r' = None" by (simp add: failed_observation_def Let_def)
    show "final \<Longrightarrow> \<exists>x \<in> set (dead_letters (set_event ?e' d3)). dl_obs x = oid \<and> dl_org x = ss_tenant s"
      using letter cnt by (simp add: table_simps)
    show "\<not> final \<Longrightarrow> ob_next_attempt_at ?r' = Some (t2 + seconds (max 0 delay))"
      using final by (simp add: failed_observation_def Let_def)
  qed (use st e' in simp_all)
qed

theorem worker_failure_witness:
  "\<exists>d' r'. process_durable demo_session (\<lambda>_. []) (\<lambda>_. Inl demo_error) (\<lambda>_. None) (\<lambda>_. demo_error) 10 ''w'' (Some 20)
     None 3 60 60 7 8 30 0 1 2 demo_db = (d', Retrying 1) \<and>
     get_observation d' 10 = Some r' \<and> ob_next_attempt_at r' = Some 60000001"
proof -
  have n: "max_attempt_number 10 demo_db = 0" "ob_attempt_count demo_row = 0"
    "(1::int) + seconds (max 0 60) = 60000001" by code_simp+
  show ?thesis
    using worker_failure [OF demo_ready, of 30 "\<lambda>_. Inl demo_error" demo_error "\<lambda>_. []"
        "\<lambda>_. None" "\<lambda>_. demo_error" "''w''" None 60 60 7 8 1 2] n
    by (auto simp: demo_db_def)
qed

subsection \<open>Fencing, and where it is missing\<close>

text \<open>
  An event's lease token fences its holder: a call that presents any other token
  than the one the row carries now (a worker whose lease ran out and was taken over, or whose
  event has been published since) changes nothing and is told so.
\<close>

theorem stale_token_is_fenced:
  assumes "keys_ok d" and "get_event d eid = Some e" and "ev_lease_token e \<noteq> Some tok"
  shows "mark_published s eid worker (Some tok) now d = Inr (d, False) \<and>
     retry_event s eid err at worker (Some tok) now d = Inr (d, False) \<and>
     fail_event s eid err at worker (Some tok) ma now d = Inr (d, False)"
  using assms by (simp add: mark_published_def retry_event_def fail_event_def lock_event_eq)

theorem stale_token_is_fenced_witness:
  "mark_published demo_session 20 None (Some 9) 0 demo_db = Inr (demo_db, False)"
proof -
  have "get_event demo_db 20 = Some (new_event demo_session 10 ''observation.accepted'' ''e'' None None 20 0)"
    by code_simp
  from stale_token_is_fenced [OF demo_db_ok(2) this] show ?thesis by (simp add: new_event_def)
qed

text \<open>
  The observation side has no such fence.  The run below is reachable: worker \<open>w\<close> claims for
  a second; after that second worker \<open>v\<close> claims and completes; then \<open>w\<close> reports its failure.
\<close>

definition late_claimed :: db where
  "late_claimed = (case claim demo_session 10 ''v'' 60 None 8 31 2000000 demo_claimed of
     Inr (d, _) \<Rightarrow> d | Inl _ \<Rightarrow> empty_db)"

definition late_completed :: db where
  "late_completed = (case complete_attempt demo_session 31 (Some ''v'') (Some 8) no_error 3000000 late_claimed of
     Inr (d, _) \<Rightarrow> d | Inl _ \<Rightarrow> empty_db)"

definition late_failed :: db where
  "late_failed = (case fail_attempt demo_session 30 (Some ''w'') (Some 7) demo_error None 60 (Some 5)
       4000000 late_completed of Inr (d, _) \<Rightarrow> d | Inl _ \<Rightarrow> empty_db)"

lemma claim_step:
  assumes "reach d" and "aid \<notin> at_id ` set (attempts d)"
    and "\<exists>x. claim s oid w ls ma tok aid now d = Inr (d', x)"
  shows "reach d'"
  using assms by (blast intro: reach_step step_claim)

lemma late_claimed_reach: "reach late_claimed"
proof (rule claim_step [OF demo_claimed_reach])
  show "31 \<notin> at_id ` set (attempts demo_claimed)" by (simp add: demo_claimed_def new_attempt_def)
  show "\<exists>x. claim demo_session 10 ''v'' 60 None 8 31 2000000 demo_claimed = Inr (late_claimed, x)"
    by (rule exI [of _ "Some (new_attempt demo_session ''v'' 8 31 2000000 62000000 2 10)"]) code_simp
qed

lemma late_completed_reach: "reach late_completed"
proof -
  have "case complete_attempt demo_session 31 (Some ''v'') (Some 8) no_error 3000000 late_claimed of
     Inl _ \<Rightarrow> False | Inr _ \<Rightarrow> True" by code_simp
  then obtain x where "complete_attempt demo_session 31 (Some ''v'') (Some 8) no_error 3000000 late_claimed
      = Inr (late_completed, x)"
    by (auto simp: late_completed_def split: sum.splits)
  then show ?thesis by (rule reach_step [OF late_claimed_reach step_complete])
qed

lemma late_failed_step: "op_step demo_session late_completed late_failed"
proof -
  have "case fail_attempt demo_session 30 (Some ''w'') (Some 7) demo_error None 60 (Some 5)
       4000000 late_completed of Inl _ \<Rightarrow> False | Inr _ \<Rightarrow> True" by code_simp
  then obtain x where "fail_attempt demo_session 30 (Some ''w'') (Some 7) demo_error None 60 (Some 5)
       4000000 late_completed = Inr (late_failed, x)"
    by (auto simp: late_failed_def split: sum.splits)
  then show ?thesis by (rule step_fail)
qed

text \<open>
  A reachable run in which finished work is undone: a completed observation is put
  back to retrying, and so may be claimed and extracted again, by the failure report of a
  worker whose own lease had run out before the work was completed by another.
\<close>

theorem late_failure_reopens_completed:
  "\<exists>d d' r r'. reach d \<and> get_observation d 10 = Some r \<and> ob_status r = OCompleted \<and>
     (\<exists>x. fail_attempt demo_session 30 (Some ''w'') (Some 7) demo_error None 60 (Some 5) 4000000 d
            = Inr (d', Some x)) \<and>
     get_observation d' 10 = Some r' \<and> ob_status r' = ORetrying \<and> claimable (ob_updated_at r' + days 1) r'"
proof -
  let ?m = "fail_attempt demo_session 30 (Some ''w'') (Some 7) demo_error None 60 (Some 5) 4000000 late_completed"
  have "map_option ob_status (get_observation late_completed 10) = Some OCompleted"
    by code_simp
  then obtain r where r: "get_observation late_completed 10 = Some r" "ob_status r = OCompleted" by auto
  have "case ?m of Inr (d', Some x) \<Rightarrow> (case get_observation d' 10 of
         Some r' \<Rightarrow> ob_status r' = ORetrying \<and> claimable (ob_updated_at r' + days 1) r' | None \<Rightarrow> False)
      | _ \<Rightarrow> False" by code_simp
  then obtain d' x r' where "?m = Inr (d', Some x)" "get_observation d' 10 = Some r'"
    "ob_status r' = ORetrying" "claimable (ob_updated_at r' + days 1) r'"
    by (auto split: sum.splits prod.splits option.splits)
  with late_completed_reach r show ?thesis by blast
qed

text \<open>
  The cleanup after an unexpected failure dead-letters a completed observation
  (any status other than processing or retrying counts as spent), and it does so without the
  dead-letter row that every other path to that status writes.
\<close>

theorem cleanup_buries_completed:
  "\<exists>d d' r. reach d \<and> get_observation d 10 = Some r \<and> ob_status r = OCompleted \<and>
     release_claim_after_failure demo_session 10 ''boom'' (Some 5) 5000000 d = (d', ReleasedDead) \<and>
     map_option ob_status (get_observation d' 10) = Some ODeadLetter \<and> dead_letters d' = []"
proof -
  let ?p = "release_claim_after_failure demo_session 10 ''boom'' (Some 5) 5000000 late_completed"
  have "map_option ob_status (get_observation late_completed 10) = Some OCompleted"
    "snd ?p = ReleasedDead" "map_option ob_status (get_observation (fst ?p) 10) = Some ODeadLetter"
    "dead_letters (fst ?p) = []"
    by code_simp+
  with late_completed_reach show ?thesis
    by (cases ?p) (fastforce simp: map_option_eq_Some)
qed

end
