(* ===== verification/Py_Regex.thy ===== *)
theory Py_Regex
  imports Py_Text
begin

section \<open>Regular expressions as \<open>re\<close> matches them\<close>

text \<open>
  A backtracking matcher for the constructs the code's patterns use: character classes,
  sequence, ordered alternation, greedy counted repetition, capturing groups, word boundaries,
  negative look-ahead, conditions on what lies before (look-behind, \<open>^\<close>) and \<open>$\<close>.  \<open>runs r\<close> lists the ways \<open>r\<close> matches at a
  position in the order \<open>re\<close> tries them, so its head is the match \<open>re\<close> reports; a
  position is what lies before it (reversed), what lies after it, and the groups captured so
  far.  A repeated body must consume something on every round beyond the required ones; the
  bodies the code repeats always do.
\<close>

datatype regex =
  Eps
| Cls "char \<Rightarrow> bool"
| Seq regex regex
| Alt regex regex
| Rep nat "nat option" regex
| Grp nat regex
| WordB
| NotAhead regex
| EndS
| Behind "string \<Rightarrow> bool"

record capture =
  cp_group :: nat
  cp_start :: nat
  cp_text :: string

record position =
  ps_before :: string
  ps_after :: string
  ps_caps :: "capture list"

primrec rounds :: "(position \<Rightarrow> position list) \<Rightarrow> nat \<Rightarrow> position \<Rightarrow> position list" where
  "rounds step 0 p = [p]"
| "rounds step (Suc n) p = concat (map (rounds step n) (step p))"

text \<open>Up to \<open>n\<close> further rounds, the longest first.\<close>

primrec more_rounds :: "(position \<Rightarrow> position list) \<Rightarrow> nat \<Rightarrow> position \<Rightarrow> position list" where
  "more_rounds step 0 p = [p]"
| "more_rounds step (Suc n) p =
     concat (map (more_rounds step n)
       (filter (\<lambda>q. length (ps_after q) < length (ps_after p)) (step p))) @ [p]"

definition at_boundary :: "string \<Rightarrow> string \<Rightarrow> bool" where
  "at_boundary bef aft \<longleftrightarrow>
     (bef \<noteq> [] \<and> is_word (hd bef)) \<noteq> (aft \<noteq> [] \<and> is_word (hd aft))"

definition close_group :: "nat \<Rightarrow> position \<Rightarrow> position \<Rightarrow> position" where
  "close_group n p q =
     q\<lparr>ps_caps := \<lparr>cp_group = n, cp_start = length (ps_before p),
        cp_text = take (length (ps_after p) - length (ps_after q)) (ps_after p)\<rparr> # ps_caps q\<rparr>"

primrec runs :: "regex \<Rightarrow> position \<Rightarrow> position list" where
  "runs Eps p = [p]"
| "runs (Cls P) p =
     (case ps_after p of [] \<Rightarrow> []
      | c # cs \<Rightarrow> if P c then [p\<lparr>ps_before := c # ps_before p, ps_after := cs\<rparr>] else [])"
| "runs (Seq r t) p = concat (map (runs t) (runs r p))"
| "runs (Alt r t) p = runs r p @ runs t p"
| "runs (Rep lo hi r) p =
     concat (map (\<lambda>q. more_rounds (runs r)
         (case hi of Some h \<Rightarrow> h - lo | None \<Rightarrow> length (ps_after q)) q)
       (rounds (runs r) lo p))"
| "runs (Grp n r) p = map (close_group n p) (runs r p)"
| "runs WordB p = (if at_boundary (ps_before p) (ps_after p) then [p] else [])"
| "runs (NotAhead r) p = (if runs r p = [] then [p] else [])"
| "runs EndS p = (if ps_after p = [] \<or> ps_after p = [char_of (10::nat)] then [p] else [])"
| "runs (Behind P) p = (if P (ps_before p) then [p] else [])"

definition start_at :: "string \<Rightarrow> string \<Rightarrow> position" where
  "start_at bef aft = \<lparr>ps_before = bef, ps_after = aft, ps_caps = []\<rparr>"

subsection \<open>Whole-string, prefix and repeated search\<close>

definition fullmatch :: "regex \<Rightarrow> string \<Rightarrow> bool" where
  "fullmatch r s \<longleftrightarrow> (\<exists>q \<in> set (runs r (start_at [] s)). ps_after q = [])"

definition match_prefix :: "regex \<Rightarrow> string \<Rightarrow> bool" where
  "match_prefix r s \<longleftrightarrow> runs r (start_at [] s) \<noteq> []"

record hit =
  ht_start :: nat
  ht_text :: string
  ht_caps :: "capture list"

datatype segment = Plain char | Hit hit

text \<open>
  The string as \<open>finditer\<close> and \<open>sub\<close> walk it: non-overlapping matches from the left,
  characters in between.  (The patterns searched for never match the empty string.)
\<close>

function segments :: "regex \<Rightarrow> string \<Rightarrow> string \<Rightarrow> segment list" where
  "segments r bef [] = []"
| "segments r bef (c # cs) =
     (case runs r (start_at bef (c # cs)) of
        [] \<Rightarrow> Plain c # segments r (c # bef) cs
      | q # _ \<Rightarrow>
          if length (ps_after q) \<le> length cs
          then Hit \<lparr>ht_start = length bef,
                    ht_text = take (length (c # cs) - length (ps_after q)) (c # cs),
                    ht_caps = ps_caps q\<rparr> # segments r (ps_before q) (ps_after q)
          else Plain c # segments r (c # bef) cs)"
  by pat_completeness auto
termination by (relation "measure (\<lambda>(r, bef, aft). length aft)") auto

fun hits_of :: "segment list \<Rightarrow> hit list" where
  "hits_of [] = []"
| "hits_of (Plain c # xs) = hits_of xs"
| "hits_of (Hit h # xs) = h # hits_of xs"

definition finditer :: "regex \<Rightarrow> string \<Rightarrow> hit list" where
  "finditer r s = hits_of (segments r [] s)"

fun rebuild :: "(hit \<Rightarrow> string) \<Rightarrow> segment list \<Rightarrow> string" where
  "rebuild f [] = []"
| "rebuild f (Plain c # xs) = c # rebuild f xs"
| "rebuild f (Hit h # xs) = f h @ rebuild f xs"

definition re_sub :: "regex \<Rightarrow> (hit \<Rightarrow> string) \<Rightarrow> string \<Rightarrow> string" where
  "re_sub r f s = rebuild f (segments r [] s)"

definition re_search :: "regex \<Rightarrow> string \<Rightarrow> hit option" where
  "re_search r s = (case finditer r s of [] \<Rightarrow> None | h # _ \<Rightarrow> Some h)"

text \<open>\<open>re.split\<close>: what lies between the matches.\<close>

fun pieces :: "string \<Rightarrow> segment list \<Rightarrow> string list" where
  "pieces acc [] = [rev acc]"
| "pieces acc (Plain c # xs) = pieces (c # acc) xs"
| "pieces acc (Hit h # xs) = rev acc # pieces [] xs"

definition re_split :: "regex \<Rightarrow> string \<Rightarrow> string list" where
  "re_split r s = pieces [] (segments r [] s)"

text \<open>\<open>m.group(n)\<close> and \<open>m.start(n)\<close>: the latest capture of the group.\<close>

definition capture_of :: "nat \<Rightarrow> hit \<Rightarrow> capture option" where
  "capture_of n h = find (\<lambda>c. cp_group c = n) (ht_caps h)"

definition group :: "nat \<Rightarrow> hit \<Rightarrow> string" where
  "group n h = (case capture_of n h of Some c \<Rightarrow> cp_text c | None \<Rightarrow> [])"

definition group_start :: "nat \<Rightarrow> hit \<Rightarrow> nat" where
  "group_start n h = (case capture_of n h of Some c \<Rightarrow> cp_start c | None \<Rightarrow> 0)"

subsection \<open>Writing patterns\<close>

definition chr :: "char \<Rightarrow> regex" where
  "chr c = Cls (\<lambda>x. x = c)"

text \<open>A literal, and a literal under \<open>(?i)\<close>.\<close>

fun lit :: "string \<Rightarrow> regex" where
  "lit [] = Eps"
| "lit (c # cs) = Seq (chr c) (lit cs)"

fun ilit :: "string \<Rightarrow> regex" where
  "ilit [] = Eps"
| "ilit (c # cs) = Seq (Cls (\<lambda>x. lower_char x = lower_char c)) (ilit cs)"

fun seqs :: "regex list \<Rightarrow> regex" where
  "seqs [] = Eps"
| "seqs [r] = r"
| "seqs (r # rs) = Seq r (seqs rs)"

fun alts :: "regex list \<Rightarrow> regex" where
  "alts [] = Cls (\<lambda>_. False)"
| "alts [r] = r"
| "alts (r # rs) = Alt r (alts rs)"

abbreviation opt :: "regex \<Rightarrow> regex" where
  "opt r \<equiv> Rep 0 (Some 1) r"

abbreviation star :: "regex \<Rightarrow> regex" where
  "star r \<equiv> Rep 0 None r"

abbreviation plus :: "regex \<Rightarrow> regex" where
  "plus r \<equiv> Rep 1 None r"

abbreviation times :: "nat \<Rightarrow> regex \<Rightarrow> regex" where
  "times n r \<equiv> Rep n (Some n) r"

definition one_of :: "string \<Rightarrow> regex" where
  "one_of s = Cls (\<lambda>c. c \<in> set s)"

definition none_of :: "string \<Rightarrow> regex" where
  "none_of s = Cls (\<lambda>c. c \<notin> set s)"

subsection \<open>What a match consumes\<close>

text \<open>\<open>consumes p u q\<close>: the matcher went from \<open>p\<close> to \<open>q\<close> by reading \<open>u\<close>.\<close>

definition consumes :: "position \<Rightarrow> string \<Rightarrow> position \<Rightarrow> bool" where
  "consumes p u q \<longleftrightarrow> ps_after p = u @ ps_after q \<and> ps_before q = rev u @ ps_before p"

lemma consumes_refl: "consumes p [] p"
  by (simp add: consumes_def)

lemma consumes_trans: "consumes p u q \<Longrightarrow> consumes q v x \<Longrightarrow> consumes p (u @ v) x"
  by (simp add: consumes_def)

lemma consumes_close [simp]: "consumes p u (close_group n p0 q) = consumes p u q"
  by (simp add: consumes_def close_group_def)

text \<open>
  \<open>reads Q r\<close>: whatever \<open>r\<close> matches, it matches by reading a string in \<open>Q\<close>.  The rules
  follow the shape of the pattern, so a fact about all matches of a concrete pattern is
  proved by walking it.
\<close>

definition reads_step :: "(string \<Rightarrow> bool) \<Rightarrow> (position \<Rightarrow> position list) \<Rightarrow> bool" where
  "reads_step Q step \<longleftrightarrow> (\<forall>p. \<forall>q \<in> set (step p). \<exists>u. consumes p u q \<and> Q u)"

definition reads :: "(string \<Rightarrow> bool) \<Rightarrow> regex \<Rightarrow> bool" where
  "reads Q r = reads_step Q (runs r)"

lemma readsD: "reads Q r \<Longrightarrow> q \<in> set (runs r p) \<Longrightarrow> \<exists>u. consumes p u q \<and> Q u"
  by (simp add: reads_def reads_step_def)

lemma readsI: "(\<And>p q. q \<in> set (runs r p) \<Longrightarrow> \<exists>u. consumes p u q \<and> Q u) \<Longrightarrow> reads Q r"
  by (simp add: reads_def reads_step_def)

lemma reads_rounds:
  assumes "reads_step (\<lambda>_. True) step"
  shows "reads_step (\<lambda>_. True) (rounds step n)" and "reads_step (\<lambda>_. True) (more_rounds step n)"
proof -
  show "reads_step (\<lambda>_. True) (rounds step n)"
    using assms
    by (induction n) (auto simp: reads_step_def intro: consumes_refl, meson consumes_trans)
  show "reads_step (\<lambda>_. True) (more_rounds step n)"
    using assms
    by (induction n) (auto simp: reads_step_def intro: consumes_refl, meson consumes_trans)
qed

text \<open>Every match reads something: the matcher only moves forward over its input.\<close>

lemma reads_any: "reads (\<lambda>_. True) r"
proof (induction r)
  case (Cls P)
  show ?case
    by (rule readsI) (auto simp: consumes_def split: list.splits if_splits)
next
  case (Seq r t)
  then show ?case
    by (auto simp: reads_def reads_step_def, meson consumes_trans)
next
  case (Rep lo hi r)
  show ?case
  proof (rule readsI)
    fix p q assume "q \<in> set (runs (Rep lo hi r) p)"
    then obtain x n where x: "x \<in> set (rounds (runs r) lo p)" "q \<in> set (more_rounds (runs r) n x)"
      by auto
    with reads_rounds [OF Rep [unfolded reads_def]] show "\<exists>u. consumes p u q \<and> True"
      by (auto simp: reads_step_def, meson consumes_trans)
  qed
qed (auto simp: reads_def reads_step_def intro: consumes_refl)

lemma runs_consumes: "q \<in> set (runs r p) \<Longrightarrow> \<exists>u. consumes p u q"
  using readsD [OF reads_any] by blast

lemma reads_Cls: "(\<And>c. P c \<Longrightarrow> Q [c]) \<Longrightarrow> reads Q (Cls P)"
  by (rule readsI) (auto simp: consumes_def split: list.splits if_splits)

lemma reads_Alt: "reads Q r \<Longrightarrow> reads Q t \<Longrightarrow> reads Q (Alt r t)"
  by (auto simp: reads_def reads_step_def)

lemma reads_Grp: "reads Q r \<Longrightarrow> reads Q (Grp n r)"
  by (auto simp: reads_def reads_step_def)

lemma reads_Seq:
  assumes "reads Q1 r" and "reads Q2 t" and "\<And>u v. Q1 u \<Longrightarrow> Q2 v \<Longrightarrow> Q (u @ v)"
  shows "reads Q (Seq r t)"
proof (rule readsI)
  fix p q assume "q \<in> set (runs (Seq r t) p)"
  then obtain x where "x \<in> set (runs r p)" "q \<in> set (runs t x)" by auto
  with readsD [OF assms(1)] readsD [OF assms(2)] assms(3)
  show "\<exists>u. consumes p u q \<and> Q u" by (meson consumes_trans)
qed

lemma reads_mono: "reads Q r \<Longrightarrow> (\<And>u. Q u \<Longrightarrow> Q' u) \<Longrightarrow> reads Q' r"
  by (auto simp: reads_def reads_step_def) blast

lemma reads_Eps: "Q [] \<Longrightarrow> reads Q Eps"
  by (rule readsI) (auto intro: consumes_refl)

lemma reads_lit: "reads (\<lambda>u. u = w) (lit w)"
proof (induction w)
  case (Cons c cs)
  show ?case unfolding lit.simps chr_def
    by (rule reads_Seq [OF reads_Cls Cons, of _ "\<lambda>u. u = [c]"]) auto
qed (simp add: reads_Eps)

lemma reads_ilit: "reads (\<lambda>u. lower u = lower w) (ilit w)"
proof (induction w)
  case (Cons c cs)
  show ?case unfolding ilit.simps
    by (rule reads_Seq [OF reads_Cls Cons, of _ "\<lambda>u. lower u = [lower_char c]"])
       (auto simp: lower_def)
qed (simp add: reads_Eps lower_def)

text \<open>Repetition multiplies a count that adds up over what is read.\<close>

definition count_in :: "(char \<Rightarrow> bool) \<Rightarrow> string \<Rightarrow> nat" where
  "count_in P s = length (filter P s)"

lemma count_in_append [simp]: "count_in P (u @ v) = count_in P u + count_in P v"
  by (simp add: count_in_def)

lemma reads_count_rounds:
  assumes "reads_step (\<lambda>u. k \<le> count_in P u) step"
  shows "reads_step (\<lambda>u. n * k \<le> count_in P u) (rounds step n)"
proof (induction n)
  case (Suc n)
  show ?case unfolding reads_step_def
  proof (intro allI ballI)
    fix p q assume "q \<in> set (rounds step (Suc n) p)"
    then obtain x where "x \<in> set (step p)" "q \<in> set (rounds step n x)" by auto
    then obtain u v where "consumes p u x" "k \<le> count_in P u" "consumes x v q" "n * k \<le> count_in P v"
      using assms Suc by (meson reads_step_def)
    then show "\<exists>u. consumes p u q \<and> Suc n * k \<le> count_in P u"
      by (intro exI [of _ "u @ v"]) (simp add: consumes_trans)
  qed
qed (auto simp: reads_step_def intro: consumes_refl)

lemma reads_Rep_count:
  assumes "reads (\<lambda>u. k \<le> count_in P u) r"
  shows "reads (\<lambda>u. lo * k \<le> count_in P u) (Rep lo hi r)"
proof (rule readsI)
  fix p q assume "q \<in> set (runs (Rep lo hi r) p)"
  then obtain x n where x: "x \<in> set (rounds (runs r) lo p)" "q \<in> set (more_rounds (runs r) n x)"
    by auto
  obtain u where u: "consumes p u x" "lo * k \<le> count_in P u"
    using reads_count_rounds [OF assms [unfolded reads_def]] x(1) by (meson reads_step_def)
  obtain v where "consumes x v q"
    using reads_rounds(2) [OF reads_any [unfolded reads_def]] x(2) by (meson reads_step_def)
  with u show "\<exists>u. consumes p u q \<and> lo * k \<le> count_in P u"
    by (intro exI [of _ "u @ v"]) (simp add: consumes_trans)
qed

text \<open>A property of texts that concatenation keeps is kept by repetition.\<close>

lemma reads_stepD: "reads_step Q f \<Longrightarrow> q \<in> set (f p) \<Longrightarrow> \<exists>u. consumes p u q \<and> Q u"
  by (simp add: reads_step_def)

lemma reads_stepI: "(\<And>p q. q \<in> set (f p) \<Longrightarrow> \<exists>u. consumes p u q \<and> Q u) \<Longrightarrow> reads_step Q f"
  by (simp add: reads_step_def)

lemma reads_step_closed:
  assumes step: "reads_step Q step" and Q: "Q []" "\<And>u v. Q u \<Longrightarrow> Q v \<Longrightarrow> Q (u @ v)"
  shows "reads_step Q (rounds step n)" and "reads_step Q (more_rounds step n)"
proof -
  have one: "\<exists>u. consumes p u q \<and> Q u"
    if h: "x \<in> set (step p)" "q \<in> set (f x)" "reads_step Q f" for f p x q
  proof -
    obtain u where u: "consumes p u x" "Q u" using reads_stepD [OF step h(1)] by blast
    obtain v where v: "consumes x v q" "Q v" using reads_stepD [OF h(3,2)] by blast
    from consumes_trans [OF u(1) v(1)] Q(2) [OF u(2) v(2)] show ?thesis by blast
  qed
  show "reads_step Q (rounds step n)"
  proof (induction n)
    case (Suc n)
    show ?case
    proof (rule reads_stepI)
      fix p q assume "q \<in> set (rounds step (Suc n) p)"
      then obtain x where "x \<in> set (step p)" "q \<in> set (rounds step n x)" by auto
      then show "\<exists>u. consumes p u q \<and> Q u" by (rule one [OF _ _ Suc])
    qed
  qed (rule reads_stepI, rule exI [of _ "[]"], simp add: Q(1) consumes_refl)
  show "reads_step Q (more_rounds step n)"
  proof (induction n)
    case (Suc n)
    show ?case
    proof (rule reads_stepI)
      fix p q assume "q \<in> set (more_rounds step (Suc n) p)"
      then consider "q = p" | x where "x \<in> set (step p)" "q \<in> set (more_rounds step n x)" by auto
      then show "\<exists>u. consumes p u q \<and> Q u"
      proof cases
        case 2
        then show ?thesis by (rule one [OF _ _ Suc])
      qed (rule exI [of _ "[]"], simp add: Q(1) consumes_refl)
    qed
  qed (rule reads_stepI, rule exI [of _ "[]"], simp add: Q(1) consumes_refl)
qed

lemma reads_Rep_closed:
  assumes "reads Q r" and "Q []" and "\<And>u v. Q u \<Longrightarrow> Q v \<Longrightarrow> Q (u @ v)"
  shows "reads Q (Rep lo hi r)"
proof (rule readsI)
  fix p q assume "q \<in> set (runs (Rep lo hi r) p)"
  then obtain x n where x: "x \<in> set (rounds (runs r) lo p)" "q \<in> set (more_rounds (runs r) n x)"
    by auto
  note step = assms(1) [unfolded reads_def]
  obtain u where u: "consumes p u x" "Q u"
    using reads_stepD [OF reads_step_closed(1) [OF step assms(2,3)] x(1)] by blast
  obtain v where v: "consumes x v q" "Q v"
    using reads_stepD [OF reads_step_closed(2) [OF step assms(2,3)] x(2)] by blast
  from consumes_trans [OF u(1) v(1)] assms(3) [OF u(2) v(2)] show "\<exists>u. consumes p u q \<and> Q u" by blast
qed

lemma reads_Seq1:
  assumes "reads Q r" and "\<And>u v. Q u \<Longrightarrow> Q (u @ v)" shows "reads Q (Seq r t)"
  by (rule reads_Seq [OF assms(1) reads_any]) (rule assms(2))

lemma reads_Seq2:
  assumes "reads Q t" and "\<And>u v. Q v \<Longrightarrow> Q (u @ v)" shows "reads Q (Seq r t)"
  by (rule reads_Seq [OF reads_any assms(1)]) (rule assms(2))

subsection \<open>Search, split and substitute\<close>

lemma hit_text:
  assumes "consumes (start_at bef s) u q"
  shows "take (length s - length (ps_after q)) s = u" and "s = u @ ps_after q"
  using assms by (simp_all add: consumes_def start_at_def)

text \<open>The segments of a string are the string.\<close>

lemma rebuild_text: "rebuild ht_text (segments r bef s) = s"
proof (induction r bef s rule: segments.induct)
  case (2 r bef c cs)
  show ?case
  proof (cases "runs r (start_at bef (c # cs))")
    case Nil
    with 2(1) show ?thesis by simp
  next
    case (Cons q qs)
    then obtain u where "consumes (start_at bef (c # cs)) u q"
      using runs_consumes [of q r] by fastforce
    from hit_text [OF this] have t: "take (length (c # cs) - length (ps_after q)) (c # cs) = u"
      "c # cs = u @ ps_after q" .
    show ?thesis
    proof (cases "length (ps_after q) \<le> length cs")
      case True
      have "segments r bef (c # cs) = Hit \<lparr>ht_start = length bef, ht_text = u,
              ht_caps = ps_caps q\<rparr> # segments r (ps_before q) (ps_after q)"
        unfolding segments.simps Cons using True t(1) by simp
      with 2(2) [OF Cons True] t(2) show ?thesis by simp
    next
      case False
      with 2(3) [OF Cons] Cons show ?thesis by simp
    qed
  qed
qed simp

lemma rebuild_no_hits: "hits_of xs = [] \<Longrightarrow> rebuild f xs = rebuild g xs"
  by (induction xs rule: hits_of.induct) auto

lemma re_sub_none: "finditer r s = [] \<Longrightarrow> re_sub r f s = s"
  unfolding finditer_def re_sub_def by (metis rebuild_no_hits rebuild_text)

text \<open>Substituting the matched text for itself changes nothing.\<close>

lemma rebuild_cong: "(\<And>h. h \<in> set (hits_of xs) \<Longrightarrow> f h = g h) \<Longrightarrow> rebuild f xs = rebuild g xs"
  by (induction xs rule: hits_of.induct) auto

lemma re_sub_id: "(\<And>h. h \<in> set (finditer r s) \<Longrightarrow> f h = ht_text h) \<Longrightarrow> re_sub r f s = s"
  unfolding finditer_def re_sub_def by (metis rebuild_cong rebuild_text)

text \<open>Every match found is a non-empty part of the string, read by the pattern.\<close>

lemma segments_hit:
  assumes "h \<in> set (hits_of (segments r bef s))" and "reads Q r"
  shows "Q (ht_text h) \<and> ht_text h \<noteq> [] \<and> (\<exists>p t. s = p @ ht_text h @ t)"
  using assms
proof (induction r bef s rule: segments.induct)
  case (2 r bef c cs)
  show ?case
  proof (cases "runs r (start_at bef (c # cs))")
    case Nil
    with 2(1) [OF Nil _ 2(5)] 2(4) obtain p t where
      "Q (ht_text h)" "ht_text h \<noteq> []" "cs = p @ ht_text h @ t" by auto
    then show ?thesis by (metis append_Cons)
  next
    case (Cons q qs)
    then have "q \<in> set (runs r (start_at bef (c # cs)))" by simp
    from readsD [OF 2(5) this] obtain u where
      u: "consumes (start_at bef (c # cs)) u q" "Q u" by blast
    from hit_text [OF u(1)] have t: "take (length (c # cs) - length (ps_after q)) (c # cs) = u"
      "c # cs = u @ ps_after q" .
    show ?thesis
    proof (cases "length (ps_after q) \<le> length cs")
      case True
      have "u \<noteq> []" using True t(2) by (metis append_Nil impossible_Cons)
      consider "ht_text h = u" | "h \<in> set (hits_of (segments r (ps_before q) (ps_after q)))"
      proof -
        have "segments r bef (c # cs) = Hit \<lparr>ht_start = length bef, ht_text = u,
              ht_caps = ps_caps q\<rparr> # segments r (ps_before q) (ps_after q)"
          unfolding segments.simps Cons using True t(1) by simp
        with 2(4) that show thesis by auto
      qed
      then show ?thesis
      proof cases
        case 1
        with u \<open>u \<noteq> []\<close> t show ?thesis by (metis append_Nil)
      next
        case 2
        with "2.IH"(2) [OF Cons True _ "2.prems"(2)]
        obtain p x where "Q (ht_text h)" "ht_text h \<noteq> []" "ps_after q = p @ ht_text h @ x" by blast
        with t(2) show ?thesis by (metis append.assoc)
      qed
    next
      case False
      with 2(3) [OF Cons False _ 2(5)] 2(4) Cons obtain p t where
        "Q (ht_text h)" "ht_text h \<noteq> []" "cs = p @ ht_text h @ t" by auto
      then show ?thesis by (metis append_Cons)
    qed
  qed
qed simp

lemma finditer_hit:
  "h \<in> set (finditer r s) \<Longrightarrow> reads Q r \<Longrightarrow>
   Q (ht_text h) \<and> ht_text h \<noteq> [] \<and> (\<exists>p t. s = p @ ht_text h @ t)"
  unfolding finditer_def by (rule segments_hit)

text \<open>So a pattern all of whose matches need something the string lacks finds nothing.\<close>

lemma finditer_none:
  assumes "reads Q r" and "\<And>p u t. s = p @ u @ t \<Longrightarrow> \<not> Q u"
  shows "finditer r s = []"
proof (cases "finditer r s")
  case (Cons h hs)
  then have "h \<in> set (finditer r s)" by simp
  from finditer_hit [OF this assms(1)] assms(2) show ?thesis by blast
qed

end
