(* ===== verification/Sensitive_Filter.thy ===== *)
theory Sensitive_Filter
  imports Py_Regex
begin

section \<open>Sensitive data: credential detection and redaction\<close>

text \<open>
  \<open>SensitiveDataFilter\<close> of \<open>contexta/core/extraction/sensitive_filter.py\<close>: its patterns
  as \<open>regex\<close> values, one redaction step per family in the order the code runs them, and the
  precheck that skips them.  The personal-data filter that \<open>redact_all\<close> adds is not part
  of this theory.
\<close>

subsection \<open>Results\<close>

record redaction_event =
  re_type :: string
  re_length :: nat
  re_position :: nat

record scan_result =
  sc_sensitive :: bool
  sc_content :: string
  sc_events :: "redaction_event list"

definition REDACTED :: string where
  "REDACTED = ''[REDACTED]''"

subsection \<open>The Luhn check\<close>

text \<open>\<open>xs[-1::-2]\<close> and \<open>xs[-2::-2]\<close> are the even and odd places of the reversed list.\<close>

fun alternate :: "'a list \<Rightarrow> 'a list" where
  "alternate [] = []"
| "alternate [x] = [x]"
| "alternate (x # y # xs) = x # alternate xs"

definition luhn_double :: "nat \<Rightarrow> nat" where
  "luhn_double d = (if 2 * d > 9 then 2 * d - 9 else 2 * d)"

definition luhn_total :: "nat list \<Rightarrow> nat" where
  "luhn_total ds =
     sum_list (alternate (rev ds)) + sum_list (map luhn_double (alternate (drop 1 (rev ds))))"

definition luhn_check :: "string \<Rightarrow> bool" where
  "luhn_check number \<longleftrightarrow> luhn_total (map digit_val number) mod 10 = 0"

subsection \<open>Patterns\<close>

definition quote_chars :: string where
  "quote_chars = [CHR 0x22, CHR 0x27]"

definition digit_cls :: regex where "digit_cls = Cls is_decimal"
definition space_cls :: regex where "space_cls = Cls is_space"
definition quote_opt :: regex where "quote_opt = opt (one_of quote_chars)"

definition is_alnum :: "char \<Rightarrow> bool" where
  "is_alnum c \<longleftrightarrow> is_ascii_letter c \<or> is_decimal c"

definition token_cls :: "string \<Rightarrow> regex" where
  "token_cls extra = Cls (\<lambda>c. is_alnum c \<or> c \<in> set extra)"

definition not_redacted :: regex where
  "not_redacted = NotAhead (ilit ''[REDACTED]'')"

text \<open>\<open>\s*[=:]\s*\<close>\<close>

definition assign_re :: regex where
  "assign_re = seqs [star space_cls, one_of ''=:'', star space_cls]"

definition password_words :: regex where
  "password_words = alts [ilit ''password'', ilit ''passwd'', ilit ''pwd'']"

definition password_plain :: regex where
  "password_plain = seqs [Grp 1 password_words, assign_re, quote_opt, not_redacted,
     Grp 2 (plus (Cls (\<lambda>c. \<not> is_space c \<and> c \<notin> set quote_chars \<and> c \<notin> set '',;}{)]''))), quote_opt]"

definition password_json :: regex where
  "password_json = seqs [one_of quote_chars, Grp 1 password_words, one_of quote_chars,
     star space_cls, chr (CHR '':''), star space_cls, one_of quote_chars, not_redacted,
     Grp 2 (plus (none_of quote_chars)), one_of quote_chars]"

definition password_patterns :: "regex list" where
  "password_patterns = [password_plain, password_json]"

text \<open>\<open>[_\-\s]?\<close>\<close>

definition word_gap :: regex where
  "word_gap = opt (Cls (\<lambda>c. c = CHR ''_'' \<or> c = CHR ''-'' \<or> is_space c))"

definition otp_words :: regex where
  "otp_words = alts [ilit ''otp'',
     seqs [ilit ''one'', word_gap, ilit ''time'', word_gap, ilit ''password''],
     seqs [ilit ''verification'', word_gap, ilit ''code''],
     seqs [ilit ''2fa'', word_gap, ilit ''code''],
     seqs [ilit ''mfa'', word_gap, ilit ''code'']]"

definition otp_assign :: regex where
  "otp_assign = seqs [Grp 1 otp_words, assign_re, quote_opt,
     Grp 2 (Rep 4 (Some 8) digit_cls), quote_opt]"

definition otp_sentence :: regex where
  "otp_sentence = seqs [alts [ilit ''code'', ilit ''token''], plus space_cls,
     alts [ilit ''is'', ilit ''was'', ilit '':''], star space_cls, quote_opt,
     Grp 1 (times 6 digit_cls), quote_opt]"

definition upper_or_digit :: "char \<Rightarrow> bool" where
  "upper_or_digit c \<longleftrightarrow> is_decimal c \<or> (65 \<le> code c \<and> code c \<le> 90)"

definition key_re :: "string \<Rightarrow> regex \<Rightarrow> regex" where
  "key_re prefix body = seqs [WordB, Grp 1 (Seq (lit prefix) body), WordB]"

definition key_opt :: regex where
  "key_opt = opt (one_of ''_-'')"

definition api_assign :: regex where
  "api_assign = seqs [Grp 1 (alts [seqs [ilit ''api'', key_opt, ilit ''key''],
       seqs [ilit ''api'', key_opt, ilit ''secret''], seqs [ilit ''secret'', key_opt, ilit ''key'']]),
     assign_re, quote_opt, not_redacted, Grp 2 (Rep 16 None (token_cls ''_-'')), quote_opt]"

text \<open>The API key patterns, each with its number of groups.\<close>

definition api_key_patterns :: "(nat \<times> regex) list" where
  "api_key_patterns =
     [(1, key_re ''AKIA'' (times 16 (Cls upper_or_digit))),
      (1, key_re ''ghp_'' (Rep 36 None (token_cls ''''))),
      (1, key_re ''gho_'' (Rep 36 None (token_cls ''''))),
      (1, key_re ''sk-'' (Rep 20 None (token_cls ''''))),
      (1, key_re ''sk_live_'' (Rep 20 None (token_cls ''''))),
      (1, key_re ''pk_live_'' (Rep 20 None (token_cls ''''))),
      (1, key_re ''sk_test_'' (Rep 20 None (token_cls ''''))),
      (1, key_re ''pk_test_'' (Rep 20 None (token_cls ''''))),
      (2, api_assign)]"

definition jwt_pattern :: regex where
  "jwt_pattern = seqs [WordB, Grp 1 (seqs [lit ''eyJ'', Rep 10 None (token_cls ''_-''), chr (CHR ''.''),
     lit ''eyJ'', Rep 10 None (token_cls ''_-''), chr (CHR ''.''), Rep 10 None (token_cls ''_-'')]), WordB]"

definition bearer_pattern :: regex where
  "bearer_pattern = seqs [Grp 1 (Seq (ilit ''Bearer'') (plus space_cls)),
     Grp 2 (Rep 20 None (token_cls ''_-.''))]"

definition session_pattern :: regex where
  "session_pattern = seqs [Grp 1 (alts [ilit ''session'', seqs [ilit ''session'', key_opt, ilit ''id''],
       ilit ''sid'', seqs [ilit ''session'', key_opt, ilit ''token'']]),
     assign_re, quote_opt, not_redacted, Grp 2 (Rep 16 None (token_cls ''_-.'')), quote_opt]"

definition card_pattern :: regex where
  "card_pattern = seqs [WordB, Rep 12 (Some 18) (Grp 1 (Seq digit_cls (opt (one_of '' -'')))),
     digit_cls, WordB]"

subsection \<open>Redaction steps\<close>

definition group_event :: "string \<Rightarrow> nat \<Rightarrow> hit \<Rightarrow> redaction_event" where
  "group_event type n h =
     \<lparr>re_type = type, re_length = length (group n h), re_position = group_start n h\<rparr>"

definition redact_group :: "nat \<Rightarrow> hit \<Rightarrow> string" where
  "redact_group n h = replace (group n h) REDACTED (ht_text h)"

text \<open>One pattern, its group \<open>n\<close> replaced inside each match.\<close>

definition redact_pattern ::
  "string \<Rightarrow> nat \<Rightarrow> regex \<Rightarrow> string \<times> redaction_event list \<Rightarrow> string \<times> redaction_event list" where
  "redact_pattern type n r st =
     (case st of (s, events) \<Rightarrow>
        (re_sub r (redact_group n) s, events @ map (group_event type n) (finditer r s)))"

definition redact_passwords :: "string \<Rightarrow> string \<times> redaction_event list" where
  "redact_passwords s = fold (redact_pattern ''password'' 2) password_patterns (s, [])"

definition redact_otps :: "string \<Rightarrow> string \<times> redaction_event list" where
  "redact_otps s =
     redact_pattern ''otp'' 1 otp_sentence (redact_pattern ''otp'' 2 otp_assign (s, []))"

text \<open>\<open>m.lastindex\<close>: the group closed last.\<close>

definition lastindex :: "hit \<Rightarrow> nat" where
  "lastindex h = (case ht_caps h of [] \<Rightarrow> 0 | c # _ \<Rightarrow> cp_group c)"

definition redact_api_key ::
  "nat \<times> regex \<Rightarrow> string \<times> redaction_event list \<Rightarrow> string \<times> redaction_event list" where
  "redact_api_key p st =
     (case (p, st) of ((groups, r), (s, events)) \<Rightarrow>
        let n = (if groups \<ge> 2 then 2 else 1);
            events' = events @ map (group_event ''api_key'' n) (finditer r s)
        in if groups \<ge> 2 then
             (case re_search r s of
                Some h \<Rightarrow>
                  if lastindex h \<ge> 2
                  then (re_sub r (\<lambda>m. if lastindex m \<ge> 2 then redact_group 2 m else redact_group 1 m) s,
                        events')
                  else (re_sub r (redact_group 1) s, events')
              | None \<Rightarrow> (re_sub r (redact_group 1) s, events'))
           else (re_sub r (\<lambda>_. REDACTED) s, events'))"

definition redact_api_keys :: "string \<Rightarrow> string \<times> redaction_event list" where
  "redact_api_keys s = fold redact_api_key api_key_patterns (s, [])"

definition redact_jwts :: "string \<Rightarrow> string \<times> redaction_event list" where
  "redact_jwts s =
     (re_sub jwt_pattern (\<lambda>_. REDACTED) s, map (group_event ''jwt'' 1) (finditer jwt_pattern s))"

definition redact_bearer_tokens :: "string \<Rightarrow> string \<times> redaction_event list" where
  "redact_bearer_tokens s =
     (re_sub bearer_pattern (\<lambda>m. group 1 m @ REDACTED) s,
      map (group_event ''bearer_token'' 2) (finditer bearer_pattern s))"

definition redact_session_cookies :: "string \<Rightarrow> string \<times> redaction_event list" where
  "redact_session_cookies s = redact_pattern ''session_cookie'' 2 session_pattern (s, [])"

definition digits_only :: "string \<Rightarrow> string" where
  "digits_only s = filter (\<lambda>c. \<not> (is_space c \<or> c = CHR ''-'')) s"

definition is_card :: "hit \<Rightarrow> bool" where
  "is_card h \<longleftrightarrow> (let d = digits_only (ht_text h) in 13 \<le> length d \<and> length d \<le> 19 \<and> luhn_check d)"

definition redact_card_numbers :: "string \<Rightarrow> string \<times> redaction_event list" where
  "redact_card_numbers s =
     (re_sub card_pattern (\<lambda>h. if is_card h then REDACTED else ht_text h) s,
      map (\<lambda>h. \<lparr>re_type = ''payment_card'', re_length = length (ht_text h), re_position = ht_start h\<rparr>)
        (filter is_card (finditer card_pattern s)))"

subsection \<open>The scan\<close>

definition indicators :: "string list" where
  "indicators = [''password'', ''passwd'', ''pwd'', ''otp'', ''one-time'', ''one_time'',
     ''verification'', ''2fa'', ''mfa'', ''code'', ''api'', ''secret'', ''key'', ''akia'', ''ghp_'',
     ''gho_'', ''sk-'', ''sk_live_'', ''pk_live_'', ''sk_test_'', ''pk_test_'', ''bearer'',
     ''session'', ''sid'', ''eyj'', ''token'']"

definition might_contain_sensitive_data :: "string \<Rightarrow> bool" where
  "might_contain_sensitive_data s \<longleftrightarrow>
     (\<exists>i \<in> set indicators. contains (lower s) i) \<or> 13 \<le> count_in is_digit s"

definition redactors :: "(string \<Rightarrow> string \<times> redaction_event list) list" where
  "redactors = [redact_passwords, redact_otps, redact_api_keys, redact_jwts,
     redact_bearer_tokens, redact_session_cookies, redact_card_numbers]"

text \<open>The body after the precheck: each redactor on what the previous ones left.\<close>

definition full_scan :: "string \<Rightarrow> string \<times> redaction_event list" where
  "full_scan s = fold (\<lambda>f (t, events). let (t', new) = f t in (t', events @ new)) redactors (s, [])"

definition scan_and_redact :: "string \<Rightarrow> scan_result" where
  "scan_and_redact s =
     (if \<not> might_contain_sensitive_data s
      then \<lparr>sc_sensitive = False, sc_content = s, sc_events = []\<rparr>
      else let (t, events) = full_scan s
           in \<lparr>sc_sensitive = 0 < length events, sc_content = t, sc_events = events\<rparr>)"

definition contains_sensitive_data :: "string \<Rightarrow> bool" where
  "contains_sensitive_data s = sc_sensitive (scan_and_redact s)"

subsection \<open>The precheck misses nothing\<close>

text \<open>A text is flagged if an indicator occurs in it; every credential match is.\<close>

definition flagged :: "string \<Rightarrow> bool" where
  "flagged s \<longleftrightarrow> (\<exists>i \<in> set indicators. contains (lower s) i)"

lemma flagged_append: "flagged u \<Longrightarrow> flagged (p @ u @ t)"
  unfolding flagged_def by (auto simp: lower_append intro: contains_append)

lemma flagged_left: "flagged u \<Longrightarrow> flagged (u @ v)"
  using flagged_append [of u "[]" v] by simp

lemma flagged_right: "flagged v \<Longrightarrow> flagged (u @ v)"
  using flagged_append [of v u "[]"] by simp

lemma flag_lit: "flagged w \<Longrightarrow> reads flagged (lit w)"
  by (rule reads_mono [OF reads_lit]) simp

lemma flag_ilit: "flagged w \<Longrightarrow> reads flagged (ilit w)"
  by (rule reads_mono [OF reads_ilit]) (simp add: flagged_def)

lemma flag_Seq1: "reads flagged r \<Longrightarrow> reads flagged (Seq r t)"
  by (rule reads_Seq1) (auto intro: flagged_left)

lemma flag_Seq2: "reads flagged t \<Longrightarrow> reads flagged (Seq r t)"
  by (rule reads_Seq2) (auto intro: flagged_right)

lemma flagged_words:
  "flagged ''password''" "flagged ''passwd''" "flagged ''pwd''" "flagged ''otp''"
  "flagged ''verification''" "flagged ''2fa''" "flagged ''mfa''" "flagged ''code''" "flagged ''token''"
  "flagged ''api''" "flagged ''secret''" "flagged ''AKIA''" "flagged ''ghp_''" "flagged ''gho_''"
  "flagged ''sk-''" "flagged ''sk_live_''" "flagged ''pk_live_''" "flagged ''sk_test_''"
  "flagged ''pk_test_''" "flagged ''eyJ''" "flagged ''Bearer''" "flagged ''session''" "flagged ''sid''"
  by code_simp+

lemma flag_password: "r \<in> set password_patterns \<Longrightarrow> reads flagged r"
proof -
  have w: "reads flagged password_words"
    unfolding password_words_def alts.simps by (intro reads_Alt flag_ilit flagged_words)
  then show "r \<in> set password_patterns \<Longrightarrow> reads flagged r"
    unfolding password_patterns_def password_plain_def password_json_def seqs.simps
    by (auto intro: flag_Seq1 flag_Seq2 [OF flag_Seq1] reads_Grp)
qed

lemma flag_otp: "reads flagged otp_assign" "reads flagged otp_sentence"
proof -
  have one: "reads flagged (Seq (ilit ''one'') (Seq word_gap (Seq (ilit ''time'')
      (Seq word_gap (ilit ''password'')))))"
    by (intro flag_Seq2 flag_ilit flagged_words)
  have "reads flagged otp_words"
    unfolding otp_words_def alts.simps seqs.simps
    by (rule one reads_Alt flag_Seq1 flag_ilit flagged_words)+
  then show "reads flagged otp_assign"
    unfolding otp_assign_def seqs.simps by (intro flag_Seq1 reads_Grp)
  show "reads flagged otp_sentence"
    unfolding otp_sentence_def seqs.simps alts.simps
    by (intro flag_Seq1 reads_Alt flag_ilit flagged_words)
qed

lemma flag_key: "flagged w \<Longrightarrow> reads flagged (key_re w body)"
  unfolding key_re_def seqs.simps by (intro flag_Seq2 [OF flag_Seq1] reads_Grp flag_Seq1 flag_lit)

lemma flag_api: "p \<in> set api_key_patterns \<Longrightarrow> reads flagged (snd p)"
proof -
  have "reads flagged api_assign"
    unfolding api_assign_def seqs.simps alts.simps
    by (intro flag_Seq1 reads_Grp reads_Alt flag_ilit flagged_words)
  then show "p \<in> set api_key_patterns \<Longrightarrow> reads flagged (snd p)"
    unfolding api_key_patterns_def by (auto simp: flagged_words [THEN flag_key])
qed

lemma flag_jwt: "reads flagged jwt_pattern"
  unfolding jwt_pattern_def seqs.simps
  by (intro flag_Seq2 [OF flag_Seq1] reads_Grp flag_Seq1 flag_lit flagged_words)

lemma flag_bearer: "reads flagged bearer_pattern"
  unfolding bearer_pattern_def seqs.simps
  by (intro flag_Seq1 reads_Grp flag_ilit flagged_words)

lemma flag_session: "reads flagged session_pattern"
  unfolding session_pattern_def seqs.simps alts.simps
  by (intro flag_Seq1 reads_Grp reads_Alt flag_ilit flagged_words)

lemma is_decimal_digit: "is_decimal c \<Longrightarrow> is_digit c"
  by (simp add: is_digit_def)

lemma card_digits: "reads (\<lambda>u. 13 \<le> count_in is_digit u) card_pattern"
proof -
  have d: "reads (\<lambda>u. 1 \<le> count_in is_digit u) digit_cls"
    unfolding digit_cls_def by (rule reads_Cls) (simp add: count_in_def is_decimal_digit)
  then have "reads (\<lambda>u. 1 \<le> count_in is_digit u) (Grp 1 (Seq digit_cls (opt (one_of '' -''))))"
    by (intro reads_Grp reads_Seq1) auto
  from reads_Rep_count [OF this, of 12 "Some 18"]
  have "reads (\<lambda>u. 12 \<le> count_in is_digit u)
     (Rep 12 (Some 18) (Grp 1 (Seq digit_cls (opt (one_of '' -'')))))" by simp
  moreover have "reads (\<lambda>u. 1 \<le> count_in is_digit u) (Seq digit_cls WordB)"
    using d by (intro reads_Seq1) auto
  ultimately have "reads (\<lambda>u. 13 \<le> count_in is_digit u)
     (Seq (Rep 12 (Some 18) (Grp 1 (Seq digit_cls (opt (one_of '' -''))))) (Seq digit_cls WordB))"
    by (rule reads_Seq) simp
  then show ?thesis
    unfolding card_pattern_def seqs.simps by (rule reads_Seq2) simp
qed

lemma finditer_unflagged: "\<not> flagged s \<Longrightarrow> reads flagged r \<Longrightarrow> finditer r s = []"
  by (rule finditer_none) (auto dest: flagged_append)

lemma redact_pattern_unflagged:
  "\<not> flagged s \<Longrightarrow> reads flagged r \<Longrightarrow> redact_pattern ty n r (s, es) = (s, es)"
  by (simp add: redact_pattern_def finditer_unflagged re_sub_none)

lemma redact_api_key_unflagged:
  "\<not> flagged s \<Longrightarrow> reads flagged (snd p) \<Longrightarrow> redact_api_key p (s, es) = (s, es)"
  by (cases p) (simp add: redact_api_key_def finditer_unflagged re_sub_none re_search_def Let_def)

lemma fold_fixpoint: "(\<And>x. x \<in> set xs \<Longrightarrow> f x st = st) \<Longrightarrow> fold f xs st = st"
  by (induction xs) auto

lemma full_scan_unflagged:
  assumes "\<not> flagged s" and "count_in is_digit s < 13"
  shows "full_scan s = (s, [])"
proof -
  have "finditer card_pattern s = []"
    by (rule finditer_none [OF card_digits]) (use assms(2) in auto)
  then have "redact_card_numbers s = (s, [])"
    by (simp add: redact_card_numbers_def re_sub_none)
  moreover have "redact_passwords s = (s, [])" unfolding redact_passwords_def
    by (rule fold_fixpoint) (simp add: redact_pattern_unflagged assms(1) flag_password)
  moreover have "redact_api_keys s = (s, [])" unfolding redact_api_keys_def
    by (rule fold_fixpoint) (simp add: redact_api_key_unflagged assms(1) flag_api)
  moreover have "redact_otps s = (s, [])"
    by (simp add: redact_otps_def redact_pattern_unflagged assms(1) flag_otp)
  moreover have "redact_jwts s = (s, [])" "redact_bearer_tokens s = (s, [])"
    "redact_session_cookies s = (s, [])"
    using finditer_unflagged [OF assms(1)] flag_jwt flag_bearer flag_session
    by (simp_all add: redact_jwts_def redact_bearer_tokens_def redact_session_cookies_def
        redact_pattern_def re_sub_none)
  ultimately show ?thesis by (simp add: full_scan_def redactors_def)
qed

text \<open>
  The fast precheck is only an optimisation: on every text the scan returns what
  running every pattern would have returned, so no credential is missed because a text looked
  plain.
\<close>

theorem precheck_is_exact:
  "scan_and_redact s = (let (t, events) = full_scan s
     in \<lparr>sc_sensitive = events \<noteq> [], sc_content = t, sc_events = events\<rparr>)"
proof (cases "might_contain_sensitive_data s")
  case True
  then show ?thesis by (simp add: scan_and_redact_def split: prod.split)
next
  case False
  then have "full_scan s = (s, [])"
    by (intro full_scan_unflagged) (auto simp: might_contain_sensitive_data_def flagged_def)
  with False show ?thesis by (simp add: scan_and_redact_def)
qed

subsection \<open>Nothing found, nothing changed\<close>

text \<open>
  A step that reports its findings: it extends the list of events, and changes the text only
  if it adds to that list.
\<close>

definition reports :: "(string \<times> 'e list \<Rightarrow> string \<times> 'e list) \<Rightarrow> bool" where
  "reports g \<longleftrightarrow> (\<forall>s es. \<exists>new. snd (g (s, es)) = es @ new \<and> (new = [] \<longrightarrow> fst (g (s, es)) = s))"

lemma reportsD:
  assumes "reports g"
  obtains new where "snd (g (s, es)) = es @ new" "new = [] \<Longrightarrow> fst (g (s, es)) = s"
  using assms unfolding reports_def by blast

lemma reports_fold: "(\<And>x. x \<in> set xs \<Longrightarrow> reports (f x)) \<Longrightarrow> reports (fold f xs)"
proof (induction xs)
  case (Cons x xs)
  show ?case unfolding reports_def
  proof (intro allI)
    fix s es
    obtain n1 where n1: "snd (f x (s, es)) = es @ n1" "n1 = [] \<Longrightarrow> fst (f x (s, es)) = s"
      using Cons.prems [of x] by (auto elim: reportsD)
    obtain s1 where s1: "f x (s, es) = (s1, es @ n1)" using n1(1) by (cases "f x (s, es)") auto
    have "reports (fold f xs)" using Cons by simp
    then obtain n2 where "snd (fold f xs (s1, es @ n1)) = (es @ n1) @ n2"
      "n2 = [] \<Longrightarrow> fst (fold f xs (s1, es @ n1)) = s1"
      by (rule reportsD [of "fold f xs" s1 "es @ n1"]) blast
    with n1 s1 show "\<exists>new. snd (fold f (x # xs) (s, es)) = es @ new \<and>
        (new = [] \<longrightarrow> fst (fold f (x # xs) (s, es)) = s)"
      by (intro exI [of _ "n1 @ n2"]) auto
  qed
qed (simp add: reports_def)

lemma reports_redact_pattern: "reports (redact_pattern ty n r)"
  by (simp add: reports_def redact_pattern_def re_sub_none)

lemma reports_redact_api_key: "reports (redact_api_key p)"
proof (cases p)
  case (Pair groups r)
  have "re_search r s = None" if "finditer r s = []" for s using that by (simp add: re_search_def)
  then show ?thesis
    by (auto simp: Pair reports_def redact_api_key_def Let_def re_sub_none split: option.split)
qed

lemma reports_quiet: "reports g \<Longrightarrow> snd (g (s, [])) = [] \<Longrightarrow> fst (g (s, [])) = s"
  by (rule reportsD [of g s "[]"]) auto

lemma redactors_quiet:
  assumes "f \<in> set redactors" and "snd (f s) = []"
  shows "fst (f s) = s"
proof -
  have "fst (redact_card_numbers s) = s" if "snd (redact_card_numbers s) = []"
    using that unfolding redact_card_numbers_def
    by (auto simp: filter_empty_conv intro!: re_sub_id)
  moreover have "fst (redact_passwords s) = s" if "snd (redact_passwords s) = []"
    using reports_quiet [OF reports_fold [of password_patterns "redact_pattern ''password'' 2"]]
      reports_redact_pattern that
    unfolding redact_passwords_def by blast
  moreover have "fst (redact_api_keys s) = s" if "snd (redact_api_keys s) = []"
    using reports_quiet [OF reports_fold [of api_key_patterns redact_api_key]]
      reports_redact_api_key that
    unfolding redact_api_keys_def by blast
  moreover have "fst (redact_otps s) = s" if "snd (redact_otps s) = []"
    using that by (auto simp: redact_otps_def redact_pattern_def re_sub_none)
  ultimately show ?thesis
    using assms by (auto simp: redactors_def redact_jwts_def redact_bearer_tokens_def
        redact_session_cookies_def redact_pattern_def re_sub_none)
qed

lemma full_scan_quiet:
  assumes "snd (full_scan s) = []"
  shows "fst (full_scan s) = s"
proof -
  let ?g = "\<lambda>f (t, events). let (t', new) = f t in (t', events @ new)"
  have "reports (?g f)" if "f \<in> set redactors" for f
    unfolding reports_def
  proof (intro allI)
    fix s and es :: "redaction_event list"
    show "\<exists>new. snd (?g f (s, es)) = es @ new \<and> (new = [] \<longrightarrow> fst (?g f (s, es)) = s)"
      using redactors_quiet [OF that, of s] by (cases "f s") auto
  qed
  then have "reports (fold ?g redactors)" by (rule reports_fold)
  from reports_quiet [OF this] assms show ?thesis by (simp add: full_scan_def)
qed

text \<open>
  A scan that reports nothing returns its text unchanged; in particular a text that
  is not sensitive is stored exactly as it came.
\<close>

theorem clean_text_unchanged:
  assumes "\<not> contains_sensitive_data s"
  shows "sc_content (scan_and_redact s) = s \<and> sc_events (scan_and_redact s) = []"
proof (cases "might_contain_sensitive_data s")
  case True
  then have "snd (full_scan s) = []"
    using assms by (cases "full_scan s") (auto simp: contains_sensitive_data_def scan_and_redact_def)
  with True full_scan_quiet [OF this] show ?thesis
    by (cases "full_scan s") (simp add: scan_and_redact_def)
qed (simp add: scan_and_redact_def)

theorem clean_text_unchanged_witness:
  "sc_content (scan_and_redact ''hello'') = ''hello''"
proof -
  have "\<not> contains_sensitive_data ''hello''" by code_simp
  from clean_text_unchanged [OF this] show ?thesis by simp
qed

subsection \<open>The Luhn check catches a mistyped digit\<close>

text \<open>The total as one sum over the digits from the right, every second one doubled.\<close>

fun luhn_sum :: "bool \<Rightarrow> nat list \<Rightarrow> nat" where
  "luhn_sum doubled [] = 0"
| "luhn_sum doubled (d # ds) = (if doubled then luhn_double d else d) + luhn_sum (\<not> doubled) ds"

lemma luhn_sum_alternate:
  "luhn_sum False ds = sum_list (alternate ds) + sum_list (map luhn_double (alternate (drop 1 ds)))"
proof (induction ds rule: alternate.induct)
  case (3 x y ds)
  then show ?case by (cases ds) auto
qed simp_all

lemma luhn_total_sum: "luhn_total ds = luhn_sum False (rev ds)"
  by (simp add: luhn_total_def luhn_sum_alternate)

lemma luhn_sum_update:
  "i < length ds \<Longrightarrow>
   \<exists>doubled. luhn_sum b (ds[i := y]) + (if doubled then luhn_double (ds ! i) else ds ! i)
     = luhn_sum b ds + (if doubled then luhn_double y else y)"
proof (induction ds arbitrary: i b)
  case (Cons d ds)
  show ?case
  proof (cases i)
    case 0
    show ?thesis by (rule exI [of _ b]) (simp add: 0)
  next
    case (Suc j)
    with Cons.prems Cons.IH [of j "\<not> b"] obtain doubled where
      "luhn_sum (\<not> b) (ds[j := y]) + (if doubled then luhn_double (ds ! j) else ds ! j)
       = luhn_sum (\<not> b) ds + (if doubled then luhn_double y else y)" by auto
    then show ?thesis by (intro exI [of _ doubled]) (cases doubled; simp add: Suc)
  qed
qed simp

lemma luhn_double_inj:
  assumes "x < 10" and "y < 10" and "luhn_double x = luhn_double y" shows "x = y"
  using assms by (auto simp: luhn_double_def split: if_splits; presburger)

lemma luhn_double_digit: "x < 10 \<Longrightarrow> luhn_double x < 10"
  by (auto simp: luhn_double_def)

lemma digit_val_inj: "is_decimal c \<Longrightarrow> is_decimal c' \<Longrightarrow> digit_val c = digit_val c' \<Longrightarrow> c = c'"
  by (auto simp: is_decimal_def digit_val_def) (metis char_of_char diff_add_inverse2 le_add_diff_inverse2)

lemma mod10_shift:
  fixes a b t t' :: nat
  assumes "t' + a = t + b" "t mod 10 = 0" "t' mod 10 = 0" "a < 10" "b < 10" shows "a = b"
  using assms by presburger

text \<open>
  A number that passes the Luhn check fails it as soon as any single digit is
  changed to another.
\<close>

theorem luhn_detects_single_error:
  assumes "\<forall>c \<in> set s. is_decimal c" and "luhn_check s"
    and "i < length s" and "is_decimal c" and "c \<noteq> s ! i"
  shows "\<not> luhn_check (s[i := c])"
proof
  assume wrong: "luhn_check (s[i := c])"
  let ?ds = "rev (map digit_val s)" and ?j = "length s - Suc i"
  let ?x = "digit_val (s ! i)" and ?y = "digit_val c"
  have j: "?j < length ?ds" using assms(3) by simp
  have at: "?ds ! ?j = ?x" using assms(3) by (simp add: rev_nth)
  have upd: "rev (map digit_val (s[i := c])) = ?ds[?j := ?y]"
    using assms(3) by (simp add: map_update rev_update)
  obtain doubled where eq: "luhn_sum False (?ds[?j := ?y]) + (if doubled then luhn_double ?x else ?x)
      = luhn_sum False ?ds + (if doubled then luhn_double ?y else ?y)"
    using luhn_sum_update [OF j, of False ?y] unfolding at by blast
  have digits: "?x < 10" "?y < 10" using assms(1,3,4) by (simp_all add: digit_val_less)
  have "(if doubled then luhn_double ?x else ?x) = (if doubled then luhn_double ?y else ?y)"
    by (rule mod10_shift [OF eq])
       (use assms(2) wrong digits in
         \<open>simp_all add: luhn_check_def luhn_total_sum luhn_double_digit flip: upd\<close>)
  then have "?x = ?y" using digits luhn_double_inj by (cases doubled) auto
  with assms show False using digit_val_inj by simp
qed

theorem luhn_detects_single_error_witness:
  "luhn_check ''4111111111111111'' \<and> \<not> luhn_check (''4111111111111111''[3 := CHR ''2''])"
proof -
  have ok: "luhn_check ''4111111111111111''" "\<forall>c \<in> set ''4111111111111111''. is_decimal c"
    "is_decimal (CHR ''2'')" by code_simp+
  from luhn_detects_single_error [OF ok(2,1) _ ok(3), of 3] ok(1) show ?thesis by simp
qed

end
