(* ===== verification/Py_Canon.thy ===== *)
theory Py_Canon
  imports Py_Regex
begin

section \<open>Canonical text\<close>

text \<open>
  The normal form the code compares text in: \<open>re.sub(r"\s+", " ", s).strip().casefold()\<close>.
  It is shown to be the words of the text joined by single blanks, in lower case, which is what
  the arguments about it use.
\<close>

definition whitespace_re :: regex where
  "whitespace_re = plus (Cls is_space)"

definition blank :: string where
  "blank = '' ''"

definition squeeze :: "string \<Rightarrow> string" where
  "squeeze s = re_sub whitespace_re (\<lambda>_. blank) s"

definition canonical_text :: "string \<Rightarrow> string" where
  "canonical_text s = casefold (strip (squeeze s))"

subsection \<open>A greedy class takes the longest run\<close>

lemma more_rounds_class:
  assumes "\<And>p. step p = (case ps_after p of [] \<Rightarrow> []
      | c # cs \<Rightarrow> if P c then [p\<lparr>ps_before := c # ps_before p, ps_after := cs\<rparr>] else [])"
  shows "length (ps_after p) \<le> n \<Longrightarrow>
   \<exists>qs. more_rounds step n p =
     p\<lparr>ps_before := rev (takeWhile P (ps_after p)) @ ps_before p,
       ps_after := dropWhile P (ps_after p)\<rparr> # qs"
proof (induction n arbitrary: p)
  case (Suc n)
  show ?case
  proof (cases "ps_after p")
    case (Cons c cs)
    show ?thesis
    proof (cases "P c")
      case True
      let ?p = "p\<lparr>ps_before := c # ps_before p, ps_after := cs\<rparr>"
      obtain qs where "more_rounds step n ?p =
          ?p\<lparr>ps_before := rev (takeWhile P cs) @ c # ps_before p, ps_after := dropWhile P cs\<rparr> # qs"
        using Suc.IH [of ?p] Suc.prems Cons by auto
      moreover have "step p = [?p]" using assms [of p] Cons True by simp
      ultimately show ?thesis using Cons True by simp
    qed (use Cons assms [of p] in simp)
  qed (use assms [of p] in simp)
qed simp

lemmas more_rounds_Cls = more_rounds_class [where step = "runs (Cls P)" and P = P for P, OF runs.simps(2)]

lemma plus_Cls_run:
  assumes "P c"
  shows "\<exists>qs. runs (plus (Cls P)) (start_at bef (c # cs)) =
     \<lparr>ps_before = rev (takeWhile P cs) @ c # bef, ps_after = dropWhile P cs, ps_caps = []\<rparr> # qs"
  using assms more_rounds_Cls [of "\<lparr>ps_before = c # bef, ps_after = cs, ps_caps = []\<rparr>" "length cs" P]
  by (auto simp: start_at_def simp del: more_rounds.simps)

lemma plus_Cls_none: "\<not> P c \<Longrightarrow> runs (plus (Cls P)) (start_at bef (c # cs)) = []"
  by (simp add: start_at_def)

subsection \<open>Squeezing blanks\<close>

function squeezed :: "string \<Rightarrow> string" where
  "squeezed [] = []"
| "squeezed (c # cs) =
     (if is_space c then CHR '' '' # squeezed (dropWhile is_space cs) else c # squeezed cs)"
  by pat_completeness auto
termination
  by (relation "measure length") (simp_all add: le_imp_less_Suc length_dropWhile_le)

lemma rebuild_squeezed: "rebuild (\<lambda>_. blank) (segments whitespace_re bef s) = squeezed s"
proof (induction s arbitrary: bef rule: squeezed.induct)
  case (2 c cs)
  show ?case
  proof (cases "is_space c")
    case True
    obtain qs where run: "runs whitespace_re (start_at bef (c # cs)) =
       \<lparr>ps_before = rev (takeWhile is_space cs) @ c # bef, ps_after = dropWhile is_space cs,
         ps_caps = []\<rparr> # qs"
      using plus_Cls_run [of is_space, OF True] unfolding whitespace_re_def by blast
    have "length (dropWhile is_space cs) \<le> length cs" by (rule length_dropWhile_le)
    then show ?thesis
      using 2(1) [OF True] True by (simp add: run blank_def)
  next
    case False
    then have "runs whitespace_re (start_at bef (c # cs)) = []"
      unfolding whitespace_re_def by (rule plus_Cls_none)
    with 2(2) [OF False] False show ?thesis by simp
  qed
qed simp

lemma squeeze_eq: "squeeze s = squeezed s"
  by (simp add: squeeze_def re_sub_def rebuild_squeezed)

lemma split_go_nonspace:
  "\<forall>c \<in> set u. \<not> is_space c \<Longrightarrow> split_go w (u @ s) = split_go (rev u @ w) s"
  by (induction u arbitrary: w) auto

lemma split_go_dropWhile: "split_go [] (dropWhile is_space s) = split_go [] s"
  by (induction s) auto

lemma is_space_blank [simp]: "is_space (CHR '' '')"
  by code_simp

lemma split_go_squeezed: "split_go w (squeezed s) = split_go w s"
proof (induction s arbitrary: w rule: squeezed.induct)
  case (2 c cs)
  show ?case
  proof (cases "is_space c")
    case True
    with 2(1) [OF True, of "[]"] show ?thesis by (simp add: split_go_dropWhile)
  qed (use 2(2) in simp)
qed simp

lemma split_ws_squeeze [simp]: "split_ws (squeeze s) = split_ws s"
  by (simp add: split_ws_def squeeze_eq split_go_squeezed)

text \<open>Stripping the squeezed text leaves the words joined by single blanks.\<close>

lemma lstrip_squeezed: "lstrip (squeezed s) = squeezed (dropWhile is_space s)"
proof (induction s rule: squeezed.induct)
  case (2 c cs)
  show ?case
  proof (cases "is_space c")
    case True
    have "squeezed (dropWhile is_space cs) = lstrip (squeezed (dropWhile is_space cs))"
    proof (cases "dropWhile is_space cs")
      case (Cons d ds)
      then have "\<not> is_space d" by (rule dropWhile_hd)
      with Cons show ?thesis by (simp add: lstrip_def)
    qed (simp only: squeezed.simps lstrip_def dropWhile.simps)
    with True show ?thesis by (simp add: lstrip_def)
  qed (simp add: lstrip_def)
qed (simp add: lstrip_def)

lemma squeezed_append:
  "\<forall>c \<in> set u. \<not> is_space c \<Longrightarrow> squeezed (u @ s) = u @ squeezed s"
  by (induction u) auto

lemma rstrip_append_word: "u \<noteq> [] \<Longrightarrow> \<not> is_space (last u) \<Longrightarrow> rstrip (u @ s) = u @ rstrip s"
proof (cases "rstrip s = []")
  case True
  moreover assume "u \<noteq> []" "\<not> is_space (last u)"
  moreover have "rev (u @ s) = rev s @ rev u" by simp
  moreover have "\<forall>c \<in> set (rev s). is_space c" using True by (simp add: rstrip_empty_iff)
  ultimately show ?thesis
    by (cases u rule: rev_cases) (auto simp: rstrip_def dropWhile_append2 dropWhile_append)
next
  case False
  then have "\<not> (\<forall>c \<in> set (rev s). is_space c)" by (simp add: rstrip_empty_iff)
  then obtain c where "c \<in> set (rev s)" "\<not> is_space c" by blast
  then show ?thesis by (simp add: rstrip_def dropWhile_append1)
qed

lemma split_word:
  assumes "u \<noteq> []" and "\<forall>c \<in> set u. \<not> is_space c" and "s = [] \<or> is_space (hd s)"
  shows "split_ws (u @ s) = u # split_ws s"
proof -
  have "split_go (rev u) s = u # split_go [] s"
    using assms(1,3) by (cases s) auto
  then show ?thesis using split_go_nonspace [OF assms(2), of "[]" s] by (simp add: split_ws_def)
qed

lemma first_word:
  assumes "\<not> is_space c"
  obtains u t where "c # cs = u @ t" "u \<noteq> []" "\<forall>x \<in> set u. \<not> is_space x" "t = [] \<or> is_space (hd t)"
proof
  let ?P = "\<lambda>x. \<not> is_space x"
  show "c # cs = takeWhile ?P (c # cs) @ dropWhile ?P (c # cs)"
    by (simp only: takeWhile_dropWhile_id)
  show "takeWhile ?P (c # cs) \<noteq> []" using assms by simp
  show "\<forall>x \<in> set (takeWhile ?P (c # cs)). \<not> is_space x" by (auto dest: set_takeWhileD)
  show "dropWhile ?P (c # cs) = [] \<or> is_space (hd (dropWhile ?P (c # cs)))"
    by (metis hd_dropWhile)
qed

lemma rstrip_squeezed_words:
  "s = [] \<or> \<not> is_space (hd s) \<Longrightarrow> rstrip (squeezed s) = join blank (split_ws s)"
proof (induction "length s" arbitrary: s rule: less_induct)
  case less
  show ?case
  proof (cases s)
    case Nil
    then show ?thesis by (simp add: rstrip_def split_ws_def)
  next
    case (Cons c cs)
    with less.prems have "\<not> is_space c" by simp
    then obtain u t where ut: "c # cs = u @ t" "u \<noteq> []" "\<forall>x \<in> set u. \<not> is_space x"
      "t = [] \<or> is_space (hd t)" by (rule first_word)
    have u: "\<not> is_space (last u)" using ut(2,3) by simp
    have sp: "split_ws s = u # split_ws t" using split_word [OF ut(2,3,4)] ut(1) Cons by simp
    have sq: "rstrip (squeezed s) = u @ rstrip (squeezed t)"
      using ut(1,2,3) u Cons by (simp add: squeezed_append rstrip_append_word)
    show ?thesis
    proof (cases t)
      case Nil
      with sp sq show ?thesis by (simp add: rstrip_def split_ws_def)
    next
      case (Cons d ds)
      with ut(4) have d: "is_space d" by simp
      let ?r = "dropWhile is_space ds"
      have t: "squeezed t = blank @ squeezed ?r" using Cons d by (simp add: blank_def)
      have ts: "split_ws t = split_ws ?r"
        using Cons d by (simp add: split_ws_def split_go_dropWhile)
      have "length ?r \<le> length ds" by (rule length_dropWhile_le)
      then have lt: "length ?r < length s" using ut(1) Cons \<open>s = c # cs\<close> by (simp flip: ut(1)) 
      have hd: "?r = [] \<or> \<not> is_space (hd ?r)" by (metis hd_dropWhile)
      have IH: "rstrip (squeezed ?r) = join blank (split_ws ?r)" by (rule less.hyps [OF lt hd])
      show ?thesis
      proof (cases ?r)
        case Nil
        have "rstrip (squeezed t) = []"
          unfolding t Nil by (simp add: blank_def rstrip_def)
        with sp sq ts Nil show ?thesis by (simp add: split_ws_def)
      next
        case (Cons e es)
        with hd have e: "\<not> is_space e" by simp
        then have "squeezed ?r \<noteq> []" and ne: "rstrip (squeezed ?r) \<noteq> []"
          using Cons by (auto simp: rstrip_empty_iff)
        have "rstrip (blank @ squeezed ?r) = blank @ rstrip (squeezed ?r)"
        proof -
          obtain x where "x \<in> set (rev (squeezed ?r))" "\<not> is_space x"
            using ne by (auto simp: rstrip_empty_iff)
          then show ?thesis by (simp add: rstrip_def dropWhile_append1)
        qed
        moreover have "split_ws ?r \<noteq> []" using IH ne by auto
        ultimately show ?thesis
          using sp sq t ts IH by (cases "split_ws ?r") (simp_all add: blank_def)
      qed
    qed
  qed
qed

lemma strip_squeeze: "strip (squeeze s) = join blank (split_ws s)"
proof -
  have "dropWhile is_space s = [] \<or> \<not> is_space (hd (dropWhile is_space s))"
    by (metis hd_dropWhile)
  from rstrip_squeezed_words [OF this] show ?thesis
    by (simp add: strip_def squeeze_eq lstrip_squeezed split_ws_def split_go_dropWhile)
qed

lemma canonical_text_words: "canonical_text s = casefold (join blank (split_ws s))"
  by (simp add: canonical_text_def strip_squeeze)

lemma canonical_text_cong: "split_ws s = split_ws t \<Longrightarrow> canonical_text s = canonical_text t"
  by (simp add: canonical_text_words)

subsection \<open>Words of joined texts\<close>

lemma split_ws_append_space:
  assumes "is_space c" shows "split_ws (s @ c # t) = split_ws s @ split_ws t"
proof -
  have "split_go w (s @ c # t) = split_go w s @ split_ws t" for w
    using assms by (induction s arbitrary: w) (simp_all add: split_ws_def)
  then show ?thesis by (simp add: split_ws_def)
qed

lemma split_ws_join:
  assumes "is_space c" shows "split_ws (join [c] ps) = concat (map split_ws ps)"
  by (induction "[c]" ps rule: join.induct)
     (simp_all add: split_ws_append_space [OF assms], simp add: split_ws_def)

lemma split_ws_word: "w \<noteq> [] \<Longrightarrow> \<forall>c \<in> set w. \<not> is_space c \<Longrightarrow> split_ws w = [w]"
  using split_word [of w "[]"] by (simp add: split_ws_def)

lemma split_ws_join_words:
  assumes "\<forall>w \<in> set ws. w \<noteq> [] \<and> (\<forall>c \<in> set w. \<not> is_space c)"
  shows "split_ws (join blank ws) = ws"
proof -
  have "split_ws (join blank ws) = concat (map split_ws ws)"
    unfolding blank_def by (rule split_ws_join) simp
  also have "\<dots> = ws" using assms by (induction ws) (simp_all add: split_ws_word)
  finally show ?thesis .
qed

lemma split_ws_all_space: "(\<forall>c \<in> set s. is_space c) \<Longrightarrow> split_ws s = []"
proof -
  assume "\<forall>c \<in> set s. is_space c"
  then have "split_go [] s = []" by (induction s) auto
  then show ?thesis by (simp add: split_ws_def)
qed

lemma split_ws_append_spaces:
  "w \<noteq> [] \<Longrightarrow> \<forall>c \<in> set w. is_space c \<Longrightarrow> split_ws (s @ w @ t) = split_ws s @ split_ws t"
proof (induction w arbitrary: s)
  case (Cons c cs)
  then show ?case
    using split_ws_append_space [of c s "cs @ t"] Cons.IH [of "[]"]
    by (cases "cs = []") (simp_all add: split_ws_all_space)
qed simp

lemma split_ws_empty_iff: "split_ws s = [] \<longleftrightarrow> (\<forall>c \<in> set s. is_space c)"
proof
  assume "split_ws s = []"
  then have "concat (split_ws s) = []" by simp
  then show "\<forall>c \<in> set s. is_space c" unfolding concat_split_ws by (simp add: filter_empty_conv)
qed (rule split_ws_all_space)

lemma split_ws_strip [simp]: "split_ws (strip s) = split_ws s"
proof -
  obtain p where p: "s = p @ lstrip s" "\<forall>c \<in> set p. is_space c" using lstrip_suffix by blast
  obtain q where q: "lstrip s = strip s @ q" "\<forall>c \<in> set q. is_space c"
    using rstrip_prefix [of "lstrip s"] by (auto simp: strip_def)
  have "split_ws s = split_ws (lstrip s)"
  proof (cases "p = []")
    case False
    with split_ws_append_spaces [of p "[]" "lstrip s"] p show ?thesis by (simp add: split_ws_def)
  qed (use p in simp)
  also have "\<dots> = split_ws (strip s)"
  proof (cases "q = []")
    case False
    with split_ws_append_spaces [of q "strip s" "[]"] q show ?thesis by (simp add: split_ws_def)
  qed (use q in simp)
  finally show ?thesis by simp
qed

end
