(* ===== verification/Fact_Key.thy ===== *)
theory Fact_Key
  imports Py_Canon "HOL-Library.List_Lexorder" "HOL-Library.Char_ord"
begin

section \<open>Fact slots: the key a memory is filed under\<close>

text \<open>
  The key functions of \<open>contexta/core/pipeline.py\<close>.  JSON values are a datatype whose numbers
  carry the text \<open>str()\<close> prints for them; \<open>sha\<close> is the hexadecimal SHA-256 digest of a
  text, and \<open>show\<close> Python's \<open>str()\<close> of a list or dict.
\<close>

subsection \<open>JSON values\<close>

datatype jv = JNull | JBool bool | JNum string | JStr string | JArr "jv list" | JObj "(string \<times> jv) list"

fun jtruthy :: "jv \<Rightarrow> bool" where
  "jtruthy JNull = False"
| "jtruthy (JBool b) = b"
| "jtruthy (JNum t) = (t \<notin> {''0'', ''0.0'', ''-0.0''})"
| "jtruthy (JStr s) = (s \<noteq> [])"
| "jtruthy (JArr xs) = (xs \<noteq> [])"
| "jtruthy (JObj kvs) = (kvs \<noteq> [])"

text \<open>\<open>d.get(k)\<close>\<close>

definition jget :: "(string \<times> jv) list \<Rightarrow> string \<Rightarrow> jv" where
  "jget kvs k = (case map_of kvs k of Some v \<Rightarrow> v | None \<Rightarrow> JNull)"

fun mapping_of :: "jv \<Rightarrow> (string \<times> jv) list option" where
  "mapping_of (JObj kvs) = Some kvs"
| "mapping_of _ = None"

fun py_str :: "(jv \<Rightarrow> string) \<Rightarrow> jv \<Rightarrow> string" where
  "py_str show (JStr s) = s"
| "py_str show (JNum t) = t"
| "py_str show (JBool b) = (if b then ''True'' else ''False'')"
| "py_str show JNull = ''None''"
| "py_str show v = show v"

subsection \<open>Structural keys\<close>

fun canonical_component :: "jv \<Rightarrow> string" where
  "canonical_component (JStr s) = canonical_text s"
| "canonical_component (JNum t) = canonical_text t"
| "canonical_component _ = []"

definition key_prefix :: string where
  "key_prefix = ''sfx2:''"

definition slot_digest :: "(string \<Rightarrow> string) \<Rightarrow> string \<Rightarrow> string option" where
  "slot_digest sha slot =
     (let n = canonical_text slot in if n = [] then None else Some (key_prefix @ sha n))"

definition unit_separator :: string where
  "unit_separator = [CHR 0x1F]"

definition slot_of_fact :: "(string \<times> jv) list \<Rightarrow> string option" where
  "slot_of_fact f =
     (let subject = canonical_component (jget f ''subject'');
          predicate = canonical_component (jget f ''predicate'');
          object = canonical_component (jget f ''object'')
      in if subject = [] \<or> predicate = [] \<or> object = [] then None
         else
           let context = canonical_component (jget f ''context'')
           in Some (join unit_separator
                ([subject, predicate] @ (if context \<noteq> [] then [context] else []) @ [object])))"

definition explicit_key :: "(string \<times> jv) list \<Rightarrow> jv" where
  "explicit_key structured =
     (let a = jget structured ''fact_key'';
          e = (if jtruthy a then a else jget structured ''truth_key'')
      in case e of
           JObj kvs \<Rightarrow> if jtruthy (jget kvs ''key'') then jget kvs ''key'' else e
         | _ \<Rightarrow> e)"

definition structural_fact_key ::
  "(string \<Rightarrow> string) \<Rightarrow> (jv \<Rightarrow> string) \<Rightarrow> jv option \<Rightarrow> string option" where
  "structural_fact_key sha show data =
     (let structured = (case data of Some (JObj kvs) \<Rightarrow> kvs | _ \<Rightarrow> []);
          e = explicit_key structured
      in if jtruthy e then slot_digest sha (py_str show e)
         else
           (case mapping_of (jget structured ''fact'') of
              None \<Rightarrow> None
            | Some f \<Rightarrow>
                (case slot_of_fact f of None \<Rightarrow> None | Some slot \<Rightarrow> slot_digest sha slot)))"

record extracted_memory =
  em_type :: string
  em_title :: string
  em_content :: string
  em_entities :: "string list"
  em_tags :: "string list"
  em_structured :: "jv option"

text \<open>The text the legacy key hashes.\<close>

definition legacy_source :: "(uuid \<Rightarrow> string) \<Rightarrow> uuid \<Rightarrow> uuid \<Rightarrow> extracted_memory \<Rightarrow> string" where
  "legacy_source show_id org user m =
     (let subject = join ''|'' (sort (remdups (map (\<lambda>e. lower (strip e))
                      (filter (\<lambda>e. strip e \<noteq> []) (em_entities m)))));
          val = strip (join blank (map (\<lambda>p. lower (strip p))
                      (filter (\<lambda>p. p \<noteq> []) [em_title m, em_content m])))
      in show_id org @ '':'' @ show_id user @ '':'' @ em_type m @ '':'' @ subject @ '':'' @ val)"

definition fact_key_for_memory ::
  "(string \<Rightarrow> string) \<Rightarrow> (jv \<Rightarrow> string) \<Rightarrow> (uuid \<Rightarrow> string) \<Rightarrow> uuid \<Rightarrow> uuid \<Rightarrow> extracted_memory
   \<Rightarrow> string" where
  "fact_key_for_memory sha show show_id org user m =
     (case structural_fact_key sha show (em_structured m) of
        Some k \<Rightarrow> k
      | None \<Rightarrow> sha (legacy_source show_id org user m))"

text \<open>\<open>_batch_memory_key\<close>: the type and the case-folded, squeezed text.\<close>

definition batch_memory_key :: "extracted_memory \<Rightarrow> string \<times> string" where
  "batch_memory_key m =
     (em_type m, strip (squeeze (casefold (em_title m @ [CHR 0x0A] @ em_content m))))"

subsection \<open>Words of canonical text\<close>

definition fold_char :: "char \<Rightarrow> string" where
  "fold_char c = (if code c = 223 then ''ss'' else [lower_char c])"

lemma casefold_fold: "casefold s = concat (map fold_char s)"
  by (simp add: casefold_def fold_char_def [abs_def])

lemma casefold_append: "casefold (s @ t) = casefold s @ casefold t"
  by (simp add: casefold_fold)

lemma casefold_Nil [simp]: "casefold [] = []"
  by (simp add: casefold_fold)

lemma fold_char_nonspace: "\<not> is_space c \<Longrightarrow> \<forall>d \<in> set (fold_char c). \<not> is_space d"
  by (auto simp: fold_char_def is_space_def code_lower_char is_upper_letter_def split: if_splits)

lemma fold_char_nonempty [simp]: "fold_char c \<noteq> []"
  by (simp add: fold_char_def)

lemma fold_char_space: "is_space c \<Longrightarrow> fold_char c = [lower_char c]"
  by (auto simp: fold_char_def is_space_def)

lemma split_go_casefold:
  "split_go (rev (casefold (rev w))) (casefold s) = map casefold (split_go w s)"
  if "\<forall>c \<in> set w. \<not> is_space c"
  using that
proof (induction s arbitrary: w)
  case Nil
  have "casefold (rev w) = [] \<longleftrightarrow> w = []" by (simp add: casefold_fold)
  then show ?case by simp
next
  case (Cons c cs)
  have ne: "casefold (rev w) = [] \<longleftrightarrow> w = []" by (simp add: casefold_fold)
  show ?case
  proof (cases "is_space c")
    case True
    then have "casefold (c # cs) = lower_char c # casefold cs"
      by (simp add: casefold_fold fold_char_space)
    with True Cons.IH [of "[]"] ne show ?thesis by simp
  next
    case False
    have "casefold (c # cs) = fold_char c @ casefold cs" by (simp add: casefold_fold)
    then have "split_go (rev (casefold (rev w))) (casefold (c # cs))
        = split_go (rev (fold_char c) @ rev (casefold (rev w))) (casefold cs)"
      by (simp add: split_go_nonspace [OF fold_char_nonspace [OF False]])
    also have "rev (fold_char c) @ rev (casefold (rev w)) = rev (casefold (rev (c # w)))"
      by (simp add: casefold_fold)
    also have "split_go \<dots> (casefold cs) = map casefold (split_go (c # w) cs)"
      using False Cons.prems by (intro Cons.IH) simp
    finally show ?thesis using False by simp
  qed
qed

lemma split_ws_casefold [simp]: "split_ws (casefold s) = map casefold (split_ws s)"
  using split_go_casefold [of "[]" s] by (simp add: split_ws_def)

lemma fold_char_idem: "casefold (fold_char c) = fold_char c"
proof (cases "code c = 223")
  case True
  have "casefold ''ss'' = ''ss''" by code_simp
  with True show ?thesis by (simp add: fold_char_def)
next
  case False
  then have "code (lower_char c) \<noteq> 223"
    by (auto simp: code_lower_char is_upper_letter_def)
  with False show ?thesis by (simp add: fold_char_def casefold_fold)
qed

lemma casefold_idem [simp]: "casefold (casefold s) = casefold s"
proof (induction s)
  case (Cons c cs)
  have "casefold (c # cs) = fold_char c @ casefold cs" by (simp add: casefold_fold)
  then show ?case using Cons by (simp add: casefold_append fold_char_idem)
qed simp

lemma split_ws_canonical [simp]: "split_ws (canonical_text s) = map casefold (split_ws s)"
  by (simp add: canonical_text_words split_ws_join_words split_ws_words)

lemma casefold_join: "casefold (join blank ws) = join blank (map casefold ws)"
proof -
  have "casefold (CHR '' '' # s) = CHR '' '' # casefold s" for s
  proof -
    have "fold_char (CHR '' '') = '' ''" by code_simp
    then show ?thesis by (simp add: casefold_fold)
  qed
  then show ?thesis
    by (induction blank ws rule: join.induct) (simp_all add: casefold_append blank_def)
qed

lemma canonical_text_fold_words:
  "canonical_text s = join blank (map casefold (split_ws s))"
  by (simp add: canonical_text_words casefold_join)

lemma canonical_text_idem [simp]: "canonical_text (canonical_text s) = canonical_text s"
  by (simp only: canonical_text_fold_words [of "canonical_text s"] split_ws_canonical)
     (simp add: canonical_text_fold_words o_def)

lemma canonical_text_empty_iff: "canonical_text s = [] \<longleftrightarrow> split_ws s = []"
proof
  assume "canonical_text s = []"
  then have "split_ws (canonical_text s) = []" by (simp add: split_ws_def)
  then show "split_ws s = []" by simp
qed (simp add: canonical_text_words)

subsection \<open>The words a structural key is made of\<close>

lemma is_space_unit_separator: "is_space (CHR 0x1F)"
  by code_simp

lemma slot_words:
  "split_ws (join unit_separator (map canonical_text ts)) = map casefold (concat (map split_ws ts))"
  unfolding unit_separator_def
  by (simp add: split_ws_join [OF is_space_unit_separator] map_concat o_def)

definition triple :: "string \<Rightarrow> string \<Rightarrow> string \<Rightarrow> jv" where
  "triple s p ob = JObj [(''fact'', JObj [(''subject'', JStr s), (''predicate'', JStr p), (''object'', JStr ob)])]"

lemma structural_key_eq:
  assumes "split_ws s \<noteq> []" and "split_ws p \<noteq> []" and "split_ws ob \<noteq> []"
  shows "structural_fact_key sha show (Some (triple s p ob)) =
     Some (key_prefix @ sha (join blank (map casefold (split_ws s @ split_ws p @ split_ws ob))))"
proof -
  let ?slot = "join unit_separator [canonical_text s, canonical_text p, canonical_text ob]"
  have words: "split_ws ?slot = map casefold (split_ws s @ split_ws p @ split_ws ob)"
    using slot_words [of "[s, p, ob]"] by simp
  then have canon: "canonical_text ?slot = join blank (map casefold (split_ws s @ split_ws p @ split_ws ob))"
    by (simp add: canonical_text_fold_words o_def del: join.simps)
  have "canonical_text ?slot \<noteq> []"
    using words assms(1) by (simp add: canonical_text_empty_iff del: join.simps)
  with canon assms show ?thesis
    by (simp add: structural_fact_key_def triple_def explicit_key_def jget_def slot_of_fact_def
        slot_digest_def canonical_text_empty_iff Let_def del: join.simps)
qed

text \<open>
  The structural key of a subject, predicate and object is the digest of the
  case-folded words of the three, in order, joined by single blanks.  So case and spacing never
  split a slot, and the separator the code puts between the components does not reach the
  digest: where one component ends and the next begins is not part of the key.
\<close>

theorem structural_key_words:
  assumes "split_ws s \<noteq> []" and "split_ws p \<noteq> []" and "split_ws ob \<noteq> []"
  shows "structural_fact_key sha show (Some (triple s p ob)) =
     Some (key_prefix @ sha (join blank (map casefold (split_ws s @ split_ws p @ split_ws ob))))"
  using assms by (rule structural_key_eq)

theorem structural_key_words_witness:
  "structural_fact_key (\<lambda>x. x) (\<lambda>_. []) (Some (triple ''The  User'' ''likes'' ''Tea''))
     = Some ''sfx2:the user likes tea''"
proof -
  have w: "split_ws ''The  User'' = [''The'', ''User'']" "split_ws ''likes'' = [''likes'']"
    "split_ws ''Tea'' = [''Tea'']"
    "key_prefix @ join blank (map casefold [''The'', ''User'', ''likes'', ''Tea'']) = ''sfx2:the user likes tea''"
    by code_simp+
  show ?thesis
    using structural_key_words [of "''The  User''" "''likes''" "''Tea''" "\<lambda>x. x" "\<lambda>_. []"] w by simp
qed

text \<open>
  Two assertions about one subject with different predicates and different objects
  can share one key, whatever the digest: likes, red wine against likes red, wine.
\<close>

theorem different_triples_share_a_key:
  "\<exists>s p1 o1 p2 o2. canonical_text p1 \<noteq> canonical_text p2 \<and> canonical_text o1 \<noteq> canonical_text o2 \<and>
     structural_fact_key sha show (Some (triple s p1 o1)) =
     structural_fact_key sha show (Some (triple s p2 o2)) \<and>
     structural_fact_key sha show (Some (triple s p1 o1)) \<noteq> None"
proof -
  let ?s = "''the user''"
  have w: "split_ws ?s = [''the'', ''user'']" "split_ws ''likes'' = [''likes'']"
    "split_ws ''red wine'' = [''red'', ''wine'']" "split_ws ''likes red'' = [''likes'', ''red'']"
    "split_ws ''wine'' = [''wine'']" by code_simp+
  have d: "canonical_text ''likes'' \<noteq> canonical_text ''likes red''"
    "canonical_text ''red wine'' \<noteq> canonical_text ''wine''" by code_simp+
  have k: "structural_fact_key sha show (Some (triple ?s ''likes'' ''red wine'')) =
      structural_fact_key sha show (Some (triple ?s ''likes red'' ''wine''))"
    "structural_fact_key sha show (Some (triple ?s ''likes'' ''red wine'')) \<noteq> None"
    using w structural_key_eq [of "?s" "''likes''" "''red wine''" sha "show"]
      structural_key_eq [of "?s" "''likes red''" "''wine''" sha "show"] by simp_all
  show ?thesis using d k by blast
qed

end
