(* ===== verification/Truth_Values.thy ===== *)
theory Truth_Values
  imports Py_Canon Complex_Main
begin

section \<open>Truth: when two values are corrections of each other\<close>

text \<open>
  The value classification of \<open>contexta/core/truth/service.py\<close>.  A number is the exact
  rational its decimal text denotes (the code rounds it to a double).  Of the currency symbols
  the model's character range holds the dollar, pound and yen signs.
\<close>

subsection \<open>Numbers\<close>

definition digits_val :: "string \<Rightarrow> nat" where
  "digits_val s = fold (\<lambda>c n. 10 * n + digit_val c) s 0"

definition sign_re :: regex where "sign_re = opt (one_of ''+-'')"
definition digit_re :: regex where "digit_re = Cls is_decimal"

definition plain_number_re :: regex where
  "plain_number_re = seqs [sign_re, plus digit_re, opt (Seq (chr (CHR ''.'')) (plus digit_re))]"

text \<open>\<open>float(s)\<close> of a text the pattern above matches.\<close>

definition float_of :: "string \<Rightarrow> rat" where
  "float_of s =
     (let body = (if s \<noteq> [] \<and> hd s \<in> set ''+-'' then tl s else s);
          whole = takeWhile is_decimal body;
          frac = drop (Suc (length whole)) body;
          v = of_nat (digits_val whole) + of_nat (digits_val frac) / 10 ^ length frac
      in if s \<noteq> [] \<and> hd s = CHR ''-'' then - v else v)"

definition is_grouping :: "char \<Rightarrow> bool" where
  "is_grouping c \<longleftrightarrow> c = CHR '','' \<or> is_space c \<or> c = CHR ''_''"

definition as_number :: "string \<Rightarrow> rat option" where
  "as_number s =
     (let cleaned = filter (\<lambda>c. \<not> is_grouping c) s
      in if fullmatch plain_number_re cleaned then Some (float_of cleaned) else None)"

subsection \<open>Currency\<close>

definition currency_codes :: "string list" where
  "currency_codes =
     [''aed'', ''ars'', ''aud'', ''brl'', ''cad'', ''chf'', ''clp'', ''cny'', ''cop'', ''czk'',
      ''dkk'', ''eur'', ''gbp'', ''hkd'', ''idr'', ''ils'', ''inr'', ''jpy'', ''krw'', ''mxn'',
      ''myr'', ''ngn'', ''nok'', ''nzd'', ''pen'', ''php'', ''pln'', ''rub'', ''sar'', ''sek'',
      ''sgd'', ''thb'', ''try'', ''twd'', ''uah'', ''usd'', ''vnd'', ''zar'']"

definition is_currency_symbol :: "char \<Rightarrow> bool" where
  "is_currency_symbol c \<longleftrightarrow> code c \<in> {36, 163, 165}"

definition currency_symbol_re :: regex where
  "currency_symbol_re = Cls is_currency_symbol"

definition is_lower_ascii :: "char \<Rightarrow> bool" where
  "is_lower_ascii c \<longleftrightarrow> 97 \<le> code c \<and> code c \<le> 122"

definition currency_code_re :: regex where
  "currency_code_re = seqs [WordB, times 3 (Cls is_lower_ascii), WordB]"

definition code_tokens :: "string \<Rightarrow> string list" where
  "code_tokens s = map ht_text (finditer currency_code_re s)"

definition currency_amount :: "string \<Rightarrow> rat option" where
  "currency_amount s =
     (let has_symbol = (re_search currency_symbol_re s \<noteq> None);
          has_code = (\<exists>t \<in> set (code_tokens s). t \<in> set currency_codes)
      in if \<not> has_symbol \<and> \<not> has_code then None
         else
           let remainder = re_sub currency_symbol_re (\<lambda>_. blank) s
           in as_number (fold (\<lambda>t r. replace t blank r) (code_tokens remainder) remainder))"

subsection \<open>Kinds of value\<close>

definition year_re :: regex where
  "year_re = Alt (Seq (lit ''1'') (times 3 digit_re)) (Seq (lit ''2'') (times 3 digit_re))"

definition iso_date_re :: regex where
  "iso_date_re = seqs [times 4 digit_re, lit ''-'', Rep 1 (Some 2) digit_re, lit ''-'', Rep 1 (Some 2) digit_re,
     opt (seqs [one_of ''t '', Rep 1 (Some 2) digit_re, lit '':'', times 2 digit_re,
       opt (seqs [lit '':'', times 2 digit_re, opt (Seq (lit ''.'') (plus digit_re))]),
       opt (Alt (lit ''z'') (seqs [one_of ''+-'', times 2 digit_re, opt (lit '':''), times 2 digit_re]))])]"

definition slashed_date_re :: regex where
  "slashed_date_re = seqs [Rep 1 (Some 2) digit_re, lit ''/'', Rep 1 (Some 2) digit_re, lit ''/'',
     Rep 2 (Some 4) digit_re]"

definition date_res :: "regex list" where
  "date_res = [year_re, iso_date_re, slashed_date_re]"

definition identifier_re :: regex where
  "identifier_re = seqs [Cls (\<lambda>c. is_lower_ascii c \<or> is_decimal c),
     star (Cls (\<lambda>c. is_lower_ascii c \<or> is_decimal c \<or> c \<in> set ''._+#@/-'')), EndS]"

datatype kind = KCurrency | KDate | KNumber | KIdentifier | KText | KEmpty

record value_shape_rec =
  sh_kind :: kind
  sh_number :: "rat option"

definition value_shape :: "string \<Rightarrow> value_shape_rec" where
  "value_shape value =
     (let s = canonical_text value
      in if s = [] then \<lparr>sh_kind = KEmpty, sh_number = None\<rparr>
         else if \<exists>r \<in> set date_res. fullmatch r s then \<lparr>sh_kind = KDate, sh_number = None\<rparr>
         else
           case currency_amount s of
             Some x \<Rightarrow> \<lparr>sh_kind = KCurrency, sh_number = Some x\<rparr>
           | None \<Rightarrow>
               (case as_number s of
                  Some x \<Rightarrow> \<lparr>sh_kind = KNumber, sh_number = Some x\<rparr>
                | None \<Rightarrow>
                    if match_prefix identifier_re s then \<lparr>sh_kind = KIdentifier, sh_number = None\<rparr>
                    else \<lparr>sh_kind = KText, sh_number = None\<rparr>))"

definition is_short_text :: "string \<Rightarrow> bool" where
  "is_short_text value \<longleftrightarrow> 0 < length (split_ws value) \<and> length (split_ws value) \<le> 3"

definition numeric_kinds :: "kind list" where
  "numeric_kinds = [KCurrency, KNumber]"

definition values_comparable :: "string \<Rightarrow> string \<Rightarrow> bool" where
  "values_comparable a b =
     (let left = value_shape a; right = value_shape b
      in if sh_kind left = KEmpty \<or> sh_kind right = KEmpty then False
         else if sh_kind left \<in> set numeric_kinds \<and> sh_kind right \<in> set numeric_kinds then True
         else if sh_kind left \<noteq> sh_kind right then False
         else \<not> (sh_kind left = KText \<and> is_short_text a \<noteq> is_short_text b))"

definition values_equivalent :: "string \<Rightarrow> string \<Rightarrow> bool" where
  "values_equivalent a b =
     (case (sh_number (value_shape a), sh_number (value_shape b)) of
        (Some x, Some y) \<Rightarrow> x = y
      | _ \<Rightarrow> False)"

subsection \<open>Laws\<close>

lemma values_comparable_sym: "values_comparable a b = values_comparable b a"
proof -
  have core: "(if k = KEmpty \<or> l = KEmpty then False
      else if k \<in> set numeric_kinds \<and> l \<in> set numeric_kinds then True
      else if k \<noteq> l then False else \<not> (k = KText \<and> x \<noteq> y)) =
     (if l = KEmpty \<or> k = KEmpty then False
      else if l \<in> set numeric_kinds \<and> k \<in> set numeric_kinds then True
      else if l \<noteq> k then False else \<not> (l = KText \<and> y \<noteq> x))" for k l :: kind and x y :: bool
    by (cases k; cases l) (auto simp: numeric_kinds_def)
  show ?thesis unfolding values_comparable_def Let_def by (rule core)
qed

lemma values_equivalent_iff:
  "values_equivalent a b \<longleftrightarrow>
   (\<exists>x. sh_number (value_shape a) = Some x \<and> sh_number (value_shape b) = Some x)"
  unfolding values_equivalent_def
  by (cases "sh_number (value_shape a)"; cases "sh_number (value_shape b)") auto

lemma values_equivalent_sym: "values_equivalent a b = values_equivalent b a"
  by (auto simp only: values_equivalent_iff)

lemma values_equivalent_trans:
  "values_equivalent a b \<Longrightarrow> values_equivalent b c \<Longrightarrow> values_equivalent a c"
  by (auto simp only: values_equivalent_iff)

text \<open>Comparability only looks at the canonical text and the number of words.\<close>

lemma value_shape_canonical: "split_ws a = split_ws b \<Longrightarrow> value_shape a = value_shape b"
  by (drule canonical_text_cong) (simp only: value_shape_def)

end
