(* ===== verification/Py_Difflib.thy ===== *)
theory Py_Difflib
  imports Py_Text Complex_Main
begin

section \<open>\<open>difflib.SequenceMatcher(None, a, b).ratio()\<close>\<close>

text \<open>
  The standard library's similarity of two strings, as the code uses it: no junk function, the
  automatic junk heuristic on (characters of a \<open>b\<close> of 200 characters or more that make up
  more than one percent of it are ``popular'' and start no match).
\<close>

definition popular :: "string \<Rightarrow> char list" where
  "popular b =
     (if 200 \<le> length b
      then filter (\<lambda>c. length b div 100 + 1 < length (filter (\<lambda>d. d = c) b)) (remdups b)
      else [])"

record block =
  bk_a :: nat
  bk_b :: nat
  bk_size :: nat

text \<open>
  One row of \<open>find_longest_match\<close>: the longest runs ending at \<open>a[i]\<close> and each \<open>b[j]\<close>, from
  those of the previous row (shifted by one), and the first longest block so far.
\<close>

fun match_row ::
  "char \<Rightarrow> char list \<Rightarrow> nat \<Rightarrow> nat \<Rightarrow> nat \<Rightarrow> nat \<Rightarrow> string \<Rightarrow> nat list \<Rightarrow> block \<Rightarrow> nat list \<times> block" where
  "match_row c pop blo bhi i j (d # ds) (p # ps) best =
     (let k = (if d = c \<and> d \<notin> set pop \<and> blo \<le> j \<and> j < bhi then Suc p else 0);
          best' = (if bk_size best < k then \<lparr>bk_a = Suc i - k, bk_b = Suc j - k, bk_size = k\<rparr> else best);
          (row, best'') = match_row c pop blo bhi i (Suc j) ds ps best'
      in (k # row, best''))"
| "match_row c pop blo bhi i j _ _ best = ([], best)"

fun match_rows ::
  "string \<Rightarrow> char list \<Rightarrow> nat \<Rightarrow> nat \<Rightarrow> nat \<Rightarrow> string \<Rightarrow> nat list \<Rightarrow> block \<Rightarrow> block" where
  "match_rows b pop blo bhi i [] prev best = best"
| "match_rows b pop blo bhi i (c # cs) prev best =
     (let (row, best') = match_row c pop blo bhi i 0 b (0 # prev) best
      in match_rows b pop blo bhi (Suc i) cs row best')"

fun extend_left :: "string \<Rightarrow> string \<Rightarrow> nat \<Rightarrow> nat \<Rightarrow> nat \<Rightarrow> nat \<Rightarrow> nat \<Rightarrow> block" where
  "extend_left a b alo blo 0 j k = \<lparr>bk_a = 0, bk_b = j, bk_size = k\<rparr>"
| "extend_left a b alo blo (Suc i) j k =
     (if alo < Suc i \<and> blo < j \<and> a ! i = b ! (j - 1) then extend_left a b alo blo i (j - 1) (Suc k)
      else \<lparr>bk_a = Suc i, bk_b = j, bk_size = k\<rparr>)"

function extend_right :: "string \<Rightarrow> string \<Rightarrow> nat \<Rightarrow> nat \<Rightarrow> nat \<Rightarrow> nat \<Rightarrow> nat \<Rightarrow> nat" where
  "extend_right a b ahi bhi i j k =
     (if i + k < ahi \<and> j + k < bhi \<and> a ! (i + k) = b ! (j + k)
      then extend_right a b ahi bhi i j (Suc k) else k)"
  by pat_completeness auto
termination by (relation "measure (\<lambda>(a, b, ahi, bhi, i, j, k). ahi - (i + k))") auto

declare extend_right.simps [simp del]

definition find_longest_match :: "string \<Rightarrow> string \<Rightarrow> nat \<Rightarrow> nat \<Rightarrow> nat \<Rightarrow> nat \<Rightarrow> block" where
  "find_longest_match a b alo ahi blo bhi =
     (let m = match_rows b (popular b) blo bhi alo (take (ahi - alo) (drop alo a))
                (replicate (length b) 0) \<lparr>bk_a = alo, bk_b = blo, bk_size = 0\<rparr>;
          l = extend_left a b alo blo (bk_a m) (bk_b m) (bk_size m)
      in l\<lparr>bk_size := extend_right a b ahi bhi (bk_a l) (bk_b l) (bk_size l)\<rparr>)"

subsection \<open>A block lies inside the ranges searched\<close>

definition inside :: "nat \<Rightarrow> nat \<Rightarrow> nat \<Rightarrow> nat \<Rightarrow> block \<Rightarrow> bool" where
  "inside alo ahi blo bhi m \<longleftrightarrow>
     alo \<le> bk_a m \<and> bk_a m + bk_size m \<le> ahi \<and> blo \<le> bk_b m \<and> bk_b m + bk_size m \<le> bhi"

definition row_ok :: "nat \<Rightarrow> nat \<Rightarrow> nat \<Rightarrow> nat list \<Rightarrow> bool" where
  "row_ok n blo j ps \<longleftrightarrow> (\<forall>x < length ps. ps ! x \<le> n \<and> ps ! x \<le> j + x - blo)"

lemma row_ok_Cons: "row_ok n blo j (p # ps) \<longleftrightarrow> p \<le> n \<and> p \<le> j - blo \<and> row_ok n blo (Suc j) ps"
  by (auto simp: row_ok_def All_less_Suc2)

lemma match_row_ok:
  assumes "row_ok (i - alo) blo j ps" and "alo \<le> i" and "i < ahi" and "inside alo ahi blo bhi best"
  shows "row_ok (Suc i - alo) blo (Suc j) (fst (match_row c pop blo bhi i j ds ps best)) \<and>
     inside alo ahi blo bhi (snd (match_row c pop blo bhi i j ds ps best))"
  using assms
proof (induction c pop blo bhi i j ds ps best rule: match_row.induct)
  case (1 c pop blo bhi i j d ds p ps best)
  let ?k = "if d = c \<and> d \<notin> set pop \<and> blo \<le> j \<and> j < bhi then Suc p else 0"
  let ?best = "if bk_size best < ?k then \<lparr>bk_a = Suc i - ?k, bk_b = Suc j - ?k, bk_size = ?k\<rparr> else best"
  have p: "p \<le> i - alo" "p \<le> j - blo" "row_ok (i - alo) blo (Suc j) ps"
    using 1(2) by (simp_all add: row_ok_Cons)
  have k: "?k \<le> Suc i - alo" "?k \<le> Suc j - blo" using p 1(3) by auto
  have "inside alo ahi blo bhi ?best"
    using 1(3,4,5) p by (auto simp: inside_def)
  note IH = 1(1) [OF refl refl p(3) 1(3,4) this]
  have step: "match_row c pop blo bhi i j (d # ds) (p # ps) best =
     (?k # fst (match_row c pop blo bhi i (Suc j) ds ps ?best),
      snd (match_row c pop blo bhi i (Suc j) ds ps ?best))"
    unfolding match_row.simps Let_def by (simp only: case_prod_beta)
  show ?case unfolding step fst_conv snd_conv row_ok_Cons using IH k by blast
qed (simp_all add: row_ok_def)

lemma match_rows_ok:
  assumes "row_ok (i - alo) blo 1 prev" and "alo \<le> i" and "i + length cs \<le> ahi"
    and "inside alo ahi blo bhi best"
  shows "inside alo ahi blo bhi (match_rows b pop blo bhi i cs prev best)"
  using assms
proof (induction b pop blo bhi i cs prev best rule: match_rows.induct)
  case (2 b pop blo bhi i c cs prev best)
  have "row_ok (i - alo) blo 0 (0 # prev)" using 2(2) by (simp add: row_ok_Cons)
  then have "row_ok (Suc i - alo) blo 1 (fst (match_row c pop blo bhi i 0 b (0 # prev) best)) \<and>
     inside alo ahi blo bhi (snd (match_row c pop blo bhi i 0 b (0 # prev) best))"
    using match_row_ok [of i alo blo 0 "0 # prev" ahi bhi best c pop b] 2(3,4,5) by simp
  with 2(1) [OF refl, of "fst (match_row c pop blo bhi i 0 b (0 # prev) best)"
      "snd (match_row c pop blo bhi i 0 b (0 # prev) best)"] 2(3,4)
  show ?case by (simp add: case_prod_beta)
qed simp

lemma extend_left_ok:
  "inside alo ahi blo bhi \<lparr>bk_a = i, bk_b = j, bk_size = k\<rparr> \<Longrightarrow>
   inside alo ahi blo bhi (extend_left a b alo blo i j k)"
  by (induction a b alo blo i j k rule: extend_left.induct) (auto simp: inside_def)

lemma extend_right_ok:
  "i + k \<le> ahi \<Longrightarrow> j + k \<le> bhi \<Longrightarrow>
   i + extend_right a b ahi bhi i j k \<le> ahi \<and> j + extend_right a b ahi bhi i j k \<le> bhi"
proof (induction a b ahi bhi i j k rule: extend_right.induct)
  case (1 a b ahi bhi i j k)
  then show ?case by (subst (1 2) extend_right.simps) auto
qed

lemma find_longest_match_inside:
  assumes "alo \<le> ahi" and "blo \<le> bhi"
  shows "inside alo ahi blo bhi (find_longest_match a b alo ahi blo bhi)"
proof -
  let ?m = "match_rows b (popular b) blo bhi alo (take (ahi - alo) (drop alo a))
                (replicate (length b) 0) \<lparr>bk_a = alo, bk_b = blo, bk_size = 0\<rparr>"
  have "inside alo ahi blo bhi ?m"
    by (rule match_rows_ok) (use assms in \<open>auto simp: inside_def row_ok_def\<close>)
  then have "inside alo ahi blo bhi (extend_left a b alo blo (bk_a ?m) (bk_b ?m) (bk_size ?m))"
    by (intro extend_left_ok) (simp add: inside_def)
  then show ?thesis
    unfolding find_longest_match_def Let_def by (simp add: inside_def extend_right_ok)
qed

subsection \<open>The ratio\<close>

text \<open>The sum of the sizes of \<open>get_matching_blocks\<close> (order and merging do not change it).\<close>

function matched :: "string \<Rightarrow> string \<Rightarrow> nat \<Rightarrow> nat \<Rightarrow> nat \<Rightarrow> nat \<Rightarrow> nat" where
  "matched a b alo ahi blo bhi =
     (if \<not> (alo \<le> ahi \<and> blo \<le> bhi) then 0
      else
        let m = find_longest_match a b alo ahi blo bhi
        in if bk_size m = 0 then 0
           else bk_size m
             + (if alo < bk_a m \<and> blo < bk_b m then matched a b alo (bk_a m) blo (bk_b m) else 0)
             + (if bk_a m + bk_size m < ahi \<and> bk_b m + bk_size m < bhi
                then matched a b (bk_a m + bk_size m) ahi (bk_b m + bk_size m) bhi else 0))"
  by pat_completeness auto
termination
proof (relation "measure (\<lambda>(a, b, alo, ahi, blo, bhi). ahi - alo)", goal_cases)
  case (2 a b alo ahi blo bhi m)
  then have "inside alo ahi blo bhi m" using find_longest_match_inside [of alo ahi blo bhi a b] by simp
  with 2 show ?case by (auto simp: inside_def)
next
  case (3 a b alo ahi blo bhi m)
  then have "inside alo ahi blo bhi m" using find_longest_match_inside [of alo ahi blo bhi a b] by simp
  with 3 show ?case by (auto simp: inside_def)
qed simp

declare matched.simps [simp del]

definition similarity_ratio :: "string \<Rightarrow> string \<Rightarrow> rat" where
  "similarity_ratio a b =
     (if length a + length b = 0 then 1
      else 2 * of_nat (matched a b 0 (length a) 0 (length b)) / of_nat (length a + length b))"

lemma matched_bound:
  "alo \<le> ahi \<Longrightarrow> blo \<le> bhi \<Longrightarrow>
   matched a b alo ahi blo bhi \<le> ahi - alo \<and> matched a b alo ahi blo bhi \<le> bhi - blo"
proof (induction a b alo ahi blo bhi rule: matched.induct)
  case (1 a b alo ahi blo bhi)
  let ?m = "find_longest_match a b alo ahi blo bhi"
  have ins: "inside alo ahi blo bhi ?m" using 1(3,4) by (rule find_longest_match_inside)
  show ?case
  proof (cases "bk_size ?m = 0")
    case True
    with 1(3,4) show ?thesis by (subst (1 2) matched.simps) (simp add: Let_def)
  next
    case False
    let ?l = "if alo < bk_a ?m \<and> blo < bk_b ?m then matched a b alo (bk_a ?m) blo (bk_b ?m) else 0"
    let ?r = "if bk_a ?m + bk_size ?m < ahi \<and> bk_b ?m + bk_size ?m < bhi
                then matched a b (bk_a ?m + bk_size ?m) ahi (bk_b ?m + bk_size ?m) bhi else 0"
    have l: "?l \<le> bk_a ?m - alo" "?l \<le> bk_b ?m - blo"
      using 1(1) [OF _ refl False] 1(3,4) ins by (auto simp: inside_def)
    have r: "?r \<le> ahi - (bk_a ?m + bk_size ?m)" "?r \<le> bhi - (bk_b ?m + bk_size ?m)"
      using 1(2) [OF _ refl False] 1(3,4) ins by (auto simp: inside_def)
    have "matched a b alo ahi blo bhi = bk_size ?m + ?l + ?r"
      using 1(3,4) False by (subst matched.simps) (simp add: Let_def)
    with l r ins show ?thesis by (simp only: inside_def) arith
  qed
qed

lemma similarity_ratio_range: "0 \<le> similarity_ratio a b \<and> similarity_ratio a b \<le> 1"
proof (cases "length a + length b = 0")
  case False
  have "2 * matched a b 0 (length a) 0 (length b) \<le> length a + length b"
    using matched_bound [of 0 "length a" 0 "length b" a b] by simp
  then have "(of_nat (2 * matched a b 0 (length a) 0 (length b)) :: rat) \<le> of_nat (length a + length b)"
    by (simp only: of_nat_le_iff)
  with False show ?thesis by (simp add: similarity_ratio_def divide_le_eq)
qed (simp add: similarity_ratio_def)

end
