(* ===== verification/Truth_Service.thy ===== *)
theory Truth_Service
  imports Fact_Key Truth_Values Py_Difflib
begin

section \<open>Truth: deciding, closing and recording supersession\<close>

text \<open>
  \<open>contexta/core/truth/service.py\<close> on the part of \<open>memory_record\<close> it reads and writes, with
  the repository queries it calls (\<open>contexta/repositories/memory_repo.py\<close>), which are the ones
  of the real repository; the fallbacks for repositories without them are not modelled.
  Rows are as the repository hands them out, with \<open>mm_content\<close> decrypted; the encryption of the
  column, and the error a row raises that cannot be decrypted there, are not modelled.
  \<open>mm_plain\<close> is what \<open>plaintext_content\<close> yields, \<open>None\<close> when decryption fails.
\<close>

subsection \<open>Rows\<close>

record memory =
  mm_id :: uuid
  mm_org :: uuid
  mm_user :: uuid
  mm_type :: string
  mm_title :: string
  mm_content :: string
  mm_plain :: "string option"
  mm_structured :: "jv option"
  mm_importance :: rat
  mm_valid_from :: instant
  mm_valid_to :: "instant option"
  mm_fact_key :: "string option"
  mm_created_at :: instant
  mm_archived :: bool
  mm_tags :: "string list"
  mm_search_text :: string
  mm_updated_at :: instant

record version =
  vr_id :: uuid
  vr_memory :: uuid
  vr_superseded_by :: "uuid option"
  vr_content :: string
  vr_structured :: "jv option"
  vr_importance :: rat
  vr_valid_from :: instant
  vr_valid_to :: instant

record audit =
  au_org :: uuid
  au_actor :: uuid
  au_target :: uuid
  au_new :: uuid
  au_old_content :: string
  au_new_content :: string
  au_fact_key :: "string option"
  au_version :: uuid

record memory_db =
  memories :: "memory list"
  versions :: "version list"
  audits :: "audit list"

abbreviation get_memory :: "memory_db \<Rightarrow> uuid \<Rightarrow> memory option" where
  "get_memory d \<equiv> tget mm_id (memories d)"

definition set_memory :: "memory \<Rightarrow> memory_db \<Rightarrow> memory_db" where
  "set_memory m d = d\<lparr>memories := tput mm_id m (memories d)\<rparr>"

interpretation memory_store: row_store mm_id get_memory set_memory
  by unfold_locales (auto simp: set_memory_def tget_tput)

lemma set_memory_sel [table_simps]:
  "memories (set_memory m d) = tput mm_id m (memories d)"
  "versions (set_memory m d) = versions d" "audits (set_memory m d) = audits d"
  by (simp_all add: set_memory_def)

subsection \<open>What a memory asserts\<close>

definition newline :: string where "newline = [CHR 0x0A]"

definition readable_content :: "memory \<Rightarrow> string" where
  "readable_content m = (case mm_plain m of Some t \<Rightarrow> t | None \<Rightarrow> [])"

text \<open>The first of \<open>_FACT_VALUE_KEYS\<close> that holds a non-blank string.\<close>

fun first_text :: "(string \<times> jv) list \<Rightarrow> string list \<Rightarrow> string option" where
  "first_text kvs [] = None"
| "first_text kvs (k # ks) =
     (case jget kvs k of
        JStr s \<Rightarrow> if strip s \<noteq> [] then Some s else first_text kvs ks
      | _ \<Rightarrow> first_text kvs ks)"

definition structured_of :: "jv option \<Rightarrow> (string \<times> jv) list option" where
  "structured_of data = (case data of Some v \<Rightarrow> mapping_of v | None \<Rightarrow> None)"

definition asserted_value :: "string \<Rightarrow> string \<Rightarrow> jv option \<Rightarrow> string" where
  "asserted_value title text data =
     (let whole = canonical_text (title @ newline @ text)
      in case structured_of data of
           None \<Rightarrow> whole
         | Some kvs \<Rightarrow>
             (case first_text kvs [''fact_value'', ''value''] of
                Some s \<Rightarrow> canonical_text s | None \<Rightarrow> whole))"

definition fact_value :: "memory \<Rightarrow> string" where
  "fact_value m = asserted_value (mm_title m) (readable_content m) (mm_structured m)"

abbreviation structured_map :: "memory \<Rightarrow> (string \<times> jv) list option" where
  "structured_map m \<equiv> structured_of (mm_structured m)"

definition extraction_status :: "memory \<Rightarrow> string" where
  "extraction_status m =
     (case structured_map m of
        None \<Rightarrow> []
      | Some kvs \<Rightarrow>
          (case first_text kvs [''status''] of
             Some s \<Rightarrow> canonical_text s
           | None \<Rightarrow>
               (case mapping_of (jget kvs ''fact'') of
                  None \<Rightarrow> []
                | Some f \<Rightarrow> (case first_text f [''status''] of Some s \<Rightarrow> canonical_text s | None \<Rightarrow> []))))"

fun strictly_after :: "instant option \<Rightarrow> instant option \<Rightarrow> bool" where
  "strictly_after (Some later) (Some earlier) = (earlier < later)"
| "strictly_after _ _ = False"

definition refuses_to_close ::
  "string \<Rightarrow> string \<Rightarrow> instant option \<Rightarrow> instant option \<Rightarrow> bool" where
  "refuses_to_close candidate_status incumbent_status candidate_from incumbent_from =
     (if candidate_status = ''superseded'' then
        (if incumbent_status \<noteq> ''current'' then False
         else \<not> strictly_after candidate_from incumbent_from)
      else if candidate_status = ''temporary'' \<and> incumbent_status = ''current'' then True
      else case (candidate_from, incumbent_from) of
             (Some c, Some i) \<Rightarrow> c < i | _ \<Rightarrow> False)"

subsection \<open>Contradiction\<close>

definition slot_contradicts :: "memory \<Rightarrow> memory \<Rightarrow> bool" where
  "slot_contradicts new old =
     (let a = fact_value new; b = fact_value old
      in if a = b then False
         else if values_equivalent a b then False
         else values_comparable a b)"

definition simple_contradicts :: "memory \<Rightarrow> memory \<Rightarrow> bool" where
  "simple_contradicts new old =
     (let s = canonical_text (mm_title new); t = canonical_text (mm_title old)
      in if s = [] \<or> t = [] then False
         else if similarity_ratio s t < 4 / 5 then False
         else
           let a = fact_value new; b = fact_value old
           in if a = [] \<or> b = [] then False
              else if a = b then False
              else if values_equivalent a b then False
              else values_comparable a b)"

text \<open>
  What the service relies on in a detector: a restatement (the same value, or the same amount
  written differently) is no contradiction.
\<close>

locale detector =
  fixes contradicts :: "memory \<Rightarrow> memory \<Rightarrow> bool"
  assumes same_value: "fact_value a = fact_value b \<Longrightarrow> \<not> contradicts a b"
    and same_amount: "values_equivalent (fact_value a) (fact_value b) \<Longrightarrow> \<not> contradicts a b"

interpretation slot_detector: detector slot_contradicts
  by unfold_locales (simp_all add: slot_contradicts_def Let_def)

interpretation simple_detector: detector simple_contradicts
  by unfold_locales (simp_all add: simple_contradicts_def Let_def)

subsection \<open>Repository reads and the guarded close\<close>

definition get_current_by_fact_key ::
  "uuid \<Rightarrow> string \<Rightarrow> uuid \<Rightarrow> string \<Rightarrow> memory_db \<Rightarrow> memory list" where
  "get_current_by_fact_key org key user type d =
     (let k = strip key
      in if k = [] then []
         else take 50 (sort_key (\<lambda>m. - mm_valid_from m) (sort_key (\<lambda>m. - int (mm_id m))
           (filter (\<lambda>m. mm_fact_key m = Some k \<and> mm_valid_to m = None \<and> mm_user m = user
                      \<and> mm_type m = type \<and> mm_org m = org) (memories d)))))"

definition get_by_type :: "uuid \<Rightarrow> uuid \<Rightarrow> string \<Rightarrow> memory_db \<Rightarrow> memory list" where
  "get_by_type org user type d =
     take 100 (sort_key (\<lambda>m. - mm_created_at m) (sort_key mm_id
       (filter (\<lambda>m. mm_user m = user \<and> mm_type m = type \<and> mm_valid_to m = None
                  \<and> \<not> mm_archived m \<and> mm_org m = org) (memories d))))"

datatype truth_error = InvertedWindow

text \<open>
  \<open>supersede_if_current\<close> selects the row and then issues a guarded \<open>UPDATE\<close>.  Between the two
  other sessions may commit, so the halves are separate: \<open>close_check\<close> on the state read,
  \<open>close_validity\<close> on the state written to, whose answer is whether the statement hit a row.
\<close>

definition close_check :: "uuid \<Rightarrow> uuid \<Rightarrow> instant \<Rightarrow> memory_db \<Rightarrow> truth_error + bool" where
  "close_check org i valid_to d =
     (case get_memory d i of
        None \<Rightarrow> Inr False
      | Some m \<Rightarrow>
          if mm_org m \<noteq> org \<or> mm_valid_to m \<noteq> None then Inr False
          else if valid_to < mm_valid_from m then Inl InvertedWindow
          else Inr True)"

definition close_hits :: "uuid \<Rightarrow> uuid \<Rightarrow> instant \<Rightarrow> memory \<Rightarrow> bool" where
  "close_hits org i valid_to m \<longleftrightarrow>
     mm_id m = i \<and> mm_valid_to m = None \<and> mm_valid_from m \<le> valid_to \<and> mm_org m = org"

definition close_validity :: "uuid \<Rightarrow> uuid \<Rightarrow> instant \<Rightarrow> memory_db \<Rightarrow> memory_db \<times> bool" where
  "close_validity org i valid_to d =
     (d\<lparr>memories := map (\<lambda>m. if close_hits org i valid_to m then m\<lparr>mm_valid_to := Some valid_to\<rparr> else m)
                      (memories d)\<rparr>,
      list_ex (close_hits org i valid_to) (memories d))"

definition supersede_if_current ::
  "uuid \<Rightarrow> uuid \<Rightarrow> instant \<Rightarrow> memory_db \<Rightarrow> truth_error + (memory_db \<times> bool)" where
  "supersede_if_current org i valid_to d =
     ebind (close_check org i valid_to d) (\<lambda>go.
       if go then Inr (close_validity org i valid_to d) else Inr (d, False))"

definition candidate_memories :: "uuid \<Rightarrow> memory \<Rightarrow> uuid set \<Rightarrow> memory_db \<Rightarrow> memory list" where
  "candidate_memories org new excluded d =
     filter (\<lambda>m. mm_id m \<noteq> mm_id new \<and> mm_id m \<notin> excluded \<and> mm_valid_to m = None
               \<and> mm_type m = mm_type new)
       (if truthy (mm_fact_key new)
        then get_current_by_fact_key org (the (mm_fact_key new)) (mm_user new) (mm_type new) d
        else get_by_type org (mm_user new) (mm_type new) d)"

subsection \<open>Planning\<close>

record planned =
  pl_org :: uuid
  pl_actor :: uuid
  pl_new :: uuid
  pl_old :: uuid
  pl_valid_to :: instant
  pl_old_content :: string
  pl_old_structured :: "jv option"
  pl_old_importance :: rat
  pl_old_from :: instant
  pl_new_content :: string
  pl_fact_key :: "string option"

definition planned_close :: "memory \<Rightarrow> uuid option \<Rightarrow> instant \<Rightarrow> memory \<Rightarrow> planned" where
  "planned_close new actor timestamp old =
     \<lparr>pl_org = mm_org new, pl_actor = (case actor of Some a \<Rightarrow> a | None \<Rightarrow> mm_user new),
      pl_new = mm_id new, pl_old = mm_id old, pl_valid_to = timestamp,
      pl_old_content = mm_content old, pl_old_structured = mm_structured old,
      pl_old_importance = mm_importance old, pl_old_from = mm_valid_from old,
      pl_new_content = mm_content new, pl_fact_key = mm_fact_key new\<rparr>"

text \<open>The conditions a candidate must meet before its row is closed.\<close>

definition may_close :: "(memory \<Rightarrow> memory \<Rightarrow> bool) \<Rightarrow> memory \<Rightarrow> memory \<Rightarrow> bool" where
  "may_close contradicts new old \<longleftrightarrow> contradicts new old \<and>
     \<not> refuses_to_close (extraction_status new) (extraction_status old)
         (Some (mm_valid_from new)) (Some (mm_valid_from old))"

fun close_candidates ::
  "uuid \<Rightarrow> (memory \<Rightarrow> memory \<Rightarrow> bool) \<Rightarrow> memory \<Rightarrow> uuid option \<Rightarrow> instant \<Rightarrow> memory list \<Rightarrow> memory_db
   \<Rightarrow> truth_error + (memory_db \<times> planned list)" where
  "close_candidates org contradicts new actor timestamp [] d = Inr (d, [])"
| "close_candidates org contradicts new actor timestamp (old # olds) d =
     (if \<not> may_close contradicts new old
      then close_candidates org contradicts new actor timestamp olds d
      else
        ebind (supersede_if_current org (mm_id old) timestamp d) (\<lambda>(d', won).
          if \<not> won then close_candidates org contradicts new actor timestamp olds d'
          else
            ebind (close_candidates org contradicts new actor timestamp olds d')
              (\<lambda>(d'', ps). Inr (d'', planned_close new actor timestamp old # ps))))"

text \<open>The detector in use: an explicit one speaks for both paths.\<close>

definition choose_detector ::
  "(memory \<Rightarrow> memory \<Rightarrow> bool) option \<Rightarrow> memory \<Rightarrow> memory \<Rightarrow> memory \<Rightarrow> bool" where
  "choose_detector explicit new =
     (case explicit of
        Some c \<Rightarrow> c
      | None \<Rightarrow> if truthy (mm_fact_key new) then slot_contradicts else simple_contradicts)"

text \<open>\<open>_plan_one\<close>: the plan, and whether the memory must not be inserted.\<close>

definition plan_one ::
  "uuid \<Rightarrow> (memory \<Rightarrow> memory \<Rightarrow> bool) option \<Rightarrow> uuid option \<Rightarrow> instant \<Rightarrow> uuid set \<Rightarrow> memory \<Rightarrow> memory_db
   \<Rightarrow> truth_error + (memory_db \<times> planned list \<times> bool)" where
  "plan_one org explicit actor timestamp excluded new d =
     (let candidates = candidate_memories org new excluded d
      in if extraction_status new = ''superseded'' then Inr (d, [], candidates \<noteq> [])
         else
           ebind (close_candidates org (choose_detector explicit new) new actor timestamp candidates d)
             (\<lambda>(d', ps). Inr (d', ps, candidates \<noteq> [] \<and> length ps < length candidates)))"

fun plan_all ::
  "uuid \<Rightarrow> (memory \<Rightarrow> memory \<Rightarrow> bool) option \<Rightarrow> uuid option \<Rightarrow> instant \<Rightarrow> uuid set \<Rightarrow> memory list \<Rightarrow> memory_db
   \<Rightarrow> truth_error + (memory_db \<times> (uuid \<times> planned list) list \<times> uuid list)" where
  "plan_all org explicit actor timestamp excluded [] d = Inr (d, [], [])"
| "plan_all org explicit actor timestamp excluded (m # ms) d =
     ebind (plan_one org explicit actor timestamp excluded m d) (\<lambda>(d', ps, is_blocked).
     ebind (plan_all org explicit actor timestamp excluded ms d') (\<lambda>(d'', plans, blocked).
       Inr (d'', (mm_id m, ps) # plans, if is_blocked then mm_id m # blocked else blocked)))"

definition plan ::
  "uuid \<Rightarrow> (memory \<Rightarrow> memory \<Rightarrow> bool) option \<Rightarrow> uuid option \<Rightarrow> instant \<Rightarrow> uuid set \<Rightarrow> memory \<Rightarrow> memory_db
   \<Rightarrow> truth_error + (memory_db \<times> planned list)" where
  "plan org explicit actor timestamp excluded m d =
     ebind (plan_all org explicit actor timestamp excluded [m] d) (\<lambda>(d', plans, _).
       Inr (d', case map_of plans (mm_id m) of Some ps \<Rightarrow> ps | None \<Rightarrow> []))"

subsection \<open>Recording\<close>

definition version_of :: "(uuid \<Rightarrow> uuid) \<Rightarrow> planned \<Rightarrow> version" where
  "version_of gen p =
     \<lparr>vr_id = gen (pl_old p), vr_memory = pl_old p, vr_superseded_by = Some (pl_new p),
      vr_content = pl_old_content p, vr_structured = pl_old_structured p,
      vr_importance = pl_old_importance p, vr_valid_from = pl_old_from p, vr_valid_to = pl_valid_to p\<rparr>"

definition audit_of :: "uuid \<Rightarrow> planned \<Rightarrow> audit" where
  "audit_of vid p =
     \<lparr>au_org = pl_org p, au_actor = pl_actor p, au_target = pl_old p, au_new = pl_new p,
      au_old_content = pl_old_content p, au_new_content = pl_new_content p,
      au_fact_key = pl_fact_key p, au_version = vid\<rparr>"

record supersession =
  su_old :: uuid
  su_new :: uuid
  su_valid_to :: instant
  su_version :: uuid

fun record_plans ::
  "bool \<Rightarrow> (uuid \<Rightarrow> uuid) \<Rightarrow> planned list \<Rightarrow> memory_db \<Rightarrow> memory_db \<times> supersession list" where
  "record_plans audited gen [] d = (d, [])"
| "record_plans audited gen (p # ps) d =
     (let v = version_of gen p;
          d1 = d\<lparr>versions := versions d @ [v]\<rparr>;
          d2 = (if audited then d1\<lparr>audits := audits d1 @ [audit_of (vr_id v) p]\<rparr> else d1);
          (d3, recorded) = record_plans audited gen ps d2
      in (d3, \<lparr>su_old = pl_old p, su_new = pl_new p, su_valid_to = pl_valid_to p,
               su_version = vr_id v\<rparr> # recorded))"

definition apply_supersession ::
  "uuid \<Rightarrow> (memory \<Rightarrow> memory \<Rightarrow> bool) option \<Rightarrow> bool \<Rightarrow> (uuid \<Rightarrow> uuid) \<Rightarrow> uuid option \<Rightarrow> instant \<Rightarrow> uuid set
   \<Rightarrow> memory \<Rightarrow> memory_db \<Rightarrow> truth_error + (memory_db \<times> supersession list)" where
  "apply_supersession org explicit audited gen actor timestamp excluded m d =
     ebind (plan org explicit actor timestamp excluded m d)
       (\<lambda>(d', ps). Inr (record_plans audited gen ps d'))"

end
