(* ===== verification/Truth_Properties.thy ===== *)
theory Truth_Properties
  imports Truth_Service
begin

section \<open>Truth: what the supersession service promises\<close>

text \<open>
  The effect of a plan on the stored rows, the uniqueness of a close, the constraint of one
  current row per fact slot, and the direction of time.
\<close>

definition ids_ok :: "memory_db \<Rightarrow> bool" where
  "ids_ok d \<longleftrightarrow> distinct (map mm_id (memories d))"

text \<open>The effect of closing a set of rows: their validity ends, nothing else changes.\<close>

definition close_row :: "uuid set \<Rightarrow> instant \<Rightarrow> memory \<Rightarrow> memory" where
  "close_row ids t m = (if mm_id m \<in> ids then m\<lparr>mm_valid_to := Some t\<rparr> else m)"

definition rows_closed :: "uuid set \<Rightarrow> instant \<Rightarrow> memory_db \<Rightarrow> memory_db \<Rightarrow> bool" where
  "rows_closed ids t d d' \<longleftrightarrow> d' = d\<lparr>memories := map (close_row ids t) (memories d)\<rparr>"

lemma close_row_fields [simp]:
  "mm_id (close_row ids t m) = mm_id m" "mm_org (close_row ids t m) = mm_org m"
  "mm_user (close_row ids t m) = mm_user m" "mm_type (close_row ids t m) = mm_type m"
  "mm_fact_key (close_row ids t m) = mm_fact_key m"
  "mm_valid_from (close_row ids t m) = mm_valid_from m"
  by (simp_all add: close_row_def)

lemma close_row_valid_to:
  "mm_valid_to (close_row ids t m) = (if mm_id m \<in> ids then Some t else mm_valid_to m)"
  by (simp add: close_row_def)

lemma closed_refl: "rows_closed {} t d d"
  by (simp add: rows_closed_def close_row_def [abs_def])

lemma closed_trans: "rows_closed a t d d' \<Longrightarrow> rows_closed b t d' d'' \<Longrightarrow> rows_closed (a \<union> b) t d d''"
  by (auto simp: rows_closed_def close_row_def)

lemma closed_ids_ok: "rows_closed ids t d d' \<Longrightarrow> ids_ok d' = ids_ok d"
  by (simp add: rows_closed_def ids_ok_def comp_def)

lemma get_closed:
  assumes "rows_closed ids t d d'"
  shows "get_memory d' i = map_option (close_row ids t) (get_memory d i)"
proof -
  have "tget mm_id (map (close_row ids t) ms) i = map_option (close_row ids t) (tget mm_id ms i)" for ms
    by (induction ms) auto
  with assms show ?thesis by (simp add: rows_closed_def)
qed

lemma set_memory_closed:
  assumes "ids_ok d" and "get_memory d i = Some m"
  shows "rows_closed {i} t d (set_memory (m\<lparr>mm_valid_to := Some t\<rparr>) d)"
proof -
  have m: "mm_id m = i" "m \<in> set (memories d)" using tget_SomeD [OF assms(2)] by auto
  have "(if mm_id x = i then m\<lparr>mm_valid_to := Some t\<rparr> else x) = close_row {i} t x"
    if "x \<in> set (memories d)" for x
  proof (cases "mm_id x = i")
    case True
    then have "x = m" using assms tget_mem [of mm_id "memories d" x] that by (simp add: ids_ok_def)
    with True show ?thesis by (simp add: close_row_def)
  qed (simp add: close_row_def)
  then show ?thesis using m by (auto simp: rows_closed_def set_memory_def tput_def)
qed

subsection \<open>The guarded close\<close>

definition current_in :: "uuid \<Rightarrow> memory_db \<Rightarrow> uuid \<Rightarrow> bool" where
  "current_in org d i \<longleftrightarrow> (\<exists>m. get_memory d i = Some m \<and> mm_org m = org \<and> mm_valid_to m = None)"

lemma close_validity_won:
  assumes "ids_ok d" and "close_validity org i t d = (d', True)"
  shows "rows_closed {i} t d d' \<and> current_in org d i \<and>
     (\<exists>m. get_memory d i = Some m \<and> mm_valid_from m \<le> t)"
proof -
  from assms(2) obtain m where m: "m \<in> set (memories d)" "close_hits org i t m"
    by (auto simp: close_validity_def list_ex_iff)
  have only: "x = m" if "x \<in> set (memories d)" "mm_id x = i" for x
    using assms(1) that m by (auto simp: ids_ok_def close_hits_def distinct_map inj_on_def)
  have "close_hits org i t x \<longleftrightarrow> mm_id x = i" if "x \<in> set (memories d)" for x
    using only [OF that] m(2) by (auto simp: close_hits_def)
  then have "d' = d\<lparr>memories := map (close_row {i} t) (memories d)\<rparr>"
    using assms(2) by (auto simp: close_validity_def close_row_def)
  moreover have "get_memory d i = Some m"
    using m assms(1) tget_mem [of mm_id "memories d" m] by (auto simp: ids_ok_def close_hits_def)
  ultimately show ?thesis using m(2) by (auto simp: rows_closed_def current_in_def close_hits_def)
qed

lemma close_validity_lost: "close_validity org i t d = (d', False) \<Longrightarrow> d' = d"
proof -
  assume lost: "close_validity org i t d = (d', False)"
  then have "map (\<lambda>m. if close_hits org i t m then m\<lparr>mm_valid_to := Some t\<rparr> else m) (memories d) = memories d"
    by (intro map_idI) (auto simp: close_validity_def list_ex_iff)
  with lost show "d' = d" by (simp add: close_validity_def)
qed

lemma supersede_won:
  assumes "ids_ok d" and "supersede_if_current org i t d = Inr (d', True)"
  shows "rows_closed {i} t d d' \<and> current_in org d i \<and>
     (\<exists>m. get_memory d i = Some m \<and> mm_valid_from m \<le> t)"
  using assms(2) by (intro close_validity_won [OF assms(1)])
    (auto simp: supersede_if_current_def ebind_Inr_iff split: if_splits)

lemma supersede_lost: "supersede_if_current org i t d = Inr (d', False) \<Longrightarrow> d' = d"
  by (auto simp: supersede_if_current_def ebind_Inr_iff dest: close_validity_lost split: if_splits)

lemma not_current_closed: "rows_closed ids t d d' \<Longrightarrow> i \<in> ids \<Longrightarrow> \<not> current_in org d' i"
  by (auto simp: current_in_def get_closed close_row_valid_to dest: tget_key)

lemma current_before: "rows_closed ids t d d' \<Longrightarrow> current_in org d' i \<Longrightarrow> current_in org d i"
  by (fastforce simp: current_in_def get_closed close_row_valid_to split: if_splits)

text \<open>
  Attempts to close one row, by any number of sessions at once.  Attempt \<open>a\<close> acts for the
  tenant and with the end instant \<open>att a\<close> gives it; its \<open>SELECT\<close> and its \<open>UPDATE\<close> are events of
  their own, in any order with the others'.  \<open>passed\<close> holds the attempts whose check let them
  go on; the result lists the attempts whose \<open>UPDATE\<close> reported a row.
\<close>

datatype close_event = Selects nat | Updates nat

fun close_race ::
  "(nat \<Rightarrow> uuid \<times> instant) \<Rightarrow> uuid \<Rightarrow> close_event list \<Rightarrow> nat list \<Rightarrow> memory_db \<Rightarrow> memory_db \<times> nat list"
  where
  "close_race att i [] passed d = (d, [])"
| "close_race att i (Selects a # es) passed d =
     close_race att i es
       (if close_check (fst (att a)) i (snd (att a)) d = Inr True then a # passed else passed) d"
| "close_race att i (Updates a # es) passed d =
     (if a \<in> set passed
      then let (d1, won) = close_validity (fst (att a)) i (snd (att a)) d;
               (d2, winners) = close_race att i es (remove1 a passed) d1
           in (d2, if won then a # winners else winners)
      else close_race att i es passed d)"

text \<open>The attempt of the code is a read and a write with nothing in between.\<close>

lemma supersede_is_a_race:
  assumes "supersede_if_current org i t d = Inr (d', won)"
  shows "close_race (\<lambda>_. (org, t)) i [Selects 0, Updates 0] [] d = (d', if won then [0] else [])"
  using assms by (auto simp: supersede_if_current_def ebind_Inr_iff split: if_splits)

lemma closed_row_stays:
  assumes "ids_ok d" and "\<forall>org. \<not> current_in org d i"
  shows "close_race att i es passed d = (d, [])"
  using assms
proof (induction es arbitrary: passed)
  case (Cons e es)
  have "close_validity org i t d = (d, False)" for org t
  proof (cases "close_validity org i t d")
    case (Pair d' won)
    show ?thesis
      using close_validity_won [OF Cons.prems(1), of org i t d'] close_validity_lost [of org i t d d']
        Cons.prems(2) Pair by (cases won) auto
  qed
  then show ?case using Cons by (cases e) simp_all
qed simp

text \<open>
  Claim C7.  However the reads and writes of any number of attempts to close one row fall
  between each other, at most one attempt wins: either none does and the store is as it was, or
  exactly one reports the row, the row's validity ends at that attempt's instant, and nothing
  else in the store has changed.
\<close>

theorem one_close_wins:
  assumes "ids_ok d" and "close_race att i es [] d = (d', winners)"
  shows "(winners = [] \<and> d' = d) \<or>
     (\<exists>a. winners = [a] \<and> current_in (fst (att a)) d i \<and> rows_closed {i} (snd (att a)) d d')"
proof -
  have "(winners = [] \<and> d' = d) \<or>
     (\<exists>a. winners = [a] \<and> current_in (fst (att a)) d i \<and> rows_closed {i} (snd (att a)) d d')"
    if "close_race att i es passed d = (d', winners)" for es passed
    using that
  proof (induction es arbitrary: passed)
    case (Cons e es)
    show ?case
    proof (cases e)
      case (Updates a)
      obtain d1 won where v: "close_validity (fst (att a)) i (snd (att a)) d = (d1, won)"
        by (cases "close_validity (fst (att a)) i (snd (att a)) d")
      show ?thesis
      proof (cases "a \<in> set passed \<and> won")
        case True
        note w = close_validity_won [OF assms(1), of "fst (att a)" i "snd (att a)" d1]
        with v True have c: "rows_closed {i} (snd (att a)) d d1" "current_in (fst (att a)) d i" by auto
        then have "ids_ok d1" "\<forall>org. \<not> current_in org d1 i"
          using assms(1) closed_ids_ok not_current_closed by auto
        then have "close_race att i es (remove1 a passed) d1 = (d1, [])" by (rule closed_row_stays)
        with Cons.prems Updates True v have "winners = [a]" "d' = d1" by auto
        with c show ?thesis by blast
      next
        case False
        then have "won \<Longrightarrow> a \<notin> set passed" by blast
        with v close_validity_lost [of "fst (att a)" i "snd (att a)" d d1] Cons.prems Updates
        obtain passed' where "close_race att i es passed' d = (d', winners)"
          by (cases won; cases "a \<in> set passed") (auto split: prod.splits)
        then show ?thesis by (rule Cons.IH)
      qed
    qed (use Cons in auto)
  qed simp
  then show ?thesis using assms(2) .
qed

subsection \<open>What a plan closes\<close>

definition fair_plan ::
  "uuid \<Rightarrow> (memory \<Rightarrow> memory \<Rightarrow> bool) \<Rightarrow> uuid option \<Rightarrow> instant \<Rightarrow> memory_db \<Rightarrow> memory \<Rightarrow> memory list
   \<Rightarrow> planned \<Rightarrow> bool" where
  "fair_plan org contradicts actor t d new olds p \<longleftrightarrow>
     (\<exists>old \<in> set olds. p = planned_close new actor t old \<and> may_close contradicts new old \<and>
        current_in org d (mm_id old) \<and> (\<exists>m. get_memory d (mm_id old) = Some m \<and> mm_valid_from m \<le> t))"

lemma fair_plan_before:
  assumes "rows_closed ids t' d d'" and "fair_plan org c actor t d' new olds p"
  shows "fair_plan org c actor t d new olds p"
proof -
  from assms(2) obtain old m where o: "old \<in> set olds" "p = planned_close new actor t old"
    "may_close c new old" "current_in org d' (mm_id old)" "get_memory d' (mm_id old) = Some m"
    "mm_valid_from m \<le> t" unfolding fair_plan_def by blast
  from get_closed [OF assms(1), of "mm_id old"] o(5,6) obtain m' where
    "get_memory d (mm_id old) = Some m'" "mm_valid_from m' \<le> t"
    by (cases "get_memory d (mm_id old)") auto
  with o current_before [OF assms(1) o(4)] show ?thesis unfolding fair_plan_def by blast
qed

lemma fair_plan_mono: "fair_plan org c actor t d new olds p \<Longrightarrow> set olds \<subseteq> set olds' \<Longrightarrow>
   fair_plan org c actor t d new olds' p"
  unfolding fair_plan_def by blast

lemma close_candidates_spec:
  assumes "ids_ok d" and "close_candidates org c new actor t olds d = Inr (d', ps)"
  shows "rows_closed (pl_old ` set ps) t d d' \<and> distinct (map pl_old ps) \<and>
     (\<forall>p \<in> set ps. fair_plan org c actor t d new olds p \<and> current_in org d (pl_old p))"
  using assms
proof (induction olds arbitrary: d d' ps)
  case Nil
  then show ?case by (simp add: closed_refl)
next
  case (Cons old olds)
  show ?case
  proof (cases "may_close c new old")
    case False
    with Cons.prems(2) have "close_candidates org c new actor t olds d = Inr (d', ps)" by simp
    from Cons.IH [OF Cons.prems(1) this] show ?thesis
      by (auto intro: fair_plan_mono)
  next
    case True
    with Cons.prems(2) obtain d1 won where s: "supersede_if_current org (mm_id old) t d = Inr (d1, won)"
      by (auto simp: ebind_Inr_iff)
    show ?thesis
    proof (cases won)
      case False
      with s supersede_lost have "d1 = d" by auto
      with Cons.prems(2) True s False have "close_candidates org c new actor t olds d = Inr (d', ps)" by simp
      from Cons.IH [OF Cons.prems(1) this] show ?thesis by (auto intro: fair_plan_mono)
    next
      case won: True
      from Cons.prems(2) True s won obtain qs where
        r: "close_candidates org c new actor t olds d1 = Inr (d', qs)"
        and ps: "ps = planned_close new actor t old # qs"
        by (auto simp: ebind_Inr_iff)
      note w = supersede_won [OF Cons.prems(1) s [unfolded won eqTrueI [OF won]]]
      then have c1: "rows_closed {mm_id old} t d d1" by blast
      then have ok1: "ids_ok d1" using Cons.prems(1) by (simp add: closed_ids_ok)
      note IH = Cons.IH [OF ok1 r]
      have id: "pl_old (planned_close new actor t old) = mm_id old" by (simp add: planned_close_def)
      have new: "pl_old p \<noteq> mm_id old" if "p \<in> set qs" for p
        using IH that not_current_closed [OF c1, of "mm_id old" org] by auto
      have "rows_closed (pl_old ` set ps) t d d'"
        using closed_trans [OF c1 conjunct1 [OF IH]] by (simp add: ps id)
      moreover have "mm_id old \<notin> pl_old ` set qs" using new by force
      with IH have "distinct (map pl_old ps)" by (simp add: ps id)
      moreover have "fair_plan org c actor t d new (old # olds) p \<and> current_in org d (pl_old p)"
        if "p \<in> set ps" for p
      proof (cases "p = planned_close new actor t old")
        case True
        then show ?thesis using w id \<open>may_close c new old\<close> unfolding fair_plan_def by auto
      next
        case False
        with that ps have "p \<in> set qs" by simp
        with IH have "fair_plan org c actor t d1 new olds p" "current_in org d1 (pl_old p)" by auto
        then show ?thesis
          using fair_plan_before [OF c1] fair_plan_mono [of org c actor t d new olds p "old # olds"]
            current_before [OF c1] by auto
      qed
      ultimately show ?thesis by blast
    qed
  qed
qed

text \<open>The rows a candidate query returns are stored rows, current and of the memory's type.\<close>

lemma candidate_memories_mem:
  assumes "old \<in> set (candidate_memories org m excluded d)"
  shows "old \<in> set (memories d) \<and> mm_valid_to old = None \<and> mm_type old = mm_type m \<and>
    mm_org old = org \<and> mm_user old = mm_user m \<and> mm_id old \<notin> excluded \<and> mm_id old \<noteq> mm_id m"
  using assms
  by (auto simp: candidate_memories_def get_current_by_fact_key_def get_by_type_def Let_def
      split: if_splits dest!: in_set_takeD)

lemma close_row_current:
  "rows_closed ids t d d' \<Longrightarrow> m \<in> set (memories d') \<Longrightarrow> mm_valid_to m = None \<Longrightarrow>
   m \<in> set (memories d) \<and> mm_id m \<notin> ids"
  by (auto simp: rows_closed_def close_row_def split: if_splits)

text \<open>One plan item, judged against the rows stored before the plan.\<close>

definition justified ::
  "uuid \<Rightarrow> (memory \<Rightarrow> memory \<Rightarrow> bool) option \<Rightarrow> uuid option \<Rightarrow> instant \<Rightarrow> uuid set \<Rightarrow> memory_db
   \<Rightarrow> memory \<Rightarrow> planned \<Rightarrow> bool" where
  "justified org explicit actor t excluded d m p \<longleftrightarrow>
     extraction_status m \<noteq> ''superseded'' \<and>
     (\<exists>old \<in> set (memories d). p = planned_close m actor t old \<and>
        may_close (choose_detector explicit m) m old \<and> mm_valid_to old = None \<and> mm_org old = org \<and>
        mm_user old = mm_user m \<and> mm_type old = mm_type m \<and> mm_id old \<notin> excluded \<and> mm_id old \<noteq> mm_id m \<and>
        mm_valid_from old \<le> t)"

lemma plan_one_spec:
  assumes "ids_ok d" and "plan_one org explicit actor t excluded m d = Inr (d', ps, b)"
  shows "rows_closed (pl_old ` set ps) t d d' \<and> distinct (map pl_old ps) \<and>
     (\<forall>p \<in> set ps. justified org explicit actor t excluded d m p \<and> current_in org d (pl_old p))"
proof (cases "extraction_status m = ''superseded''")
  case True
  with assms(2) show ?thesis by (simp add: plan_one_def Let_def closed_refl)
next
  case False
  with assms(2) have c: "close_candidates org (choose_detector explicit m) m actor t
      (candidate_memories org m excluded d) d = Inr (d', ps)"
    by (auto simp: plan_one_def Let_def ebind_Inr_iff)
  note spec = close_candidates_spec [OF assms(1) c]
  have "justified org explicit actor t excluded d m p" if "p \<in> set ps" for p
  proof -
    from spec that obtain old x where o: "old \<in> set (candidate_memories org m excluded d)"
      "p = planned_close m actor t old" "may_close (choose_detector explicit m) m old"
      "get_memory d (mm_id old) = Some x" "mm_valid_from x \<le> t"
      unfolding fair_plan_def by blast
    note mem = candidate_memories_mem [OF o(1)]
    have "x = old" using o(4) tget_mem [of mm_id "memories d" old] mem assms(1) by (simp add: ids_ok_def)
    with o mem False show ?thesis unfolding justified_def by blast
  qed
  with spec show ?thesis by blast
qed

lemma justified_before:
  "rows_closed ids t' d d' \<Longrightarrow> justified org ex actor t excluded d' m p \<Longrightarrow> justified org ex actor t excluded d m p"
  unfolding justified_def using close_row_current by blast

lemma plan_all_spec:
  assumes "ids_ok d" and "plan_all org explicit actor t excluded ms d = Inr (d', plans, blocked)"
  shows "rows_closed (pl_old ` set (concat (map snd plans))) t d d' \<and>
     distinct (map pl_old (concat (map snd plans))) \<and>
     (\<forall>p \<in> set (concat (map snd plans)). current_in org d (pl_old p) \<and>
        (\<exists>m \<in> set ms. justified org explicit actor t excluded d m p))"
  using assms
proof (induction ms arbitrary: d d' plans blocked)
  case Nil
  then show ?case by (simp add: closed_refl)
next
  case (Cons m ms)
  from Cons.prems(2) obtain d1 ps b plans' blocked' where
    one: "plan_one org explicit actor t excluded m d = Inr (d1, ps, b)"
    and rest: "plan_all org explicit actor t excluded ms d1 = Inr (d', plans', blocked')"
    and plans: "plans = (mm_id m, ps) # plans'"
    by (auto simp: ebind_Inr_iff)
  note P = plan_one_spec [OF Cons.prems(1) one]
  then have c1: "rows_closed (pl_old ` set ps) t d d1" by blast
  then have "ids_ok d1" using Cons.prems(1) by (simp add: closed_ids_ok)
  note R = Cons.IH [OF this rest]
  have disj: "pl_old p \<notin> pl_old ` set ps" if "p \<in> set (concat (map snd plans'))" for p
    using R that not_current_closed [OF c1] by blast
  have "rows_closed (pl_old ` set (concat (map snd plans))) t d d'"
    using closed_trans [OF c1 conjunct1 [OF R]] by (simp add: plans image_Un)
  moreover have "pl_old ` set ps \<inter> pl_old ` set (concat (map snd plans')) = {}"
  proof (rule Int_emptyI)
    fix x assume x: "x \<in> pl_old ` set ps" "x \<in> pl_old ` set (concat (map snd plans'))"
    from x(2) obtain p where p: "x = pl_old p" "p \<in> set (concat (map snd plans'))" by (rule imageE)
    from disj [OF p(2)] x(1) p(1) show False by simp
  qed
  then have "distinct (map pl_old (concat (map snd plans)))"
    using P R by (simp add: plans del: set_concat)
  moreover have "current_in org d (pl_old p) \<and> (\<exists>m' \<in> set (m # ms). justified org explicit actor t excluded d m' p)"
    if "p \<in> set (concat (map snd plans))" for p
  proof (cases "p \<in> set ps")
    case True
    with P show ?thesis by auto
  next
    case False
    with that have "p \<in> set (concat (map snd plans'))" by (simp add: plans)
    with R obtain m' where m': "m' \<in> set ms" "current_in org d1 (pl_old p)"
      "justified org explicit actor t excluded d1 m' p" by blast
    have "justified org explicit actor t excluded d m' p" by (rule justified_before [OF c1 m'(3)])
    with m'(1) current_before [OF c1 m'(2)] show ?thesis by auto
  qed
  ultimately show ?case by blast
qed

text \<open>
  A plan closes exactly the rows it lists, each once over the whole batch, sets the
  end of their validity and changes nothing else; and each row it lists was a current row of
  the tenant and the user, of the memory's type, outside the excluded ids, that the detector
  found contradicted by a memory not itself labelled superseded, with no rule refusing the close.
\<close>

theorem plan_closes_only_contradicted:
  assumes "ids_ok d" and "plan_all org explicit actor t excluded ms d = Inr (d', plans, blocked)"
  shows "rows_closed (pl_old ` set (concat (map snd plans))) t d d' \<and>
     distinct (map pl_old (concat (map snd plans))) \<and>
     (\<forall>p \<in> set (concat (map snd plans)). current_in org d (pl_old p) \<and>
        (\<exists>m \<in> set ms. justified org explicit actor t excluded d m p))"
  using assms by (rule plan_all_spec)

text \<open>
  Time does not run backwards: whatever a plan closes began no later than the memory
  that replaces it and no later than the instant the row is closed, so the validity written for
  the old row is a proper interval.
\<close>

theorem present_never_moves_back:
  assumes "ids_ok d" and "plan_all org explicit actor t excluded ms d = Inr (d', plans, blocked)"
    and "p \<in> set (concat (map snd plans))"
  shows "pl_old_from p \<le> pl_valid_to p \<and> pl_valid_to p = t \<and>
     (\<exists>m \<in> set ms. pl_new p = mm_id m \<and> pl_old_from p \<le> mm_valid_from m)"
proof -
  from plan_all_spec [OF assms(1,2)] assms(3) obtain m where
    m: "m \<in> set ms" "justified org explicit actor t excluded d m p" by blast
  then obtain old where o: "p = planned_close m actor t old" "mm_valid_from old \<le> t"
    "may_close (choose_detector explicit m) m old" "extraction_status m \<noteq> ''superseded''"
    unfolding justified_def by blast
  then have "mm_valid_from old \<le> mm_valid_from m"
    by (auto simp: may_close_def refuses_to_close_def split: if_splits)
  with o m show ?thesis by (auto simp: planned_close_def)
qed

subsection \<open>One current row per fact slot\<close>

text \<open>The partial unique index \<open>uq_memory_record_current_fact_slot\<close>.\<close>

definition in_slot :: "uuid \<Rightarrow> uuid \<Rightarrow> string \<Rightarrow> memory \<Rightarrow> bool" where
  "in_slot org user key m \<longleftrightarrow>
     mm_org m = org \<and> mm_user m = user \<and> mm_fact_key m = Some key \<and> mm_valid_to m = None"

definition slots_ok :: "memory_db \<Rightarrow> bool" where
  "slots_ok d \<longleftrightarrow> (\<forall>org user key. length (filter (in_slot org user key) (memories d)) \<le> 1)"

definition insert_memories :: "memory list \<Rightarrow> memory_db \<Rightarrow> memory_db" where
  "insert_memories ms d = d\<lparr>memories := memories d @ ms\<rparr>"

lemma in_slot_close_row: "in_slot org user key (close_row ids t m) \<Longrightarrow> in_slot org user key m"
  by (auto simp: in_slot_def close_row_valid_to split: if_splits)

lemma slots_ok_closed:
  assumes "rows_closed ids t d d'" and "slots_ok d"
  shows "slots_ok d'"
proof -
  have "length (filter (in_slot org user key) (map (close_row ids t) ms))
      \<le> length (filter (in_slot org user key) ms)" for org user key ms
    by (induction ms) (auto dest: in_slot_close_row)
  then show ?thesis using assms by (fastforce simp: slots_ok_def rows_closed_def intro: order_trans)
qed

lemma length_filter_imp: "(\<And>x. P x \<Longrightarrow> Q x) \<Longrightarrow> length (filter P xs) \<le> length (filter Q xs)"
  by (induction xs) auto

text \<open>The rows of a memory's slot, if they have its type, are its candidates.\<close>

lemma slot_candidates:
  assumes "slots_ok d" and "mm_fact_key m = Some k" and "strip k = k" and "k \<noteq> []"
    and "x \<in> set (memories d)" and "in_slot org (mm_user m) k x"
    and "mm_type x = mm_type m" and "mm_id x \<notin> excluded" and "mm_id x \<noteq> mm_id m"
  shows "candidate_memories org m excluded d = [x]"
proof -
  let ?F = "filter (\<lambda>y. mm_fact_key y = Some k \<and> mm_valid_to y = None \<and> mm_user y = mm_user m
                      \<and> mm_type y = mm_type m \<and> mm_org y = org) (memories d)"
  have "length ?F \<le> length (filter (in_slot org (mm_user m) k) (memories d))"
    by (rule length_filter_imp) (simp add: in_slot_def)
  then have "length ?F \<le> 1" using assms(1) unfolding slots_ok_def by (meson order_trans)
  moreover have "x \<in> set ?F" using assms(5-7) by (simp add: in_slot_def)
  ultimately have F: "?F = [x]" by (cases ?F) auto
  show ?thesis
    using assms by (simp add: candidate_memories_def get_current_by_fact_key_def Let_def F in_slot_def)
qed

lemma plan_one_frees:
  assumes "ids_ok d" and "slots_ok d" and "plan_one org ex actor t excluded m d = Inr (d', ps, False)"
    and key: "mm_fact_key m = Some k" "strip k = k" "k \<noteq> []"
    and same: "\<And>x. x \<in> set (memories d) \<Longrightarrow> in_slot org (mm_user m) k x \<Longrightarrow>
        mm_type x = mm_type m \<and> mm_id x \<notin> excluded \<and> mm_id x \<noteq> mm_id m"
    and x: "x \<in> set (memories d')"
  shows "\<not> in_slot org (mm_user m) k x"
proof
  assume slot: "in_slot org (mm_user m) k x"
  have spec: "rows_closed (pl_old ` set ps) t d d'" using plan_one_spec [OF assms(1,3)] by blast
  from close_row_current [OF this x] slot have xd: "x \<in> set (memories d)" "mm_id x \<notin> pl_old ` set ps"
    by (auto simp: in_slot_def)
  have cands: "candidate_memories org m excluded d = [x]"
    using slot_candidates [OF assms(2) key xd(1) slot] same [OF xd(1) slot] by blast
  show False
  proof (cases "extraction_status m = ''superseded''")
    case True
    with assms(3) cands show False by (simp add: plan_one_def)
  next
    case False
    with assms(3) cands have "ps \<noteq> []"
      by (auto simp: plan_one_def Let_def ebind_Inr_iff)
    then obtain p where p: "p \<in> set ps" by (cases ps) auto
    from False assms(3) have "close_candidates org (choose_detector ex m) m actor t
        (candidate_memories org m excluded d) d = Inr (d', ps)"
      by (auto simp: plan_one_def Let_def ebind_Inr_iff)
    from close_candidates_spec [OF assms(1) this] p cands
    have "p = planned_close m actor t x" unfolding fair_plan_def by auto
    then have "pl_old p = mm_id x" by (simp add: planned_close_def)
    with p xd(2) show False by (metis image_eqI)
  qed
qed

text \<open>What a batch must satisfy for its slots to be its candidates' slots.\<close>

definition batch_ok :: "uuid \<Rightarrow> uuid set \<Rightarrow> memory list \<Rightarrow> memory_db \<Rightarrow> bool" where
  "batch_ok org excluded ms d \<longleftrightarrow>
     distinct (map (\<lambda>m. (mm_user m, mm_fact_key m)) ms) \<and>
     (\<forall>m \<in> set ms. mm_org m = org \<and> mm_valid_to m = None \<and>
        (\<exists>k. mm_fact_key m = Some k \<and> strip k = k \<and> k \<noteq> [] \<and>
          (\<forall>x \<in> set (memories d). in_slot org (mm_user m) k x \<longrightarrow>
             mm_type x = mm_type m \<and> mm_id x \<notin> excluded \<and> mm_id x \<noteq> mm_id m)))"

lemma plan_all_frees:
  assumes "ids_ok d" and "slots_ok d"
    and "plan_all org ex actor t excluded ms d = Inr (d', plans, blocked)"
    and "\<And>m. m \<in> set ms \<Longrightarrow> \<exists>k. mm_fact_key m = Some k \<and> strip k = k \<and> k \<noteq> [] \<and>
          (\<forall>x \<in> set (memories d). in_slot org (mm_user m) k x \<longrightarrow>
             mm_type x = mm_type m \<and> mm_id x \<notin> excluded \<and> mm_id x \<noteq> mm_id m)"
    and "m \<in> set ms" and "mm_id m \<notin> set blocked" and "mm_fact_key m = Some k"
    and "x \<in> set (memories d')"
  shows "\<not> in_slot org (mm_user m) k x"
  using assms
proof (induction ms arbitrary: d plans blocked)
  case (Cons m0 ms)
  from Cons.prems(3) obtain d1 ps b plans' blocked' where
    one: "plan_one org ex actor t excluded m0 d = Inr (d1, ps, b)"
    and rest: "plan_all org ex actor t excluded ms d1 = Inr (d', plans', blocked')"
    and bl: "blocked = (if b then mm_id m0 # blocked' else blocked')"
    by (auto simp: ebind_Inr_iff)
  have c1: "rows_closed (pl_old ` set ps) t d d1" using plan_one_spec [OF Cons.prems(1) one] by blast
  have ok1: "ids_ok d1" "slots_ok d1"
    using closed_ids_ok [OF c1] slots_ok_closed [OF c1 Cons.prems(2)] Cons.prems(1) by simp_all
  have c2: "rows_closed (pl_old ` set (concat (map snd plans'))) t d1 d'"
    using plan_all_spec [OF ok1(1) rest] by blast
  have sub: "y \<in> set (memories d)" if "y \<in> set (memories d1)" "in_slot org u key y" for y u key
    using close_row_current [OF c1 that(1)] that(2) by (simp add: in_slot_def)
  show ?case
  proof (cases "m \<in> set ms")
    case True
    have "mm_id m \<notin> set blocked'" using Cons.prems(6) by (auto simp: bl split: if_splits)
    moreover have "\<exists>k. mm_fact_key m' = Some k \<and> strip k = k \<and> k \<noteq> [] \<and>
          (\<forall>x \<in> set (memories d1). in_slot org (mm_user m') k x \<longrightarrow>
             mm_type x = mm_type m' \<and> mm_id x \<notin> excluded \<and> mm_id x \<noteq> mm_id m')"
      if "m' \<in> set ms" for m'
      using Cons.prems(4) [of m'] that sub by (metis list.set_intros(2))
    ultimately show ?thesis
      using Cons.IH [OF ok1 rest _ True _ Cons.prems(7,8)] by blast
  next
    case False
    then have m: "m = m0" using Cons.prems(5) by simp
    then have b: "\<not> b" using Cons.prems(6) by (auto simp: bl split: if_splits)
    show ?thesis
    proof
      assume slot: "in_slot org (mm_user m) k x"
      then have "x \<in> set (memories d1)"
        using close_row_current [OF c2 Cons.prems(8)] by (simp add: in_slot_def)
      moreover obtain k' where "mm_fact_key m0 = Some k'" "strip k' = k'" "k' \<noteq> []"
        "\<forall>x \<in> set (memories d). in_slot org (mm_user m0) k' x \<longrightarrow>
             mm_type x = mm_type m0 \<and> mm_id x \<notin> excluded \<and> mm_id x \<noteq> mm_id m0"
        using Cons.prems(4) [of m0] by auto
      ultimately show False
        using plan_one_frees [OF Cons.prems(1,2), of org ex actor t excluded m0 d1 ps k x]
          one b slot m Cons.prems(7) by simp
    qed
  qed
qed simp

lemma length_filter_distinct:
  assumes "distinct (map f xs)" and "\<And>x. P x \<Longrightarrow> f x = v"
  shows "length (filter P xs) \<le> 1"
  using assms(1)
proof (induction xs)
  case (Cons x xs)
  show ?case
  proof (cases "P x")
    case True
    then have "f x = v" by (rule assms(2))
    then have "\<not> P y" if "y \<in> set xs" for y
      using Cons.prems assms(2) [of y] that by (auto simp: image_iff)
    then have "filter P xs = []" by (simp add: filter_empty_conv)
    with True show ?thesis by simp
  qed (use Cons in simp)
qed simp

text \<open>
  A batch whose blocked memories are dropped can be inserted: if the store has at most
  one current row per fact slot, and the rows already in the batch's slots have the type of the
  memory that claims the slot, then after the plan and the insertion of every memory it did not
  block there is still at most one current row per slot.
\<close>

theorem unblocked_inserts_keep_slots:
  assumes "ids_ok d" and "slots_ok d" and "batch_ok org excluded ms d"
    and "plan_all org ex actor t excluded ms d = Inr (d', plans, blocked)"
  shows "slots_ok (insert_memories (filter (\<lambda>m. mm_id m \<notin> set blocked) ms) d')"
proof -
  let ?new = "filter (\<lambda>m. mm_id m \<notin> set blocked) ms"
  have old: "slots_ok d'"
    using slots_ok_closed [OF conjunct1 [OF plan_all_spec [OF assms(1,4)]] assms(2)] .
  have "length (filter (in_slot o' u k) (memories d')) + length (filter (in_slot o' u k) ?new) \<le> 1"
    for o' u k
  proof (cases "filter (in_slot o' u k) ?new")
    case Nil
    with old show ?thesis unfolding slots_ok_def by (metis add.right_neutral list.size(3))
  next
    case (Cons m rest)
    then have "m \<in> set (filter (in_slot o' u k) ?new)" by simp
    then have m: "m \<in> set ms" "mm_id m \<notin> set blocked" "in_slot o' u k m" by auto
    then have "o' = org" "mm_user m = u" "mm_fact_key m = Some k"
      using assms(3) by (auto simp: in_slot_def batch_ok_def)
    moreover have "\<not> in_slot org (mm_user m) k x" if "x \<in> set (memories d')" for x
      using plan_all_frees [OF assms(1,2,4) _ m(1,2) calculation(3) that] assms(3)
      unfolding batch_ok_def by blast
    ultimately have "filter (in_slot o' u k) (memories d') = []" by (simp add: filter_empty_conv)
    moreover have "length (filter (in_slot o' u k) ?new) \<le> 1"
    proof (rule length_filter_distinct)
      show "distinct (map (\<lambda>m. (mm_user m, mm_fact_key m)) ?new)"
        using assms(3) by (simp add: batch_ok_def distinct_map_filter)
      show "(mm_user x, mm_fact_key x) = (u, Some k)" if "in_slot o' u k x" for x
        using that by (simp add: in_slot_def)
    qed
    ultimately show ?thesis by simp
  qed
  then show ?thesis by (simp add: slots_ok_def insert_memories_def)
qed

subsection \<open>Restatements and retries\<close>

context detector
begin

lemma restatements_stay:
  assumes "\<And>old. old \<in> set olds \<Longrightarrow> fact_value new = fact_value old \<or>
      values_equivalent (fact_value new) (fact_value old)"
  shows "close_candidates org contradicts new actor t olds d = Inr (d, [])"
  using assms
proof (induction olds)
  case (Cons old olds)
  then have "\<not> may_close contradicts new old"
    using Cons.prems [of old] same_value [of new old] same_amount [of new old]
    by (auto simp: may_close_def)
  with Cons show ?case by simp
qed simp

end

lemma default_restatements_stay:
  assumes "\<And>old. old \<in> set olds \<Longrightarrow> fact_value new = fact_value old \<or>
      values_equivalent (fact_value new) (fact_value old)"
  shows "close_candidates org (choose_detector None m) new actor t olds d = Inr (d, [])"
  using slot_detector.restatements_stay [of olds new] simple_detector.restatements_stay [of olds new] assms
  by (simp add: choose_detector_def)

text \<open>
  Saying the same thing again closes nothing: when every current row the memory could
  compete with asserts the same value, or the same amount written differently, planning leaves
  the store alone and plans nothing, with a fact slot or without.
\<close>

theorem restating_closes_nothing:
  assumes "\<And>old. old \<in> set (candidate_memories org m excluded d) \<Longrightarrow>
      fact_value m = fact_value old \<or> values_equivalent (fact_value m) (fact_value old)"
  shows "plan org None actor t excluded m d = Inr (d, [])"
  using default_restatements_stay [OF assms, of "candidate_memories org m excluded d"]
  by (simp add: plan_def plan_one_def Let_def)

lemma plan_one_single:
  assumes "candidate_memories org m excluded d = [x]" and "plan_one org ex actor t excluded m d = Inr (d', ps, b)"
  shows "(d' = d \<and> ps = []) \<or> ps = [planned_close m actor t x]"
  using assms
  by (auto simp: plan_one_def Let_def ebind_Inr_iff dest: supersede_lost split: if_splits)

lemma slot_at_most_one:
  assumes "slots_ok d" and "mm_fact_key m = Some k" and "k \<noteq> []"
  shows "length (candidate_memories org m excluded d) \<le> 1"
proof -
  let ?F = "filter (\<lambda>y. mm_fact_key y = Some (strip k) \<and> mm_valid_to y = None \<and> mm_user y = mm_user m
                      \<and> mm_type y = mm_type m \<and> mm_org y = org) (memories d)"
  have "length ?F \<le> length (filter (in_slot org (mm_user m) (strip k)) (memories d))"
    by (rule length_filter_imp) (simp add: in_slot_def)
  then have F: "length ?F \<le> 1" using assms(1) unfolding slots_ok_def by (meson order_trans)
  have "length (get_current_by_fact_key org k (mm_user m) (mm_type m) d) \<le> length ?F"
    by (simp add: get_current_by_fact_key_def Let_def)
  moreover have "length (candidate_memories org m excluded d)
      \<le> length (get_current_by_fact_key org k (mm_user m) (mm_type m) d)"
    using assms(2,3) by (simp add: candidate_memories_def)
  ultimately show ?thesis using F by linarith
qed

lemma candidates_after_close:
  assumes "rows_closed ids t d d'" and "mm_fact_key m = Some k" and "k \<noteq> []"
    and "x \<in> set (candidate_memories org m excluded d')"
  shows "x \<in> set (memories d) \<and> mm_id x \<notin> ids \<and> in_slot org (mm_user m) (strip k) x \<and>
    mm_type x = mm_type m"
proof -
  from assms(2-4) have x: "x \<in> set (memories d')" "in_slot org (mm_user m) (strip k) x" "mm_type x = mm_type m"
    by (auto simp: candidate_memories_def get_current_by_fact_key_def Let_def in_slot_def
        split: if_splits dest!: in_set_takeD)
  with close_row_current [OF assms(1) x(1)] show ?thesis by (simp add: in_slot_def)
qed

text \<open>
  A retried ingestion is harmless: planning the same memory again, after its plan went
  through, closes no further row and plans nothing, so no row is snapshot twice.
\<close>

theorem retried_plan_is_empty:
  assumes "ids_ok d" and "slots_ok d" and "mm_fact_key m = Some k" and "k \<noteq> []"
    and "plan_one org ex actor t excluded m d = Inr (d', ps, b)"
  shows "\<exists>b'. plan_one org ex actor t excluded m d' = Inr (d', [], b')"
proof (cases "candidate_memories org m excluded d")
  case Nil
  with assms(5) show ?thesis by (auto simp: plan_one_def Let_def)
next
  case (Cons x rest)
  with slot_at_most_one [OF assms(2-4), of org excluded] have one: "candidate_memories org m excluded d = [x]"
    by simp
  from plan_one_single [OF one assms(5)] show ?thesis
  proof
    assume "d' = d \<and> ps = []"
    with assms(5) show ?thesis by blast
  next
    assume ps: "ps = [planned_close m actor t x]"
    then have cl: "rows_closed {mm_id x} t d d'"
      using plan_one_spec [OF assms(1,5)] by (simp add: planned_close_def)
    have x: "x \<in> set (memories d)" "in_slot org (mm_user m) (strip k) x"
      using candidates_after_close [OF closed_refl assms(3,4), of x org excluded d] one by auto
    have "candidate_memories org m excluded d' = []"
    proof (rule ccontr)
      assume "candidate_memories org m excluded d' \<noteq> []"
      then obtain y where "y \<in> set (candidate_memories org m excluded d')" by (meson list.set_sel(1))
      from candidates_after_close [OF cl assms(3,4) this]
      have y: "y \<in> set (memories d)" "mm_id y \<noteq> mm_id x" "in_slot org (mm_user m) (strip k) y" by auto
      with x have "{x, y} \<subseteq> set (filter (in_slot org (mm_user m) (strip k)) (memories d))" "x \<noteq> y" by auto
      moreover have "length (filter (in_slot org (mm_user m) (strip k)) (memories d)) \<le> 1"
        using assms(2) by (simp add: slots_ok_def)
      ultimately show False
        by (cases "filter (in_slot org (mm_user m) (strip k)) (memories d)") auto
    qed
    then show ?thesis by (auto simp: plan_one_def Let_def)
  qed
qed

subsection \<open>Lineage\<close>

lemma record_plans_spec:
  assumes "record_plans audited gen ps d = (d', sups)"
  shows "memories d' = memories d \<and> versions d' = versions d @ map (version_of gen) ps \<and>
    audits d' = audits d @ (if audited then map (\<lambda>p. audit_of (gen (pl_old p)) p) ps else []) \<and>
    sups = map (\<lambda>p. \<lparr>su_old = pl_old p, su_new = pl_new p, su_valid_to = pl_valid_to p,
                     su_version = gen (pl_old p)\<rparr>) ps"
  using assms
proof (induction ps arbitrary: d d' sups)
  case (Cons p ps)
  obtain d3 rec where r: "record_plans audited gen ps
      (if audited then d\<lparr>versions := versions d @ [version_of gen p],
         audits := audits d @ [audit_of (vr_id (version_of gen p)) p]\<rparr>
       else d\<lparr>versions := versions d @ [version_of gen p]\<rparr>) = (d3, rec)"
    by (metis surj_pair)
  from Cons.prems r have "d' = d3" and
    "sups = \<lparr>su_old = pl_old p, su_new = pl_new p, su_valid_to = pl_valid_to p,
             su_version = gen (pl_old p)\<rparr> # rec"
    by (simp_all add: Let_def version_of_def split: if_splits)
  with Cons.IH [OF r] show ?case
    by (cases audited) (simp_all add: version_of_def)
qed simp

text \<open>
  Claim C30.  Every row a supersession closes, and no other, gets one version row: the versions
  appended name the closed rows, each once, hold what the row said before it was closed and a
  validity window that ends where the row's does and does not run backwards.  With an audit
  repository one audit row is appended for each, in the same order, that names the closed row
  as its target and carries the old and the new content and the version row written; without
  one, none is.
\<close>

theorem supersession_keeps_lineage:
  assumes "ids_ok d" and "apply_supersession org ex audited gen actor t excluded m d = Inr (d', sups)"
  shows "\<exists>vs. versions d' = versions d @ vs \<and> distinct (map vr_memory vs) \<and>
     memories d' = map (close_row (vr_memory ` set vs) t) (memories d) \<and>
     (\<forall>v \<in> set vs. \<exists>old \<in> set (memories d). vr_memory v = mm_id old \<and> vr_content v = mm_content old \<and>
        vr_structured v = mm_structured old \<and> vr_superseded_by v = Some (mm_id m) \<and>
        vr_valid_from v = mm_valid_from old \<and> vr_valid_to v = t \<and> mm_valid_from old \<le> t) \<and>
     audits d' = audits d @ (if audited then map (\<lambda>v.
         \<lparr>au_org = mm_org m, au_actor = (case actor of Some a \<Rightarrow> a | None \<Rightarrow> mm_user m),
          au_target = vr_memory v, au_new = mm_id m, au_old_content = vr_content v,
          au_new_content = mm_content m, au_fact_key = mm_fact_key m, au_version = vr_id v\<rparr>) vs else []) \<and>
     map su_version sups = map vr_id vs"
proof -
  from assms(2) obtain d1 ps b where
    one: "plan_one org ex actor t excluded m d = Inr (d1, ps, b)"
    and rec: "record_plans audited gen ps d1 = (d', sups)"
    by (auto simp: apply_supersession_def plan_def ebind_Inr_iff)
  note spec = plan_one_spec [OF assms(1) one]
  note R = record_plans_spec [OF rec]
  have vm: "vr_memory (version_of gen p) = pl_old p" for p by (simp add: version_of_def)
  let ?vs = "map (version_of gen) ps"
  have "versions d' = versions d @ ?vs" "memories d' = map (close_row (vr_memory ` set ?vs) t) (memories d)"
    using R spec by (simp_all add: rows_closed_def image_image vm)
  moreover have "distinct (map vr_memory ?vs)" using spec by (simp add: comp_def vm)
  moreover have "\<exists>old \<in> set (memories d). vr_memory v = mm_id old \<and> vr_content v = mm_content old \<and>
        vr_structured v = mm_structured old \<and> vr_superseded_by v = Some (mm_id m) \<and>
        vr_valid_from v = mm_valid_from old \<and> vr_valid_to v = t \<and> mm_valid_from old \<le> t"
    if "v \<in> set ?vs" for v
  proof -
    from that obtain p where p: "p \<in> set ps" "v = version_of gen p" by auto
    with spec have "justified org ex actor t excluded d m p" by blast
    then obtain old where "old \<in> set (memories d)" "p = planned_close m actor t old" "mm_valid_from old \<le> t"
      unfolding justified_def by blast
    with p show ?thesis by (auto simp: version_of_def planned_close_def)
  qed
  moreover have "audit_of (gen (pl_old p)) p = (let v = version_of gen p in
         \<lparr>au_org = mm_org m, au_actor = (case actor of Some a \<Rightarrow> a | None \<Rightarrow> mm_user m),
          au_target = vr_memory v, au_new = mm_id m, au_old_content = vr_content v,
          au_new_content = mm_content m, au_fact_key = mm_fact_key m, au_version = vr_id v\<rparr>)"
    if "p \<in> set ps" for p
  proof -
    from spec that have "justified org ex actor t excluded d m p" by blast
    then obtain old where "p = planned_close m actor t old" unfolding justified_def by blast
    then show ?thesis by (simp add: audit_of_def version_of_def planned_close_def)
  qed
  then have "audits d' = audits d @ (if audited then map (\<lambda>v.
         \<lparr>au_org = mm_org m, au_actor = (case actor of Some a \<Rightarrow> a | None \<Rightarrow> mm_user m),
          au_target = vr_memory v, au_new = mm_id m, au_old_content = vr_content v,
          au_new_content = mm_content m, au_fact_key = mm_fact_key m, au_version = vr_id v\<rparr>) ?vs else [])"
    using R spec by (simp add: rows_closed_def Let_def)
  moreover have "map su_version sups = map vr_id ?vs"
    using R by (simp add: version_of_def comp_def)
  ultimately show ?thesis by blast
qed

subsection \<open>A demonstration store\<close>

definition demo_memory :: "uuid \<Rightarrow> string \<Rightarrow> string \<Rightarrow> instant \<Rightarrow> memory" where
  "demo_memory i type amount from =
     \<lparr>mm_id = i, mm_org = 1, mm_user = 2, mm_type = type, mm_title = ''rent'', mm_content = ''rent'',
      mm_plain = Some ''rent'', mm_structured = Some (JObj [(''value'', JStr amount)]),
      mm_importance = 1 / 2, mm_valid_from = from, mm_valid_to = None, mm_fact_key = Some ''u|pays|rent'',
      mm_created_at = from, mm_archived = False, mm_tags = [], mm_search_text = ''rent rent'',
      mm_updated_at = from\<rparr>"

definition demo_truths :: memory_db where
  "demo_truths = \<lparr>memories = [demo_memory 10 ''semantic'' ''450'' 5], versions = [], audits = []\<rparr>"

definition demo_new :: memory where
  "demo_new = demo_memory 11 ''semantic'' ''900'' 7"

definition demo_plan :: planned where
  "demo_plan = planned_close demo_new None 8 (demo_memory 10 ''semantic'' ''450'' 5)"

definition demo_closed :: memory_db where
  "demo_closed = demo_truths\<lparr>memories := [(demo_memory 10 ''semantic'' ''450'' 5)\<lparr>mm_valid_to := Some 8\<rparr>]\<rparr>"

lemma demo_ids_ok: "ids_ok demo_truths"
  by (simp add: ids_ok_def demo_truths_def)

lemma demo_slots_ok: "slots_ok demo_truths"
  by (simp add: slots_ok_def demo_truths_def)

lemma demo_plan_one: "plan_one 1 None None 8 {} demo_new demo_truths = Inr (demo_closed, [demo_plan], False)"
  by code_simp

lemma demo_fields: "mm_id demo_new = 11" "pl_old demo_plan = 10" "versions demo_closed = []"
  by (simp_all add: demo_new_def demo_memory_def demo_plan_def planned_close_def demo_closed_def demo_truths_def)

lemma demo_plan_all: "plan_all 1 None None 8 {} [demo_new] demo_truths = Inr (demo_closed, [(11, [demo_plan])], [])"
  using demo_plan_one by (simp add: demo_fields)

lemma demo_supersede: "supersede_if_current 1 10 8 demo_truths = Inr (demo_closed, True)"
  by code_simp

lemma demo_key: "strip ''u|pays|rent'' = ''u|pays|rent''"
  by code_simp

text \<open>Both attempts read the row while it is current; the second one's write finds it closed.\<close>

lemma demo_closers:
  "close_race (\<lambda>a. (1, 8 + int a)) 10 [Selects 0, Selects 1, Updates 0, Updates 1] [] demo_truths
     = (demo_closed, [0])"
  by code_simp

theorem one_close_wins_witness:
  "\<exists>d' ws. close_race (\<lambda>a. (1, 8 + int a)) 10 [Selects 0, Selects 1, Updates 0, Updates 1] [] demo_truths
     = (d', ws) \<and> ws = [0] \<and> rows_closed {10} 8 demo_truths d'"
  using demo_closers one_close_wins [OF demo_ids_ok demo_closers] by simp

theorem plan_closes_only_contradicted_witness:
  "plan_all 1 None None 8 {} [demo_new] demo_truths = Inr (demo_closed, [(11, [demo_plan])], []) \<and>
   rows_closed {10} 8 demo_truths demo_closed"
  using demo_plan_all plan_closes_only_contradicted [OF demo_ids_ok demo_plan_all]
  by (simp add: demo_plan_def planned_close_def demo_memory_def)

theorem present_never_moves_back_witness:
  "plan_all 1 None None 8 {} [demo_new] demo_truths = Inr (demo_closed, [(11, [demo_plan])], []) \<and>
   pl_old_from demo_plan \<le> pl_valid_to demo_plan"
  using demo_plan_all present_never_moves_back [OF demo_ids_ok demo_plan_all, of demo_plan] by simp

theorem unblocked_inserts_keep_slots_witness:
  "plan_all 1 None None 8 {} [demo_new] demo_truths = Inr (demo_closed, [(11, [demo_plan])], []) \<and>
   slots_ok (insert_memories [demo_new] demo_closed)"
proof -
  have "batch_ok 1 {} [demo_new] demo_truths"
    using demo_key by (simp add: batch_ok_def demo_new_def demo_memory_def demo_truths_def in_slot_def)
  from unblocked_inserts_keep_slots [OF demo_ids_ok demo_slots_ok this demo_plan_all] demo_plan_all
  show ?thesis by simp
qed

theorem restating_closes_nothing_witness:
  "plan 1 None None 8 {} (demo_memory 11 ''semantic'' ''$450.00'' 7) demo_truths = Inr (demo_truths, [])"
proof (rule restating_closes_nothing)
  have c: "candidate_memories 1 (demo_memory 11 ''semantic'' ''$450.00'' 7) {} demo_truths
      = [demo_memory 10 ''semantic'' ''450'' 5]" by code_simp
  have "values_equivalent (fact_value (demo_memory 11 ''semantic'' ''$450.00'' 7))
      (fact_value (demo_memory 10 ''semantic'' ''450'' 5))" by code_simp
  then show "fact_value (demo_memory 11 ''semantic'' ''$450.00'' 7) = fact_value old \<or>
      values_equivalent (fact_value (demo_memory 11 ''semantic'' ''$450.00'' 7)) (fact_value old)"
    if "old \<in> set (candidate_memories 1 (demo_memory 11 ''semantic'' ''$450.00'' 7) {} demo_truths)" for old
    using that unfolding c by simp
qed

theorem retried_plan_is_empty_witness:
  "plan_one 1 None None 8 {} demo_new demo_truths = Inr (demo_closed, [demo_plan], False) \<and>
   (\<exists>b. plan_one 1 None None 8 {} demo_new demo_closed = Inr (demo_closed, [], b))"
proof -
  have "mm_fact_key demo_new = Some ''u|pays|rent''" by (simp add: demo_new_def demo_memory_def)
  from retried_plan_is_empty [OF demo_ids_ok demo_slots_ok this _ demo_plan_one] demo_plan_one
  show ?thesis by simp
qed

theorem supersession_keeps_lineage_witness:
  "\<exists>d' sups. apply_supersession 1 None True Suc None 8 {} demo_new demo_truths = Inr (d', sups) \<and>
     (\<exists>v. versions d' = [v] \<and> vr_memory v = 10 \<and> vr_content v = ''rent'')"
proof -
  have "\<exists>d' sups. apply_supersession 1 None True Suc None 8 {} demo_new demo_truths = Inr (d', sups) \<and>
      map vr_memory (versions d') = [10]"
    using demo_plan_one by (simp add: apply_supersession_def plan_def Let_def version_of_def demo_fields)
  then obtain d' sups where r: "apply_supersession 1 None True Suc None 8 {} demo_new demo_truths = Inr (d', sups)"
    "map vr_memory (versions d') = [10]" by auto
  from supersession_keeps_lineage [OF demo_ids_ok r(1)] obtain vs where
    vs: "versions d' = versions demo_truths @ vs"
    "\<forall>v \<in> set vs. \<exists>old \<in> set (memories demo_truths). vr_memory v = mm_id old \<and> vr_content v = mm_content old"
    by blast
  then have "versions d' = vs" by (simp add: demo_truths_def)
  with r(2) obtain v where v: "vs = [v]" "vr_memory v = 10" by auto
  with vs(2) have "vr_content v = ''rent''" by (simp add: demo_truths_def demo_memory_def)
  with r(1) v \<open>versions d' = vs\<close> show ?thesis by blast
qed

subsection \<open>Two divergences\<close>

text \<open>
  The plan and the uniqueness constraint disagree on what a slot is: the constraint
  leaves the memory type out, the candidates do not, so a current row of the same slot and
  another type is neither closed nor blocks the memory, and the insertion violates the constraint.
\<close>

theorem retyped_fact_breaks_the_slot:
  "\<exists>d m. ids_ok d \<and> slots_ok d \<and> mm_org m = 1 \<and> mm_valid_to m = None \<and> mm_fact_key m = Some ''u|pays|rent'' \<and>
     plan_all 1 None None 8 {} [m] d = Inr (d, [(mm_id m, [])], []) \<and> \<not> slots_ok (insert_memories [m] d)"
proof (intro exI conjI)
  let ?m = "demo_memory 11 ''preference'' ''900'' 7"
  show "ids_ok demo_truths" "slots_ok demo_truths" by (rule demo_ids_ok, rule demo_slots_ok)
  show "mm_org ?m = 1" "mm_valid_to ?m = None" "mm_fact_key ?m = Some ''u|pays|rent''"
    by (simp_all add: demo_memory_def)
  show "plan_all 1 None None 8 {} [?m] demo_truths = Inr (demo_truths, [(mm_id ?m, [])], [])" by code_simp
  show "\<not> slots_ok (insert_memories [?m] demo_truths)"
    by (auto simp: slots_ok_def insert_memories_def demo_truths_def demo_memory_def in_slot_def)
qed

text \<open>
  Two plain numbers are not always comparable: one between 1000 and 2999 is taken for
  a year, so 900 corrected to 1500 is no contradiction while 900 corrected to 950 is one.
\<close>

theorem year_shaped_numbers_not_comparable:
  "values_comparable ''900'' ''950'' \<and> \<not> values_comparable ''900'' ''1500''"
proof -
  have "value_shape ''900'' = \<lparr>sh_kind = KNumber, sh_number = Some 900\<rparr>" by code_simp
  moreover have "value_shape ''950'' = \<lparr>sh_kind = KNumber, sh_number = Some 950\<rparr>" by code_simp
  moreover have "value_shape ''1500'' = \<lparr>sh_kind = KDate, sh_number = None\<rparr>" by code_simp
  ultimately show ?thesis by (simp add: values_comparable_def numeric_kinds_def)
qed

end
