(* ===== verification/Deduplication.thy ===== *)
theory Deduplication
  imports Truth_Service
begin

section \<open>Deduplication of extracted memories\<close>

text \<open>
  \<open>contexta/core/extraction/deduplication.py\<close> over the rows of \<open>memory_db\<close>, as the pipeline
  builds it: with the memory repository and a version repository.  \<open>similarity\<close> is the injected
  provider; \<open>sequence_similarity\<close> is the default one.
\<close>

datatype dedup_action = Store | Discard | Merge

record dedup_result =
  dr_action :: dedup_action
  dr_memory :: "extracted_memory option"
  dr_existing :: "uuid option"
  dr_similarity :: rat

definition sequence_similarity :: "string \<Rightarrow> string \<Rightarrow> rat" where
  "sequence_similarity left right = similarity_ratio (lower left) (lower right)"

definition duplicate_threshold :: rat where "duplicate_threshold = 95 / 100"
definition merge_threshold :: rat where "merge_threshold = 85 / 100"

definition incoming_value :: "extracted_memory \<Rightarrow> string" where
  "incoming_value m = asserted_value (em_title m) (em_content m) (em_structured m)"

definition comparison_text :: "string \<Rightarrow> string \<Rightarrow> string" where
  "comparison_text title content = strip (strip title @ newline @ strip content)"

definition slot_incumbent :: "uuid \<Rightarrow> uuid \<Rightarrow> extracted_memory \<Rightarrow> string \<Rightarrow> memory_db \<Rightarrow> memory option" where
  "slot_incumbent org user m key d =
     find (\<lambda>r. mm_valid_to r = None) (get_current_by_fact_key org key user (em_type m) d)"

fun find_best ::
  "(string \<Rightarrow> string \<Rightarrow> rat) \<Rightarrow> string \<Rightarrow> memory list \<Rightarrow> memory option \<times> rat \<Rightarrow> memory option \<times> rat" where
  "find_best similarity text [] best = best"
| "find_best similarity text (c # cs) best =
     (let score = similarity text (comparison_text (mm_title c) (mm_content c))
      in find_best similarity text cs (if snd best < score then (Some c, score) else best))"

definition find_best_match ::
  "(string \<Rightarrow> string \<Rightarrow> rat) \<Rightarrow> extracted_memory \<Rightarrow> memory list \<Rightarrow> memory option \<times> rat" where
  "find_best_match similarity m cs =
     find_best similarity (comparison_text (em_title m) (em_content m)) cs (None, 0)"

subsection \<open>Merging\<close>

definition merged_content :: "string \<Rightarrow> string \<Rightarrow> string" where
  "merged_content existing incoming =
     (if incoming \<noteq> [] \<and> \<not> contains existing incoming
      then strip (existing @ newline @ newline @ incoming) else existing)"

text \<open>\<open>{**a, **b}\<close>\<close>

definition dict_merge :: "(string \<times> jv) list \<Rightarrow> (string \<times> jv) list \<Rightarrow> (string \<times> jv) list" where
  "dict_merge a b =
     map (\<lambda>(k, v). (k, case map_of b k of Some w \<Rightarrow> w | None \<Rightarrow> v)) a @
     filter (\<lambda>(k, _). k \<notin> fst ` set a) b"

definition merged_structured :: "jv option \<Rightarrow> jv option \<Rightarrow> jv option" where
  "merged_structured existing incoming =
     (case (existing, incoming) of
        (Some (JObj a), Some (JObj b)) \<Rightarrow> Some (JObj (dict_merge a b))
      | (None, _) \<Rightarrow> incoming
      | _ \<Rightarrow> existing)"

text \<open>\<open>list(dict.fromkeys(xs))\<close>: the first occurrence of each.\<close>

fun ordered_unique :: "'a list \<Rightarrow> 'a list" where
  "ordered_unique [] = []"
| "ordered_unique (x # xs) = x # filter (\<lambda>y. y \<noteq> x) (ordered_unique xs)"

definition merge_values :: "memory \<Rightarrow> extracted_memory \<Rightarrow> instant \<Rightarrow> memory option" where
  "merge_values existing incoming updated_at =
     (let existing_content = strip (mm_content existing);
          incoming_content = strip (em_content incoming);
          content = merged_content existing_content incoming_content
      in if length content \<le> length existing_content then None
         else
           let tags = ordered_unique (mm_tags existing @ em_tags incoming);
               title = (if mm_title existing \<noteq> [] then mm_title existing else em_title incoming)
           in Some (existing\<lparr>mm_title := title, mm_content := content, mm_plain := Some content,
                mm_search_text := join blank (filter (\<lambda>p. p \<noteq> []) [title, content, join blank tags]),
                mm_structured := merged_structured (mm_structured existing) (em_structured incoming),
                mm_tags := tags, mm_updated_at := updated_at\<rparr>))"

definition pre_merge_version :: "uuid \<Rightarrow> memory \<Rightarrow> instant \<Rightarrow> version" where
  "pre_merge_version vid existing merged_at =
     \<lparr>vr_id = vid, vr_memory = mm_id existing, vr_superseded_by = None, vr_content = mm_content existing,
      vr_structured = mm_structured existing, vr_importance = mm_importance existing,
      vr_valid_from = mm_valid_from existing, vr_valid_to = merged_at\<rparr>"

text \<open>\<open>update_by_id\<close> with the columns this module writes: the row of the tenant, if it is there.\<close>

definition update_memory :: "uuid \<Rightarrow> uuid \<Rightarrow> (memory \<Rightarrow> memory) \<Rightarrow> memory_db \<Rightarrow> memory_db" where
  "update_memory org i f d =
     (case get_memory d i of
        Some m \<Rightarrow> if mm_org m = org then set_memory (f m) d else d
      | None \<Rightarrow> d)"

definition copy_columns :: "memory \<Rightarrow> memory \<Rightarrow> memory" where
  "copy_columns new m =
     m\<lparr>mm_title := mm_title new, mm_content := mm_content new, mm_plain := mm_plain new,
       mm_search_text := mm_search_text new, mm_structured := mm_structured new, mm_tags := mm_tags new,
       mm_updated_at := mm_updated_at new\<rparr>"

subsection \<open>The decision\<close>

definition dedup_within_slot ::
  "uuid \<Rightarrow> memory \<Rightarrow> extracted_memory \<Rightarrow> instant \<Rightarrow> memory_db \<Rightarrow> memory_db \<times> dedup_result" where
  "dedup_within_slot org incumbent m now d =
     (if fact_value incumbent = incoming_value m
      then (update_memory org (mm_id incumbent) (\<lambda>r. r\<lparr>mm_updated_at := now\<rparr>) d,
            \<lparr>dr_action = Discard, dr_memory = None, dr_existing = Some (mm_id incumbent), dr_similarity = 1\<rparr>)
      else (d, \<lparr>dr_action = Store, dr_memory = Some m, dr_existing = None, dr_similarity = 0\<rparr>))"

definition dedup_by_text ::
  "(string \<Rightarrow> string \<Rightarrow> rat) \<Rightarrow> uuid \<Rightarrow> uuid \<Rightarrow> uuid \<Rightarrow> extracted_memory \<Rightarrow> instant \<Rightarrow> memory_db
   \<Rightarrow> memory_db \<times> dedup_result" where
  "dedup_by_text similarity vid org user m now d =
     (case find_best_match similarity m
             (filter (\<lambda>c. mm_valid_to c = None) (get_by_type org user (em_type m) d)) of
        (None, _) \<Rightarrow> (d, \<lparr>dr_action = Store, dr_memory = Some m, dr_existing = None, dr_similarity = 0\<rparr>)
      | (Some best, score) \<Rightarrow>
          if duplicate_threshold < score
          then (update_memory org (mm_id best) (\<lambda>r. r\<lparr>mm_updated_at := now\<rparr>) d,
                \<lparr>dr_action = Discard, dr_memory = None, dr_existing = Some (mm_id best), dr_similarity = score\<rparr>)
          else if merge_threshold \<le> score
          then (case merge_values best m now of
                  None \<Rightarrow> (d, \<lparr>dr_action = Store, dr_memory = Some m, dr_existing = None, dr_similarity = score\<rparr>)
                | Some new \<Rightarrow>
                    (update_memory org (mm_id best) (copy_columns new)
                       (d\<lparr>versions := versions d @ [pre_merge_version vid best now]\<rparr>),
                     \<lparr>dr_action = Merge, dr_memory = None, dr_existing = Some (mm_id best), dr_similarity = score\<rparr>))
          else (d, \<lparr>dr_action = Store, dr_memory = Some m, dr_existing = None, dr_similarity = score\<rparr>))"

definition deduplicate ::
  "(string \<Rightarrow> string \<Rightarrow> rat) \<Rightarrow> uuid \<Rightarrow> uuid \<Rightarrow> uuid \<Rightarrow> extracted_memory \<Rightarrow> string option \<Rightarrow> instant \<Rightarrow> memory_db
   \<Rightarrow> memory_db \<times> dedup_result" where
  "deduplicate similarity vid org user m key now d =
     (case (case key of None \<Rightarrow> None | Some k \<Rightarrow> slot_incumbent org user m k d) of
        Some incumbent \<Rightarrow> dedup_within_slot org incumbent m now d
      | None \<Rightarrow> dedup_by_text similarity vid org user m now d)"

subsection \<open>Facts about the steps\<close>

lemma find_best_spec:
  assumes "find_best similarity text cs best = (r, s)"
  shows "(r, s) = best \<or> (\<exists>c \<in> set cs. r = Some c \<and> s = similarity text (comparison_text (mm_title c) (mm_content c)) \<and> snd best < s)"
    and "snd best \<le> s \<and> (\<forall>c \<in> set cs. similarity text (comparison_text (mm_title c) (mm_content c)) \<le> s)"
proof -
  have "((r, s) = best \<or> (\<exists>c \<in> set cs. r = Some c \<and> s = similarity text (comparison_text (mm_title c) (mm_content c)) \<and> snd best < s))
    \<and> snd best \<le> s \<and> (\<forall>c \<in> set cs. similarity text (comparison_text (mm_title c) (mm_content c)) \<le> s)"
    using assms
  proof (induction cs arbitrary: best)
    case (Cons c cs)
    let ?score = "similarity text (comparison_text (mm_title c) (mm_content c))"
    from Cons.prems have "find_best similarity text cs (if snd best < ?score then (Some c, ?score) else best) = (r, s)"
      by (simp add: Let_def)
    from Cons.IH [OF this] show ?case by (auto split: if_splits)
  qed simp
  then show "(r, s) = best \<or> (\<exists>c \<in> set cs. r = Some c \<and> s = similarity text (comparison_text (mm_title c) (mm_content c)) \<and> snd best < s)"
    and "snd best \<le> s \<and> (\<forall>c \<in> set cs. similarity text (comparison_text (mm_title c) (mm_content c)) \<le> s)"
    by blast+
qed

lemma merged_content_strip:
  assumes "strip a = a" and "strip b = b" and "a \<noteq> []" and "b \<noteq> []"
  shows "strip (a @ newline @ newline @ b) = a @ newline @ newline @ b"
proof (rule strip_trimmed, rule disjI2)
  have "\<not> is_space (hd a)" "\<not> is_space (last b)"
    using strip_nonempty [of a] strip_nonempty [of b] assms by simp_all
  then show "\<not> is_space (hd (a @ newline @ newline @ b)) \<and> \<not> is_space (last (a @ newline @ newline @ b))"
    using assms(3,4) by simp
qed

lemma strip_newlines: "strip b = b \<Longrightarrow> b \<noteq> [] \<Longrightarrow> strip (newline @ newline @ b) = b"
proof -
  assume b: "strip b = b" "b \<noteq> []"
  have "is_space (CHR 0x0A)" by (simp add: is_space_def)
  then have "lstrip (newline @ newline @ b) = lstrip b" by (simp add: lstrip_def newline_def)
  with b show ?thesis by (simp add: strip_def)
qed

text \<open>A merge that is not refused keeps the old text and adds the new.\<close>

lemma merged_content_grows:
  assumes "length (strip a) < length (merged_content (strip a) (strip b))"
  shows "contains (merged_content (strip a) (strip b)) (strip a) \<and>
    contains (merged_content (strip a) (strip b)) (strip b)"
proof -
  from assms have b: "strip b \<noteq> []" and eq: "merged_content (strip a) (strip b) = strip (strip a @ newline @ newline @ strip b)"
    by (auto simp: merged_content_def split: if_splits)
  show ?thesis
  proof (cases "strip a = []")
    case True
    then have m: "merged_content (strip a) (strip b) = strip b"
      unfolding eq using strip_newlines [of "strip b"] b by simp
    have "contains (strip b) []" "contains (strip b) (strip b)"
      unfolding contains_iff by (metis append_Nil, metis append_Nil append_Nil2)
    then show ?thesis unfolding m unfolding True by blast
  next
    case False
    with b have "merged_content (strip a) (strip b) = strip a @ newline @ newline @ strip b"
      by (simp add: eq merged_content_strip)
    then show ?thesis unfolding contains_iff
      by (metis append.assoc append_Nil append_Nil2)
  qed
qed

lemma merge_values_spec:
  assumes "merge_values old m now = Some new"
  shows "contains (mm_content new) (strip (mm_content old)) \<and> contains (mm_content new) (strip (em_content m)) \<and>
    length (strip (mm_content old)) < length (mm_content new) \<and> mm_updated_at new = now"
proof -
  from assms have "length (strip (mm_content old)) < length (merged_content (strip (mm_content old)) (strip (em_content m)))"
    "mm_content new = merged_content (strip (mm_content old)) (strip (em_content m))" "mm_updated_at new = now"
    by (auto simp: merge_values_def Let_def split: if_splits)
  with merged_content_grows show ?thesis by simp
qed

lemma update_memory_row:
  assumes "distinct (map mm_id (memories d))" and "old \<in> set (memories d)" and "mm_org old = org"
    and "mm_id (f old) = mm_id old"
  shows "get_memory (update_memory org (mm_id old) f d) (mm_id old) = Some (f old)"
    and "i \<noteq> mm_id old \<Longrightarrow> get_memory (update_memory org (mm_id old) f d) i = get_memory d i"
    and "versions (update_memory org (mm_id old) f d) = versions d"
proof -
  have "get_memory d (mm_id old) = Some old" using tget_mem [of mm_id "memories d" old] assms(1,2) by simp
  then have eq: "update_memory org (mm_id old) f d = set_memory (f old) d"
    using assms(3) by (simp add: update_memory_def)
  show "get_memory (update_memory org (mm_id old) f d) (mm_id old) = Some (f old)"
    "i \<noteq> mm_id old \<Longrightarrow> get_memory (update_memory org (mm_id old) f d) i = get_memory d i"
    "versions (update_memory org (mm_id old) f d) = versions d"
    using assms(4) \<open>get_memory d (mm_id old) = Some old\<close>
    by (auto simp: eq set_memory_def tget_tput)
qed

text \<open>A stored row the decision may rest on.\<close>

definition comparable_row :: "uuid \<Rightarrow> uuid \<Rightarrow> extracted_memory \<Rightarrow> memory_db \<Rightarrow> memory \<Rightarrow> bool" where
  "comparable_row org user m d old \<longleftrightarrow> old \<in> set (memories d) \<and> mm_org old = org \<and> mm_user old = user \<and>
     mm_type old = em_type m \<and> mm_valid_to old = None"

definition text_score :: "(string \<Rightarrow> string \<Rightarrow> rat) \<Rightarrow> extracted_memory \<Rightarrow> memory \<Rightarrow> rat" where
  "text_score similarity m old =
     similarity (comparison_text (em_title m) (em_content m)) (comparison_text (mm_title old) (mm_content old))"

lemma best_row:
  assumes "find_best_match similarity m (filter (\<lambda>c. mm_valid_to c = None) (get_by_type org user (em_type m) d)) = (Some best, score)"
  shows "comparable_row org user m d best \<and> score = text_score similarity m best"
proof -
  from find_best_spec(1) [OF assms [unfolded find_best_match_def]]
  show ?thesis
    by (auto simp: comparable_row_def text_score_def get_by_type_def dest!: in_set_takeD)
qed

lemma incumbent_row:
  assumes "slot_incumbent org user m k d = Some old"
  shows "comparable_row org user m d old \<and> mm_fact_key old = Some (strip k)"
proof -
  from assms have "old \<in> set (get_current_by_fact_key org k user (em_type m) d)"
    by (auto simp: slot_incumbent_def find_Some_iff)
  then show ?thesis
    by (auto simp: comparable_row_def get_current_by_fact_key_def Let_def split: if_splits dest!: in_set_takeD)
qed

definition accounted ::
  "(string \<Rightarrow> string \<Rightarrow> rat) \<Rightarrow> uuid \<Rightarrow> uuid \<Rightarrow> uuid \<Rightarrow> extracted_memory \<Rightarrow> string option \<Rightarrow> instant \<Rightarrow> memory_db
   \<Rightarrow> memory_db \<Rightarrow> dedup_result \<Rightarrow> bool" where
  "accounted similarity vid org user m key now d d' r =
     (case dr_action r of
        Store \<Rightarrow> d' = d \<and> dr_memory r = Some m
      | Discard \<Rightarrow>
          (\<exists>old. comparable_row org user m d old \<and> dr_existing r = Some (mm_id old) \<and>
             (fact_value old = incoming_value m \<and> mm_fact_key old = map_option strip key
              \<or> 95 / 100 < text_score similarity m old) \<and>
             get_memory d' (mm_id old) = Some (old\<lparr>mm_updated_at := now\<rparr>) \<and>
             (\<forall>i. i \<noteq> mm_id old \<longrightarrow> get_memory d' i = get_memory d i) \<and> versions d' = versions d)
      | Merge \<Rightarrow>
          (\<exists>old new. comparable_row org user m d old \<and> dr_existing r = Some (mm_id old) \<and>
             85 / 100 \<le> text_score similarity m old \<and> text_score similarity m old \<le> 95 / 100 \<and>
             get_memory d' (mm_id old) = Some new \<and>
             contains (mm_content new) (strip (mm_content old)) \<and> contains (mm_content new) (strip (em_content m)) \<and>
             (\<forall>i. i \<noteq> mm_id old \<longrightarrow> get_memory d' i = get_memory d i) \<and>
             versions d' = versions d @ [pre_merge_version vid old now]))"

lemma slot_accounted:
  assumes "distinct (map mm_id (memories d))" and "slot_incumbent org user m k d = Some old"
    and "dedup_within_slot org old m now d = (d', r)"
  shows "accounted similarity vid org user m (Some k) now d d' r"
proof -
  note row = incumbent_row [OF assms(2)]
  then have mem: "old \<in> set (memories d)" "mm_org old = org" by (simp_all add: comparable_row_def)
  note upd = update_memory_row [OF assms(1) mem, of "\<lambda>r. r\<lparr>mm_updated_at := now\<rparr>"]
  show ?thesis
  proof (cases "fact_value old = incoming_value m")
    case True
    with assms(3) have "d' = update_memory org (mm_id old) (\<lambda>r. r\<lparr>mm_updated_at := now\<rparr>) d"
      "dr_action r = Discard" "dr_existing r = Some (mm_id old)"
      by (auto simp: dedup_within_slot_def)
    with row upd True show ?thesis by (auto simp: accounted_def)
  next
    case False
    with assms(3) show ?thesis by (auto simp: dedup_within_slot_def accounted_def)
  qed
qed

lemma text_accounted:
  assumes "distinct (map mm_id (memories d))" and "dedup_by_text similarity vid org user m now d = (d', r)"
  shows "accounted similarity vid org user m key now d d' r"
proof -
  obtain b score where find: "find_best_match similarity m
      (filter (\<lambda>c. mm_valid_to c = None) (get_by_type org user (em_type m) d)) = (b, score)"
    by (cases "find_best_match similarity m (filter (\<lambda>c. mm_valid_to c = None) (get_by_type org user (em_type m) d))")
  show ?thesis
  proof (cases b)
    case None
    with assms(2) find show ?thesis by (auto simp: dedup_by_text_def accounted_def)
  next
    case (Some old)
    note row = best_row [OF find [unfolded Some]]
    then have mem: "old \<in> set (memories d)" "mm_org old = org" by (simp_all add: comparable_row_def)
    note f = assms(2) [unfolded dedup_by_text_def find Some, simplified]
    consider (dup) "duplicate_threshold < score"
      | (merge) new where "\<not> duplicate_threshold < score" "merge_threshold \<le> score" "merge_values old m now = Some new"
      | (keep) "\<not> duplicate_threshold < score" "merge_threshold \<le> score \<Longrightarrow> merge_values old m now = None"
      by (cases "merge_values old m now") blast+
    then show ?thesis
    proof cases
      case dup
      with f have "d' = update_memory org (mm_id old) (\<lambda>r. r\<lparr>mm_updated_at := now\<rparr>) d"
        "dr_action r = Discard" "dr_existing r = Some (mm_id old)" by auto
      with row dup update_memory_row [OF assms(1) mem, of "\<lambda>r. r\<lparr>mm_updated_at := now\<rparr>"]
      show ?thesis by (auto simp: accounted_def duplicate_threshold_def)
    next
      case merge
      let ?d = "d\<lparr>versions := versions d @ [pre_merge_version vid old now]\<rparr>"
      from merge f have r: "d' = update_memory org (mm_id old) (copy_columns new) ?d"
        "dr_action r = Merge" "dr_existing r = Some (mm_id old)" by auto
      have "distinct (map mm_id (memories ?d))" "old \<in> set (memories ?d)" using assms(1) mem by simp_all
      note upd = update_memory_row [OF this mem(2), of "copy_columns new"]
      have "get_memory d' (mm_id old) = Some (copy_columns new old)" "versions d' = versions ?d"
        "\<And>i. i \<noteq> mm_id old \<Longrightarrow> get_memory d' i = get_memory d i"
        using upd unfolding r(1) by (simp_all add: copy_columns_def)
      moreover have "mm_content (copy_columns new old) = mm_content new" by (simp add: copy_columns_def)
      ultimately show ?thesis
        using row merge r merge_values_spec [OF merge(3)]
        by (auto simp: accounted_def duplicate_threshold_def merge_threshold_def)
    next
      case keep
      with f have "d' = d" "dr_action r = Store" "dr_memory r = Some m" by (auto split: if_splits)
      then show ?thesis by (simp add: accounted_def)
    qed
  qed
qed

text \<open>
  Claim C28.  No observation is lost and none is stored twice unnoticed: a memory that is not
  stored was either discarded for a current row of the same tenant, user and type that asserts
  the same value in the same slot or reads more than 95 percent the same, or merged into one
  that reads 85 to 95 percent the same, whose new text holds both texts and whose previous text
  is kept as a version; no other row changes.
\<close>

theorem deduplication_loses_nothing:
  assumes "distinct (map mm_id (memories d))" and "deduplicate similarity vid org user m key now d = (d', r)"
  shows "accounted similarity vid org user m key now d d' r"
proof (cases "case key of None \<Rightarrow> None | Some k \<Rightarrow> slot_incumbent org user m k d")
  case None
  with assms(2) have "dedup_by_text similarity vid org user m now d = (d', r)" by (simp add: deduplicate_def)
  with assms(1) show ?thesis by (rule text_accounted)
next
  case (Some old)
  then obtain k where k: "key = Some k" "slot_incumbent org user m k d = Some old" by (cases key) auto
  with Some assms(2) have "dedup_within_slot org old m now d = (d', r)" by (simp add: deduplicate_def)
  with assms(1) k show ?thesis by (simp add: slot_accounted)
qed

subsection \<open>Examples\<close>

definition demo_row :: memory where
  "demo_row = \<lparr>mm_id = 10, mm_org = 1, mm_user = 2, mm_type = ''semantic'', mm_title = ''Salary'',
      mm_content = ''My salary is 100k.'', mm_plain = Some ''My salary is 100k.'', mm_structured = None,
      mm_importance = 1 / 2, mm_valid_from = 5, mm_valid_to = None, mm_fact_key = Some ''slot-100k'',
      mm_created_at = 5, mm_archived = False, mm_tags = [], mm_search_text = [], mm_updated_at = 5\<rparr>"

definition demo_rows :: memory_db where
  "demo_rows = \<lparr>memories = [demo_row], versions = [], audits = []\<rparr>"

definition demo_incoming :: "string \<Rightarrow> extracted_memory" where
  "demo_incoming content = \<lparr>em_type = ''semantic'', em_title = ''Salary'', em_content = content,
      em_entities = [], em_tags = [], em_structured = None\<rparr>"

definition demo_edit :: extracted_memory where
  "demo_edit = demo_incoming ''My salary is 120k.''"

lemma demo_edit_run:
  "deduplicate sequence_similarity 99 1 2 demo_edit (Some ''slot-120k'') 7 demo_rows
     = (demo_rows\<lparr>memories := [demo_row\<lparr>mm_updated_at := 7\<rparr>]\<rparr>,
        \<lparr>dr_action = Discard, dr_memory = None, dr_existing = Some 10, dr_similarity = 24 / 25\<rparr>)"
  by code_simp

theorem deduplication_loses_nothing_witness:
  "accounted sequence_similarity 99 1 2 demo_edit (Some ''slot-120k'') 7 demo_rows
     (demo_rows\<lparr>memories := [demo_row\<lparr>mm_updated_at := 7\<rparr>]\<rparr>)
     \<lparr>dr_action = Discard, dr_memory = None, dr_existing = Some 10, dr_similarity = 24 / 25\<rparr>"
  by (rule deduplication_loses_nothing [OF _ demo_edit_run]) (simp add: demo_rows_def)

text \<open>
  An edited value is dropped when its slot is new: the memory claims another fact
  slot than the stored row and asserts another value, no row occupies its slot, and the text
  comparison the slot is meant to outrank discards it as a duplicate of the old value.
\<close>

theorem new_slot_edit_is_discarded:
  "\<exists>m key d old. memories d = [old] \<and> slot_incumbent 1 2 m key d = None \<and>
     mm_fact_key old \<noteq> Some key \<and> fact_value old \<noteq> incoming_value m \<and>
     dr_action (snd (deduplicate sequence_similarity 99 1 2 m (Some key) 7 d)) = Discard"
proof (intro exI conjI)
  show "memories demo_rows = [demo_row]" by (simp add: demo_rows_def)
  show "slot_incumbent 1 2 demo_edit ''slot-120k'' demo_rows = None" by code_simp
  show "fact_value demo_row \<noteq> incoming_value demo_edit" by code_simp
  show "mm_fact_key demo_row \<noteq> Some ''slot-120k''" by (simp add: demo_row_def)
  show "dr_action (snd (deduplicate sequence_similarity 99 1 2 demo_edit (Some ''slot-120k'') 7 demo_rows)) = Discard"
    unfolding demo_edit_run by simp
qed

end
