(* ===== verification/Context_Planner.thy ===== *)
theory Context_Planner
  imports Prelude Complex_Main "HOL-Library.Multiset"
begin

section \<open>The context planner\<close>

text \<open>
  \<open>contexta/core/context/planner.py\<close>: dividing a token budget among categories and filling it
  with items.  Weights and relevances are rationals.  A Python object's \<open>id()\<close> is the field
  \<open>ci_ref\<close>; dictionaries keep their insertion order.
\<close>

subsection \<open>Dictionaries of counts\<close>

type_synonym counts = "(string \<times> int) list"

fun count_of :: "counts \<Rightarrow> string \<Rightarrow> int" where
  "count_of [] c = 0"
| "count_of ((k, v) # kvs) c = (if k = c then v else count_of kvs c)"

text \<open>\<open>d[c] = d.get(c, 0) + x\<close>\<close>

fun count_add :: "string \<Rightarrow> int \<Rightarrow> counts \<Rightarrow> counts" where
  "count_add c x [] = [(c, x)]"
| "count_add c x ((k, v) # kvs) = (if k = c then (k, v + x) # kvs else (k, v) # count_add c x kvs)"

definition total_of :: "counts \<Rightarrow> int" where
  "total_of d = sum_list (map snd d)"

lemma count_of_add [simp]: "count_of (count_add c x d) c' = count_of d c' + (if c = c' then x else 0)"
  by (induction d) auto

lemma total_of_add [simp]: "total_of (count_add c x d) = total_of d + x"
  by (induction d) (auto simp: total_of_def)

lemma keys_add: "fst ` set (count_add c x d) = insert c (fst ` set d)"
proof (induction d)
  case (Cons p d)
  then show ?case by (cases p; cases "fst p = c") (simp_all add: insert_commute)
qed simp

lemma distinct_keys_add: "distinct (map fst d) \<Longrightarrow> distinct (map fst (count_add c x d))"
proof (induction d)
  case (Cons p d)
  then show ?case using keys_add [of c x d] by (cases p) (auto simp: image_iff)
qed simp

lemma count_of_mem: "distinct (map fst d) \<Longrightarrow> (k, v) \<in> set d \<Longrightarrow> count_of d k = v"
  by (induction d) (force split: if_splits)+

lemma count_of_absent: "c \<notin> fst ` set d \<Longrightarrow> count_of d c = 0"
  by (induction d) auto

lemma total_of_keys:
  assumes "distinct (map fst d)"
  shows "total_of d = (\<Sum>k \<in> fst ` set d. count_of d k)"
proof -
  have "(\<Sum>k \<in> fst ` set d. count_of d k) = sum_list (map (count_of d) (map fst d))"
    using assms sum_list_distinct_conv_sum_set [of "map fst d" "count_of d"] by simp
  also have "map (count_of d) (map fst d) = map snd d"
    using count_of_mem [OF assms] by (auto simp: comp_def)
  finally show ?thesis by (simp add: total_of_def)
qed

lemma total_of_mono:
  assumes "distinct (map fst d)" and "distinct (map fst e)"
    and "\<And>c. count_of d c \<le> count_of e c" and "\<And>c. 0 \<le> count_of e c"
  shows "total_of d \<le> total_of e"
proof -
  let ?K = "fst ` set d \<union> fst ` set e"
  have "total_of d = (\<Sum>k \<in> ?K. count_of d k)"
    using total_of_keys [OF assms(1)] by (simp add: count_of_absent sum.mono_neutral_left)
  also have "\<dots> \<le> (\<Sum>k \<in> ?K. count_of e k)" using assms(3) by (simp add: sum_mono)
  also have "\<dots> = total_of e"
    using total_of_keys [OF assms(2)] by (simp add: count_of_absent sum.mono_neutral_right)
  finally show ?thesis .
qed

subsection \<open>Dividing the budget\<close>

record token_allocation =
  ta_budget :: int
  ta_allocations :: counts
  ta_usage :: counts

definition default_weights :: "(string \<times> rat) list" where
  "default_weights = [(''projects'', 35 / 100), (''goals'', 20 / 100), (''facts'', 15 / 100),
     (''episodic'', 15 / 100), (''preferences'', 10 / 100), (''relationships'', 5 / 100)]"

text \<open>\<open>int()\<close> of a number rounds towards zero; \<open>xs[:n]\<close> with a negative \<open>n\<close> drops from the end.\<close>

definition py_int :: "rat \<Rightarrow> int" where
  "py_int x = (if 0 \<le> x then \<lfloor>x\<rfloor> else \<lceil>x\<rceil>)"

definition py_take :: "int \<Rightarrow> 'a list \<Rightarrow> 'a list" where
  "py_take n xs = take (nat (if n < 0 then int (length xs) + n else n)) xs"

definition allocate :: "int \<Rightarrow> (string \<times> rat) list \<Rightarrow> token_allocation" where
  "allocate budget custom_weights =
     (let weights = (if custom_weights = [] then default_weights else custom_weights);
          s = sum_list (map snd weights);
          total_weight = (if s = 0 then 1 else s);
          allocations = map (\<lambda>(category, weight). (category, py_int (of_int budget * weight / total_weight))) weights;
          remainder = budget - total_of allocations
      in \<lparr>ta_budget = budget,
          ta_allocations = fold (\<lambda>category d. count_add category 1 d) (py_take remainder (map fst allocations)) allocations,
          ta_usage = []\<rparr>)"

lemma total_of_bumps: "total_of (fold (\<lambda>c d. count_add c 1 d) cs d) = total_of d + int (length cs)"
  by (induction cs arbitrary: d) auto

lemma count_of_bumps:
  "count_of (fold (\<lambda>c d. count_add c 1 d) cs d) c = count_of d c + int (count_list cs c)"
  by (induction cs arbitrary: d) auto

lemma floors_sum:
  fixes f :: "'a \<Rightarrow> rat"
  assumes "\<And>x. x \<in> set xs \<Longrightarrow> 0 \<le> f x"
  shows "of_int (sum_list (map (\<lambda>x. py_int (f x)) xs)) \<le> sum_list (map f xs) \<and>
    (xs \<noteq> [] \<longrightarrow> sum_list (map f xs) < of_int (sum_list (map (\<lambda>x. py_int (f x)) xs)) + of_nat (length xs))"
  using assms
proof (induction xs)
  case (Cons x xs)
  have "of_int (py_int (f x)) \<le> f x" "f x < of_int (py_int (f x)) + 1"
    using Cons.prems [of x] by (auto simp: py_int_def) linarith
  then show ?case using Cons by (cases "xs = []") auto
qed simp

text \<open>
  The whole budget is divided and nothing more: for weights that are not negative
  and not all zero the allocations add up to the budget exactly.
\<close>

theorem allocations_add_up:
  assumes "0 \<le> budget" and "\<And>c w. (c, w) \<in> set weights \<Longrightarrow> 0 \<le> w" and "0 < sum_list (map snd weights)"
  shows "total_of (ta_allocations (allocate budget weights)) = budget"
proof -
  let ?s = "sum_list (map snd weights)"
  let ?f = "\<lambda>(c, w). of_int budget * w / ?s :: rat"
  let ?al = "map (\<lambda>(c, w). (c, py_int (of_int budget * w / ?s))) weights"
  have ne: "weights \<noteq> []" using assms(3) by auto
  have total: "total_of ?al = sum_list (map (\<lambda>x. py_int (?f x)) weights)"
    by (simp add: total_of_def comp_def case_prod_unfold)
  have scale: "sum_list (map (\<lambda>p. k * snd p / s) ws) = k * sum_list (map snd ws) / s"
    for k s :: rat and ws :: "(string \<times> rat) list"
    by (induction ws) (auto simp: algebra_simps add_divide_distrib)
  have "sum_list (map ?f weights) = of_int budget"
    using assms(3) scale [of "of_int budget" ?s weights] by (simp add: case_prod_unfold)
  moreover have "0 \<le> ?f x" if "x \<in> set weights" for x
    using assms that by (cases x) auto
  ultimately have "of_int (total_of ?al) \<le> (of_int budget :: rat)"
    "(of_int budget :: rat) < of_int (total_of ?al) + of_nat (length weights)"
    using floors_sum [of weights ?f] ne by (simp_all only: total) auto
  then have rem: "0 \<le> budget - total_of ?al" "budget - total_of ?al < int (length weights)"
    by linarith+
  then have "int (length (py_take (budget - total_of ?al) (map fst ?al))) = budget - total_of ?al"
    by (simp add: py_take_def)
  then show ?thesis
    using ne assms(3) by (simp add: allocate_def Let_def total_of_bumps)
qed

theorem allocations_add_up_witness:
  "total_of (ta_allocations (allocate 100 [(''a'', 1), (''b'', 1), (''c'', 1)])) = 100 \<and>
   ta_allocations (allocate 100 [(''a'', 1), (''b'', 1), (''c'', 1)]) = [(''a'', 34), (''b'', 33), (''c'', 33)]"
proof
  show "total_of (ta_allocations (allocate 100 [(''a'', 1), (''b'', 1), (''c'', 1)])) = 100"
    by (rule allocations_add_up) auto
  show "ta_allocations (allocate 100 [(''a'', 1), (''b'', 1), (''c'', 1)]) = [(''a'', 34), (''b'', 33), (''c'', 33)]"
    by code_simp
qed

subsection \<open>Items\<close>

record item_payload =
  pf_evidence_id :: "string option"
  pf_memory_id :: "string option"
  pf_id :: "string option"

definition payload_id :: "item_payload \<Rightarrow> string option" where
  "payload_id p =
     (case pf_evidence_id p of Some v \<Rightarrow> Some v
      | None \<Rightarrow> (case pf_memory_id p of Some v \<Rightarrow> Some v | None \<Rightarrow> pf_id p))"

record context_item =
  ci_ref :: nat
  ci_category :: string
  ci_tokens :: int
  ci_relevance :: rat
  ci_payload :: item_payload
  ci_required :: bool

definition evidence_id :: "context_item \<Rightarrow> string option" where
  "evidence_id i = payload_id (ci_payload i)"

subsection \<open>Filling the budget\<close>

text \<open>A required value is an evidence id or an item, whose own id may be missing (\<open>str(None)\<close>).\<close>

datatype required_value = Id_Value string | Item_Value context_item

fun required_id :: "required_value \<Rightarrow> string" where
  "required_id (Id_Value s) = s"
| "required_id (Item_Value i) = (case evidence_id i of Some s \<Rightarrow> s | None \<Rightarrow> ''None'')"

text \<open>\<open>{id(item): index for index, item in enumerate(items)}\<close>: the last index of an object.\<close>

definition order_of :: "context_item list \<Rightarrow> nat \<Rightarrow> nat" where
  "order_of items ref = fold (\<lambda>(n, i) r. if ci_ref i = ref then n else r) (enumerate 0 items) 0"

fun unique_items :: "string set \<Rightarrow> context_item list \<Rightarrow> context_item list" where
  "unique_items seen [] = []"
| "unique_items seen (i # is) =
     (case evidence_id i of
        None \<Rightarrow> i # unique_items seen is
      | Some e \<Rightarrow> if e \<in> seen then unique_items seen is else i # unique_items (insert e seen) is)"

definition needed :: "context_item list \<Rightarrow> required_value list \<Rightarrow> context_item \<Rightarrow> bool" where
  "needed items required i \<longleftrightarrow> ci_required i \<or>
     (case evidence_id i of None \<Rightarrow> False
      | Some e \<Rightarrow> e \<in> required_id ` set required \<or> (\<exists>j \<in> set items. ci_required j \<and> evidence_id j = Some e))"

text \<open>Stable sort by order of arrival, or by falling relevance and then arrival.\<close>

definition sort_items :: "bool \<Rightarrow> context_item list \<Rightarrow> context_item list \<Rightarrow> context_item list" where
  "sort_items preserve_order items xs =
     (let by_order = sort_key (\<lambda>i. order_of items (ci_ref i)) xs
      in if preserve_order then by_order else sort_key (\<lambda>i. - ci_relevance i) by_order)"

type_synonym selection = "context_item list \<times> counts"

definition select_item :: "context_item \<Rightarrow> selection \<Rightarrow> selection" where
  "select_item i = (\<lambda>(selected, usage).
     if ci_ref i \<in> ci_ref ` set selected then (selected, usage)
     else (selected @ [i], count_add (ci_category i) (max 0 (ci_tokens i)) usage))"

definition category_step :: "counts \<Rightarrow> string \<Rightarrow> context_item \<Rightarrow> selection \<Rightarrow> selection" where
  "category_step allocations category i s =
     (if ci_category i \<noteq> category \<or> ci_ref i \<in> ci_ref ` set (fst s) then s
      else if count_of (snd s) category + ci_tokens i \<le> count_of allocations category then select_item i s
      else s)"

definition category_pass :: "counts \<Rightarrow> context_item list \<Rightarrow> selection \<Rightarrow> selection" where
  "category_pass allocations optional =
     fold (\<lambda>category. fold (category_step allocations category) optional) (map fst allocations)"

definition unused_step :: "context_item \<Rightarrow> int \<times> selection \<Rightarrow> int \<times> selection" where
  "unused_step i = (\<lambda>(unused, s).
     if ci_ref i \<in> ci_ref ` set (fst s) then (unused, s)
     else if unused < ci_tokens i then (unused, s)
     else (unused - ci_tokens i, select_item i s))"

definition unused_pass :: "int \<Rightarrow> context_item list \<Rightarrow> selection \<Rightarrow> selection" where
  "unused_pass budget optional s =
     snd (fold unused_step optional (max 0 (budget - total_of (snd s)), s))"

definition required_items :: "context_item list \<Rightarrow> required_value list \<Rightarrow> int \<Rightarrow> bool \<Rightarrow> context_item list" where
  "required_items items required minimum_evidence preserve_order =
     (let unique = unique_items {} items;
          must = filter (needed items required) unique;
          optional = sort_items preserve_order items (filter (\<lambda>i. \<not> needed items required i) unique)
      in must @ take (nat minimum_evidence - length must) optional)"

definition optional_items :: "context_item list \<Rightarrow> required_value list \<Rightarrow> int \<Rightarrow> bool \<Rightarrow> context_item list" where
  "optional_items items required minimum_evidence preserve_order =
     filter (\<lambda>i. ci_ref i \<notin> ci_ref ` set (required_items items required minimum_evidence preserve_order))
       (sort_items preserve_order items (filter (\<lambda>i. \<not> needed items required i) (unique_items {} items)))"

definition fill_budget ::
  "token_allocation \<Rightarrow> context_item list \<Rightarrow> required_value list \<Rightarrow> int \<Rightarrow> bool
   \<Rightarrow> context_item list \<times> token_allocation" where
  "fill_budget allocation items required minimum_evidence preserve_order =
     (let must = required_items items required minimum_evidence preserve_order;
          optional = optional_items items required minimum_evidence preserve_order;
          start = ([], map (\<lambda>(category, _). (category, 0)) (ta_allocations allocation));
          s1 = fold select_item must start;
          s2 = category_pass (ta_allocations allocation) optional s1;
          (selected, usage) = unused_pass (ta_budget allocation) optional s2
      in (sort_items preserve_order items selected, allocation\<lparr>ta_usage := usage\<rparr>))"

subsection \<open>Accounting\<close>

text \<open>
  A selection in good order: no object twice, the usage of every category is what its selected
  items cost, and the keys are distinct.
\<close>

definition cost :: "context_item list \<Rightarrow> int" where
  "cost xs = sum_list (map (\<lambda>i. max 0 (ci_tokens i)) xs)"

definition booked :: "selection \<Rightarrow> bool" where
  "booked s \<longleftrightarrow> distinct (map ci_ref (fst s)) \<and> distinct (map fst (snd s)) \<and>
     (\<forall>c. count_of (snd s) c = cost (filter (\<lambda>i. ci_category i = c) (fst s))) \<and>
     total_of (snd s) = cost (fst s)"

lemma cost_nonneg: "0 \<le> cost xs"
  by (auto simp: cost_def intro!: sum_list_nonneg)

lemma booked_select: "booked s \<Longrightarrow> booked (select_item i s)"
  by (cases s) (auto simp: booked_def select_item_def cost_def distinct_keys_add)

lemma booked_start: "distinct (map fst al) \<Longrightarrow> booked ([], map (\<lambda>(category, _). (category, 0)) al)"
proof -
  have "count_of (map (\<lambda>(category, _). (category, 0)) al) c = 0" for c by (induction al) auto
  moreover have "total_of (map (\<lambda>(category, _). (category, 0)) al) = 0"
    by (induction al) (auto simp: total_of_def)
  moreover assume "distinct (map fst al)"
  ultimately show ?thesis by (simp add: booked_def cost_def comp_def case_prod_unfold)
qed

lemma fold_invariant_list: "P s \<Longrightarrow> (\<And>x s. x \<in> set xs \<Longrightarrow> P s \<Longrightarrow> P (f x s)) \<Longrightarrow> P (fold f xs s)"
  by (induction xs arbitrary: s) auto

lemma booked_required: "booked s \<Longrightarrow> booked (fold select_item xs s)"
  by (rule fold_invariant_list) (simp_all add: booked_select)

lemma category_pass_invariant:
  assumes "P s" and "\<And>c i s. i \<in> set xs \<Longrightarrow> P s \<Longrightarrow> P (category_step al c i s)"
  shows "P (category_pass al xs s)"
proof -
  have inner: "P (fold (category_step al c) xs s)" if "P s" for c s
    using fold_invariant_list [of P s xs "category_step al c"] that assms(2) by simp
  show ?thesis
    using fold_invariant_list [of P s "map fst al" "\<lambda>c. fold (category_step al c) xs"] inner assms(1)
    by (simp add: category_pass_def)
qed

lemma booked_category_pass:
  assumes "booked s"
  shows "booked (category_pass al xs s)"
proof (rule category_pass_invariant [where P = booked, OF assms])
  show "booked (category_step al c i s)" if "booked s" for c i s
    using that by (simp add: category_step_def booked_select)
qed

lemma unused_pass_invariant:
  assumes "P s" and "\<And>i s. P s \<Longrightarrow> P (select_item i s)"
  shows "P (unused_pass b xs s)"
proof -
  have "P (snd (unused_step i p))" if "P (snd p)" for i p
    using assms(2) [OF that, of i] that by (cases p) (simp add: unused_step_def)
  then have "P (snd (fold unused_step xs p))" if "P (snd p)" for p
    using that fold_invariant_list [of "\<lambda>p. P (snd p)" p xs unused_step] by blast
  from this [of "(max 0 (b - total_of (snd s)), s)"] assms(1) show ?thesis
    by (simp add: unused_pass_def)
qed

lemma booked_unused_pass: "booked s \<Longrightarrow> booked (unused_pass b xs s)"
  using unused_pass_invariant [of booked] booked_select by blast

text \<open>Nothing is ever dropped from a selection.\<close>

definition keeps_items :: "context_item set \<Rightarrow> selection \<Rightarrow> bool" where
  "keeps_items A s \<longleftrightarrow> ci_ref ` A \<subseteq> ci_ref ` set (fst s)"

lemma keeps_select: "keeps_items A s \<Longrightarrow> keeps_items A (select_item i s)"
  by (cases s) (auto simp: keeps_items_def select_item_def)

lemma keeps_category_pass:
  assumes "keeps_items A s"
  shows "keeps_items A (category_pass al xs s)"
proof (rule category_pass_invariant [where P = "keeps_items A", OF assms])
  show "keeps_items A (category_step al c i s)" if "keeps_items A s" for c i s
    using that by (simp add: category_step_def keeps_select)
qed

lemma keeps_unused_pass: "keeps_items A s \<Longrightarrow> keeps_items A (unused_pass b xs s)"
  using unused_pass_invariant [of "keeps_items A"] keeps_select by blast

lemma keeps_required: "keeps_items (set xs) (fold select_item xs s)"
proof (induction xs rule: rev_induct)
  case (snoc x xs)
  then have "keeps_items (set xs) (select_item x (fold select_item xs s))" by (rule keeps_select)
  moreover have "ci_ref x \<in> ci_ref ` set (fst (select_item x s'))" for s'
    by (cases s') (auto simp: select_item_def)
  ultimately show ?case by (simp add: keeps_items_def)
qed (simp add: keeps_items_def)

subsection \<open>Staying within the budget\<close>

lemma set_sort_items [simp]: "set (sort_items b items xs) = set xs"
  by (simp add: sort_items_def Let_def)

lemma cost_sort_items: "cost (sort_items b items xs) = cost xs"
proof -
  have "mset (sort_items b items xs) = mset xs" by (simp add: sort_items_def Let_def)
  moreover have "cost ys = sum_mset (image_mset (\<lambda>i. max 0 (ci_tokens i)) (mset ys))" for ys
    by (induction ys) (auto simp: cost_def)
  ultimately show ?thesis by simp
qed

lemma unique_items_subset: "set (unique_items seen xs) \<subseteq> set xs"
  by (induction seen xs rule: unique_items.induct) (auto split: option.splits if_splits)

lemma optional_items_subset: "set (optional_items items req m b) \<subseteq> set items"
  using unique_items_subset [of "{}" items] by (auto simp: optional_items_def)

lemma select_usage:
  "count_of (snd (select_item i s)) c \<le> count_of (snd s) c + (if ci_category i = c then max 0 (ci_tokens i) else 0)"
  by (cases s) (simp add: select_item_def)

lemma required_usage:
  "count_of (snd (fold select_item xs ([], map (\<lambda>(category, _). (category, 0)) al))) c
    \<le> cost (filter (\<lambda>i. ci_category i = c) xs)"
proof (induction xs rule: rev_induct)
  case Nil
  have "count_of (map (\<lambda>(category, _). (category, 0)) al) c = 0" by (induction al) auto
  then show ?case by (simp add: cost_def)
next
  case (snoc x xs)
  have "cost (filter (\<lambda>i. ci_category i = c) (xs @ [x])) =
      cost (filter (\<lambda>i. ci_category i = c) xs) + (if ci_category x = c then max 0 (ci_tokens x) else 0)"
    by (simp add: cost_def)
  with snoc select_usage [of x "fold select_item xs ([], map (\<lambda>(category, _). (category, 0)) al)" c]
  show ?case by (simp add: comp_def)
qed

lemma category_pass_within:
  assumes "\<And>i. i \<in> set xs \<Longrightarrow> 0 \<le> ci_tokens i" and "\<forall>c. count_of (snd s) c \<le> count_of al c"
  shows "\<forall>c. count_of (snd (category_pass al xs s)) c \<le> count_of al c"
proof (rule category_pass_invariant [where P = "\<lambda>s. \<forall>c. count_of (snd s) c \<le> count_of al c", OF assms(2)])
  show "\<forall>c'. count_of (snd (category_step al c i s)) c' \<le> count_of al c'"
    if "i \<in> set xs" "\<forall>c. count_of (snd s) c \<le> count_of al c" for c i s
    using that assms(1) by (cases s) (auto simp: category_step_def select_item_def max_def)
qed

lemma unused_pass_within:
  assumes "\<And>i. i \<in> set xs \<Longrightarrow> 0 \<le> ci_tokens i" and "total_of (snd s) \<le> b"
  shows "total_of (snd (unused_pass b xs s)) \<le> b"
proof -
  let ?P = "\<lambda>p. fst p + total_of (snd (snd p)) \<le> b \<and> 0 \<le> fst p"
  have "?P (unused_step i p)" if "i \<in> set xs" "?P p" for i p
    using that assms(1) [of i] by (cases p) (auto simp: unused_step_def select_item_def split: prod.split)
  then have "?P (fold unused_step xs (max 0 (b - total_of (snd s)), s))"
    using fold_invariant_list [of ?P "(max 0 (b - total_of (snd s)), s)" xs unused_step] assms(2) by simp
  then show ?thesis by (simp add: unused_pass_def)
qed

lemma fill_budget_booked:
  assumes "distinct (map fst (ta_allocations al))" and "fill_budget al items req m b = (sel, al')"
  shows "distinct (map ci_ref sel) \<and> total_of (ta_usage al') = cost sel"
proof -
  define s where "s = unused_pass (ta_budget al) (optional_items items req m b)
      (category_pass (ta_allocations al) (optional_items items req m b)
        (fold select_item (required_items items req m b)
          ([], map (\<lambda>(category, _). (category, 0)) (ta_allocations al))))"
  have "booked s"
    unfolding s_def by (intro booked_unused_pass booked_category_pass booked_required booked_start assms(1))
  moreover have "sel = sort_items b items (fst s)" "ta_usage al' = snd s"
    using assms(2) by (auto simp: fill_budget_def Let_def s_def split: prod.splits)
  moreover have "distinct (map ci_ref (sort_items b items xs)) = distinct (map ci_ref xs)" for xs
  proof -
    have "mset (map ci_ref (sort_items b items xs)) = mset (map ci_ref xs)" by (simp add: sort_items_def Let_def)
    then show ?thesis by (rule mset_eq_imp_distinct_iff)
  qed
  ultimately show ?thesis by (simp add: booked_def cost_sort_items)
qed

text \<open>
  Claim C12.  A context stays within its token budget, and the usage it reports is what its
  items cost, whenever the allocations do not exceed the budget and the items that must be in
  it (required ones and the minimum evidence) stay within their categories' allocations.
\<close>

theorem selection_within_budget:
  assumes "distinct (map fst (ta_allocations al))" and "\<And>c. 0 \<le> count_of (ta_allocations al) c"
    and "total_of (ta_allocations al) \<le> ta_budget al"
    and "\<And>i. i \<in> set items \<Longrightarrow> 0 \<le> ci_tokens i"
    and "\<And>c. cost (filter (\<lambda>i. ci_category i = c) (required_items items req m b)) \<le> count_of (ta_allocations al) c"
    and "fill_budget al items req m b = (sel, al')"
  shows "total_of (ta_usage al') = cost sel \<and> cost sel \<le> ta_budget al"
proof -
  define opt where "opt = optional_items items req m b"
  define s1 where "s1 = fold select_item (required_items items req m b)
          ([], map (\<lambda>(category, _). (category, 0)) (ta_allocations al))"
  define s2 where "s2 = category_pass (ta_allocations al) opt s1"
  have tok: "0 \<le> ci_tokens i" if "i \<in> set opt" for i
    using that optional_items_subset assms(4) unfolding opt_def by blast
  have "\<forall>c. count_of (snd s1) c \<le> count_of (ta_allocations al) c"
    unfolding s1_def by (intro allI order_trans [OF required_usage assms(5)])
  from category_pass_within [OF tok this]
  have c2: "\<forall>c. count_of (snd s2) c \<le> count_of (ta_allocations al) c" by (simp add: s2_def)
  have "booked s2"
    unfolding s2_def s1_def by (intro booked_category_pass booked_required booked_start assms(1))
  then have "total_of (snd s2) \<le> total_of (ta_allocations al)"
    using c2 assms(1,2) by (intro total_of_mono) (auto simp: booked_def)
  with assms(3) have "total_of (snd (unused_pass (ta_budget al) opt s2)) \<le> ta_budget al"
    by (intro unused_pass_within tok) auto
  moreover have "ta_usage al' = snd (unused_pass (ta_budget al) opt s2)"
    using assms(6) by (auto simp: fill_budget_def Let_def opt_def s1_def s2_def split: prod.splits)
  ultimately show ?thesis using fill_budget_booked [OF assms(1,6)] by simp
qed

subsection \<open>Required evidence\<close>

definition objects :: "context_item list \<Rightarrow> bool" where
  "objects items \<longleftrightarrow> (\<forall>i \<in> set items. \<forall>j \<in> set items. ci_ref i = ci_ref j \<longrightarrow> i = j)"

lemma unique_items_covers:
  assumes "i \<in> set xs" and "\<And>e. evidence_id i = Some e \<Longrightarrow> e \<notin> seen"
  shows "\<exists>j \<in> set (unique_items seen xs). j = i \<or> (evidence_id i \<noteq> None \<and> evidence_id j = evidence_id i)"
  using assms
proof (induction seen xs rule: unique_items.induct)
  case (2 seen x xs)
  show ?case
  proof (cases "x = i \<or> (evidence_id i \<noteq> None \<and> evidence_id x = evidence_id i)")
    case True
    then have "x \<in> set (unique_items seen (x # xs))" using 2(5) by (auto split: option.splits)
    with True show ?thesis by blast
  next
    case False
    with 2(4) have i: "i \<in> set xs" by auto
    show ?thesis
    proof (cases "evidence_id x")
      case None
      with 2(1) [OF None i 2(5)] show ?thesis by auto
    next
      case (Some e)
      with False have "\<And>e'. evidence_id i = Some e' \<Longrightarrow> e' \<notin> insert e seen" using 2(5) by auto
      with Some 2(2) [OF Some _ i 2(5)] 2(3) [OF Some _ i] show ?thesis by auto
    qed
  qed
qed simp

lemma needed_same_evidence:
  "needed items req i \<Longrightarrow> i \<in> set items \<Longrightarrow> evidence_id i = Some e \<Longrightarrow> evidence_id j = Some e \<Longrightarrow> needed items req j"
  by (auto simp: needed_def)

lemma selected_from_items:
  assumes "set xs \<subseteq> set items" and "set opt \<subseteq> set items"
  shows "set (fst (unused_pass b opt (category_pass al opt (fold select_item xs ([], u))))) \<subseteq> set items"
proof -
  have sel: "set (fst (select_item i s)) \<subseteq> set items" if "i \<in> set items" "set (fst s) \<subseteq> set items" for i s
    using that by (cases s) (auto simp: select_item_def)
  have s1: "set (fst (fold select_item xs ([], u))) \<subseteq> set items"
  proof (rule fold_invariant_list [where P = "\<lambda>s. set (fst s) \<subseteq> set items"])
    show "set (fst (select_item i s)) \<subseteq> set items" if "i \<in> set xs" "set (fst s) \<subseteq> set items" for i s
      using that sel assms(1) by blast
  qed simp
  have s2: "set (fst (category_pass al opt (fold select_item xs ([], u)))) \<subseteq> set items"
  proof (rule category_pass_invariant [where P = "\<lambda>s. set (fst s) \<subseteq> set items", OF s1])
    show "set (fst (category_step al c i s)) \<subseteq> set items"
      if "i \<in> set opt" "set (fst s) \<subseteq> set items" for c i s
    proof -
      have "set (fst (select_item i s)) \<subseteq> set items" using sel that assms(2) by blast
      with that(2) show ?thesis by (simp add: category_step_def)
    qed
  qed
  let ?P = "\<lambda>p. set (fst (snd p)) \<subseteq> set items"
  have "?P (unused_step i p)" if "i \<in> set opt" "?P p" for i p
    using that sel [of i "snd p"] assms(2) by (cases p) (auto simp: unused_step_def)
  then show ?thesis
    using fold_invariant_list [of ?P "(q, category_pass al opt (fold select_item xs ([], u)))" opt unused_step for q] s2
    by (simp add: unused_pass_def)
qed

lemma required_items_subset: "set (required_items items req m b) \<subseteq> set items"
  using unique_items_subset [of "{}" items]
  by (auto simp: required_items_def Let_def dest!: in_set_takeD)

text \<open>
  Required evidence survives whatever the budget: for every item that is required, by
  its own flag, by its id or by another item of the same evidence, the selection holds that item
  or one of the same evidence.
\<close>

theorem required_evidence_survives:
  assumes "objects items" and "i \<in> set items" and "needed items req i"
    and "fill_budget al items req m b = (sel, al')"
  shows "\<exists>j \<in> set sel. j = i \<or> (evidence_id i \<noteq> None \<and> evidence_id j = evidence_id i)"
proof -
  obtain j where j: "j \<in> set (unique_items {} items)" "j = i \<or> (evidence_id i \<noteq> None \<and> evidence_id j = evidence_id i)"
    using unique_items_covers [OF assms(2), of "{}"] by auto
  then have "needed items req j" using needed_same_evidence [OF assms(3,2)] assms(3) by auto
  with j(1) have must: "j \<in> set (required_items items req m b)" by (simp add: required_items_def Let_def)
  define s where "s = unused_pass (ta_budget al) (optional_items items req m b)
      (category_pass (ta_allocations al) (optional_items items req m b)
        (fold select_item (required_items items req m b)
          ([], map (\<lambda>(category, _). (category, 0)) (ta_allocations al))))"
  have "keeps_items (set (required_items items req m b)) s"
    unfolding s_def by (intro keeps_unused_pass keeps_category_pass keeps_required)
  with must obtain x where x: "x \<in> set (fst s)" "ci_ref x = ci_ref j" unfolding keeps_items_def by force
  have "set (fst s) \<subseteq> set items"
    unfolding s_def by (rule selected_from_items [OF required_items_subset optional_items_subset])
  with x j(1) unique_items_subset [of "{}" items] assms(1) have "x = j" unfolding objects_def by blast
  moreover have "sel = sort_items b items (fst s)"
    using assms(4) by (auto simp: fill_budget_def Let_def s_def split: prod.splits)
  ultimately show ?thesis using x(1) j(2) by auto
qed

subsection \<open>Examples\<close>

definition demo_item :: "nat \<Rightarrow> string \<Rightarrow> int \<Rightarrow> bool \<Rightarrow> context_item" where
  "demo_item n category tokens required =
     \<lparr>ci_ref = n, ci_category = category, ci_tokens = tokens, ci_relevance = 1 / 2,
      ci_payload = \<lparr>pf_evidence_id = None, pf_memory_id = None, pf_id = Some [char_of (65 + n)]\<rparr>,
      ci_required = required\<rparr>"

definition demo_allocation :: token_allocation where
  "demo_allocation = allocate 100 []"

lemma demo_allocation_value:
  "demo_allocation = \<lparr>ta_budget = 100, ta_allocations = [(''projects'', 35), (''goals'', 20), (''facts'', 15),
     (''episodic'', 15), (''preferences'', 10), (''relationships'', 5)], ta_usage = []\<rparr>"
  by code_simp

definition demo_items :: "context_item list" where
  "demo_items = [demo_item 0 ''projects'' 30 True, demo_item 1 ''facts'' 10 False, demo_item 2 ''facts'' 80 False]"

lemma demo_fill:
  "map ci_ref (fst (fill_budget demo_allocation demo_items [] 0 False)) = [0, 1]"
  unfolding demo_allocation_value by code_simp

lemma demo_must: "required_items demo_items [] 0 False = [demo_item 0 ''projects'' 30 True]"
  by code_simp

theorem selection_within_budget_witness:
  "map ci_ref (fst (fill_budget demo_allocation demo_items [] 0 False)) = [0, 1] \<and>
   cost (fst (fill_budget demo_allocation demo_items [] 0 False)) \<le> 100"
proof -
  obtain sel al' where f: "fill_budget demo_allocation demo_items [] 0 False = (sel, al')"
    by (cases "fill_budget demo_allocation demo_items [] 0 False")
  have "total_of (ta_usage al') = cost sel \<and> cost sel \<le> ta_budget demo_allocation"
  proof (rule selection_within_budget [OF _ _ _ _ _ f])
    show "distinct (map fst (ta_allocations demo_allocation))" "total_of (ta_allocations demo_allocation) \<le> ta_budget demo_allocation"
      by (simp_all add: demo_allocation_value total_of_def)
    show "0 \<le> count_of (ta_allocations demo_allocation) c" for c by (simp add: demo_allocation_value)
    show "0 \<le> ci_tokens i" if "i \<in> set demo_items" for i
      using that by (auto simp: demo_items_def demo_item_def)
    show "cost (filter (\<lambda>i. ci_category i = c) (required_items demo_items [] 0 False))
        \<le> count_of (ta_allocations demo_allocation) c" for c
      by (simp add: demo_must demo_item_def cost_def demo_allocation_value)
  qed
  then show ?thesis using demo_fill f by (simp add: demo_allocation_value)
qed

theorem required_evidence_survives_witness:
  "\<exists>j \<in> set (fst (fill_budget demo_allocation [demo_item 0 ''goals'' 900 True] [] 0 False)). ci_ref j = 0"
proof -
  let ?i = "demo_item 0 ''goals'' 900 True"
  obtain sel al' where f: "fill_budget demo_allocation [?i] [] 0 False = (sel, al')"
    by (cases "fill_budget demo_allocation [?i] [] 0 False")
  have "\<exists>j \<in> set sel. j = ?i \<or> (evidence_id ?i \<noteq> None \<and> evidence_id j = evidence_id ?i)"
    by (rule required_evidence_survives [OF _ _ _ f]) (simp_all add: objects_def needed_def demo_item_def)
  moreover have "set sel = {?i}"
  proof -
    have "fst (fill_budget demo_allocation [?i] [] 0 False) = [?i]"
      unfolding demo_allocation_value by code_simp
    with f show ?thesis by simp
  qed
  ultimately show ?thesis using f by (simp add: demo_item_def)
qed

text \<open>
  The budget is not a bound when a required item overdraws its category: a required
  item of 90 tokens fits a budget of 100, yet every other category still spends its own
  allocation on optional items, and the selection costs 105.
\<close>

theorem overdrawn_category_breaks_budget:
  "cost (required_items [demo_item 0 ''projects'' 90 True, demo_item 1 ''facts'' 15 False] [] 0 False) \<le> 100 \<and>
   ta_budget demo_allocation = 100 \<and>
   cost (fst (fill_budget demo_allocation [demo_item 0 ''projects'' 90 True, demo_item 1 ''facts'' 15 False] [] 0 False)) = 105"
proof (intro conjI)
  show "cost (required_items [demo_item 0 ''projects'' 90 True, demo_item 1 ''facts'' 15 False] [] 0 False) \<le> 100"
    by code_simp
  show "ta_budget demo_allocation = 100" by (simp add: demo_allocation_value)
  show "cost (fst (fill_budget demo_allocation [demo_item 0 ''projects'' 90 True, demo_item 1 ''facts'' 15 False] [] 0 False)) = 105"
    unfolding demo_allocation_value by code_simp
qed

end
