(* ===== verification/Graph_Cache.thy ===== *)
theory Graph_Cache
  imports Prelude
begin

section \<open>The graph adjacency cache\<close>

text \<open>
  \<open>contexta/core/graph/cache.py\<close>: adjacency sets per user in process memory, mirrored to Redis,
  and the breadth-first traversal over them.  A Python set is a list without repetitions and
  \<open>order\<close> is the order in which Python iterates it, which the model leaves open; the expiry of
  the Redis keys is not modelled.
\<close>

subsection \<open>State\<close>

type_synonym adjacency = "uuid \<Rightarrow> uuid list option"

record graph_cache =
  local_adj :: "uuid \<Rightarrow> adjacency option"
  redis_adj :: "uuid \<times> uuid \<Rightarrow> uuid list"
  has_redis :: bool

record edge =
  source_entity_id :: uuid
  target_entity_id :: uuid

definition set_add :: "'a \<Rightarrow> 'a list \<Rightarrow> 'a list" where
  "set_add x xs = (if x \<in> set xs then xs else xs @ [x])"

lemma set_set_add [simp]: "set (set_add x xs) = insert x (set xs)"
  by (auto simp: set_add_def)

text \<open>\<open>adj[s].add(t)\<close> on a \<open>defaultdict(set)\<close>.\<close>

definition adj_add :: "uuid \<Rightarrow> uuid \<Rightarrow> adjacency \<Rightarrow> adjacency" where
  "adj_add s t adj = adj(s \<mapsto> set_add t (case adj s of Some xs \<Rightarrow> xs | None \<Rightarrow> []))"

definition add_edge :: "edge \<Rightarrow> adjacency \<Rightarrow> adjacency" where
  "add_edge e adj =
     adj_add (target_entity_id e) (source_entity_id e) (adj_add (source_entity_id e) (target_entity_id e) adj)"

definition redis_add_edge :: "uuid \<Rightarrow> edge \<Rightarrow> (uuid \<times> uuid \<Rightarrow> uuid list) \<Rightarrow> (uuid \<times> uuid \<Rightarrow> uuid list)" where
  "redis_add_edge user e r =
     (let s = source_entity_id e; t = target_entity_id e;
          r1 = r((user, s) := set_add t (r (user, s)))
      in r1((user, t) := set_add s (r1 (user, t))))"

text \<open>\<open>up\<close>: whether the Redis pipeline executes; a failure is logged and ignored.\<close>

definition update_edges :: "bool \<Rightarrow> uuid \<Rightarrow> edge list \<Rightarrow> graph_cache \<Rightarrow> graph_cache" where
  "update_edges up user edges c =
     (let adj = fold add_edge edges (case local_adj c user of Some a \<Rightarrow> a | None \<Rightarrow> Map.empty)
      in c\<lparr>local_adj := (local_adj c)(user \<mapsto> adj),
           redis_adj := (if has_redis c \<and> up then fold (redis_add_edge user) edges (redis_adj c)
                         else redis_adj c)\<rparr>)"

definition get_neighbors :: "bool \<Rightarrow> uuid \<Rightarrow> uuid \<Rightarrow> graph_cache \<Rightarrow> graph_cache \<times> uuid list" where
  "get_neighbors up user entity c =
     (case (case local_adj c user of Some adj \<Rightarrow> adj entity | None \<Rightarrow> None) of
        Some ns \<Rightarrow> (c, ns)
      | None \<Rightarrow>
          if has_redis c \<and> up \<and> redis_adj c (user, entity) \<noteq> []
          then (case local_adj c user of
                  None \<Rightarrow> c
                | Some adj \<Rightarrow> c\<lparr>local_adj := (local_adj c)(user \<mapsto> adj(entity \<mapsto> redis_adj c (user, entity)))\<rparr>,
                redis_adj c (user, entity))
          else (c, []))"

subsection \<open>Traversal\<close>

type_synonym distances = "(uuid \<times> nat) list"

fun visit :: "nat \<Rightarrow> nat \<Rightarrow> uuid list \<Rightarrow> distances \<Rightarrow> distances \<Rightarrow> distances \<times> distances" where
  "visit max_nodes dist [] distances queue = (distances, queue)"
| "visit max_nodes dist (n # ns) distances queue =
     (if n \<in> fst ` set distances then visit max_nodes dist ns distances queue
      else
        let distances' = distances @ [(n, dist + 1)]; queue' = queue @ [(n, dist + 1)]
        in if max_nodes \<le> length distances' then (distances', queue')
           else visit max_nodes dist ns distances' queue')"

lemma visit_spec:
  assumes "visit max_nodes d ns ds q = (ds', q')" and "distinct (map fst ds)" and "length ds < max_nodes"
  shows "\<exists>new. ds' = ds @ new \<and> q' = q @ new \<and> distinct (map fst ds') \<and> length ds' \<le> max_nodes \<and>
     (\<forall>(n, e) \<in> set new. e = d + 1 \<and> n \<in> set ns \<and> n \<notin> fst ` set ds) \<and>
     (length ds' < max_nodes \<longrightarrow> set ns \<subseteq> fst ` set ds')"
  using assms
proof (induction max_nodes d ns ds q rule: visit.induct)
  case (2 max_nodes d n ns ds q)
  show ?case
  proof (cases "n \<in> fst ` set ds")
    case True
    with 2(3) have "visit max_nodes d ns ds q = (ds', q')" by simp
    from 2(1) [OF True this 2(4,5)] obtain new where new: "ds' = ds @ new" "q' = q @ new"
      "distinct (map fst ds')" "length ds' \<le> max_nodes"
      "\<forall>(n, e) \<in> set new. e = d + 1 \<and> n \<in> set ns \<and> n \<notin> fst ` set ds"
      "length ds' < max_nodes \<longrightarrow> set ns \<subseteq> fst ` set ds'" by blast
    from True new(1) have "n \<in> fst ` set ds'" by auto
    with new show ?thesis by (intro exI [of _ new]) auto
  next
    case False
    let ?ds = "ds @ [(n, d + 1)]"
    let ?q = "q @ [(n, d + 1)]"
    have dist: "distinct (map fst ?ds)" using 2(4) False by (auto simp: image_iff)
    show ?thesis
    proof (cases "max_nodes \<le> length ?ds")
      case True
      with 2(3) False have "ds' = ?ds" "q' = ?q" by simp_all
      with True False dist 2(5) show ?thesis by (intro exI [of _ "[(n, d + 1)]"]) auto
    next
      case more: False
      with 2(3) False have "visit max_nodes d ns ?ds ?q = (ds', q')" by simp
      from 2(2) [OF False refl refl more this dist] more obtain new where
        new: "ds' = ?ds @ new" "q' = ?q @ new" "distinct (map fst ds')" "length ds' \<le> max_nodes"
        "\<forall>(n', e) \<in> set new. e = d + 1 \<and> n' \<in> set ns \<and> n' \<notin> fst ` set ?ds"
        "length ds' < max_nodes \<longrightarrow> set ns \<subseteq> fst ` set ds'" by auto
      from new(1) have "n \<in> fst ` set ds'" by auto
      with new False show ?thesis by (intro exI [of _ "(n, d + 1) # new"]) auto
    qed
  qed
qed auto

lemma visit_grows:
  assumes "visit max_nodes d ns ds q = (ds', q')"
  shows "(ds' = ds \<and> q' = q) \<or> length ds < length ds'"
proof -
  have "length ds \<le> length (fst (visit max_nodes d ns ds q)) \<and>
      (length ds = length (fst (visit max_nodes d ns ds q)) \<longrightarrow> visit max_nodes d ns ds q = (ds, q))"
  proof (induction max_nodes d ns ds q rule: visit.induct)
    case (2 m d n ns ds q)
    show ?case
      using 2(1) 2(2) [OF _ refl refl]
      by (cases "n \<in> fst ` set ds"; cases "m \<le> Suc (length ds)") (auto dest: Suc_leD)
  qed simp
  with assms show ?thesis by auto
qed

text \<open>The loop; \<open>order\<close> is how Python iterates the set it is given.\<close>

function bfs ::
  "(uuid list \<Rightarrow> uuid list) \<Rightarrow> bool \<Rightarrow> uuid \<Rightarrow> nat \<Rightarrow> nat \<Rightarrow> distances \<Rightarrow> distances \<Rightarrow> graph_cache
   \<Rightarrow> graph_cache \<times> distances" where
  "bfs order up user max_hops max_nodes distances [] c = (c, distances)"
| "bfs order up user max_hops max_nodes distances ((current, dist) # queue) c =
     (if max_nodes \<le> length distances then (c, distances)
      else if max_hops \<le> dist then bfs order up user max_hops max_nodes distances queue c
      else
        bfs order up user max_hops max_nodes
          (fst (visit max_nodes dist (order (snd (get_neighbors up user current c))) distances queue))
          (snd (visit max_nodes dist (order (snd (get_neighbors up user current c))) distances queue))
          (fst (get_neighbors up user current c)))"
  by pat_completeness auto
termination
proof (relation "measures [\<lambda>(_, _, _, _, m, ds, q, _). m - length ds, \<lambda>(_, _, _, _, _, _, q, _). length q]")
  fix order :: "uuid list \<Rightarrow> uuid list" and up user max_hops max_nodes distances current dist queue c
  assume "\<not> max_nodes \<le> length (distances :: distances)"
  then show "((order, up, user, max_hops, max_nodes,
        fst (visit max_nodes dist (order (snd (get_neighbors up user current c))) distances queue),
        snd (visit max_nodes dist (order (snd (get_neighbors up user current c))) distances queue),
        fst (get_neighbors up user current c)),
      (order, up, user, max_hops, max_nodes, distances, (current, dist) # queue, c))
      \<in> measures [\<lambda>(_, _, _, _, m, ds, q, _). m - length ds, \<lambda>(_, _, _, _, _, _, q, _). length q]"
    using visit_grows [of max_nodes dist "order (snd (get_neighbors up user current c))" distances queue]
    by (cases "visit max_nodes dist (order (snd (get_neighbors up user current c))) distances queue") auto
qed auto

definition traverse ::
  "(uuid list \<Rightarrow> uuid list) \<Rightarrow> bool \<Rightarrow> uuid \<Rightarrow> uuid list \<Rightarrow> nat \<Rightarrow> nat \<Rightarrow> graph_cache \<Rightarrow> graph_cache \<times> distances" where
  "traverse order up user roots max_hops max_nodes c =
     bfs order up user max_hops max_nodes (map (\<lambda>r. (r, 0)) (remdups roots)) (map (\<lambda>r. (r, 0)) roots) c"

subsection \<open>The graph being traversed\<close>

text \<open>What a cache answers for a node does not change while it answers.\<close>

lemma get_neighbors_stable:
  "set (snd (get_neighbors up user v (fst (get_neighbors up user w c)))) = set (snd (get_neighbors up user v c))"
  by (auto simp: get_neighbors_def split: option.splits)

fun within :: "(uuid \<Rightarrow> uuid set) \<Rightarrow> uuid set \<Rightarrow> nat \<Rightarrow> uuid set" where
  "within N roots 0 = roots"
| "within N roots (Suc k) = within N roots k \<union> (\<Union>u \<in> within N roots k. N u)"

lemma within_mono: "k \<le> l \<Longrightarrow> within N roots k \<subseteq> within N roots l"
  by (induction l) (auto simp: le_Suc_eq)

text \<open>The hop distance from the nearest root is \<open>d\<close>.\<close>

definition at_distance :: "(uuid \<Rightarrow> uuid set) \<Rightarrow> uuid set \<Rightarrow> uuid \<Rightarrow> nat \<Rightarrow> bool" where
  "at_distance N roots v d \<longleftrightarrow> v \<in> within N roots d \<and> (\<forall>k < d. v \<notin> within N roots k)"

subsection \<open>The invariant of the loop\<close>

definition bfs_ok ::
  "(uuid \<Rightarrow> uuid set) \<Rightarrow> uuid set \<Rightarrow> nat \<Rightarrow> distances \<Rightarrow> distances \<Rightarrow> bool" where
  "bfs_ok N roots max_hops ds q \<longleftrightarrow>
     distinct (map fst ds) \<and> roots \<subseteq> fst ` set ds \<and> set q \<subseteq> set ds \<and>
     (\<forall>(v, d) \<in> set ds. at_distance N roots v d \<and> d \<le> max_hops) \<and>
     sorted (map snd q) \<and> (\<forall>(v, d) \<in> set q. d \<le> Suc (snd (hd q))) \<and>
     (\<forall>(v, d) \<in> set ds. (v, d) \<notin> set q \<longrightarrow> d < max_hops \<longrightarrow> N v \<subseteq> fst ` set ds)"

lemma level_complete:
  assumes "bfs_ok N roots max_hops ds q" and "\<And>v d. (v, d) \<in> set q \<Longrightarrow> l \<le> d" and "l \<le> max_hops" and "k \<le> l"
  shows "within N roots k \<subseteq> fst ` set ds"
  using assms(4)
proof (induction k)
  case 0
  then show ?case using assms(1) by (simp add: bfs_ok_def)
next
  case (Suc k)
  have "N u \<subseteq> fst ` set ds" if u: "u \<in> within N roots k" for u
  proof -
    from Suc u obtain d where d: "(u, d) \<in> set ds" by fastforce
    with assms(1) have "at_distance N roots u d" by (auto simp: bfs_ok_def)
    then have "d \<le> k" using u by (auto simp: at_distance_def not_less [symmetric])
    then have "d < l" using Suc.prems by simp
    then have "(u, d) \<notin> set q" using assms(2) by fastforce
    with \<open>d < l\<close> assms(1,3) d show ?thesis unfolding bfs_ok_def by fastforce
  qed
  with Suc show ?case by auto
qed

lemma bfs_ok_visit:
  assumes ok: "bfs_ok N roots max_hops ds ((u, d) # q)" and d: "d < max_hops" and len: "length ds < max_nodes"
    and ns: "set ns = N u" and v: "visit max_nodes d ns ds q = (ds', q')"
  shows "length ds' \<le> max_nodes \<and> distinct (map fst ds') \<and>
     (\<forall>(v, e) \<in> set ds'. at_distance N roots v e \<and> e \<le> max_hops) \<and>
     (length ds' < max_nodes \<longrightarrow> bfs_ok N roots max_hops ds' q')"
proof -
  have dist: "distinct (map fst ds)" using ok by (simp add: bfs_ok_def)
  from visit_spec [OF v dist len] obtain new where new: "ds' = ds @ new" "q' = q @ new"
    "distinct (map fst ds')" "length ds' \<le> max_nodes"
    "\<forall>(n, e) \<in> set new. e = d + 1 \<and> n \<in> set ns \<and> n \<notin> fst ` set ds"
    "length ds' < max_nodes \<longrightarrow> set ns \<subseteq> fst ` set ds'" by blast
  have u: "(u, d) \<in> set ds" "at_distance N roots u d" using ok by (auto simp: bfs_ok_def)
  have front: "d \<le> e" if "(w, e) \<in> set ((u, d) # q)" for w e using ok that by (fastforce simp: bfs_ok_def)
  have level: "within N roots k \<subseteq> fst ` set ds" if "k \<le> d" for k
  proof (rule level_complete [OF ok])
    show "d \<le> e" if "(w, e) \<in> set ((u, d) # q)" for w e by (rule front [OF that])
  qed (use d that in simp_all)
  have exact: "at_distance N roots n e \<and> e \<le> max_hops" if "(n, e) \<in> set new" for n e
  proof -
    from new(5) that ns have e: "e = Suc d" "n \<in> N u" "n \<notin> fst ` set ds" by auto
    have "n \<in> within N roots (Suc d)" using u(2) e(2) by (auto simp: at_distance_def)
    moreover have "n \<notin> within N roots k" if "k < Suc d" for k
      using level [of k] that e(3) by auto
    ultimately show ?thesis using e(1) d by (simp add: at_distance_def)
  qed
  have all: "\<forall>(v, e) \<in> set ds'. at_distance N roots v e \<and> e \<le> max_hops"
    using exact ok by (auto simp: new(1) bfs_ok_def)
  have "bfs_ok N roots max_hops ds' q'" if more: "length ds' < max_nodes"
    unfolding bfs_ok_def
  proof (intro conjI)
    show "distinct (map fst ds')" by (rule new(3))
    show "roots \<subseteq> fst ` set ds'" "set q' \<subseteq> set ds'" using ok by (auto simp: bfs_ok_def new(1,2))
    show "\<forall>(v, e) \<in> set ds'. at_distance N roots v e \<and> e \<le> max_hops" by (rule all)
    have q: "e \<le> Suc d" if "(w, e) \<in> set q" for w e using ok that by (auto simp: bfs_ok_def)
    have n: "e = Suc d" if "(w, e) \<in> set new" for w e using new(5) that by auto
    have "map snd new = replicate (length new) (Suc d)"
      using n by (intro replicate_eqI) auto
    moreover have "sorted (map snd q)" using ok by (simp add: bfs_ok_def)
    ultimately show "sorted (map snd q')" using q by (auto simp: new(2) sorted_append)
    have hd: "d \<le> snd (hd q')" if "q' \<noteq> []"
    proof -
      have "hd q' \<in> set q \<union> set new" using that new(2) by (metis hd_in_set set_append)
      then show ?thesis using front [of "fst (hd q')" "snd (hd q')"] n [of "fst (hd q')" "snd (hd q')"] by auto
    qed
    show "\<forall>(v, e) \<in> set q'. e \<le> Suc (snd (hd q'))"
    proof (intro ballI, clarify)
      fix w e assume m: "(w, e) \<in> set q'"
      then have "e \<le> Suc d" using q n by (auto simp: new(2))
      moreover have "d \<le> snd (hd q')" using m by (intro hd) auto
      ultimately show "e \<le> Suc (snd (hd q'))" by simp
    qed
    have "N w \<subseteq> fst ` set ds'" if "(w, e) \<in> set ds'" "(w, e) \<notin> set q'" "e < max_hops" for w e
    proof (cases "w = u")
      case True
      then show ?thesis using new(6) more ns by simp
    next
      case False
      with that have "(w, e) \<in> set ds" "(w, e) \<notin> set ((u, d) # q)" by (auto simp: new(1,2))
      then have "N w \<subseteq> fst ` set ds" using ok that(3) unfolding bfs_ok_def by blast
      then show ?thesis by (auto simp: new(1))
    qed
    then show "\<forall>(v, e) \<in> set ds'. (v, e) \<notin> set q' \<longrightarrow> e < max_hops \<longrightarrow> N v \<subseteq> fst ` set ds'" by blast
  qed
  with new(3,4) all show ?thesis by blast
qed

lemma bfs_ok_drop:
  assumes "bfs_ok N roots max_hops ds ((u, d) # q)" and "max_hops \<le> d"
  shows "bfs_ok N roots max_hops ds q"
proof -
  have tail: "e \<le> Suc (snd (hd q))" if "(w, e) \<in> set q" for w e
  proof -
    have "e \<le> Suc d" "d \<le> snd (hd q)"
      using assms(1) that by (cases q; fastforce simp: bfs_ok_def)+
    then show ?thesis by simp
  qed
  have "N w \<subseteq> fst ` set ds" if "(w, e) \<in> set ds" "(w, e) \<notin> set q" "e < max_hops" for w e
    using assms that unfolding bfs_ok_def by fastforce
  then have rest: "\<forall>(w, e) \<in> set ds. (w, e) \<notin> set q \<longrightarrow> e < max_hops \<longrightarrow> N w \<subseteq> fst ` set ds" by blast
  have "\<forall>(w, e) \<in> set q. e \<le> Suc (snd (hd q))" using tail by blast
  with rest assms(1) show ?thesis unfolding bfs_ok_def by simp
qed

lemma bfs_full: "max_nodes \<le> length ds \<Longrightarrow> bfs order up user max_hops max_nodes ds q c = (c, ds)"
  by (cases q) auto

definition bfs_result :: "(uuid \<Rightarrow> uuid set) \<Rightarrow> uuid set \<Rightarrow> nat \<Rightarrow> nat \<Rightarrow> distances \<Rightarrow> bool" where
  "bfs_result N roots max_hops max_nodes ds \<longleftrightarrow>
     distinct (map fst ds) \<and> (\<forall>(v, d) \<in> set ds. at_distance N roots v d \<and> d \<le> max_hops) \<and>
     (length ds < max_nodes \<longrightarrow> within N roots max_hops \<subseteq> fst ` set ds)"

lemma bfs_spec:
  assumes "bfs_ok N roots max_hops ds q" and "length ds \<le> m" and "max_nodes \<le> m"
    and "\<And>v. set (snd (get_neighbors up user v c)) = N v" and "\<And>xs. set (order xs) = set xs"
  shows "bfs_result N roots max_hops max_nodes (snd (bfs order up user max_hops max_nodes ds q c)) \<and>
    length (snd (bfs order up user max_hops max_nodes ds q c)) \<le> m"
  using assms
proof (induction order up user max_hops max_nodes ds q c rule: bfs.induct)
  case (1 order up user max_hops max_nodes ds c)
  have "within N roots max_hops \<subseteq> fst ` set ds"
    by (rule level_complete [OF 1(1), where l = max_hops and k = max_hops]) auto
  with 1(1,2) show ?case by (auto simp: bfs_result_def bfs_ok_def)
next
  case (2 order up user max_hops max_nodes ds u d q c)
  show ?case
  proof (cases "max_nodes \<le> length ds")
    case True
    with 2(3,4) show ?thesis by (auto simp: bfs_result_def bfs_ok_def)
  next
    case len: False
    show ?thesis
    proof (cases "max_hops \<le> d")
      case True
      have "bfs order up user max_hops max_nodes ds ((u, d) # q) c = bfs order up user max_hops max_nodes ds q c"
        using len True by simp
      then show ?thesis
        using 2(1) [OF len True bfs_ok_drop [OF 2(3) True] 2(4-7)] by simp
    next
      case False
      obtain c' ns where g: "get_neighbors up user u c = (c', ns)" by (cases "get_neighbors up user u c")
      obtain ds' q' where v: "visit max_nodes d (order ns) ds q = (ds', q')"
        by (cases "visit max_nodes d (order ns) ds q")
      have eq: "bfs order up user max_hops max_nodes ds ((u, d) # q) c = bfs order up user max_hops max_nodes ds' q' c'"
        using len False by (simp add: g v)
      have N: "set (order ns) = N u" using 2(6) [of u] 2(7) by (simp add: g)
      have hops: "d < max_hops" "length ds < max_nodes" using False len by simp_all
      note V = bfs_ok_visit [OF 2(3) hops N v]
      have stable: "set (snd (get_neighbors up user w c')) = N w" for w
        using get_neighbors_stable [of up user w u c] 2(6) by (simp add: g)
      show ?thesis
      proof (cases "length ds' < max_nodes")
        case True
        then have "bfs_ok N roots max_hops ds' q'" "length ds' \<le> m" using V 2(5) by auto
        from 2(2) [OF len False] this 2(5) stable 2(7) show ?thesis unfolding eq by (simp add: g v)
      next
        case full: False
        then have "bfs order up user max_hops max_nodes ds' q' c' = (c', ds')" by (simp add: bfs_full)
        with full V 2(5) show ?thesis unfolding eq by (auto simp: bfs_result_def)
      qed
    qed
  qed
qed

text \<open>The graph a cache answers from.\<close>

definition graph_of :: "bool \<Rightarrow> uuid \<Rightarrow> graph_cache \<Rightarrow> uuid \<Rightarrow> uuid set" where
  "graph_of up user c v = set (snd (get_neighbors up user v c))"

lemma bfs_ok_start:
  "bfs_ok N (set roots) max_hops (map (\<lambda>r. (r, 0)) (remdups roots)) (map (\<lambda>r. (r, 0)) roots)"
proof -
  have "set (map (\<lambda>r. (r, 0)) roots) \<subseteq> set (map (\<lambda>r. (r, 0)) (remdups roots))" by auto
  moreover have "sorted (map snd (map (\<lambda>r. (r, 0 :: nat)) roots))" by (induction roots) auto
  moreover have "distinct (map fst (map (\<lambda>r. (r, 0 :: nat)) (remdups roots)))" by (simp add: comp_def)
  moreover have "fst ` set (map (\<lambda>r. (r, 0 :: nat)) (remdups roots)) = set roots" by force
  ultimately show ?thesis unfolding bfs_ok_def by (auto simp: at_distance_def)
qed

text \<open>
  Claim C29.  The traversal finds shortest distances whatever order sets are iterated in: every
  node it returns is at exactly the hop distance it reports from the nearest root, within the
  hop limit, and the result never exceeds the node limit (or the roots).  If the node limit was
  not reached, every node within the hop limit is in the result.
\<close>

theorem traversal_is_shortest:
  assumes "\<And>xs. set (order xs) = set xs" and "traverse order up user roots max_hops max_nodes c = (c', ds)"
  shows "distinct (map fst ds) \<and> length ds \<le> max max_nodes (card (set roots)) \<and>
    (\<forall>(v, d) \<in> set ds. at_distance (graph_of up user c) (set roots) v d \<and> d \<le> max_hops) \<and>
    (length ds < max_nodes \<longrightarrow> within (graph_of up user c) (set roots) max_hops \<subseteq> fst ` set ds)"
proof -
  have "length (map (\<lambda>r. (r, 0 :: nat)) (remdups roots)) = card (set roots)"
    by (simp add: length_remdups_card_conv)
  then show ?thesis
    using bfs_spec [OF bfs_ok_start [of "graph_of up user c" roots max_hops],
        of "max max_nodes (card (set roots))" max_nodes up user c order] assms
    by (simp add: traverse_def bfs_result_def graph_of_def)
qed

definition demo_cache :: graph_cache where
  "demo_cache = \<lparr>local_adj = \<lambda>_. None, redis_adj = \<lambda>_. [], has_redis = False\<rparr>"

definition demo_edge :: "uuid \<Rightarrow> uuid \<Rightarrow> edge" where
  "demo_edge s t = \<lparr>source_entity_id = s, target_entity_id = t\<rparr>"

definition demo_graph :: graph_cache where
  "demo_graph = update_edges True 7 [demo_edge 1 2, demo_edge 2 3, demo_edge 1 3, demo_edge 3 4] demo_cache"

theorem traversal_is_shortest_witness:
  "snd (traverse rev True 7 [1] 2 50 demo_graph) = [(1, 0), (3, 1), (2, 1), (4, 2)] \<and>
   at_distance (graph_of True 7 demo_graph) {1} 4 2"
proof -
  have run: "snd (traverse rev True 7 [1] 2 50 demo_graph) = [(1, 0), (3, 1), (2, 1), (4, 2)]" by code_simp
  obtain c' where c: "traverse rev True 7 [1] 2 50 demo_graph = (c', [(1, 0), (3, 1), (2, 1), (4, 2)])"
    using run by (cases "traverse rev True 7 [1] 2 50 demo_graph") simp
  have "set (rev xs) = set xs" for xs :: "uuid list" by simp
  from traversal_is_shortest [OF this c] run show ?thesis by simp
qed

text \<open>
  A partial local entry hides the edges Redis holds: after a process that starts
  with an empty memory adds one edge of a node, the node's other neighbours, which Redis still
  has and which were found before, are no longer returned.
\<close>

theorem partial_entry_hides_redis:
  "\<exists>c. 2 \<in> graph_of True 7 c 1 \<and> 2 \<notin> graph_of True 7 (update_edges True 7 [demo_edge 1 3] c) 1 \<and>
     2 \<in> set (redis_adj (update_edges True 7 [demo_edge 1 3] c) (7, 1))"
proof (intro exI conjI)
  let ?c = "demo_cache\<lparr>redis_adj := (\<lambda>_. [])((7, 1) := [2], (7, 2) := [1]), has_redis := True\<rparr>"
  show "2 \<in> graph_of True 7 ?c 1" "2 \<notin> graph_of True 7 (update_edges True 7 [demo_edge 1 3] ?c) 1"
    "2 \<in> set (redis_adj (update_edges True 7 [demo_edge 1 3] ?c) (7, 1))"
    by (simp_all add: graph_of_def get_neighbors_def update_edges_def demo_edge_def demo_cache_def add_edge_def
        adj_add_def set_add_def redis_add_edge_def Let_def)
qed

end
