(* ===== verification/Idempotent_Store.thy ===== *)
theory Idempotent_Store
  imports Prelude Py_Text
begin

section \<open>Idempotent inserts\<close>

text \<open>
  \<open>insert_idempotently\<close>, which the proposal and the consolidated-observation repositories share
  word for word, over a table of rows: \<open>org\<close>, \<open>key\<close> and \<open>ident\<close> read a row's tenant, idempotency
  key and primary key, \<open>content\<close> the fields the record hash covers.  \<open>race\<close> are the rows other
  sessions commit between the lookup and the flush, and \<open>usable\<close> says whether the session still
  takes statements after a failed flush.  The locale states what the callers rely on.
\<close>

datatype store_error =
    CrossTenant | KeyRequired | KeyTooLong | KeyConflict | IntegrityFailed | MultipleRows
  | SessionRolledBack

definition violates ::
  "('r \<Rightarrow> uuid) \<Rightarrow> ('r \<Rightarrow> string) \<Rightarrow> ('r \<Rightarrow> uuid) \<Rightarrow> bool \<Rightarrow> 'r \<Rightarrow> 'r list \<Rightarrow> bool" where
  "violates org key ident references_exist r rows \<longleftrightarrow>
     list_ex (\<lambda>x. (org x = org r \<and> key x = key r) \<or> ident x = ident r) rows \<or> \<not> references_exist"

definition lookup_key ::
  "('r \<Rightarrow> uuid) \<Rightarrow> ('r \<Rightarrow> string) \<Rightarrow> uuid \<Rightarrow> string \<Rightarrow> 'r list \<Rightarrow> store_error + 'r option" where
  "lookup_key org key tenant k rows = one_or_none MultipleRows (\<lambda>r. key r = k \<and> org r = tenant) rows"

definition check_existing :: "('r \<Rightarrow> 'c) \<Rightarrow> 'r \<Rightarrow> 'r \<Rightarrow> 'r list \<Rightarrow> store_error + ('r list \<times> 'r \<times> bool)" where
  "check_existing content existing r rows =
     (if content existing = content r then Inr (rows, existing, False) else Inl KeyConflict)"

definition key_problem :: "string \<Rightarrow> store_error option" where
  "key_problem k =
     (if k = [] then Some KeyRequired else if 255 < length k then Some KeyTooLong else None)"

definition table_insert ::
  "('r \<Rightarrow> uuid) \<Rightarrow> ('r \<Rightarrow> string) \<Rightarrow> ('r \<Rightarrow> uuid) \<Rightarrow> ('r \<Rightarrow> 'c) \<Rightarrow> bool \<Rightarrow> uuid \<Rightarrow> 'r list \<Rightarrow> bool \<Rightarrow>
   'r \<Rightarrow> 'r list \<Rightarrow> store_error + ('r list \<times> 'r \<times> bool)" where
  "table_insert org key ident content references_exist tenant race usable r rows =
     (if org r \<noteq> tenant then Inl CrossTenant
      else case key_problem (key r) of
        Some e \<Rightarrow> Inl e
      | None \<Rightarrow>
          ebind (lookup_key org key tenant (key r) rows) (\<lambda>found.
            case found of
              Some existing \<Rightarrow> check_existing content existing r rows
            | None \<Rightarrow>
                (let seen = rows @ race in
                 if \<not> violates org key ident references_exist r seen then Inr (seen @ [r], r, True)
                 else if \<not> usable then Inl SessionRolledBack
                 else ebind (lookup_key org key tenant (key r) seen) (\<lambda>again.
                   case again of
                     None \<Rightarrow> Inl IntegrityFailed
                   | Some existing \<Rightarrow> check_existing content existing r seen))))"

text \<open>\<open>update_by_id\<close>: the tenant's row with the id, and how many rows were changed.\<close>

definition update_row ::
  "('r \<Rightarrow> uuid) \<Rightarrow> ('r \<Rightarrow> uuid) \<Rightarrow> uuid \<Rightarrow> uuid \<Rightarrow> ('r \<Rightarrow> 'r) \<Rightarrow> 'r list \<Rightarrow> 'r list \<times> nat" where
  "update_row org ident tenant i f rows =
     (map (\<lambda>r. if ident r = i \<and> org r = tenant then f r else r) rows,
      length (filter (\<lambda>r. ident r = i \<and> org r = tenant) rows))"

definition read_row ::
  "('r \<Rightarrow> uuid) \<Rightarrow> ('r \<Rightarrow> uuid) \<Rightarrow> uuid \<Rightarrow> uuid \<Rightarrow> 'r list \<Rightarrow> 'r option" where
  "read_row org ident tenant i rows = find (\<lambda>r. ident r = i \<and> org r = tenant) rows"

definition page :: "nat \<Rightarrow> nat \<Rightarrow> 'r list \<Rightarrow> 'r list" where
  "page offset limit rows = take limit (drop offset rows)"

subsection \<open>The table's constraints\<close>

definition table_ok :: "('r \<Rightarrow> uuid) \<Rightarrow> ('r \<Rightarrow> string) \<Rightarrow> ('r \<Rightarrow> uuid) \<Rightarrow> 'r list \<Rightarrow> bool" where
  "table_ok org key ident rows \<longleftrightarrow>
     distinct (map (\<lambda>r. (org r, key r)) rows) \<and> distinct (map ident rows)"

definition row_with_key :: "('r \<Rightarrow> uuid) \<Rightarrow> ('r \<Rightarrow> string) \<Rightarrow> uuid \<Rightarrow> string \<Rightarrow> 'r list \<Rightarrow> 'r option" where
  "row_with_key org key tenant k rows = find (\<lambda>r. key r = k \<and> org r = tenant) rows"

lemma find_eq_filter: "find P xs = (case filter P xs of [] \<Rightarrow> None | x # _ \<Rightarrow> Some x)"
  by (induction xs) auto

lemma one_or_none_find:
  assumes "distinct (map f rs)" and "\<And>r. P r \<Longrightarrow> f r = v"
  shows "one_or_none e P rs = Inr (find P rs)"
proof -
  have "one_or_none e P rs \<noteq> Inl e" using assms by (rule one_or_none_unique)
  then show ?thesis by (auto simp: one_or_none_def find_eq_filter split: list.splits)
qed

lemma lookup_key_ok:
  "table_ok org key ident rows \<Longrightarrow>
   lookup_key org key tenant k rows = Inr (row_with_key org key tenant k rows)"
  unfolding table_ok_def lookup_key_def row_with_key_def
  by (rule one_or_none_find [where f = "\<lambda>r. (org r, key r)" and v = "(tenant, k)"]) auto

lemma row_with_key_None:
  "row_with_key org key tenant k rows = None \<longleftrightarrow> (\<forall>r \<in> set rows. \<not> (key r = k \<and> org r = tenant))"
  by (auto simp: row_with_key_def find_None_iff)

lemma row_with_key_append:
  "row_with_key org key tenant k (rows @ more) =
     (case row_with_key org key tenant k rows of Some r \<Rightarrow> Some r
      | None \<Rightarrow> row_with_key org key tenant k more)"
  by (induction rows) (auto simp: row_with_key_def)

lemma row_with_key_Cons:
  "row_with_key org key tenant k (r # rows) =
     (if key r = k \<and> org r = tenant then Some r else row_with_key org key tenant k rows)"
  by (simp add: row_with_key_def)

lemma row_with_key_empty [simp]: "row_with_key org key tenant k [] = None"
  by (simp add: row_with_key_def)

lemma row_with_key_Some:
  "row_with_key org key tenant k rows = Some r \<Longrightarrow> r \<in> set rows \<and> key r = k \<and> org r = tenant"
  by (auto simp: row_with_key_def find_Some_iff)

lemma table_ok_snoc:
  "table_ok org key ident (rows @ [r]) \<longleftrightarrow>
     table_ok org key ident rows \<and> \<not> violates org key ident True r rows"
  by (auto simp: table_ok_def violates_def list_ex_iff image_iff)

lemma violates_known:
  "row_with_key org key (org r) (key r) rows \<noteq> None \<Longrightarrow> violates org key ident ok r rows"
  by (auto simp: violates_def list_ex_iff row_with_key_None)

subsection \<open>One insert\<close>

lemma table_insert_known:
  assumes "table_ok org key ident rows" and "org r = tenant" and "key_problem (key r) = None"
    and "row_with_key org key tenant (key r) rows = Some s"
  shows "table_insert org key ident content ok tenant race usable r rows =
     check_existing content s r rows"
  using assms by (simp add: table_insert_def lookup_key_ok)

lemma table_insert_new:
  assumes "table_ok org key ident rows" and "org r = tenant" and "key_problem (key r) = None"
    and "row_with_key org key tenant (key r) rows = None"
    and "\<not> violates org key ident ok r (rows @ race)"
  shows "table_insert org key ident content ok tenant race usable r rows =
     Inr (rows @ race @ [r], r, True)"
  using assms by (simp add: table_insert_def lookup_key_ok Let_def)

lemma table_insert_cases:
  assumes "table_insert org key ident content ok tenant race usable r rows = Inr (rows', s, b)"
    and "table_ok org key ident rows" and "table_ok org key ident (rows @ race)"
  shows "org r = tenant \<and> key_problem (key r) = None \<and> table_ok org key ident rows'
    \<and> content s = content r \<and> row_with_key org key tenant (key r) rows' = Some s
    \<and> (if b then s = r \<and> rows' = rows @ race @ [r] else rows' \<in> {rows, rows @ race})"
proof -
  have found: "content s = content r \<and> rows' = xs \<and> \<not> b" if "check_existing content e r xs = Inr (rows', s, b)" for e xs
    using that by (auto simp: check_existing_def split: if_splits)
  have same: "e = s" if "check_existing content e r xs = Inr (rows', s, b)" for e xs
    using that by (auto simp: check_existing_def split: if_splits)
  have own: "org r = tenant" "key_problem (key r) = None"
    using assms(1) by (auto simp: table_insert_def split: if_splits option.splits)
  show ?thesis
  proof (cases "row_with_key org key tenant (key r) rows")
    case (Some e)
    then have "check_existing content e r rows = Inr (rows', s, b)"
      using assms(1)
        table_insert_known [OF assms(2) own Some, of content ok race usable] by simp
    from found [OF this] same [OF this] own Some assms(2) show ?thesis by simp
  next
    case new: None
    show ?thesis
    proof (cases "violates org key ident ok r (rows @ race)")
      case False
      from table_insert_new [where content = content and usable = usable, OF assms(2) own new False]
        assms(1)
      have res: "rows' = (rows @ race) @ [r]" "s = r" "b" by auto
      from False have nv: "\<not> violates org key ident True r (rows @ race)"
        by (simp add: violates_def)
      then have "row_with_key org key tenant (key r) (rows @ race) = None"
        using violates_known [of org key r "rows @ race"] own by blast
      then have "row_with_key org key tenant (key r) rows' = Some r"
        unfolding res row_with_key_append [of _ _ _ _ "rows @ race"]
        by (simp add: row_with_key_Cons own)
      with res own nv assms(3) table_ok_snoc [of org key ident "rows @ race" r] show ?thesis
        by simp
    next
      case True
      with assms(1) own new assms(2) lookup_key_ok [OF assms(3)]
      obtain e where e: "row_with_key org key tenant (key r) (rows @ race) = Some e"
          "check_existing content e r (rows @ race) = Inr (rows', s, b)"
        by (auto simp: table_insert_def lookup_key_ok Let_def split: if_splits option.splits)
      from found [OF e(2)] same [OF e(2)] own e assms(3) show ?thesis by simp
    qed
  qed
qed

text \<open>
  A race costs nothing when the session survives it: what other sessions commit between the
  lookup and the flush gives the outcome of an insert that started after them.
\<close>

lemma table_insert_race:
  assumes "table_ok org key ident rows" and "table_ok org key ident (rows @ race)"
    and "row_with_key org key tenant (key r) rows = None"
  shows "table_insert org key ident content ok tenant race True r rows =
     table_insert org key ident content ok tenant [] True r (rows @ race)"
  using assms violates_known [of org key r "rows @ race" ident ok]
  by (auto simp: table_insert_def lookup_key_ok Let_def split: option.split)

subsection \<open>The interface\<close>

text \<open>
  What a caller of an idempotent store relies on.  \<open>fits r d\<close>: the row may be inserted (its
  tenant, key, id and references are fine).  The abstract store of the laws' consequences is the
  map from keys to contents in which the first writer of a key wins.
\<close>

definition contents :: "('d \<Rightarrow> string \<Rightarrow> 'r option) \<Rightarrow> ('r \<Rightarrow> 'c) \<Rightarrow> 'd \<Rightarrow> string \<Rightarrow> 'c option" where
  "contents look row_content d k = map_option row_content (look d k)"

definition first_wins ::
  "string \<Rightarrow> 'c \<Rightarrow> (string \<Rightarrow> 'c option) \<Rightarrow> (string \<Rightarrow> 'c option) option" where
  "first_wins k c m =
     (case m k of None \<Rightarrow> Some (m(k \<mapsto> c)) | Some c' \<Rightarrow> if c' = c then Some m else None)"

fun insert_all :: "('r \<Rightarrow> 'd \<Rightarrow> 'e + ('d \<times> 'r \<times> bool)) \<Rightarrow> 'r list \<Rightarrow> 'd \<Rightarrow> 'd" where
  "insert_all ins [] d = d"
| "insert_all ins (r # rs) d =
     insert_all ins rs (case ins r d of Inl _ \<Rightarrow> d | Inr (d', _, _) \<Rightarrow> d')"

locale idempotent_store =
  fixes look :: "'d \<Rightarrow> string \<Rightarrow> 'r option"
    and ins :: "'r \<Rightarrow> 'd \<Rightarrow> store_error + ('d \<times> 'r \<times> bool)"
    and row_key :: "'r \<Rightarrow> string"
    and row_content :: "'r \<Rightarrow> 'c"
    and good :: "'d \<Rightarrow> bool"
    and own :: "'r \<Rightarrow> bool"
    and free :: "'r \<Rightarrow> 'd \<Rightarrow> bool"
  assumes ins_known:
      "\<lbrakk>good d; own r; look d (row_key r) = Some s\<rbrakk> \<Longrightarrow>
       ins r d = (if row_content s = row_content r then Inr (d, s, False) else Inl KeyConflict)"
    and ins_new:
      "\<lbrakk>good d; own r; look d (row_key r) = None; free r d\<rbrakk> \<Longrightarrow>
       \<exists>d'. ins r d = Inr (d', r, True) \<and> good d'
         \<and> look d' = (look d)(row_key r \<mapsto> r)"
    and ins_owned: "ins r d = Inr (d', s, b) \<Longrightarrow> own r"
    and ins_free: "\<lbrakk>ins r d = Inr (d', s, b); good d; look d (row_key r) = None\<rbrakk> \<Longrightarrow> free r d"
begin

lemma ins_outcome:
  assumes "ins r d = Inr (d', s, b)" and "good d"
  shows "good d' \<and> look d' = (look d)(row_key r \<mapsto> s) \<and> row_content s = row_content r"
proof (cases "look d (row_key r)")
  case None
  with assms ins_owned ins_free obtain d'' where "ins r d = Inr (d'', r, True)" "good d''"
    "look d'' = (look d)(row_key r \<mapsto> r)"
    by (meson ins_new)
  with assms(1) show ?thesis by simp
next
  case (Some e)
  from ins_known [OF assms(2) ins_owned [OF assms(1)] Some] assms Some show ?thesis
    by (auto split: if_splits simp: fun_upd_idem)
qed

lemma refines_first_wins:
  assumes "good d" and "own r" and "free r d \<or> look d (row_key r) \<noteq> None"
  shows "first_wins (row_key r) (row_content r) (contents look row_content d) =
     (case ins r d of Inl _ \<Rightarrow> None | Inr (d', _, _) \<Rightarrow> Some (contents look row_content d'))"
proof (cases "look d (row_key r)")
  case None
  with assms obtain d' where "ins r d = Inr (d', r, True)" "look d' = (look d)(row_key r \<mapsto> r)"
    using ins_new by blast
  with None show ?thesis by (auto simp: first_wins_def contents_def)
next
  case (Some s)
  with ins_known [OF assms(1,2) Some] show ?thesis by (simp add: first_wins_def contents_def)
qed

lemma retry:
  assumes "ins r d = Inr (d', s, b)" and "good d" and "own r'"
    and "row_key r' = row_key r" and "row_content r' = row_content r"
  shows "ins r' d' = Inr (d', s, False)"
proof -
  have "good d'" "look d' (row_key r') = Some s" "row_content s = row_content r'"
    using ins_outcome [OF assms(1,2)] assms(4,5) by auto
  then show ?thesis using ins_known [OF _ assms(3)] by simp
qed

lemma conflict:
  assumes "good d" and "own r" and "look d (row_key r) = Some s" and "row_content s \<noteq> row_content r"
  shows "ins r d = Inl KeyConflict"
  using ins_known [OF assms(1-3)] assms(4) by simp

lemma insert_all_keeps:
  "good d \<Longrightarrow> look d k = Some s \<Longrightarrow> good (insert_all ins rs d) \<and> look (insert_all ins rs d) k = Some s"
proof (induction rs arbitrary: d)
  case (Cons r rs)
  show ?case
  proof (cases "ins r d")
    case (Inl e)
    with Cons show ?thesis by simp
  next
    case (Inr x)
    then obtain d' t b where i: "ins r d = Inr (d', t, b)" by (cases x) auto
    have out: "good d'" "look d' = (look d)(row_key r \<mapsto> t)" using ins_outcome [OF i Cons.prems(1)] by auto
    have "look d' k = Some s"
    proof (cases "k = row_key r")
      case True
      with ins_known [OF Cons.prems(1) ins_owned [OF i]] Cons.prems(2) i
      have "t = s" by (auto split: if_splits)
      with True out show ?thesis by simp
    qed (simp add: out Cons.prems)
    with Cons.IH out(1) i show ?thesis by simp
  qed
qed simp

end

text \<open>The list tables keep the contract, for any tenant and any content the hash covers.\<close>

lemma table_idempotent_store:
  "idempotent_store (\<lambda>rows k. row_with_key org key tenant k rows)
     (table_insert org key ident content ok tenant [] usable) key content (table_ok org key ident)
     (\<lambda>r. org r = tenant \<and> key_problem (key r) = None) (\<lambda>r rows. \<not> violates org key ident ok r rows)"
proof unfold_locales
  fix d r s
  assume "table_ok org key ident d" "org r = tenant \<and> key_problem (key r) = None"
    "row_with_key org key tenant (key r) d = Some s"
  then show "table_insert org key ident content ok tenant [] usable r d =
      (if content s = content r then Inr (d, s, False) else Inl KeyConflict)"
    by (simp add: table_insert_known check_existing_def)
next
  fix d r
  assume ok: "table_ok org key ident d" and own: "org r = tenant \<and> key_problem (key r) = None"
    and new: "row_with_key org key tenant (key r) d = None"
    and free: "\<not> violates org key ident ok r d"
  have nv: "\<not> violates org key ident True r d" using free by (simp add: violates_def)
  have "(\<lambda>k. row_with_key org key tenant k (d @ [r])) =
      (\<lambda>k. row_with_key org key tenant k d)(key r \<mapsto> r)"
    using own new by (auto simp: row_with_key_append row_with_key_Cons row_with_key_empty fun_eq_iff split: option.split)
  moreover have "table_insert org key ident content ok tenant [] usable r d = Inr (d @ [r], r, True)"
    using table_insert_new [of org key ident d r tenant ok "[]"] ok own new free by simp
  moreover have "table_ok org key ident (d @ [r])" using ok nv by (simp add: table_ok_snoc)
  ultimately show "\<exists>d'. table_insert org key ident content ok tenant [] usable r d = Inr (d', r, True)
      \<and> table_ok org key ident d' \<and>
      (\<lambda>k. row_with_key org key tenant k d') = (\<lambda>k. row_with_key org key tenant k d)(key r \<mapsto> r)"
    by blast
next
  fix r d d' s b
  assume "table_insert org key ident content ok tenant [] usable r d = Inr (d', s, b)"
  then show "org r = tenant \<and> key_problem (key r) = None"
    by (auto simp: table_insert_def split: if_splits option.splits)
next
  fix r d d' s b
  assume "table_insert org key ident content ok tenant [] usable r d = Inr (d', s, b)"
    "table_ok org key ident d" "row_with_key org key tenant (key r) d = None"
  then show "\<not> violates org key ident ok r d"
    by (auto simp: table_insert_def lookup_key_ok Let_def split: if_splits option.splits)
qed

end
