(* ===== verification/Py_Uuid.thy ===== *)
theory Py_Uuid
  imports Py_Text
begin

section \<open>UUIDs as text\<close>

text \<open>
  \<open>str(u)\<close> of a UUID and \<open>uuid.UUID(s)\<close>, which removes \<open>urn:\<close> and \<open>uuid:\<close>, trims braces, drops the
  hyphens and reads what is left as 32 characters of \<open>int(s, 16)\<close>: that accepts blanks around the
  number, a sign, a \<open>0x\<close> prefix and single underscores between digits.  Reading what was printed
  gives the UUID back.
\<close>

subsection \<open>Printing\<close>

definition hex_char :: "nat \<Rightarrow> char" where
  "hex_char d = ''0123456789abcdef'' ! (d mod 16)"

text \<open>The last \<open>n\<close> hexadecimal digits of \<open>u\<close>.\<close>

fun hex_digits :: "nat \<Rightarrow> nat \<Rightarrow> string" where
  "hex_digits 0 u = []"
| "hex_digits (Suc n) u = hex_digits n (u div 16) @ [hex_char u]"

definition hyphen :: string where
  "hyphen = ''-''"

definition uuid_str :: "uuid \<Rightarrow> string" where
  "uuid_str u =
     (let h = hex_digits 32 u in
      take 8 h @ hyphen @ take 4 (drop 8 h) @ hyphen @ take 4 (drop 12 h) @ hyphen @
      take 4 (drop 16 h) @ hyphen @ drop 20 h)"

subsection \<open>Reading\<close>

definition hex_val :: "char \<Rightarrow> nat option" where
  "hex_val c =
     (let n = code c in
      if 48 \<le> n \<and> n \<le> 57 then Some (n - 48)
      else if 97 \<le> n \<and> n \<le> 102 then Some (n - 87)
      else if 65 \<le> n \<and> n \<le> 70 then Some (n - 55)
      else None)"

fun hex_number :: "bool \<Rightarrow> nat \<Rightarrow> string \<Rightarrow> nat option" where
  "hex_number after_digit acc [] = (if after_digit then Some acc else None)"
| "hex_number after_digit acc (c # cs) =
     (if c = CHR ''_'' then (if after_digit then hex_number False acc cs else None)
      else case hex_val c of None \<Rightarrow> None | Some d \<Rightarrow> hex_number True (16 * acc + d) cs)"

text \<open>The blanks \<open>int\<close> skips: \<open>str.isspace\<close> without the ASCII separators.\<close>

definition int_space :: "char \<Rightarrow> bool" where
  "int_space c \<longleftrightarrow> code c \<in> {9, 10, 11, 12, 13, 32, 133, 160}"

definition trim :: "(char \<Rightarrow> bool) \<Rightarrow> string \<Rightarrow> string" where
  "trim P s = rev (dropWhile P (rev (dropWhile P s)))"

fun after_prefix :: "string \<Rightarrow> nat option" where
  "after_prefix (c # x # cs) =
     (if c = CHR ''0'' \<and> (x = CHR ''x'' \<or> x = CHR ''X'')
      then (case cs of d # ds \<Rightarrow> hex_number False 0 (if d = CHR ''_'' then ds else cs) | [] \<Rightarrow> None)
      else hex_number False 0 (c # x # cs))"
| "after_prefix s = hex_number False 0 s"

definition int_of_hex :: "string \<Rightarrow> int option" where
  "int_of_hex s =
     (case trim int_space s of
        [] \<Rightarrow> None
      | c # cs \<Rightarrow>
          if c = CHR ''-'' then map_option (\<lambda>n. - int n) (after_prefix cs)
          else if c = CHR ''+'' then map_option int (after_prefix cs)
          else map_option int (after_prefix (c # cs)))"

definition is_brace :: "char \<Rightarrow> bool" where
  "is_brace c \<longleftrightarrow> c = CHR ''{'' \<or> c = CHR ''}''"

definition uuid_of :: "string \<Rightarrow> uuid option" where
  "uuid_of s =
     (let h = replace hyphen [] (trim is_brace (replace ''uuid:'' [] (replace ''urn:'' [] s)))
      in if length h \<noteq> 32 then None
         else case int_of_hex h of
                None \<Rightarrow> None
              | Some n \<Rightarrow> if 0 \<le> n \<and> n < 2 ^ 128 then Some (nat n) else None)"

subsection \<open>The round trip\<close>

abbreviation hex_chars :: "char set" where
  "hex_chars \<equiv> set ''0123456789abcdef''"

lemma hex_char_in: "hex_char d \<in> hex_chars"
  unfolding hex_char_def by (rule nth_mem) simp

lemma hex_val_small: "\<forall>d \<in> set [0..<16]. hex_val (hex_char d) = Some d"
  by code_simp

lemma hex_val_hex_char: "hex_val (hex_char d) = Some (d mod 16)"
proof -
  have "hex_char (d mod 16) = hex_char d" by (simp add: hex_char_def)
  moreover have "hex_val (hex_char (d mod 16)) = Some (d mod 16)"
    using hex_val_small by (rule bspec) simp
  ultimately show ?thesis by simp
qed

lemma length_hex_digits [simp]: "length (hex_digits n u) = n"
  by (induction n arbitrary: u) auto

lemma set_hex_digits: "set (hex_digits n u) \<subseteq> hex_chars"
  by (induction n arbitrary: u) (use hex_char_in in auto)

lemma hex_number_append:
  "set s \<subseteq> hex_chars \<Longrightarrow> s \<noteq> [] \<Longrightarrow> hex_number b acc s = Some m \<Longrightarrow>
   hex_number b acc (s @ t) = hex_number True m t"
proof (induction s arbitrary: b acc)
  case (Cons c cs)
  then obtain d where d: "hex_val c = Some d" "c \<noteq> CHR ''_''"
    by (auto split: if_splits option.splits)
  show ?case
  proof (cases "cs = []")
    case True
    with Cons.prems d show ?thesis by simp
  next
    case False
    with Cons d show ?thesis by simp
  qed
qed simp

lemma hex_number_digits:
  "hex_number b acc (hex_digits (Suc n) u) = Some (acc * 16 ^ Suc n + u mod 16 ^ Suc n)"
proof (induction n arbitrary: u b acc)
  case 0
  have "hex_char u \<noteq> CHR ''_''" using hex_char_in [of u] by auto
  then show ?case by (simp add: hex_val_hex_char)
next
  case (Suc n)
  have ne: "hex_char u \<noteq> CHR ''_''" using hex_char_in [of u] by auto
  have split: "u mod 16 ^ Suc (Suc n) = 16 * (u div 16 mod 16 ^ Suc n) + u mod 16"
    using mod_mult2_eq [of u 16 "16 ^ Suc n"] by simp
  have "hex_number b acc (hex_digits (Suc n) (u div 16) @ [hex_char u]) =
        hex_number True (acc * 16 ^ Suc n + u div 16 mod 16 ^ Suc n) [hex_char u]"
    using Suc [of b acc "u div 16"] by (intro hex_number_append set_hex_digits) auto
  also have "\<dots> = Some (16 * (acc * 16 ^ Suc n + u div 16 mod 16 ^ Suc n) + u mod 16)"
    using ne by (simp only: hex_number.simps hex_val_hex_char if_False option.case if_True)
  also have "\<dots> = Some (acc * 16 ^ Suc (Suc n) + u mod 16 ^ Suc (Suc n))"
    unfolding split by simp
  finally show ?case by (subst hex_digits.simps(2))
qed

lemma starts_with_drop_notin: "x \<notin> set s \<Longrightarrow> x \<in> set old \<Longrightarrow> \<not> contains s old"
  by (auto simp: contains_iff)

lemma replace_notin: "x \<notin> set s \<Longrightarrow> x \<in> set old \<Longrightarrow> replace old new s = s"
  by (rule replace_none) (rule starts_with_drop_notin)

lemma replace_char: "replace [x] [] s = filter (\<lambda>c. c \<noteq> x) s"
  by (induction s) auto

lemma dropWhile_noop: "(\<forall>c \<in> set s. \<not> P c) \<Longrightarrow> dropWhile P s = s"
  by (cases s) auto

lemma trim_noop: "(\<forall>c \<in> set s. \<not> P c) \<Longrightarrow> trim P s = s"
  by (simp add: trim_def dropWhile_noop)

lemma hex_chars_plain:
  "c \<in> hex_chars \<Longrightarrow> \<not> is_brace c \<and> \<not> int_space c \<and> c \<notin> set ''-+xXur''"
  by (auto simp: is_brace_def int_space_def)

lemma after_prefix_hex: "set s \<subseteq> hex_chars \<Longrightarrow> after_prefix s = hex_number False 0 s"
  by (cases s rule: after_prefix.cases) (use hex_chars_plain in auto)

lemma int_of_hex_digits: "int_of_hex (hex_digits (Suc n) u) = Some (int (u mod 16 ^ Suc n))"
proof -
  let ?h = "hex_digits (Suc n) u"
  have sub: "set ?h \<subseteq> hex_chars" by (rule set_hex_digits)
  then have "trim int_space ?h = ?h" using hex_chars_plain by (intro trim_noop) blast
  moreover obtain c cs where h: "?h = c # cs"
    by (cases ?h) (use length_hex_digits [of "Suc n" u] in simp_all)
  moreover have "c \<noteq> CHR ''-''" "c \<noteq> CHR ''+''"
    using sub hex_chars_plain [of c] unfolding h by auto
  moreover have "after_prefix ?h = Some (u mod 16 ^ Suc n)"
    using after_prefix_hex [OF sub] hex_number_digits [of False 0 n u] by simp
  ultimately show ?thesis by (simp add: int_of_hex_def del: hex_digits.simps)
qed

lemma take_drop_pieces:
  "take 8 h @ take 4 (drop 8 h) @ take 4 (drop 12 h) @ take 4 (drop 16 h) @ drop 20 h = h"
proof -
  have "drop 8 h = take 4 (drop 8 h) @ drop 12 h"
    using append_take_drop_id [of 4 "drop 8 h"] by simp
  moreover have "drop 12 h = take 4 (drop 12 h) @ drop 16 h"
    using append_take_drop_id [of 4 "drop 12 h"] by simp
  moreover have "drop 16 h = take 4 (drop 16 h) @ drop 20 h"
    using append_take_drop_id [of 4 "drop 16 h"] by simp
  ultimately show ?thesis by (metis append_take_drop_id)
qed

lemma set_piece:
  "set (take n (drop m h)) \<subseteq> set h" "set (take n h) \<subseteq> set h" "set (drop n h) \<subseteq> set h"
  by (meson set_drop_subset set_take_subset subset_trans)+

lemma set_uuid_str: "set (uuid_str u) \<subseteq> insert (CHR ''-'') hex_chars"
proof -
  note pieces = set_piece [where h = "hex_digits 32 u", THEN subset_trans, OF set_hex_digits]
  have hy: "set ''-'' \<subseteq> insert (CHR ''-'') hex_chars" by simp
  show ?thesis
    unfolding uuid_str_def Let_def hyphen_def set_append
    by (intro Un_least; (rule hy | rule subset_insertI2, rule pieces))
qed

lemma filter_hyphens: "filter (\<lambda>c. c \<noteq> CHR ''-'') (uuid_str u) = hex_digits 32 u"
proof -
  have "\<forall>c \<in> set (hex_digits 32 u). c \<noteq> CHR ''-''"
    using set_hex_digits [of 32 u] by auto
  then have keep: "filter (\<lambda>c. c \<noteq> CHR ''-'') xs = xs" if "set xs \<subseteq> set (hex_digits 32 u)" for xs
    using that by (intro filter_True) blast
  show ?thesis
    unfolding uuid_str_def Let_def hyphen_def
    by (simp add: keep set_piece take_drop_pieces del: hex_digits.simps)
qed

lemma uuid_roundtrip: "u < 2 ^ 128 \<Longrightarrow> uuid_of (uuid_str u) = Some u"
proof -
  assume u: "u < 2 ^ 128"
  have plain: "c \<notin> set (uuid_str u)" if "c \<notin> insert (CHR ''-'') hex_chars" for c
    using that set_uuid_str by blast
  have "replace ''urn:'' [] (uuid_str u) = uuid_str u"
    by (rule replace_notin [where x = "CHR ''u''"]) (simp_all add: plain)
  moreover have "replace ''uuid:'' [] (uuid_str u) = uuid_str u"
    by (rule replace_notin [where x = "CHR ''u''"]) (simp_all add: plain)
  moreover have "trim is_brace (uuid_str u) = uuid_str u"
    using set_uuid_str [of u] by (intro trim_noop) (auto simp: is_brace_def)
  moreover have "int_of_hex (hex_digits 32 u) = Some (int u)"
    using int_of_hex_digits [of 31 u] u by (simp del: hex_digits.simps)
  ultimately show ?thesis
    using u by (simp add: uuid_of_def hyphen_def replace_char filter_hyphens Let_def
        del: hex_digits.simps)
qed

lemma uuid_str_inject: "u < 2 ^ 128 \<Longrightarrow> v < 2 ^ 128 \<Longrightarrow> uuid_str u = uuid_str v \<longleftrightarrow> u = v"
  using uuid_roundtrip by (metis option.inject)

lemma uuid_of_bound: "uuid_of s = Some u \<Longrightarrow> u < 2 ^ 128"
  by (auto simp: uuid_of_def Let_def nat_less_iff split: if_splits option.splits)

end
