(* ===== verification/Py_Value.thy ===== *)
theory Py_Value
  imports Py_Uuid Truth_Values "HOL-Library.Char_ord" "HOL-Library.List_Lexorder"
begin

section \<open>Python values, numbers from text, and JSON text\<close>

text \<open>
  The values consolidation reads from loosely typed inputs: \<open>str\<close>, \<open>float\<close> and truthiness of them,
  and \<open>json.dumps(value, sort_keys=True, separators=(",", ":"), default=str)\<close>, the text every
  content hash is computed from.  A number is the text \<open>repr\<close> prints for it; the \<open>repr\<close> of a
  container is the parameter \<open>shown\<close>.
\<close>

datatype py =
    PyNone
  | PyBool bool
  | PyNum string
  | PyStr string
  | PyUuid uuid
  | PyList "py list"
  | PyDict "(string \<times> py) list"

fun py_truthy :: "py \<Rightarrow> bool" where
  "py_truthy PyNone = False"
| "py_truthy (PyBool b) = b"
| "py_truthy (PyNum t) = (t \<notin> {''0'', ''0.0'', ''-0.0''})"
| "py_truthy (PyStr s) = (s \<noteq> [])"
| "py_truthy (PyUuid u) = True"
| "py_truthy (PyList xs) = (xs \<noteq> [])"
| "py_truthy (PyDict kvs) = (kvs \<noteq> [])"

fun pstr :: "(py \<Rightarrow> string) \<Rightarrow> py \<Rightarrow> string" where
  "pstr shown PyNone = ''None''"
| "pstr shown (PyBool b) = (if b then ''True'' else ''False'')"
| "pstr shown (PyNum t) = t"
| "pstr shown (PyStr s) = s"
| "pstr shown (PyUuid u) = uuid_str u"
| "pstr shown v = shown v"

subsection \<open>Floating-point text\<close>

datatype pfloat = Finite rat | PosInf | NegInf | NotANumber

text \<open>An underscore is accepted between two digits only, and dropped.\<close>

fun drop_underscores :: "bool \<Rightarrow> string \<Rightarrow> string option" where
  "drop_underscores after_digit [] = Some []"
| "drop_underscores after_digit (c # cs) =
     (if c = CHR ''_''
      then (if after_digit \<and> cs \<noteq> [] \<and> is_decimal (hd cs) then drop_underscores False cs else None)
      else map_option (\<lambda>r. c # r) (drop_underscores (is_decimal c) cs))"

fun signed :: "string \<Rightarrow> bool \<times> string" where
  "signed [] = (False, [])"
| "signed (c # cs) =
     (if c = CHR ''-'' then (True, cs) else if c = CHR ''+'' then (False, cs) else (False, c # cs))"

definition scaled :: "rat \<Rightarrow> bool \<Rightarrow> nat \<Rightarrow> rat" where
  "scaled v down e = (if down then v / 10 ^ e else v * 10 ^ e)"

definition decimal_number :: "string \<Rightarrow> rat option" where
  "decimal_number t =
     (let whole = takeWhile is_decimal t;
          rest = dropWhile is_decimal t;
          dot = rest \<noteq> [] \<and> hd rest = CHR ''.'';
          frac = (if dot then takeWhile is_decimal (tl rest) else []);
          tail = (if dot then dropWhile is_decimal (tl rest) else rest);
          v = of_nat (digits_val (whole @ frac)) / 10 ^ length frac
      in if whole = [] \<and> frac = [] then None
         else case tail of
                [] \<Rightarrow> Some v
              | c # cs \<Rightarrow>
                  (case signed cs of (down, ds) \<Rightarrow>
                     if (c = CHR ''e'' \<or> c = CHR ''E'') \<and> ds \<noteq> [] \<and> list_all is_decimal ds
                     then Some (scaled v down (digits_val ds)) else None))"

definition unsigned_float :: "bool \<Rightarrow> string \<Rightarrow> pfloat option" where
  "unsigned_float negative t =
     (let name = lower t in
      if name = ''inf'' \<or> name = ''infinity'' then Some (if negative then NegInf else PosInf)
      else if name = ''nan'' then Some NotANumber
      else map_option (\<lambda>v. Finite (if negative then - v else v)) (decimal_number t))"

definition float_text :: "string \<Rightarrow> pfloat option" where
  "float_text s =
     (case drop_underscores False (trim int_space s) of
        None \<Rightarrow> None
      | Some t \<Rightarrow> (case signed t of (negative, u) \<Rightarrow> unsigned_float negative u))"

text \<open>\<open>float(value)\<close>; \<open>None\<close> is a \<open>TypeError\<close> or \<open>ValueError\<close>.\<close>

fun py_float :: "py \<Rightarrow> pfloat option" where
  "py_float (PyBool b) = Some (Finite (if b then 1 else 0))"
| "py_float (PyNum t) = float_text t"
| "py_float (PyStr s) = float_text s"
| "py_float _ = None"

text \<open>
  \<open>max(0.0, min(1.0, n))\<close>.  \<open>min\<close> keeps its first argument unless the second is smaller, and no
  comparison with a NaN holds, so a NaN comes out as one.
\<close>

fun clamp :: "pfloat \<Rightarrow> rat" where
  "clamp (Finite r) = max 0 (min 1 r)"
| "clamp PosInf = 1"
| "clamp NegInf = 0"
| "clamp NotANumber = 1"

lemma clamp_bounds: "0 \<le> clamp f \<and> clamp f \<le> 1"
  by (cases f) auto

lemma clamp_clamp [simp]:
  "min 1 (clamp f) = clamp f" "max 0 (clamp f) = clamp f" "max 0 (min 1 (clamp f)) = clamp f"
  using clamp_bounds [of f] by auto

subsection \<open>JSON text\<close>

definition quote_mark :: char where "quote_mark = CHR 0x22"

definition escape_char :: "char \<Rightarrow> string" where
  "escape_char c =
     (let n = code c in
      if c = quote_mark then [CHR 0x5C, quote_mark]
      else if n = 92 then [CHR 0x5C, CHR 0x5C]
      else if n = 10 then [CHR 0x5C, CHR ''n'']
      else if n = 13 then [CHR 0x5C, CHR ''r'']
      else if n = 9 then [CHR 0x5C, CHR ''t'']
      else if n = 12 then [CHR 0x5C, CHR ''f'']
      else if n = 8 then [CHR 0x5C, CHR ''b'']
      else if 32 \<le> n \<and> n \<le> 126 then [c]
      else [CHR 0x5C, CHR ''u''] @ hex_digits 4 n)"

definition json_string :: "string \<Rightarrow> string" where
  "json_string s = [quote_mark] @ concat (map escape_char s) @ [quote_mark]"

definition json_number :: "string \<Rightarrow> string" where
  "json_number t =
     (if t = ''nan'' then ''NaN'' else if t = ''inf'' then ''Infinity''
      else if t = ''-inf'' then ''-Infinity'' else t)"

function dumps :: "py \<Rightarrow> string" where
  "dumps PyNone = ''null''"
| "dumps (PyBool b) = (if b then ''true'' else ''false'')"
| "dumps (PyNum t) = json_number t"
| "dumps (PyStr s) = json_string s"
| "dumps (PyUuid u) = json_string (uuid_str u)"
| "dumps (PyList xs) = ''['' @ join '','' (map dumps xs) @ '']''"
| "dumps (PyDict kvs) =
     ''{'' @ join '','' (map (\<lambda>p. json_string (fst p) @ '':'' @ snd p)
        (sort_key fst (map (\<lambda>p. (fst p, dumps (snd p))) kvs))) @ ''}''"
  by pat_completeness auto

lemma size_dict_member:
  "p \<in> set kvs \<Longrightarrow> size (snd p) < size (PyDict kvs)"
proof -
  assume "p \<in> set kvs"
  then have "size (snd p) \<le> size_list (size_prod (\<lambda>_. 0) size) kvs"
    by (rule size_list_estimation') (cases p, simp add: size_prod_simp)
  then show ?thesis by simp
qed

termination dumps
proof (relation "measure size")
  fix xs :: "py list" and x assume "x \<in> set xs"
  then have "size x \<le> size_list size xs" by (rule size_list_estimation') simp
  then show "(x, PyList xs) \<in> measure size" by simp
next
  fix kvs :: "(string \<times> py) list" and p assume "p \<in> set kvs"
  then show "(snd p, PyDict kvs) \<in> measure size" unfolding in_measure by (rule size_dict_member)
qed simp

subsection \<open>The first of each\<close>

text \<open>A list without the values whose marker was seen before.\<close>

fun unique_from :: "('v \<Rightarrow> 'k) \<Rightarrow> 'k set \<Rightarrow> 'v list \<Rightarrow> 'v list" where
  "unique_from marker seen [] = []"
| "unique_from marker seen (v # vs) =
     (if marker v \<in> seen then unique_from marker seen vs
      else v # unique_from marker (insert (marker v) seen) vs)"

definition unique :: "('v \<Rightarrow> 'k) \<Rightarrow> 'v list \<Rightarrow> 'v list" where
  "unique marker vs = unique_from marker {} vs"

lemma set_unique_from:
  "marker ` set (unique_from marker seen vs) = marker ` set vs - seen"
  by (induction vs arbitrary: seen) auto

lemma distinct_unique_from: "distinct (map marker (unique_from marker seen vs))"
  by (induction vs arbitrary: seen) (auto simp: set_unique_from)

lemma unique_distinct: "distinct (map marker (unique marker vs))"
  by (simp add: unique_def distinct_unique_from)

lemma set_unique: "marker ` set (unique marker vs) = marker ` set vs"
  by (simp add: unique_def set_unique_from)

end
