(* ===== verification/Admission.thy ===== *)
theory Admission
  imports Py_Value
begin

section \<open>The risk-tiered admission policy\<close>

text \<open>
  The conversions and the policy of \<open>contexta/core/consolidation/memory.py\<close>: which proposals are
  admitted, sent to review or rejected.  Confidences and thresholds are rationals.
\<close>

named_theorems admission_simps

subsection \<open>Conversions\<close>

fun as_sequence :: "py \<Rightarrow> py list" where
  "as_sequence PyNone = []"
| "as_sequence (PyList xs) = xs"
| "as_sequence v = [v]"

text \<open>\<open>if x not in result: result.append(x)\<close>\<close>

definition add_new :: "'a \<Rightarrow> 'a list \<Rightarrow> 'a list" where
  "add_new x xs = (if x \<in> set xs then xs else xs @ [x])"

fun uuid_value :: "(py \<Rightarrow> string) \<Rightarrow> py \<Rightarrow> uuid option" where
  "uuid_value shown (PyUuid u) = Some u"
| "uuid_value shown v = uuid_of (pstr shown v)"

definition uuid_values :: "(py \<Rightarrow> string) \<Rightarrow> py list \<Rightarrow> uuid list" where
  "uuid_values shown vs =
     fold (\<lambda>v r. case uuid_value shown v of None \<Rightarrow> r | Some u \<Rightarrow> add_new u r) vs []"

definition string_values :: "(py \<Rightarrow> string) \<Rightarrow> py list \<Rightarrow> string list" where
  "string_values shown vs =
     fold (\<lambda>v r. if v = PyNone then r
        else let text = strip (pstr shown v) in if text \<noteq> [] then add_new text r else r) vs []"

definition confidence_of :: "py \<Rightarrow> rat" where
  "confidence_of v = (case py_float v of None \<Rightarrow> 0 | Some f \<Rightarrow> clamp f)"

text \<open>\<open>_value_of\<close> on a member name: the enumeration's value it normalises to.\<close>

definition value_of :: "string list \<Rightarrow> string \<Rightarrow> string option" where
  "value_of members s =
     (let n = replace ''-'' ''_'' (lower (strip s)) in if n \<in> set members then Some n else None)"

definition proposal_types :: "string list" where
  "proposal_types = [''fact'', ''merge'', ''supersession'', ''block_update'', ''summary'', ''gap'']"

definition validation_states :: "string list" where
  "validation_states =
     [''pending'', ''validated'', ''needs_review'', ''rejected'', ''approved'', ''applied'']"

definition admission_states :: "string list" where
  "admission_states = [''admitted'', ''review'', ''rejected'']"

definition risk_tiers :: "string list" where
  "risk_tiers = [''low'', ''medium'', ''high'', ''critical'']"

subsection \<open>The policy\<close>

definition default_risk :: "(string \<times> string) list" where
  "default_risk =
     [(''fact'', ''low''), (''summary'', ''low''), (''gap'', ''low''), (''merge'', ''medium''),
      (''block_update'', ''high''), (''supersession'', ''critical'')]"

definition default_confidence :: "(string \<times> rat) list" where
  "default_confidence =
     [(''low'', 65 / 100), (''medium'', 80 / 100), (''high'', 90 / 100), (''critical'', 95 / 100)]"

definition default_evidence :: "(string \<times> int) list" where
  "default_evidence = [(''low'', 1), (''medium'', 2), (''high'', 2), (''critical'', 3)]"

definition default_supporting :: "(string \<times> int) list" where
  "default_supporting = [(''low'', 1), (''medium'', 2), (''high'', 2), (''critical'', 3)]"

record policy =
  po_confidence :: "string \<Rightarrow> rat option"
  po_evidence :: "string \<Rightarrow> int option"
  po_supporting :: "string \<Rightarrow> int option"

text \<open>\<open>{risk_key(k): v for k, v in {**base, **custom}.items()}\<close>: of two entries the later wins.\<close>

definition tier_entries :: "(string \<times> 'v) list \<Rightarrow> (string \<times> 'v) list \<Rightarrow> (string \<times> 'v) list" where
  "tier_entries base custom =
     map (\<lambda>(k, v). (k, case map_of custom k of Some w \<Rightarrow> w | None \<Rightarrow> v)) base @
     filter (\<lambda>(k, _). k \<notin> fst ` set base) custom"

definition tier_map :: "(string \<times> 'v) list \<Rightarrow> (string \<times> 'v) list \<Rightarrow> string \<Rightarrow> 'v option" where
  "tier_map base custom tier =
     map_of (rev (map (\<lambda>(k, v). (lower k, v)) (tier_entries base custom))) tier"

definition new_policy ::
  "(string \<times> rat) list \<Rightarrow> (string \<times> int) list \<Rightarrow> (string \<times> int) list \<Rightarrow> policy" where
  "new_policy confidence evidence supporting =
     \<lparr>po_confidence = tier_map default_confidence confidence,
      po_evidence = map_option (max 1) \<circ> tier_map default_evidence evidence,
      po_supporting = map_option (max 1) \<circ> tier_map default_supporting supporting\<rparr>"

definition default_policy :: policy where
  "default_policy = new_policy [] [] []"

text \<open>\<open>self.minimum_...[risk]\<close>; the keys of the defaults are always there.\<close>

definition minimum :: "(string \<Rightarrow> 'v option) \<Rightarrow> string \<Rightarrow> 'v" where
  "minimum m risk = the (m risk)"

definition risk_for :: "string \<Rightarrow> string" where
  "risk_for proposal =
     (case value_of proposal_types proposal of
        None \<Rightarrow> ''high''
      | Some p \<Rightarrow> the (map_of default_risk p))"

record admission =
  ad_action :: string
  ad_admitted :: bool
  ad_risk :: string
  ad_state :: string
  ad_reason :: string
  ad_evidence :: int
  ad_supporting :: int
  ad_review :: bool
  ad_auto_apply :: bool

definition admission_decision ::
  "string \<Rightarrow> string \<Rightarrow> string \<Rightarrow> string \<Rightarrow> int \<Rightarrow> int \<Rightarrow> bool \<Rightarrow> admission" where
  "admission_decision action risk state reason evidence supporting review =
     \<lparr>ad_action = action, ad_admitted = (action \<in> {''admit'', ''review''}), ad_risk = risk,
      ad_state = state, ad_reason = reason, ad_evidence = evidence, ad_supporting = supporting,
      ad_review = review, ad_auto_apply = False\<rparr>"

definition admission_state :: "admission \<Rightarrow> string" where
  "admission_state a =
     (if ad_action a = ''admit'' then ''admitted''
      else if ad_action a = ''reject'' then ''rejected'' else ''review'')"

text \<open>\<open>max(counted, given)\<close> when the caller passes a count.\<close>

definition counted :: "string list \<Rightarrow> int option \<Rightarrow> int" where
  "counted markers given =
     (let n = int (length (unique id markers)) in case given of None \<Rightarrow> n | Some k \<Rightarrow> max n k)"

definition chosen_risk :: "string \<Rightarrow> string option \<Rightarrow> string" where
  "chosen_risk proposal tier =
     (let risk = (case tier of Some t \<Rightarrow> lower t | None \<Rightarrow> risk_for proposal)
      in if risk \<in> fst ` set default_confidence then risk else ''high'')"

definition short_action :: "string \<Rightarrow> string" where
  "short_action risk = (if risk = ''critical'' then ''reject'' else ''review'')"

text \<open>The evidence and supporting references are passed by their \<open>str\<close>.\<close>

definition evaluate ::
  "policy \<Rightarrow> string \<Rightarrow> pfloat \<Rightarrow> string list \<Rightarrow> string list \<Rightarrow> string option \<Rightarrow>
   int option \<Rightarrow> int option \<Rightarrow> admission" where
  "evaluate po proposal_type confidence evidence_ids supporting_ids risk_tier evidence_count
      supporting_count =
     (case value_of proposal_types proposal_type of
        None \<Rightarrow>
          admission_decision ''reject'' ''high'' ''rejected'' ''unsupported_proposal_type'' 0 0 False
      | Some proposal \<Rightarrow>
          (let risk = chosen_risk proposal risk_tier;
               evidence = counted evidence_ids evidence_count;
               supporting = counted supporting_ids supporting_count
           in if evidence = 0
              then admission_decision ''reject'' risk ''rejected'' ''missing_evidence''
                     evidence supporting False
              else if evidence < minimum (po_evidence po) risk
              then admission_decision (short_action risk) risk ''needs_review''
                     ''insufficient_evidence'' evidence supporting (risk \<noteq> ''critical'')
              else if supporting < minimum (po_supporting po) risk
              then admission_decision (short_action risk) risk ''needs_review''
                     ''insufficient_supporting_references'' evidence supporting (risk \<noteq> ''critical'')
              else if clamp confidence < minimum (po_confidence po) risk
              then admission_decision ''review'' risk ''needs_review'' ''confidence_below_threshold''
                     evidence supporting True
              else if risk \<noteq> ''low''
              then admission_decision ''review'' risk ''needs_review'' ''high_risk_requires_review''
                     evidence supporting True
              else admission_decision ''admit'' risk ''validated''
                     ''evidence_and_confidence_satisfied'' evidence supporting False))"

subsection \<open>Lists without repetition\<close>

lemma length_unique: "length (unique id ms) = card (set ms)"
  using distinct_card [OF unique_distinct [of id ms]] set_unique [of id ms] by simp

lemma distinct_add_new [simp]: "distinct (add_new x xs) = distinct xs"
  by (simp add: add_new_def)

lemma set_add_new [simp]: "set (add_new x xs) = insert x (set xs)"
  by (auto simp: add_new_def)

definition adding :: "('v \<Rightarrow> 'a option) \<Rightarrow> 'v \<Rightarrow> 'a list \<Rightarrow> 'a list" where
  "adding f v r = (case f v of None \<Rightarrow> r | Some x \<Rightarrow> add_new x r)"

lemma fold_adding_distinct: "distinct r \<Longrightarrow> distinct (fold (adding f) vs r)"
  by (induction vs arbitrary: r) (auto simp: adding_def split: option.split)

lemma fold_adding_set: "set (fold (adding f) vs r) = set r \<union> {x. \<exists>v \<in> set vs. f v = Some x}"
  by (induction vs arbitrary: r) (auto simp: adding_def split: option.split)

lemma uuid_values_adding: "uuid_values shown vs = fold (adding (uuid_value shown)) vs []"
  by (simp add: uuid_values_def adding_def [abs_def])

lemma distinct_uuid_values [simp]: "distinct (uuid_values shown vs)"
  by (simp add: uuid_values_adding fold_adding_distinct)

lemma set_uuid_values:
  "set (uuid_values shown vs) = {u. \<exists>v \<in> set vs. uuid_value shown v = Some u}"
  by (simp add: uuid_values_adding fold_adding_set)

lemma fold_adding_known:
  "\<forall>v \<in> set vs. \<forall>x. f v = Some x \<longrightarrow> x \<in> set r \<Longrightarrow> fold (adding f) vs r = r"
  by (induction vs) (auto simp: adding_def add_new_def split: option.split)

lemma uuid_values_append_known:
  "set ws \<subseteq> set vs \<Longrightarrow> uuid_values shown (vs @ ws) = uuid_values shown vs"
  unfolding uuid_values_adding fold_append comp_def
  by (rule fold_adding_known) (auto simp: fold_adding_set)

lemma fold_adding_new: "distinct (r @ us) \<Longrightarrow> fold (adding (\<lambda>u. Some u)) us r = r @ us"
proof (induction us arbitrary: r)
  case (Cons u us)
  then have "fold (adding (\<lambda>u. Some u)) us (r @ [u]) = (r @ [u]) @ us" by (intro Cons.IH) simp
  moreover have "adding (\<lambda>u. Some u) u r = r @ [u]"
    using Cons.prems by (simp add: adding_def add_new_def)
  ultimately show ?case by simp
qed simp

text \<open>Converting what is already a list of distinct UUIDs changes nothing.\<close>

lemma fold_adding_map: "fold (adding f) (map g us) r = fold (adding (f \<circ> g)) us r"
  by (induction us arbitrary: r) (auto simp: adding_def)

lemma uuid_values_uuids [simp]: "distinct us \<Longrightarrow> uuid_values shown (map PyUuid us) = us"
  using fold_adding_new [of "[]" us] by (simp add: uuid_values_adding fold_adding_map comp_def)

subsection \<open>What the policy decides\<close>

lemma tier_map_default: "tier_map base [] t = map_of (rev (map (\<lambda>(k, v). (lower k, v)) base)) t"
  by (simp add: tier_map_def tier_entries_def case_prod_unfold)

lemma known_risk: "chosen_risk p tier \<in> set risk_tiers"
  by (auto simp: chosen_risk_def default_confidence_def risk_tiers_def Let_def)

lemmas evaluate_simps = evaluate_def admission_decision_def short_action_def admission_state_def

lemma evaluate_risk:
  "ad_risk (evaluate po t c es ss r ec sc) =
     (case value_of proposal_types t of None \<Rightarrow> ''high'' | Some p \<Rightarrow> chosen_risk p r)"
  by (simp add: evaluate_simps Let_def split: option.split)

lemma evaluate_risk_known: "ad_risk (evaluate po t c es ss r ec sc) \<in> set risk_tiers"
  unfolding evaluate_risk using known_risk by (simp add: risk_tiers_def split: option.split)

lemma evaluate_state_known:
  "ad_state (evaluate po t c es ss r ec sc) \<in> {''rejected'', ''needs_review'', ''validated''}"
  by (simp add: evaluate_simps Let_def split: option.split)

lemma admission_state_known: "admission_state a \<in> set admission_states"
  by (simp add: admission_state_def admission_states_def)

text \<open>Only a low-risk proposal with enough evidence and confidence is validated by the policy.\<close>

lemma evaluate_validated:
  "ad_state (evaluate po t c es ss r ec sc) = ''validated'' \<longleftrightarrow>
   (\<exists>p. value_of proposal_types t = Some p \<and> chosen_risk p r = ''low'' \<and> counted es ec \<noteq> 0
      \<and> minimum (po_evidence po) ''low'' \<le> counted es ec
      \<and> minimum (po_supporting po) ''low'' \<le> counted ss sc
      \<and> minimum (po_confidence po) ''low'' \<le> clamp c)"
  by (auto simp: evaluate_simps Let_def not_less split: option.split)

lemma evaluate_admits:
  "ad_action (evaluate po t c es ss r ec sc) = ''admit'' \<longleftrightarrow>
   ad_state (evaluate po t c es ss r ec sc) = ''validated''"
  by (simp add: evaluate_simps Let_def split: option.split)

lemma value_of_member: "value_of members s = Some n \<Longrightarrow> n \<in> set members"
  by (simp add: value_of_def Let_def split: if_splits)

end
