(* ===== verification/Proposal_Store.thy ===== *)
theory Proposal_Store
  imports Idempotent_Store Admission
begin

section \<open>Proposals and consolidated observations\<close>

text \<open>
  The two tables of consolidation (\<open>contexta/models/proposal.py\<close>, \<open>models/consolidation.py\<close>) and
  their repositories (\<open>repositories/proposal_repo.py\<close>, \<open>repositories/consolidation_repo.py\<close>).  A
  repository is its tenant; \<open>sha\<close> is SHA-256 of a text in hexadecimal.  \<open>cd_memories\<close> are the ids
  of \<open>memory_record\<close>, which the foreign keys of both tables refer to.
\<close>

subsection \<open>Rows\<close>

record evidence_ref =
  er_id :: string
  er_kind :: string
  er_fact :: "string option"
  er_confidence :: "rat option"
  er_text :: "string option"
  er_metadata :: "(string \<times> py) list"

record proposal =
  mp_id :: uuid
  mp_org :: uuid
  mp_user :: uuid
  mp_observation :: "uuid option"
  mp_type :: string
  mp_risk :: string
  mp_validation :: string
  mp_admission :: string
  mp_status :: string
  mp_key :: string
  mp_payload :: "(string \<times> py) list"
  mp_evidence :: "uuid list"
  mp_facts :: "string list"
  mp_supporting :: "uuid list"
  mp_sources :: "uuid list"
  mp_targets :: "uuid list"
  mp_refs :: "evidence_ref list"
  mp_confidence :: rat
  mp_rationale :: string
  mp_errors :: "(string \<times> py) list list"
  mp_metadata :: "(string \<times> py) list option"
  mp_canonical :: "uuid option"
  mp_validated_at :: "instant option"
  mp_rejected_at :: "instant option"
  mp_applied_at :: "instant option"
  mp_updated_at :: instant
  mp_created_at :: instant

record observed =
  co_id :: uuid
  co_org :: uuid
  co_user :: uuid
  co_type :: string
  co_content :: string
  co_structured :: "(string \<times> py) list"
  co_key :: string
  co_risk :: string
  co_admission :: string
  co_validation :: string
  co_status :: string
  co_confidence :: rat
  co_source_count :: nat
  co_evidence :: "uuid list"
  co_supporting :: "uuid list"
  co_sources :: "uuid list"
  co_facts :: "string list"
  co_refs :: "evidence_ref list"
  co_metadata :: "(string \<times> py) list option"
  co_applied_memory :: "uuid option"
  co_updated_at :: instant
  co_created_at :: instant

record proposal_db =
  cd_proposals :: "proposal list"
  cd_observations :: "observed list"
  cd_memories :: "uuid list"

subsection \<open>Record hashes\<close>

abbreviation id_texts :: "uuid list \<Rightarrow> py" where
  "id_texts us \<equiv> PyList (map (\<lambda>u. PyStr (uuid_str u)) us)"

abbreviation texts_of :: "string list \<Rightarrow> py" where
  "texts_of ss \<equiv> PyList (map PyStr ss)"

definition proposal_hash :: "(string \<Rightarrow> string) \<Rightarrow> proposal \<Rightarrow> string" where
  "proposal_hash sha r = sha (dumps (PyDict
     [(''proposal_type'', PyStr (mp_type r)),
      (''payload'', PyDict (mp_payload r)),
      (''evidence_ids'', id_texts (mp_evidence r)),
      (''fact_keys'', texts_of (mp_facts r)),
      (''supporting_ids'', id_texts (mp_supporting r)),
      (''source_observation_ids'', id_texts (mp_sources r)),
      (''target_memory_ids'', id_texts (mp_targets r))]))"

definition observation_hash :: "(string \<Rightarrow> string) \<Rightarrow> observed \<Rightarrow> string" where
  "observation_hash sha r = sha (dumps (PyDict
     [(''content'', PyStr (co_content r)),
      (''structured_data'', PyDict (co_structured r)),
      (''evidence_ids'', id_texts (co_evidence r)),
      (''supporting_ids'', id_texts (co_supporting r)),
      (''source_observation_ids'', id_texts (co_sources r)),
      (''fact_keys'', texts_of (co_facts r))]))"

subsection \<open>The proposal repository\<close>

definition observation_exists :: "uuid option \<Rightarrow> proposal_db \<Rightarrow> bool" where
  "observation_exists i d = (case i of None \<Rightarrow> True | Some o' \<Rightarrow> o' \<in> co_id ` set (cd_observations d))"

definition proposal_by_key :: "uuid \<Rightarrow> string \<Rightarrow> proposal_db \<Rightarrow> store_error + proposal option" where
  "proposal_by_key tenant k d = lookup_key mp_org mp_key tenant k (cd_proposals d)"

definition insert_proposal ::
  "(string \<Rightarrow> string) \<Rightarrow> uuid \<Rightarrow> instant \<Rightarrow> proposal list \<Rightarrow> bool \<Rightarrow> proposal \<Rightarrow> proposal_db \<Rightarrow>
   store_error + (proposal_db \<times> proposal \<times> bool)" where
  "insert_proposal sha tenant now race usable r d =
     ebind (table_insert mp_org mp_key mp_id (proposal_hash sha)
              (observation_exists (mp_observation r) d) tenant race usable
              (r\<lparr>mp_key := strip (mp_key r), mp_updated_at := now\<rparr>) (cd_proposals d))
       (\<lambda>(rows, s, b). Inr (d\<lparr>cd_proposals := rows\<rparr>, s, b))"

definition get_proposal :: "uuid \<Rightarrow> uuid \<Rightarrow> proposal_db \<Rightarrow> proposal option" where
  "get_proposal tenant i d = read_row mp_org mp_id tenant i (cd_proposals d)"

definition update_proposal ::
  "uuid \<Rightarrow> uuid \<Rightarrow> (proposal \<Rightarrow> proposal) \<Rightarrow> proposal_db \<Rightarrow> proposal_db \<times> nat" where
  "update_proposal tenant i f d =
     (case update_row mp_org mp_id tenant i f (cd_proposals d) of
        (rows, n) \<Rightarrow> (d\<lparr>cd_proposals := rows\<rparr>, n))"

definition validation_values ::
  "string \<Rightarrow> (string \<times> py) list list \<Rightarrow> instant \<Rightarrow> proposal \<Rightarrow> proposal" where
  "validation_values state errors now r =
     r\<lparr>mp_validation := state, mp_errors := errors, mp_updated_at := now,
       mp_validated_at := (if state = ''validated'' then Some now else mp_validated_at r),
       mp_rejected_at := (if state = ''rejected'' then Some now else mp_rejected_at r),
       mp_admission := (if state = ''rejected'' then ''rejected'' else mp_admission r),
       mp_applied_at := (if state = ''applied'' then Some now else mp_applied_at r)\<rparr>"

definition update_validation_state ::
  "uuid \<Rightarrow> uuid \<Rightarrow> string \<Rightarrow> (string \<times> py) list list \<Rightarrow> instant \<Rightarrow> proposal_db \<Rightarrow> proposal_db \<times> nat" where
  "update_validation_state tenant i state errors now d =
     update_proposal tenant i (validation_values state errors now) d"

definition mark_validated where
  "mark_validated tenant i errors now d = update_validation_state tenant i ''validated'' errors now d"

definition mark_needs_review where
  "mark_needs_review tenant i errors now d =
     update_validation_state tenant i ''needs_review'' errors now d"

definition mark_rejected ::
  "uuid \<Rightarrow> uuid \<Rightarrow> string \<Rightarrow> (string \<times> py) list list \<Rightarrow> instant \<Rightarrow> proposal_db \<Rightarrow> proposal_db \<times> nat" where
  "mark_rejected tenant i reason errors now d =
     update_validation_state tenant i ''rejected''
       (errors @ (if reason \<noteq> [] then [[(''reason'', PyStr reason)]] else [])) now d"

definition approve :: "uuid \<Rightarrow> uuid \<Rightarrow> instant \<Rightarrow> proposal_db \<Rightarrow> proposal_db \<times> nat" where
  "approve tenant i now d = update_validation_state tenant i ''approved'' [] now d"

definition applied_values :: "uuid option \<Rightarrow> instant \<Rightarrow> proposal \<Rightarrow> proposal" where
  "applied_values canonical now r =
     r\<lparr>mp_validation := ''applied'', mp_admission := ''admitted'', mp_status := ''applied'',
       mp_applied_at := Some now, mp_updated_at := now,
       mp_canonical := (case canonical of None \<Rightarrow> mp_canonical r | Some m \<Rightarrow> Some m)\<rparr>"

text \<open>\<open>canonical_memory_id\<close> refers to an existing memory; a row that is not there changes nothing.\<close>

definition memory_exists :: "uuid option \<Rightarrow> proposal_db \<Rightarrow> bool" where
  "memory_exists m d = (case m of None \<Rightarrow> True | Some i \<Rightarrow> i \<in> set (cd_memories d))"

definition mark_applied ::
  "uuid \<Rightarrow> uuid \<Rightarrow> uuid option \<Rightarrow> instant \<Rightarrow> proposal_db \<Rightarrow> store_error + (proposal_db \<times> nat)" where
  "mark_applied tenant i canonical now d =
     (if get_proposal tenant i d \<noteq> None \<and> \<not> memory_exists canonical d then Inl IntegrityFailed
      else Inr (update_proposal tenant i (applied_values canonical now) d))"

subsection \<open>Queries\<close>

definition of_user :: "uuid option \<Rightarrow> proposal \<Rightarrow> bool" where
  "of_user user r \<longleftrightarrow> (case user of None \<Rightarrow> True | Some u \<Rightarrow> mp_user r = u)"

text \<open>\<open>ORDER BY k DESC\<close>; rows that compare equal keep the table's order.\<close>

definition descending :: "('r \<Rightarrow> 'k :: linorder) \<Rightarrow> 'r list \<Rightarrow> 'r list" where
  "descending k rows = rev (sort_key k (rev rows))"

definition get_for_user :: "uuid \<Rightarrow> uuid \<Rightarrow> nat \<Rightarrow> nat \<Rightarrow> proposal_db \<Rightarrow> proposal list" where
  "get_for_user tenant user offset limit d =
     page offset limit (descending mp_created_at
       (filter (\<lambda>r. mp_user r = user \<and> mp_org r = tenant) (cd_proposals d)))"

definition get_by_validation_state ::
  "uuid \<Rightarrow> string \<Rightarrow> uuid option \<Rightarrow> nat \<Rightarrow> nat \<Rightarrow> proposal_db \<Rightarrow> proposal list" where
  "get_by_validation_state tenant state user offset limit d =
     page offset limit (sort_key mp_created_at
       (filter (\<lambda>r. mp_validation r = state \<and> of_user user r \<and> mp_org r = tenant) (cd_proposals d)))"

definition awaiting_review :: "string list" where
  "awaiting_review = [''pending'', ''needs_review'']"

definition get_review_queue :: "uuid \<Rightarrow> uuid option \<Rightarrow> nat \<Rightarrow> proposal_db \<Rightarrow> proposal list" where
  "get_review_queue tenant user limit d =
     page 0 limit (descending mp_risk (sort_key mp_created_at
       (filter (\<lambda>r. mp_validation r \<in> set awaiting_review \<and> of_user user r \<and> mp_org r = tenant)
          (cd_proposals d))))"

subsection \<open>The observation repository\<close>

definition observation_by_key :: "uuid \<Rightarrow> string \<Rightarrow> proposal_db \<Rightarrow> store_error + observed option" where
  "observation_by_key tenant k d = lookup_key co_org co_key tenant k (cd_observations d)"

definition insert_observed ::
  "(string \<Rightarrow> string) \<Rightarrow> uuid \<Rightarrow> instant \<Rightarrow> observed list \<Rightarrow> bool \<Rightarrow> observed \<Rightarrow> proposal_db \<Rightarrow>
   store_error + (proposal_db \<times> observed \<times> bool)" where
  "insert_observed sha tenant now race usable r d =
     ebind (table_insert co_org co_key co_id (observation_hash sha)
              (memory_exists (co_applied_memory r) d) tenant race usable
              (r\<lparr>co_key := strip (co_key r), co_updated_at := now\<rparr>) (cd_observations d))
       (\<lambda>(rows, s, b). Inr (d\<lparr>cd_observations := rows\<rparr>, s, b))"

definition update_observed ::
  "uuid \<Rightarrow> uuid \<Rightarrow> (observed \<Rightarrow> observed) \<Rightarrow> proposal_db \<Rightarrow> proposal_db \<times> nat" where
  "update_observed tenant i f d =
     (case update_row co_org co_id tenant i f (cd_observations d) of
        (rows, n) \<Rightarrow> (d\<lparr>cd_observations := rows\<rparr>, n))"

definition update_state ::
  "uuid \<Rightarrow> uuid \<Rightarrow> string \<Rightarrow> string option \<Rightarrow> instant \<Rightarrow> proposal_db \<Rightarrow> proposal_db \<times> nat" where
  "update_state tenant i state admission now d =
     update_observed tenant i
       (\<lambda>r. r\<lparr>co_validation := state, co_updated_at := now,
          co_admission := (case admission of None \<Rightarrow> co_admission r | Some a \<Rightarrow> a)\<rparr>) d"

definition mark_observed_applied ::
  "uuid \<Rightarrow> uuid \<Rightarrow> uuid option \<Rightarrow> instant \<Rightarrow> proposal_db \<Rightarrow> store_error + (proposal_db \<times> nat)" where
  "mark_observed_applied tenant i canonical now d =
     (if read_row co_org co_id tenant i (cd_observations d) \<noteq> None \<and> \<not> memory_exists canonical d
      then Inl IntegrityFailed
      else Inr (update_observed tenant i
        (\<lambda>r. r\<lparr>co_status := ''applied'', co_validation := ''applied'', co_updated_at := now,
           co_applied_memory := (case canonical of None \<Rightarrow> co_applied_memory r | Some m \<Rightarrow> Some m)\<rparr>) d))"

subsection \<open>Constraints and the interface\<close>

abbreviation proposals_ok :: "proposal list \<Rightarrow> bool" where
  "proposals_ok \<equiv> table_ok mp_org mp_key mp_id"

abbreviation observed_ok :: "observed list \<Rightarrow> bool" where
  "observed_ok \<equiv> table_ok co_org co_key co_id"

definition proposal_db_ok :: "proposal_db \<Rightarrow> bool" where
  "proposal_db_ok d \<longleftrightarrow> proposals_ok (cd_proposals d) \<and> observed_ok (cd_observations d)"

text \<open>The row an insert tries to store, its key trimmed.\<close>

definition stamped :: "instant \<Rightarrow> proposal \<Rightarrow> proposal" where
  "stamped now r = r\<lparr>mp_key := strip (mp_key r), mp_updated_at := now\<rparr>"

definition stamped_observed :: "instant \<Rightarrow> observed \<Rightarrow> observed" where
  "stamped_observed now r = r\<lparr>co_key := strip (co_key r), co_updated_at := now\<rparr>"

lemma proposal_hash_stamped [simp]:
  "proposal_hash sha (r\<lparr>mp_key := k, mp_updated_at := now\<rparr>) = proposal_hash sha r"
  "proposal_hash sha (stamped now r) = proposal_hash sha r"
  by (simp_all add: proposal_hash_def stamped_def)

lemma observation_hash_stamped [simp]:
  "observation_hash sha (r\<lparr>co_key := k, co_updated_at := now\<rparr>) = observation_hash sha r"
  "observation_hash sha (stamped_observed now r) = observation_hash sha r"
  by (simp_all add: observation_hash_def stamped_observed_def)

interpretation proposals: idempotent_store
  "\<lambda>rows k. row_with_key mp_org mp_key tenant k rows"
  "table_insert mp_org mp_key mp_id (proposal_hash sha) ok tenant [] usable"
  mp_key "proposal_hash sha" "table_ok mp_org mp_key mp_id"
  "\<lambda>r. mp_org r = tenant \<and> key_problem (mp_key r) = None"
  "\<lambda>r rows. \<not> violates mp_org mp_key mp_id ok r rows" for sha ok tenant usable
  by (rule table_idempotent_store)

interpretation observations: idempotent_store
  "\<lambda>rows k. row_with_key co_org co_key tenant k rows"
  "table_insert co_org co_key co_id (observation_hash sha) ok tenant [] usable"
  co_key "observation_hash sha" "table_ok co_org co_key co_id"
  "\<lambda>r. co_org r = tenant \<and> key_problem (co_key r) = None"
  "\<lambda>r rows. \<not> violates co_org co_key co_id ok r rows" for sha ok tenant usable
  by (rule table_idempotent_store)

end
