(* ===== verification/Consolidation.thy ===== *)
theory Consolidation
  imports Proposal_Store
begin

section \<open>Consolidation of evidence into proposals\<close>

text \<open>
  \<open>CortexConsolidationService\<close> of \<open>contexta/core/consolidation/memory.py\<close> over the two repositories:
  extracting references from the evidence, staging a consolidated observation and a proposal under
  an idempotency key, re-validating a proposal, and applying one through the canonical writer.  The
  writer is the caller's: a function of the proposal that changes the writer's own world \<open>'w\<close> and
  returns a value or raises (\<open>None\<close>).
\<close>

subsection \<open>The service and its inputs\<close>

record service =
  sv_tenant :: uuid
  sv_sha :: "string \<Rightarrow> string"
  sv_shown :: "py \<Rightarrow> string"
  sv_policy :: policy
  sv_staging :: bool

datatype consolidation_error =
  StoreError store_error | ProposalMissing | ProposalNotReady | WriterRequired | WriterRaised

record reference_in =
  ri_id :: py
  ri_kind :: string
  ri_fact :: "string option"
  ri_confidence :: "pfloat option"
  ri_text :: "string option"
  ri_metadata :: "(string \<times> py) list"

text \<open>An item of evidence: a reference object, a mapping (or an object's attributes), or a bare value.\<close>

datatype item = Reference reference_in | Fields "(string \<times> py) list" | Bare py

definition non_empty :: "string option \<Rightarrow> string option" where
  "non_empty s = (if truthy s then s else None)"

definition to_dict :: "(py \<Rightarrow> string) \<Rightarrow> reference_in \<Rightarrow> evidence_ref" where
  "to_dict shown r =
     \<lparr>er_id = pstr shown (ri_id r), er_kind = ri_kind r, er_fact = non_empty (ri_fact r),
      er_confidence = map_option clamp (ri_confidence r), er_text = non_empty (ri_text r),
      er_metadata = ri_metadata r\<rparr>"

text \<open>\<open>_value\<close>: the first of the names whose value is there and not \<open>None\<close>.\<close>

fun field :: "(string \<times> py) list \<Rightarrow> string list \<Rightarrow> py" where
  "field kvs [] = PyNone"
| "field kvs (n # ns) =
     (case map_of kvs n of Some v \<Rightarrow> if v \<noteq> PyNone then v else field kvs ns | None \<Rightarrow> field kvs ns)"

definition item_value :: "item \<Rightarrow> string list \<Rightarrow> py" where
  "item_value it names = (case it of Fields kvs \<Rightarrow> field kvs names | _ \<Rightarrow> PyNone)"

record extracted =
  ex_refs :: "evidence_ref list"
  ex_evidence :: "py list"
  ex_supporting :: "py list"
  ex_facts :: "string list"
  ex_texts :: "string list"

definition id_names :: "string list" where
  "id_names = [''evidence_id'', ''memory_id'', ''observation_id'', ''source_observation_id'', ''id'']"

definition item_identifier :: "item \<Rightarrow> py" where
  "item_identifier it =
     (case it of Bare (PyStr s) \<Rightarrow> PyStr s | Bare (PyUuid u) \<Rightarrow> PyUuid u | _ \<Rightarrow> item_value it id_names)"

text \<open>\<open>str(v)\<close> when \<open>v\<close> is not \<open>None\<close> and not blank, and when \<open>v\<close> is truthy.\<close>

definition shown_text :: "(py \<Rightarrow> string) \<Rightarrow> py \<Rightarrow> string option" where
  "shown_text shown v =
     (if v \<noteq> PyNone \<and> strip (pstr shown v) \<noteq> [] then Some (pstr shown v) else None)"

definition shown_truthy :: "(py \<Rightarrow> string) \<Rightarrow> py \<Rightarrow> string option" where
  "shown_truthy shown v = (if py_truthy v then Some (pstr shown v) else None)"

fun listed :: "'a option \<Rightarrow> 'a list" where
  "listed None = []"
| "listed (Some x) = [x]"

definition extract_reference :: "(py \<Rightarrow> string) \<Rightarrow> reference_in \<Rightarrow> extracted \<Rightarrow> extracted" where
  "extract_reference shown r ex =
     ex\<lparr>ex_refs := ex_refs ex @ [to_dict shown r], ex_evidence := ex_evidence ex @ [ri_id r],
        ex_facts := ex_facts ex @ listed (non_empty (ri_fact r)),
        ex_texts := ex_texts ex @ listed (non_empty (ri_text r))\<rparr>"

definition identified :: "(py \<Rightarrow> string) \<Rightarrow> item \<Rightarrow> extracted \<Rightarrow> extracted" where
  "identified shown it ex =
     (let identifier = item_identifier it; kind = item_value it [''kind''];
          fact_key = shown_truthy shown (item_value it [''fact_key'']);
          confidence = item_value it [''confidence''];
          text = shown_text shown (item_value it [''content'', ''text'', ''observation''])
      in if identifier = PyNone then ex
         else ex\<lparr>ex_evidence := ex_evidence ex @ [identifier],
              ex_facts := ex_facts ex @ listed fact_key,
              ex_texts := ex_texts ex @ listed text,
              ex_refs := ex_refs ex @
                [\<lparr>er_id = pstr shown identifier,
                  er_kind = (if kind = PyNone then ''memory'' else pstr shown kind),
                  er_fact = fact_key,
                  er_confidence = (if confidence = PyNone then None else Some (confidence_of confidence)),
                  er_text = text, er_metadata = []\<rparr>]\<rparr>)"

definition nested :: "(py \<Rightarrow> string) \<Rightarrow> item \<Rightarrow> extracted \<Rightarrow> extracted" where
  "nested shown it ex =
     ex\<lparr>ex_facts := ex_facts ex @ string_values shown (as_sequence (item_value it [''fact_keys''])),
        ex_evidence := ex_evidence ex @ as_sequence (item_value it [''evidence_ids'']),
        ex_supporting := ex_supporting ex @ as_sequence (item_value it [''supporting_ids''])
          @ as_sequence (item_value it [''source_observation_ids''])\<rparr>"

definition extract_item :: "(py \<Rightarrow> string) \<Rightarrow> item \<Rightarrow> extracted \<Rightarrow> extracted" where
  "extract_item shown it ex =
     (case it of
        Reference r \<Rightarrow> extract_reference shown r ex
      | _ \<Rightarrow> nested shown it (identified shown it ex))"

definition extract_items :: "(py \<Rightarrow> string) \<Rightarrow> item list \<Rightarrow> extracted" where
  "extract_items shown items =
     (let ex = fold (extract_item shown) items
        \<lparr>ex_refs = [], ex_evidence = [], ex_supporting = [], ex_facts = [], ex_texts = []\<rparr>
      in ex\<lparr>ex_evidence := unique (pstr shown) (ex_evidence ex),
            ex_supporting := unique (pstr shown) (ex_supporting ex),
            ex_facts := unique id (ex_facts ex), ex_texts := unique id (ex_texts ex)\<rparr>)"

fun content_field :: "(py \<Rightarrow> string) \<Rightarrow> (string \<times> py) list \<Rightarrow> string list \<Rightarrow> string option" where
  "content_field shown payload [] = None"
| "content_field shown payload (k # ks) =
     (case map_of payload k of
        Some v \<Rightarrow> (case shown_text shown v of Some t \<Rightarrow> Some t | None \<Rightarrow> content_field shown payload ks)
      | None \<Rightarrow> content_field shown payload ks)"

definition content_of :: "(py \<Rightarrow> string) \<Rightarrow> (string \<times> py) list \<Rightarrow> string list \<Rightarrow> string" where
  "content_of shown payload texts =
     (case content_field shown payload [''content'', ''text'', ''summary'', ''value''] of
        Some t \<Rightarrow> t
      | None \<Rightarrow> join [CHR 0x0A] texts)"

definition score :: "pfloat option \<Rightarrow> rat list \<Rightarrow> rat" where
  "score confidence references =
     (case confidence of
        Some c \<Rightarrow> clamp c
      | None \<Rightarrow>
          (let values = map (\<lambda>r. clamp (Finite r)) references
           in if values = [] then 0 else sum_list values / of_nat (length values)))"

definition idempotency_key ::
  "(string \<Rightarrow> string) \<Rightarrow> uuid \<Rightarrow> uuid \<Rightarrow> string \<Rightarrow> (string \<times> py) list \<Rightarrow> uuid list \<Rightarrow> uuid list \<Rightarrow>
   string list \<Rightarrow> string" where
  "idempotency_key sha org user type payload evidence support facts =
     ''cortex:proposal:'' @ sha (dumps (PyDict
       [(''organization_id'', PyStr (uuid_str org)), (''user_id'', PyStr (uuid_str user)),
        (''proposal_type'', PyStr type), (''payload'', PyDict payload),
        (''evidence_ids'', id_texts evidence), (''support_ids'', id_texts support),
        (''fact_keys'', texts_of facts)]))"

definition proposal_name :: "string \<Rightarrow> string" where
  "proposal_name type = (case value_of proposal_types type of Some n \<Rightarrow> n | None \<Rightarrow> type)"

abbreviation pids :: "uuid list \<Rightarrow> string list" where
  "pids us \<equiv> map uuid_str us"

subsection \<open>Proposals\<close>

record proposal_request =
  rq_org :: uuid
  rq_user :: uuid
  rq_type :: string
  rq_payload :: "(string \<times> py) list"
  rq_evidence :: "py list"
  rq_supporting :: "py list"
  rq_facts :: "py list"
  rq_sources :: "py list"
  rq_targets :: "py list"
  rq_refs :: "evidence_ref list"
  rq_confidence :: "pfloat option"
  rq_risk :: "string option"
  rq_rationale :: string
  rq_key :: "string option"
  rq_metadata :: "(string \<times> py) list option"
  rq_observation :: "uuid option"

definition default_refs :: "string \<Rightarrow> uuid list \<Rightarrow> evidence_ref list" where
  "default_refs kind us =
     map (\<lambda>u. \<lparr>er_id = uuid_str u, er_kind = kind, er_fact = None, er_confidence = None,
        er_text = None, er_metadata = []\<rparr>) us"

definition ref_scores :: "evidence_ref list \<Rightarrow> rat list" where
  "ref_scores refs = concat (map (\<lambda>r. listed (er_confidence r)) refs)"

text \<open>The record \<open>create_proposal\<close> builds; \<open>pid\<close> is its fresh id.\<close>

definition proposal_record :: "service \<Rightarrow> instant \<Rightarrow> uuid \<Rightarrow> proposal_request \<Rightarrow> proposal" where
  "proposal_record sv now pid rq =
     (let shown = sv_shown sv;
          name = proposal_name (rq_type rq);
          evidence = uuid_values shown (rq_evidence rq);
          support = uuid_values shown (rq_supporting rq @ map PyUuid evidence);
          facts = string_values shown (rq_facts rq);
          references = (if rq_refs rq = [] then default_refs ''memory'' evidence else rq_refs rq);
          s = score (rq_confidence rq) (ref_scores references);
          decision = evaluate (sv_policy sv) name (Finite s) (pids evidence) (pids support)
            (rq_risk rq) None None;
          key = (if truthy (rq_key rq) then the (rq_key rq)
            else idempotency_key (sv_sha sv) (rq_org rq) (rq_user rq) name (rq_payload rq)
              evidence support facts)
      in \<lparr>mp_id = pid, mp_org = rq_org rq, mp_user = rq_user rq, mp_observation = rq_observation rq,
          mp_type = name, mp_risk = ad_risk decision, mp_validation = ad_state decision,
          mp_admission = admission_state decision,
          mp_status = (if ad_admitted decision then ''proposed'' else ''rejected''),
          mp_key = key, mp_payload = rq_payload rq, mp_evidence = evidence, mp_facts = facts,
          mp_supporting = support, mp_sources = uuid_values shown (rq_sources rq),
          mp_targets = uuid_values shown (rq_targets rq), mp_refs = references,
          mp_confidence = s,
          mp_rationale = (if rq_rationale rq \<noteq> [] then rq_rationale rq else ad_reason decision),
          mp_errors = (if ad_action decision = ''reject''
            then [[(''code'', PyStr (ad_reason decision)), (''message'', PyStr (ad_reason decision))]]
            else []),
          mp_metadata = rq_metadata rq, mp_canonical = None, mp_validated_at = None,
          mp_rejected_at = None, mp_applied_at = None, mp_updated_at = now, mp_created_at = now\<rparr>)"

fun lift_store :: "store_error + 'a \<Rightarrow> consolidation_error + 'a" where
  "lift_store (Inl e) = Inl (StoreError e)"
| "lift_store (Inr x) = Inr x"

definition create_proposal ::
  "service \<Rightarrow> instant \<Rightarrow> uuid \<Rightarrow> proposal_request \<Rightarrow> proposal_db \<Rightarrow>
   consolidation_error + (proposal_db \<times> proposal)" where
  "create_proposal sv now pid rq d =
     ebind (lift_store (insert_proposal (sv_sha sv) (sv_tenant sv) now [] True
              (proposal_record sv now pid rq) d))
       (\<lambda>(d', s, _). Inr (d', s))"

definition validate_proposal ::
  "service \<Rightarrow> instant \<Rightarrow> uuid \<Rightarrow> proposal_db \<Rightarrow> consolidation_error + (proposal_db \<times> proposal)" where
  "validate_proposal sv now i d =
     (case get_proposal (sv_tenant sv) i d of
        None \<Rightarrow> Inl ProposalMissing
      | Some p \<Rightarrow>
          (let decision = evaluate (sv_policy sv) (mp_type p) (Finite (mp_confidence p))
                 (pids (mp_evidence p)) (pids (mp_supporting p)) (Some (mp_risk p)) None None;
               d' = fst (update_validation_state (sv_tenant sv) i (ad_state decision)
                 (if ad_action decision = ''reject'' then [[(''code'', PyStr (ad_reason decision))]]
                  else []) now d)
           in Inr (d', case get_proposal (sv_tenant sv) i d' of Some q \<Rightarrow> q | None \<Rightarrow> p)))"

subsection \<open>Consolidating evidence\<close>

record consolidation_request =
  cq_items :: "item list"
  cq_org :: uuid
  cq_user :: uuid
  cq_type :: string
  cq_payload :: "(string \<times> py) list"
  cq_evidence :: "py list"
  cq_supporting :: "py list"
  cq_facts :: "py list"
  cq_sources :: "py list"
  cq_targets :: "py list"
  cq_confidence :: "pfloat option"
  cq_risk :: "string option"
  cq_key :: "string option"
  cq_metadata :: "(string \<times> py) list option"

record consolidation_result =
  cr_observation :: observed
  cr_proposal :: proposal
  cr_admission :: admission

text \<open>What \<open>consolidate\<close> derives from its arguments before it writes.\<close>

record derived =
  dv_refs :: "evidence_ref list"
  dv_evidence :: "uuid list"
  dv_support :: "uuid list"
  dv_facts :: "string list"
  dv_key :: string
  dv_content :: string
  dv_score :: rat
  dv_decision :: admission

definition derive :: "service \<Rightarrow> consolidation_request \<Rightarrow> derived" where
  "derive sv cq =
     (let shown = sv_shown sv;
          ex = extract_items shown (cq_items cq);
          evidence = uuid_values shown (ex_evidence ex @ cq_evidence cq);
          support = uuid_values shown (ex_supporting ex @ cq_supporting cq @ map PyUuid evidence);
          facts = string_values shown (map PyStr (ex_facts ex) @ cq_facts cq);
          name = proposal_name (cq_type cq);
          first = evaluate (sv_policy sv) name
            (case cq_confidence cq of Some c \<Rightarrow> c | None \<Rightarrow> Finite 0)
            (pids evidence) (pids support) (cq_risk cq) None None;
          keyed = (if cq_payload cq \<noteq> [] then cq_payload cq
            else [(''texts'', texts_of (ex_texts ex))]);
          s = score (cq_confidence cq) (ref_scores (ex_refs ex))
      in \<lparr>dv_refs = (if ex_refs ex \<noteq> [] then ex_refs ex else default_refs ''reference'' evidence),
          dv_evidence = evidence, dv_support = support, dv_facts = facts,
          dv_key = (if truthy (cq_key cq) then the (cq_key cq)
            else idempotency_key (sv_sha sv) (cq_org cq) (cq_user cq) name keyed evidence support facts),
          dv_content = content_of shown (cq_payload cq) (ex_texts ex),
          dv_score = s,
          dv_decision = evaluate (sv_policy sv) name (Finite s) (pids evidence) (pids support)
            (Some (ad_risk first)) None None\<rparr>)"

definition staged_observation ::
  "service \<Rightarrow> instant \<Rightarrow> uuid \<Rightarrow> consolidation_request \<Rightarrow> derived \<Rightarrow> observed" where
  "staged_observation sv now oid cq dv =
     \<lparr>co_id = oid, co_org = cq_org cq, co_user = cq_user cq, co_type = proposal_name (cq_type cq),
      co_content = dv_content dv, co_structured = cq_payload cq, co_key = dv_key dv,
      co_risk = ad_risk (dv_decision dv), co_admission = admission_state (dv_decision dv),
      co_validation = ad_state (dv_decision dv),
      co_status = (if ad_admitted (dv_decision dv) then ''staged'' else ''rejected''),
      co_confidence = dv_score dv, co_source_count = length (cq_items cq),
      co_evidence = dv_evidence dv, co_supporting = dv_support dv,
      co_sources = uuid_values (sv_shown sv) (cq_sources cq), co_facts = dv_facts dv,
      co_refs = dv_refs dv, co_metadata = cq_metadata cq, co_applied_memory = None,
      co_updated_at = now, co_created_at = now\<rparr>"

definition persist_observation ::
  "service \<Rightarrow> instant \<Rightarrow> observed \<Rightarrow> proposal_db \<Rightarrow> consolidation_error + (proposal_db \<times> observed)" where
  "persist_observation sv now r d =
     (if sv_staging sv
      then ebind (lift_store (insert_observed (sv_sha sv) (sv_tenant sv) now [] True r d))
             (\<lambda>(d', s, _). Inr (d', s))
      else Inr (d, r))"

definition proposal_key :: "service \<Rightarrow> consolidation_request \<Rightarrow> string \<Rightarrow> string" where
  "proposal_key sv cq base =
     (let k = (if truthy (cq_key cq) then base else base @ '':proposal'')
      in if 255 < length k then ''cortex:proposal:'' @ sv_sha sv k else k)"

definition staged_request :: "service \<Rightarrow> consolidation_request \<Rightarrow> derived \<Rightarrow> uuid \<Rightarrow> proposal_request" where
  "staged_request sv cq dv observation =
     \<lparr>rq_org = cq_org cq, rq_user = cq_user cq, rq_type = proposal_name (cq_type cq),
      rq_payload = cq_payload cq, rq_evidence = map PyUuid (dv_evidence dv),
      rq_supporting = map PyUuid (dv_support dv), rq_facts = map PyStr (dv_facts dv),
      rq_sources = cq_sources cq, rq_targets = cq_targets cq, rq_refs = dv_refs dv,
      rq_confidence = Some (Finite (dv_score dv)), rq_risk = Some (ad_risk (dv_decision dv)),
      rq_rationale = ad_reason (dv_decision dv), rq_key = Some (proposal_key sv cq (dv_key dv)),
      rq_metadata = cq_metadata cq, rq_observation = Some observation\<rparr>"

definition consolidate ::
  "service \<Rightarrow> instant \<Rightarrow> uuid \<Rightarrow> uuid \<Rightarrow> consolidation_request \<Rightarrow> proposal_db \<Rightarrow>
   consolidation_error + (proposal_db \<times> consolidation_result)" where
  "consolidate sv now oid pid cq d =
     (let dv = derive sv cq in
      ebind (persist_observation sv now (staged_observation sv now oid cq dv) d) (\<lambda>(d1, observation).
      ebind (create_proposal sv now pid (staged_request sv cq dv (co_id observation)) d1) (\<lambda>(d2, p).
      Inr (d2, \<lparr>cr_observation = observation, cr_proposal = p, cr_admission = dv_decision dv\<rparr>))))"

subsection \<open>Applying a proposal\<close>

datatype writer_result = ResultId uuid | ResultMap "(string \<times> py) list" | ResultObject py py py

type_synonym 'w writer =
  "proposal \<Rightarrow> uuid \<Rightarrow> uuid \<Rightarrow> uuid option \<Rightarrow> 'w \<Rightarrow> 'w \<times> writer_result option"

text \<open>\<open>a or b\<close>\<close>

definition py_or :: "py \<Rightarrow> py \<Rightarrow> py" where
  "py_or a b = (if py_truthy a then a else b)"

definition named :: "(string \<times> py) list \<Rightarrow> string \<Rightarrow> py" where
  "named kvs k = (case map_of kvs k of Some v \<Rightarrow> v | None \<Rightarrow> PyNone)"

text \<open>The attributes of a result object are \<open>canonical_memory_id\<close>, \<open>memory_id\<close> and \<open>id\<close>.\<close>

definition canonical_id :: "(py \<Rightarrow> string) \<Rightarrow> writer_result \<Rightarrow> uuid option" where
  "canonical_id shown res =
     (let value = (case res of
        ResultId u \<Rightarrow> PyUuid u
      | ResultMap kvs \<Rightarrow> py_or (named kvs ''canonical_memory_id'') (named kvs ''memory_id'')
      | ResultObject canonical memory ident \<Rightarrow>
          (let v = py_or canonical memory in if v = PyNone then ident else v))
      in if value = PyNone then None else uuid_value shown value)"

datatype target = ById uuid | ByRow proposal

record applied =
  ap_proposal :: uuid
  ap_canonical :: "uuid option"
  ap_result :: writer_result

definition ready_states :: "string list" where
  "ready_states = [''validated'', ''approved'']"

definition target_row :: "service \<Rightarrow> target \<Rightarrow> proposal_db \<Rightarrow> proposal option" where
  "target_row sv t d = (case t of ById i \<Rightarrow> get_proposal (sv_tenant sv) i d | ByRow p \<Rightarrow> Some p)"

text \<open>A raised writer or a failed update leaves what the writer has done in its own world.\<close>

definition apply_proposal ::
  "service \<Rightarrow> instant \<Rightarrow> 'w writer option \<Rightarrow> uuid option \<Rightarrow> uuid option \<Rightarrow> target \<Rightarrow>
   proposal_db \<times> 'w \<Rightarrow> (proposal_db \<times> 'w) \<times> (consolidation_error + applied)" where
  "apply_proposal sv now writer actor canonical t s =
     (case s of (d, w) \<Rightarrow>
        (case writer of
           None \<Rightarrow> (s, Inl WriterRequired)
         | Some wr \<Rightarrow>
             (case target_row sv t d of
                None \<Rightarrow> (s, Inl ProposalMissing)
              | Some p \<Rightarrow>
                  if mp_validation p \<notin> set ready_states then (s, Inl ProposalNotReady)
                  else
                    (case wr p (mp_org p) (mp_user p) actor w of
                       (w', None) \<Rightarrow> ((d, w'), Inl WriterRaised)
                     | (w', Some res) \<Rightarrow>
                         (let memory = (case canonical of Some m \<Rightarrow> Some m
                            | None \<Rightarrow> canonical_id (sv_shown sv) res)
                          in case mark_applied (sv_tenant sv) (mp_id p) memory now d of
                               Inl e \<Rightarrow> ((d, w'), Inl (StoreError e))
                             | Inr (d', _) \<Rightarrow>
                                 ((d', w'), Inr \<lparr>ap_proposal = mp_id p, ap_canonical = memory,
                                    ap_result = res\<rparr>))))))"

end
