(* ===== verification/Consolidation_Runs.thy ===== *)
theory Consolidation_Runs
  imports Consolidation
begin

section \<open>Runs of consolidation and review\<close>

text \<open>
  The steps a tenant's proposals take: the automatic ones (creating, consolidating, re-validating,
  applying) and the reviewer's (marking and approving).  What every automatic step keeps of every
  row is proved once in \<open>automatic_keeps\<close>; the row invariants are its instances.
\<close>

subsection \<open>Steps\<close>

abbreviation rows_of :: "proposal_db \<times> 'w \<Rightarrow> proposal list" where
  "rows_of s \<equiv> cd_proposals (fst s)"

definition target_in :: "target \<Rightarrow> proposal_db \<Rightarrow> bool" where
  "target_in t d = (case t of ById i \<Rightarrow> True | ByRow p \<Rightarrow> p \<in> set (cd_proposals d))"

inductive automatic :: "service \<Rightarrow> 'w writer \<Rightarrow> proposal_db \<times> 'w \<Rightarrow> proposal_db \<times> 'w \<Rightarrow> bool"
  for sv wr where
  create: "create_proposal sv now pid rq d = Inr (d', p) \<Longrightarrow> automatic sv wr (d, w) (d', w)"
| consolidate: "consolidate sv now oid pid cq d = Inr (d', r) \<Longrightarrow> automatic sv wr (d, w) (d', w)"
| validate: "validate_proposal sv now i d = Inr (d', p) \<Longrightarrow> automatic sv wr (d, w) (d', w)"
| apply_step:
    "apply_proposal sv now (Some wr) actor canonical t (d, w) = (s', r) \<Longrightarrow> target_in t d \<Longrightarrow>
     automatic sv wr (d, w) s'"

inductive reviewing :: "uuid \<Rightarrow> proposal_db \<times> 'w \<Rightarrow> proposal_db \<times> 'w \<Rightarrow> bool" for tenant where
  mark_validated: "reviewing tenant (d, w) (fst (mark_validated tenant i errors now d), w)"
| mark_needs_review: "reviewing tenant (d, w) (fst (mark_needs_review tenant i errors now d), w)"
| mark_rejected: "reviewing tenant (d, w) (fst (mark_rejected tenant i reason errors now d), w)"
| approve: "reviewing tenant (d, w) (fst (approve tenant i now d), w)"

definition started :: "proposal_db \<times> 'w \<Rightarrow> bool" where
  "started s \<longleftrightarrow> cd_proposals (fst s) = [] \<and> cd_observations (fst s) = []"

text \<open>States reached with and without a reviewer.\<close>

inductive reached :: "bool \<Rightarrow> service \<Rightarrow> 'w writer \<Rightarrow> proposal_db \<times> 'w \<Rightarrow> bool"
  for reviewer sv wr where
  begin_run: "started s \<Longrightarrow> reached reviewer sv wr s"
| automatic_step: "reached reviewer sv wr s \<Longrightarrow> automatic sv wr s s' \<Longrightarrow> reached reviewer sv wr s'"
| review_step:
    "reached reviewer sv wr s \<Longrightarrow> reviewer \<Longrightarrow> reviewing (sv_tenant sv) s s' \<Longrightarrow>
     reached reviewer sv wr s'"

subsection \<open>What the operations do to the tables\<close>

lemma table_insert_rows:
  "table_insert org key ident content ok tenant [] usable r rows = Inr (rows', s, b) \<Longrightarrow>
   (rows' = rows \<or> rows' = rows @ [r] \<and> \<not> violates org key ident ok r rows) \<and> org r = tenant
   \<and> key_problem (key r) = None"
  by (auto simp: table_insert_def check_existing_def Let_def
      elim!: ebind_Inr_iff [THEN iffD1, elim_format] split: if_splits option.splits)

lemma insert_proposal_rows:
  assumes "insert_proposal sha tenant now [] usable r d = Inr (d', s, b)"
  shows "(d' = d \<or> d' = d\<lparr>cd_proposals := cd_proposals d @ [stamped now r]\<rparr>
      \<and> \<not> violates mp_org mp_key mp_id True (stamped now r) (cd_proposals d))
    \<and> key_problem (strip (mp_key r)) = None"
  using assms
  by (auto simp: insert_proposal_def ebind_Inr_iff stamped_def violates_def dest!: table_insert_rows)

lemma insert_observed_rows:
  assumes "insert_observed sha tenant now [] usable r d = Inr (d', s, b)"
  shows "d' = d \<or> d' = d\<lparr>cd_observations := cd_observations d @ [stamped_observed now r]\<rparr>
      \<and> \<not> violates co_org co_key co_id True (stamped_observed now r) (cd_observations d)"
  using assms
  by (auto simp: insert_observed_def ebind_Inr_iff stamped_observed_def violates_def dest!: table_insert_rows)

lemma lift_store_Inr: "lift_store m = Inr x \<longleftrightarrow> m = Inr x"
  by (cases m) auto

lemma create_proposal_rows:
  assumes "create_proposal sv now pid rq d = Inr (d', p)"
  defines "r \<equiv> stamped now (proposal_record sv now pid rq)"
  shows "d' = d \<or> d' = d\<lparr>cd_proposals := cd_proposals d @ [r]\<rparr>
      \<and> \<not> violates mp_org mp_key mp_id True r (cd_proposals d) \<and> key_problem (mp_key r) = None"
  using assms(1) unfolding r_def
  by (auto simp: create_proposal_def ebind_Inr_iff lift_store_Inr stamped_def dest!: insert_proposal_rows)

lemma persist_observation_rows:
  "persist_observation sv now r d = Inr (d', s) \<Longrightarrow> proposal_db_ok d \<Longrightarrow>
   proposal_db_ok d' \<and> cd_proposals d' = cd_proposals d"
  by (auto simp: persist_observation_def ebind_Inr_iff lift_store_Inr proposal_db_ok_def table_ok_snoc
      split: if_splits dest!: insert_observed_rows)

lemma create_proposal_ok:
  "create_proposal sv now pid rq d = Inr (d', p) \<Longrightarrow> proposal_db_ok d \<Longrightarrow> proposal_db_ok d'"
  by (auto simp: proposal_db_ok_def table_ok_snoc dest!: create_proposal_rows)

lemma update_row_fst:
  "fst (update_row org ident tenant i f rows) =
   map (\<lambda>r. if ident r = i \<and> org r = tenant then f r else r) rows"
  by (simp add: update_row_def)

lemma update_proposal_sel [table_simps]:
  "cd_proposals (fst (update_proposal tenant i f d)) =
     map (\<lambda>r. if mp_id r = i \<and> mp_org r = tenant then f r else r) (cd_proposals d)"
  "cd_observations (fst (update_proposal tenant i f d)) = cd_observations d"
  by (simp_all add: update_proposal_def update_row_def)

definition keeps_key :: "(proposal \<Rightarrow> proposal) \<Rightarrow> bool" where
  "keeps_key f \<longleftrightarrow> (\<forall>r. mp_id (f r) = mp_id r \<and> mp_org (f r) = mp_org r \<and> mp_key (f r) = mp_key r)"

lemma keeps_key_values [simp]:
  "keeps_key (validation_values state errors now)" "keeps_key (applied_values canonical now)"
  by (simp_all add: keeps_key_def validation_values_def applied_values_def)

lemma update_proposal_ok:
  assumes "proposal_db_ok d" and "keeps_key f"
  shows "proposal_db_ok (fst (update_proposal tenant i f d))"
proof -
  let ?g = "\<lambda>r. if mp_id r = i \<and> mp_org r = tenant then f r else r"
  have "(\<lambda>r. (mp_org r, mp_key r)) \<circ> ?g = (\<lambda>r. (mp_org r, mp_key r))" and "mp_id \<circ> ?g = mp_id"
    using assms(2) by (auto simp: keeps_key_def fun_eq_iff)
  then show ?thesis
    using assms(1) unfolding proposal_db_ok_def table_ok_def update_proposal_sel by simp
qed

lemma get_proposal_row:
  assumes "proposal_db_ok d" and "r \<in> set (cd_proposals d)" and "mp_id r = i" "mp_org r = tenant"
  shows "get_proposal tenant i d = Some r"
proof -
  have "distinct (map mp_id (cd_proposals d))" using assms(1) by (simp add: proposal_db_ok_def table_ok_def)
  then show ?thesis using assms(2-4)
    by (auto simp: get_proposal_def read_row_def find_Some_iff in_set_conv_nth nth_eq_iff_index_eq distinct_conv_nth)
qed

lemma get_proposal_Some:
  "get_proposal tenant i d = Some r \<Longrightarrow> r \<in> set (cd_proposals d) \<and> mp_id r = i \<and> mp_org r = tenant"
  by (auto simp: get_proposal_def read_row_def find_Some_iff)

lemma mark_applied_row:
  assumes "mark_applied tenant i canonical now d = Inr (d', n)"
  shows "d' = fst (update_proposal tenant i (applied_values canonical now) d)"
  using assms by (auto simp: mark_applied_def split: if_splits) 

text \<open>The policy's verdict on a stored row, which \<open>validate_proposal\<close> writes back.\<close>

definition verdict :: "service \<Rightarrow> proposal \<Rightarrow> admission" where
  "verdict sv p =
     evaluate (sv_policy sv) (mp_type p) (Finite (mp_confidence p)) (pids (mp_evidence p))
       (pids (mp_supporting p)) (Some (mp_risk p)) None None"

lemma validate_proposal_rows:
  assumes "validate_proposal sv now i d = Inr (d', p)"
  obtains q errors where "get_proposal (sv_tenant sv) i d = Some q"
    "d' = fst (update_proposal (sv_tenant sv) i (validation_values (ad_state (verdict sv q)) errors now) d)"
  using assms
  by (auto simp: validate_proposal_def verdict_def update_validation_state_def Let_def split: option.splits)

text \<open>Applying changes at most the target's row, and only if it is ready.\<close>

lemma apply_proposal_rows:
  assumes "apply_proposal sv now writer actor canonical t (d, w) = (s', r)"
  shows "fst s' = d \<or> (\<exists>p m. target_row sv t d = Some p \<and> mp_validation p \<in> set ready_states
    \<and> fst s' = fst (update_proposal (sv_tenant sv) (mp_id p) (applied_values m now) d))"
  using assms
  by (auto simp: apply_proposal_def Let_def split: option.splits if_splits prod.splits sum.splits
      dest!: mark_applied_row)

lemma consolidate_rows:
  assumes "consolidate sv now oid pid cq d = Inr (d', r)" and "proposal_db_ok d"
  obtains d1 rq p where "cd_proposals d1 = cd_proposals d" "proposal_db_ok d1"
    "create_proposal sv now pid rq d1 = Inr (d', p)"
proof -
  from assms(1) obtain d1 o' p where
    "persist_observation sv now (staged_observation sv now oid cq (derive sv cq)) d = Inr (d1, o')"
    "create_proposal sv now pid (staged_request sv cq (derive sv cq) (co_id o')) d1 = Inr (d', p)"
    by (auto simp: consolidate_def Let_def ebind_Inr_iff)
  with persist_observation_rows [OF _ assms(2)] that show ?thesis by blast
qed

lemma update_proposal_keeps:
  assumes "\<forall>p \<in> set (cd_proposals d). Q p"
    and "\<And>p. p \<in> set (cd_proposals d) \<Longrightarrow> mp_id p = i \<Longrightarrow> mp_org p = tenant \<Longrightarrow> Q (f p)"
  shows "\<forall>p \<in> set (cd_proposals (fst (update_proposal tenant i f d))). Q p"
  using assms by (auto simp: table_simps)

lemma automatic_ok:
  assumes "automatic sv wr s s'" and "proposal_db_ok (fst s)"
  shows "proposal_db_ok (fst s')"
  using assms
proof cases
  case (create now pid rq d d' p w)
  with assms(2) show ?thesis by (simp add: create_proposal_ok)
next
  case (consolidate now oid pid cq d d' r w)
  then have ok: "proposal_db_ok d" using assms(2) by simp
  from consolidate_rows [OF consolidate(3) ok] obtain d1 rq p where
    "proposal_db_ok d1" "create_proposal sv now pid rq d1 = Inr (d', p)" by blast
  then show ?thesis using consolidate(2) by (simp add: create_proposal_ok)
next
  case (validate now i d d' p w)
  from validate(3) obtain q errors where
    "d' = fst (update_proposal (sv_tenant sv) i (validation_values (ad_state (verdict sv q)) errors now) d)"
    by (rule validate_proposal_rows)
  with validate assms(2) show ?thesis by (simp add: update_proposal_ok)
next
  case (apply_step now actor canonical t d w r)
  from apply_proposal_rows [OF apply_step(2)] apply_step(1) assms(2) show ?thesis
    by (auto simp: update_proposal_ok)
qed

lemma target_unique:
  assumes "target_row sv t d = Some p" and "target_in t d" and "proposal_db_ok d"
    and "q \<in> set (cd_proposals d)" and "mp_id q = mp_id p"
  shows "q = p"
proof -
  have p: "p \<in> set (cd_proposals d)"
    using assms(1,2) by (cases t) (auto simp: target_row_def target_in_def dest: get_proposal_Some)
  have "distinct (map mp_id (cd_proposals d))"
    using assms(3) by (simp add: proposal_db_ok_def table_ok_def)
  with p assms(4,5) show ?thesis by (auto simp: distinct_map inj_on_def)
qed

lemma automatic_keeps:
  assumes new: "\<And>now pid rq. key_problem (strip (mp_key (proposal_record sv now pid rq))) = None \<Longrightarrow>
      Q (stamped now (proposal_record sv now pid rq))"
    and val: "\<And>p errors now. Q p \<Longrightarrow> Q (validation_values (ad_state (verdict sv p)) errors now p)"
    and app: "\<And>p m now. Q p \<Longrightarrow> mp_validation p \<in> set ready_states \<Longrightarrow> Q (applied_values m now p)"
    and step: "automatic sv wr s s'" and ok: "proposal_db_ok (fst s)"
    and all: "\<forall>p \<in> set (rows_of s). Q p"
  shows "\<forall>p \<in> set (rows_of s'). Q p"
proof -
  have made: "\<forall>p \<in> set (cd_proposals d'). Q p"
    if "create_proposal sv now pid rq d = Inr (d', x)" "\<forall>p \<in> set (cd_proposals d). Q p" for now pid rq d d' x
  proof -
    let ?r = "stamped now (proposal_record sv now pid rq)"
    from create_proposal_rows [OF that(1)] show ?thesis
    proof
      assume "d' = d"
      with that(2) show ?thesis by simp
    next
      assume a: "d' = d\<lparr>cd_proposals := cd_proposals d @ [?r]\<rparr>
        \<and> \<not> violates mp_org mp_key mp_id True ?r (cd_proposals d) \<and> key_problem (mp_key ?r) = None"
      then have "Q ?r" using new by (simp add: stamped_def)
      with a that(2) show ?thesis by simp
    qed
  qed
  from step show ?thesis
  proof cases
    case (create now pid rq d d' p w)
    with made all show ?thesis by simp
  next
    case (consolidate now oid pid cq d d' r w)
    then have ok': "proposal_db_ok d" using ok by simp
    from consolidate_rows [OF consolidate(3) ok'] obtain d1 rq p where
      d1: "cd_proposals d1 = cd_proposals d" "create_proposal sv now pid rq d1 = Inr (d', p)" by blast
    have "\<forall>p \<in> set (cd_proposals d1). Q p" using all consolidate(1) d1(1) by simp
    from made [OF d1(2) this] show ?thesis using consolidate(2) by simp
  next
    case (validate now i d d' x w)
    from validate(3) obtain q errors where q: "get_proposal (sv_tenant sv) i d = Some q"
      "d' = fst (update_proposal (sv_tenant sv) i (validation_values (ad_state (verdict sv q)) errors now) d)"
      by (rule validate_proposal_rows)
    have "p = q" if "p \<in> set (cd_proposals d)" "mp_id p = i" "mp_org p = sv_tenant sv" for p
      using get_proposal_row [OF _ that] ok q(1) validate(1) by simp
    then show ?thesis
      unfolding validate(2) fst_conv q(2)
      using all validate(1) val by (intro update_proposal_keeps) auto
  next
    case (apply_step now actor canonical t d w r)
    from apply_proposal_rows [OF apply_step(2)] show ?thesis
    proof (elim disjE exE conjE)
      assume "fst s' = d"
      with all apply_step(1) show ?thesis by simp
    next
      fix p m
      assume p: "target_row sv t d = Some p" "mp_validation p \<in> set ready_states"
        "fst s' = fst (update_proposal (sv_tenant sv) (mp_id p) (applied_values m now) d)"
      have "Q (applied_values m now q)" if "q \<in> set (cd_proposals d)" "mp_id q = mp_id p" for q
        using target_unique [OF p(1) apply_step(3) _ that] p(2) app that all ok apply_step(1) by auto
      then show ?thesis
        unfolding p(3) using all apply_step(1) by (intro update_proposal_keeps) auto
    qed
  qed
qed

end
