(* ===== verification/Consolidation_Properties.thy ===== *)
theory Consolidation_Properties
  imports Consolidation_Runs
begin

section \<open>What consolidation guarantees\<close>

text \<open>
  The properties of consolidation: every stored proposal is well typed, nothing but a low-risk
  proposal that meets the policy becomes applicable without a reviewer, applying needs a ready
  proposal, consolidating again is a no-op, and the stores refine a map in which the first writer
  of a key wins.
\<close>

subsection \<open>Row invariants\<close>

definition well_typed :: "proposal \<Rightarrow> bool" where
  "well_typed p \<longleftrightarrow>
     mp_validation p \<in> set validation_states \<and> mp_admission p \<in> set admission_states \<and>
     mp_risk p \<in> set risk_tiers \<and> mp_status p \<in> {''proposed'', ''rejected'', ''applied''} \<and>
     0 \<le> mp_confidence p \<and> mp_confidence p \<le> 1 \<and> distinct (mp_evidence p) \<and>
     set (mp_evidence p) \<subseteq> set (mp_supporting p) \<and> key_problem (mp_key p) = None"

text \<open>What the policy asks of a low-risk proposal, for a row that may be applied.\<close>

definition meets_policy :: "service \<Rightarrow> proposal \<Rightarrow> bool" where
  "meets_policy sv p \<longleftrightarrow>
     value_of proposal_types (mp_type p) \<noteq> None \<and> mp_risk p = ''low'' \<and> mp_evidence p \<noteq> [] \<and>
     minimum (po_evidence (sv_policy sv)) ''low'' \<le> counted (pids (mp_evidence p)) None \<and>
     minimum (po_confidence (sv_policy sv)) ''low'' \<le> mp_confidence p"

definition applicable_states :: "string list" where
  "applicable_states = [''validated'', ''approved'', ''applied'']"

lemma score_bounds: "0 \<le> score c rs \<and> score c rs \<le> 1"
proof (cases c)
  case None
  let ?vs = "map (\<lambda>r. clamp (Finite r)) rs"
  have "0 \<le> sum_list ?vs \<and> sum_list ?vs \<le> of_nat (length ?vs)"
    by (induction rs) auto
  with None show ?thesis by (auto simp: score_def Let_def divide_le_eq)
qed (simp add: score_def clamp_bounds)

lemma uuid_values_grow: "set us \<subseteq> set (uuid_values shown (vs @ map PyUuid us))"
proof
  fix u assume "u \<in> set us"
  then have "PyUuid u \<in> set (vs @ map PyUuid us)" by simp
  moreover have "uuid_value shown (PyUuid u) = Some u" by simp
  ultimately show "u \<in> set (uuid_values shown (vs @ map PyUuid us))"
    unfolding set_uuid_values by blast
qed

text \<open>The new record's verdict, in terms of the record.\<close>

definition first_verdict :: "service \<Rightarrow> proposal_request \<Rightarrow> proposal \<Rightarrow> admission" where
  "first_verdict sv rq p =
     evaluate (sv_policy sv) (mp_type p) (Finite (mp_confidence p)) (pids (mp_evidence p))
       (pids (mp_supporting p)) (rq_risk rq) None None"

lemma record_fields:
  fixes sv now pid rq
  defines "p \<equiv> proposal_record sv now pid rq"
  shows "mp_validation p = ad_state (first_verdict sv rq p)"
    and "mp_risk p = ad_risk (first_verdict sv rq p)"
    and "mp_admission p = admission_state (first_verdict sv rq p)"
    and "mp_status p = (if ad_admitted (first_verdict sv rq p) then ''proposed'' else ''rejected'')"
    and "distinct (mp_evidence p)" and "set (mp_evidence p) \<subseteq> set (mp_supporting p)"
    and "0 \<le> mp_confidence p" and "mp_confidence p \<le> 1"
  unfolding p_def proposal_record_def Let_def first_verdict_def
  by (simp_all add: uuid_values_grow score_bounds)

lemma stamped_fields:
  "mp_validation (stamped now p) = mp_validation p" "mp_risk (stamped now p) = mp_risk p"
  "mp_admission (stamped now p) = mp_admission p" "mp_status (stamped now p) = mp_status p"
  "mp_evidence (stamped now p) = mp_evidence p" "mp_supporting (stamped now p) = mp_supporting p"
  "mp_confidence (stamped now p) = mp_confidence p" "mp_key (stamped now p) = strip (mp_key p)"
  "mp_type (stamped now p) = mp_type p"
  by (simp_all add: stamped_def)

lemma verdict_states:
  "ad_state (first_verdict sv rq p) \<in> set validation_states"
  "ad_state (verdict sv p) \<in> set validation_states"
  unfolding first_verdict_def verdict_def
  by (rule subsetD [OF _ evaluate_state_known]; simp add: validation_states_def)+

lemma first_verdict_risk: "ad_risk (first_verdict sv rq p) \<in> set risk_tiers"
  unfolding first_verdict_def by (rule evaluate_risk_known)

lemma typed_record:
  "key_problem (strip (mp_key (proposal_record sv now pid rq))) = None \<Longrightarrow>
   well_typed (stamped now' (proposal_record sv now pid rq))"
  unfolding well_typed_def stamped_fields
  by (intro conjI)
     (simp_all add: record_fields verdict_states admission_state_known first_verdict_risk)

lemma typed_validation:
  "well_typed p \<Longrightarrow> state \<in> set validation_states \<Longrightarrow> well_typed (validation_values state errors now p)"
  by (simp add: well_typed_def validation_values_def admission_states_def)

lemma typed_applied: "well_typed p \<Longrightarrow> well_typed (applied_values m now p)"
  by (simp add: well_typed_def applied_values_def admission_states_def validation_states_def)

lemma counted_nonzero: "counted (pids us) None \<noteq> 0 \<Longrightarrow> us \<noteq> []"
  by (auto simp: counted_def unique_def)

lemma low_by_choice: "chosen_risk p (Some t) = ''low'' \<Longrightarrow> t \<in> set risk_tiers \<Longrightarrow> t = ''low''"
  by (auto simp: chosen_risk_def risk_tiers_def default_confidence_def Let_def lower_def split: if_splits)


lemma meets_by_evaluation:
  assumes "ad_state (evaluate (sv_policy sv) (mp_type p) (Finite (mp_confidence p))
      (pids (mp_evidence p)) (pids (mp_supporting p)) r None None) = ''validated''"
    and "0 \<le> mp_confidence p" and "mp_confidence p \<le> 1"
    and "\<And>t. chosen_risk t r = ''low'' \<Longrightarrow> mp_risk p = ''low''"
  shows "meets_policy sv p"
  using assms counted_nonzero unfolding evaluate_validated meets_policy_def by auto

definition safe_row :: "service \<Rightarrow> proposal \<Rightarrow> bool" where
  "safe_row sv p \<longleftrightarrow> well_typed p \<and> (mp_validation p \<in> set applicable_states \<longrightarrow> meets_policy sv p)"

lemma meets_policy_values [simp]:
  "meets_policy sv (validation_values state errors now p) = meets_policy sv p"
  "meets_policy sv (applied_values m now p) = meets_policy sv p"
  "meets_policy sv (stamped now p) = meets_policy sv p"
  by (simp_all add: meets_policy_def validation_values_def applied_values_def stamped_def)

lemma not_applicable:
  "ad_state (evaluate po t c es ss r ec sc) \<in> set applicable_states \<Longrightarrow>
   ad_state (evaluate po t c es ss r ec sc) = ''validated''"
  using evaluate_state_known [of po t c es ss r ec sc] by (auto simp: applicable_states_def)

lemma safe_record:
  assumes "key_problem (strip (mp_key (proposal_record sv now pid rq))) = None"
  shows "safe_row sv (stamped now' (proposal_record sv now pid rq))"
proof -
  let ?p = "proposal_record sv now pid rq"
  have "meets_policy sv ?p" if "mp_validation ?p \<in> set applicable_states"
  proof (rule meets_by_evaluation)
    have "ad_state (first_verdict sv rq ?p) = ''validated''"
      using that not_applicable unfolding record_fields first_verdict_def by blast
    then show v: "ad_state (evaluate (sv_policy sv) (mp_type ?p) (Finite (mp_confidence ?p))
      (pids (mp_evidence ?p)) (pids (mp_supporting ?p)) (rq_risk rq) None None) = ''validated''"
      by (simp add: first_verdict_def)
    show "mp_risk ?p = ''low''"
      using v unfolding record_fields first_verdict_def evaluate_validated evaluate_risk by auto
  qed (simp_all add: record_fields)
  with typed_record [OF assms] show ?thesis by (simp add: safe_row_def stamped_fields)
qed

lemma safe_verdict:
  assumes "safe_row sv p"
  shows "safe_row sv (validation_values (ad_state (verdict sv p)) errors now p)"
proof -
  have typed: "well_typed p" using assms by (simp add: safe_row_def)
  have "meets_policy sv p" if "ad_state (verdict sv p) \<in> set applicable_states"
  proof (rule meets_by_evaluation)
    show "ad_state (evaluate (sv_policy sv) (mp_type p) (Finite (mp_confidence p))
      (pids (mp_evidence p)) (pids (mp_supporting p)) (Some (mp_risk p)) None None) = ''validated''"
      using that not_applicable unfolding verdict_def by blast
    show "mp_risk p = ''low''" if "chosen_risk t (Some (mp_risk p)) = ''low''" for t
      using low_by_choice [OF that] typed by (simp add: well_typed_def)
  qed (use typed in \<open>simp_all add: well_typed_def\<close>)
  then show ?thesis
    using typed_validation [OF typed verdict_states(2)]
    by (simp add: safe_row_def) (simp add: validation_values_def)
qed

lemma safe_applied:
  "safe_row sv p \<Longrightarrow> mp_validation p \<in> set ready_states \<Longrightarrow> safe_row sv (applied_values m now p)"
  by (auto simp: safe_row_def typed_applied ready_states_def applicable_states_def)

lemma automatic_safe:
  "automatic sv wr s s' \<Longrightarrow> proposal_db_ok (fst s) \<Longrightarrow> \<forall>p \<in> set (rows_of s). safe_row sv p \<Longrightarrow>
   \<forall>p \<in> set (rows_of s'). safe_row sv p"
  by (rule automatic_keeps) (auto intro: safe_record safe_verdict safe_applied)

lemma automatic_typed:
  "automatic sv wr s s' \<Longrightarrow> proposal_db_ok (fst s) \<Longrightarrow> \<forall>p \<in> set (rows_of s). well_typed p \<Longrightarrow>
   \<forall>p \<in> set (rows_of s'). well_typed p"
  by (rule automatic_keeps) (auto intro: typed_record typed_validation verdict_states typed_applied)

lemmas review_defs = mark_validated_def mark_needs_review_def mark_rejected_def approve_def
  update_validation_state_def

lemma reviewing_ok: "reviewing tenant s s' \<Longrightarrow> proposal_db_ok (fst s) \<Longrightarrow> proposal_db_ok (fst s')"
  by (induction rule: reviewing.induct) (simp_all add: review_defs update_proposal_ok)

lemma reviewing_typed:
  "reviewing tenant s s' \<Longrightarrow> \<forall>p \<in> set (rows_of s). well_typed p \<Longrightarrow>
   \<forall>p \<in> set (rows_of s'). well_typed p"
  by (induction rule: reviewing.induct)
     (auto simp: review_defs table_simps validation_states_def intro!: typed_validation)

lemma reached_ok: "reached reviewer sv wr s \<Longrightarrow> proposal_db_ok (fst s)"
proof (induction rule: reached.induct)
  case (begin_run s)
  then show ?case by (simp add: started_def proposal_db_ok_def table_ok_def)
qed (blast intro: automatic_ok reviewing_ok)+

lemma reached_typed: "reached reviewer sv wr s \<Longrightarrow> \<forall>p \<in> set (rows_of s). well_typed p"
proof (induction rule: reached.induct)
  case (automatic_step s s')
  with reached_ok automatic_typed show ?case by blast
next
  case (review_step s s')
  with reviewing_typed show ?case by blast
qed (simp add: started_def)

lemma reached_safe:
  "reached reviewer sv wr s \<Longrightarrow> \<not> reviewer \<Longrightarrow> \<forall>p \<in> set (rows_of s). safe_row sv p"
proof (induction rule: reached.induct)
  case (automatic_step s s')
  with reached_ok automatic_safe show ?case by blast
qed (simp_all add: started_def)


subsection \<open>Consolidating again\<close>

lemma observed_retry:
  assumes "persist_observation sv now r d = Inr (d', s)" and "sv_staging sv" and "proposal_db_ok d"
    and "d'' = d'\<lparr>cd_proposals := ps\<rparr>"
    and "co_org r' = co_org r" "co_key r' = co_key r" "co_applied_memory r' = None"
    "co_applied_memory r = None" "observation_hash (sv_sha sv) r' = observation_hash (sv_sha sv) r"
  shows "persist_observation sv now' r' d'' = Inr (d'', s)"
proof -
  let ?ins = "table_insert co_org co_key co_id (observation_hash (sv_sha sv)) True (sv_tenant sv) [] True"
  have m: "memory_exists None x = True" for x by (simp add: memory_exists_def)
  from assms(1,2,8) obtain rows b where one: "?ins (stamped_observed now r) (cd_observations d) = Inr (rows, s, b)"
    "d' = d\<lparr>cd_observations := rows\<rparr>"
    by (auto simp: persist_observation_def insert_observed_def lift_store_Inr ebind_Inr_iff m
        stamped_observed_def)
  have own: "co_org (stamped_observed now r) = sv_tenant sv \<and> key_problem (co_key (stamped_observed now r)) = None"
    using table_insert_rows [OF one(1)] by simp
  have good: "table_ok co_org co_key co_id (cd_observations d)"
    using assms(3) by (simp add: proposal_db_ok_def)
  have "?ins (stamped_observed now' r') rows = Inr (rows, s, False)"
    by (rule observations.retry [OF one(1) good])
       (use own assms(5,6,9) in \<open>simp_all add: stamped_observed_def\<close>)
  then show ?thesis
    using assms(2,4,7) one(2)
    by (simp add: persist_observation_def insert_observed_def m stamped_observed_def)
qed

lemma observation_exists_proposals:
  "observation_exists i (d\<lparr>cd_proposals := rows\<rparr>) = observation_exists i d"
  by (simp add: observation_exists_def split: option.split)

lemma proposal_retry:
  assumes "create_proposal sv now pid rq d = Inr (d', p)" and "proposal_db_ok d"
  shows "create_proposal sv now' pid' rq d' = Inr (d', p)"
proof -
  let ?r = "proposal_record sv now pid rq" and ?r' = "proposal_record sv now' pid' rq"
  let ?ins = "\<lambda>x. table_insert mp_org mp_key mp_id (proposal_hash (sv_sha sv))
    (observation_exists (rq_observation rq) x) (sv_tenant sv) [] True"
  have same: "mp_org ?r' = mp_org ?r" "mp_key ?r' = mp_key ?r" "mp_observation ?r = rq_observation rq"
    "mp_observation ?r' = rq_observation rq" "proposal_hash sha ?r' = proposal_hash sha ?r" for sha
    by (simp_all add: proposal_record_def Let_def proposal_hash_def)
  from assms(1) obtain rows b where one: "?ins d (stamped now ?r) (cd_proposals d) = Inr (rows, p, b)"
    "d' = d\<lparr>cd_proposals := rows\<rparr>"
    by (auto simp: create_proposal_def insert_proposal_def lift_store_Inr ebind_Inr_iff
        stamped_def same)
  have own: "mp_org (stamped now ?r) = sv_tenant sv \<and> key_problem (mp_key (stamped now ?r)) = None"
    using table_insert_rows [OF one(1)] by simp
  have good: "table_ok mp_org mp_key mp_id (cd_proposals d)"
    using assms(2) by (simp add: proposal_db_ok_def)
  have "?ins d (stamped now' ?r') rows = Inr (rows, p, False)"
    by (rule proposals.retry [OF one(1) good])
       (use own in \<open>simp_all add: stamped_fields same stamped_def\<close>)
  then show ?thesis
    using one(2)
    by (simp add: create_proposal_def insert_proposal_def observation_exists_proposals stamped_def same)
qed

lemma consolidate_retry:
  assumes "consolidate sv now oid pid cq d = Inr (d', r)" and "proposal_db_ok d" and "sv_staging sv"
  shows "consolidate sv now' oid' pid' cq d' = Inr (d', r)"
proof -
  let ?dv = "derive sv cq"
  let ?o = "\<lambda>n i. staged_observation sv n i cq ?dv"
  obtain d1 ob p where one: "persist_observation sv now (?o now oid) d = Inr (d1, ob)"
      "create_proposal sv now pid (staged_request sv cq ?dv (co_id ob)) d1 = Inr (d', p)"
      "r = \<lparr>cr_observation = ob, cr_proposal = p, cr_admission = dv_decision ?dv\<rparr>"
    using assms(1) by (auto simp: consolidate_def Let_def ebind_Inr_iff)
  have ok1: "proposal_db_ok d1" using persist_observation_rows [OF one(1) assms(2)] by simp
  have d': "\<exists>ps. d' = d1\<lparr>cd_proposals := ps\<rparr>"
  proof -
    have "d1 = d1\<lparr>cd_proposals := cd_proposals d1\<rparr>" by simp
    with create_proposal_rows [OF one(2)] show ?thesis by blast
  qed
  then obtain ps where ps: "d' = d1\<lparr>cd_proposals := ps\<rparr>" by blast
  have "persist_observation sv now' (?o now' oid') d' = Inr (d', ob)"
    by (rule observed_retry [OF one(1) assms(3,2) ps])
       (simp_all add: staged_observation_def observation_hash_def)
  with proposal_retry [OF one(2) ok1] one(3) show ?thesis
    by (simp add: consolidate_def Let_def)
qed

subsection \<open>Concrete services and requests\<close>

definition demo_service :: service where
  "demo_service = \<lparr>sv_tenant = 3, sv_sha = (\<lambda>s. ''d''), sv_shown = (\<lambda>_. ''v''),
     sv_policy = default_policy, sv_staging = True\<rparr>"

definition demo_request :: "string \<Rightarrow> pfloat \<Rightarrow> proposal_request" where
  "demo_request type confidence =
     \<lparr>rq_org = 3, rq_user = 2, rq_type = type, rq_payload = [], rq_evidence = [PyUuid 7],
      rq_supporting = [], rq_facts = [], rq_sources = [], rq_targets = [], rq_refs = [],
      rq_confidence = Some confidence, rq_risk = None, rq_rationale = [], rq_key = Some ''k'',
      rq_metadata = None, rq_observation = None\<rparr>"

definition empty_store :: proposal_db where
  "empty_store = \<lparr>cd_proposals = [], cd_observations = [], cd_memories = [40]\<rparr>"

definition demo_row :: "string \<Rightarrow> pfloat \<Rightarrow> proposal" where
  "demo_row type confidence = stamped 5 (proposal_record demo_service 5 30 (demo_request type confidence))"

definition demo_store :: "string \<Rightarrow> pfloat \<Rightarrow> proposal_db" where
  "demo_store type confidence = empty_store\<lparr>cd_proposals := [demo_row type confidence]\<rparr>"

lemma short_key: "strip ''k'' = ''k''" "key_problem ''k'' = None"
  by code_simp+

lemma demo_lists: "uuid_values sh [PyUuid 7] = [7]" "uuid_values sh [] = []" "counted [uuid_str 7] None = 1"
  by (simp_all add: uuid_values_def add_new_def counted_def unique_def)

lemma demo_tiers:
  "minimum (po_evidence default_policy) ''low'' = 1" "minimum (po_supporting default_policy) ''low'' = 1"
  "minimum (po_confidence default_policy) ''low'' = 65 / 100"
  "minimum (po_evidence default_policy) ''critical'' = 3"
  by code_simp+

lemma demo_types:
  "value_of proposal_types ''fact'' = Some ''fact''" "chosen_risk ''fact'' None = ''low''"
  "chosen_risk ''fact'' (Some ''low'') = ''low''"
  "value_of proposal_types ''supersession'' = Some ''supersession''"
  "chosen_risk ''supersession'' None = ''critical''"
  by code_simp+

lemmas demo_defs = demo_row_def stamped_def proposal_record_def demo_request_def Let_def
  demo_service_def evaluate_simps score_def proposal_name_def

lemma demo_row_fields [simp]:
  "mp_id (demo_row type c) = 30" "mp_key (demo_row type c) = ''k''" "mp_org (demo_row type c) = 3"
  "mp_user (demo_row type c) = 2" "mp_observation (demo_row type c) = None"
  "mp_confidence (demo_row type c) = clamp c" "mp_evidence (demo_row type c) = [7]"
  "mp_supporting (demo_row type c) = [7]"
  by (simp_all add: demo_defs short_key demo_lists)

lemma demo_fact:
  "mp_type (demo_row ''fact'' c) = ''fact''" "mp_risk (demo_row ''fact'' c) = ''low''"
  "65 / 100 \<le> clamp c \<Longrightarrow> mp_validation (demo_row ''fact'' c) = ''validated''"
  by (simp_all add: demo_defs demo_lists demo_tiers demo_types)

lemma demo_supersession:
  "mp_type (demo_row ''supersession'' c) = ''supersession''"
  "mp_validation (demo_row ''supersession'' c) = ''needs_review''"
  "mp_admission (demo_row ''supersession'' c) = ''rejected''"
  "mp_status (demo_row ''supersession'' c) = ''rejected''"
  by (simp_all add: demo_defs demo_lists demo_tiers demo_types)

lemma demo_create:
  "create_proposal demo_service 5 30 (demo_request type c) empty_store =
     Inr (demo_store type c, demo_row type c)"
proof -
  let ?r = "proposal_record demo_service 5 30 (demo_request type c)"
  have "?r\<lparr>mp_key := strip (mp_key ?r), mp_updated_at := 5\<rparr> = demo_row type c"
    by (simp add: demo_row_def stamped_def)
  moreover have "observation_exists (mp_observation ?r) empty_store"
    by (simp add: proposal_record_def demo_request_def Let_def observation_exists_def)
  ultimately have "insert_proposal (\<lambda>s. ''d'') 3 5 [] True ?r empty_store =
      Inr (demo_store type c, demo_row type c, True)"
    by (simp add: insert_proposal_def table_insert_def short_key empty_store_def demo_store_def
        lookup_key_def one_or_none_def violates_def)
  then show ?thesis by (simp add: create_proposal_def demo_service_def)
qed

lemma demo_reached: "reached reviewer demo_service wr (demo_store type c, w)"
proof (rule automatic_step [OF begin_run])
  show "started (empty_store, w)" by (simp add: started_def empty_store_def)
  show "automatic demo_service wr (empty_store, w) (demo_store type c, w)"
    by (rule create [OF demo_create])
qed

text \<open>A writer that counts its calls and answers with a memory's id.\<close>

definition counting_writer :: "nat writer" where
  "counting_writer p org user actor n = (Suc n, Some (ResultId 40))"

definition apply_now :: "proposal_db \<times> nat \<Rightarrow> (proposal_db \<times> nat) \<times> (consolidation_error + applied)" where
  "apply_now = apply_proposal demo_service 6 (Some counting_writer) None None (ById 30)"

subsection \<open>The properties\<close>

text \<open>
  Claim C9.  Type: in every state consolidation and review can reach, each stored proposal has a
  validation state, admission state, risk tier and status of the declared enumerations, a
  confidence between 0 and 1, distinct evidence that is part of its supporting references, and a
  non-empty key of at most 255 characters.
\<close>

theorem stored_proposals_well_typed:
  "reached reviewer sv wr s \<Longrightarrow> p \<in> set (cd_proposals (fst s)) \<Longrightarrow>
   mp_validation p \<in> set validation_states \<and> mp_admission p \<in> set admission_states \<and>
   mp_risk p \<in> set risk_tiers \<and> mp_status p \<in> {''proposed'', ''rejected'', ''applied''} \<and>
   0 \<le> mp_confidence p \<and> mp_confidence p \<le> 1 \<and> distinct (mp_evidence p) \<and>
   set (mp_evidence p) \<subseteq> set (mp_supporting p) \<and>
   mp_key p \<noteq> [] \<and> length (mp_key p) \<le> 255"
  using reached_typed [of reviewer sv wr s]
  by (auto simp: well_typed_def key_problem_def split: if_splits)

theorem stored_proposals_well_typed_witness:
  "mp_validation (demo_row ''fact'' (Finite 1)) \<in> set validation_states
   \<and> length (mp_key (demo_row ''fact'' (Finite 1))) \<le> 255"
  using stored_proposals_well_typed
    [OF demo_reached [of True counting_writer "''fact''" "Finite 1"], of "demo_row ''fact'' (Finite 1)"]
  by (simp add: demo_store_def)

text \<open>
  Claim C8.  Safety: without a reviewer, whatever is created, consolidated, re-validated and
  applied in whatever order, the only proposals that are ever validated, approved or applied are
  of a known type and of low risk, have evidence, and reach the policy's evidence and confidence
  minimums for low risk.
\<close>

theorem unreviewed_is_low_risk:
  "reached False sv wr s \<Longrightarrow> p \<in> set (cd_proposals (fst s)) \<Longrightarrow>
   mp_validation p \<in> {''validated'', ''approved'', ''applied''} \<Longrightarrow>
   value_of proposal_types (mp_type p) \<noteq> None \<and> mp_risk p = ''low'' \<and> mp_evidence p \<noteq> [] \<and>
   minimum (po_evidence (sv_policy sv)) ''low'' \<le> counted (map uuid_str (mp_evidence p)) None \<and>
   minimum (po_confidence (sv_policy sv)) ''low'' \<le> mp_confidence p"
  using reached_safe [of False sv wr s]
  by (auto simp: safe_row_def meets_policy_def applicable_states_def)

theorem unreviewed_is_low_risk_witness:
  "mp_risk (demo_row ''fact'' (Finite 1)) = ''low'' \<and> mp_evidence (demo_row ''fact'' (Finite 1)) \<noteq> []"
  using unreviewed_is_low_risk
      [OF demo_reached [of False counting_writer "''fact''" "Finite 1"], of "demo_row ''fact'' (Finite 1)"]
    demo_fact(3) [of "Finite 1"]
  by (simp add: demo_store_def)

text \<open>
  Safety: a proposal that is neither validated nor approved is not applied: the call
  raises, the writer is not called and nothing changes.  When \<open>apply\<close> returns, the proposal was
  ready, and the stored row of that id and tenant, if any, is applied and admitted.
\<close>

theorem only_ready_is_applied:
  assumes "proposal_db_ok d" and "target_row sv t d = Some p"
  shows "if mp_validation p \<in> {''validated'', ''approved''}
     then (\<forall>s' r q. apply_proposal sv now (Some wr) actor canonical t (d, w) = (s', Inr r) \<longrightarrow>
        get_proposal (sv_tenant sv) (mp_id p) (fst s') = Some q \<longrightarrow>
        mp_validation q = ''applied'' \<and> mp_admission q = ''admitted'' \<and> mp_applied_at q = Some now)
     else apply_proposal sv now (Some wr) actor canonical t (d, w) = ((d, w), Inl ProposalNotReady)"
proof (cases "mp_validation p \<in> set ready_states")
  case ready: True
  have "mp_validation q = ''applied'' \<and> mp_admission q = ''admitted'' \<and> mp_applied_at q = Some now"
    if run: "apply_proposal sv now (Some wr) actor canonical t (d, w) = (s', Inr r)"
      and q: "get_proposal (sv_tenant sv) (mp_id p) (fst s') = Some q" for s' r q
  proof -
    obtain m n where "mark_applied (sv_tenant sv) (mp_id p) m now d = Inr (fst s', n)"
      using run assms(2) ready
      by (auto simp: apply_proposal_def Let_def split: option.splits if_splits prod.splits sum.splits)
    then have "fst s' = fst (update_proposal (sv_tenant sv) (mp_id p) (applied_values m now) d)"
      by (rule mark_applied_row)
    with get_proposal_Some [OF q] show ?thesis
      by (auto simp: table_simps applied_values_def split: if_splits)
  qed
  with ready show ?thesis by (auto simp: ready_states_def)
qed (use assms in \<open>simp add: apply_proposal_def ready_states_def\<close>)

theorem only_ready_is_applied_witness:
  "apply_proposal demo_service 6 (Some counting_writer) None None (ById 30)
     (demo_store ''supersession'' (Finite 1), 0) =
   ((demo_store ''supersession'' (Finite 1), 0), Inl ProposalNotReady)"
proof -
  let ?d = "demo_store ''supersession'' (Finite 1)" and ?p = "demo_row ''supersession'' (Finite 1)"
  have "target_row demo_service (ById 30) ?d = Some ?p"
    by (simp add: target_row_def get_proposal_def read_row_def demo_store_def demo_service_def)
  moreover have "proposal_db_ok ?d"
    by (simp add: proposal_db_ok_def table_ok_def demo_store_def empty_store_def)
  ultimately show ?thesis
    using only_ready_is_applied [of ?d demo_service "ById 30" ?p 6 counting_writer None None 0]
    by (simp add: demo_supersession)
qed

text \<open>
  Functional: consolidating the same evidence again, at any later time and with any
  fresh ids, returns the same observation, proposal and decision and changes nothing.
\<close>

theorem consolidating_again_changes_nothing:
  "\<lbrakk>consolidate sv now oid pid cq d = Inr (d', r); proposal_db_ok d; sv_staging sv\<rbrakk> \<Longrightarrow>
   consolidate sv now' oid' pid' cq d' = Inr (d', r)"
  by (rule consolidate_retry)

definition demo_consolidation :: consolidation_request where
  "demo_consolidation =
     \<lparr>cq_items = [Bare (PyUuid 7)], cq_org = 3, cq_user = 2, cq_type = ''fact'', cq_payload = [],
      cq_evidence = [], cq_supporting = [], cq_facts = [], cq_sources = [], cq_targets = [],
      cq_confidence = Some (Finite 1), cq_risk = None, cq_key = Some ''k'', cq_metadata = None\<rparr>"

lemma demo_cq [simp]:
  "cq_key demo_consolidation = Some ''k''" "cq_org demo_consolidation = 3"
  by (simp_all add: demo_consolidation_def)

lemma demo_derived: "dv_key (derive demo_service demo_consolidation) = ''k''"
  by (simp add: derive_def Let_def)

lemma demo_consolidated: "\<exists>x. consolidate demo_service 5 20 30 demo_consolidation empty_store = Inr x"
proof -
  let ?dv = "derive demo_service demo_consolidation"
  let ?o = "staged_observation demo_service 5 20 demo_consolidation ?dv"
  let ?d1 = "empty_store\<lparr>cd_observations := [stamped_observed 5 ?o]\<rparr>"
  have o: "co_org ?o = 3" "co_key ?o = ''k''" "co_applied_memory ?o = None" "co_id ?o = 20"
    by (simp_all add: staged_observation_def demo_derived)
  have one: "persist_observation demo_service 5 ?o empty_store = Inr (?d1, stamped_observed 5 ?o)"
    using o
    by (simp add: persist_observation_def insert_observed_def table_insert_def short_key
        stamped_observed_def empty_store_def lookup_key_def one_or_none_def violates_def
        memory_exists_def demo_service_def)
  let ?rq = "staged_request demo_service demo_consolidation ?dv 20"
  let ?p = "proposal_record demo_service 5 30 ?rq"
  have p: "mp_org ?p = 3" "mp_key ?p = ''k''" "mp_observation ?p = Some 20"
    by (simp_all add: proposal_record_def staged_request_def proposal_key_def demo_derived Let_def)
  have "create_proposal demo_service 5 30 ?rq ?d1 =
      Inr (?d1\<lparr>cd_proposals := [stamped 5 ?p]\<rparr>, stamped 5 ?p)"
    using p o
    by (simp add: create_proposal_def insert_proposal_def table_insert_def short_key stamped_def
        stamped_observed_def empty_store_def lookup_key_def one_or_none_def violates_def
        observation_exists_def demo_service_def)
  with one show ?thesis by (simp add: consolidate_def Let_def stamped_observed_def o)
qed

theorem consolidating_again_changes_nothing_witness:
  "\<exists>d r. consolidate demo_service 5 20 30 demo_consolidation empty_store = Inr (d, r)
     \<and> consolidate demo_service 9 21 31 demo_consolidation d = Inr (d, r)"
proof -
  obtain d r where run: "consolidate demo_service 5 20 30 demo_consolidation empty_store = Inr (d, r)"
    using demo_consolidated by auto
  moreover have "proposal_db_ok empty_store"
    by (simp add: proposal_db_ok_def table_ok_def empty_store_def)
  ultimately show ?thesis
    using consolidating_again_changes_nothing [OF run, of 9 21 31] by (auto simp: demo_service_def)
qed

definition hash_map :: "(string \<Rightarrow> string) \<Rightarrow> uuid \<Rightarrow> proposal list \<Rightarrow> string \<Rightarrow> string option" where
  "hash_map sha tenant rows =
     contents (\<lambda>rows k. row_with_key mp_org mp_key tenant k rows) (proposal_hash sha) rows"

text \<open>
  Claim C10.  Refinement: the proposal store implements a map from idempotency keys to content
  hashes in which the first writer of a key wins.  An insert of the tenant's own row returns
  exactly when the map accepts it, and leaves the map the abstract operation leaves.
\<close>

theorem insert_refines_first_writer_wins:
  assumes "proposal_db_ok d" and "mp_org r = tenant" and "key_problem (strip (mp_key r)) = None"
    and "observation_exists (mp_observation r) d"
    and "mp_id r \<notin> mp_id ` set (cd_proposals d)"
  shows "first_wins (strip (mp_key r)) (proposal_hash sha r)
       (hash_map sha tenant (cd_proposals d)) =
     (case insert_proposal sha tenant now [] True r d of
        Inl _ \<Rightarrow> None
      | Inr (d', _, _) \<Rightarrow> Some (hash_map sha tenant (cd_proposals d')))"
proof -
  let ?r = "stamped now r"
  have r: "mp_org ?r = tenant" "mp_id ?r = mp_id r" "mp_key ?r = strip (mp_key r)"
    using assms(2) by (simp_all add: stamped_def)
  have good: "table_ok mp_org mp_key mp_id (cd_proposals d)"
    using assms(1) by (simp add: proposal_db_ok_def)
  have free: "\<not> violates mp_org mp_key mp_id True ?r (cd_proposals d)
      \<or> row_with_key mp_org mp_key tenant (mp_key ?r) (cd_proposals d) \<noteq> None"
    using assms(5) r by (auto simp: violates_def list_ex_iff row_with_key_None image_iff)
  have "first_wins (mp_key ?r) (proposal_hash sha ?r)
       (hash_map sha tenant (cd_proposals d)) =
     (case table_insert mp_org mp_key mp_id (proposal_hash sha) True tenant [] True ?r (cd_proposals d) of
        Inl _ \<Rightarrow> None | Inr (rows, _, _) \<Rightarrow> Some (hash_map sha tenant rows))"
    unfolding hash_map_def
    by (rule proposals.refines_first_wins [OF good _ free]) (use r assms(3) in simp)
  moreover have "insert_proposal sha tenant now [] True r d =
      ebind (table_insert mp_org mp_key mp_id (proposal_hash sha) True tenant [] True ?r (cd_proposals d))
        (\<lambda>(rows, s, b). Inr (d\<lparr>cd_proposals := rows\<rparr>, s, b))"
    using assms(4) by (simp add: insert_proposal_def stamped_def)
  ultimately show ?thesis
    using r by (cases "table_insert mp_org mp_key mp_id (proposal_hash sha) True tenant [] True ?r
      (cd_proposals d)") auto
qed

theorem insert_refines_first_writer_wins_witness:
  "first_wins ''k'' ''d'' (hash_map (\<lambda>_. ''d'') 3 []) =
     (case insert_proposal (\<lambda>_. ''d'') 3 5 [] True (demo_row ''fact'' (Finite 1)) empty_store of
        Inl _ \<Rightarrow> None
      | Inr (d', _, _) \<Rightarrow> Some (hash_map (\<lambda>_. ''d'') 3 (cd_proposals d')))"
  using insert_refines_first_writer_wins
    [of empty_store "demo_row ''fact'' (Finite 1)" 3 "\<lambda>_. ''d''" 5]
  by (simp add: short_key empty_store_def proposal_db_ok_def table_ok_def observation_exists_def
      proposal_hash_def)

text \<open>
  Equivalence: rows that other sessions commit between the lookup and the flush change
  nothing about the outcome, as long as the session survives the failed flush: the insert behaves
  as one that starts after them.
\<close>

theorem racing_insert_is_serial:
  assumes "proposal_db_ok d" and "proposals_ok (cd_proposals d @ race)"
    and "proposal_by_key tenant (strip (mp_key r)) d = Inr None"
  shows "insert_proposal sha tenant now race True r d =
     insert_proposal sha tenant now [] True r (d\<lparr>cd_proposals := cd_proposals d @ race\<rparr>)"
proof -
  have good: "proposals_ok (cd_proposals d)" using assms(1) by (simp add: proposal_db_ok_def)
  then have "row_with_key mp_org mp_key tenant (strip (mp_key r)) (cd_proposals d) = None"
    using assms(3) by (simp add: proposal_by_key_def lookup_key_ok)
  then show ?thesis
    using table_insert_race [OF good assms(2),
        of tenant "r\<lparr>mp_key := strip (mp_key r), mp_updated_at := now\<rparr>" "proposal_hash sha"
           "observation_exists (mp_observation r) d"]
    by (simp add: insert_proposal_def observation_exists_proposals)
qed

theorem racing_insert_is_serial_witness:
  "insert_proposal (\<lambda>_. ''d'') 3 5 [demo_row ''fact'' (Finite 0)] True
     (demo_row ''fact'' (Finite 1)\<lparr>mp_id := 31\<rparr>) empty_store =
   Inr (demo_store ''fact'' (Finite 0), demo_row ''fact'' (Finite 0), False)"
proof -
  let ?r = "demo_row ''fact'' (Finite 1)\<lparr>mp_id := 31\<rparr>" and ?q = "demo_row ''fact'' (Finite 0)"
  have "insert_proposal (\<lambda>_. ''d'') 3 5 [?q] True ?r empty_store =
      insert_proposal (\<lambda>_. ''d'') 3 5 [] True ?r (empty_store\<lparr>cd_proposals := [?q]\<rparr>)"
    using racing_insert_is_serial [of empty_store "[?q]" 3 ?r "\<lambda>_. ''d''" 5]
    by (simp add: empty_store_def proposal_db_ok_def table_ok_def proposal_by_key_def lookup_key_def
        one_or_none_def)
  also have "\<dots> = Inr (demo_store ''fact'' (Finite 0), ?q, False)"
    by (simp add: insert_proposal_def table_insert_def short_key lookup_key_def one_or_none_def
        demo_store_def empty_store_def check_existing_def proposal_hash_def)
  finally show ?thesis .
qed

end
