(* ===== verification/Consolidation_Outcomes.thy ===== *)
theory Consolidation_Outcomes
  imports Consolidation_Properties
begin

section \<open>Consolidation: round trips and divergences\<close>

text \<open>
  The identifier round trip of the references, and what the proposal life cycle allows that its
  states do not suggest.
\<close>

subsection \<open>Identifiers as text\<close>

text \<open>
  Round trip: UUIDs that went through text, as references and JSON payloads store them,
  are read back as the same UUIDs in the same order, once each; and \<open>_unique\<close> takes a UUID and its
  text for the same identifier.
\<close>

theorem identifiers_survive_text:
  assumes "distinct us" and "\<forall>u \<in> set us. u < 2 ^ 128"
  shows "uuid_values shown (map (\<lambda>u. PyStr (uuid_str u)) us) = us \<and>
     uuid_values shown (map PyUuid us @ map (\<lambda>u. PyStr (uuid_str u)) us) = us \<and>
     unique (pstr shown) (map PyUuid us @ map (\<lambda>u. PyStr (uuid_str u)) us) = map PyUuid us"
proof -
  have read: "uuid_of (uuid_str u) = Some u" if "u \<in> set us" for u
    using that assms(2) by (simp add: uuid_roundtrip)
  have texts: "fold (adding (uuid_value shown)) (map (\<lambda>u. PyStr (uuid_str u)) vs) r =
      fold (adding (uuid_value shown)) (map PyUuid vs) r" if "set vs \<subseteq> set us" for vs r
    using that by (induction vs arbitrary: r) (simp_all add: adding_def read)
  have all: "uuid_values shown (map (\<lambda>u. PyStr (uuid_str u)) us) = uuid_values shown (map PyUuid us)"
    unfolding uuid_values_adding by (rule texts) simp
  have "uuid_values shown (map PyUuid us @ map (\<lambda>u. PyStr (uuid_str u)) us) =
      uuid_values shown (map PyUuid us @ map PyUuid us)"
    unfolding uuid_values_adding fold_append comp_def by (rule texts) simp
  also have "\<dots> = uuid_values shown (map PyUuid us)"
    by (rule uuid_values_append_known) simp
  finally have both: "uuid_values shown (map PyUuid us @ map (\<lambda>u. PyStr (uuid_str u)) us) = us"
    using assms(1) by simp
  have seen: "unique_from (pstr shown) seen (map (\<lambda>u. PyStr (uuid_str u)) vs) = []"
    if "uuid_str ` set vs \<subseteq> seen" for seen vs
    using that by (induction vs) auto
  have once: "unique_from (pstr shown) seen (map PyUuid vs @ ws) =
      map PyUuid vs @ unique_from (pstr shown) (seen \<union> uuid_str ` set vs) ws"
    if "distinct vs" "set vs \<subseteq> set us" "\<forall>v \<in> set vs. uuid_str v \<notin> seen" for seen vs ws
    using that
  proof (induction vs arbitrary: seen)
    case (Cons v vs)
    have "uuid_str w \<noteq> uuid_str v" if "w \<in> set vs" for w
      using that Cons.prems(1,2) assms(2) uuid_str_inject [of w v] by auto
    then have "unique_from (pstr shown) (insert (uuid_str v) seen) (map PyUuid vs @ ws) =
        map PyUuid vs @ unique_from (pstr shown) (insert (uuid_str v) seen \<union> uuid_str ` set vs) ws"
      using Cons.prems by (intro Cons.IH) auto
    with Cons.prems(3) show ?case by (simp add: insert_commute Un_insert_left)
  qed simp
  have "unique (pstr shown) (map PyUuid us @ map (\<lambda>u. PyStr (uuid_str u)) us) = map PyUuid us"
    using once [of us "{}"] assms(1) seen [of us "uuid_str ` set us"] by (simp add: unique_def)
  with all both assms(1) show ?thesis by simp
qed

theorem identifiers_survive_text_witness:
  "uuid_values (\<lambda>_. ''v'') [PyStr (uuid_str 7), PyStr (uuid_str 300)] = [7, 300]"
  using identifiers_survive_text [of "[7, 300]" "\<lambda>_. ''v''"] by simp

subsection \<open>What the life cycle allows\<close>

lemma demo_get [simp]:
  "get_proposal 3 30 (demo_store type c) = Some (demo_row type c)"
  by (simp add: get_proposal_def read_row_def demo_store_def)

lemma demo_tenant [simp]: "sv_tenant demo_service = 3" "sv_policy demo_service = default_policy"
  by (simp_all add: demo_service_def)

text \<open>One row, updated.\<close>

definition holding :: "proposal \<Rightarrow> proposal_db" where
  "holding p = empty_store\<lparr>cd_proposals := [p]\<rparr>"

lemma demo_holding: "demo_store type c = holding (demo_row type c)"
  by (simp add: demo_store_def holding_def)

lemma holding_steps:
  assumes "mp_id p = 30" and "mp_org p = 3"
  shows "get_proposal 3 30 (holding p) = Some p"
    and "mp_id (f p) = 30 \<Longrightarrow> update_proposal 3 30 f (holding p) = (holding (f p), 1)"
  using assms
  by (simp_all add: get_proposal_def read_row_def holding_def update_proposal_def update_row_def)

lemma apply_holding:
  assumes "mp_id p = 30" and "mp_org p = 3" and "mp_validation p \<in> set ready_states"
  shows "fst (apply_now (holding p, n)) = (holding (applied_values (Some 40) 6 p), Suc n)"
  using assms
  by (simp add: apply_now_def apply_proposal_def target_row_def holding_steps counting_writer_def
      canonical_id_def mark_applied_def memory_exists_def holding_def empty_store_def
      update_proposal_def update_row_def get_proposal_def read_row_def Let_def)

lemma values_fields [simp]:
  "mp_id (validation_values state errors now p) = mp_id p"
  "mp_org (validation_values state errors now p) = mp_org p"
  "mp_validation (validation_values state errors now p) = state"
  "mp_id (applied_values m now p) = mp_id p" "mp_org (applied_values m now p) = mp_org p"
  "mp_validation (applied_values m now p) = ''applied''"
  "verdict sv (applied_values m now p) = verdict sv p"
  by (simp_all add: validation_values_def applied_values_def verdict_def)

lemma validate_holding:
  assumes "mp_id p = 30" and "mp_org p = 3"
  shows "\<exists>errors q. validate_proposal demo_service 7 30 (holding p) =
    Inr (holding (validation_values (ad_state (verdict demo_service p)) errors 7 p), q)"
  using assms
  by (auto simp: validate_proposal_def holding_steps update_validation_state_def verdict_def
      Let_def)

lemma demo_verdict: "ad_state (verdict demo_service (demo_row ''fact'' (Finite 1))) = ''validated''"
  by (simp add: verdict_def demo_fact demo_types demo_lists demo_tiers evaluate_simps Let_def)

text \<open>
  Divergence: re-validating a proposal that was already applied makes it applicable
  again, and applying it again calls the canonical writer a second time.
\<close>

theorem revalidated_proposal_is_applied_twice:
  "(let first = fst (apply_now (demo_store ''fact'' (Finite 1), 0));
        again = (case validate_proposal demo_service 7 30 (fst first) of
                   Inl _ \<Rightarrow> fst first | Inr (d, _) \<Rightarrow> d)
    in snd first = 1 \<and> snd (fst (apply_now (again, snd first))) = 2)"
proof -
  let ?p = "demo_row ''fact'' (Finite 1)" and ?q = "applied_values (Some 40) 6 (demo_row ''fact'' (Finite 1))"
  have first: "fst (apply_now (demo_store ''fact'' (Finite 1), 0)) = (holding ?q, 1)"
    using apply_holding [of ?p 0] by (simp add: demo_holding demo_fact ready_states_def)
  obtain errors x where "validate_proposal demo_service 7 30 (holding ?q) =
      Inr (holding (validation_values ''validated'' errors 7 ?q), x)"
    using validate_holding [of ?q] by (auto simp: demo_verdict)
  moreover have "snd (fst (apply_now (holding (validation_values ''validated'' errors 7 ?q), 1))) = 2"
    for errors
    using apply_holding [of "validation_values ''validated'' errors 7 ?q" 1]
    by (simp add: ready_states_def)
  ultimately show ?thesis unfolding first by (simp add: Let_def)
qed

text \<open>
  Divergence: a rejected proposal can still be approved and applied; nothing guards
  the transition out of the rejected state.
\<close>

theorem rejected_proposal_is_applied:
  "(let rejected = fst (mark_rejected 3 30 ''bad'' [] 5 (demo_store ''supersession'' (Finite 1)));
        approved = fst (approve 3 30 6 rejected)
    in map mp_validation (cd_proposals rejected) = [''rejected'']
     \<and> map mp_validation (cd_proposals (fst (fst (apply_now (approved, 0))))) = [''applied''])"
proof -
  let ?p = "demo_row ''supersession'' (Finite 1)"
  let ?r = "validation_values ''rejected'' [[(''reason'', PyStr ''bad'')]] 5 ?p"
  let ?a = "validation_values ''approved'' [] 6 ?r"
  have r: "fst (mark_rejected 3 30 ''bad'' [] 5 (demo_store ''supersession'' (Finite 1))) = holding ?r"
    by (simp add: mark_rejected_def update_validation_state_def demo_holding holding_steps)
  have a: "fst (approve 3 30 6 (holding ?r)) = holding ?a"
    by (simp add: approve_def update_validation_state_def holding_steps)
  have "fst (apply_now (holding ?a, 0)) = (holding (applied_values (Some 40) 6 ?a), 1)"
    using apply_holding [of ?a 0] by (simp add: ready_states_def)
  then show ?thesis unfolding r a Let_def by (simp add: r a holding_def)
qed

text \<open>
  Divergence: a critical proposal without enough evidence is refused admission
  (status and admission state rejected, errors recorded) but stays in the review queue.
\<close>

theorem refused_proposal_awaits_review:
  "mp_status (demo_row ''supersession'' (Finite 1)) = ''rejected''
   \<and> mp_admission (demo_row ''supersession'' (Finite 1)) = ''rejected''
   \<and> get_review_queue 3 None 100 (demo_store ''supersession'' (Finite 1)) =
       [demo_row ''supersession'' (Finite 1)]"
  by (simp add: demo_supersession get_review_queue_def demo_store_def awaiting_review_def
      of_user_def page_def descending_def)

text \<open>
  Divergence: the review queue sorts the risk tiers by their names, so the critical
  proposals come last.
\<close>

theorem critical_proposals_are_reviewed_last:
  "map mp_risk (get_review_queue 3 None 100 (empty_store\<lparr>cd_proposals := map (\<lambda>t.
      (demo_row ''supersession'' (Finite 1))\<lparr>mp_risk := t\<rparr>) [''critical'', ''high'', ''low'', ''medium'']\<rparr>)) =
   [''medium'', ''low'', ''high'', ''critical'']"
  by (simp add: get_review_queue_def demo_supersession awaiting_review_def of_user_def page_def
      descending_def sort_key_def)

text \<open>
  Divergence: a confidence that is not a number is clamped to one, so a low-risk
  proposal whose confidence is \<open>NaN\<close> is validated without review.
\<close>

theorem nan_confidence_is_full_confidence:
  "confidence_of (PyStr ''nan'') = 1 \<and>
   mp_validation (demo_row ''fact'' NotANumber) = ''validated''"
proof -
  have "py_float (PyStr ''nan'') = Some NotANumber" by code_simp
  then show ?thesis by (simp add: confidence_of_def demo_fact)
qed

end
