(* ===== verification/Json_Decode.thy ===== *)
theory Json_Decode
  imports Py_Value
begin

section \<open>\<open>json.loads\<close> and \<open>JSONDecoder.raw_decode\<close>\<close>

text \<open>
  CPython's scanner, as the code uses it: \<open>raw_decode(text, i)\<close> reads one JSON value and says where
  it stopped; \<open>loads\<close> also wants only blanks around it.  Strings are strict (no raw control
  characters).  A numeral is kept as it is written, and an escape above the model's characters is
  read as a question mark.  The scanner is given fuel; \<open>jvalue_fuel\<close> shows twice the length of the
  text plus one is enough, and more changes nothing.
\<close>

definition json_blank :: "char \<Rightarrow> bool" where
  "json_blank c \<longleftrightarrow> code c \<in> {32, 9, 10, 13}"

definition skip :: "string \<Rightarrow> string" where
  "skip s = dropWhile json_blank s"

definition hex4 :: "string \<Rightarrow> nat option" where
  "hex4 s =
     (case s of
        [a, b, c, d] \<Rightarrow>
          (case (hex_val a, hex_val b, hex_val c, hex_val d) of
             (Some w, Some x, Some y, Some z) \<Rightarrow> Some (((w * 16 + x) * 16 + y) * 16 + z)
           | _ \<Rightarrow> None)
      | _ \<Rightarrow> None)"

definition char_or_mark :: "nat \<Rightarrow> char" where
  "char_or_mark n = (if n < 256 then char_of n else CHR ''?'')"

text \<open>The second half of a surrogate pair, if one follows.\<close>

definition low_half :: "string \<Rightarrow> nat option" where
  "low_half rest =
     (if take 2 rest = [CHR 0x5C, CHR ''u''] then hex4 (take 4 (drop 2 rest)) else None)"

text \<open>One character after a backslash; a surrogate pair is one character.\<close>

definition escape :: "string \<Rightarrow> (char \<times> string) option" where
  "escape s =
     (case s of
        [] \<Rightarrow> None
      | c # cs \<Rightarrow>
          if c = CHR 0x22 \<or> c = CHR 0x5C \<or> c = CHR ''/'' then Some (c, cs)
          else if c = CHR ''b'' then Some (CHR 0x08, cs)
          else if c = CHR ''f'' then Some (CHR 0x0C, cs)
          else if c = CHR ''n'' then Some (CHR 0x0A, cs)
          else if c = CHR ''r'' then Some (CHR 0x0D, cs)
          else if c = CHR ''t'' then Some (CHR 0x09, cs)
          else if c = CHR ''u'' then
            (case hex4 (take 4 cs) of
               None \<Rightarrow> None
             | Some n \<Rightarrow>
                 if 0xD800 \<le> n \<and> n \<le> 0xDBFF \<and>
                    (case low_half (drop 4 cs) of Some m \<Rightarrow> 0xDC00 \<le> m \<and> m \<le> 0xDFFF | None \<Rightarrow> False)
                 then Some (CHR ''?'', drop 6 (drop 4 cs))
                 else Some (char_or_mark n, drop 4 cs))
          else None)"

lemma escape_shorter: "escape s = Some (c, r) \<Longrightarrow> length r < length s"
  by (auto simp: escape_def split: list.splits if_splits option.splits)

text \<open>The rest of a string literal after its opening quote.\<close>

function scan_string :: "string \<Rightarrow> (string \<times> string) option" where
  "scan_string [] = None"
| "scan_string (c # cs) =
     (if c = CHR 0x22 then Some ([], cs)
      else if code c < 32 then None
      else if c = CHR 0x5C then
        (case escape cs of
           None \<Rightarrow> None
         | Some (x, r) \<Rightarrow> map_option (\<lambda>(s, t). (x # s, t)) (scan_string r))
      else map_option (\<lambda>(s, t). (c # s, t)) (scan_string cs))"
  by pat_completeness auto
termination
  by (relation "measure length") (auto dest: escape_shorter)

text \<open>\<open>(-?(?:0|[1-9]\d*))(\.\d+)?([eE][-+]?\d+)?\<close>\<close>

definition digits1 :: "string \<Rightarrow> string \<times> string" where
  "digits1 s = (takeWhile is_decimal s, dropWhile is_decimal s)"

definition number_sign :: "string \<Rightarrow> string \<times> string" where
  "number_sign s = (case s of c # cs \<Rightarrow> if c = CHR ''-'' then ([c], cs) else ([], s) | [] \<Rightarrow> ([], s))"

definition number_whole :: "string \<Rightarrow> (string \<times> string) option" where
  "number_whole s =
     (case s of
        [] \<Rightarrow> None
      | c # cs \<Rightarrow> if c = CHR ''0'' then Some ([c], cs)
          else if is_decimal c then Some (digits1 s) else None)"

definition number_frac :: "string \<Rightarrow> string \<times> string" where
  "number_frac s =
     (case s of
        c # d # cs \<Rightarrow> if c = CHR ''.'' \<and> is_decimal d
          then (case digits1 (d # cs) of (ds, r) \<Rightarrow> (c # ds, r)) else ([], s)
      | _ \<Rightarrow> ([], s))"

definition number_exp :: "string \<Rightarrow> string \<times> string" where
  "number_exp s =
     (case s of
        c # cs \<Rightarrow>
          (if c = CHR ''e'' \<or> c = CHR ''E'' then
             (case cs of
                d # ds \<Rightarrow>
                  (let (sign, r) = (if d = CHR ''+'' \<or> d = CHR ''-'' then ([d], ds) else ([], cs));
                       (es, t) = digits1 r
                   in if es \<noteq> [] then (c # sign @ es, t) else ([], s))
              | [] \<Rightarrow> ([], s))
           else ([], s))
      | [] \<Rightarrow> ([], s))"

definition scan_number :: "string \<Rightarrow> (string \<times> string) option" where
  "scan_number s =
     (let (sign, s1) = number_sign s in
      case number_whole s1 of
        None \<Rightarrow> None
      | Some (whole, s2) \<Rightarrow>
          (let (frac, s3) = number_frac s2; (ex, s4) = number_exp s3
           in Some (sign @ whole @ frac @ ex, s4)))"

text \<open>The literal names; the constants are numbers to Python.\<close>

definition literals :: "(string \<times> py) list" where
  "literals =
     [(''null'', PyNone), (''true'', PyBool True), (''false'', PyBool False), (''NaN'', PyNum ''nan''),
      (''Infinity'', PyNum ''inf''), (''-Infinity'', PyNum ''-inf'')]"

definition scan_atom :: "string \<Rightarrow> (py \<times> string) option" where
  "scan_atom s =
     (case find (\<lambda>(w, v). starts_with s w) literals of
        Some (w, v) \<Rightarrow> Some (v, drop (length w) s)
      | None \<Rightarrow> map_option (\<lambda>(t, r). (PyNum t, r)) (scan_number s))"

text \<open>\<open>dict(pairs)\<close>: a key keeps its first place and its last value.\<close>

fun dict_of :: "(string \<times> 'v) list \<Rightarrow> (string \<times> 'v) list" where
  "dict_of [] = []"
| "dict_of ((k, v) # ps) =
     (k, case map_of (rev ps) k of Some w \<Rightarrow> w | None \<Rightarrow> v) #
     filter (\<lambda>p. fst p \<noteq> k) (dict_of ps)"

text \<open>A value; the elements of an array; the members of an object (from the quote of a key).\<close>

fun jvalue :: "nat \<Rightarrow> string \<Rightarrow> (py \<times> string) option"
  and jelements :: "nat \<Rightarrow> string \<Rightarrow> (py list \<times> string) option"
  and jmembers :: "nat \<Rightarrow> string \<Rightarrow> ((string \<times> py) list \<times> string) option" where
  "jvalue 0 s = None"
| "jvalue (Suc n) s =
     (case s of
        [] \<Rightarrow> None
      | c # cs \<Rightarrow>
          if c = CHR 0x22 then map_option (\<lambda>(t, r). (PyStr t, r)) (scan_string cs)
          else if c = CHR ''{'' then
            (case skip cs of
               [] \<Rightarrow> None
             | d # ds \<Rightarrow> if d = CHR ''}'' then Some (PyDict [], ds)
                 else map_option (\<lambda>(ps, r). (PyDict (dict_of ps), r)) (jmembers n (d # ds)))
          else if c = CHR ''['' then
            (case skip cs of
               [] \<Rightarrow> None
             | d # ds \<Rightarrow> if d = CHR '']'' then Some (PyList [], ds)
                 else map_option (\<lambda>(xs, r). (PyList xs, r)) (jelements n (d # ds)))
          else scan_atom s)"
| "jelements 0 s = None"
| "jelements (Suc n) s =
     (case jvalue n s of
        None \<Rightarrow> None
      | Some (v, r) \<Rightarrow>
          (case skip r of
             [] \<Rightarrow> None
           | d # ds \<Rightarrow>
               if d = CHR '']'' then Some ([v], ds)
               else if d = CHR '','' then map_option (\<lambda>(vs, t). (v # vs, t)) (jelements n (skip ds))
               else None))"
| "jmembers 0 s = None"
| "jmembers (Suc n) s =
     (case s of
        [] \<Rightarrow> None
      | c # cs \<Rightarrow>
          if c \<noteq> CHR 0x22 then None
          else case scan_string cs of
            None \<Rightarrow> None
          | Some (k, r) \<Rightarrow>
              (case skip r of
                 [] \<Rightarrow> None
               | d # ds \<Rightarrow>
                   if d \<noteq> CHR '':'' then None
                   else case jvalue n (skip ds) of
                     None \<Rightarrow> None
                   | Some (v, t) \<Rightarrow>
                       (case skip t of
                          [] \<Rightarrow> None
                        | e # es \<Rightarrow>
                            if e = CHR ''}'' then Some ([(k, v)], es)
                            else if e = CHR '','' then
                              map_option (\<lambda>(ps, u). ((k, v) # ps, u)) (jmembers n (skip es))
                            else None)))"

definition raw_decode :: "string \<Rightarrow> (py \<times> string) option" where
  "raw_decode s = jvalue (2 * length s + 2) s"

definition loads :: "string \<Rightarrow> py option" where
  "loads s =
     (case raw_decode (skip s) of
        Some (v, r) \<Rightarrow> if skip r = [] then Some v else None
      | None \<Rightarrow> None)"

subsection \<open>Every value takes something; the fuel is enough\<close>

lemma skip_shorter: "length (skip s) \<le> length s"
  by (simp add: skip_def length_dropWhile_le)

lemma skip_Cons_shorter: "skip s = c # cs \<Longrightarrow> length cs < length s"
  using skip_shorter [of s] by simp

lemma scan_string_shorter: "scan_string s = Some (t, r) \<Longrightarrow> length r < length s"
proof (induction s arbitrary: t r rule: scan_string.induct)
  case (2 c cs)
  then show ?case
    by (auto split: if_splits option.splits dest!: escape_shorter) (fastforce dest: escape_shorter)+
qed simp

lemma number_sign_split: "number_sign s = (a, b) \<Longrightarrow> s = a @ b"
  by (auto simp: number_sign_def split: list.splits if_splits)

lemma number_whole_split: "number_whole s = Some (a, b) \<Longrightarrow> s = a @ b \<and> a \<noteq> []"
  by (auto simp: number_whole_def digits1_def split: list.splits if_splits)

lemma number_frac_split: "number_frac s = (a, b) \<Longrightarrow> s = a @ b"
  by (auto simp: number_frac_def digits1_def split: list.splits if_splits)

lemma number_exp_split: "number_exp s = (a, b) \<Longrightarrow> s = a @ b"
  by (auto simp: number_exp_def digits1_def Let_def split: list.splits if_splits prod.splits)

lemma scan_numberE:
  assumes "scan_number s = Some (t, r)"
  obtains sign s1 whole s2 frac s3 ex where "number_sign s = (sign, s1)"
    "number_whole s1 = Some (whole, s2)" "number_frac s2 = (frac, s3)" "number_exp s3 = (ex, r)"
    "t = sign @ whole @ frac @ ex"
  using assms by (auto simp: scan_number_def Let_def split: prod.splits option.splits)

lemma scan_number_split: "scan_number s = Some (t, r) \<Longrightarrow> s = t @ r \<and> t \<noteq> []"
  by (erule scan_numberE)
     (auto dest!: number_sign_split number_whole_split number_frac_split number_exp_split)

lemma literal_facts: "(w, v) \<in> set literals \<Longrightarrow> w \<noteq> [] \<and> hd w \<notin> set ''0123456789{['' \<and> hd w \<noteq> CHR 0x22"
  by (auto simp: literals_def)

lemma scan_atom_shorter: "scan_atom s = Some (v, r) \<Longrightarrow> length r < length s"
proof (cases "find (\<lambda>(w, v). starts_with s w) literals")
  case None
  assume "scan_atom s = Some (v, r)"
  with None obtain t where "scan_number s = Some (t, r)"
    by (auto simp: scan_atom_def)
  from scan_number_split [OF this] show ?thesis by auto
next
  case (Some x)
  obtain w u where x: "x = (w, u)" by (cases x)
  assume "scan_atom s = Some (v, r)"
  with Some x have r: "r = drop (length w) s" by (simp add: scan_atom_def)
  from Some x have "(w, u) \<in> set literals" "starts_with s w"
    by (auto simp: find_Some_iff in_set_conv_nth)
  with literal_facts have "w \<noteq> []" "\<exists>t. s = w @ t" by (auto simp: starts_with_iff)
  with r show ?thesis by auto
qed

text \<open>How each part of the scanner succeeds.\<close>

lemma jelements_SomeE:
  assumes "jelements n s = Some (vs, r)"
  obtains m v r1 d ds where "n = Suc m" "jvalue m s = Some (v, r1)" "skip r1 = d # ds"
      "d = CHR '']''" "vs = [v]" "r = ds"
    | m v r1 d ds vs' where "n = Suc m" "jvalue m s = Some (v, r1)" "skip r1 = d # ds"
      "d = CHR '',''" "jelements m (skip ds) = Some (vs', r)" "vs = v # vs'"
  using assms by (cases n) (auto split: option.splits list.splits if_splits)

lemma jmembers_SomeE:
  assumes "jmembers n s = Some (ps, r)"
  obtains m cs k r1 ds v t e es where "n = Suc m" "s = CHR 0x22 # cs" "scan_string cs = Some (k, r1)"
      "skip r1 = CHR '':'' # ds" "jvalue m (skip ds) = Some (v, t)" "skip t = e # es"
      "e = CHR ''}''" "ps = [(k, v)]" "r = es"
    | m cs k r1 ds v t e es ps' where "n = Suc m" "s = CHR 0x22 # cs" "scan_string cs = Some (k, r1)"
      "skip r1 = CHR '':'' # ds" "jvalue m (skip ds) = Some (v, t)" "skip t = e # es"
      "e = CHR '',''" "jmembers m (skip es) = Some (ps', r)" "ps = (k, v) # ps'"
  using assms by (cases n) (auto split: option.splits list.splits if_splits)

lemma jvalue_SomeE:
  assumes "jvalue n s = Some (v, r)"
  obtains m cs t where "n = Suc m" "s = CHR 0x22 # cs" "scan_string cs = Some (t, r)" "v = PyStr t"
    | m cs where "n = Suc m" "s = CHR ''{'' # cs" "skip cs = CHR ''}'' # r" "v = PyDict []"
    | m cs d ds ps where "n = Suc m" "s = CHR ''{'' # cs" "skip cs = d # ds" "d \<noteq> CHR ''}''"
      "jmembers m (d # ds) = Some (ps, r)" "v = PyDict (dict_of ps)"
    | m cs where "n = Suc m" "s = CHR ''['' # cs" "skip cs = CHR '']'' # r" "v = PyList []"
    | m cs d ds xs where "n = Suc m" "s = CHR ''['' # cs" "skip cs = d # ds" "d \<noteq> CHR '']''"
      "jelements m (d # ds) = Some (xs, r)" "v = PyList xs"
    | m c cs where "n = Suc m" "s = c # cs" "c \<noteq> CHR 0x22" "c \<noteq> CHR ''{''" "c \<noteq> CHR ''[''"
      "scan_atom s = Some (v, r)"
  using assms by (cases n) (auto split: option.splits list.splits if_splits)

lemma skip_less: "length r < length (skip x) \<Longrightarrow> length r < length x"
  using skip_shorter [of x] by simp

lemma value_shorter_all:
  "(jvalue n s = Some (v, r) \<longrightarrow> length r < length s)
   \<and> (jelements n s = Some (vs, r) \<longrightarrow> length r < length s)
   \<and> (jmembers n s = Some (ps, r) \<longrightarrow> length r < length s)"
proof (induction n arbitrary: s v r vs ps)
  case (Suc n)
  have val: "length b < length a" if "jvalue n a = Some (w, b)" for a w b using Suc that by blast
  have elems: "length b < length a" if "jelements n a = Some (w, b)" for a w b using Suc that by blast
  have mems: "length b < length a" if "jmembers n a = Some (w, b)" for a w b using Suc that by blast
  have "length r < length s" if "jvalue (Suc n) s = Some (v, r)"
    using that
  proof (cases rule: jvalue_SomeE)
    case (1 m cs t)
    then show ?thesis using scan_string_shorter [of cs t r] by simp
  next
    case (2 m cs)
    then show ?thesis using skip_Cons_shorter [of cs] by fastforce
  next
    case (3 m cs d ds ps)
    then show ?thesis using mems [of "d # ds" ps r] skip_Cons_shorter [of cs d ds] by simp
  next
    case (4 m cs)
    then show ?thesis using skip_Cons_shorter [of cs] by fastforce
  next
    case (5 m cs d ds xs)
    then show ?thesis using elems [of "d # ds" xs r] skip_Cons_shorter [of cs d ds] by simp
  next
    case (6 m c cs)
    then show ?thesis using scan_atom_shorter by blast
  qed
  moreover have "length r < length s" if "jelements (Suc n) s = Some (vs, r)"
    using that
  proof (cases rule: jelements_SomeE)
    case (1 m v r1 d ds)
    then show ?thesis using val [of s v r1] skip_Cons_shorter [of r1 d ds] by simp
  next
    case (2 m v r1 d ds vs')
    then show ?thesis
      using val [of s v r1] skip_Cons_shorter [of r1 d ds] skip_less [OF elems [of "skip ds" vs' r]]
      by simp
  qed
  moreover have "length r < length s" if "jmembers (Suc n) s = Some (ps, r)"
    using that
  proof (cases rule: jmembers_SomeE)
    case (1 m cs k r1 ds v t e es)
    then show ?thesis
      using scan_string_shorter [of cs k r1] skip_Cons_shorter [of r1 "CHR '':''" ds]
        skip_less [OF val [of "skip ds" v t]] skip_Cons_shorter [of t e es] by simp
  next
    case (2 m cs k r1 ds v t e es ps')
    then show ?thesis
      using scan_string_shorter [of cs k r1] skip_Cons_shorter [of r1 "CHR '':''" ds]
        skip_less [OF val [of "skip ds" v t]] skip_Cons_shorter [of t e es]
        skip_less [OF mems [of "skip es" ps' r]] by simp
  qed
  ultimately show ?case by blast
qed simp

lemma jvalue_shorter: "jvalue n s = Some (v, r) \<Longrightarrow> length r < length s"
  using value_shorter_all by blast

text \<open>Enough fuel is as good as any more.\<close>

lemma fuel_step:
  "(2 * length s + 1 \<le> n \<longrightarrow> jvalue (Suc n) s = jvalue n s)
   \<and> (2 * length s + 2 \<le> n \<longrightarrow> jelements (Suc n) s = jelements n s)
   \<and> (2 * length s + 2 \<le> n \<longrightarrow> jmembers (Suc n) s = jmembers n s)"
proof (induction n arbitrary: s)
  case (Suc n)
  have val: "jvalue (Suc n) x = jvalue n x" if "2 * length x + 1 \<le> n" for x using Suc that by blast
  have elems: "jelements (Suc n) x = jelements n x" if "2 * length x + 2 \<le> n" for x using Suc that by blast
  have mems: "jmembers (Suc n) x = jmembers n x" if "2 * length x + 2 \<le> n" for x using Suc that by blast
  have shorter: "length (skip ds) < length x" if "skip x = d # ds" for d ds x
    using skip_Cons_shorter [OF that] skip_shorter [of ds] by simp
  have "jvalue (Suc (Suc n)) s = jvalue (Suc n) s" if "2 * length s + 1 \<le> Suc n"
  proof (cases s)
    case (Cons c cs)
    have "jmembers (Suc n) (d # ds) = jmembers n (d # ds)" "jelements (Suc n) (d # ds) = jelements n (d # ds)"
      if "skip cs = d # ds" for d ds
    proof -
      have "2 * length (d # ds) + 2 \<le> n"
        using skip_Cons_shorter [OF that] \<open>2 * length s + 1 \<le> Suc n\<close> Cons by simp
      then show "jmembers (Suc n) (d # ds) = jmembers n (d # ds)"
        "jelements (Suc n) (d # ds) = jelements n (d # ds)" by (rule mems, rule elems)
    qed
    then show ?thesis
      unfolding Cons jvalue.simps(2) by (simp split: list.splits del: jvalue.simps jelements.simps jmembers.simps)
  qed simp
  moreover have "jelements (Suc (Suc n)) s = jelements (Suc n) s" if "2 * length s + 2 \<le> Suc n"
  proof -
    have "jelements (Suc n) (skip ds) = jelements n (skip ds)"
      if "jvalue n s = Some (v, r)" "skip r = d # ds" for v r d ds
      using jvalue_shorter [OF that(1)] shorter [OF that(2)] \<open>2 * length s + 2 \<le> Suc n\<close>
      by (intro elems) linarith
    moreover have "jvalue (Suc n) s = jvalue n s" using that by (intro val) simp
    ultimately show ?thesis
      unfolding jelements.simps(2)
      by (simp split: list.splits option.splits prod.splits del: jvalue.simps jelements.simps jmembers.simps)
  qed
  moreover have "jmembers (Suc (Suc n)) s = jmembers (Suc n) s" if "2 * length s + 2 \<le> Suc n"
  proof (cases s)
    case (Cons c cs)
    have v: "jvalue (Suc n) (skip ds) = jvalue n (skip ds)"
      if "scan_string cs = Some (k, r)" "skip r = d # ds" for k r d ds
      using scan_string_shorter [OF that(1)] shorter [OF that(2)] \<open>2 * length s + 2 \<le> Suc n\<close> Cons
      by (intro val) simp
    have m: "jmembers (Suc n) (skip es) = jmembers n (skip es)"
      if "scan_string cs = Some (k, r)" "skip r = d # ds" "jvalue n (skip ds) = Some (w, t)"
        "skip t = e # es" for k r d ds w t e es
      using scan_string_shorter [OF that(1)] shorter [OF that(2)] jvalue_shorter [OF that(3)]
        shorter [OF that(4)] \<open>2 * length s + 2 \<le> Suc n\<close> Cons
      by (intro mems) simp
    show ?thesis
      unfolding Cons
      by (subst jmembers.simps(2) [of "Suc n" "c # cs"], subst jmembers.simps(2) [of n "c # cs"])
         (use v m in \<open>simp split: list.splits option.splits prod.splits
            del: jvalue.simps jelements.simps jmembers.simps\<close>)
  qed simp
  ultimately show ?case by blast
qed simp

lemma jvalue_enough: "2 * length s + 1 \<le> n \<Longrightarrow> n \<le> m \<Longrightarrow> jvalue m s = jvalue n s"
proof (induction m)
  case (Suc m)
  show ?case
  proof (cases "n = Suc m")
    case False
    with Suc.prems have "n \<le> m" by simp
    with Suc fuel_step [of s m] show ?thesis by simp
  qed simp
qed simp

subsection \<open>What follows a value does not change it\<close>

text \<open>
  A value that is followed by a blank, a comma or a closing bracket is read the same whatever
  comes after; a string, an array or an object is read the same even at the end of the text.
\<close>

definition delimiter :: "char \<Rightarrow> bool" where
  "delimiter c \<longleftrightarrow> json_blank c \<or> c \<in> set '',:]}''"

definition delimited :: "string \<Rightarrow> bool" where
  "delimited r \<longleftrightarrow> r \<noteq> [] \<and> delimiter (hd r)"

lemma delimiter_plain: "delimiter c \<Longrightarrow> \<not> is_decimal c \<and> c \<notin> set ''.eE+-''"
  by (auto simp: delimiter_def json_blank_def is_decimal_def)

lemma skip_append: "skip s \<noteq> [] \<Longrightarrow> skip (s @ t) = skip s @ t"
  by (induction s) (auto simp: skip_def)

lemma skip_append_Cons: "skip s = c # cs \<Longrightarrow> skip (s @ t) = c # cs @ t"
  using skip_append [of s t] by simp

lemma hex4_length: "hex4 s = Some n \<Longrightarrow> length s = 4"
  by (auto simp: hex4_def split: list.splits)

lemma hex4_take: "hex4 (take 4 s) = Some n \<Longrightarrow> 4 \<le> length s"
  using hex4_length [of "take 4 s" n] by (simp add: min_def split: if_splits)

lemma low_half_length: "low_half rest = Some m \<Longrightarrow> 6 \<le> length rest"
  by (auto simp: low_half_def split: if_splits dest!: hex4_take)

lemma escape_u:
  "escape (CHR ''u'' # cs) =
     (case hex4 (take 4 cs) of
        None \<Rightarrow> None
      | Some n \<Rightarrow>
          if 0xD800 \<le> n \<and> n \<le> 0xDBFF \<and>
             (case low_half (drop 4 cs) of Some m \<Rightarrow> 0xDC00 \<le> m \<and> m \<le> 0xDFFF | None \<Rightarrow> False)
          then Some (CHR ''?'', drop 6 (drop 4 cs))
          else Some (char_or_mark n, drop 4 cs))"
  by (simp add: escape_def)

lemma low_half_append:
  assumes "scan_string rest \<noteq> None \<or> low_half rest \<noteq> None"
  shows "low_half (rest @ t) = low_half rest"
proof (cases "6 \<le> length rest")
  case False
  then have "low_half rest = None" using low_half_length by (cases "low_half rest") auto
  with assms obtain c cs where rest: "rest = c # cs" "scan_string rest \<noteq> None" by (cases rest) auto
  have "take 2 (rest @ t) \<noteq> [CHR 0x5C, CHR ''u'']"
  proof
    assume u: "take 2 (rest @ t) = [CHR 0x5C, CHR ''u'']"
    with rest(1) have c: "c = CHR 0x5C" by simp
    with rest(2) have esc: "escape cs \<noteq> None" unfolding rest(1) by (auto split: option.splits)
    then obtain d ds where "cs = d # ds" by (cases cs) (auto simp: escape_def)
    with u rest(1) have "cs = CHR ''u'' # ds" by simp
    with esc obtain n where "hex4 (take 4 ds) = Some n" by (auto simp: escape_u split: option.splits)
    from hex4_take [OF this] \<open>cs = CHR ''u'' # ds\<close> rest(1) False show False by simp
  qed
  with \<open>low_half rest = None\<close> show ?thesis by (simp add: low_half_def)
qed (simp add: low_half_def)

lemma escape_append:
  assumes "escape s = Some (c, r)" and "scan_string r \<noteq> None"
  shows "escape (s @ t) = Some (c, r @ t)"
proof -
  obtain x cs where s: "s = x # cs" using assms(1) by (cases s) (auto simp: escape_def)
  show ?thesis
  proof (cases "x = CHR ''u''")
    case True
    with assms(1) s obtain n where n: "hex4 (take 4 cs) = Some n" by (auto simp: escape_u split: option.splits)
    have len: "4 \<le> length cs" using n by (rule hex4_take)
    have "scan_string (drop 4 cs) \<noteq> None \<or> low_half (drop 4 cs) \<noteq> None"
      using assms s True n by (auto simp: escape_u split: if_splits option.splits)
    then have low: "low_half (drop 4 cs @ t) = low_half (drop 4 cs)" by (rule low_half_append)
    show ?thesis
    proof (cases "low_half (drop 4 cs)")
      case None
      with assms(1) s True n len low show ?thesis by (auto simp: escape_u)
    next
      case (Some m)
      from low_half_length [OF this] have "10 \<le> length cs" using len by simp
      with assms(1) s True n len low Some show ?thesis
        by (auto simp: escape_u split: if_splits)
    qed
  next
    case False
    with assms(1) s show ?thesis by (auto simp: escape_def split: if_splits)
  qed
qed

lemma scan_string_append: "scan_string s = Some (x, r) \<Longrightarrow> scan_string (s @ t) = Some (x, r @ t)"
proof (induction s arbitrary: x r rule: scan_string.induct)
  case (2 c cs)
  show ?case
  proof (cases "c = CHR 0x5C")
    case True
    with "2.prems" obtain d e where e: "escape cs = Some (d, e)" by (auto split: option.splits)
    with True "2.prems" obtain y where y: "scan_string e = Some (y, r)" "x = d # y"
      by auto
    have "scan_string (e @ t) = Some (y, r @ t)"
      using "2.IH"(1) [OF _ _ True e refl y(1)] True by simp
    moreover have "escape (cs @ t) = Some (d, e @ t)" using e y by (intro escape_append) simp_all
    ultimately show ?thesis using True y(2) by simp
  next
    case False
    with 2 show ?thesis by (auto split: if_splits)
  qed
qed simp

lemma digits1_append: "digits1 s = (a, b) \<Longrightarrow> b \<noteq> [] \<Longrightarrow> digits1 (s @ t) = (a, b @ t)"
  by (induction s arbitrary: a) (auto simp: digits1_def)

lemma number_whole_append:
  "number_whole s = Some (a, b) \<Longrightarrow> b \<noteq> [] \<Longrightarrow> number_whole (s @ t) = Some (a, b @ t)"
  using digits1_append [of s a b t]
  by (cases s) (auto simp: number_whole_def split: if_splits)

lemma number_frac_append:
  assumes "number_frac s = (a, b)" and "b \<noteq> []" and "hd b \<noteq> CHR ''.''"
  shows "number_frac (s @ t) = (a, b @ t)"
proof (cases s rule: remdups_adj.cases)
  case (3 c d cs)
  then show ?thesis
    using assms digits1_append [of "d # cs" "tl a" b t]
    by (auto simp: number_frac_def split: if_splits prod.splits)
qed (use assms in \<open>auto simp: number_frac_def split: list.splits if_splits\<close>)

lemma number_exp_append:
  assumes "number_exp s = (a, b)" and "b \<noteq> []" and "hd b \<notin> set ''eE''"
  shows "number_exp (s @ t) = (a, b @ t)"
proof (cases s)
  case Nil
  with assms show ?thesis by (simp add: number_exp_def)
next
  case (Cons c cs)
  show ?thesis
  proof (cases "c = CHR ''e'' \<or> c = CHR ''E''")
    case False
    with Cons assms show ?thesis by (auto simp: number_exp_def)
  next
    case True
    with Cons assms obtain d ds where ds: "cs = d # ds"
      by (auto simp: number_exp_def split: list.splits)
    let ?sr = "if d = CHR ''+'' \<or> d = CHR ''-'' then ([d], ds) else ([], cs)"
    obtain es where es: "digits1 (snd ?sr) = (es, b)" "es \<noteq> []" "a = c # fst ?sr @ es"
      using Cons True ds assms by (auto simp: number_exp_def Let_def split: if_splits prod.splits)
    have "digits1 (snd ?sr @ t) = (es, b @ t)" using digits1_append [OF es(1) assms(2)] .
    with es Cons True ds show ?thesis
      by (auto simp: number_exp_def Let_def split: if_splits)
  qed
qed

lemma scan_number_append:
  assumes "scan_number s = Some (x, r)" and "delimited r"
  shows "scan_number (s @ t) = Some (x, r @ t)"
  using assms(1)
proof (rule scan_numberE)
  fix sign s1 whole s2 frac s3 ex
  assume p: "number_sign s = (sign, s1)" "number_whole s1 = Some (whole, s2)"
    "number_frac s2 = (frac, s3)" "number_exp s3 = (ex, r)" "x = sign @ whole @ frac @ ex"
  have r: "r \<noteq> []" "hd r \<notin> set ''.eE+-''" using assms(2) delimiter_plain by (auto simp: delimited_def)
  have e: "number_exp (s3 @ t) = (ex, r @ t)" using r by (intro number_exp_append [OF p(4)]) auto
  have s3: "s3 = ex @ r" using p(4) by (rule number_exp_split)
  have "ex = [] \<or> hd ex \<noteq> CHR ''.''"
    using p(4) by (auto simp: number_exp_def Let_def split: list.splits if_splits prod.splits)
  then have "hd s3 \<noteq> CHR ''.''" "s3 \<noteq> []" using s3 r by (cases ex; auto)+
  then have f: "number_frac (s2 @ t) = (frac, s3 @ t)" by (intro number_frac_append [OF p(3)])
  have "s2 \<noteq> []" using number_frac_split [OF p(3)] \<open>s3 \<noteq> []\<close> by simp
  then have w: "number_whole (s1 @ t) = Some (whole, s2 @ t)" by (intro number_whole_append [OF p(2)])
  have "s1 \<noteq> []" using number_whole_split [OF p(2)] by simp
  then have "number_sign (s @ t) = (sign, s1 @ t)"
    using p(1) by (cases s) (auto simp: number_sign_def split: if_splits)
  with w f e p(5) show ?thesis by (simp add: scan_number_def)
qed

text \<open>At most one literal name can start a text: they differ in their first character.\<close>

lemma literal_unique:
  "(w, v) \<in> set literals \<Longrightarrow> (w', v') \<in> set literals \<Longrightarrow> hd w = hd w' \<Longrightarrow> w = w' \<and> v = v'"
  by (auto simp: literals_def)

lemma find_literal:
  "find (\<lambda>(w, v). starts_with s w) literals = Some (w, v) \<longleftrightarrow> (w, v) \<in> set literals \<and> starts_with s w"
proof
  assume "find (\<lambda>(w, v). starts_with s w) literals = Some (w, v)"
  then show "(w, v) \<in> set literals \<and> starts_with s w"
    by (auto simp: find_Some_iff in_set_conv_nth)
next
  assume a: "(w, v) \<in> set literals \<and> starts_with s w"
  then obtain w' v' where f: "find (\<lambda>(w, v). starts_with s w) literals = Some (w', v')"
    by (cases "find (\<lambda>(w, v). starts_with s w) literals") (auto simp: find_None_iff)
  then have m: "(w', v') \<in> set literals" "starts_with s w'"
    by (auto simp: find_Some_iff in_set_conv_nth)
  have "hd u = hd s" if "(u, z) \<in> set literals" "starts_with s u" for u z
    using that literal_facts [OF that(1)] by (cases u; cases s) auto
  with a m have "hd w = hd w'" by metis
  with a m literal_unique [of w v w' v'] f show "find (\<lambda>(w, v). starts_with s w) literals = Some (w, v)"
    by simp
qed

lemma starts_with_append: "starts_with s w \<Longrightarrow> starts_with (s @ t) w"
  by (auto simp: starts_with_iff)

lemma no_literal_append:
  assumes "scan_number s = Some (x, r)" and "find (\<lambda>(w, v). starts_with s w) literals = None"
  shows "find (\<lambda>(w, v). starts_with (s @ t) w) literals = None"
proof (rule ccontr)
  assume "find (\<lambda>(w, v). starts_with (s @ t) w) literals \<noteq> None"
  then obtain w v where "find (\<lambda>(w, v). starts_with (s @ t) w) literals = Some (w, v)" by auto
  then have w: "(w, v) \<in> set literals" "starts_with (s @ t) w" unfolding find_literal by simp_all
  from assms(1) obtain sign s1 whole s2 where p: "number_sign s = (sign, s1)"
    "number_whole s1 = Some (whole, s2)" by (rule scan_numberE)
  have "s \<noteq> []" using scan_number_split [OF assms(1)] by auto
  then obtain c cs where s: "s = c # cs" by (cases s) auto
  have hw: "hd w = c" "w \<noteq> []" using w literal_facts [OF w(1)] s by (cases w; auto)+
  show False
  proof (cases "c = CHR ''-''")
    case True
    with w(1) hw have "w = ''-Infinity''" by (auto simp: literals_def)
    moreover have "s1 = cs" using p(1) s True by (simp add: number_sign_def)
    moreover obtain d ds where "cs = d # ds" "is_decimal d"
      using p(2) \<open>s1 = cs\<close> by (auto simp: number_whole_def is_decimal_def split: list.splits if_splits)
    ultimately show False using w(2) s by (auto simp: is_decimal_def)
  next
    case False
    then have "s1 = s" using p(1) s by (auto simp: number_sign_def)
    then have "is_decimal c" using p(2) s by (auto simp: number_whole_def is_decimal_def split: if_splits)
    then have "48 \<le> code c" "code c \<le> 57" by (simp_all add: is_decimal_def)
    with w(1) hw False show False by (auto simp: literals_def)
  qed
qed

lemma scan_atom_append:
  assumes "scan_atom s = Some (v, r)" and "delimited r"
  shows "scan_atom (s @ t) = Some (v, r @ t)"
proof (cases "find (\<lambda>(w, v). starts_with s w) literals")
  case None
  with assms(1) obtain x where x: "scan_number s = Some (x, r)" "v = PyNum x"
    by (auto simp: scan_atom_def)
  from scan_number_append [OF x(1) assms(2)] no_literal_append [OF x(1) None] x(2)
  show ?thesis by (simp add: scan_atom_def)
next
  case (Some p)
  obtain w u where p: "p = (w, u)" by (cases p)
  with Some have w: "(w, u) \<in> set literals" "starts_with s w" using find_literal by auto
  then have "find (\<lambda>(w, v). starts_with (s @ t) w) literals = Some (w, u)"
    unfolding find_literal by (simp add: starts_with_append)
  moreover have "length w \<le> length s" using w(2) by (auto simp: starts_with_iff)
  ultimately show ?thesis using Some p assms(1) by (simp add: scan_atom_def)
qed

text \<open>A value that closes itself: a string, an array, an object.\<close>

fun closed_value :: "py \<Rightarrow> bool" where
  "closed_value (PyStr s) = True"
| "closed_value (PyList xs) = True"
| "closed_value (PyDict kvs) = True"
| "closed_value _ = False"

lemma delimited_skip: "skip r = d # ds \<Longrightarrow> delimiter d \<Longrightarrow> delimited r"
proof (cases r)
  case (Cons c cs)
  assume "skip r = d # ds" "delimiter d"
  with Cons show ?thesis
    by (cases "json_blank c") (auto simp: delimited_def skip_def delimiter_def)
qed (simp add: skip_def)

lemma atom_not_closed: "scan_atom s = Some (v, r) \<Longrightarrow> \<not> closed_value v"
proof (cases "find (\<lambda>(w, v). starts_with s w) literals")
  case (Some p)
  obtain w u where p: "p = (w, u)" by (cases p)
  have "(w, u) \<in> set literals" using Some p find_literal by auto
  moreover assume "scan_atom s = Some (v, r)"
  then have "v = u" using Some p by (simp add: scan_atom_def)
  ultimately show ?thesis by (auto simp: literals_def)
qed (auto simp: scan_atom_def)

lemma value_append:
  "(jvalue n s = Some (v, r) \<longrightarrow> delimited r \<or> closed_value v \<longrightarrow> jvalue n (s @ t) = Some (v, r @ t))
   \<and> (jelements n s = Some (vs, r) \<longrightarrow> jelements n (s @ t) = Some (vs, r @ t))
   \<and> (jmembers n s = Some (ps, r) \<longrightarrow> jmembers n (s @ t) = Some (ps, r @ t))"
proof (induction n arbitrary: s v r vs ps)
  case (Suc n)
  have val: "jvalue n (a @ t) = Some (w, b @ t)" if "jvalue n a = Some (w, b)" "delimited b" for a w b
    using Suc that by blast
  have elems: "jelements n (a @ t) = Some (w, b @ t)" if "jelements n a = Some (w, b)" for a w b
    using Suc that by blast
  have mems: "jmembers n (a @ t) = Some (w, b @ t)" if "jmembers n a = Some (w, b)" for a w b
    using Suc that by blast
  have skipped: "skip (x @ t) = skip x @ t" if "skip x = d # ds" for x d ds
    using that by (simp add: skip_append)
  note simps = skip_append_Cons
  have "jvalue (Suc n) (s @ t) = Some (v, r @ t)"
    if "jvalue (Suc n) s = Some (v, r)" "delimited r \<or> closed_value v"
    using that(1)
  proof (cases rule: jvalue_SomeE)
    case (1 m cs x)
    then show ?thesis using scan_string_append [of cs x r t] by simp
  next
    case (2 m cs)
    then show ?thesis by (simp add: simps)
  next
    case (3 m cs d ds ps)
    then show ?thesis using mems [of "d # ds" ps r] by (simp add: simps del: jmembers.simps)
  next
    case (4 m cs)
    then show ?thesis by (simp add: simps)
  next
    case (5 m cs d ds xs)
    then show ?thesis using elems [of "d # ds" xs r] by (simp add: simps del: jelements.simps)
  next
    case (6 m c cs)
    then have "delimited r" using that(2) atom_not_closed by blast
    with 6 scan_atom_append [of s v r t] show ?thesis by simp
  qed
  moreover have "jelements (Suc n) (s @ t) = Some (vs, r @ t)" if "jelements (Suc n) s = Some (vs, r)"
    using that
  proof (cases rule: jelements_SomeE)
    case (1 m v r1 d ds)
    have "jvalue n (s @ t) = Some (v, r1 @ t)"
      using 1 delimited_skip [OF 1(3)] by (intro val) (auto simp: delimiter_def)
    with 1 show ?thesis by (simp add: simps)
  next
    case (2 m v r1 d ds vs')
    have "jvalue n (s @ t) = Some (v, r1 @ t)"
      using 2 delimited_skip [OF 2(3)] by (intro val) (auto simp: delimiter_def)
    moreover have "skip (ds @ t) = skip ds @ t"
    proof -
      have "skip ds \<noteq> []" using value_shorter_all [of m "skip ds" undefined r vs' undefined] 2(5)
        by (cases "skip ds") auto
      then show ?thesis by (rule skip_append)
    qed
    ultimately show ?thesis using 2 elems [of "skip ds" vs' r] by (simp add: simps)
  qed
  moreover have "jmembers (Suc n) (s @ t) = Some (ps, r @ t)" if "jmembers (Suc n) s = Some (ps, r)"
    using that
  proof (cases rule: jmembers_SomeE)
    case (1 m cs k r1 ds v u e es)
    have "skip ds \<noteq> []" using jvalue_shorter [OF 1(5)] by (cases "skip ds") auto
    moreover have "jvalue n (skip ds @ t) = Some (v, u @ t)"
      using 1 delimited_skip [OF 1(6)] by (intro val) (auto simp: delimiter_def)
    ultimately show ?thesis
      using 1 scan_string_append [OF 1(3), of t] by (simp add: simps skip_append)
  next
    case (2 m cs k r1 ds v u e es ps')
    have "skip ds \<noteq> []" using jvalue_shorter [OF 2(5)] by (cases "skip ds") auto
    moreover have "jvalue n (skip ds @ t) = Some (v, u @ t)"
      using 2 delimited_skip [OF 2(6)] by (intro val) (auto simp: delimiter_def)
    moreover have "skip es \<noteq> []"
      using value_shorter_all [of m "skip es" undefined r undefined ps'] 2(8) by (cases "skip es") auto
    ultimately show ?thesis
      using 2 scan_string_append [OF 2(3), of t] mems [of "skip es" ps' r]
      by (simp add: simps skip_append)
  qed
  ultimately show ?case by blast
qed simp

lemma raw_decode_append:
  assumes "raw_decode s = Some (v, r)" and "delimited r \<or> closed_value v"
  shows "raw_decode (s @ t) = Some (v, r @ t)"
proof -
  let ?n = "2 * length s + 2" and ?m = "2 * length (s @ t) + 2"
  have "jvalue ?m s = jvalue ?n s" by (rule jvalue_enough) simp_all
  then have "jvalue ?m s = Some (v, r)" using assms(1) by (simp add: raw_decode_def)
  with value_append assms(2) show ?thesis unfolding raw_decode_def by blast
qed

lemma raw_decode_shorter: "raw_decode s = Some (v, r) \<Longrightarrow> length r < length s"
  unfolding raw_decode_def by (rule jvalue_shorter)

lemma raw_decode_fuel: "2 * length s + 1 \<le> n \<Longrightarrow> jvalue n s = raw_decode s"
  using jvalue_enough [of s n "max n (2 * length s + 2)"]
    jvalue_enough [of s "2 * length s + 2" "max n (2 * length s + 2)"]
  by (simp add: raw_decode_def)

lemma raw_decode_dict:
  assumes "raw_decode s = Some (PyDict kvs, r)" shows "\<exists>cs. s = CHR ''{'' # cs"
  using assms unfolding raw_decode_def
proof (cases rule: jvalue_SomeE)
  case (6 m c cs)
  then show ?thesis using atom_not_closed by fastforce
qed simp_all

lemma raw_decode_brace:
  assumes "raw_decode (CHR ''{'' # cs) = Some (v, r)" shows "closed_value v"
  using assms unfolding raw_decode_def by (cases rule: jvalue_SomeE) simp_all

end
