(* ===== verification/Chunking.thy ===== *)
theory Chunking
  imports Json_Decode
begin

section \<open>Chunked extraction\<close>

text \<open>
  \<open>contexta/core/extraction/chunking.py\<close>: splitting a conversation into segments the extractor can
  hold, recovering the complete objects of a truncated JSON array, and merging the claims of the
  chunks.
\<close>

type_synonym unit_text = "string option \<times> string"

definition default_chunk_sentences :: nat where "default_chunk_sentences = 10"
definition default_max_chunk_chars :: nat where "default_max_chunk_chars = 1600"

subsection \<open>Turns\<close>

definition at_line_start :: "string \<Rightarrow> bool" where
  "at_line_start bef \<longleftrightarrow> bef = [] \<or> hd bef = CHR 0x0A"

definition after_stop :: "string \<Rightarrow> bool" where
  "after_stop bef \<longleftrightarrow> bef \<noteq> [] \<and> hd bef \<in> set ''.!?''"

definition turn_split :: regex where
  "turn_split = seqs [Behind at_line_start,
     Grp 1 (alts [ilit ''user'', ilit ''assistant'', ilit ''system'']),
     star (Cls is_space), chr (CHR '':''), star (Cls is_space)]"

definition sentence_split :: regex where
  "sentence_split = Seq (Behind after_stop) (plus (Cls is_space))"

text \<open>The text before the first role marker, and each marker's role with the text up to the next.\<close>

fun marked :: "segment list \<Rightarrow> string \<times> (string \<times> string) list" where
  "marked [] = ([], [])"
| "marked (Plain c # xs) = (case marked xs of (t, ms) \<Rightarrow> (c # t, ms))"
| "marked (Hit h # xs) = (case marked xs of (t, ms) \<Rightarrow> ([], (group 1 h, t) # ms))"

definition turns_of :: "string \<Rightarrow> unit_text list" where
  "turns_of text =
     (let ms = snd (marked (segments turn_split [] text))
      in if ms \<noteq> []
         then map (\<lambda>(role, body). (Some (lower role), strip body)) (filter (\<lambda>m. strip (snd m) \<noteq> []) ms)
         else [(None, text)])"

subsection \<open>Sentence units\<close>

fun split_words :: "nat \<Rightarrow> string list \<Rightarrow> string list \<Rightarrow> nat \<Rightarrow> string list" where
  "split_words max_chars [] current len = (if current \<noteq> [] then [join blank current] else [])"
| "split_words max_chars (w # ws) current len =
     (if current \<noteq> [] \<and> max_chars < len + length w + 1
      then join blank current # split_words max_chars ws [w] (length w + 1)
      else split_words max_chars ws (current @ [w]) (len + length w + 1))"

definition hard_split :: "string \<Rightarrow> nat \<Rightarrow> string option \<Rightarrow> unit_text list" where
  "hard_split sentence max_chars role =
     (if length sentence \<le> max_chars then [(role, sentence)]
      else
        let ps = split_words max_chars (split_ws sentence) [] 0
        in if ps \<noteq> [] then map (\<lambda>p. (role, p)) ps else [(role, sentence)])"

definition sentences_of :: "string \<Rightarrow> string list" where
  "sentences_of body = filter (\<lambda>s. s \<noteq> [] \<and> strip s \<noteq> []) (re_split sentence_split body)"

definition turn_units :: "nat \<Rightarrow> unit_text \<Rightarrow> unit_text list" where
  "turn_units max_chars turn =
     (case turn of (role, body) \<Rightarrow>
        (let ss = sentences_of body
         in concat (map (\<lambda>s. hard_split (strip s) max_chars role) (if ss \<noteq> [] then ss else [body]))
            @ (if ss = [] then [(role, body)] else [])))"

definition units_of :: "nat \<Rightarrow> string \<Rightarrow> unit_text list" where
  "units_of max_chars text = concat (map (turn_units max_chars) (turns_of text))"

subsection \<open>Chunks\<close>

definition render_unit :: "unit_text \<Rightarrow> string" where
  "render_unit u =
     (case u of
        (Some role, s) \<Rightarrow> if role \<noteq> [] then role @ '': '' @ s else s
      | (None, s) \<Rightarrow> s)"

definition render :: "unit_text list \<Rightarrow> string" where
  "render us = join [CHR 0x0A] (map render_unit us)"

definition unit_chars :: "unit_text \<Rightarrow> nat" where
  "unit_chars u =
     length (snd u) + (case fst u of Some role \<Rightarrow> if role \<noteq> [] then length role + 2 else 0 | None \<Rightarrow> 0)"

text \<open>Whether the group is flushed before the unit is added to it.\<close>

definition must_flush :: "nat \<Rightarrow> nat \<Rightarrow> unit_text list \<Rightarrow> nat \<Rightarrow> unit_text \<Rightarrow> bool" where
  "must_flush max_sentences max_chars current chars u \<longleftrightarrow>
     (current \<noteq> [] \<and> max_chars < chars + unit_chars u) \<or> max_sentences \<le> length current"

text \<open>The loop over the units: the groups it flushes, in order.\<close>

fun grouped :: "nat \<Rightarrow> nat \<Rightarrow> unit_text list \<Rightarrow> nat \<Rightarrow> unit_text list \<Rightarrow> unit_text list list" where
  "grouped max_sentences max_chars current chars [] = (if current \<noteq> [] then [current] else [])"
| "grouped max_sentences max_chars current chars (u # us) =
     (if must_flush max_sentences max_chars current chars u
      then (if current \<noteq> [] then [current] else []) @
           grouped max_sentences max_chars [u] (unit_chars u) us
      else grouped max_sentences max_chars (current @ [u]) (chars + unit_chars u) us)"

definition split_conversation :: "nat \<Rightarrow> nat \<Rightarrow> string \<Rightarrow> string list" where
  "split_conversation max_sentences max_chars conversation =
     (let text = strip conversation
      in if text = [] then []
         else
           let us = units_of max_chars text
           in if us = [] then []
              else
                let chunks = map render (grouped max_sentences max_chars [] 0 us)
                in if length chunks \<le> 1 then [text] else chunks)"

subsection \<open>Salvage\<close>

definition separator :: "char \<Rightarrow> bool" where
  "separator c \<longleftrightarrow> c \<in> set [CHR '' '', CHR 0x09, CHR 0x0D, CHR 0x0A, CHR '','']"

text \<open>
  The loop that walks the array, as the code writes it: it may not end by its form, so its value
  is optional.
\<close>

partial_function (option) salvage_loop :: "string \<Rightarrow> py list \<Rightarrow> py list option" where
  "salvage_loop s recovered =
     (case dropWhile separator s of
        [] \<Rightarrow> Some recovered
      | c # cs \<Rightarrow>
          if c \<noteq> CHR ''{'' then Some recovered
          else case raw_decode (c # cs) of
            None \<Rightarrow> Some recovered
          | Some (v, rest) \<Rightarrow>
              salvage_loop rest (case v of PyDict kvs \<Rightarrow> recovered @ [v] | _ \<Rightarrow> recovered))"

fun is_dict :: "py \<Rightarrow> bool" where
  "is_dict (PyDict kvs) = True"
| "is_dict _ = False"

definition salvage_slow :: "string \<Rightarrow> (py list \<times> bool) option" where
  "salvage_slow text =
     (case dropWhile (\<lambda>c. c \<noteq> CHR ''['') text of
        [] \<Rightarrow> Some ([], False)
      | c # cs \<Rightarrow> map_option (\<lambda>vs. (vs, True)) (salvage_loop cs []))"

definition salvage_json_array :: "string \<Rightarrow> (py list \<times> bool) option" where
  "salvage_json_array raw =
     (if raw = [] then Some ([], False)
      else
        let text = strip raw
        in case loads text of
             Some (PyDict kvs) \<Rightarrow>
               (case map_of kvs ''memories'' of
                  Some (PyList ms) \<Rightarrow> Some (filter is_dict ms, False)
                | _ \<Rightarrow> salvage_slow text)
           | Some (PyList ms) \<Rightarrow> Some (filter is_dict ms, False)
           | _ \<Rightarrow> salvage_slow text)"

subsection \<open>Merging claims\<close>

type_synonym claim = "(string \<times> py) list"

definition normalise_whitespace :: "string \<Rightarrow> string" where
  "normalise_whitespace s = strip (squeeze s)"

definition claim_text :: "(py \<Rightarrow> string) \<Rightarrow> claim \<Rightarrow> string \<Rightarrow> string" where
  "claim_text shown c k =
     normalise_whitespace (pstr shown (case map_of c k of Some v \<Rightarrow> v | None \<Rightarrow> PyStr []))"

definition claim_key :: "(py \<Rightarrow> string) \<Rightarrow> claim \<Rightarrow> string \<times> string \<times> string" where
  "claim_key shown c =
     (lower (claim_text shown c ''subject''), lower (claim_text shown c ''predicate''),
      lower (claim_text shown c ''object''))"

definition merge_key :: "(py \<Rightarrow> string) \<Rightarrow> claim \<Rightarrow> string \<times> string \<times> string" where
  "merge_key shown c =
     (let k = claim_key shown c
      in if k = ([], [], []) then ([], [], lower (claim_text shown c ''text'')) else k)"

record chunked_result =
  cc_claims :: "claim list"
  cc_duplicates :: nat

definition merge_one ::
  "(py \<Rightarrow> string) \<Rightarrow> py \<Rightarrow> chunked_result \<times> (string \<times> string \<times> string) set \<Rightarrow>
   chunked_result \<times> (string \<times> string \<times> string) set" where
  "merge_one shown v st =
     (case (v, st) of
        (PyDict c, res, seen) \<Rightarrow>
          (if claim_text shown c ''text'' = [] then st
           else
             let key = merge_key shown c
             in if key \<in> seen then (res\<lparr>cc_duplicates := cc_duplicates res + 1\<rparr>, seen)
                else (res\<lparr>cc_claims := cc_claims res @ [c]\<rparr>, insert key seen))
      | _ \<Rightarrow> st)"

definition merge_claims :: "(py \<Rightarrow> string) \<Rightarrow> py list list \<Rightarrow> chunked_result" where
  "merge_claims shown groups =
     fst (fold (merge_one shown) (concat groups) (\<lparr>cc_claims = [], cc_duplicates = 0\<rparr>, {}))"

end
