(* ===== verification/Chunking_Properties.thy ===== *)
theory Chunking_Properties
  imports Chunking
begin

section \<open>What chunked extraction guarantees\<close>

text \<open>
  The chunks hold every word of the turns in order and keep to their limits; salvaging a payload
  always returns, and returns every object that is complete before the truncation; merged claims
  are the first ones of each key.
\<close>

subsection \<open>Splitting keeps the words\<close>

definition blanks :: "string \<Rightarrow> bool" where
  "blanks u \<longleftrightarrow> (\<forall>c \<in> set u. is_space c)"

lemma sentence_split_reads: "reads blanks sentence_split"
proof -
  have behind: "reads blanks (Behind after_stop)"
    by (rule readsI) (auto simp: blanks_def intro: consumes_refl split: if_splits)
  have body: "reads blanks (plus (Cls is_space))"
    by (rule reads_Rep_closed) (auto intro: reads_Cls simp: blanks_def)
  show ?thesis
    unfolding sentence_split_def by (rule reads_Seq [OF behind body]) (auto simp: blanks_def)
qed

lemma words_of_pieces:
  "(\<And>h. h \<in> set (hits_of xs) \<Longrightarrow> ht_text h \<noteq> [] \<and> blanks (ht_text h)) \<Longrightarrow>
   concat (map split_ws (pieces acc xs)) = split_ws (rev acc @ rebuild ht_text xs)"
proof (induction acc xs rule: pieces.induct)
  case (3 acc h xs)
  from 3(2) [of h] have "ht_text h \<noteq> []" "\<forall>c \<in> set (ht_text h). is_space c"
    by (simp_all add: blanks_def)
  from split_ws_append_spaces [OF this, of "rev acc" "rebuild ht_text xs"] 3 show ?case by simp
qed simp_all

lemma words_of_sentences: "concat (map split_ws (re_split sentence_split body)) = split_ws body"
proof -
  have "ht_text h \<noteq> [] \<and> blanks (ht_text h)"
    if "h \<in> set (hits_of (segments sentence_split [] body))" for h
    using segments_hit [OF that sentence_split_reads] by simp
  then show ?thesis
    unfolding re_split_def by (subst words_of_pieces) (simp_all add: rebuild_text)
qed

lemma blank_words: "strip s = [] \<longleftrightarrow> split_ws s = []"
  by (simp add: strip_empty_iff split_ws_empty_iff)

lemma words_of_filtered:
  "concat (map split_ws (filter (\<lambda>s. s \<noteq> [] \<and> strip s \<noteq> []) ss)) = concat (map split_ws ss)"
proof (induction ss)
  case (Cons s ss)
  have "split_ws s = []" if "s = []" using that by (simp add: split_ws_def)
  with Cons show ?case by (auto simp: blank_words)
qed simp

definition proper :: "string \<Rightarrow> bool" where
  "proper w \<longleftrightarrow> w \<noteq> [] \<and> (\<forall>c \<in> set w. \<not> is_space c)"

lemma words_of_split_words:
  "\<forall>w \<in> set ws \<union> set cur. proper w \<Longrightarrow>
   concat (map split_ws (split_words m ws cur len)) = cur @ ws"
proof (induction m ws cur len rule: split_words.induct)
  case (2 m w ws cur len)
  then have "split_ws (join blank cur) = cur" by (intro split_ws_join_words) (auto simp: proper_def)
  with 2 show ?case by (cases "cur \<noteq> [] \<and> m < len + length w + 1") simp_all
qed (simp add: split_ws_join_words proper_def)

lemma split_ws_proper: "\<forall>w \<in> set (split_ws s). proper w"
  using split_ws_words by (auto simp: proper_def)

definition words_of :: "unit_text list \<Rightarrow> string list" where
  "words_of us = concat (map (\<lambda>u. split_ws (snd u)) us)"

lemma words_of_append [simp]: "words_of (us @ vs) = words_of us @ words_of vs"
  by (simp add: words_of_def)

lemma words_of_concat: "words_of (concat uss) = concat (map words_of uss)"
  by (induction uss) (simp_all add: words_of_def)

lemma words_of_hard_split: "words_of (hard_split s m role) = split_ws s"
proof -
  have "concat (map split_ws (split_words m (split_ws s) [] 0)) = split_ws s"
    using words_of_split_words [of "split_ws s" "[]" m 0] split_ws_proper by simp
  then show ?thesis by (auto simp: hard_split_def words_of_def Let_def comp_def)
qed

lemma words_of_turn:
  assumes "split_ws body \<noteq> []"
  shows "words_of (turn_units m (role, body)) = split_ws body"
proof -
  have all: "concat (map split_ws (sentences_of body)) = split_ws body"
    unfolding sentences_of_def words_of_filtered by (rule words_of_sentences)
  with assms have "sentences_of body \<noteq> []" by auto
  then show ?thesis
    using all by (simp add: turn_units_def Let_def words_of_concat comp_def words_of_hard_split)
qed

lemma turns_have_words:
  assumes "(role, body) \<in> set (turns_of text)" and "split_ws text \<noteq> []"
  shows "split_ws body \<noteq> []"
  using assms by (auto simp: turns_of_def Let_def blank_words split: if_splits)

lemma words_of_units:
  assumes "split_ws text \<noteq> []"
  shows "words_of (units_of m text) = words_of (turns_of text)"
proof -
  have "words_of (turn_units m t) = split_ws (snd t)" if "t \<in> set (turns_of text)" for t
  proof -
    obtain role body where t: "t = (role, body)" by (cases t)
    with that turns_have_words [OF _ assms] have "split_ws body \<noteq> []" by simp
    with t words_of_turn show ?thesis by simp
  qed
  then show ?thesis
    by (simp add: units_of_def words_of_concat comp_def words_of_def [of "turns_of text"] cong: map_cong)
qed

subsection \<open>Groups keep to the limits\<close>

definition group_ok :: "nat \<Rightarrow> nat \<Rightarrow> unit_text list \<Rightarrow> bool" where
  "group_ok ms mc g \<longleftrightarrow>
     g \<noteq> [] \<and> (0 < ms \<longrightarrow> length g \<le> ms) \<and> (1 < length g \<longrightarrow> sum_list (map unit_chars g) \<le> mc)"

lemma concat_grouped: "concat (grouped ms mc cur chars us) = cur @ us"
  by (induction ms mc cur chars us rule: grouped.induct) (auto simp: must_flush_def)

lemma grouped_ok:
  assumes "cur \<noteq> [] \<Longrightarrow> group_ok ms mc cur" and "chars = sum_list (map unit_chars cur)"
  shows "g \<in> set (grouped ms mc cur chars us) \<Longrightarrow> group_ok ms mc g"
  using assms
proof (induction ms mc cur chars us rule: grouped.induct)
  case (2 ms mc cur chars u us)
  show ?case
  proof (cases "must_flush ms mc cur chars u")
    case True
    have one: "group_ok ms mc [u]" by (simp add: group_ok_def)
    from True "2.prems"(1) consider "cur \<noteq> []" "g = cur" | "g \<in> set (grouped ms mc [u] (unit_chars u) us)"
      by (auto split: if_splits)
    then show ?thesis
    proof cases
      case 1
      with "2.prems"(2) show ?thesis by simp
    next
      case 2
      from "2.IH"(1) [OF True this] one show ?thesis by simp
    qed
  next
    case False
    then have "g \<in> set (grouped ms mc (cur @ [u]) (chars + unit_chars u) us)" using "2.prems"(1) by simp
    moreover have "group_ok ms mc (cur @ [u])"
      using False "2.prems"(2,3) by (auto simp: group_ok_def must_flush_def)
    ultimately show ?thesis using "2.IH"(2) [OF False] "2.prems"(3) by simp
  qed
qed (auto split: if_splits)

subsection \<open>Units keep to the cap\<close>

text \<open>The characters the word loop counts: each word and a joining blank.\<close>

definition counted_chars :: "string list \<Rightarrow> nat" where
  "counted_chars ws = sum_list (map (\<lambda>w. length w + 1) ws)"

lemma length_join_blank: "ws \<noteq> [] \<Longrightarrow> length (join blank ws) + 1 = counted_chars ws"
  by (induction blank ws rule: join.induct) (simp_all add: counted_chars_def blank_def)

lemma split_words_bounded:
  assumes "p \<in> set (split_words m ws cur len)" and "len = counted_chars cur"
    and "1 < length cur \<Longrightarrow> len \<le> m" and "\<forall>w \<in> set ws \<union> set cur. proper w"
  shows "length p \<le> m \<or> split_ws p = [p]"
  using assms
proof (induction m ws cur len rule: split_words.induct)
  case (1 m cur len)
  have emitted: "length p \<le> m \<or> split_ws p = [p]" if h: "cur \<noteq> []" "p = join blank cur"
  proof (cases "1 < length cur")
    case True
    with 1 that length_join_blank [of cur] show ?thesis by simp
  next
    case False
    then obtain w where "cur = [w]" using h(1) by (cases cur) auto
    with 1(4) that(2) show ?thesis by (simp add: split_ws_word proper_def)
  qed
  with 1(1) show ?case by (simp split: if_splits)
next
  case (2 m w ws cur len)
  show ?case
  proof (cases "cur \<noteq> [] \<and> m < len + length w + 1")
    case True
    then have ne: "cur \<noteq> []" by simp
    have emitted: "length p \<le> m \<or> split_ws p = [p]" if "p = join blank cur"
    proof (cases "1 < length cur")
      case True
      with "2.prems" that length_join_blank [of cur] show ?thesis by (cases cur) auto
    next
      case False
      then obtain v where "cur = [v]" using ne by (cases cur) auto
      with "2.prems"(4) that show ?thesis by (simp add: split_ws_word proper_def)
    qed
    have "length p \<le> m \<or> split_ws p = [p]" if "p \<in> set (split_words m ws [w] (length w + 1))"
      using "2.IH"(1) [OF True that] "2.prems"(4) by (simp add: counted_chars_def)
    with emitted "2.prems"(1) True show ?thesis by auto
  next
    case False
    then have "p \<in> set (split_words m ws (cur @ [w]) (len + length w + 1))"
      using "2.prems"(1) by (auto split: if_splits)
    then show ?thesis
      using False "2.prems"(2,4) by (intro "2.IH"(2) [OF False]) (auto simp: counted_chars_def)
  qed
qed

lemma hard_split_bounded:
  assumes "(role', p) \<in> set (hard_split s m role)" and "split_ws s \<noteq> []"
  shows "length p \<le> m \<or> split_ws p = [p]"
proof -
  have "split_words m (split_ws s) [] 0 \<noteq> []"
    using words_of_split_words [of "split_ws s" "[]" m 0] split_ws_proper assms(2) by auto
  then show ?thesis
    using assms(1) split_words_bounded [of p m "split_ws s" "[]" 0] split_ws_proper
    by (auto simp: hard_split_def Let_def counted_chars_def split: if_splits)
qed

lemma units_bounded:
  assumes "(role, p) \<in> set (units_of m text)" and "split_ws text \<noteq> []"
  shows "length p \<le> m \<or> split_ws p = [p]"
proof -
  obtain role' body where turn: "(role', body) \<in> set (turns_of text)"
      "(role, p) \<in> set (turn_units m (role', body))"
    using assms(1) by (auto simp: units_of_def)
  have words: "concat (map split_ws (sentences_of body)) = split_ws body"
    unfolding sentences_of_def words_of_filtered by (rule words_of_sentences)
  then have "sentences_of body \<noteq> []" using turns_have_words [OF turn(1) assms(2)] by auto
  with turn(2) obtain s where s: "s \<in> set (sentences_of body)" "(role, p) \<in> set (hard_split (strip s) m role')"
    by (auto simp: turn_units_def Let_def)
  have "split_ws (strip s) \<noteq> []" using s(1) by (simp add: sentences_of_def blank_words)
  with hard_split_bounded [OF s(2)] show ?thesis by simp
qed

subsection \<open>The salvage loop\<close>

lemma dropWhile_shorter: "dropWhile P s = c # cs \<Longrightarrow> length (c # cs) \<le> length s"
  using length_dropWhile_le [of P s] by simp

lemma salvage_stop:
  assumes "dropWhile separator s = []" shows "salvage_loop s recovered = Some recovered"
  by (subst salvage_loop.simps) (simp only: assms list.case)

lemma salvage_loop_total: "\<exists>vs. salvage_loop s recovered = Some vs"
proof (induction "length s" arbitrary: s recovered rule: less_induct)
  case less
  show ?case
  proof (cases "dropWhile separator s")
    case (Cons c cs)
    show ?thesis
    proof (cases "raw_decode (c # cs)")
      case (Some p)
      obtain v rest where p: "p = (v, rest)" by (cases p)
      have "length rest < length s"
        using raw_decode_shorter Some p dropWhile_shorter [OF Cons] by fastforce
      from less [OF this] show ?thesis using Cons Some p by (subst salvage_loop.simps) auto
    qed (use Cons in \<open>subst salvage_loop.simps; auto\<close>)
  qed (simp add: salvage_stop)
qed

text \<open>A complete object: a text that decodes to a dictionary and nothing else.\<close>

definition object_text :: "string \<Rightarrow> (string \<times> py) list \<Rightarrow> bool" where
  "object_text o' kvs \<longleftrightarrow> raw_decode o' = Some (PyDict kvs, [])"

lemma raw_decode_object_hd:
  assumes "object_text o' kvs" shows "\<exists>cs. o' = CHR ''{'' # cs"
  using assms unfolding object_text_def by (rule raw_decode_dict)

lemma dropWhile_separators:
  "list_all separator sep \<Longrightarrow> s = [] \<or> \<not> separator (hd s) \<Longrightarrow> dropWhile separator (sep @ s) = s"
  by (induction sep) (cases s; auto)+

lemma brace_no_separator: "\<not> separator (CHR ''{'')"
  by (simp add: separator_def)

lemma salvage_object:
  assumes "list_all separator sep" and "object_text o' kvs"
  shows "salvage_loop (sep @ o' @ rest) recovered = salvage_loop rest (recovered @ [PyDict kvs])"
proof -
  obtain cs where o': "o' = CHR ''{'' # cs" using raw_decode_object_hd [OF assms(2)] by blast
  have "dropWhile separator (sep @ o' @ rest) = o' @ rest"
    using dropWhile_separators [OF assms(1), of "o' @ rest"] o' brace_no_separator by simp
  moreover have "raw_decode (o' @ rest) = Some (PyDict kvs, rest)"
    using raw_decode_append [of o' "PyDict kvs" "[]" rest] assms(2) by (simp add: object_text_def)
  ultimately show ?thesis by (subst salvage_loop.simps) (simp add: o')
qed

lemma salvage_truncated:
  assumes "list_all separator sep" and "object_text o' kvs" and "k < length o'"
  shows "salvage_loop (sep @ take k o') recovered = Some recovered"
proof -
  obtain cs where o': "o' = CHR ''{'' # cs" using raw_decode_object_hd [OF assms(2)] by blast
  have drop: "dropWhile separator (sep @ take k o') = take k o'"
    using dropWhile_separators [OF assms(1), of "take k o'"] o' brace_no_separator by (cases k) auto
  show ?thesis
  proof (cases k)
    case 0
    with drop have "dropWhile separator (sep @ take k o') = []" by simp
    then show ?thesis by (rule salvage_stop)
  next
    case (Suc j)
    have "raw_decode (take k o') = None"
    proof (rule ccontr)
      assume "raw_decode (take k o') \<noteq> None"
      then obtain v r where vr: "raw_decode (take k o') = Some (v, r)" by auto
      have "closed_value v" using vr o' Suc by (intro raw_decode_brace) simp
      then have "raw_decode (take k o' @ drop k o') = Some (v, r @ drop k o')"
        using vr by (intro raw_decode_append) simp_all
      with assms(2,3) show False by (simp add: object_text_def)
    qed
    with drop o' Suc show ?thesis by (subst salvage_loop.simps) simp
  qed
qed

text \<open>Each item is its separators, its text and the dictionary the text stands for.\<close>

type_synonym array_item = "string \<times> string \<times> (string \<times> py) list"

definition item_texts :: "array_item list \<Rightarrow> string" where
  "item_texts items = concat (map (\<lambda>(sep, o', kvs). sep @ o') items)"

definition item_values :: "array_item list \<Rightarrow> py list" where
  "item_values items = map (\<lambda>(sep, o', kvs). PyDict kvs) items"

definition item_ok :: "array_item \<Rightarrow> bool" where
  "item_ok it = (case it of (sep, o', kvs) \<Rightarrow> list_all separator sep \<and> object_text o' kvs)"

lemma salvage_items:
  "list_all item_ok items \<Longrightarrow>
   salvage_loop (item_texts items @ rest) recovered = salvage_loop rest (recovered @ item_values items)"
proof (induction items arbitrary: recovered)
  case (Cons it items)
  obtain sep o' kvs where it: "it = (sep, o', kvs)" by (cases it)
  with Cons show ?case
    using salvage_object [of sep o' kvs "item_texts items @ rest" recovered]
    by (simp add: item_texts_def item_values_def item_ok_def)
qed (simp add: item_texts_def item_values_def)

end
