(* ===== verification/Chunking_Outcomes.thy ===== *)
theory Chunking_Outcomes
  imports Chunking_Properties
begin

section \<open>Chunked extraction: claims\<close>

text \<open>
  Salvaging returns and recovers what is complete, chunks keep the words and the limits, merging
  keeps the first claim of each key; and where the code falls short of its comments.
\<close>

subsection \<open>Salvaging\<close>

lemma salvage_slow_total: "\<exists>r. salvage_slow text = Some r"
proof (cases "dropWhile (\<lambda>c. c \<noteq> CHR ''['') text")
  case (Cons c cs)
  with salvage_loop_total [of cs "[]"] show ?thesis by (auto simp: salvage_slow_def)
qed (simp add: salvage_slow_def del: dropWhile_eq_Nil_conv split_paired_Ex)

text \<open>
  Claim C16.  Termination: salvaging a payload always returns, whatever the text, although its loops advance
  only by what the decoder consumed.
\<close>

theorem salvaging_returns: "\<exists>r. salvage_json_array raw = Some r"
  using salvage_slow_total [of "strip raw"]
  by (auto simp: salvage_json_array_def Let_def split: option.splits py.splits)

lemma salvage_slow_array:
  assumes "CHR ''['' \<notin> set lead"
  shows "salvage_slow (lead @ CHR ''['' # s) = map_option (\<lambda>vs. (vs, True)) (salvage_loop s [])"
proof -
  have "dropWhile (\<lambda>c. c \<noteq> CHR ''['') (lead @ CHR ''['' # s) = CHR ''['' # s"
    using assms by (induction lead) auto
  then show ?thesis by (simp add: salvage_slow_def)
qed

text \<open>
  Claim C15.  A payload that does not parse, whose first bracket opens the array of objects and that is cut
  inside one of them (or between two), yields exactly the objects of this array that are complete
  before the cut, in order, and says that it is partial: none of them is lost and nothing is
  invented.  That the first bracket opens the array matters: an earlier array hides the objects
  (\<open>earlier_array_hides_memories\<close> below).
\<close>

theorem salvage_recovers_complete_objects:
  assumes "strip raw = lead @ CHR ''['' # item_texts items @ sep @ take k broken"
    and "CHR ''['' \<notin> set lead" and "loads (strip raw) = None"
    and "list_all item_ok items" and "list_all separator sep" and "object_text broken kvs" and "k < length broken"
  shows "salvage_json_array raw = Some (item_values items, True)"
proof -
  have "raw \<noteq> []" using assms(1) by (auto simp: strip_def rstrip_def lstrip_def)
  then have "salvage_json_array raw = salvage_slow (strip raw)"
    using assms(3) by (simp add: salvage_json_array_def Let_def)
  also have "\<dots> = map_option (\<lambda>vs. (vs, True)) (salvage_loop (item_texts items @ sep @ take k broken) [])"
    unfolding assms(1) by (rule salvage_slow_array [OF assms(2)])
  finally show ?thesis
    using salvage_items [OF assms(4), of "sep @ take k broken" "[]"] salvage_truncated [OF assms(5-7), of "item_values items"]
    by simp
qed

definition quoted :: "string \<Rightarrow> string" where
  "quoted s = CHR 0x22 # s @ [CHR 0x22]"

definition demo_object :: "string \<Rightarrow> string" where
  "demo_object t = ''{'' @ quoted ''text'' @ '': '' @ quoted t @ ''}''"

definition demo_items :: "array_item list" where
  "demo_items = [([], demo_object ''a'', [(''text'', PyStr ''a'')]), ('', '', demo_object ''b]'', [(''text'', PyStr ''b]'')])]"

definition demo_payload :: string where
  "demo_payload = ''['' @ demo_object ''a'' @ '', '' @ demo_object ''b]'' @ '', '' @ take 11 (demo_object ''c'')"

theorem salvage_recovers_complete_objects_witness:
  "salvage_json_array demo_payload = Some ([PyDict [(''text'', PyStr ''a'')], PyDict [(''text'', PyStr ''b]'')]], True)"
proof -
  have "strip demo_payload = [] @ CHR ''['' # item_texts demo_items @ '', '' @ take 11 (demo_object ''c'')"
    by code_simp
  moreover have "CHR ''['' \<notin> set []" by simp
  moreover have "loads (strip demo_payload) = None" by code_simp
  moreover have "list_all item_ok demo_items" by code_simp
  moreover have "list_all separator '', ''" by code_simp
  moreover have "object_text (demo_object ''c'') [(''text'', PyStr ''c'')]" by code_simp
  moreover have "11 < length (demo_object ''c'')" by code_simp
  ultimately have "salvage_json_array demo_payload = Some (item_values demo_items, True)"
    by (rule salvage_recovers_complete_objects)
  then show ?thesis by (simp add: item_values_def demo_items_def)
qed

subsection \<open>Chunks\<close>

lemma length_join_lines: "length (join [CHR 0x0A] xs) = sum_list (map length xs) + (length xs - 1)"
proof (induction xs)
  case (Cons x xs)
  then show ?case by (cases xs) simp_all
qed simp

lemma length_render_unit: "length (render_unit u) = unit_chars u"
  by (cases u) (auto simp: render_unit_def unit_chars_def split: option.split)

lemma length_render: "length (render g) = sum_list (map unit_chars g) + (length g - 1)"
  by (simp add: render_def length_join_lines comp_def length_render_unit)

text \<open>
  Claim C26.  When a conversation is split, the chunks are the rendered groups of its sentence units in order:
  every word of its turns is in exactly one group, in order; no group has more units than allowed;
  a chunk of several units is at most as long as the character cap and the newlines that join its
  units, which the cap does not count; and only a unit that is one word has a text over the cap.
\<close>

theorem chunks_keep_words_and_limits:
  assumes "1 < length (split_conversation ms mc conversation)" and "0 < ms"
  shows "\<exists>groups. split_conversation ms mc conversation = map render groups \<and>
     concat groups = units_of mc (strip conversation) \<and>
     words_of (concat groups) = words_of (turns_of (strip conversation)) \<and>
     (\<forall>g \<in> set groups. g \<noteq> [] \<and> length g \<le> ms \<and>
        (length g = 1 \<or> length (render g) \<le> mc + (length g - 1)) \<and>
        (\<forall>u \<in> set g. length (snd u) \<le> mc \<or> split_ws (snd u) = [snd u]))"
proof (intro exI conjI ballI)
  let ?us = "units_of mc (strip conversation)"
  let ?groups = "grouped ms mc [] 0 ?us"
  show split: "split_conversation ms mc conversation = map render ?groups"
    using assms(1) by (auto simp: split_conversation_def Let_def split: if_splits)
  show units: "concat ?groups = ?us" by (simp add: concat_grouped)
  have words: "split_ws (strip conversation) \<noteq> []"
    using assms(1) by (auto simp: split_conversation_def blank_words [symmetric])
  then show "words_of (concat ?groups) = words_of (turns_of (strip conversation))"
    by (simp add: concat_grouped words_of_units)
  fix g assume g: "g \<in> set ?groups"
  then have ok: "group_ok ms mc g" by (rule grouped_ok [rotated -1]) simp_all
  with assms(2) show "g \<noteq> []" "length g \<le> ms" by (simp_all add: group_ok_def)
  from ok show "length g = 1 \<or> length (render g) \<le> mc + (length g - 1)"
    by (cases g) (auto simp: group_ok_def length_render)
  fix u assume "u \<in> set g"
  with g units have "u \<in> set ?us" by (metis UN_I set_concat)
  then show "length (snd u) \<le> mc \<or> split_ws (snd u) = [snd u]"
    using units_bounded [OF _ words, of "fst u" "snd u" mc] by simp
qed

definition demo_talk :: string where
  "demo_talk = ''user: Hi. I am Al.'' @ [CHR 0x0A] @ ''assistant: ok.''"

theorem chunks_keep_words_and_limits_witness:
  "\<exists>groups. split_conversation 2 40 demo_talk = map render groups \<and>
     concat groups = units_of 40 (strip demo_talk) \<and>
     words_of (concat groups) = words_of (turns_of (strip demo_talk))"
proof -
  have "1 < length (split_conversation 2 40 demo_talk)" by code_simp
  from chunks_keep_words_and_limits [OF this] show ?thesis by auto
qed

subsection \<open>Merging\<close>

fun dict_of_value :: "py \<Rightarrow> claim option" where
  "dict_of_value (PyDict c) = Some c"
| "dict_of_value _ = None"

definition usable :: "(py \<Rightarrow> string) \<Rightarrow> py list \<Rightarrow> claim list" where
  "usable shown vs = filter (\<lambda>c. claim_text shown c ''text'' \<noteq> []) (List.map_filter dict_of_value vs)"

lemma usable_Cons:
  "usable shown (v # vs) =
     (case dict_of_value v of
        Some c \<Rightarrow> (if claim_text shown c ''text'' \<noteq> [] then c # usable shown vs else usable shown vs)
      | None \<Rightarrow> usable shown vs)"
  by (simp add: usable_def map_filter_simps split: option.splits)

lemma length_unique_from: "length (unique_from marker seen vs) \<le> length vs"
  by (induction vs arbitrary: seen) (auto simp: le_SucI)

lemma merge_fold:
  "fst (fold (merge_one shown) vs (res, seen)) =
     res\<lparr>cc_claims := cc_claims res @ unique_from (merge_key shown) seen (usable shown vs),
         cc_duplicates := cc_duplicates res +
           (length (usable shown vs) - length (unique_from (merge_key shown) seen (usable shown vs)))\<rparr>"
proof (induction vs arbitrary: res seen)
  case (Cons v vs)
  show ?case
  proof (cases "dict_of_value v")
    case None
    then have "merge_one shown v (res, seen) = (res, seen)"
      by (cases v) (simp_all add: merge_one_def)
    with Cons None show ?thesis by (simp add: usable_Cons)
  next
    case (Some c)
    then have v: "v = PyDict c" by (cases v) simp_all
    have len: "length (unique_from (merge_key shown) s (usable shown vs)) \<le> length (usable shown vs)" for s
      by (rule length_unique_from)
    show ?thesis
      using Cons v len [of seen]
      by (simp add: merge_one_def usable_Cons Let_def Suc_diff_le)
  qed
qed (simp add: usable_def map_filter_simps)

text \<open>
  Merging the chunks keeps, in order, the first claim of every key among the claims that have a
  text; no two kept claims share a key, every claim's key is kept by one of them, and the claims
  that were dropped are counted.
\<close>

theorem merging_keeps_first_of_each_key:
  "cc_claims (merge_claims shown groups) = unique (merge_key shown) (usable shown (concat groups)) \<and>
   distinct (map (merge_key shown) (cc_claims (merge_claims shown groups))) \<and>
   merge_key shown ` set (cc_claims (merge_claims shown groups)) = merge_key shown ` set (usable shown (concat groups)) \<and>
   length (cc_claims (merge_claims shown groups)) + cc_duplicates (merge_claims shown groups) =
     length (usable shown (concat groups))"
  using length_unique_from [of "merge_key shown" "{}" "usable shown (concat groups)"]
  by (simp add: merge_claims_def merge_fold unique_def [symmetric] unique_distinct set_unique)

subsection \<open>Divergences\<close>

text \<open>
  Text before the first role marker is dropped as soon as the conversation is split: here the
  chunks say nothing of the first sentence.
\<close>

theorem preamble_is_dropped:
  "split_conversation 1 40 (''I am Al.'' @ [CHR 0x0A] @ ''user: Hi. Yo.'') = [''user: Hi.'', ''user: Yo.'']"
  by code_simp

text \<open>
  The character cap is not always honoured: a word longer than it is a unit of its own, and the
  separating newlines of a chunk are not counted.
\<close>

theorem cap_is_exceeded:
  "split_conversation 10 4 ''abcdefgh. ab'' = [''abcdefgh.'', ''ab''] \<and>
   split_conversation 10 4 ''a. b. c.'' = [''a.'' @ [CHR 0x0A] @ ''b.'', ''c.'']"
  by code_simp

definition tagged_payload :: string where
  "tagged_payload = ''{'' @ quoted ''tags'' @ '': ['' @ quoted ''x'' @ ''], '' @ quoted ''memories'' @ '': ['' @
     demo_object ''a'' @ '', ''"

text \<open>
  A truncated payload whose first array is not the list of memories loses every memory: the walk
  starts at the first bracket of the text.
\<close>

theorem earlier_array_hides_memories: "salvage_json_array tagged_payload = Some ([], True)"
proof -
  have "loads (strip tagged_payload) = None" and "tagged_payload \<noteq> []" by code_simp+
  moreover have "dropWhile (\<lambda>c. c \<noteq> CHR ''['') (strip tagged_payload) =
      CHR ''['' # CHR 0x22 # drop 11 (strip tagged_payload)" by code_simp
  moreover have "salvage_loop (CHR 0x22 # s) [] = Some []" for s
    by (subst salvage_loop.simps) (simp add: separator_def)
  ultimately show ?thesis by (simp add: salvage_json_array_def salvage_slow_def)
qed

end
