(* ===== verification/Tenant_Scope.thy ===== *)
theory Tenant_Scope
  imports Idempotent_Store
begin

section \<open>Tenant scoping\<close>

text \<open>
  What the tenant-scoped repositories share (\<open>contexta/repositories/base.py\<close>): every read, update
  and delete is limited to the rows of the repository's tenant, and a record is accepted only if
  it carries the tenant's id.  \<open>validate_scope\<close> is the check of \<open>block_repo.py\<close> and
  \<open>fact_repo.py\<close> that the parents a record refers to belong to the tenant as well.  The locale
  \<open>tenant_table\<close> is the interface: it is interpreted on the list tables below and proved once that
  the operations of one tenant neither see nor change the rows of another; an update may give a row
  away, as the base repository does not look at an owner among the values it writes.
\<close>

datatype scope_error = MissingTenant | OtherTenant | ParentOutside | AccountOutside

subsection \<open>Optional attributes\<close>

definition the_default :: "'a \<Rightarrow> 'a option \<Rightarrow> 'a" where
  "the_default d v = (case v of None \<Rightarrow> d | Some x \<Rightarrow> x)"

definition or_else :: "'a option \<Rightarrow> 'a option \<Rightarrow> 'a option" where
  "or_else a b = (case a of None \<Rightarrow> b | Some _ \<Rightarrow> a)"

lemma the_default_simps [simp]: "the_default d None = d" "the_default d (Some x) = x"
  by (simp_all add: the_default_def)

lemma or_else_simps [simp]: "or_else None b = b" "or_else (Some x) b = Some x"
  by (simp_all add: or_else_def)

lemma ebind_InrE: "ebind m f = Inr y \<Longrightarrow> (\<And>x. m = Inr x \<Longrightarrow> f x = Inr y \<Longrightarrow> thesis) \<Longrightarrow> thesis"
  by (cases m) auto

subsection \<open>Parents\<close>

datatype parent = MemoryUserParent | AgentParent | ProjectParent | SessionParent | EpisodeParent

record scope =
  sc_account :: "uuid option"
  sc_memory_user :: "uuid option"
  sc_user :: "uuid option"
  sc_agent :: "uuid option"
  sc_project :: "uuid option"
  sc_session :: "uuid option"

text \<open>The parent rows as kind, id and tenant, and the members as tenant and account.\<close>

record directory =
  dir_parents :: "(parent \<times> uuid \<times> uuid) list"
  dir_members :: "(uuid \<times> uuid) list"

definition account_in_tenant :: "directory \<Rightarrow> uuid \<Rightarrow> uuid \<Rightarrow> bool" where
  "account_in_tenant dir tenant account \<longleftrightarrow> (tenant, account) \<in> set (dir_members dir)"

definition parent_in_tenant :: "directory \<Rightarrow> uuid \<Rightarrow> parent \<Rightarrow> uuid \<Rightarrow> bool" where
  "parent_in_tenant dir tenant kind i \<longleftrightarrow> (kind, i, tenant) \<in> set (dir_parents dir)"

definition scope_parents :: "scope \<Rightarrow> uuid option \<Rightarrow> (parent \<times> uuid option) list" where
  "scope_parents sc episode =
     [(MemoryUserParent, sc_memory_user sc), (AgentParent, sc_agent sc),
      (ProjectParent, sc_project sc), (SessionParent, sc_session sc), (EpisodeParent, episode)]"

definition parent_ok :: "directory \<Rightarrow> uuid \<Rightarrow> parent \<times> uuid option \<Rightarrow> bool" where
  "parent_ok dir tenant p =
     (case p of (kind, None) \<Rightarrow> True | (kind, Some i) \<Rightarrow> parent_in_tenant dir tenant kind i)"

definition validate_scope ::
  "directory \<Rightarrow> uuid \<Rightarrow> uuid option \<Rightarrow> scope \<Rightarrow> uuid option \<Rightarrow> scope_error option" where
  "validate_scope dir tenant org sc episode =
     (if org \<noteq> Some tenant then Some OtherTenant
      else if \<not> list_all (parent_ok dir tenant) (scope_parents sc episode) then Some ParentOutside
      else case sc_account sc of
        Some a \<Rightarrow> (if account_in_tenant dir tenant a then None else Some AccountOutside)
      | None \<Rightarrow> None)"

lemma validate_scope_None:
  "validate_scope dir tenant org sc episode = None \<longleftrightarrow>
     org = Some tenant \<and> list_all (parent_ok dir tenant) (scope_parents sc episode)
     \<and> (\<forall>a. sc_account sc = Some a \<longrightarrow> account_in_tenant dir tenant a)"
  by (auto simp: validate_scope_def split: option.split)

subsection \<open>Rows of a tenant\<close>

definition validate_tenant_ownership :: "uuid \<Rightarrow> uuid option \<Rightarrow> scope_error option" where
  "validate_tenant_ownership tenant org =
     (case org of
        None \<Rightarrow> Some MissingTenant
      | Some i \<Rightarrow> if i \<noteq> tenant then Some OtherTenant else None)"

definition scope_select :: "('r \<Rightarrow> uuid) \<Rightarrow> uuid \<Rightarrow> 'r list \<Rightarrow> 'r list" where
  "scope_select org tenant rows = filter (\<lambda>r. org r = tenant) rows"

definition get_all :: "('r \<Rightarrow> uuid) \<Rightarrow> uuid \<Rightarrow> nat \<Rightarrow> nat \<Rightarrow> 'r list \<Rightarrow> 'r list" where
  "get_all org tenant offset limit rows = page offset limit (scope_select org tenant rows)"

definition delete_row ::
  "('r \<Rightarrow> uuid) \<Rightarrow> ('r \<Rightarrow> uuid) \<Rightarrow> uuid \<Rightarrow> uuid \<Rightarrow> 'r list \<Rightarrow> 'r list \<times> nat" where
  "delete_row org ident tenant i rows =
     (filter (\<lambda>r. \<not> (ident r = i \<and> org r = tenant)) rows,
      length (filter (\<lambda>r. ident r = i \<and> org r = tenant) rows))"

definition row_exists :: "('r \<Rightarrow> uuid) \<Rightarrow> ('r \<Rightarrow> uuid) \<Rightarrow> uuid \<Rightarrow> uuid \<Rightarrow> 'r list \<Rightarrow> bool" where
  "row_exists org ident tenant i rows \<longleftrightarrow> read_row org ident tenant i rows \<noteq> None"

definition create_row ::
  "('r \<Rightarrow> uuid option) \<Rightarrow> uuid \<Rightarrow> 'r \<Rightarrow> 'r list \<Rightarrow> scope_error + ('r list \<times> 'r)" where
  "create_row org tenant r rows =
     (case validate_tenant_ownership tenant (org r) of
        Some e \<Rightarrow> Inl e
      | None \<Rightarrow> Inr (rows @ [r], r))"

definition create_rows ::
  "('r \<Rightarrow> uuid option) \<Rightarrow> uuid \<Rightarrow> 'r list \<Rightarrow> 'r list \<Rightarrow> scope_error + ('r list \<times> 'r list)" where
  "create_rows org tenant rs rows =
     (case List.map_filter (\<lambda>r. validate_tenant_ownership tenant (org r)) rs of
        e # _ \<Rightarrow> Inl e
      | [] \<Rightarrow> Inr (rows @ rs, rs))"

subsection \<open>The interface\<close>

text \<open>\<open>stays_in xs ys\<close>: every row of \<open>xs\<close> is in \<open>ys\<close>, in the same order, with others added.\<close>

inductive stays_in :: "'r list \<Rightarrow> 'r list \<Rightarrow> bool" where
  stays_nil: "stays_in [] []"
| stays_added: "stays_in xs ys \<Longrightarrow> stays_in xs (y # ys)"
| stays_kept: "stays_in xs ys \<Longrightarrow> stays_in (x # xs) (x # ys)"

lemma stays_refl [simp]: "stays_in xs xs"
  by (induction xs) (auto intro: stays_in.intros)

lemma stays_trans: "stays_in ys zs \<Longrightarrow> stays_in xs ys \<Longrightarrow> stays_in xs zs"
proof (induction arbitrary: xs rule: stays_in.induct)
  case (stays_kept ys zs y)
  from stays_kept.prems show ?case
    by cases (auto intro: stays_in.intros stays_kept.IH)
qed (auto intro: stays_in.intros)

lemma stays_set: "stays_in xs ys \<Longrightarrow> set xs \<subseteq> set ys"
  by (induction rule: stays_in.induct) auto

text \<open>
  A tenant-scoped table: \<open>view\<close> is what a tenant can see.  No operation of a tenant takes from what
  another one sees or alters it; an operation that keeps the owner of the rows it writes
  (\<open>keeps\<close>) changes nothing in what another one sees.
\<close>

fun run_steps :: "(uuid \<Rightarrow> 'o \<Rightarrow> 's \<Rightarrow> 's) \<Rightarrow> (uuid \<times> 'o) list \<Rightarrow> 's \<Rightarrow> 's" where
  "run_steps step [] s = s"
| "run_steps step ((tenant, oper) # os) s = run_steps step os (step tenant oper s)"

locale tenant_table =
  fixes view :: "uuid \<Rightarrow> 's \<Rightarrow> 'r list"
    and get :: "uuid \<Rightarrow> uuid \<Rightarrow> 's \<Rightarrow> 'r option"
    and step :: "uuid \<Rightarrow> 'o \<Rightarrow> 's \<Rightarrow> 's"
    and keeps :: "'o \<Rightarrow> bool"
  assumes get_visible: "get tenant i s = Some r \<Longrightarrow> r \<in> set (view tenant s)"
    and get_depends: "view tenant s = view tenant s' \<Longrightarrow> get tenant i s = get tenant i s'"
    and step_others: "tenant \<noteq> tenant' \<Longrightarrow> stays_in (view tenant' s) (view tenant' (step tenant oper s))"
    and step_keeps: "tenant \<noteq> tenant' \<Longrightarrow> keeps oper \<Longrightarrow> view tenant' (step tenant oper s) = view tenant' s"
begin

lemma others_take_nothing:
  "\<forall>p \<in> set os. fst p \<noteq> tenant \<Longrightarrow> stays_in (view tenant s) (view tenant (run_steps step os s))"
proof (induction os arbitrary: s)
  case (Cons p os)
  obtain t oper where p: "p = (t, oper)" by (cases p)
  have "stays_in (view tenant s) (view tenant (step t oper s))" using Cons.prems by (intro step_others) (simp add: p)
  moreover have "stays_in (view tenant (step t oper s)) (view tenant (run_steps step os (step t oper s)))"
    using Cons by simp
  ultimately show ?case by (simp add: p stays_trans)
qed simp

lemma others_unseen:
  "\<forall>p \<in> set os. fst p \<noteq> tenant \<and> keeps (snd p) \<Longrightarrow> view tenant (run_steps step os s) = view tenant s"
  by (induction os arbitrary: s) (auto simp: step_keeps)

lemma others_unread:
  "\<forall>p \<in> set os. fst p \<noteq> tenant \<and> keeps (snd p) \<Longrightarrow> get tenant i (run_steps step os s) = get tenant i s"
  by (rule get_depends) (rule others_unseen)

end

text \<open>The operations of a repository on a list table, as values.\<close>

datatype 'r table_op = CreateRows "'r list" | UpdateRow uuid "'r \<Rightarrow> 'r" | DeleteRow uuid

definition table_step ::
  "('r \<Rightarrow> uuid) \<Rightarrow> ('r \<Rightarrow> uuid) \<Rightarrow> uuid \<Rightarrow> 'r table_op \<Rightarrow> 'r list \<Rightarrow> 'r list" where
  "table_step org ident tenant oper rows =
     (case oper of
        CreateRows rs \<Rightarrow>
          (case create_rows (\<lambda>r. Some (org r)) tenant rs rows of Inl _ \<Rightarrow> rows | Inr (rows', _) \<Rightarrow> rows')
      | UpdateRow i f \<Rightarrow> fst (update_row org ident tenant i f rows)
      | DeleteRow i \<Rightarrow> fst (delete_row org ident tenant i rows))"

text \<open>
  An update keeps the owner unless the caller passes another tenant's id among the values, which
  the base repository does not look at.
\<close>

definition keeps_owner :: "('r \<Rightarrow> uuid) \<Rightarrow> 'r table_op \<Rightarrow> bool" where
  "keeps_owner org oper = (case oper of UpdateRow i f \<Rightarrow> \<forall>r. org (f r) = org r | _ \<Rightarrow> True)"

lemma read_row_scoped:
  "read_row org ident tenant i rows = find (\<lambda>r. ident r = i) (scope_select org tenant rows)"
  by (induction rows) (auto simp: read_row_def scope_select_def)

lemma scope_select_update:
  assumes "tenant \<noteq> tenant'" and "\<And>r. org (f r) = org r"
  shows "scope_select org tenant' (fst (update_row org ident tenant i f rows)) = scope_select org tenant' rows"
  using assms by (induction rows) (auto simp: scope_select_def update_row_def)

lemma scope_select_update_more:
  assumes "tenant \<noteq> tenant'"
  shows "stays_in (scope_select org tenant' rows) (scope_select org tenant' (fst (update_row org ident tenant i f rows)))"
  using assms by (induction rows) (auto simp: scope_select_def update_row_def intro: stays_in.intros)

lemma scope_select_delete:
  "tenant \<noteq> tenant' \<Longrightarrow>
   scope_select org tenant' (fst (delete_row org ident tenant i rows)) = scope_select org tenant' rows"
  by (induction rows) (auto simp: scope_select_def delete_row_def)

lemma create_rows_owned:
  "create_rows org tenant rs rows = Inr (rows', x) \<Longrightarrow> rows' = rows @ rs \<and> (\<forall>r \<in> set rs. org r = Some tenant)"
proof -
  have owned: "List.map_filter (\<lambda>r. validate_tenant_ownership tenant (org r)) rs = [] \<Longrightarrow>
      \<forall>r \<in> set rs. org r = Some tenant" for rs
    by (induction rs)
      (auto simp: map_filter_simps validate_tenant_ownership_def split: option.splits if_splits)
  assume "create_rows org tenant rs rows = Inr (rows', x)"
  with owned [of rs] show ?thesis by (auto simp: create_rows_def split: list.splits)
qed

lemma scope_select_create:
  assumes "tenant \<noteq> tenant'" and "create_rows (\<lambda>r. Some (org r)) tenant rs rows = Inr (rows', x)"
  shows "scope_select org tenant' rows' = scope_select org tenant' rows"
  using create_rows_owned [OF assms(2)] assms(1) by (simp add: scope_select_def filter_empty_conv)

lemma list_tenant_table:
  "tenant_table (scope_select org) (read_row org ident) (table_step org ident) (keeps_owner org)"
proof unfold_locales
  fix tenant i s r assume "read_row org ident tenant i s = Some r"
  then show "r \<in> set (scope_select org tenant s)"
    by (auto simp: read_row_scoped find_Some_iff)
next
  fix tenant s s' i assume "scope_select org tenant s = scope_select org tenant s'"
  then show "read_row org ident tenant i s = read_row org ident tenant i s'"
    by (simp add: read_row_scoped)
next
  fix tenant tenant' oper s assume "tenant \<noteq> (tenant' :: uuid)"
  then show "stays_in (scope_select org tenant' s) (scope_select org tenant' (table_step org ident tenant oper s))"
    by (auto simp: table_step_def scope_select_update_more scope_select_delete
        split: table_op.split sum.split dest: scope_select_create)
next
  fix tenant tenant' oper s assume "tenant \<noteq> (tenant' :: uuid)" and "keeps_owner org oper"
  then show "scope_select org tenant' (table_step org ident tenant oper s) = scope_select org tenant' s"
  proof (cases oper)
    case (UpdateRow i f)
    then have "\<And>r. org (f r) = org r" using \<open>keeps_owner org oper\<close> by (simp add: keeps_owner_def)
    then have "scope_select org tenant' (fst (update_row org ident tenant i f s)) = scope_select org tenant' s"
      by (rule scope_select_update [OF \<open>tenant \<noteq> tenant'\<close>])
    then show ?thesis by (simp add: table_step_def UpdateRow)
  qed (auto simp: table_step_def scope_select_delete split: sum.split dest: scope_select_create)
qed

interpretation tables: tenant_table "scope_select org" "read_row org ident" "table_step org ident" "keeps_owner org"
  for org :: "'r \<Rightarrow> uuid" and ident :: "'r \<Rightarrow> uuid"
  by (rule list_tenant_table)

text \<open>
  Claim C19.  Tenants are isolated: whatever sequence of creates, updates and deletes other tenants run, every row
  a tenant sees stays, unchanged and in its place among the tenant's rows; only rows an update of
  another tenant moves to it can be added.  While no update writes an owner, the tenant sees, reads
  and pages through exactly the rows it had.
\<close>

theorem tenants_are_isolated:
  assumes "\<forall>p \<in> set os. fst p \<noteq> tenant"
  shows "stays_in (scope_select org tenant rows) (scope_select org tenant (run_steps (table_step org ident) os rows)) \<and>
    ((\<forall>p \<in> set os. keeps_owner org (snd p)) \<longrightarrow>
     scope_select org tenant (run_steps (table_step org ident) os rows) = scope_select org tenant rows \<and>
     read_row org ident tenant i (run_steps (table_step org ident) os rows) = read_row org ident tenant i rows \<and>
     get_all org tenant offset limit (run_steps (table_step org ident) os rows) =
       get_all org tenant offset limit rows)"
  using tables.others_take_nothing [OF assms, of org rows ident] assms
    tables.others_unseen [of os tenant org ident rows] tables.others_unread [of os tenant org ident i rows]
  by (simp add: get_all_def)

definition demo_others :: "(uuid \<times> (uuid \<times> uuid) table_op) list" where
  "demo_others = [(4, DeleteRow 10), (4, CreateRows [(12, 3), (13, 4)]), (4, UpdateRow 11 (\<lambda>r. (20, snd r)))]"

theorem tenants_are_isolated_witness:
  "scope_select snd 3 (run_steps (table_step snd fst) demo_others [(10, 3), (11, 4)]) = [(10 :: nat, 3)] \<and>
   stays_in [(10 :: nat, 3 :: nat)] (scope_select snd 3 (run_steps (table_step snd fst) [(4, UpdateRow 11 (\<lambda>r. (20, 3)))] [(11, 4), (10, 3)]))"
  using tenants_are_isolated [of demo_others 3 snd "[(10, 3), (11, 4)]" fst 10 0 5]
    tenants_are_isolated [of "[(4, UpdateRow 11 (\<lambda>r. (20, 3)))]" 3 snd "[(11, 4), (10, 3)]" fst 10 0 5]
  by (simp add: scope_select_def demo_others_def keeps_owner_def update_row_def table_step_def)

end
