(* ===== verification/Block_Store.thy ===== *)
theory Block_Store
  imports Tenant_Scope Py_Value
begin

section \<open>Memory blocks and their revisions\<close>

text \<open>
  \<open>contexta/repositories/block_repo.py\<close> over the tables of \<open>models/block.py\<close>: a block holds its
  current content, its revisions are the immutable history.  \<open>sha\<close> is SHA-256 of a text in
  hexadecimal; \<open>now\<close> is the clock's reading during a call and \<open>new_id\<close>, \<open>rev_id\<close> the UUIDs drawn by
  a flush.  \<open>held\<close> is the block as the session already holds it: a select, \<open>FOR UPDATE\<close> included,
  returns the object of the identity map without refreshing its attributes.
\<close>

subsection \<open>Rows\<close>

datatype block_error =
    Scope scope_error | CreatorOutside | RevisionOutside | ScopeImmutable | VersionConflict
  | AlreadyRevised | BlockOutside | ParentRevisionOutside | ImmutableRecord | IntegrityError
  | ManyRows

type_synonym dict = "(string \<times> py) list"

record block =
  mb_id :: uuid
  mb_org :: uuid
  mb_scope :: scope
  mb_key :: string
  mb_type :: string
  mb_name :: "string option"
  mb_content :: "string option"
  mb_data :: "dict option"
  mb_hash :: "string option"
  mb_current :: "uuid option"
  mb_version :: int
  mb_status :: string
  mb_model :: "string option"
  mb_authority :: string
  mb_origin :: string
  mb_valid_from :: instant
  mb_valid_to :: "instant option"
  mb_metadata :: "dict option"
  mb_created_at :: instant
  mb_updated_at :: instant

text \<open>A \<open>MemoryBlock\<close> that is not flushed yet: attributes that were not set are \<open>None\<close>.\<close>

record draft =
  dr_id :: "uuid option"
  dr_org :: "uuid option"
  dr_scope :: scope
  dr_key :: "string option"
  dr_type :: "string option"
  dr_name :: "string option"
  dr_content :: "string option"
  dr_data :: "dict option"
  dr_hash :: "string option"
  dr_current :: "uuid option"
  dr_version :: "int option"
  dr_status :: "string option"
  dr_model :: "string option"
  dr_authority :: "string option"
  dr_origin :: "string option"
  dr_valid_from :: "instant option"
  dr_valid_to :: "instant option"
  dr_metadata :: "dict option"

record revision =
  rv_id :: uuid
  rv_org :: uuid
  rv_block :: uuid
  rv_scope :: scope
  rv_number :: int
  rv_content :: string
  rv_data :: "dict option"
  rv_hash :: string
  rv_model :: "string option"
  rv_authority :: string
  rv_origin :: string
  rv_created_by :: "uuid option"
  rv_supersedes :: "uuid option"
  rv_valid_from :: instant
  rv_valid_to :: "instant option"
  rv_metadata :: "dict option"
  rv_created_at :: instant

record block_db =
  bd_blocks :: "block list"
  bd_revisions :: "revision list"
  bd_dir :: directory

text \<open>What a caller gives of a revision.\<close>

record revision_args =
  ra_data :: "dict option"
  ra_model :: "string option"
  ra_authority :: string
  ra_origin :: string
  ra_created_by :: "uuid option"
  ra_expected :: "int option"

fun data_value :: "dict option \<Rightarrow> py" where
  "data_value None = PyNone"
| "data_value (Some d) = PyDict d"

definition hash_content :: "(string \<Rightarrow> string) \<Rightarrow> string \<Rightarrow> dict option \<Rightarrow> string" where
  "hash_content sha content data =
     sha (dumps (PyDict [(''content'', PyStr content), (''structured_data'', data_value data)]))"

subsection \<open>Constraints of the tables\<close>

definition range_ok :: "instant \<Rightarrow> instant option \<Rightarrow> bool" where
  "range_ok start ending = (case ending of None \<Rightarrow> True | Some t \<Rightarrow> start \<le> t)"

text \<open>The row an insert writes for a draft: the columns' defaults fill what was not set.\<close>

definition block_row :: "instant \<Rightarrow> uuid \<Rightarrow> uuid \<Rightarrow> string \<Rightarrow> draft \<Rightarrow> block" where
  "block_row now new_id org key d =
     \<lparr>mb_id = the_default new_id (dr_id d), mb_org = org, mb_scope = dr_scope d, mb_key = key,
      mb_type = the_default ''memory'' (dr_type d), mb_name = dr_name d, mb_content = dr_content d,
      mb_data = dr_data d, mb_hash = dr_hash d, mb_current = dr_current d,
      mb_version = the_default 0 (dr_version d), mb_status = the_default ''active'' (dr_status d),
      mb_model = dr_model d, mb_authority = the_default ''unknown'' (dr_authority d),
      mb_origin = the_default ''unknown'' (dr_origin d),
      mb_valid_from = the_default now (dr_valid_from d), mb_valid_to = dr_valid_to d,
      mb_metadata = dr_metadata d, mb_created_at = now, mb_updated_at = now\<rparr>"

definition block_fits :: "block \<Rightarrow> block list \<Rightarrow> bool" where
  "block_fits b rows \<longleftrightarrow>
     \<not> list_ex (\<lambda>x. mb_id x = mb_id b \<or> (mb_org x = mb_org b \<and> mb_key x = mb_key b)) rows
     \<and> 0 \<le> mb_version b \<and> range_ok (mb_valid_from b) (mb_valid_to b)"

definition revision_fits :: "revision \<Rightarrow> revision list \<Rightarrow> bool" where
  "revision_fits r rows \<longleftrightarrow>
     \<not> list_ex (\<lambda>x. rv_id x = rv_id r \<or> (rv_block x = rv_block r \<and> rv_number x = rv_number r)) rows
     \<and> 0 < rv_number r \<and> range_ok (rv_valid_from r) (rv_valid_to r)"

definition flush_block ::
  "instant \<Rightarrow> uuid \<Rightarrow> draft \<Rightarrow> block_db \<Rightarrow> block_error + (block_db \<times> block)" where
  "flush_block now new_id d db =
     (case (dr_org d, dr_key d) of
        (Some org, Some key) \<Rightarrow>
          (let b = block_row now new_id org key d
           in if block_fits b (bd_blocks db)
              then Inr (db\<lparr>bd_blocks := bd_blocks db @ [b]\<rparr>, b) else Inl IntegrityError)
      | _ \<Rightarrow> Inl IntegrityError)"

definition flush_revision :: "revision \<Rightarrow> block_db \<Rightarrow> block_error + (block_db \<times> revision)" where
  "flush_revision r db =
     (if revision_fits r (bd_revisions db)
      then Inr (db\<lparr>bd_revisions := bd_revisions db @ [r]\<rparr>, r) else Inl IntegrityError)"

subsection \<open>Reads\<close>

definition get_block :: "uuid \<Rightarrow> uuid \<Rightarrow> block_db \<Rightarrow> block option" where
  "get_block tenant i db = read_row mb_org mb_id tenant i (bd_blocks db)"

definition get_by_key :: "uuid \<Rightarrow> string \<Rightarrow> block_db \<Rightarrow> block_error + block option" where
  "get_by_key tenant key db =
     one_or_none ManyRows (\<lambda>b. mb_key b = key \<and> mb_org b = tenant) (bd_blocks db)"

definition revision_in_tenant :: "uuid \<Rightarrow> uuid \<Rightarrow> uuid option \<Rightarrow> block_db \<Rightarrow> bool" where
  "revision_in_tenant tenant i block db \<longleftrightarrow>
     list_ex (\<lambda>r. rv_id r = i \<and> Some (rv_block r) = block \<and> rv_org r = tenant) (bd_revisions db)"

definition block_revisions :: "uuid \<Rightarrow> uuid \<Rightarrow> block_db \<Rightarrow> revision list" where
  "block_revisions tenant block db =
     filter (\<lambda>r. rv_block r = block \<and> rv_org r = tenant) (bd_revisions db)"

definition list_revisions :: "uuid \<Rightarrow> uuid \<Rightarrow> block_db \<Rightarrow> revision list" where
  "list_revisions tenant block db = sort_key rv_number (block_revisions tenant block db)"

definition next_revision_number :: "uuid \<Rightarrow> uuid \<Rightarrow> block_db \<Rightarrow> int" where
  "next_revision_number tenant block db =
     (case map rv_number (block_revisions tenant block db) of [] \<Rightarrow> 0 | n # ns \<Rightarrow> fold max ns n)"

definition get_for_block :: "uuid \<Rightarrow> uuid \<Rightarrow> int \<Rightarrow> block_db \<Rightarrow> block_error + revision option" where
  "get_for_block tenant block number db =
     one_or_none ManyRows (\<lambda>r. rv_block r = block \<and> rv_number r = number \<and> rv_org r = tenant)
       (bd_revisions db)"

definition get_current_revision :: "uuid \<Rightarrow> uuid \<Rightarrow> block_db \<Rightarrow> block_error + revision option" where
  "get_current_revision tenant block db =
     (case get_block tenant block db of
        None \<Rightarrow> Inr None
      | Some b \<Rightarrow>
          ebind (one_or_none ManyRows (\<lambda>r. mb_current b = Some (rv_id r) \<and> rv_org r = tenant) (bd_revisions db))
            (\<lambda>found. case found of
               Some r \<Rightarrow> Inr (Some r)
             | None \<Rightarrow> Inr (case rev (list_revisions tenant block db) of [] \<Rightarrow> None | r # _ \<Rightarrow> Some r)))"

subsection \<open>Creating blocks\<close>

definition check_scope ::
  "directory \<Rightarrow> uuid \<Rightarrow> uuid option \<Rightarrow> scope \<Rightarrow> uuid option \<Rightarrow> block_error option" where
  "check_scope dir tenant org sc created_by =
     (case validate_scope dir tenant org sc None of
        Some e \<Rightarrow> Some (Scope e)
      | None \<Rightarrow>
          (case created_by of
             Some c \<Rightarrow> (if account_in_tenant dir tenant c then None else Some CreatorOutside)
           | None \<Rightarrow> None))"

definition create_block ::
  "uuid \<Rightarrow> instant \<Rightarrow> uuid \<Rightarrow> draft \<Rightarrow> block_db \<Rightarrow> block_error + (block_db \<times> block)" where
  "create_block tenant now new_id d db =
     (case check_scope (bd_dir db) tenant (dr_org d) (dr_scope d) None of
        Some e \<Rightarrow> Inl e
      | None \<Rightarrow>
          (case dr_current d of
             Some r \<Rightarrow>
               (if \<not> revision_in_tenant tenant r (dr_id d) db then Inl RevisionOutside
                else flush_block now new_id d db)
           | None \<Rightarrow> flush_block now new_id d db))"

text \<open>Attributes of the given block that are \<open>None\<close> take the keyword's value.\<close>

definition fill_scope :: "scope \<Rightarrow> scope \<Rightarrow> scope" where
  "fill_scope s v =
     \<lparr>sc_account = or_else (sc_account s) (sc_account v),
      sc_memory_user = or_else (sc_memory_user s) (sc_memory_user v),
      sc_user = or_else (sc_user s) (sc_user v), sc_agent = or_else (sc_agent s) (sc_agent v),
      sc_project = or_else (sc_project s) (sc_project v),
      sc_session = or_else (sc_session s) (sc_session v)\<rparr>"

definition fill_draft :: "draft \<Rightarrow> draft \<Rightarrow> draft" where
  "fill_draft d v =
     \<lparr>dr_id = or_else (dr_id d) (dr_id v), dr_org = or_else (dr_org d) (dr_org v),
      dr_scope = fill_scope (dr_scope d) (dr_scope v), dr_key = or_else (dr_key d) (dr_key v),
      dr_type = or_else (dr_type d) (dr_type v), dr_name = or_else (dr_name d) (dr_name v),
      dr_content = or_else (dr_content d) (dr_content v), dr_data = or_else (dr_data d) (dr_data v),
      dr_hash = or_else (dr_hash d) (dr_hash v), dr_current = or_else (dr_current d) (dr_current v),
      dr_version = or_else (dr_version d) (dr_version v), dr_status = or_else (dr_status d) (dr_status v),
      dr_model = or_else (dr_model d) (dr_model v),
      dr_authority = or_else (dr_authority d) (dr_authority v),
      dr_origin = or_else (dr_origin d) (dr_origin v),
      dr_valid_from = or_else (dr_valid_from d) (dr_valid_from v),
      dr_valid_to = or_else (dr_valid_to d) (dr_valid_to v),
      dr_metadata = or_else (dr_metadata d) (dr_metadata v)\<rparr>"

definition draft_of :: "uuid \<Rightarrow> draft option \<Rightarrow> draft \<Rightarrow> draft" where
  "draft_of tenant given values =
     (let d = (case given of None \<Rightarrow> values | Some b \<Rightarrow> fill_draft b values)
      in d\<lparr>dr_org := or_else (dr_org d) (Some tenant)\<rparr>)"

text \<open>The draft with the first revision's content, as it is flushed.\<close>

definition first_content :: "string option \<Rightarrow> draft \<Rightarrow> string" where
  "first_content content d = the_default (the_default [] (dr_content d)) content"

definition first_data :: "revision_args \<Rightarrow> draft \<Rightarrow> dict option" where
  "first_data a d = or_else (ra_data a) (dr_data d)"

definition first_draft ::
  "(string \<Rightarrow> string) \<Rightarrow> instant \<Rightarrow> string option \<Rightarrow> revision_args \<Rightarrow> draft \<Rightarrow> draft" where
  "first_draft sha now content a d =
     d\<lparr>dr_content := Some (first_content content d), dr_data := first_data a d,
       dr_hash := Some (hash_content sha (first_content content d) (first_data a d)),
       dr_valid_from := or_else (dr_valid_from d) (Some now),
       dr_authority := por (dr_authority d) (Some (ra_authority a)),
       dr_origin := por (dr_origin d) (Some (ra_origin a))\<rparr>"

text \<open>A revision of a block, with the block's scope and metadata.\<close>

definition revision_of ::
  "(string \<Rightarrow> string) \<Rightarrow> uuid \<Rightarrow> instant \<Rightarrow> uuid \<Rightarrow> block \<Rightarrow> int \<Rightarrow> string \<Rightarrow> dict option \<Rightarrow>
   uuid option \<Rightarrow> revision_args \<Rightarrow> revision" where
  "revision_of sha tenant now rev_id b number content data supersedes a =
     \<lparr>rv_id = rev_id, rv_org = tenant, rv_block = mb_id b, rv_scope = mb_scope b, rv_number = number,
      rv_content = content, rv_data = data, rv_hash = hash_content sha content data,
      rv_model = ra_model a, rv_authority = ra_authority a, rv_origin = ra_origin a,
      rv_created_by = ra_created_by a, rv_supersedes = supersedes, rv_valid_from = now,
      rv_valid_to = None, rv_metadata = mb_metadata b, rv_created_at = now\<rparr>"

definition update_block :: "uuid \<Rightarrow> (block \<Rightarrow> block) \<Rightarrow> block_db \<Rightarrow> block_db" where
  "update_block i f db =
     db\<lparr>bd_blocks := map (\<lambda>b. if mb_id b = i then f b else b) (bd_blocks db)\<rparr>"

definition first_revision ::
  "(string \<Rightarrow> string) \<Rightarrow> uuid \<Rightarrow> instant \<Rightarrow> uuid \<Rightarrow> string option \<Rightarrow> revision_args \<Rightarrow> draft \<Rightarrow> block \<Rightarrow>
   revision" where
  "first_revision sha tenant now rev_id content a d b =
     revision_of sha tenant now rev_id b 1 (first_content content d) (first_data a d) None a"

definition point_to :: "instant \<Rightarrow> revision \<Rightarrow> block \<Rightarrow> block" where
  "point_to now r b =
     b\<lparr>mb_current := Some (rv_id r), mb_version := rv_number r, mb_updated_at := now\<rparr>"

definition create_with_revision ::
  "(string \<Rightarrow> string) \<Rightarrow> uuid \<Rightarrow> instant \<Rightarrow> uuid \<Rightarrow> uuid \<Rightarrow> draft option \<Rightarrow> string option \<Rightarrow>
   revision_args \<Rightarrow> draft \<Rightarrow> block_db \<Rightarrow> block_error + (block_db \<times> block \<times> revision)" where
  "create_with_revision sha tenant now new_id rev_id given content a values db =
     (let d = draft_of tenant given values in
      if dr_org d \<noteq> Some tenant then Inl (Scope OtherTenant)
      else if \<not> matches (ra_expected a) (Some (the_default 0 (dr_version d))) then Inl VersionConflict
      else if dr_current d \<noteq> None then Inl AlreadyRevised
      else
        ebind (create_block tenant now new_id (first_draft sha now content a d) db) (\<lambda>(db1, b).
          ebind (flush_revision (first_revision sha tenant now rev_id content a d b) db1) (\<lambda>(db2, r).
            Inr (update_block (mb_id b) (point_to now r) db2, point_to now r b, r))))"

subsection \<open>Appending a revision\<close>

text \<open>
  A flush writes the attributes whose value differs from the one the session loaded; the others
  keep what the row has.
\<close>

definition assigned :: "'a \<Rightarrow> 'a \<Rightarrow> 'a \<Rightarrow> 'a" where
  "assigned loaded new row = (if new = loaded then row else new)"

definition take_revision :: "instant \<Rightarrow> block \<Rightarrow> revision \<Rightarrow> block \<Rightarrow> block" where
  "take_revision now seen r b =
     b\<lparr>mb_content := assigned (mb_content seen) (Some (rv_content r)) (mb_content b),
       mb_data := assigned (mb_data seen) (rv_data r) (mb_data b),
       mb_hash := assigned (mb_hash seen) (Some (rv_hash r)) (mb_hash b),
       mb_model := assigned (mb_model seen) (rv_model r) (mb_model b),
       mb_authority := assigned (mb_authority seen) (rv_authority r) (mb_authority b),
       mb_origin := assigned (mb_origin seen) (rv_origin r) (mb_origin b),
       mb_current := assigned (mb_current seen) (Some (rv_id r)) (mb_current b),
       mb_version := assigned (mb_version seen) (rv_number r) (mb_version b),
       mb_updated_at := now\<rparr>"

definition next_revision ::
  "(string \<Rightarrow> string) \<Rightarrow> uuid \<Rightarrow> instant \<Rightarrow> uuid \<Rightarrow> string \<Rightarrow> revision_args \<Rightarrow> block_db \<Rightarrow> block \<Rightarrow> revision" where
  "next_revision sha tenant now rev_id content a db b =
     revision_of sha tenant now rev_id b
       (max (mb_version b) (next_revision_number tenant (mb_id b) db) + 1)
       content (ra_data a) (mb_current b) a"

definition append_revision ::
  "(string \<Rightarrow> string) \<Rightarrow> uuid \<Rightarrow> instant \<Rightarrow> uuid \<Rightarrow> block option \<Rightarrow> uuid \<Rightarrow> string \<Rightarrow> revision_args \<Rightarrow>
   block_db \<Rightarrow> block_error + (block_db \<times> revision option)" where
  "append_revision sha tenant now rev_id held i content a db =
     (case get_block tenant i db of
        None \<Rightarrow> Inr (db, None)
      | Some row \<Rightarrow>
          (let b = the_default row held in
           if \<not> matches (ra_expected a) (Some (mb_version b)) then Inl VersionConflict
           else
             ebind (flush_revision (next_revision sha tenant now rev_id content a db b) db) (\<lambda>(db1, r).
               Inr (update_block (mb_id b) (take_revision now b r) db1, Some r))))"

subsection \<open>Updating\<close>

text \<open>A column and the value \<open>update_by_id\<close> is to write.\<close>

datatype block_column =
    OrgColumn uuid | ScopeColumn scope | CurrentColumn "uuid option" | VersionColumn int
  | ContentColumn "string option" | DataColumn "dict option" | StatusColumn string
  | NameColumn "string option" | ValidToColumn "instant option" | MetadataColumn "dict option"
  | KeyColumn string | TypeColumn string | HashColumn "string option" | ModelColumn "string option"
  | AuthorityColumn string | OriginColumn string | ValidFromColumn instant

fun write_column :: "block_column \<Rightarrow> block \<Rightarrow> block" where
  "write_column (OrgColumn v) b = b\<lparr>mb_org := v\<rparr>"
| "write_column (ScopeColumn v) b = b\<lparr>mb_scope := v\<rparr>"
| "write_column (CurrentColumn v) b = b\<lparr>mb_current := v\<rparr>"
| "write_column (VersionColumn v) b = b\<lparr>mb_version := v\<rparr>"
| "write_column (ContentColumn v) b = b\<lparr>mb_content := v\<rparr>"
| "write_column (DataColumn v) b = b\<lparr>mb_data := v\<rparr>"
| "write_column (StatusColumn v) b = b\<lparr>mb_status := v\<rparr>"
| "write_column (NameColumn v) b = b\<lparr>mb_name := v\<rparr>"
| "write_column (ValidToColumn v) b = b\<lparr>mb_valid_to := v\<rparr>"
| "write_column (MetadataColumn v) b = b\<lparr>mb_metadata := v\<rparr>"
| "write_column (KeyColumn v) b = b\<lparr>mb_key := v\<rparr>"
| "write_column (TypeColumn v) b = b\<lparr>mb_type := v\<rparr>"
| "write_column (HashColumn v) b = b\<lparr>mb_hash := v\<rparr>"
| "write_column (ModelColumn v) b = b\<lparr>mb_model := v\<rparr>"
| "write_column (AuthorityColumn v) b = b\<lparr>mb_authority := v\<rparr>"
| "write_column (OriginColumn v) b = b\<lparr>mb_origin := v\<rparr>"
| "write_column (ValidFromColumn v) b = b\<lparr>mb_valid_from := v\<rparr>"

fun column_problem :: "uuid \<Rightarrow> uuid \<Rightarrow> block_db \<Rightarrow> block_column \<Rightarrow> block_error option" where
  "column_problem tenant i db (OrgColumn v) = (if v \<noteq> tenant then Some (Scope OtherTenant) else None)"
| "column_problem tenant i db (ScopeColumn v) = Some ScopeImmutable"
| "column_problem tenant i db (CurrentColumn (Some r)) =
     (if revision_in_tenant tenant r (Some i) db then None else Some RevisionOutside)"
| "column_problem tenant i db _ = None"

text \<open>The order of the code's three checks.\<close>

definition problem_rank :: "block_error \<Rightarrow> nat" where
  "problem_rank e = (case e of Scope _ \<Rightarrow> 0 | ScopeImmutable \<Rightarrow> 1 | _ \<Rightarrow> 2)"

definition blocks_fit :: "block list \<Rightarrow> bool" where
  "blocks_fit rows \<longleftrightarrow> distinct (map (\<lambda>b. (mb_org b, mb_key b)) rows)
     \<and> list_all (\<lambda>b. 0 \<le> mb_version b \<and> range_ok (mb_valid_from b) (mb_valid_to b)) rows"

definition update_by_id ::
  "uuid \<Rightarrow> instant \<Rightarrow> uuid \<Rightarrow> block_column list \<Rightarrow> block_db \<Rightarrow> block_error + (block_db \<times> nat)" where
  "update_by_id tenant now i columns db =
     (case sort_key problem_rank (List.map_filter (column_problem tenant i db) columns) of
        e # _ \<Rightarrow> Inl e
      | [] \<Rightarrow>
          (case update_row mb_org mb_id tenant i
                  (\<lambda>b. (fold write_column columns b)\<lparr>mb_updated_at := now\<rparr>) (bd_blocks db) of
             (rows, n) \<Rightarrow>
               (if blocks_fit rows
                then Inr (db\<lparr>bd_blocks := rows\<rparr>, n) else Inl IntegrityError)))"

definition set_status :: "uuid \<Rightarrow> instant \<Rightarrow> uuid \<Rightarrow> string \<Rightarrow> block_db \<Rightarrow> block_error + (block_db \<times> nat)" where
  "set_status tenant now i status db = update_by_id tenant now i [StatusColumn status] db"

text \<open>
  \<open>delete_by_id\<close>, inherited from the base repository: the foreign key of the revisions cascades.
\<close>

definition delete_block :: "uuid \<Rightarrow> uuid \<Rightarrow> block_db \<Rightarrow> block_db \<times> nat" where
  "delete_block tenant i db =
     (case delete_row mb_org mb_id tenant i (bd_blocks db) of
        (rows, n) \<Rightarrow>
          (if n = 0 then db
           else db\<lparr>bd_blocks := rows, bd_revisions := filter (\<lambda>r. rv_block r \<noteq> i) (bd_revisions db)\<rparr>, n))"

subsection \<open>The revision repository\<close>

text \<open>\<open>number\<close> and \<open>org\<close> are the record's own, \<open>None\<close> when it leaves them to the repository.\<close>

definition create_revision ::
  "uuid \<Rightarrow> uuid option \<Rightarrow> int option \<Rightarrow> revision \<Rightarrow> block_db \<Rightarrow> block_error + (block_db \<times> revision)" where
  "create_revision tenant org number r db =
     (if \<not> list_ex (\<lambda>b. mb_id b = rv_block r \<and> mb_org b = tenant) (bd_blocks db) then Inl BlockOutside
      else
        case check_scope (bd_dir db) tenant (or_else org (Some tenant)) (rv_scope r) (rv_created_by r) of
          Some e \<Rightarrow> Inl e
        | None \<Rightarrow>
            (let r' = r\<lparr>rv_org := tenant,
                        rv_number := the_default (next_revision_number tenant (rv_block r) db + 1) number\<rparr>
             in case rv_supersedes r of
                  None \<Rightarrow> flush_revision r' db
                | Some p \<Rightarrow>
                    (case read_row rv_org rv_id tenant p (bd_revisions db) of
                       None \<Rightarrow> Inl ParentRevisionOutside
                     | Some parent \<Rightarrow>
                         if rv_block parent \<noteq> rv_block r then Inl ParentRevisionOutside
                         else flush_revision r' db)))"

definition update_revision :: "uuid \<Rightarrow> uuid \<Rightarrow> (revision \<Rightarrow> revision) \<Rightarrow> block_db \<Rightarrow> block_error + (block_db \<times> nat)" where
  "update_revision tenant i f db = Inl ImmutableRecord"

definition delete_revision :: "uuid \<Rightarrow> uuid \<Rightarrow> block_db \<Rightarrow> block_error + (block_db \<times> nat)" where
  "delete_revision tenant i db = Inl ImmutableRecord"

end
