(* ===== verification/Block_History.thy ===== *)
theory Block_History
  imports Block_Store
begin

section \<open>The history of a block\<close>

text \<open>
  A discipline of using the block repository: any number of tenants and sessions create blocks
  without a version of their own, append revisions to blocks they read afresh (the row lock makes
  an append one step) and change their status.  Under it the revisions of a block are numbered
  from one without gaps, each supersedes the one before it, and the block holds what the last one
  says.  All steps of the repository, with what holds of every one of them, are in \<open>Block_Steps\<close>.
\<close>

subsection \<open>Steps\<close>

inductive fresh_step :: "(string \<Rightarrow> string) \<Rightarrow> block_db \<Rightarrow> block_db \<Rightarrow> bool" for sha where
  create: "create_block tenant now new_id d db = Inr (db', b) \<Longrightarrow> dr_version d = None \<Longrightarrow>
     dr_current d = None \<Longrightarrow> fresh_step sha db db'"
| revise_new: "create_with_revision sha tenant now new_id rev_id given content a values db = Inr (db', b, r) \<Longrightarrow>
     fresh_step sha db db'"
| append: "append_revision sha tenant now rev_id None i content a db = Inr (db', r) \<Longrightarrow> fresh_step sha db db'"
| status: "set_status tenant now i st db = Inr (db', n) \<Longrightarrow> fresh_step sha db db'"

definition no_blocks :: "block_db \<Rightarrow> bool" where
  "no_blocks db \<longleftrightarrow> bd_blocks db = [] \<and> bd_revisions db = []"

inductive fresh_reached :: "(string \<Rightarrow> string) \<Rightarrow> block_db \<Rightarrow> bool" for sha where
  start: "no_blocks db \<Longrightarrow> fresh_reached sha db"
| step: "fresh_reached sha db \<Longrightarrow> fresh_step sha db db' \<Longrightarrow> fresh_reached sha db'"

subsection \<open>The invariant\<close>

definition revisions_of :: "uuid \<Rightarrow> block_db \<Rightarrow> revision list" where
  "revisions_of i db = filter (\<lambda>r. rv_block r = i) (bd_revisions db)"

definition holds_last :: "revision list \<Rightarrow> block \<Rightarrow> bool" where
  "holds_last rs b \<longleftrightarrow>
     (case rev rs of
        [] \<Rightarrow> mb_current b = None
      | r # _ \<Rightarrow> mb_current b = Some (rv_id r) \<and> mb_content b = Some (rv_content r)
          \<and> mb_data b = rv_data r \<and> mb_hash b = Some (rv_hash r))"

definition chained :: "revision list \<Rightarrow> bool" where
  "chained rs \<longleftrightarrow> map rv_supersedes rs = take (length rs) (None # map (\<lambda>r. Some (rv_id r)) rs)"

definition block_ok :: "revision list \<Rightarrow> block \<Rightarrow> bool" where
  "block_ok rs b \<longleftrightarrow> 0 \<le> mb_version b \<and> map rv_number rs = [1..mb_version b] \<and> chained rs \<and> holds_last rs b"

definition owned_by :: "block list \<Rightarrow> revision \<Rightarrow> bool" where
  "owned_by bs r \<longleftrightarrow> (\<exists>b \<in> set bs. mb_id b = rv_block r \<and> mb_org b = rv_org r \<and> mb_scope b = rv_scope r)"

definition history_ok :: "block_db \<Rightarrow> bool" where
  "history_ok db \<longleftrightarrow>
     distinct (map mb_id (bd_blocks db)) \<and> distinct (map (\<lambda>b. (mb_org b, mb_key b)) (bd_blocks db))
     \<and> distinct (map rv_id (bd_revisions db)) \<and> (\<forall>r \<in> set (bd_revisions db). owned_by (bd_blocks db) r)
     \<and> (\<forall>b \<in> set (bd_blocks db). block_ok (revisions_of (mb_id b) db) b)"

lemma chained_Nil [simp]: "chained []"
  by (simp add: chained_def)

lemma chained_snoc:
  "chained (rs @ [r]) \<longleftrightarrow>
     chained rs \<and> rv_supersedes r = (case rev rs of [] \<Rightarrow> None | l # _ \<Rightarrow> Some (rv_id l))"
proof (cases rs rule: rev_cases)
  case (snoc xs l)
  have "take (length rs) (None # map (\<lambda>x. Some (rv_id x)) (rs @ [r])) =
      take (length rs) (None # map (\<lambda>x. Some (rv_id x)) rs)"
    by (simp add: snoc take_Cons' split: if_splits)
  moreover have "take (Suc (length rs)) (None # map (\<lambda>x. Some (rv_id x)) (rs @ [r])) =
      take (length rs) (None # map (\<lambda>x. Some (rv_id x)) (rs @ [r])) @ [Some (rv_id l)]"
    by (subst take_Suc_conv_app_nth) (simp_all add: snoc nth_append)
  ultimately show ?thesis by (simp add: chained_def snoc)
qed (simp add: chained_def)

lemma upto_snoc: "0 \<le> v \<Longrightarrow> [1..v + 1] = [1..v] @ [v + 1 :: int]"
  by (simp add: upto_rec2)

lemma block_ok_snoc:
  assumes "block_ok rs b" and "rv_number r = mb_version b + 1" and "rv_supersedes r = mb_current b"
    and "mb_version b' = rv_number r" and "mb_current b' = Some (rv_id r)"
    and "mb_content b' = Some (rv_content r)" and "mb_data b' = rv_data r" and "mb_hash b' = Some (rv_hash r)"
  shows "block_ok (rs @ [r]) b'"
proof -
  have "rv_supersedes r = (case rev rs of [] \<Rightarrow> None | l # _ \<Rightarrow> Some (rv_id l))"
    using assms(1,3) by (simp add: block_ok_def holds_last_def split: list.splits)
  with assms show ?thesis by (simp add: block_ok_def chained_snoc holds_last_def upto_snoc)
qed

lemma block_ok_empty:
  "mb_version b = 0 \<Longrightarrow> mb_current b = None \<Longrightarrow> block_ok [] b"
  by (simp add: block_ok_def holds_last_def)

lemma block_ok_fields:
  assumes "block_ok rs b"
    and "mb_version b' = mb_version b" "mb_current b' = mb_current b" "mb_content b' = mb_content b"
      "mb_data b' = mb_data b" "mb_hash b' = mb_hash b"
  shows "block_ok rs b'"
  using assms by (simp add: block_ok_def holds_last_def split: list.splits)

subsection \<open>Reading the history\<close>

lemma fold_max_upto: "0 \<le> (v :: int) \<Longrightarrow> (case [1..v] of [] \<Rightarrow> 0 | n # ns \<Rightarrow> fold max ns n) = v"
proof (cases "1 \<le> v")
  case True
  then have "fold max [1 + 1..v] 1 = Max (set [1..v])"
    by (simp only: upto_rec1 [of 1 v] if_True Max.set_eq_fold)
  also have "\<dots> = v" using True by (auto intro: Max_eqI)
  finally show ?thesis using True by (simp add: upto_rec1 [of 1 v])
qed simp

lemma owned_org:
  assumes "history_ok db" and "b \<in> set (bd_blocks db)" and "r \<in> set (bd_revisions db)" and "rv_block r = mb_id b"
  shows "rv_org r = mb_org b"
proof -
  obtain b' where b': "b' \<in> set (bd_blocks db)" "mb_id b' = rv_block r" "mb_org b' = rv_org r"
    using assms(1,3) by (auto simp: history_ok_def owned_by_def)
  then have "b' = b" using assms by (auto simp: history_ok_def distinct_map inj_on_def)
  with b' show ?thesis by simp
qed

lemma block_revisions_all:
  assumes "history_ok db" and "b \<in> set (bd_blocks db)"
  shows "block_revisions (mb_org b) (mb_id b) db = revisions_of (mb_id b) db"
  unfolding block_revisions_def revisions_of_def
  using owned_org [OF assms] by (intro filter_cong) auto

lemma ok_block: "history_ok db \<Longrightarrow> b \<in> set (bd_blocks db) \<Longrightarrow> block_ok (revisions_of (mb_id b) db) b"
  by (simp add: history_ok_def)

lemma next_number_is_version:
  assumes "history_ok db" and "b \<in> set (bd_blocks db)"
  shows "next_revision_number (mb_org b) (mb_id b) db = mb_version b"
  using ok_block [OF assms]
  by (simp add: next_revision_number_def block_revisions_all [OF assms] block_ok_def fold_max_upto)

lemma list_revisions_in_order:
  assumes "history_ok db" and "b \<in> set (bd_blocks db)"
  shows "list_revisions (mb_org b) (mb_id b) db = revisions_of (mb_id b) db"
  using ok_block [OF assms]
  by (simp add: list_revisions_def block_revisions_all [OF assms] block_ok_def sort_key_id_if_sorted)

lemma get_block_Some:
  "get_block tenant i db = Some b \<Longrightarrow> b \<in> set (bd_blocks db) \<and> mb_id b = i \<and> mb_org b = tenant"
  by (auto simp: get_block_def read_row_def find_Some_iff)

lemma get_block_mem:
  assumes "history_ok db" and "b \<in> set (bd_blocks db)"
  shows "get_block (mb_org b) (mb_id b) db = Some b"
proof -
  have "b' = b" if "b' \<in> set (bd_blocks db)" "mb_id b' = mb_id b" for b'
    using that assms by (auto simp: history_ok_def distinct_map inj_on_def)
  moreover have "get_block (mb_org b) (mb_id b) db \<noteq> None"
    using assms(2) by (auto simp: get_block_def read_row_def find_None_iff)
  ultimately show ?thesis using get_block_Some by (metis option.exhaust)
qed

subsection \<open>What a step does to the tables\<close>

lemma check_scope_org: "check_scope dir tenant org sc c = None \<Longrightarrow> org = Some tenant"
  by (auto simp: check_scope_def validate_scope_None split: option.splits)

lemma flush_block_SomeE:
  assumes "flush_block now nid d db = Inr (db', b)"
  obtains org key where "dr_org d = Some org" "b = block_row now nid org key d"
    "block_fits b (bd_blocks db)" "db' = db\<lparr>bd_blocks := bd_blocks db @ [b]\<rparr>"
  using assms by (auto simp: flush_block_def Let_def split: option.splits if_splits)

lemma create_block_SomeE:
  assumes "create_block tenant now nid d db = Inr (db', b)"
  obtains key where "b = block_row now nid tenant key d" "block_fits b (bd_blocks db)"
    "db' = db\<lparr>bd_blocks := bd_blocks db @ [b]\<rparr>"
proof -
  have "dr_org d = Some tenant" and "flush_block now nid d db = Inr (db', b)"
    using assms by (auto simp: create_block_def dest: check_scope_org split: option.splits if_splits)
  with that show thesis by (auto elim: flush_block_SomeE)
qed

lemma flush_revision_SomeE:
  assumes "flush_revision r db = Inr (db', r')"
  obtains "r' = r" "revision_fits r (bd_revisions db)" "db' = db\<lparr>bd_revisions := bd_revisions db @ [r]\<rparr>"
  using assms by (auto simp: flush_revision_def split: if_splits)

lemma create_with_revision_SomeE:
  assumes "create_with_revision sha tenant now nid rid given content a values db = Inr (db', b', r)"
  obtains b key where "b = block_row now nid tenant key (first_draft sha now content a (draft_of tenant given values))"
    "block_fits b (bd_blocks db)" "revision_fits r (bd_revisions db)"
    "r = first_revision sha tenant now rid content a (draft_of tenant given values) b"
    "b' = point_to now r b"
    "db' = db\<lparr>bd_blocks := bd_blocks db @ [b'], bd_revisions := bd_revisions db @ [r]\<rparr>"
proof -
  let ?d = "draft_of tenant given values"
  have "ebind (create_block tenant now nid (first_draft sha now content a ?d) db) (\<lambda>(db1, b).
      ebind (flush_revision (first_revision sha tenant now rid content a ?d b) db1) (\<lambda>(db2, r).
        Inr (update_block (mb_id b) (point_to now r) db2, point_to now r b, r))) = Inr (db', b', r)"
    using assms unfolding create_with_revision_def Let_def by (simp split: if_splits)
  then show thesis
  proof (rule ebind_InrE)
    fix x assume c: "create_block tenant now nid (first_draft sha now content a ?d) db = Inr x"
      and "(case x of (db1, b) \<Rightarrow> ebind (flush_revision (first_revision sha tenant now rid content a ?d b) db1)
        (\<lambda>(db2, r). Inr (update_block (mb_id b) (point_to now r) db2, point_to now r b, r))) = Inr (db', b', r)"
    then obtain db1 b db2 where x: "x = (db1, b)"
      and f: "flush_revision (first_revision sha tenant now rid content a ?d b) db1 = Inr (db2, r)"
      and res: "db' = update_block (mb_id b) (point_to now r) db2" "b' = point_to now r b"
      by (cases x) (auto elim!: ebind_InrE)
    from c x obtain key where
      row: "b = block_row now nid tenant key (first_draft sha now content a ?d)"
      and fits: "block_fits b (bd_blocks db)" and db1: "db1 = db\<lparr>bd_blocks := bd_blocks db @ [b]\<rparr>"
      by (auto elim: create_block_SomeE)
    from f have r: "r = first_revision sha tenant now rid content a ?d b"
        "revision_fits r (bd_revisions db)" "db2 = db1\<lparr>bd_revisions := bd_revisions db1 @ [r]\<rparr>"
      by (auto elim: flush_revision_SomeE simp: db1)
    have "map (\<lambda>x. if mb_id x = mb_id b then point_to now r x else x) (bd_blocks db) = bd_blocks db"
      using fits by (intro map_idI) (auto simp: block_fits_def list_ex_iff)
    then have "db' = db\<lparr>bd_blocks := bd_blocks db @ [b'], bd_revisions := bd_revisions db @ [r]\<rparr>"
      by (simp add: res r(3) db1 update_block_def)
    with that [OF row fits r(2,1) res(2)] show thesis by simp
  qed
qed

lemma assigned_same [simp]: "assigned x new x = new"
  by (simp add: assigned_def)

lemma append_revision_SomeE:
  assumes "append_revision sha tenant now rid None i content a db = Inr (db', r)"
  obtains (missing) "get_block tenant i db = None" "db' = db" "r = None"
  | (appended) b rev' where "get_block tenant i db = Some b" "matches (ra_expected a) (Some (mb_version b))"
    "rev' = next_revision sha tenant now rid content a db b"
    "revision_fits rev' (bd_revisions db)" "r = Some rev'"
    "db' = update_block i (take_revision now b rev') (db\<lparr>bd_revisions := bd_revisions db @ [rev']\<rparr>)"
proof (cases "get_block tenant i db")
  case None
  with assms have "db' = db" "r = None" by (simp_all add: append_revision_def)
  with None show thesis by (rule missing)
next
  case (Some b)
  from get_block_Some [OF Some] have i: "mb_id b = i" by simp
  from assms Some have m: "matches (ra_expected a) (Some (mb_version b))"
    and "ebind (flush_revision (next_revision sha tenant now rid content a db b) db) (\<lambda>(db1, r).
      Inr (update_block (mb_id b) (take_revision now b r) db1, Some r)) = Inr (db', r)"
    by (simp_all add: append_revision_def split: if_splits)
  then obtain db1 rev' where
    f: "flush_revision (next_revision sha tenant now rid content a db b) db = Inr (db1, rev')"
    and res: "r = Some rev'" "db' = update_block i (take_revision now b rev') db1"
    by (auto elim!: ebind_InrE simp: i)
  from f show thesis
    by (rule flush_revision_SomeE) (use appended [OF Some m] res in auto)
qed

lemma set_status_SomeE:
  assumes "set_status tenant now i st db = Inr (db', n)"
  obtains "db' = db\<lparr>bd_blocks := map (\<lambda>b. if mb_id b = i \<and> mb_org b = tenant
     then b\<lparr>mb_status := st, mb_updated_at := now\<rparr> else b) (bd_blocks db)\<rparr>"
  using assms
  by (auto simp: set_status_def update_by_id_def map_filter_simps update_row_def split: if_splits)

subsection \<open>The invariant is kept\<close>

lemma revisions_of_append [simp]:
  "revisions_of i (db\<lparr>bd_revisions := bd_revisions db @ [r]\<rparr>) =
     (if rv_block r = i then revisions_of i db @ [r] else revisions_of i db)"
  by (simp add: revisions_of_def)

lemma revisions_of_blocks [simp]: "revisions_of i (db\<lparr>bd_blocks := bs\<rparr>) = revisions_of i db"
  by (simp add: revisions_of_def)

lemma no_revisions_of_new:
  assumes "history_ok db" and "block_fits b (bd_blocks db)"
  shows "revisions_of (mb_id b) db = []"
proof -
  have "rv_block r \<noteq> mb_id b" if "r \<in> set (bd_revisions db)" for r
  proof -
    have "owned_by (bd_blocks db) r" using assms(1) that by (simp add: history_ok_def)
    then obtain b' where b': "b' \<in> set (bd_blocks db)" "mb_id b' = rv_block r"
      by (auto simp: owned_by_def)
    with assms(2) have "mb_id b' \<noteq> mb_id b" by (auto simp: block_fits_def list_ex_iff)
    with b'(2) show ?thesis by simp
  qed
  then show ?thesis by (simp add: revisions_of_def filter_empty_conv)
qed

lemma add_block_ok:
  assumes "history_ok db" and "block_fits b (bd_blocks db)" and "mb_version b = 0" and "mb_current b = None"
  shows "history_ok (db\<lparr>bd_blocks := bd_blocks db @ [b]\<rparr>)"
proof -
  have "block_ok (revisions_of (mb_id b) db) b"
    using no_revisions_of_new [OF assms(1,2)] assms(3,4) by (simp add: block_ok_empty)
  with assms(1,2) show ?thesis
    by (auto simp: history_ok_def block_fits_def list_ex_iff owned_by_def)
qed

lemma fits_ids: "revision_fits r rs \<Longrightarrow> distinct (map rv_id rs) \<Longrightarrow> distinct (map rv_id (rs @ [r]))"
  by (auto simp: revision_fits_def list_ex_iff)

lemma add_revised_block_ok:
  assumes ok: "history_ok db" and b: "block_fits b (bd_blocks db)"
    and r: "rv_block r = mb_id b" "rv_org r = mb_org b" "rv_scope r = mb_scope b" "rv_number r = 1"
      "rv_supersedes r = None" "revision_fits r (bd_revisions db)"
    and last: "mb_version b = 1" "mb_current b = Some (rv_id r)" "mb_content b = Some (rv_content r)"
      "mb_data b = rv_data r" "mb_hash b = Some (rv_hash r)"
  shows "history_ok (db\<lparr>bd_blocks := bd_blocks db @ [b], bd_revisions := bd_revisions db @ [r]\<rparr>)"
proof -
  have mine: "block_ok [r] b" using r(4,5) last by (simp add: block_ok_def holds_last_def chained_def)
  have fresh: "mb_id x \<noteq> mb_id b \<and> (mb_org x, mb_key x) \<noteq> (mb_org b, mb_key b)" if "x \<in> set (bd_blocks db)" for x
    using b that by (auto simp: block_fits_def list_ex_iff)
  have revs: "revisions_of (mb_id b) db = []" by (rule no_revisions_of_new [OF ok b])
  let ?db = "db\<lparr>bd_blocks := bd_blocks db @ [b], bd_revisions := bd_revisions db @ [r]\<rparr>"
  have "revisions_of i ?db = (if i = mb_id b then [r] else revisions_of i db)" for i
    using revs r(1) by (simp add: revisions_of_def)
  with ok mine fresh have "\<forall>x \<in> set (bd_blocks ?db). block_ok (revisions_of (mb_id x) ?db) x"
    by (simp add: history_ok_def)
  moreover have "\<forall>x \<in> set (bd_revisions ?db). owned_by (bd_blocks ?db) x"
    using ok r by (auto simp: history_ok_def owned_by_def)
  moreover have "distinct (map rv_id (bd_revisions ?db))"
    using fits_ids [OF r(6)] ok by (simp add: history_ok_def)
  moreover have "mb_id b \<notin> mb_id ` set (bd_blocks db)"
      "(mb_org b, mb_key b) \<notin> (\<lambda>b. (mb_org b, mb_key b)) ` set (bd_blocks db)"
    using fresh by force+
  then have "distinct (map mb_id (bd_blocks ?db))" "distinct (map (\<lambda>b. (mb_org b, mb_key b)) (bd_blocks ?db))"
    using ok by (simp_all add: history_ok_def)
  ultimately show ?thesis by (simp add: history_ok_def)
qed

lemma map_blocks_ok:
  assumes ok: "history_ok db"
    and same: "\<And>b. mb_id (f b) = mb_id b \<and> mb_org (f b) = mb_org b \<and> mb_key (f b) = mb_key b \<and> mb_scope (f b) = mb_scope b"
    and ids: "distinct (map rv_id (bd_revisions db @ rs))"
    and own: "\<And>r. r \<in> set rs \<Longrightarrow> owned_by (bd_blocks db) r"
    and each: "\<And>b. b \<in> set (bd_blocks db) \<Longrightarrow> block_ok (revisions_of (mb_id b) db @ filter (\<lambda>r. rv_block r = mb_id b) rs) (f b)"
  shows "history_ok (db\<lparr>bd_blocks := map f (bd_blocks db), bd_revisions := bd_revisions db @ rs\<rparr>)"
proof -
  have maps: "map mb_id (map f (bd_blocks db)) = map mb_id (bd_blocks db)"
      "map (\<lambda>b. (mb_org b, mb_key b)) (map f (bd_blocks db)) = map (\<lambda>b. (mb_org b, mb_key b)) (bd_blocks db)"
    using same by auto
  have owned: "owned_by (map f (bd_blocks db)) r" if "owned_by (bd_blocks db) r" for r
    using that same by (auto simp: owned_by_def)
  have revs: "revisions_of i (db\<lparr>bd_blocks := map f (bd_blocks db), bd_revisions := bd_revisions db @ rs\<rparr>) =
      revisions_of i db @ filter (\<lambda>r. rv_block r = i) rs" for i
    by (simp add: revisions_of_def)
  from ok ids own owned each same show ?thesis
    unfolding history_ok_def revs by (auto simp: maps simp del: map_map)
qed

lemma take_revision_last:
  "block_ok (revisions_of (mb_id b) db) b \<Longrightarrow> rv_number r = mb_version b + 1 \<Longrightarrow>
   rv_supersedes r = mb_current b \<Longrightarrow> block_ok (revisions_of (mb_id b) db @ [r]) (take_revision now b r b)"
  by (erule block_ok_snoc) (simp_all add: take_revision_def)

lemma take_revision_same:
  "mb_id (take_revision now s r b) = mb_id b \<and> mb_org (take_revision now s r b) = mb_org b \<and>
   mb_key (take_revision now s r b) = mb_key b \<and> mb_scope (take_revision now s r b) = mb_scope b"
  by (simp add: take_revision_def)

lemma unique_block:
  "history_ok db \<Longrightarrow> b \<in> set (bd_blocks db) \<Longrightarrow> b' \<in> set (bd_blocks db) \<Longrightarrow> mb_id b = mb_id b' \<Longrightarrow> b = b'"
  by (auto simp: history_ok_def distinct_map inj_on_def)

lemma next_revision_fields:
  assumes "history_ok db" and "get_block tenant i db = Some b"
  shows "rv_number (next_revision sha tenant now rid content a db b) = mb_version b + 1"
    "rv_supersedes (next_revision sha tenant now rid content a db b) = mb_current b"
    "rv_block (next_revision sha tenant now rid content a db b) = i"
    "rv_org (next_revision sha tenant now rid content a db b) = tenant"
    "rv_scope (next_revision sha tenant now rid content a db b) = mb_scope b"
    "rv_id (next_revision sha tenant now rid content a db b) = rid"
    "rv_content (next_revision sha tenant now rid content a db b) = content"
    "rv_data (next_revision sha tenant now rid content a db b) = ra_data a"
proof -
  from get_block_Some [OF assms(2)] have b: "b \<in> set (bd_blocks db)" "mb_id b = i" "mb_org b = tenant"
    by simp_all
  have "next_revision_number tenant (mb_id b) db = mb_version b"
    using next_number_is_version [OF assms(1) b(1)] b(3) by simp
  then show "rv_number (next_revision sha tenant now rid content a db b) = mb_version b + 1"
    by (simp add: next_revision_def revision_of_def)
qed (use get_block_Some [OF assms(2)] in \<open>simp_all add: next_revision_def revision_of_def\<close>)

lemma append_keeps_history:
  assumes ok: "history_ok db" and b: "get_block tenant i db = Some b"
    and r: "r = next_revision sha tenant now rid content a db b" "revision_fits r (bd_revisions db)"
  shows "history_ok (update_block i (take_revision now b r) (db\<lparr>bd_revisions := bd_revisions db @ [r]\<rparr>))"
proof -
  note in_db = get_block_Some [OF b]
  note fields = next_revision_fields [OF ok b, of sha now rid content a, folded r(1)]
  let ?f = "\<lambda>x. if mb_id x = i then take_revision now b r x else x"
  have each: "block_ok (revisions_of (mb_id x) db @ filter (\<lambda>y. rv_block y = mb_id x) [r]) (?f x)"
    if x: "x \<in> set (bd_blocks db)" for x
  proof (cases "mb_id x = i")
    case True
    with in_db have "x = b" by (intro unique_block [OF ok x]) auto
    moreover have "block_ok (revisions_of (mb_id b) db @ [r]) (take_revision now b r b)"
      by (rule take_revision_last [OF ok_block [OF ok] fields(1,2)]) (simp add: in_db)
    moreover have "filter (\<lambda>y. rv_block y = mb_id x) [r] = [r]" by (simp add: fields(3) True)
    ultimately show ?thesis using True by (simp only: if_True simp_thms)
  next
    case False
    then have "filter (\<lambda>y. rv_block y = mb_id x) [r] = []" by (simp add: fields(3))
    with False ok_block [OF ok x] show ?thesis by (simp only: if_False append_Nil2)
  qed
  have "owned_by (bd_blocks db) r"
    unfolding owned_by_def by (rule bexI [of _ b]) (simp_all add: in_db fields)
  then have own: "\<And>x. x \<in> set [r] \<Longrightarrow> owned_by (bd_blocks db) x" by simp
  have ids: "distinct (map rv_id (bd_revisions db @ [r]))"
    using ok by (intro fits_ids [OF r(2)]) (simp add: history_ok_def)
  have "history_ok (db\<lparr>bd_blocks := map ?f (bd_blocks db), bd_revisions := bd_revisions db @ [r]\<rparr>)"
    by (rule map_blocks_ok [OF ok _ ids own each]) (simp_all add: take_revision_same)
  then show ?thesis by (cases db) (simp add: update_block_def)
qed

lemma first_revision_fields:
  "rv_block (first_revision sha tenant now rid content a d b) = mb_id b"
  "rv_org (first_revision sha tenant now rid content a d b) = tenant"
  "rv_scope (first_revision sha tenant now rid content a d b) = mb_scope b"
  "rv_number (first_revision sha tenant now rid content a d b) = 1"
  "rv_supersedes (first_revision sha tenant now rid content a d b) = None"
  "rv_content (first_revision sha tenant now rid content a d b) = first_content content d"
  "rv_data (first_revision sha tenant now rid content a d b) = first_data a d"
  "rv_hash (first_revision sha tenant now rid content a d b) =
     hash_content sha (first_content content d) (first_data a d)"
  by (simp_all add: first_revision_def revision_of_def)

lemma first_row_fields:
  assumes "b = block_row now nid tenant key (first_draft sha now content a d)"
  shows "mb_org b = tenant" "mb_content b = Some (first_content content d)" "mb_data b = first_data a d"
    "mb_hash b = Some (hash_content sha (first_content content d) (first_data a d))"
  using assms by (simp_all add: block_row_def first_draft_def)

lemma point_to_fields [simp]:
  "mb_id (point_to now r b) = mb_id b" "mb_org (point_to now r b) = mb_org b"
  "mb_scope (point_to now r b) = mb_scope b" "mb_key (point_to now r b) = mb_key b"
  "mb_version (point_to now r b) = rv_number r" "mb_current (point_to now r b) = Some (rv_id r)"
  "mb_content (point_to now r b) = mb_content b" "mb_data (point_to now r b) = mb_data b"
  "mb_hash (point_to now r b) = mb_hash b" "mb_valid_from (point_to now r b) = mb_valid_from b"
  "mb_valid_to (point_to now r b) = mb_valid_to b"
  by (simp_all add: point_to_def)

lemma step_keeps_history:
  assumes "fresh_step sha db db'" and ok: "history_ok db"
  shows "history_ok db'"
  using assms(1)
proof cases
  case (create tenant now nid d b)
  from create(1) obtain key where "b = block_row now nid tenant key d" "block_fits b (bd_blocks db)"
    "db' = db\<lparr>bd_blocks := bd_blocks db @ [b]\<rparr>" by (rule create_block_SomeE)
  with create(2,3) add_block_ok [OF ok] show ?thesis by (simp add: block_row_def)
next
  case (revise_new tenant now nid rid given content a vals b' r)
  from revise_new obtain b key where
    row: "b = block_row now nid tenant key (first_draft sha now content a (draft_of tenant given vals))"
    and fits: "block_fits b (bd_blocks db)" "revision_fits r (bd_revisions db)"
    and r: "r = first_revision sha tenant now rid content a (draft_of tenant given vals) b"
    and b': "b' = point_to now r b"
    and db': "db' = db\<lparr>bd_blocks := bd_blocks db @ [b'], bd_revisions := bd_revisions db @ [r]\<rparr>"
    by (rule create_with_revision_SomeE)
  note fields = first_row_fields [OF row] first_revision_fields
  have "block_fits b' (bd_blocks db)" using fits(1) fields by (simp add: block_fits_def b' r)
  then show ?thesis
    unfolding db' using fits(2) fields by (intro add_revised_block_ok [OF ok]) (simp_all add: b' r)
next
  case (append tenant now rid i content a r)
  from append show ?thesis
  proof (cases rule: append_revision_SomeE)
    case missing
    with ok show ?thesis by simp
  next
    case (appended b rev')
    with append_keeps_history [OF ok] show ?thesis by simp
  qed
next
  case (status tenant now i st n)
  let ?f = "\<lambda>b. if mb_id b = i \<and> mb_org b = tenant then b\<lparr>mb_status := st, mb_updated_at := now\<rparr> else b"
  from status have "db' = db\<lparr>bd_blocks := map ?f (bd_blocks db), bd_revisions := bd_revisions db @ []\<rparr>"
    by (auto elim: set_status_SomeE)
  moreover have "block_ok (revisions_of (mb_id b) db) (?f b)" if "b \<in> set (bd_blocks db)" for b
    by (rule block_ok_fields [OF ok_block [OF ok that]]) simp_all
  then have "history_ok (db\<lparr>bd_blocks := map ?f (bd_blocks db), bd_revisions := bd_revisions db @ []\<rparr>)"
    using ok by (intro map_blocks_ok [OF ok]) (simp_all add: history_ok_def)
  ultimately show ?thesis by simp
qed

lemma reached_history: "fresh_reached sha db \<Longrightarrow> history_ok db"
proof (induction rule: fresh_reached.induct)
  case (start db)
  then show ?case by (simp add: no_blocks_def history_ok_def)
next
  case (step db db')
  then show ?case by (blast intro: step_keeps_history)
qed

end
