(* ===== verification/Block_Steps.thy ===== *)
theory Block_Steps
  imports Block_History
begin

section \<open>Every step of the block repositories\<close>

text \<open>
  The steps of both block repositories by any number of tenants and sessions, with what holds
  of all of them: appends on a block the session holds in a stale state, direct updates of
  columns, revisions written through their own repository and deletions included.
  \<open>revising_step\<close> leaves out what takes versions back: a direct write of the version column and
  the deletion of blocks.
\<close>

subsection \<open>Steps\<close>

definition held_for :: "uuid \<Rightarrow> uuid \<Rightarrow> block option \<Rightarrow> bool" where
  "held_for tenant i held \<longleftrightarrow> (case held of None \<Rightarrow> True | Some b \<Rightarrow> mb_id b = i \<and> mb_org b = tenant)"

inductive revising_step :: "(string \<Rightarrow> string) \<Rightarrow> block_db \<Rightarrow> block_db \<Rightarrow> bool" for sha where
  create: "create_block tenant now new_id d db = Inr (db', b) \<Longrightarrow> revising_step sha db db'"
| revise_new: "create_with_revision sha tenant now new_id rev_id given content a values db = Inr (db', b, r) \<Longrightarrow>
     revising_step sha db db'"
| append: "append_revision sha tenant now rev_id held i content a db = Inr (db', r) \<Longrightarrow>
     held_for tenant i held \<Longrightarrow> revising_step sha db db'"
| update: "update_by_id tenant now i columns db = Inr (db', n) \<Longrightarrow> \<forall>v. VersionColumn v \<notin> set columns \<Longrightarrow>
     revising_step sha db db'"
| revision: "create_revision tenant org number r db = Inr (db', r') \<Longrightarrow> revising_step sha db db'"

inductive block_step :: "(string \<Rightarrow> string) \<Rightarrow> block_db \<Rightarrow> block_db \<Rightarrow> bool" for sha where
  revising: "revising_step sha db db' \<Longrightarrow> block_step sha db db'"
| rewrite: "update_by_id tenant now i columns db = Inr (db', n) \<Longrightarrow> block_step sha db db'"
| delete: "delete_block tenant i db = (db', n) \<Longrightarrow> block_step sha db db'"
| rewrite_revision: "update_revision tenant i f db = Inr (db', n) \<Longrightarrow> block_step sha db db'"
| remove_revision: "delete_revision tenant i db = Inr (db', n) \<Longrightarrow> block_step sha db db'"

inductive block_reached :: "(string \<Rightarrow> string) \<Rightarrow> block_db \<Rightarrow> bool" for sha where
  start: "no_blocks db \<Longrightarrow> block_reached sha db"
| step: "block_reached sha db \<Longrightarrow> block_step sha db db' \<Longrightarrow> block_reached sha db'"

subsection \<open>What every step keeps\<close>

definition store_ok :: "block_db \<Rightarrow> bool" where
  "store_ok db \<longleftrightarrow> distinct (map mb_id (bd_blocks db)) \<and> distinct (map rv_id (bd_revisions db))
     \<and> distinct (map (\<lambda>r. (rv_block r, rv_number r)) (bd_revisions db))
     \<and> (\<forall>r \<in> set (bd_revisions db). 0 < rv_number r)"

text \<open>What a step makes of the tables: it adds blocks and revisions and rewrites blocks.\<close>

definition tables_grow :: "block_db \<Rightarrow> block_db \<Rightarrow> bool" where
  "tables_grow db db' \<longleftrightarrow> (\<exists>f bs rs. db' = db\<lparr>bd_blocks := map f (bd_blocks db) @ bs, bd_revisions := bd_revisions db @ rs\<rparr>
     \<and> (\<forall>b \<in> set (bd_blocks db). mb_id (f b) = mb_id b)
     \<and> distinct (map mb_id bs) \<and> mb_id ` set bs \<inter> mb_id ` set (bd_blocks db) = {}
     \<and> (\<forall>r \<in> set rs. revision_fits r (bd_revisions db)) \<and> length rs \<le> 1)"

lemma tables_growI:
  assumes "db' = db\<lparr>bd_blocks := map f (bd_blocks db) @ bs, bd_revisions := bd_revisions db @ rs\<rparr>"
    and "\<And>b. b \<in> set (bd_blocks db) \<Longrightarrow> mb_id (f b) = mb_id b"
    and "distinct (map mb_id bs)" "mb_id ` set bs \<inter> mb_id ` set (bd_blocks db) = {}"
    and "\<And>r. r \<in> set rs \<Longrightarrow> revision_fits r (bd_revisions db)" "length rs \<le> 1"
  shows "tables_grow db db'"
  unfolding tables_grow_def using assms by blast

lemma fits_new_block: "block_fits b bs \<Longrightarrow> mb_id b \<notin> mb_id ` set bs"
  by (auto simp: block_fits_def list_ex_iff)

lemma append_held_SomeE:
  assumes "append_revision sha tenant now rid held i content a db = Inr (db', r)" and "held_for tenant i held"
  obtains (missing) "get_block tenant i db = None" "db' = db" "r = None"
  | (appended) row b rev' where "get_block tenant i db = Some row" "b = the_default row held" "mb_id b = i"
    "matches (ra_expected a) (Some (mb_version b))"
    "rev' = next_revision sha tenant now rid content a db b"
    "revision_fits rev' (bd_revisions db)" "r = Some rev'"
    "db' = update_block i (take_revision now b rev') (db\<lparr>bd_revisions := bd_revisions db @ [rev']\<rparr>)"
proof (cases "get_block tenant i db")
  case None
  with assms(1) have "db' = db" "r = None" by (simp_all add: append_revision_def)
  with None show thesis by (rule missing)
next
  case (Some row)
  let ?b = "the_default row held"
  have i: "mb_id ?b = i"
    using get_block_Some [OF Some] assms(2) by (cases held) (simp_all add: held_for_def)
  from assms(1) Some have m: "matches (ra_expected a) (Some (mb_version ?b))"
    and "ebind (flush_revision (next_revision sha tenant now rid content a db ?b) db) (\<lambda>(db1, r).
      Inr (update_block (mb_id ?b) (take_revision now ?b r) db1, Some r)) = Inr (db', r)"
    by (simp_all add: append_revision_def Let_def split: if_splits)
  then obtain db1 rev' where
    f: "flush_revision (next_revision sha tenant now rid content a db ?b) db = Inr (db1, rev')"
    and res: "r = Some rev'" "db' = update_block i (take_revision now ?b rev') db1"
    by (auto elim!: ebind_InrE simp: i)
  from f show thesis
    by (rule flush_revision_SomeE) (use appended [OF Some refl i m] res in auto)
qed

lemma take_revision_id [simp]: "mb_id (take_revision now s r b) = mb_id b"
  by (simp add: take_revision_def)

lemma write_column_id [simp]: "mb_id (fold write_column cs b) = mb_id b"
proof (induction cs arbitrary: b)
  case (Cons c cs)
  have "mb_id (write_column c b) = mb_id b" by (cases c) simp_all
  with Cons show ?case by simp
qed simp

lemma update_by_id_SomeE:
  assumes "update_by_id tenant now i columns db = Inr (db', n)"
  obtains "db' = db\<lparr>bd_blocks := map (\<lambda>b. if mb_id b = i \<and> mb_org b = tenant
     then (fold write_column columns b)\<lparr>mb_updated_at := now\<rparr> else b) (bd_blocks db)\<rparr>"
  using assms
  by (auto simp: update_by_id_def update_row_def split: list.splits if_splits prod.splits)

lemma update_by_id_grows:
  assumes "update_by_id tenant now i columns db = Inr (db', n)"
  shows "tables_grow db db'"
  using assms
proof (rule update_by_id_SomeE)
  let ?f = "\<lambda>b. if mb_id b = i \<and> mb_org b = tenant
     then (fold write_column columns b)\<lparr>mb_updated_at := now\<rparr> else b"
  assume "db' = db\<lparr>bd_blocks := map ?f (bd_blocks db)\<rparr>"
  then show ?thesis by (intro tables_growI [where f = ?f and bs = "[]" and rs = "[]"]) simp_all
qed

lemma create_revision_SomeE:
  assumes "create_revision tenant org number r db = Inr (db', r')"
  obtains "revision_fits r' (bd_revisions db)" "rv_org r' = tenant" "rv_block r' = rv_block r"
    "db' = db\<lparr>bd_revisions := bd_revisions db @ [r']\<rparr>"
proof -
  let ?r = "r\<lparr>rv_org := tenant,
              rv_number := the_default (next_revision_number tenant (rv_block r) db + 1) number\<rparr>"
  have "flush_revision ?r db = Inr (db', r')"
    using assms by (auto simp: create_revision_def Let_def split: if_splits option.splits)
  then show thesis by (rule flush_revision_SomeE) (use that in auto)
qed

lemma revising_step_grows:
  assumes "revising_step sha db db'"
  shows "tables_grow db db'"
  using assms
proof cases
  case (create tenant now nid d b)
  then obtain key where "block_fits b (bd_blocks db)" "db' = db\<lparr>bd_blocks := bd_blocks db @ [b]\<rparr>"
    by (rule create_block_SomeE)
  then show ?thesis
    by (intro tables_growI [where f = id and bs = "[b]" and rs = "[]"]) (auto dest: fits_new_block)
next
  case (revise_new tenant now nid rid given content a vals b' r)
  then obtain b key where "block_fits b (bd_blocks db)" "revision_fits r (bd_revisions db)" "b' = point_to now r b"
    "db' = db\<lparr>bd_blocks := bd_blocks db @ [b'], bd_revisions := bd_revisions db @ [r]\<rparr>"
    by (rule create_with_revision_SomeE)
  then show ?thesis
    by (intro tables_growI [where f = id and bs = "[b']" and rs = "[r]"]) (auto dest: fits_new_block)
next
  case (append tenant now rid held i content a r)
  from append show ?thesis
  proof (cases rule: append_held_SomeE)
    case missing
    then show ?thesis by (intro tables_growI [where f = id and bs = "[]" and rs = "[]"]) simp_all
  next
    case (appended row b rev')
    then show ?thesis
      by (intro tables_growI [where f = "\<lambda>x. if mb_id x = i then take_revision now b rev' x else x"
            and bs = "[]" and rs = "[rev']"])
        (simp_all add: update_block_def)
  qed
next
  case (update tenant now i columns n)
  from update(1) show ?thesis by (rule update_by_id_grows)
next
  case (revision tenant org number r r')
  from revision show ?thesis
    by (rule create_revision_SomeE)
      (rule tables_growI [where f = id and bs = "[]" and rs = "[r']"], auto)
qed

lemma grow_store_ok:
  assumes "tables_grow db db'" and "store_ok db"
  shows "store_ok db'"
proof -
  obtain f bs rs where g: "db' = db\<lparr>bd_blocks := map f (bd_blocks db) @ bs, bd_revisions := bd_revisions db @ rs\<rparr>"
    "\<forall>b \<in> set (bd_blocks db). mb_id (f b) = mb_id b"
    "distinct (map mb_id bs)" "mb_id ` set bs \<inter> mb_id ` set (bd_blocks db) = {}"
    "\<forall>r \<in> set rs. revision_fits r (bd_revisions db)" "length rs \<le> 1"
    using assms(1) unfolding tables_grow_def by blast
  have "map mb_id (map f (bd_blocks db)) = map mb_id (bd_blocks db)" using g(2) by simp
  then have "distinct (map mb_id (bd_blocks db'))"
    using g assms(2) by (auto simp: store_ok_def simp del: map_map)
  moreover have "rs = [] \<or> (\<exists>r. rs = [r] \<and> revision_fits r (bd_revisions db))"
    using g(5,6) by (cases rs) auto
  ultimately show ?thesis
    using assms(2) by (auto simp: g(1) store_ok_def revision_fits_def list_ex_iff)
qed

lemma step_store_ok:
  assumes "block_step sha db db'" and "store_ok db"
  shows "store_ok db'"
  using assms(1)
proof cases
  case revising
  then show ?thesis by (rule grow_store_ok [OF revising_step_grows assms(2)])
next
  case (rewrite tenant now i columns n)
  then show ?thesis by (rule grow_store_ok [OF update_by_id_grows assms(2)])
next
  case (delete tenant i n)
  with assms(2) show ?thesis
    by (auto simp: delete_block_def delete_row_def store_ok_def distinct_map_filter split: if_splits)
qed (simp_all add: update_revision_def delete_revision_def)

lemma reached_store_ok: "block_reached sha db \<Longrightarrow> store_ok db"
proof (induction rule: block_reached.induct)
  case (start db)
  then show ?case by (simp add: no_blocks_def store_ok_def)
qed (blast intro: step_store_ok)

subsection \<open>Histories\<close>

lemma insort_key_snoc: "f y \<le> f x \<Longrightarrow> insort_key f y (ys @ [x]) = insort_key f y ys @ [x]"
  by (induction ys) simp_all

lemma sort_key_snoc:
  "(\<And>y. y \<in> set xs \<Longrightarrow> f y \<le> f x) \<Longrightarrow> sort_key f (xs @ [x]) = sort_key f xs @ [x]"
  by (induction xs) (simp_all add: insort_key_snoc)

lemma next_number_ge:
  assumes "r \<in> set (block_revisions tenant i db)"
  shows "rv_number r \<le> next_revision_number tenant i db"
proof (cases "map rv_number (block_revisions tenant i db)")
  case Nil
  with assms show ?thesis by simp
next
  case (Cons n ns)
  have "rv_number r \<in> set (n # ns)" using assms by (simp flip: Cons)
  then have "rv_number r \<le> Max (set (n # ns))" by (intro Max_ge) simp_all
  then show ?thesis by (simp only: next_revision_number_def Cons list.case Max.set_eq_fold)
qed

lemma next_number_grows:
  assumes "set (block_revisions tenant i db) \<subseteq> set (block_revisions tenant i db')"
    and "r \<in> set (block_revisions tenant i db)"
  shows "rv_number r \<le> next_revision_number tenant i db'"
  using assms next_number_ge by blast

lemma numbers_increase:
  assumes "store_ok db"
  shows "sorted_wrt (<) (map rv_number (list_revisions t j db))"
proof -
  have "distinct (map rv_number (block_revisions t j db))"
    using assms by (auto simp: store_ok_def block_revisions_def distinct_map inj_on_def)
  then have "distinct (map rv_number (list_revisions t j db))"
    by (simp add: list_revisions_def distinct_map)
  then show ?thesis by (simp add: strict_sorted_iff list_revisions_def)
qed

lemma grow_revisions:
  assumes "tables_grow db db'"
  shows "set (block_revisions t j db) \<subseteq> set (block_revisions t j db') \<and>
    length (block_revisions t j db') \<le> length (block_revisions t j db) + 1"
proof -
  obtain f bs rs where "db' = db\<lparr>bd_blocks := map f (bd_blocks db) @ bs, bd_revisions := bd_revisions db @ rs\<rparr>"
    "length rs \<le> 1"
    using assms unfolding tables_grow_def by blast
  then show ?thesis by (auto simp: block_revisions_def intro: order_trans [OF length_filter_le])
qed

definition has_block :: "uuid \<Rightarrow> block_db \<Rightarrow> bool" where
  "has_block i db \<longleftrightarrow> i \<in> mb_id ` set (bd_blocks db)"

lemma step_revisions:
  assumes "block_step sha db db'" and "store_ok db"
  shows "(set (block_revisions t j db) \<subseteq> set (block_revisions t j db') \<and>
      length (block_revisions t j db') \<le> length (block_revisions t j db) + 1) \<or>
    (block_revisions t j db' = [] \<and> has_block j db \<and> \<not> has_block j db')"
  using assms(1)
proof cases
  case revising
  then show ?thesis using grow_revisions [OF revising_step_grows] by blast
next
  case (rewrite tenant now i columns n)
  then show ?thesis using grow_revisions [OF update_by_id_grows] by blast
next
  case (delete tenant i n)
  show ?thesis
  proof (cases "db' = db")
    case False
    with delete have n: "filter (\<lambda>b. mb_id b = i \<and> mb_org b = tenant) (bd_blocks db) \<noteq> []"
      and db': "db' = db\<lparr>bd_blocks := filter (\<lambda>b. \<not> (mb_id b = i \<and> mb_org b = tenant)) (bd_blocks db),
        bd_revisions := filter (\<lambda>r. rv_block r \<noteq> i) (bd_revisions db)\<rparr>"
      by (auto simp: delete_block_def delete_row_def split: if_splits)
    from n obtain b where b: "b \<in> set (bd_blocks db)" "mb_id b = i" "mb_org b = tenant"
      by (auto simp: filter_empty_conv)
    show ?thesis
    proof (cases "j = i")
      case True
      have only: "mb_org x = tenant" if "x \<in> set (bd_blocks db)" "mb_id x = i" for x
      proof -
        have "x = b" using assms(2) b that by (auto simp: store_ok_def distinct_map inj_on_def)
        with b(3) show ?thesis by simp
      qed
      have "mb_id x \<noteq> i" if "x \<in> set (bd_blocks db')" for x using that only by (auto simp: db')
      then have "\<not> has_block i db'" by (auto simp: has_block_def)
      moreover have "has_block i db" using b by (auto simp: has_block_def)
      moreover have "block_revisions t i db' = []" by (simp add: db' block_revisions_def)
      ultimately show ?thesis using True by simp
    next
      case False
      then have "block_revisions t j db' = block_revisions t j db"
        by (auto simp: db' block_revisions_def intro!: filter_cong)
      then show ?thesis by simp
    qed
  qed simp
qed (simp_all add: update_revision_def delete_revision_def)

subsection \<open>Versions only advance\<close>

lemma get_block_iff:
  assumes "store_ok db"
  shows "get_block tenant i db = Some b \<longleftrightarrow> b \<in> set (bd_blocks db) \<and> mb_id b = i \<and> mb_org b = tenant"
proof
  assume b: "b \<in> set (bd_blocks db) \<and> mb_id b = i \<and> mb_org b = tenant"
  then have "get_block tenant i db \<noteq> None"
    by (auto simp: get_block_def read_row_def find_None_iff)
  then obtain x where x: "get_block tenant i db = Some x" by blast
  with get_block_Some [OF x] b assms have "x = b" by (auto simp: store_ok_def distinct_map inj_on_def)
  with x show "get_block tenant i db = Some b" by simp
qed (rule get_block_Some)

text \<open>The block's version, and a revision of it, are past \<open>v\<close>.\<close>

definition advanced :: "uuid \<Rightarrow> uuid \<Rightarrow> int \<Rightarrow> block_db \<Rightarrow> bool" where
  "advanced tenant i v db \<longleftrightarrow>
     (\<exists>b. get_block tenant i db = Some b \<and> v < mb_version b) \<and>
     (\<exists>r \<in> set (block_revisions tenant i db). v < rv_number r)"

lemma next_revision_sel [simp]:
  "rv_org (next_revision sha tenant now rid content a db b) = tenant"
  "rv_block (next_revision sha tenant now rid content a db b) = mb_id b"
  "rv_id (next_revision sha tenant now rid content a db b) = rid"
  "rv_content (next_revision sha tenant now rid content a db b) = content"
  "rv_data (next_revision sha tenant now rid content a db b) = ra_data a"
  "rv_number (next_revision sha tenant now rid content a db b) =
     max (mb_version b) (next_revision_number tenant (mb_id b) db) + 1"
  by (simp_all add: next_revision_def revision_of_def)

text \<open>Whatever block the session held, the row and the new revision are past it and past all before.\<close>

lemma appended_row:
  assumes ok: "store_ok db" and held: "held_for tenant i held"
    and a: "append_revision sha tenant now rid held i content a db = Inr (db', Some r)"
  obtains row b' where "get_block tenant i db = Some row" "get_block tenant i db' = Some b'"
    "matches (ra_expected a) (Some (mb_version (the_default row held)))"
    "mb_version b' = rv_number r" "mb_version (the_default row held) < rv_number r"
    "next_revision_number tenant i db < rv_number r" "r \<in> set (block_revisions tenant i db')"
  using a held
proof (cases rule: append_held_SomeE)
  case (appended row b rev')
  have r: "r = rev'" using appended(7) by simp
  have num: "rv_number r = max (mb_version b) (next_revision_number tenant i db) + 1"
    by (simp add: r appended(3,5))
  let ?row = "take_revision now b rev' row"
  note row = get_block_Some [OF appended(1)]
  have ok': "store_ok db'" using grow_store_ok [OF revising_step_grows [OF append [OF a held]] ok] .
  have "?row \<in> set (bd_blocks db')" using row by (auto simp: appended(8) update_block_def)
  with row have new: "get_block tenant i db' = Some ?row"
    by (simp add: get_block_iff [OF ok'] take_revision_same)
  have "mb_version b < rv_number rev'" using num r by simp
  then have version: "mb_version ?row = rv_number r"
    by (auto simp: take_revision_def assigned_def r)
  have "r \<in> set (block_revisions tenant i db')"
    by (simp add: appended(8) r block_revisions_def update_block_def appended(3,5))
  with that [OF appended(1) new _ version] appended(2,4) num show thesis by simp
qed simp

lemma append_advances:
  assumes "store_ok db" and "held_for tenant i held"
    and "append_revision sha tenant now rid held i content a db = Inr (db', Some r)" and "ra_expected a = Some v"
  shows "advanced tenant i v db'"
  using assms(1-3)
proof (rule appended_row)
  fix row b'
  assume "matches (ra_expected a) (Some (mb_version (the_default row held)))"
    and "get_block tenant i db' = Some b'" "mb_version b' = rv_number r"
      "mb_version (the_default row held) < rv_number r" "r \<in> set (block_revisions tenant i db')"
  with assms(4) show ?thesis by (auto simp: advanced_def)
qed

lemma update_keeps_owner:
  assumes "update_by_id tenant now i columns db = Inr (db', n)" and "mb_org b = tenant"
  shows "mb_org (fold write_column columns b) = tenant"
proof -
  have "List.map_filter (column_problem tenant i db) columns = []"
  proof (rule ccontr)
    assume "List.map_filter (column_problem tenant i db) columns \<noteq> []"
    then have "sort_key problem_rank (List.map_filter (column_problem tenant i db) columns) \<noteq> []"
      by (metis set_sort set_empty)
    with assms(1) show False by (auto simp: update_by_id_def split: list.splits)
  qed
  then have "column_problem tenant i db c = None" if "c \<in> set columns" for c
    using that by (induction columns) (auto simp: map_filter_simps split: option.splits)
  then show ?thesis using assms(2)
  proof (induction columns arbitrary: b)
    case (Cons c cs)
    have "column_problem tenant i db c = None" by (rule Cons.prems(1)) simp
    then have "mb_org (write_column c b) = tenant" using Cons.prems(2) by (cases c) (auto split: if_splits)
    with Cons show ?case by simp
  qed simp
qed

lemma update_keeps_version:
  "\<forall>v. VersionColumn v \<notin> set columns \<Longrightarrow> mb_version (fold write_column columns b) = mb_version b"
proof (induction columns arbitrary: b)
  case (Cons c cs)
  then have "mb_version (write_column c b) = mb_version b" by (cases c) auto
  with Cons show ?case by simp
qed simp

lemma step_advanced:
  assumes "revising_step sha db db'" and ok: "store_ok db" and adv: "advanced tenant i v db"
  shows "advanced tenant i v db'"
proof -
  obtain b r where b: "get_block tenant i db = Some b" "v < mb_version b"
    and r: "r \<in> set (block_revisions tenant i db)" "v < rv_number r"
    using adv by (auto simp: advanced_def)
  note row = get_block_Some [OF b(1)]
  have ok': "store_ok db'" using grow_store_ok [OF revising_step_grows [OF assms(1)] ok] .
  have r': "r \<in> set (block_revisions tenant i db')"
    using grow_revisions [OF revising_step_grows [OF assms(1)]] r(1) by blast
  have there: "advanced tenant i v db'" if "b' \<in> set (bd_blocks db')" "mb_id b' = i" "mb_org b' = tenant"
    "v < mb_version b'" for b'
    using that r' r(2) by (auto simp: advanced_def get_block_iff [OF ok'])
  from assms(1) show ?thesis
  proof cases
    case (create t now nid d x)
    from create(1) obtain key where "db' = db\<lparr>bd_blocks := bd_blocks db @ [x]\<rparr>" by (rule create_block_SomeE)
    with row b(2) show ?thesis by (intro there [of b]) simp_all
  next
    case (revise_new t now nid rid given content a vals x r)
    from revise_new obtain y where "db' = db\<lparr>bd_blocks := bd_blocks db @ [x], bd_revisions := bd_revisions db @ [r]\<rparr>"
      by (rule create_with_revision_SomeE)
    with row b(2) show ?thesis by (intro there [of b]) simp_all
  next
    case (append t now rid held j content a x)
    from append show ?thesis
    proof (cases rule: append_held_SomeE)
      case missing
      with adv show ?thesis by simp
    next
      case (appended row' h rev')
      let ?b = "if mb_id b = j then take_revision now h rev' b else b"
      have "v < mb_version ?b"
      proof (cases "j = i")
        case True
        have "row' = b" using ok row get_block_Some [OF appended(1)] True
          by (auto simp: store_ok_def distinct_map inj_on_def)
        then have "t = tenant" using row get_block_Some [OF appended(1)] by simp
        have "v < rv_number rev'"
          using next_number_ge [OF r(1)] r(2) by (simp add: appended(3,5) True \<open>t = tenant\<close>)
        moreover have "mb_version h \<noteq> rv_number rev'" by (simp add: appended(5))
        ultimately show ?thesis using row True by (simp add: take_revision_def assigned_def)
      qed (use row b(2) in simp)
      moreover have "?b \<in> set (bd_blocks db')" using row by (auto simp: appended(8) update_block_def)
      ultimately show ?thesis using row by (intro there [of ?b]) (auto simp: take_revision_same)
    qed
  next
    case (update t now j columns n)
    let ?f = "\<lambda>b. if mb_id b = j \<and> mb_org b = t
     then (fold write_column columns b)\<lparr>mb_updated_at := now\<rparr> else b"
    have "db' = db\<lparr>bd_blocks := map ?f (bd_blocks db)\<rparr>"
      using update(1) by (rule update_by_id_SomeE)
    then have "?f b \<in> set (bd_blocks db')" using row by auto
    moreover have "mb_org (?f b) = tenant"
      using row update_keeps_owner [OF update(1), of b] by auto
    moreover have "mb_version (?f b) = mb_version b" using update_keeps_version [OF update(2)] by auto
    moreover have "mb_id (?f b) = i" using row by auto
    ultimately show ?thesis using b(2) by (intro there [of "?f b"]) simp_all
  next
    case (revision t org number x y)
    then have "bd_blocks db' = bd_blocks db" by (rule create_revision_SomeE) simp
    with row b(2) show ?thesis by (intro there [of b]) simp_all
  qed
qed

lemma steps_advanced:
  assumes "rtranclp (revising_step sha) db db'" and "store_ok db" and "advanced tenant i v db"
  shows "advanced tenant i v db' \<and> store_ok db'"
  using assms
proof (induction rule: rtranclp_induct)
  case (step y z)
  then show ?case using step_advanced grow_store_ok [OF revising_step_grows] by blast
qed simp

end
