(* ===== verification/Block_Claims.thy ===== *)
theory Block_Claims
  imports Block_Steps
begin

section \<open>Blocks: claims\<close>

text \<open>
  Revisions are immutable and an append adds to the end of one history whatever is done, the
  expected version prevents lost updates when the block is read afresh; under the discipline of
  \<open>Block_History\<close> the histories are consistent; and where the repository falls short of that.
\<close>

subsection \<open>The current revision\<close>

definition last_of :: "'a list \<Rightarrow> 'a option" where
  "last_of xs = (case rev xs of [] \<Rightarrow> None | x # _ \<Rightarrow> Some x)"

lemma last_of_snoc [simp]: "last_of (xs @ [x]) = Some x"
  by (simp add: last_of_def)

lemma last_of_mem: "last_of xs = Some x \<Longrightarrow> x \<in> set xs"
  by (cases xs rule: rev_cases) (simp_all add: last_of_def)

lemma holds_last_current: "holds_last rs b \<Longrightarrow> mb_current b = map_option rv_id (last_of rs)"
  by (auto simp: holds_last_def last_of_def split: list.splits)

lemma one_or_none_cong:
  "(\<And>r. r \<in> set rs \<Longrightarrow> P r = Q r) \<Longrightarrow> one_or_none e P rs = one_or_none e Q rs"
  by (simp add: one_or_none_def cong: filter_cong)

lemma current_is_last:
  assumes ok: "history_ok db" and b: "b \<in> set (bd_blocks db)"
  shows "get_current_revision (mb_org b) (mb_id b) db = Inr (last_of (list_revisions (mb_org b) (mb_id b) db))"
proof -
  let ?rs = "revisions_of (mb_id b) db"
  have list: "list_revisions (mb_org b) (mb_id b) db = ?rs" by (rule list_revisions_in_order [OF ok b])
  have current: "mb_current b = map_option rv_id (last_of ?rs)"
    using ok_block [OF ok b] by (simp add: block_ok_def holds_last_current)
  have get: "get_block (mb_org b) (mb_id b) db = Some b" by (rule get_block_mem [OF ok b])
  have ids: "distinct (map rv_id (bd_revisions db))" using ok by (simp add: history_ok_def)
  show ?thesis
  proof (cases "last_of ?rs")
    case None
    then have "one_or_none ManyRows (\<lambda>r. mb_current b = Some (rv_id r) \<and> rv_org r = mb_org b) (bd_revisions db) = Inr None"
      by (simp add: one_or_none_None current)
    with None get list show ?thesis by (simp add: get_current_revision_def last_of_def)
  next
    case (Some r)
    then have r: "r \<in> set (bd_revisions db)" "rv_block r = mb_id b"
      by (auto simp: revisions_of_def dest!: last_of_mem)
    then have org: "rv_org r = mb_org b" by (rule owned_org [OF ok b])
    have one: "one_or_none ManyRows (\<lambda>x. rv_id x = rv_id r \<and> rv_org x = mb_org b) (bd_revisions db) = Inr (Some r)"
      using one_or_none_key [OF ids, of ManyRows "rv_id r" "\<lambda>x. rv_org x = mb_org b"] tget_mem [OF ids r(1)] org
      by simp
    have "one_or_none ManyRows (\<lambda>x. mb_current b = Some (rv_id x) \<and> rv_org x = mb_org b) (bd_revisions db) =
        one_or_none ManyRows (\<lambda>x. rv_id x = rv_id r \<and> rv_org x = mb_org b) (bd_revisions db)"
      by (rule one_or_none_cong) (auto simp: current Some)
    also note one
    finally have "one_or_none ManyRows (\<lambda>x. mb_current b = Some (rv_id x) \<and> rv_org x = mb_org b) (bd_revisions db) =
        Inr (Some r)" .
    with get list Some show ?thesis by (simp add: get_current_revision_def)
  qed
qed

text \<open>
  In every state reached by creating blocks, appending to freshly read ones and changing their
  status, the revisions of a block are numbered from one to the block's version without gaps, each
  supersedes the one before it, the current revision is the last one, and the block holds its
  content, data and hash.
\<close>

theorem block_history_is_consistent:
  assumes "fresh_reached sha db" and "b \<in> set (bd_blocks db)"
  shows "map rv_number (list_revisions (mb_org b) (mb_id b) db) = [1..mb_version b] \<and>
     chained (list_revisions (mb_org b) (mb_id b) db) \<and>
     get_current_revision (mb_org b) (mb_id b) db = Inr (last_of (list_revisions (mb_org b) (mb_id b) db)) \<and>
     (case last_of (list_revisions (mb_org b) (mb_id b) db) of
        None \<Rightarrow> mb_current b = None
      | Some r \<Rightarrow> mb_current b = Some (rv_id r) \<and> mb_content b = Some (rv_content r)
          \<and> mb_data b = rv_data r \<and> mb_hash b = Some (rv_hash r))"
proof -
  have ok: "history_ok db" using assms(1) by (rule reached_history)
  from ok_block [OF ok assms(2)] have "block_ok (list_revisions (mb_org b) (mb_id b) db) b"
    by (simp add: list_revisions_in_order [OF ok assms(2)])
  then show ?thesis
    by (auto simp: current_is_last [OF ok assms(2)] block_ok_def holds_last_def last_of_def split: list.splits)
qed

subsection \<open>Append only\<close>

text \<open>What a caller sees of the store: the contents of every block, oldest first.\<close>

definition histories :: "uuid \<Rightarrow> block_db \<Rightarrow> uuid \<Rightarrow> (string \<times> dict option) list" where
  "histories tenant db i = map (\<lambda>r. (rv_content r, rv_data r)) (list_revisions tenant i db)"

lemma append_histories:
  assumes ok: "store_ok db" and held: "held_for tenant i held"
    and a: "append_revision sha tenant now rid held i content a db = Inr (db', Some r)"
  shows "list_revisions t j db' = list_revisions t j db @ (if t = tenant \<and> j = i then [r] else []) \<and>
    rv_content r = content \<and> rv_data r = ra_data a \<and> rv_id r = rid \<and> rv_org r = tenant"
  using a held
proof (cases rule: append_held_SomeE)
  case (appended row b rev')
  have r: "r = rev'" using appended(7) by simp
  have fields: "rv_block r = i" "rv_org r = tenant" "rv_content r = content" "rv_data r = ra_data a" "rv_id r = rid"
    by (simp_all add: r appended(3,5))
  have revs: "block_revisions t j db' = block_revisions t j db @ (if t = tenant \<and> j = i then [r] else [])"
    by (auto simp: appended(8) block_revisions_def update_block_def fields r [symmetric])
  have "rv_number x \<le> rv_number r" if "x \<in> set (block_revisions tenant i db)" for x
    using next_number_ge [OF that] by (simp add: r appended(3,5))
  then have "list_revisions t j db' = list_revisions t j db @ (if t = tenant \<and> j = i then [r] else [])"
    by (simp add: list_revisions_def revs sort_key_snoc)
  with fields show ?thesis by simp
qed simp

lemma current_of_pointer:
  assumes ok: "store_ok db" and b: "get_block tenant i db = Some b" "mb_current b = Some (rv_id r)"
    and r: "r \<in> set (block_revisions tenant i db)"
  shows "get_current_revision tenant i db = Inr (Some r)"
proof -
  have ids: "distinct (map rv_id (bd_revisions db))" using ok by (simp add: store_ok_def)
  have r': "r \<in> set (bd_revisions db)" "rv_org r = tenant" using r by (auto simp: block_revisions_def)
  have "one_or_none ManyRows (\<lambda>x. rv_id x = rv_id r \<and> rv_org x = tenant) (bd_revisions db) = Inr (Some r)"
    using one_or_none_key [OF ids, of ManyRows "rv_id r" "\<lambda>x. rv_org x = tenant"] tget_mem [OF ids r'(1)] r'(2)
    by simp
  then have "one_or_none ManyRows (\<lambda>x. mb_current b = Some (rv_id x) \<and> rv_org x = tenant) (bd_revisions db) = Inr (Some r)"
    by (simp add: b(2) eq_commute [of "rv_id r"])
  then show ?thesis by (simp add: get_current_revision_def b(1))
qed

text \<open>
  Claim C13.  Refinement: a store of blocks is a map from block ids to lists of contents; appending a
  revision to a freshly read block, in any state the repositories reach, adds its content to the
  end of one list, the new revision becomes the current one, and no other history of any tenant
  changes, so nothing that was recorded is ever lost.
\<close>

theorem append_refines_history:
  assumes "block_reached sha db"
    and "append_revision sha tenant now rid None i content a db = Inr (db', Some r)"
  shows "histories tenant db' = (histories tenant db)(i := histories tenant db i @ [(content, ra_data a)]) \<and>
     (\<forall>t. t \<noteq> tenant \<longrightarrow> histories t db' = histories t db) \<and>
     get_current_revision tenant i db' = Inr (Some r)"
proof -
  have ok: "store_ok db" using assms(1) by (rule reached_store_ok)
  have held: "held_for tenant i None" by (simp add: held_for_def)
  have ok': "store_ok db'"
    using grow_store_ok [OF revising_step_grows [OF revising_step.append [OF assms(2) held]] ok] .
  note lists = append_histories [OF ok held assms(2)]
  from ok held assms(2) obtain row b' where b': "get_block tenant i db' = Some b'"
    and r: "r \<in> set (block_revisions tenant i db')"
    by (rule appended_row)
  have "mb_current b' = Some (rv_id r)"
    using assms(2)
  proof (cases rule: append_revision_SomeE)
    case (appended b rev')
    have "take_revision now b rev' b \<in> set (bd_blocks db')"
      using get_block_Some [OF appended(1)] by (auto simp: appended(6) update_block_def)
    then have "get_block tenant i db' = Some (take_revision now b rev' b)"
      using get_block_Some [OF appended(1)] by (simp add: get_block_iff [OF ok'] take_revision_same)
    with b' appended(5) show ?thesis by (auto simp: take_revision_def)
  qed simp
  from current_of_pointer [OF ok' b' this r] show ?thesis
    using lists by (auto simp: histories_def fun_eq_iff)
qed


subsection \<open>Lost updates\<close>

text \<open>
  Claim C14.  No lost update: once a revision was appended against an expected version, a writer that
  expects the same version and reads the block afresh (its session does not hold it yet) is
  refused, whatever either repository did in between: creations, further appends, on stale blocks
  too, status and content updates, revisions written directly; only a direct write of the version
  column and a deletion, which take the version back, are left out.
\<close>

theorem expected_version_prevents_lost_update:
  assumes "block_reached sha db"
    and "append_revision sha tenant now rid held i content a db = Inr (db', Some r)" and "held_for tenant i held"
    and "rtranclp (revising_step sha) db' db''"
    and "ra_expected a = Some v" and "ra_expected a' = Some v"
  shows "append_revision sha tenant now' rid' None i content' a' db'' = Inl VersionConflict"
proof -
  have ok: "store_ok db" using assms(1) by (rule reached_store_ok)
  have "advanced tenant i v db'" by (rule append_advances [OF ok assms(3,2,5)])
  moreover have "store_ok db'"
    using grow_store_ok [OF revising_step_grows [OF revising_step.append [OF assms(2,3)]] ok] .
  ultimately have "advanced tenant i v db''" using steps_advanced [OF assms(4)] by blast
  then obtain b where "get_block tenant i db'' = Some b" "v < mb_version b" by (auto simp: advanced_def)
  with assms(6) show ?thesis by (simp add: append_revision_def)
qed

subsection \<open>A small store\<close>

definition no_scope :: scope where
  "no_scope = \<lparr>sc_account = None, sc_memory_user = None, sc_user = None, sc_agent = None, sc_project = None,
     sc_session = None\<rparr>"

definition demo_args :: "uuid option \<Rightarrow> int option \<Rightarrow> revision_args" where
  "demo_args creator expected =
     \<lparr>ra_data = None, ra_model = None, ra_authority = ''user'', ra_origin = ''chat'', ra_created_by = creator,
      ra_expected = expected\<rparr>"

definition demo_block :: block where
  "demo_block =
     \<lparr>mb_id = 50, mb_org = 3, mb_scope = no_scope, mb_key = ''k'', mb_type = ''memory'', mb_name = None,
      mb_content = None, mb_data = None, mb_hash = None, mb_current = None, mb_version = 0,
      mb_status = ''active'', mb_model = None, mb_authority = ''unknown'', mb_origin = ''unknown'',
      mb_valid_from = 10, mb_valid_to = None, mb_metadata = None, mb_created_at = 10, mb_updated_at = 10\<rparr>"

definition demo_draft :: draft where
  "demo_draft =
     \<lparr>dr_id = Some 50, dr_org = Some 3, dr_scope = no_scope, dr_key = Some ''k'', dr_type = None, dr_name = None,
      dr_content = None, dr_data = None, dr_hash = None, dr_current = None, dr_version = None,
      dr_status = None, dr_model = None, dr_authority = None, dr_origin = None, dr_valid_from = None,
      dr_valid_to = None, dr_metadata = None\<rparr>"

definition empty_blocks :: block_db where
  "empty_blocks = \<lparr>bd_blocks = [], bd_revisions = [], bd_dir = \<lparr>dir_parents = [], dir_members = []\<rparr>\<rparr>"

definition block_demo :: block_db where
  "block_demo = empty_blocks\<lparr>bd_blocks := [demo_block]\<rparr>"

lemma demo_created: "create_block 3 10 50 demo_draft empty_blocks = Inr (block_demo, demo_block)"
  by (simp add: create_block_def check_scope_def validate_scope_def scope_parents_def parent_ok_def
      demo_draft_def empty_blocks_def block_demo_def flush_block_def block_row_def block_fits_def
      range_ok_def no_scope_def demo_block_def Let_def)

lemma block_demo_reached: "fresh_reached sha block_demo" "block_reached sha block_demo"
proof -
  show "fresh_reached sha block_demo"
  proof (rule fresh_reached.step)
    show "fresh_reached sha empty_blocks" by (rule fresh_reached.start) (simp add: no_blocks_def empty_blocks_def)
    show "fresh_step sha empty_blocks block_demo"
      by (rule fresh_step.create [OF demo_created]) (simp_all add: demo_draft_def)
  qed
  show "block_reached sha block_demo"
  proof (rule block_reached.step)
    show "block_reached sha empty_blocks" by (rule block_reached.start) (simp add: no_blocks_def empty_blocks_def)
    show "block_step sha empty_blocks block_demo"
      by (rule block_step.revising, rule revising_step.create [OF demo_created])
  qed
qed

text \<open>The revision a call writes over the block and the store it leaves.\<close>

definition demo_revision :: "uuid \<Rightarrow> string \<Rightarrow> int \<Rightarrow> uuid option \<Rightarrow> uuid option \<Rightarrow> revision" where
  "demo_revision rid content number previous creator =
     revision_of (\<lambda>s. s) 3 20 rid demo_block number content None previous (demo_args creator None)"

definition demo_next :: "uuid \<Rightarrow> string \<Rightarrow> uuid option \<Rightarrow> block_db" where
  "demo_next rid content creator =
     update_block 50 (take_revision 20 demo_block (demo_revision rid content 1 None creator))
       (block_demo\<lparr>bd_revisions := [demo_revision rid content 1 None creator]\<rparr>)"

lemma get_demo: "get_block 3 50 block_demo = Some demo_block"
  by (simp add: get_block_def read_row_def block_demo_def demo_block_def)

lemma demo_first:
  "next_revision (\<lambda>s. s) 3 20 rid content (demo_args creator expected) block_demo demo_block =
     demo_revision rid content 1 None creator"
  by (simp add: demo_revision_def next_revision_def revision_of_def next_revision_number_def
      block_revisions_def block_demo_def empty_blocks_def demo_block_def demo_args_def)

lemma demo_appended:
  assumes "expected = None \<or> expected = Some 0"
  shows "append_revision (\<lambda>s. s) 3 20 rid None 50 content (demo_args creator expected) block_demo =
     Inr (demo_next rid content creator, Some (demo_revision rid content 1 None creator))"
proof -
  have "revision_fits (demo_revision rid content 1 None creator) (bd_revisions block_demo)"
    by (simp add: revision_fits_def range_ok_def demo_revision_def revision_of_def block_demo_def empty_blocks_def)
  moreover have "bd_revisions block_demo = []" by (simp add: block_demo_def empty_blocks_def)
  moreover have "matches (ra_expected (demo_args creator expected)) (Some (mb_version demo_block))"
    using assms by (auto simp: demo_args_def demo_block_def)
  moreover have "mb_id demo_block = 50" by (simp add: demo_block_def)
  ultimately show ?thesis
    by (simp add: append_revision_def get_demo demo_first flush_revision_def demo_next_def)
qed

lemma demo_next_reached:
  "fresh_reached (\<lambda>s. s) (demo_next rid content c)" "block_reached (\<lambda>s. s) (demo_next rid content c)"
proof -
  note a = demo_appended [OF disjI1 [OF refl], of rid content c]
  show "fresh_reached (\<lambda>s. s) (demo_next rid content c)"
    using block_demo_reached(1) fresh_step.append [OF a] by (rule fresh_reached.step)
  show "block_reached (\<lambda>s. s) (demo_next rid content c)"
    by (rule block_reached.step [OF block_demo_reached(2)], rule block_step.revising,
        rule revising_step.append [OF a]) (simp add: held_for_def)
qed

text \<open>The block after its first revision, and a content update past the revisions.\<close>

definition demo_revised :: block where
  "demo_revised = take_revision 20 demo_block (demo_revision 60 ''a'' 1 None None) demo_block"

lemma demo_next_tables:
  "bd_blocks (demo_next 60 ''a'' None) = [demo_revised]"
  "bd_revisions (demo_next 60 ''a'' None) = [demo_revision 60 ''a'' 1 None None]"
  by (simp_all add: demo_next_def update_block_def demo_revised_def block_demo_def demo_block_def)

lemma demo_revised_fields:
  "mb_id demo_revised = 50" "mb_org demo_revised = 3" "mb_version demo_revised = 1"
  "mb_valid_to demo_revised = None"
  by (simp_all add: demo_revised_def take_revision_def demo_block_def demo_revision_def revision_of_def
      assigned_def)


definition demo_between :: block_db where
  "demo_between = (demo_next 60 ''a'' None)
     \<lparr>bd_blocks := [demo_revised\<lparr>mb_content := Some ''x'', mb_updated_at := 25\<rparr>]\<rparr>"

lemma demo_update:
  "update_by_id 3 25 50 [ContentColumn (Some ''x'')] (demo_next 60 ''a'' None) = Inr (demo_between, 1)"
  by (simp add: update_by_id_def map_filter_simps update_row_def demo_next_tables demo_revised_fields
      blocks_fit_def range_ok_def demo_between_def)

theorem block_history_is_consistent_witness:
  "map rv_number (list_revisions 3 50 (demo_next 60 ''a'' None)) = [1..1]"
  using block_history_is_consistent [OF demo_next_reached(1) [of 60 "''a''" None], of demo_revised]
  by (simp add: demo_next_tables demo_revised_fields)

theorem append_refines_history_witness:
  "histories 3 (demo_next 60 ''a'' None) 50 = histories 3 block_demo 50 @ [(''a'', None)]"
  using append_refines_history [OF block_demo_reached(2) demo_appended [OF disjI1 [OF refl]], of 60 "''a''" None]
  by (simp add: demo_args_def)


theorem expected_version_prevents_lost_update_witness:
  "update_by_id 3 25 50 [ContentColumn (Some ''x'')] (demo_next 60 ''a'' None) = Inr (demo_between, 1) \<and>
   append_revision (\<lambda>s. s) 3 30 70 None 50 ''b'' (demo_args None (Some 0)) demo_between = Inl VersionConflict"
proof -
  have "revising_step (\<lambda>s. s) (demo_next 60 ''a'' None) demo_between"
    by (rule revising_step.update [OF demo_update]) simp
  then have steps: "rtranclp (revising_step (\<lambda>s. s)) (demo_next 60 ''a'' None) demo_between" by (rule r_into_rtranclp)
  show ?thesis
    using demo_update expected_version_prevents_lost_update
      [OF block_demo_reached(2) demo_appended [OF disjI2 [OF refl]] _ steps, of 0 "demo_args None (Some 0)"]
    by (simp add: demo_args_def held_for_def)
qed

subsection \<open>Divergences\<close>

lemma get_demo_next:
  "get_block 3 50 (demo_next rid content c) =
     Some (take_revision 20 demo_block (demo_revision rid content 1 None c) demo_block)"
  by (simp add: get_block_def read_row_def demo_next_def update_block_def block_demo_def demo_block_def
      take_revision_def)

text \<open>
  A session that has loaded the block before does not see what others committed since: the locking
  select returns the object it holds.  Two writers that expect version zero both succeed, and both
  revisions supersede nothing.
\<close>

theorem held_block_defeats_expected_version:
  "\<exists>db r. append_revision (\<lambda>s. s) 3 30 70 (Some demo_block) 50 ''b'' (demo_args None (Some 0))
       (demo_next 60 ''a'' None) = Inr (db, Some r) \<and>
     rv_number r = 2 \<and> rv_supersedes r = None"
proof -
  let ?r = "next_revision (\<lambda>s. s) 3 30 70 ''b'' (demo_args None (Some 0)) (demo_next 60 ''a'' None) demo_block"
  have r: "rv_number ?r = 2" "rv_supersedes ?r = None"
    and fits: "revision_fits ?r (bd_revisions (demo_next 60 ''a'' None))"
    by (simp_all add: next_revision_def revision_of_def next_revision_number_def block_revisions_def
        revision_fits_def range_ok_def demo_args_def demo_block_def demo_next_def demo_revision_def
        update_block_def)
  have "mb_version demo_block = 0" "ra_expected (demo_args None (Some 0)) = Some 0"
    by (simp_all add: demo_block_def demo_args_def)
  with r fits show ?thesis by (simp add: append_revision_def get_demo_next flush_revision_def)
qed

text \<open>
  Appending does not check who the revision is attributed to: an account that is no member of the
  tenant is accepted, while the revision repository refuses it.
\<close>

theorem appended_creator_is_not_checked:
  "append_revision (\<lambda>s. s) 3 20 60 None 50 ''a'' (demo_args (Some 99) None) block_demo =
     Inr (demo_next 60 ''a'' (Some 99), Some (demo_revision 60 ''a'' 1 None (Some 99))) \<and>
   create_revision 3 None None (demo_revision 60 ''a'' 1 None (Some 99)) block_demo = Inl CreatorOutside"
proof
  show "create_revision 3 None None (demo_revision 60 ''a'' 1 None (Some 99)) block_demo = Inl CreatorOutside"
    by (simp add: create_revision_def check_scope_def validate_scope_def scope_parents_def
        parent_ok_def account_in_tenant_def demo_revision_def revision_of_def demo_args_def block_demo_def
        demo_block_def empty_blocks_def no_scope_def)
qed (simp only: demo_appended simp_thms)

text \<open>
  \<open>update_by_id\<close> writes a content that no revision records and leaves the old hash.
\<close>

theorem content_changes_without_revision:
  "update_by_id 3 40 50 [ContentColumn (Some ''x'')] block_demo =
     Inr (block_demo\<lparr>bd_blocks := [demo_block\<lparr>mb_content := Some ''x'', mb_updated_at := 40\<rparr>]\<rparr>, 1)"
  by (simp add: update_by_id_def map_filter_simps update_row_def block_demo_def demo_block_def range_ok_def blocks_fit_def)

text \<open>
  The base repository's own \<open>update_by_id\<close> writes any tenant id it is given: the tenant's row becomes a
  row of another tenant.  The block repository refuses that value.
\<close>

theorem base_update_moves_rows_between_tenants:
  "scope_select mb_org 4 (fst (update_row mb_org mb_id 3 50 (write_column (OrgColumn 4)) [demo_block])) =
     [demo_block\<lparr>mb_org := 4\<rparr>] \<and>
   update_by_id 3 40 50 [OrgColumn 4] block_demo = Inl (Scope OtherTenant)"
  by (simp add: scope_select_def update_row_def demo_block_def update_by_id_def map_filter_simps)

end
