(* ===== verification/Fact_Store.thy ===== *)
theory Fact_Store
  imports Tenant_Scope Py_Value
begin

section \<open>The bitemporal fact store\<close>

text \<open>
  \<open>contexta/repositories/fact_repo.py\<close> over the table of \<open>models/fact.py\<close>: a fact is valid from an
  instant until it is superseded, and known from another.  \<open>now\<close> is the clock's reading at a call
  and \<open>new_id\<close> the UUID its flush draws; timestamps are instants of the UTC time line.  The order in
  which a query returns rows that agree on every column it sorts by is the parameter \<open>tie\<close>.
  An operation that may raise after it has written returns the store together with its outcome.
\<close>

subsection \<open>Rows\<close>

datatype fact_error =
    FactScope scope_error | FactKeyRequired | TripleRequired | ConfidenceRange | ImportanceRange
  | InvertedRange | IdentityImmutable | FactKeyImmutable | SelfSuperseded | NotActive
  | ReplacementOutside | ReplacementKey | FactOutside | ActiveFact | FactIntegrity

record mem_fact =
  mf_id :: uuid
  mf_org :: uuid
  mf_scope :: scope
  mf_episode :: "uuid option"
  mf_subject :: string
  mf_predicate :: string
  mf_object :: string
  mf_value :: py
  mf_type :: string
  mf_key :: string
  mf_valid_from :: instant
  mf_valid_to :: "instant option"
  mf_known_at :: instant
  mf_authority :: string
  mf_origin :: string
  mf_model :: "string option"
  mf_source :: "string option"
  mf_message :: "string option"
  mf_lineage :: "string option"
  mf_superseded_by :: "uuid option"
  mf_confidence :: rat
  mf_importance :: rat
  mf_status :: string
  mf_metadata :: "(string \<times> py) list option"
  mf_created_at :: instant

record fact_db =
  fd_facts :: "mem_fact list"
  fd_dir :: directory

text \<open>The keyword arguments of \<open>create_fact\<close>.\<close>

record fact_args =
  fa_scope :: scope
  fa_episode :: "uuid option"
  fa_key :: string
  fa_subject :: string
  fa_predicate :: string
  fa_object :: string
  fa_value :: py
  fa_type :: string
  fa_valid_from :: "instant option"
  fa_valid_to :: "instant option"
  fa_known_at :: "instant option"
  fa_authority :: string
  fa_origin :: string
  fa_model :: "string option"
  fa_source :: "string option"
  fa_message :: "string option"
  fa_lineage :: "string option"
  fa_confidence :: pfloat
  fa_importance :: pfloat
  fa_status :: string
  fa_metadata :: "(string \<times> py) list option"

text \<open>\<open>0.0 <= x <= 1.0\<close>; no comparison with a NaN holds.\<close>

fun unit_value :: "pfloat \<Rightarrow> rat option" where
  "unit_value (Finite r) = (if 0 \<le> r \<and> r \<le> 1 then Some r else None)"
| "unit_value _ = None"

subsection \<open>Reads\<close>

definition get_fact :: "uuid \<Rightarrow> uuid \<Rightarrow> fact_db \<Rightarrow> mem_fact option" where
  "get_fact tenant i d = read_row mf_org mf_id tenant i (fd_facts d)"

definition open_at :: "instant option \<Rightarrow> instant \<Rightarrow> bool" where
  "open_at ending t = (case ending of None \<Rightarrow> True | Some e \<Rightarrow> t < e)"

text \<open>The window of a query: as of an instant, or the facts that are current.\<close>

definition started_by :: "instant \<Rightarrow> mem_fact \<Rightarrow> bool" where
  "started_by t r \<longleftrightarrow> mf_valid_from r \<le> t \<and> mf_known_at r \<le> t"

definition valid_as_of :: "instant \<Rightarrow> mem_fact \<Rightarrow> bool" where
  "valid_as_of t r \<longleftrightarrow> started_by t r \<and> open_at (mf_valid_to r) t"

definition current_fact :: "mem_fact \<Rightarrow> bool" where
  "current_fact r \<longleftrightarrow> mf_valid_to r = None \<and> mf_status r = ''active''"

definition in_window :: "instant option \<Rightarrow> bool \<Rightarrow> mem_fact \<Rightarrow> bool" where
  "in_window as_of include_invalid r =
     (case as_of of
        Some t \<Rightarrow> (if include_invalid then started_by t r else valid_as_of t r)
      | None \<Rightarrow> include_invalid \<or> current_fact r)"

definition of_user :: "uuid option \<Rightarrow> mem_fact \<Rightarrow> bool" where
  "of_user user r = (case user of None \<Rightarrow> True | Some u \<Rightarrow> sc_user (mf_scope r) = Some u)"

definition newest_known :: "(mem_fact list \<Rightarrow> mem_fact list) \<Rightarrow> mem_fact list \<Rightarrow> mem_fact list" where
  "newest_known tie rows = sort_key (\<lambda>r. - mf_known_at r) (sort_key (\<lambda>r. - mf_created_at r) (tie rows))"

definition get_by_fact_key ::
  "(mem_fact list \<Rightarrow> mem_fact list) \<Rightarrow> uuid \<Rightarrow> string \<Rightarrow> uuid option \<Rightarrow> instant option \<Rightarrow> bool \<Rightarrow>
   fact_db \<Rightarrow> mem_fact option" where
  "get_by_fact_key tie tenant key user as_of include_invalid d =
     (case newest_known tie (filter (\<lambda>r. mf_key r = strip key \<and> of_user user r \<and>
             in_window as_of include_invalid r \<and> mf_org r = tenant) (fd_facts d)) of
        [] \<Rightarrow> None | r # _ \<Rightarrow> Some r)"

definition get_current ::
  "(mem_fact list \<Rightarrow> mem_fact list) \<Rightarrow> uuid \<Rightarrow> uuid \<Rightarrow> instant option \<Rightarrow> nat \<Rightarrow> nat \<Rightarrow> fact_db \<Rightarrow>
   mem_fact list" where
  "get_current tie tenant user as_of limit offset d =
     page offset limit (newest_known tie (filter (\<lambda>r. of_user (Some user) r \<and> in_window as_of False r
       \<and> mf_org r = tenant) (fd_facts d)))"

definition list_for_subject ::
  "(mem_fact list \<Rightarrow> mem_fact list) \<Rightarrow> uuid \<Rightarrow> string \<Rightarrow> uuid option \<Rightarrow> fact_db \<Rightarrow> mem_fact list" where
  "list_for_subject tie tenant subject user d =
     sort_key (\<lambda>r. - mf_created_at r)
       (tie (filter (\<lambda>r. mf_subject r = subject \<and> of_user user r \<and> mf_org r = tenant) (fd_facts d)))"

definition list_for_predicate ::
  "(mem_fact list \<Rightarrow> mem_fact list) \<Rightarrow> uuid \<Rightarrow> string \<Rightarrow> uuid option \<Rightarrow> fact_db \<Rightarrow> mem_fact list" where
  "list_for_predicate tie tenant predicate user d =
     sort_key (\<lambda>r. - mf_created_at r)
       (tie (filter (\<lambda>r. mf_predicate r = predicate \<and> of_user user r \<and> mf_org r = tenant) (fd_facts d)))"

subsection \<open>Creating facts\<close>

definition ends_after :: "instant \<Rightarrow> instant option \<Rightarrow> bool" where
  "ends_after start ending = (case ending of None \<Rightarrow> True | Some t \<Rightarrow> start \<le> t)"

text \<open>The table's constraints: the primary key, the valid range and the two unit ranges.\<close>

definition fact_fits :: "mem_fact \<Rightarrow> bool" where
  "fact_fits r \<longleftrightarrow> ends_after (mf_valid_from r) (mf_valid_to r)
     \<and> 0 \<le> mf_confidence r \<and> mf_confidence r \<le> 1 \<and> 0 \<le> mf_importance r \<and> mf_importance r \<le> 1"

definition insert_fact :: "uuid \<Rightarrow> mem_fact \<Rightarrow> fact_db \<Rightarrow> fact_error + (fact_db \<times> mem_fact)" where
  "insert_fact tenant r d =
     (case validate_scope (fd_dir d) tenant (Some (mf_org r)) (mf_scope r) (mf_episode r) of
        Some e \<Rightarrow> Inl (FactScope e)
      | None \<Rightarrow>
          if fact_fits r \<and> mf_id r \<notin> mf_id ` set (fd_facts d)
          then Inr (d\<lparr>fd_facts := fd_facts d @ [r]\<rparr>, r) else Inl FactIntegrity)"

definition fact_of_args :: "uuid \<Rightarrow> instant \<Rightarrow> uuid \<Rightarrow> fact_args \<Rightarrow> rat \<Rightarrow> rat \<Rightarrow> mem_fact" where
  "fact_of_args tenant now new_id a confidence importance =
     \<lparr>mf_id = new_id, mf_org = tenant, mf_scope = fa_scope a, mf_episode = fa_episode a,
      mf_subject = strip (fa_subject a), mf_predicate = strip (fa_predicate a),
      mf_object = strip (fa_object a), mf_value = fa_value a, mf_type = fa_type a,
      mf_key = strip (fa_key a), mf_valid_from = the_default now (fa_valid_from a),
      mf_valid_to = fa_valid_to a, mf_known_at = the_default now (fa_known_at a),
      mf_authority = fa_authority a, mf_origin = fa_origin a, mf_model = fa_model a,
      mf_source = fa_source a, mf_message = fa_message a, mf_lineage = fa_lineage a,
      mf_superseded_by = None, mf_confidence = confidence, mf_importance = importance,
      mf_status = fa_status a, mf_metadata = fa_metadata a, mf_created_at = now\<rparr>"

definition create_fact ::
  "uuid \<Rightarrow> instant \<Rightarrow> uuid \<Rightarrow> fact_args \<Rightarrow> fact_db \<Rightarrow> fact_error + (fact_db \<times> mem_fact)" where
  "create_fact tenant now new_id a d =
     (if strip (fa_key a) = [] then Inl FactKeyRequired
      else if strip (fa_subject a) = [] \<or> strip (fa_predicate a) = [] \<or> strip (fa_object a) = []
      then Inl TripleRequired
      else case unit_value (fa_confidence a) of
        None \<Rightarrow> Inl ConfidenceRange
      | Some c \<Rightarrow>
          (case unit_value (fa_importance a) of
             None \<Rightarrow> Inl ImportanceRange
           | Some i \<Rightarrow>
               if \<not> ends_after (the_default now (fa_valid_from a)) (fa_valid_to a) then Inl InvertedRange
               else insert_fact tenant (fact_of_args tenant now new_id a c i) d))"

subsection \<open>Updating and deleting\<close>

datatype fact_column =
    IdentityColumn string | FactKeyColumn string | FactValidTo "instant option" | FactStatus string
  | FactSupersededBy "uuid option" | FactObject string | FactValue py | FactConfidence rat
  | FactValidFrom instant | FactKnownAt instant | FactType string | FactAuthority string
  | FactOrigin string | FactModel "string option" | FactSource "string option"
  | FactMessage "string option" | FactLineage "string option" | FactImportance rat
  | FactMetadata "(string \<times> py) list option"

fun write_fact :: "fact_column \<Rightarrow> mem_fact \<Rightarrow> mem_fact" where
  "write_fact (IdentityColumn _) r = r"
| "write_fact (FactKeyColumn k) r = r\<lparr>mf_key := k\<rparr>"
| "write_fact (FactValidTo t) r = r\<lparr>mf_valid_to := t\<rparr>"
| "write_fact (FactStatus s) r = r\<lparr>mf_status := s\<rparr>"
| "write_fact (FactSupersededBy i) r = r\<lparr>mf_superseded_by := i\<rparr>"
| "write_fact (FactObject s) r = r\<lparr>mf_object := s\<rparr>"
| "write_fact (FactValue v) r = r\<lparr>mf_value := v\<rparr>"
| "write_fact (FactConfidence c) r = r\<lparr>mf_confidence := c\<rparr>"
| "write_fact (FactValidFrom t) r = r\<lparr>mf_valid_from := t\<rparr>"
| "write_fact (FactKnownAt t) r = r\<lparr>mf_known_at := t\<rparr>"
| "write_fact (FactType s) r = r\<lparr>mf_type := s\<rparr>"
| "write_fact (FactAuthority s) r = r\<lparr>mf_authority := s\<rparr>"
| "write_fact (FactOrigin s) r = r\<lparr>mf_origin := s\<rparr>"
| "write_fact (FactModel s) r = r\<lparr>mf_model := s\<rparr>"
| "write_fact (FactSource s) r = r\<lparr>mf_source := s\<rparr>"
| "write_fact (FactMessage s) r = r\<lparr>mf_message := s\<rparr>"
| "write_fact (FactLineage s) r = r\<lparr>mf_lineage := s\<rparr>"
| "write_fact (FactImportance c) r = r\<lparr>mf_importance := c\<rparr>"
| "write_fact (FactMetadata m) r = r\<lparr>mf_metadata := m\<rparr>"

definition is_identity :: "fact_column \<Rightarrow> bool" where
  "is_identity c = (case c of IdentityColumn _ \<Rightarrow> True | _ \<Rightarrow> False)"

definition changes_key :: "mem_fact \<Rightarrow> fact_column \<Rightarrow> bool" where
  "changes_key r c = (case c of FactKeyColumn k \<Rightarrow> k \<noteq> mf_key r | _ \<Rightarrow> False)"

definition inverts :: "mem_fact \<Rightarrow> fact_column \<Rightarrow> bool" where
  "inverts r c = (case c of FactValidTo t \<Rightarrow> \<not> ends_after (mf_valid_from r) t | _ \<Rightarrow> False)"

definition update_facts ::
  "uuid \<Rightarrow> uuid \<Rightarrow> (mem_fact \<Rightarrow> mem_fact) \<Rightarrow> fact_db \<Rightarrow> fact_error + (fact_db \<times> nat)" where
  "update_facts tenant i f d =
     (case update_row mf_org mf_id tenant i f (fd_facts d) of
        (rows, n) \<Rightarrow>
          (if list_all (\<lambda>r. mf_id r = i \<and> mf_org r = tenant \<longrightarrow> fact_fits r) rows
           then Inr (d\<lparr>fd_facts := rows\<rparr>, n) else Inl FactIntegrity))"

definition update_fact ::
  "uuid \<Rightarrow> uuid \<Rightarrow> fact_column list \<Rightarrow> fact_db \<Rightarrow> fact_error + (fact_db \<times> nat)" where
  "update_fact tenant i columns d =
     (if list_ex is_identity columns then Inl IdentityImmutable
      else case get_fact tenant i d of
        None \<Rightarrow> Inr (d, 0)
      | Some r \<Rightarrow>
          if list_ex (changes_key r) columns then Inl FactKeyImmutable
          else if list_ex (inverts r) columns then Inl InvertedRange
          else update_facts tenant i (fold write_fact columns) d)"

definition set_fact_status :: "uuid \<Rightarrow> uuid \<Rightarrow> string \<Rightarrow> fact_db \<Rightarrow> fact_error + (fact_db \<times> nat)" where
  "set_fact_status tenant i status d = update_fact tenant i [FactStatus status] d"

text \<open>Deleting a row sets the references to it to null.\<close>

definition unlink :: "uuid \<Rightarrow> mem_fact \<Rightarrow> mem_fact" where
  "unlink i r = (if mf_superseded_by r = Some i then r\<lparr>mf_superseded_by := None\<rparr> else r)"

definition delete_fact :: "uuid \<Rightarrow> uuid \<Rightarrow> fact_db \<Rightarrow> fact_error + (fact_db \<times> nat)" where
  "delete_fact tenant i d =
     (case get_fact tenant i d of
        None \<Rightarrow> Inr (d, 0)
      | Some r \<Rightarrow>
          if mf_valid_to r = None then Inl ActiveFact
          else case delete_row mf_org mf_id tenant i (fd_facts d) of
            (rows, n) \<Rightarrow> Inr (d\<lparr>fd_facts := map (unlink i) rows\<rparr>, n))"

subsection \<open>Superseding\<close>

text \<open>
  The checks of \<open>supersede\<close>, made on what its reads return, and its write, whose condition is the id
  and the tenant only; other sessions run between them.
\<close>

definition supersede_checks ::
  "uuid \<Rightarrow> uuid \<Rightarrow> instant \<Rightarrow> uuid option \<Rightarrow> fact_db \<Rightarrow> fact_error + bool" where
  "supersede_checks tenant i valid_to by d =
     (case get_fact tenant i d of
        None \<Rightarrow> Inr False
      | Some r \<Rightarrow>
          if by = Some i then Inl SelfSuperseded
          else if \<not> current_fact r then Inl NotActive
          else if valid_to < mf_valid_from r then Inl InvertedRange
          else case by of
            None \<Rightarrow> Inr True
          | Some j \<Rightarrow>
              (case get_fact tenant j d of
                 None \<Rightarrow> Inl ReplacementOutside
               | Some s \<Rightarrow> if mf_key s \<noteq> mf_key r then Inl ReplacementKey else Inr True))"

definition close_fact :: "instant \<Rightarrow> uuid option \<Rightarrow> mem_fact \<Rightarrow> mem_fact" where
  "close_fact valid_to by r =
     r\<lparr>mf_valid_to := Some valid_to, mf_status := ''superseded'', mf_superseded_by := by\<rparr>"

definition supersede_write ::
  "uuid \<Rightarrow> uuid \<Rightarrow> instant \<Rightarrow> uuid option \<Rightarrow> fact_db \<Rightarrow> fact_error + (fact_db \<times> nat)" where
  "supersede_write tenant i valid_to by d = update_facts tenant i (close_fact valid_to by) d"

definition supersede ::
  "uuid \<Rightarrow> uuid \<Rightarrow> instant \<Rightarrow> uuid option \<Rightarrow> fact_db \<Rightarrow> fact_error + (fact_db \<times> nat)" where
  "supersede tenant i valid_to by d =
     ebind (supersede_checks tenant i valid_to by d) (\<lambda>found.
       if found then supersede_write tenant i valid_to by d else Inr (d, 0))"

subsection \<open>Replacing\<close>

text \<open>What a caller gives of a replacement; the rest is the current fact's.\<close>

record replace_args =
  rp_subject :: string
  rp_predicate :: string
  rp_object :: string
  rp_value :: py
  rp_valid_from :: "instant option"
  rp_known_at :: "instant option"
  rp_authority :: string
  rp_origin :: string
  rp_model :: "string option"
  rp_metadata :: "(string \<times> py) list option"

definition replacement_args :: "mem_fact \<Rightarrow> replace_args \<Rightarrow> fact_args" where
  "replacement_args r p =
     \<lparr>fa_scope = mf_scope r, fa_episode = mf_episode r, fa_key = mf_key r, fa_subject = rp_subject p,
      fa_predicate = rp_predicate p, fa_object = rp_object p, fa_value = rp_value p, fa_type = mf_type r,
      fa_valid_from = rp_valid_from p, fa_valid_to = None, fa_known_at = rp_known_at p,
      fa_authority = rp_authority p, fa_origin = rp_origin p, fa_model = rp_model p,
      fa_source = mf_source r, fa_message = mf_message r, fa_lineage = mf_lineage r,
      fa_confidence = Finite (mf_confidence r), fa_importance = Finite (mf_importance r),
      fa_status = ''active'', fa_metadata = rp_metadata p\<rparr>"

text \<open>\<open>later\<close> is the second reading of the clock, after the replacement was flushed.\<close>

definition replace_fact ::
  "uuid \<Rightarrow> instant \<Rightarrow> instant \<Rightarrow> uuid \<Rightarrow> uuid \<Rightarrow> replace_args \<Rightarrow> fact_db \<Rightarrow>
   fact_db \<times> (fact_error + mem_fact)" where
  "replace_fact tenant now later new_id i p d =
     (case get_fact tenant i d of
        None \<Rightarrow> (d, Inl FactOutside)
      | Some r \<Rightarrow>
          if \<not> current_fact r then (d, Inl NotActive)
          else
            (case create_fact tenant now new_id (replacement_args r p) d of
               Inl e \<Rightarrow> (d, Inl e)
             | Inr (d1, s) \<Rightarrow>
                 (case supersede tenant i (the_default later (rp_valid_from p)) (Some (mf_id s)) d1 of
                    Inl e \<Rightarrow> (d1, Inl e)
                  | Inr (d2, n) \<Rightarrow> (d2, Inr s))))"

end
