(* ===== verification/Fact_Claims.thy ===== *)
theory Fact_Claims
  imports Fact_Store
begin

section \<open>Facts: claims\<close>

text \<open>
  What no operation changes of a fact, that a replacement hands over without a gap or an overlap,
  which row a query returns; and where superseding falls short of that.
\<close>

subsection \<open>Rows by id\<close>

definition ids_ok :: "fact_db \<Rightarrow> bool" where
  "ids_ok d \<longleftrightarrow> distinct (map mf_id (fd_facts d))"

lemma get_fact_Some:
  "get_fact tenant i d = Some r \<Longrightarrow> r \<in> set (fd_facts d) \<and> mf_id r = i \<and> mf_org r = tenant"
  by (auto simp: get_fact_def read_row_def find_Some_iff)



subsection \<open>What the operations do\<close>

lemma insert_fact_InrE:
  assumes "insert_fact tenant r d = Inr (d', s)"
  obtains "s = r" "d' = d\<lparr>fd_facts := fd_facts d @ [r]\<rparr>" "fact_fits r" "mf_id r \<notin> mf_id ` set (fd_facts d)"
  using assms by (auto simp: insert_fact_def split: option.splits if_splits)

lemma create_fact_InrE:
  assumes "create_fact tenant now nid a d = Inr (d', s)"
  obtains c i where "s = fact_of_args tenant now nid a c i" "d' = d\<lparr>fd_facts := fd_facts d @ [s]\<rparr>"
    "fact_fits s" "nid \<notin> mf_id ` set (fd_facts d)" "strip (fa_key a) \<noteq> []" "strip (fa_subject a) \<noteq> []"
    "strip (fa_predicate a) \<noteq> []" "unit_value (fa_confidence a) = Some c" "unit_value (fa_importance a) = Some i"
proof -
  from assms obtain c i where c: "unit_value (fa_confidence a) = Some c" "unit_value (fa_importance a) = Some i"
    and given: "strip (fa_key a) \<noteq> []" "strip (fa_subject a) \<noteq> []" "strip (fa_predicate a) \<noteq> []"
    and ins: "insert_fact tenant (fact_of_args tenant now nid a c i) d = Inr (d', s)"
    by (auto simp: create_fact_def split: option.splits if_splits)
  have "mf_id (fact_of_args tenant now nid a c i) = nid" by (simp add: fact_of_args_def)
  with ins given c that show thesis by (auto elim!: insert_fact_InrE)
qed

lemma update_facts_InrE:
  assumes "update_facts tenant i f d = Inr (d', n)"
  obtains "d' = d\<lparr>fd_facts := map (\<lambda>r. if mf_id r = i \<and> mf_org r = tenant then f r else r) (fd_facts d)\<rparr>"
    "list_all (\<lambda>r. mf_id r = i \<and> mf_org r = tenant \<longrightarrow> fact_fits r) (fd_facts d')"
  using assms by (auto simp: update_facts_def update_row_def split: if_splits)

lemma supersede_InrE:
  assumes "supersede tenant i v by d = Inr (d', n)"
  obtains (absent) "d' = d" "get_fact tenant i d = None"
  | (closed) r where "get_fact tenant i d = Some r" "current_fact r" "mf_valid_from r \<le> v" "by \<noteq> Some i"
    "supersede_write tenant i v by d = Inr (d', n)"
    "\<And>j. by = Some j \<Longrightarrow> \<exists>s. get_fact tenant j d = Some s \<and> mf_key s = mf_key r"
proof -
  from assms obtain found where found: "supersede_checks tenant i v by d = Inr found"
    and rest: "(if found then supersede_write tenant i v by d else Inr (d, 0)) = Inr (d', n)"
    unfolding supersede_def by (elim ebind_InrE)
  show thesis
  proof (cases "get_fact tenant i d")
    case None
    with found rest absent show thesis by (auto simp: supersede_checks_def)
  next
    case (Some r)
    with found have "current_fact r" "mf_valid_from r \<le> v" "by \<noteq> Some i" "found"
      "\<And>j. by = Some j \<Longrightarrow> \<exists>s. get_fact tenant j d = Some s \<and> mf_key s = mf_key r"
      by (auto simp: supersede_checks_def split: if_splits option.splits)
    with Some rest closed show thesis by auto
  qed
qed

subsection \<open>Identity\<close>














lemma replace_fact_cases:
  assumes "replace_fact tenant now later nid i p d = (d', res)"
  obtains (unchanged) e where "d' = d" "res = Inl e"
  | (refused) r s e where "get_fact tenant i d = Some r" "current_fact r"
    "create_fact tenant now nid (replacement_args r p) d = Inr (d', s)" "res = Inl e"
    "supersede tenant i (the_default later (rp_valid_from p)) (Some (mf_id s)) d' = Inl e"
  | (replaced) r s d1 n where "get_fact tenant i d = Some r" "current_fact r"
    "create_fact tenant now nid (replacement_args r p) d = Inr (d1, s)" "res = Inr s"
    "supersede tenant i (the_default later (rp_valid_from p)) (Some (mf_id s)) d1 = Inr (d', n)"
  using assms
  by (auto simp: replace_fact_def split: option.splits if_splits sum.splits prod.splits intro: that)

lemma replacement_id:
  "create_fact tenant now nid a d = Inr (d1, s) \<Longrightarrow> mf_id s = nid \<and> nid \<notin> mf_id ` set (fd_facts d)
     \<and> d1 = d\<lparr>fd_facts := fd_facts d @ [s]\<rparr>"
  by (erule create_fact_InrE) (simp add: fact_of_args_def)







subsection \<open>Replacement\<close>

definition valid_at :: "instant \<Rightarrow> mem_fact \<Rightarrow> bool" where
  "valid_at t r \<longleftrightarrow> mf_valid_from r \<le> t \<and> open_at (mf_valid_to r) t"

lemma get_fact_append:
  "get_fact tenant j (d\<lparr>fd_facts := fd_facts d @ [s]\<rparr>) =
     (case get_fact tenant j d of
        None \<Rightarrow> if mf_id s = j \<and> mf_org s = tenant then Some s else None | Some x \<Rightarrow> Some x)"
proof -
  have "find P (xs @ [s]) = (case find P xs of None \<Rightarrow> if P s then Some s else None | Some x \<Rightarrow> Some x)" for P xs
    by (induction xs) auto
  then show ?thesis by (simp add: get_fact_def read_row_def)
qed

lemma get_fact_update:
  assumes "update_facts tenant i f d = Inr (d', n)" and "\<And>x. mf_id (f x) = mf_id x \<and> mf_org (f x) = mf_org x"
  shows "get_fact tenant j d' = map_option (\<lambda>x. if j = i then f x else x) (get_fact tenant j d)"
proof -
  have "find (\<lambda>x. mf_id x = j \<and> mf_org x = tenant) (map (\<lambda>x. if mf_id x = i \<and> mf_org x = tenant then f x else x) xs) =
      map_option (\<lambda>x. if j = i then f x else x) (find (\<lambda>x. mf_id x = j \<and> mf_org x = tenant) xs)" for xs
    using assms(2) by (induction xs) auto
  then show ?thesis using assms(1) by (auto simp: get_fact_def read_row_def elim: update_facts_InrE)
qed

lemma replaced_rows:
  assumes "replace_fact tenant now later nid i p d = (d', Inr s)" and ok: "ids_ok d"
    and r: "get_fact tenant i d = Some r"
  defines "v \<equiv> the_default later (rp_valid_from p)"
  shows "get_fact tenant i d' = Some (close_fact v (Some (mf_id s)) r)" "get_fact tenant (mf_id s) d' = Some s"
    "mf_valid_from r \<le> v" "mf_key s = strip (mf_key r)" "mf_scope s = mf_scope r" "mf_valid_to s = None" "mf_id s = nid"
    "mf_valid_from s = the_default now (rp_valid_from p)" "current_fact r"
    "\<And>j. j \<noteq> i \<Longrightarrow> j \<noteq> mf_id s \<Longrightarrow> get_fact tenant j d' = get_fact tenant j d"
proof -
  from assms(1) obtain r0 d1 n where r0: "get_fact tenant i d = Some r0" "current_fact r0"
    and c: "create_fact tenant now nid (replacement_args r0 p) d = Inr (d1, s)"
    and sup: "supersede tenant i v (Some (mf_id s)) d1 = Inr (d', n)"
    by (cases rule: replace_fact_cases) (auto simp: v_def)
  from r r0 have [simp]: "r0 = r" by simp
  note id = replacement_id [OF c]
  from c obtain cc ii where s: "s = fact_of_args tenant now nid (replacement_args r p) cc ii"
    by (auto elim: create_fact_InrE)
  have "mf_org s = tenant" by (simp add: s fact_of_args_def)
  then have find: "get_fact tenant j d1 = (case get_fact tenant j d of None \<Rightarrow> if mf_id s = j then Some s else None
      | Some x \<Rightarrow> Some x)" for j using id by (simp add: get_fact_append)
  have r1: "get_fact tenant i d1 = Some r" using find r by simp
  have "i \<in> mf_id ` set (fd_facts d)" using get_fact_Some [OF r] by force
  with id have new: "i \<noteq> mf_id s" by metis
  from sup r1 have "mf_valid_from r \<le> v" and w: "supersede_write tenant i v (Some (mf_id s)) d1 = Inr (d', n)"
    by (auto elim: supersede_InrE)
  from w have read: "get_fact tenant j d' = map_option (\<lambda>x. if j = i then close_fact v (Some (mf_id s)) x else x)
      (get_fact tenant j d1)" for j
    unfolding supersede_write_def by (rule get_fact_update) (simp add: close_fact_def)
  show "get_fact tenant i d' = Some (close_fact v (Some (mf_id s)) r)" by (simp add: read r1)
  have "get_fact tenant (mf_id s) d = None"
    using id get_fact_Some [of tenant "mf_id s" d] by (metis imageI not_Some_eq)
  then show "get_fact tenant (mf_id s) d' = Some s" using new by (simp add: read find)
  show "mf_valid_from r \<le> v" by fact
  show "current_fact r" using r0(2) by simp
  show "get_fact tenant j d' = get_fact tenant j d" if "j \<noteq> i" "j \<noteq> mf_id s" for j
    using that by (simp add: read find split: option.split)
qed (use assms(1) r in \<open>auto elim!: replace_fact_cases create_fact_InrE simp: fact_of_args_def replacement_args_def\<close>)

text \<open>
  Claim C23.  A replacement dated at an instant hands over at that instant: both rows keep the key, the old one
  points to the new one, at every instant since the old one began exactly one of the two is valid,
  and no other fact changes.
\<close>

theorem replacement_hands_over:
  assumes "replace_fact tenant now later nid i p d = (d', Inr s)" and "rp_valid_from p = Some v"
    and "distinct (map mf_id (fd_facts d))" and "get_fact tenant i d = Some r"
  shows "\<exists>r'. get_fact tenant i d' = Some r' \<and> get_fact tenant nid d' = Some s \<and>
     mf_superseded_by r' = Some nid \<and> mf_status r' = ''superseded'' \<and> mf_key r' = mf_key r \<and>
     mf_key s = strip (mf_key r) \<and> mf_scope s = mf_scope r \<and>
     (\<forall>t \<ge> mf_valid_from r. valid_at t r' \<longleftrightarrow> \<not> valid_at t s) \<and>
     (\<forall>j. j \<noteq> i \<longrightarrow> j \<noteq> nid \<longrightarrow> get_fact tenant j d' = get_fact tenant j d)"
proof -
  have "ids_ok d" using assms(3) by (simp add: ids_ok_def)
  note rows = replaced_rows [OF assms(1) this assms(4)]
  have "valid_at t (close_fact v (Some nid) r) \<longleftrightarrow> \<not> valid_at t s" if "mf_valid_from r \<le> t" for t
    using that rows(3,6,8) assms(2) by (auto simp: valid_at_def close_fact_def open_at_def)
  with rows assms(2) show ?thesis by (auto simp: close_fact_def)
qed

subsection \<open>Queries\<close>

lemma newest_known_head:
  assumes "\<And>xs. set (tie xs) = set xs" and "newest_known tie rows = r # rs"
  shows "r \<in> set rows \<and> (\<forall>x \<in> set rows. mf_known_at x \<le> mf_known_at r)"
proof -
  have members: "set (newest_known tie rows) = set rows" using assms(1) by (simp add: newest_known_def)
  have "sorted (map (\<lambda>r. - mf_known_at r) (newest_known tie rows))" by (simp add: newest_known_def)
  then have "\<forall>x \<in> set (newest_known tie rows). - mf_known_at r \<le> - mf_known_at x" by (simp add: assms(2))
  with members assms(2) show ?thesis by auto
qed

lemma newest_known_empty:
  assumes "\<And>xs. set (tie xs) = set xs" shows "newest_known tie rows = [] \<longleftrightarrow> rows = []"
  by (metis assms newest_known_def set_empty2 set_sort)

text \<open>The rows a query for a key as of an instant may answer with.\<close>

definition answers :: "uuid \<Rightarrow> string \<Rightarrow> uuid option \<Rightarrow> instant \<Rightarrow> fact_db \<Rightarrow> mem_fact \<Rightarrow> bool" where
  "answers tenant key user t d r \<longleftrightarrow> r \<in> set (fd_facts d) \<and> mf_org r = tenant \<and> mf_key r = strip key \<and>
     of_user user r \<and> mf_known_at r \<le> t \<and> valid_at t r"

text \<open>
  Claim C25.  As of an instant, the query for a key returns a row of that tenant, key and user that had begun, was
  known and was still valid then, and the one learned last of them; it returns none only if there is
  none.
\<close>

theorem as_of_query_returns_last_known:
  assumes "\<And>xs. set (tie xs) = set xs"
  shows "case get_by_fact_key tie tenant key user (Some t) False d of
      None \<Rightarrow> \<forall>r. \<not> answers tenant key user t d r
    | Some r \<Rightarrow> answers tenant key user t d r \<and>
        (\<forall>x. answers tenant key user t d x \<longrightarrow> mf_known_at x \<le> mf_known_at r)"
proof -
  let ?rows = "filter (\<lambda>r. mf_key r = strip key \<and> of_user user r \<and> in_window (Some t) False r \<and> mf_org r = tenant)
    (fd_facts d)"
  have rows: "answers tenant key user t d r \<longleftrightarrow> r \<in> set ?rows" for r
    by (auto simp: answers_def in_window_def valid_as_of_def started_by_def valid_at_def)
  show ?thesis
  proof (cases "newest_known tie ?rows")
    case Nil
    with newest_known_empty [OF assms] have "?rows = []" by simp
    with Nil show ?thesis by (simp add: rows get_by_fact_key_def filter_empty_conv)
  next
    case (Cons r rs)
    from newest_known_head [OF assms this] Cons show ?thesis by (simp add: rows get_by_fact_key_def)
  qed
qed

subsection \<open>A small store\<close>

definition plain_scope :: "uuid option \<Rightarrow> scope" where
  "plain_scope user = \<lparr>sc_account = None, sc_memory_user = None, sc_user = user, sc_agent = None,
     sc_project = None, sc_session = None\<rparr>"

definition demo_fact :: mem_fact where
  "demo_fact =
     \<lparr>mf_id = 50, mf_org = 3, mf_scope = plain_scope (Some 5), mf_episode = None, mf_subject = ''al'',
      mf_predicate = ''city'', mf_object = ''rome'', mf_value = PyStr ''rome'', mf_type = ''string'',
      mf_key = ''k'', mf_valid_from = 10, mf_valid_to = None, mf_known_at = 10, mf_authority = ''user'',
      mf_origin = ''chat'', mf_model = None, mf_source = None, mf_message = None, mf_lineage = None,
      mf_superseded_by = None, mf_confidence = 1, mf_importance = 0, mf_status = ''active'',
      mf_metadata = None, mf_created_at = 10\<rparr>"

definition fact_demo :: fact_db where
  "fact_demo = \<lparr>fd_facts = [demo_fact], fd_dir = \<lparr>dir_parents = [], dir_members = []\<rparr>\<rparr>"

definition demo_replacement :: "instant option \<Rightarrow> replace_args" where
  "demo_replacement from_when =
     \<lparr>rp_subject = ''al'', rp_predicate = ''city'', rp_object = ''oslo'', rp_value = PyStr ''oslo'',
      rp_valid_from = from_when, rp_known_at = None, rp_authority = ''user'', rp_origin = ''chat'',
      rp_model = None, rp_metadata = None\<rparr>"

lemma demo_strips: "strip ''k'' = ''k''" "strip ''al'' = ''al''" "strip ''city'' = ''city''" "strip ''oslo'' = ''oslo''"
  by code_simp+

lemma get_fact_rows: "get_fact t j (d\<lparr>fd_facts := rows\<rparr>) = find (\<lambda>r. mf_id r = j \<and> mf_org r = t) rows"
  by (simp add: get_fact_def read_row_def)

definition demo_new :: "uuid \<Rightarrow> instant option \<Rightarrow> mem_fact" where
  "demo_new nid from_when = fact_of_args 3 20 nid (replacement_args demo_fact (demo_replacement from_when)) 1 0"

lemma demo_new_fields:
  "mf_id (demo_new nid w) = nid" "mf_org (demo_new nid w) = 3" "mf_key (demo_new nid w) = ''k''"
  "mf_valid_from (demo_new nid w) = the_default 20 w" "mf_valid_to (demo_new nid w) = None"
  "mf_scope (demo_new nid w) = plain_scope (Some 5)" "mf_episode (demo_new nid w) = None"
  "mf_confidence (demo_new nid w) = 1" "mf_importance (demo_new nid w) = 0"
  by (simp_all add: demo_new_def fact_of_args_def replacement_args_def demo_fact_def demo_replacement_def
      demo_strips)

lemma demo_fact_fields:
  "mf_id demo_fact = 50" "mf_org demo_fact = 3" "mf_key demo_fact = ''k''" "mf_valid_from demo_fact = 10"
  "mf_valid_to demo_fact = None" "current_fact demo_fact" "mf_confidence demo_fact = 1"
  "mf_importance demo_fact = 0" "mf_known_at demo_fact = 10"
  by (simp_all add: demo_fact_def current_fact_def)

lemma get_demo_fact: "get_fact 3 50 fact_demo = Some demo_fact"
  by (simp add: get_fact_def read_row_def fact_demo_def demo_fact_fields)

lemma demo_new_created:
  assumes "nid \<noteq> 50"
  shows "create_fact 3 20 nid (replacement_args demo_fact (demo_replacement w)) fact_demo =
     Inr (fact_demo\<lparr>fd_facts := [demo_fact, demo_new nid w]\<rparr>, demo_new nid w)"
proof -
  have "insert_fact 3 (demo_new nid w) fact_demo = Inr (fact_demo\<lparr>fd_facts := [demo_fact, demo_new nid w]\<rparr>, demo_new nid w)"
    using assms
    by (simp add: insert_fact_def validate_scope_def scope_parents_def parent_ok_def plain_scope_def fact_fits_def
        ends_after_def demo_new_fields demo_fact_fields fact_demo_def)
  then show ?thesis
    by (simp add: create_fact_def demo_new_def replacement_args_def demo_replacement_def demo_fact_def
        demo_strips ends_after_def)
qed

lemma demo_replaced:
  assumes "nid \<noteq> 50" and "10 \<le> the_default 30 w"
  shows "replace_fact 3 20 30 nid 50 (demo_replacement w) fact_demo =
     (fact_demo\<lparr>fd_facts := [close_fact (the_default 30 w) (Some nid) demo_fact, demo_new nid w]\<rparr>, Inr (demo_new nid w))"
proof -
  have w: "rp_valid_from (demo_replacement w) = w" by (simp add: demo_replacement_def)
  show ?thesis
    using assms
    by (simp add: replace_fact_def get_demo_fact demo_fact_fields demo_new_created w supersede_def
        supersede_checks_def get_fact_rows demo_new_fields supersede_write_def update_facts_def
        update_row_def fact_fits_def ends_after_def close_fact_def)
qed


theorem replacement_hands_over_witness:
  "\<exists>r'. get_fact 3 50 (fst (replace_fact 3 20 30 60 50 (demo_replacement (Some 25)) fact_demo)) = Some r' \<and>
     valid_at 24 r' \<and> \<not> valid_at 24 (demo_new 60 (Some 25))"
proof -
  have r: "replace_fact 3 20 30 60 50 (demo_replacement (Some 25)) fact_demo =
      (fact_demo\<lparr>fd_facts := [close_fact 25 (Some 60) demo_fact, demo_new 60 (Some 25)]\<rparr>, Inr (demo_new 60 (Some 25)))"
    by (simp add: demo_replaced)
  have "rp_valid_from (demo_replacement (Some 25)) = Some 25" by (simp add: demo_replacement_def)
  from replacement_hands_over [OF r this _ get_demo_fact] have
    "\<exists>r'. get_fact 3 50 (fact_demo\<lparr>fd_facts := [close_fact 25 (Some 60) demo_fact, demo_new 60 (Some 25)]\<rparr>) = Some r'
      \<and> (\<forall>t \<ge> 10. valid_at t r' \<longleftrightarrow> \<not> valid_at t (demo_new 60 (Some 25)))"
    by (auto simp: fact_demo_def demo_fact_fields)
  then show ?thesis
    by (auto simp: r valid_at_def demo_new_fields)
qed

theorem as_of_query_returns_last_known_witness:
  "get_by_fact_key (\<lambda>rs. rs) 3 ''k'' (Some 5) (Some 12) False fact_demo = Some demo_fact"
proof -
  have "answers 3 ''k'' (Some 5) 12 fact_demo r \<longleftrightarrow> r = demo_fact" for r
    by (auto simp: answers_def fact_demo_def demo_fact_def of_user_def plain_scope_def valid_at_def open_at_def
        demo_strips)
  with as_of_query_returns_last_known [of "\<lambda>rs. rs" 3 "''k''" "Some 5" 12 fact_demo] show ?thesis
    by (auto split: option.splits)
qed

subsection \<open>Divergences\<close>

text \<open>
  A replacement without a start date is valid from one reading of the clock and the old fact until a
  later one: between them both are valid.
\<close>

theorem undated_replacement_overlaps:
  "\<exists>d' s r'. replace_fact 3 20 30 60 50 (demo_replacement None) fact_demo = (d', Inr s) \<and>
     get_fact 3 50 d' = Some r' \<and> valid_at 25 r' \<and> valid_at 25 s"
proof -
  have "replace_fact 3 20 30 60 50 (demo_replacement None) fact_demo =
      (fact_demo\<lparr>fd_facts := [close_fact 30 (Some 60) demo_fact, demo_new 60 None]\<rparr>, Inr (demo_new 60 None))"
    by (simp add: demo_replaced)
  then show ?thesis
    by (simp add: get_fact_def read_row_def close_fact_def demo_fact_fields valid_at_def open_at_def demo_new_fields)
qed

text \<open>
  A replacement dated before the fact it replaces is inserted and then refused: the call raises and
  the new active fact is in the session.
\<close>

theorem refused_replacement_is_inserted:
  "replace_fact 3 20 30 60 50 (demo_replacement (Some 5)) fact_demo =
     (fact_demo\<lparr>fd_facts := [demo_fact, demo_new 60 (Some 5)]\<rparr>, Inl InvertedRange)"
proof -
  have w: "rp_valid_from (demo_replacement (Some 5)) = Some 5" by (simp add: demo_replacement_def)
  show ?thesis
    by (simp add: replace_fact_def get_demo_fact demo_fact_fields demo_new_created w supersede_def
        supersede_checks_def get_fact_rows demo_new_fields)
qed

text \<open>
  Two sessions that check the same active fact before either writes both supersede it; the second
  overwrites the end and the successor the first recorded.
\<close>

theorem superseding_twice_loses_the_first:
  "supersede_checks 3 50 20 None fact_demo = Inr True \<and> supersede_checks 3 50 15 None fact_demo = Inr True \<and>
   ebind (supersede_write 3 50 20 None fact_demo) (\<lambda>(d, n). supersede_write 3 50 15 None d) =
     Inr (fact_demo\<lparr>fd_facts := [close_fact 15 None demo_fact]\<rparr>, 1)"
proof (intro conjI)
  show "supersede_checks 3 50 20 None fact_demo = Inr True" "supersede_checks 3 50 15 None fact_demo = Inr True"
    by (simp_all add: supersede_checks_def get_demo_fact demo_fact_fields)
qed (simp add: supersede_write_def update_facts_def update_row_def fact_demo_def close_fact_def fact_fits_def
    ends_after_def demo_fact_fields)

text \<open>
  Setting the status of a superseded fact to active leaves it closed: it is neither current nor
  superseded.
\<close>

theorem reactivated_fact_stays_closed:
  "set_fact_status 3 50 ''active'' (fact_demo\<lparr>fd_facts := [close_fact 20 None demo_fact]\<rparr>) =
     Inr (fact_demo\<lparr>fd_facts := [(close_fact 20 None demo_fact)\<lparr>mf_status := ''active''\<rparr>]\<rparr>, 1) \<and>
   \<not> current_fact ((close_fact 20 None demo_fact)\<lparr>mf_status := ''active''\<rparr>)"
  by (simp add: set_fact_status_def update_fact_def is_identity_def get_fact_def read_row_def close_fact_def
      demo_fact_fields changes_key_def inverts_def update_facts_def update_row_def fact_fits_def ends_after_def
      current_fact_def)

text \<open>
  The start instants are no part of that identity: a direct update moves them, and with them what a
  query as of an earlier instant answers.
\<close>

theorem start_can_be_rewritten:
  "update_fact 3 50 [FactValidFrom 15, FactKnownAt 14] fact_demo =
     Inr (fact_demo\<lparr>fd_facts := [demo_fact\<lparr>mf_valid_from := 15, mf_known_at := 14\<rparr>]\<rparr>, 1)"
  by (simp add: update_fact_def is_identity_def changes_key_def inverts_def update_facts_def update_row_def
      fact_fits_def ends_after_def demo_fact_fields fact_demo_def get_fact_def read_row_def demo_fact_def)

end
