(* ===== verification/Api_Keys.thy ===== *)
theory Api_Keys
  imports Tenant_Scope
begin

section \<open>API keys\<close>

text \<open>
  \<open>contexta/repositories/api_key_repo.py\<close>: a key's row holds the hash of its token, \<open>find_by_token\<close>
  looks a token up among the rows that are not revoked, and a hash of live keys is published to
  Redis on creation and removed on revocation.  \<open>sha\<close> is the digest of a token; the random token
  and the new row's id are arguments of \<open>create_key\<close>.  Redis calls are best effort: \<open>up\<close> says
  whether the one at hand succeeds.
\<close>

subsection \<open>Rows\<close>

record api_key =
  ak_id :: uuid
  ak_org :: uuid
  ak_actor :: uuid
  ak_name :: string
  ak_prefix :: string
  ak_hash :: string
  ak_scopes :: "string list"
  ak_tier :: string
  ak_created :: instant
  ak_revoked :: "instant option"

record published_key =
  pk_key :: uuid
  pk_tenant :: uuid
  pk_actor :: uuid
  pk_scopes :: string
  pk_tier :: string

record key_store =
  ks_rows :: "api_key list"
  ks_published :: "string \<Rightarrow> published_key option"

datatype key_error = HashTaken | ManyKeys | KeyScope scope_error

subsection \<open>Operations\<close>

definition publish_to_redis :: "bool \<Rightarrow> api_key \<Rightarrow> key_store \<Rightarrow> key_store" where
  "publish_to_redis up k s =
     (if up then s\<lparr>ks_published := (ks_published s)(ak_hash k \<mapsto>
        \<lparr>pk_key = ak_id k, pk_tenant = ak_org k, pk_actor = ak_actor k, pk_scopes = join '' '' (ak_scopes k),
         pk_tier = ''standard''\<rparr>)\<rparr> else s)"

definition invalidate_in_redis :: "bool \<Rightarrow> string \<Rightarrow> key_store \<Rightarrow> key_store" where
  "invalidate_in_redis up h s = (if up then s\<lparr>ks_published := (ks_published s)(h := None)\<rparr> else s)"

definition new_key ::
  "(string \<Rightarrow> string) \<Rightarrow> uuid \<Rightarrow> uuid \<Rightarrow> string \<Rightarrow> string \<Rightarrow> uuid \<Rightarrow> string list \<Rightarrow> instant \<Rightarrow> api_key" where
  "new_key sha tenant i token name actor scopes now =
     \<lparr>ak_id = i, ak_org = tenant, ak_actor = actor,
      ak_name = (if strip name = [] then ''Agent key'' else strip name),
      ak_prefix = take 16 token, ak_hash = sha token, ak_scopes = scopes, ak_tier = ''standard'',
      ak_created = now, ak_revoked = None\<rparr>"

definition generated_token :: "string \<Rightarrow> string" where
  "generated_token random = ''mk_live_'' @ random"

text \<open>The row is inserted under the table's unique hash and primary key.\<close>

definition create_key ::
  "(string \<Rightarrow> string) \<Rightarrow> bool \<Rightarrow> uuid \<Rightarrow> uuid \<Rightarrow> string \<Rightarrow> string \<Rightarrow> uuid \<Rightarrow> string list \<Rightarrow> instant \<Rightarrow>
   key_store \<Rightarrow> key_error + (key_store \<times> string \<times> api_key)" where
  "create_key sha up tenant i random name actor scopes now s =
     (let token = generated_token random;
          k = new_key sha tenant i token name actor scopes now
      in case create_row (\<lambda>k. Some (ak_org k)) tenant k (ks_rows s) of
           Inl e \<Rightarrow> Inl (KeyScope e)
         | Inr (rows, persisted) \<Rightarrow>
             if \<exists>r \<in> set (ks_rows s). ak_hash r = ak_hash k \<or> ak_id r = ak_id k then Inl HashTaken
             else Inr (publish_to_redis up persisted (s\<lparr>ks_rows := rows\<rparr>), token, persisted))"

definition find_by_token :: "(string \<Rightarrow> string) \<Rightarrow> string \<Rightarrow> api_key list \<Rightarrow> key_error + api_key option" where
  "find_by_token sha raw rows = one_or_none ManyKeys (\<lambda>k. ak_hash k = sha raw \<and> ak_revoked k = None) rows"

definition list_by_org :: "uuid \<Rightarrow> api_key list \<Rightarrow> api_key list" where
  "list_by_org tenant rows = scope_select ak_org tenant (filter (\<lambda>k. ak_revoked k = None) rows)"

definition revoke :: "bool \<Rightarrow> uuid \<Rightarrow> uuid \<Rightarrow> instant \<Rightarrow> key_store \<Rightarrow> key_store \<times> bool" where
  "revoke up tenant i now s =
     (let existing = tget ak_id (ks_rows s) i;
          (rows, n) = update_row ak_org ak_id tenant i (\<lambda>k. k\<lparr>ak_revoked := Some now\<rparr>) (ks_rows s);
          s' = s\<lparr>ks_rows := rows\<rparr>
      in ((case existing of
             Some k \<Rightarrow> if 0 < n then invalidate_in_redis up (ak_hash k) s' else s'
           | None \<Rightarrow> s'), 0 < n))"

text \<open>The operations of a repository as values, and a run of them.\<close>

datatype key_op =
    CreateKey bool uuid string string uuid "string list" instant
  | RevokeKey bool uuid instant

definition key_step :: "(string \<Rightarrow> string) \<Rightarrow> uuid \<Rightarrow> key_op \<Rightarrow> key_store \<Rightarrow> key_store" where
  "key_step sha tenant oper s =
     (case oper of
        CreateKey up i random name actor scopes now \<Rightarrow>
          (case create_key sha up tenant i random name actor scopes now s of Inl _ \<Rightarrow> s | Inr (s', _) \<Rightarrow> s')
      | RevokeKey up i now \<Rightarrow> fst (revoke up tenant i now s))"

subsection \<open>What the operations keep\<close>

definition keys_ok :: "api_key list \<Rightarrow> bool" where
  "keys_ok rows \<longleftrightarrow> distinct (map ak_hash rows) \<and> distinct (map ak_id rows)"

lemma create_key_InrE:
  assumes "create_key sha up tenant i random name actor scopes now s = Inr (s', token, k)"
  obtains "token = generated_token random" "k = new_key sha tenant i token name actor scopes now"
    "\<forall>r \<in> set (ks_rows s). ak_hash r \<noteq> ak_hash k \<and> ak_id r \<noteq> ak_id k"
    "s' = publish_to_redis up k (s\<lparr>ks_rows := ks_rows s @ [k]\<rparr>)"
  using assms
  by (auto simp: create_key_def create_row_def Let_def new_key_def validate_tenant_ownership_def
      split: if_splits)

lemma publish_rows [simp]: "ks_rows (publish_to_redis up k s) = ks_rows s"
  by (simp add: publish_to_redis_def)

lemma invalidate_rows [simp]: "ks_rows (invalidate_in_redis up h s) = ks_rows s"
  by (simp add: invalidate_in_redis_def)

lemma revoke_rows [simp]:
  "ks_rows (fst (revoke up tenant i now s)) =
     map (\<lambda>k. if ak_id k = i \<and> ak_org k = tenant then k\<lparr>ak_revoked := Some now\<rparr> else k) (ks_rows s)"
  by (simp add: revoke_def update_row_def Let_def split: option.split)

text \<open>What a step does to the rows: it appends one with a new hash and id, or revokes some.\<close>

lemma key_step_rows:
  obtains (created) k where "ks_rows (key_step sha tenant oper s) = ks_rows s @ [k]" "ak_org k = tenant"
      "\<forall>r \<in> set (ks_rows s). ak_hash r \<noteq> ak_hash k \<and> ak_id r \<noteq> ak_id k"
    | (revoked) i now where "ks_rows (key_step sha tenant oper s) =
        map (\<lambda>k. if ak_id k = i \<and> ak_org k = tenant then k\<lparr>ak_revoked := Some now\<rparr> else k) (ks_rows s)"
    | (refused) "key_step sha tenant oper s = s"
proof (cases oper)
  case (CreateKey up i random name actor scopes now)
  show ?thesis
  proof (cases "create_key sha up tenant i random name actor scopes now s")
    case (Inl e)
    with CreateKey show ?thesis by (intro refused) (simp add: key_step_def)
  next
    case (Inr x)
    obtain s' token k where x: "x = (s', token, k)" by (cases x)
    from Inr [unfolded x] show ?thesis
    proof (rule create_key_InrE)
      assume "k = new_key sha tenant i token name actor scopes now"
        and "\<forall>r \<in> set (ks_rows s). ak_hash r \<noteq> ak_hash k \<and> ak_id r \<noteq> ak_id k"
        and "s' = publish_to_redis up k (s\<lparr>ks_rows := ks_rows s @ [k]\<rparr>)"
      with CreateKey Inr x show ?thesis
        by (intro created [of k]) (simp_all add: key_step_def new_key_def)
    qed
  qed
next
  case (RevokeKey up i now)
  then show ?thesis by (intro revoked [of i now]) (simp add: key_step_def)
qed

lemma revoked_fields [simp]:
  "ak_hash \<circ> (\<lambda>k. if P k then k\<lparr>ak_revoked := v\<rparr> else k) = ak_hash"
  "ak_id \<circ> (\<lambda>k. if P k then k\<lparr>ak_revoked := v\<rparr> else k) = ak_id"
  by auto

lemma key_step_ok: "keys_ok (ks_rows s) \<Longrightarrow> keys_ok (ks_rows (key_step sha tenant oper s))"
  by (rule key_step_rows [of sha tenant oper s]) (auto simp: keys_ok_def)

lemma find_by_token_iff:
  assumes "keys_ok rows"
  shows "find_by_token sha token rows = Inr (Some k) \<longleftrightarrow>
    k \<in> set rows \<and> ak_hash k = sha token \<and> ak_revoked k = None"
proof -
  have never: "find_by_token sha token rows \<noteq> Inl e" for e
    unfolding find_by_token_def
    by (rule one_or_none_unique [where f = ak_hash and v = "sha token"]) (use assms in \<open>auto simp: keys_ok_def\<close>)
  have same: "k' = k" if "k' \<in> set rows" "k \<in> set rows" "ak_hash k' = ak_hash k" for k k'
    using that assms by (auto simp: keys_ok_def distinct_map dest: inj_onD)
  show ?thesis
  proof
    assume "find_by_token sha token rows = Inr (Some k)"
    then show "k \<in> set rows \<and> ak_hash k = sha token \<and> ak_revoked k = None"
      unfolding find_by_token_def by (auto dest: one_or_none_Some)
  next
    assume k: "k \<in> set rows \<and> ak_hash k = sha token \<and> ak_revoked k = None"
    then have "find_by_token sha token rows \<noteq> Inr None"
      by (auto simp: find_by_token_def one_or_none_None)
    with never obtain k' where k': "find_by_token sha token rows = Inr (Some k')"
      by (cases "find_by_token sha token rows") auto
    then have "k' \<in> set rows \<and> ak_hash k' = sha token"
      unfolding find_by_token_def by (auto dest: one_or_none_Some)
    with same [of k' k] k k' show "find_by_token sha token rows = Inr (Some k)" by simp
  qed
qed

lemma find_by_token_dead:
  assumes "keys_ok rows" and "k \<in> set rows" and "ak_hash k = sha token" and "ak_revoked k \<noteq> None"
  shows "find_by_token sha token rows = Inr None"
proof -
  have "\<not> (ak_hash r = sha token \<and> ak_revoked r = None)" if "r \<in> set rows" for r
  proof
    assume r: "ak_hash r = sha token \<and> ak_revoked r = None"
    have "inj_on ak_hash (set rows)" using assms(1) by (simp add: keys_ok_def distinct_map)
    then have "r = k" by (rule inj_onD) (use r that assms in auto)
    with r assms(4) show False by simp
  qed
  then show ?thesis by (simp add: find_by_token_def one_or_none_None)
qed

subsection \<open>Tenants\<close>

text \<open>The keys are a tenant-scoped table: what a tenant can list and read is its own doing.\<close>

lemma key_step_others:
  "tenant \<noteq> tenant' \<Longrightarrow>
   scope_select ak_org tenant' (ks_rows (key_step sha tenant oper s)) = scope_select ak_org tenant' (ks_rows s)"
proof (rule key_step_rows [of sha tenant oper s])
  fix i :: uuid and now
  assume ne: "tenant \<noteq> tenant'" and "ks_rows (key_step sha tenant oper s) =
    map (\<lambda>k. if ak_id k = i \<and> ak_org k = tenant then k\<lparr>ak_revoked := Some now\<rparr> else k) (ks_rows s)"
  then show ?thesis
    using scope_select_update [where org = ak_org and ident = ak_id and i = i and rows = "ks_rows s"
        and f = "\<lambda>k. k\<lparr>ak_revoked := Some now\<rparr>", OF ne]
    by (simp add: update_row_def)
qed (simp_all add: scope_select_def)

interpretation api_keys: tenant_table "\<lambda>tenant s. scope_select ak_org tenant (ks_rows s)"
  "\<lambda>tenant i s. read_row ak_org ak_id tenant i (ks_rows s)" "key_step sha" "\<lambda>_. True" for sha
proof unfold_locales
  fix tenant i s r assume "read_row ak_org ak_id tenant i (ks_rows s) = Some r"
  then show "r \<in> set (scope_select ak_org tenant (ks_rows s))" by (rule tables.get_visible)
next
  fix tenant s s' i assume "scope_select ak_org tenant (ks_rows s) = scope_select ak_org tenant (ks_rows s')"
  then show "read_row ak_org ak_id tenant i (ks_rows s) = read_row ak_org ak_id tenant i (ks_rows s')"
    by (rule tables.get_depends)
next
  fix tenant tenant' :: uuid and oper s assume "tenant \<noteq> tenant'"
  from key_step_others [OF this, of sha oper s]
  show "stays_in (scope_select ak_org tenant' (ks_rows s))
    (scope_select ak_org tenant' (ks_rows (key_step sha tenant oper s)))" by simp
next
  fix tenant tenant' :: uuid and oper s assume "tenant \<noteq> tenant'"
  then show "scope_select ak_org tenant' (ks_rows (key_step sha tenant oper s)) =
    scope_select ak_org tenant' (ks_rows s)" by (rule key_step_others)
qed

subsection \<open>Revocation\<close>

definition revoked_row :: "string \<Rightarrow> api_key list \<Rightarrow> bool" where
  "revoked_row h rows \<longleftrightarrow> (\<exists>k \<in> set rows. ak_hash k = h \<and> ak_revoked k \<noteq> None)"

lemma revoked_row_map:
  assumes "revoked_row h rows"
  shows "revoked_row h (map (\<lambda>k. if P k then k\<lparr>ak_revoked := Some now\<rparr> else k) rows)"
proof -
  from assms obtain k where k: "k \<in> set rows" "ak_hash k = h" "ak_revoked k \<noteq> None"
    by (auto simp: revoked_row_def)
  let ?k = "if P k then k\<lparr>ak_revoked := Some now\<rparr> else k"
  from k have "?k \<in> set (map (\<lambda>k. if P k then k\<lparr>ak_revoked := Some now\<rparr> else k) rows)" by force
  with k show ?thesis unfolding revoked_row_def by (intro bexI [of _ ?k]) auto
qed

lemma revoked_row_step: "revoked_row h (ks_rows s) \<Longrightarrow> revoked_row h (ks_rows (key_step sha tenant oper s))"
  by (rule key_step_rows [of sha tenant oper s]) (simp_all add: revoked_row_map, simp add: revoked_row_def)

lemma revoked_row_run:
  "keys_ok (ks_rows s) \<Longrightarrow> revoked_row h (ks_rows s) \<Longrightarrow>
   keys_ok (ks_rows (run_steps (key_step sha) os s)) \<and> revoked_row h (ks_rows (run_steps (key_step sha) os s))"
proof (induction os arbitrary: s)
  case (Cons p os)
  then show ?case by (cases p) (simp add: key_step_ok revoked_row_step)
qed simp

lemma revoke_marks:
  assumes "k \<in> set (ks_rows s)" shows "revoked_row (ak_hash k) (ks_rows (fst (revoke up (ak_org k) (ak_id k) now s)))"
proof -
  have "k\<lparr>ak_revoked := Some now\<rparr> \<in> set (ks_rows (fst (revoke up (ak_org k) (ak_id k) now s)))"
    using assms by force
  then show ?thesis unfolding revoked_row_def by (rule bexI [rotated]) simp
qed

lemma revoke_ok: "keys_ok (ks_rows s) \<Longrightarrow> keys_ok (ks_rows (fst (revoke up tenant i now s)))"
  by (simp add: keys_ok_def)

text \<open>
  Claim C22.  A revoked key stays dead: once its tenant has revoked a key, its token finds nothing, whatever
  keys any tenants create or revoke afterwards; a key of another tenant cannot be revoked.
\<close>

theorem revoked_token_stays_dead:
  assumes "keys_ok (ks_rows s)" and "find_by_token sha token (ks_rows s) = Inr (Some k)"
    and "revoke up tenant (ak_id k) now s = (s', revoked)"
  shows "revoked = (tenant = ak_org k) \<and>
    (if revoked then find_by_token sha token (ks_rows (run_steps (key_step sha) os s')) = Inr None
     else ks_rows s' = ks_rows s)"
proof -
  have k: "k \<in> set (ks_rows s)" "ak_hash k = sha token"
    using assms(1,2) by (simp_all add: find_by_token_iff)
  have same: "r = k" if "r \<in> set (ks_rows s)" "ak_id r = ak_id k" for r
    using that k(1) assms(1) by (auto simp: keys_ok_def distinct_map dest: inj_onD)
  have only: "filter (\<lambda>r. ak_id r = ak_id k \<and> ak_org r = tenant) (ks_rows s) = [] \<longleftrightarrow> tenant \<noteq> ak_org k"
    using same k(1) by (auto simp: filter_empty_conv)
  have s': "s' = fst (revoke up tenant (ak_id k) now s)" using assms(3) by simp
  have out: "revoked = (tenant = ak_org k)"
    using assms(3) only by (auto simp: revoke_def update_row_def Let_def)
  show ?thesis
  proof (cases "tenant = ak_org k")
    case True
    have "keys_ok (ks_rows s')" "revoked_row (ak_hash k) (ks_rows s')"
      unfolding s' True using assms(1) revoke_marks [OF k(1)] revoke_ok by auto
    from revoked_row_run [OF this, of sha os] have
      ok: "keys_ok (ks_rows (run_steps (key_step sha) os s'))"
        "revoked_row (ak_hash k) (ks_rows (run_steps (key_step sha) os s'))" by auto
    from ok(2) have "find_by_token sha token (ks_rows (run_steps (key_step sha) os s')) = Inr None"
      unfolding revoked_row_def by (auto intro: find_by_token_dead [OF ok(1)] simp: k(2))
    with True out show ?thesis by simp
  next
    case False
    have "ks_rows s' = ks_rows s"
      unfolding s' revoke_rows by (rule map_idI) (use same False in auto)
    with False out show ?thesis by simp
  qed
qed

definition demo_key :: api_key where
  "demo_key = new_key (\<lambda>t. t) 7 30 ''mk_live_a'' ''ci'' 8 [''memory:read''] 5"

definition demo_keys :: key_store where
  "demo_keys = \<lparr>ks_rows = [demo_key], ks_published = (\<lambda>_. None)\<rparr>"

lemma demo_keys_ok: "keys_ok (ks_rows demo_keys)"
  by (simp add: demo_keys_def keys_ok_def)

lemma demo_key_fields: "ak_id demo_key = 30" "ak_org demo_key = 7" "ak_hash demo_key = ''mk_live_a''"
  "ak_revoked demo_key = None" "ak_actor demo_key = 8"
  by (simp_all add: demo_key_def new_key_def)

lemma demo_key_found: "find_by_token (\<lambda>t. t) ''mk_live_a'' (ks_rows demo_keys) = Inr (Some demo_key)"
  by (simp add: find_by_token_iff [OF demo_keys_ok]) (simp add: demo_keys_def demo_key_fields)

lemma demo_revoked: "snd (revoke True 7 30 6 demo_keys)"
  by (simp add: revoke_def update_row_def demo_keys_def demo_key_fields)

theorem revoked_token_stays_dead_witness:
  "find_by_token (\<lambda>t. t) ''mk_live_a''
     (ks_rows (run_steps (key_step (\<lambda>t. t)) [(7, CreateKey True 31 ''a'' ''again'' 8 [] 9)]
        (fst (revoke True 7 30 6 demo_keys)))) = Inr None"
  using revoked_token_stays_dead [OF demo_keys_ok demo_key_found, of True 7 6
      "fst (revoke True 7 30 6 demo_keys)" True "[(7, CreateKey True 31 ''a'' ''again'' 8 [] 9)]"]
  by (simp add: demo_key_fields prod_eq_iff demo_revoked)

end
