(* ===== verification/Request_Gate.thy ===== *)
theory Request_Gate
  imports Api_Keys Py_Uuid
begin

section \<open>Authentication and tenancy\<close>

text \<open>
  The two middlewares every request passes before the handlers: \<open>AuthenticationMiddleware\<close>
  (\<open>contexta/api/middleware/auth.py\<close>) and \<open>TenantMiddleware\<close> (\<open>contexta/api/middleware/tenant.py\<close>).
  A dispatch either answers itself (\<open>Inl\<close>, the refusal) or calls the next layer (\<open>Inr\<close>, with the
  request state it leaves).  \<open>request.state\<close> is the record \<open>auth_state\<close>; an attribute that was never
  set reads as \<open>None\<close> or \<open>False\<close>, the defaults of the code's \<open>getattr\<close>.  The process environment
  (\<open>CONTEXTA_ALLOW_LEGACY_TENANT_HEADERS\<close>, whether pytest is loaded, whether the database answers) is
  the record \<open>gate_env\<close>.  A set of header values is a list without its order being used.
\<close>

subsection \<open>Requests and their state\<close>

record http_request =
  hr_method :: string
  hr_path :: string
  hr_query :: string
  hr_params :: "(string \<times> string) list"
  hr_headers :: "(string \<times> string) list"
  hr_body :: string
  hr_host :: "string option"

record auth_state =
  as_actor :: "string option"
  as_org :: "string option"
  as_key :: "string option"
  as_authenticated :: bool
  as_verified :: bool
  as_compatibility :: bool
  as_fallback :: bool
  as_header_present :: bool
  as_source :: "string option"
  as_tier :: "string option"

record gate_env =
  ge_legacy :: "string option"
  ge_pytest :: bool
  ge_db_up :: bool

record refusal =
  rf_status :: nat
  rf_error :: "string option"
  rf_detail :: "string option"

definition blank_state :: auth_state where
  "blank_state = \<lparr>as_actor = None, as_org = None, as_key = None, as_authenticated = False, as_verified = False,
     as_compatibility = False, as_fallback = False, as_header_present = False, as_source = None, as_tier = None\<rparr>"

definition public_paths :: "string list" where
  "public_paths = [''/healthz'', ''/readyz'', ''/metrics'', ''/docs'', ''/redoc'', ''/openapi.json'',
     ''/v1/auth/signup'', ''/v1/auth/signin'', ''/v1/auth/reset-password'', ''/v1/auth/emergency-wipe-reset'',
     ''/v1/auth/onboarding'', ''/v1/auth/verify-email'', ''/v1/auth/forgot-password'']"

definition organization_headers :: "string list" where
  "organization_headers = [''x-organization-id'', ''x-org-id'', ''X-Mem-Tenant-Id'', ''x-mem-tenant-id'']"

definition actor_headers :: "string list" where
  "actor_headers = [''x-user-id'', ''x-contexta-user-id'', ''X-Mem-Actor-Id'', ''x-mem-actor-id'']"

definition is_public_path :: "string \<Rightarrow> bool" where
  "is_public_path path \<longleftrightarrow> path \<in> set public_paths \<or>
     list_ex (starts_with path) [''/docs/'', ''/redoc/'', ''/openapi.json'']"

text \<open>Header names are compared without case.\<close>

definition getlist :: "(string \<times> string) list \<Rightarrow> string \<Rightarrow> string list" where
  "getlist hs name = map snd (filter (\<lambda>h. lower (fst h) = lower name) hs)"

definition get_header :: "http_request \<Rightarrow> string \<Rightarrow> string" where
  "get_header q name = (case getlist (hr_headers q) name of v # _ \<Rightarrow> v | [] \<Rightarrow> [])"

definition present_values :: "string list \<Rightarrow> string list" where
  "present_values vs = filter (\<lambda>v. v \<noteq> []) (map strip vs)"

definition header_values :: "http_request \<Rightarrow> string list \<Rightarrow> string list" where
  "header_values q names = present_values (concat (map (getlist (hr_headers q)) names))"

definition query_values :: "http_request \<Rightarrow> string list \<Rightarrow> string list" where
  "query_values q names =
     present_values (concat (map (\<lambda>n. map snd (filter (\<lambda>p. fst p = n) (hr_params q))) names))"

text \<open>The one UUID a set of values denotes.\<close>

definition one_uuid :: "'e \<Rightarrow> 'e \<Rightarrow> string list \<Rightarrow> 'e + uuid option" where
  "one_uuid bad disagree vs =
     (if vs = [] then Inr None
      else case those (map uuid_of vs) of
             None \<Rightarrow> Inl bad
           | Some us \<Rightarrow> (case remdups us of [u] \<Rightarrow> Inr (Some u) | _ \<Rightarrow> Inl disagree))"

subsection \<open>Authentication\<close>

definition auth_error :: "nat \<Rightarrow> string \<Rightarrow> string option \<Rightarrow> refusal" where
  "auth_error status err detail = \<lparr>rf_status = status, rf_error = Some err, rf_detail = detail\<rparr>"

definition identity_error :: "string \<Rightarrow> refusal" where
  "identity_error detail = auth_error 400 ''invalid_identity_header'' (Some detail)"

definition read_uuid_headers :: "http_request \<Rightarrow> string list \<Rightarrow> refusal + uuid option" where
  "read_uuid_headers q names =
     one_uuid (identity_error ''Identity header must be a UUID.'')
       (identity_error ''Identity headers disagree.'') (header_values q names)"

definition legacy_headers_allowed :: "gate_env \<Rightarrow> bool" where
  "legacy_headers_allowed env =
     (case ge_legacy env of
        None \<Rightarrow> ge_pytest env
      | Some v \<Rightarrow> lower (strip v) \<in> {''1'', ''true'', ''yes'', ''on''})"

definition state_uuid :: "string option \<Rightarrow> uuid option" where
  "state_uuid v = (if truthy v then uuid_of (the v) else None)"

definition has_verified_state :: "auth_state \<Rightarrow> bool" where
  "has_verified_state st \<longleftrightarrow> as_verified st \<or> (as_authenticated st \<and> truthy (as_key st))"

text \<open>The token a request presents; the empty string if it presents none.\<close>

definition bearer_value :: "string \<Rightarrow> string option" where
  "bearer_value authorization =
     (let scheme = takeWhile (\<lambda>c. c \<noteq> CHR '' '') authorization;
          rest = dropWhile (\<lambda>c. c \<noteq> CHR '' '') authorization
      in if lower scheme \<noteq> ''bearer'' \<or> rest = [] \<or> strip (tl rest) = [] then None
         else Some (strip (tl rest)))"

definition request_token :: "http_request \<Rightarrow> refusal + string" where
  "request_token q =
     (let authorization = strip (get_header q ''authorization'') in
      if authorization \<noteq> [] then
        (case bearer_value authorization of
           None \<Rightarrow> Inl (auth_error 401 ''invalid_api_key'' None)
         | Some token \<Rightarrow> Inr token)
      else
        let token = strip (get_header q ''x-api-key'')
        in Inr (if starts_with (lower token) ''bearer '' then strip (drop 7 token) else token))"

definition set_state ::
  "uuid option \<Rightarrow> uuid option \<Rightarrow> string option \<Rightarrow> bool \<Rightarrow> bool \<Rightarrow> bool \<Rightarrow> bool \<Rightarrow> bool \<Rightarrow> string option \<Rightarrow>
   auth_state \<Rightarrow> auth_state" where
  "set_state actor org key authenticated verified compatibility fallback header_present source st =
     \<lparr>as_actor = map_option uuid_str actor, as_org = map_option uuid_str org, as_key = key,
      as_authenticated = authenticated, as_verified = verified, as_compatibility = compatibility,
      as_fallback = fallback, as_header_present = header_present, as_source = source, as_tier = as_tier st\<rparr>"

text \<open>The request's headers may name an identity, but only the one that was authenticated.\<close>

definition agree_with :: "uuid option \<Rightarrow> uuid option \<Rightarrow> uuid option \<Rightarrow> uuid option \<Rightarrow> refusal option" where
  "agree_with header_org header_actor org actor =
     (if header_org \<noteq> None \<and> header_org \<noteq> org then Some (auth_error 403 ''organization_mismatch'' None)
      else if header_actor \<noteq> None \<and> header_actor \<noteq> actor then Some (auth_error 403 ''actor_mismatch'' None)
      else None)"

definition auth_with_token ::
  "gate_env \<Rightarrow> (string \<Rightarrow> string) \<Rightarrow> api_key list \<Rightarrow> string \<Rightarrow> uuid option \<Rightarrow> uuid option \<Rightarrow> auth_state \<Rightarrow>
   refusal + auth_state" where
  "auth_with_token env sha keys token header_org header_actor st =
     (if \<not> ge_db_up env then Inl (auth_error 503 ''authentication_unavailable'' None)
      else case find_by_token sha token keys of
        Inl _ \<Rightarrow> Inl (auth_error 503 ''authentication_unavailable'' None)
      | Inr None \<Rightarrow> Inl (auth_error 401 ''invalid_api_key'' None)
      | Inr (Some k) \<Rightarrow>
          (case (uuid_of (uuid_str (ak_org k)), uuid_of (uuid_str (ak_actor k))) of
             (Some org, Some actor) \<Rightarrow>
               if has_verified_state st \<and>
                  (state_uuid (as_org st) \<noteq> Some org \<or> state_uuid (as_actor st) \<noteq> Some actor)
               then Inl (auth_error 403 ''identity_mismatch'' None)
               else (case agree_with header_org header_actor (Some org) (Some actor) of
                  Some e \<Rightarrow> Inl e
                | None \<Rightarrow>
                    Inr (set_state (Some actor) (Some org) (Some (uuid_str (ak_id k))) True True False False
                      (header_org \<noteq> None \<or> header_actor \<noteq> None) (Some ''api_key'')
                      (st\<lparr>as_tier := Some (if ak_tier k = [] then ''standard'' else ak_tier k)\<rparr>)))
           | _ \<Rightarrow> Inl (auth_error 401 ''invalid_api_key'' None)))"

definition auth_existing ::
  "bool \<Rightarrow> string \<Rightarrow> uuid option \<Rightarrow> uuid option \<Rightarrow> auth_state \<Rightarrow> refusal + auth_state" where
  "auth_existing verified fallback_source header_org header_actor st =
     (let org = state_uuid (as_org st); actor = state_uuid (as_actor st) in
      case agree_with header_org header_actor org actor of
        Some e \<Rightarrow> Inl e
      | None \<Rightarrow>
          Inr (set_state actor org (as_key st) verified verified (\<not> verified)
            (\<not> verified \<and> as_fallback st) (header_org \<noteq> None \<or> header_actor \<noteq> None)
            (Some (if truthy (as_source st) then the (as_source st) else fallback_source)) st))"

definition identify ::
  "gate_env \<Rightarrow> (string \<Rightarrow> string) \<Rightarrow> api_key list \<Rightarrow> uuid option \<Rightarrow> uuid option \<Rightarrow> auth_state \<Rightarrow> string \<Rightarrow>
   refusal + auth_state" where
  "identify env sha keys header_org header_actor st token =
     (if token \<noteq> [] then auth_with_token env sha keys token header_org header_actor st
      else if has_verified_state st then auth_existing True ''preverified'' header_org header_actor st
      else if state_uuid (as_org st) \<noteq> None \<and> (as_compatibility st \<or> as_fallback st)
      then auth_existing False ''preauthenticated'' header_org header_actor st
      else if header_org \<noteq> None \<and> header_actor \<noteq> None then
        (if \<not> legacy_headers_allowed env then Inl (auth_error 401 ''authentication_required'' None)
         else Inr (set_state header_actor header_org None False False True False True
                (Some ''legacy_headers'') st))
      else if header_org \<noteq> None \<or> header_actor \<noteq> None
      then Inl (auth_error 401 ''authentication_required'' None)
      else if ge_pytest env
      then Inr (set_state (Some 0) (Some 0) None False False True True False (Some ''test'') st)
      else Inl (auth_error 401 ''authentication_required'' None))"

definition valid_context :: "auth_state \<Rightarrow> bool" where
  "valid_context st \<longleftrightarrow>
     (let org = state_uuid (as_org st); actor = state_uuid (as_actor st) in
      \<not> (has_verified_state st \<and> (org = None \<or> actor = None)) \<and> (org = None) = (actor = None))"

definition authenticate ::
  "gate_env \<Rightarrow> (string \<Rightarrow> string) \<Rightarrow> api_key list \<Rightarrow> http_request \<Rightarrow> auth_state \<Rightarrow> refusal + auth_state" where
  "authenticate env sha keys q st =
     (if is_public_path (hr_path q) then Inr (set_state None None None False False False False False None st)
      else
        ebind (read_uuid_headers q organization_headers) (\<lambda>header_org.
        ebind (read_uuid_headers q actor_headers) (\<lambda>header_actor.
          if \<not> valid_context st then Inl (auth_error 401 ''invalid_authenticated_context'' None)
          else ebind (request_token q) (identify env sha keys header_org header_actor st))))"

subsection \<open>Tenancy\<close>

definition tenant_error :: "nat \<Rightarrow> string \<Rightarrow> refusal" where
  "tenant_error status detail = \<lparr>rf_status = status, rf_error = None, rf_detail = Some detail\<rparr>"

definition tenant_uuid :: "string \<Rightarrow> string \<Rightarrow> string list \<Rightarrow> refusal + uuid option" where
  "tenant_uuid field what vs =
     one_uuid (tenant_error 400 (field @ '' must be a UUID.''))
       (tenant_error 400 (field @ what @ '' disagree.'')) vs"

definition as_uuid :: "string option \<Rightarrow> string \<Rightarrow> refusal + uuid option" where
  "as_uuid v field =
     (if \<not> truthy v then Inr None
      else case uuid_of (the v) of
             None \<Rightarrow> Inl (tenant_error 400 (field @ '' must be a UUID.''))
           | Some u \<Rightarrow> Inr (Some u))"

definition differs :: "uuid option \<Rightarrow> uuid option \<Rightarrow> bool" where
  "differs a b \<longleftrightarrow> a \<noteq> None \<and> a \<noteq> b"

definition tenant_decision ::
  "auth_state \<Rightarrow> uuid option \<Rightarrow> uuid option \<Rightarrow> uuid option \<Rightarrow> uuid option \<Rightarrow> uuid option \<Rightarrow> uuid option \<Rightarrow>
   refusal option" where
  "tenant_decision st state_org state_actor header_org header_actor query_org query_actor =
     (if as_fallback st \<and> header_org = None \<and> header_actor = None then None
      else if as_verified st \<and> (state_org = None \<or> state_actor = None)
      then Some (tenant_error 401 ''Authenticated tenant context is invalid.'')
      else if (state_org = None) \<noteq> (state_actor = None)
      then Some (tenant_error 401 ''Authenticated tenant context is incomplete.'')
      else if state_org = None then
        (if header_org \<noteq> None \<and> query_org \<noteq> None \<and> header_org \<noteq> query_org
         then Some (tenant_error 403 ''Request organization_id does not match the organization header.'')
         else if header_actor \<noteq> None \<and> query_actor \<noteq> None \<and> header_actor \<noteq> query_actor
         then Some (tenant_error 403 ''Request user_id does not match the actor header.'')
         else if header_org \<noteq> None \<or> header_actor \<noteq> None \<or> query_org \<noteq> None \<or> query_actor \<noteq> None
         then Some (tenant_error 401 ''Authentication required.'')
         else None)
      else if differs header_org state_org
      then Some (tenant_error 403 ''Authenticated tenant does not match request organization_id.'')
      else if differs query_org state_org
      then Some (tenant_error 403 ''Authenticated tenant does not match request organization_id.'')
      else if differs header_actor state_actor
      then Some (tenant_error 403 ''Authenticated actor does not match request user identity.'')
      else if differs query_actor state_actor
      then Some (tenant_error 403 ''Authenticated actor does not match request user_id.'')
      else None)"

definition check_tenant :: "http_request \<Rightarrow> auth_state \<Rightarrow> refusal + auth_state" where
  "check_tenant q st =
     (if is_public_path (hr_path q) then Inr st
      else
        ebind (as_uuid (as_org st) ''organization_id'') (\<lambda>state_org.
        ebind (as_uuid (as_actor st) ''actor_id'') (\<lambda>state_actor.
        ebind (tenant_uuid ''organization_id'' '' headers'' (header_values q organization_headers)) (\<lambda>header_org.
        ebind (tenant_uuid ''actor_id'' '' headers'' (header_values q actor_headers)) (\<lambda>header_actor.
        ebind (tenant_uuid ''organization_id'' '' query parameters''
          (query_values q [''organization_id''])) (\<lambda>query_org.
        ebind (tenant_uuid ''actor_id'' '' query parameters''
          (query_values q [''user_id'', ''actor_id''])) (\<lambda>query_actor.
          case tenant_decision st state_org state_actor header_org header_actor query_org query_actor of
            Some e \<Rightarrow> Inl e
          | None \<Rightarrow> Inr st)))))))"

text \<open>The two layers in the order the application installs them.\<close>

definition gate ::
  "gate_env \<Rightarrow> (string \<Rightarrow> string) \<Rightarrow> api_key list \<Rightarrow> http_request \<Rightarrow> auth_state \<Rightarrow> refusal + auth_state" where
  "gate env sha keys q st = ebind (authenticate env sha keys q st) (check_tenant q)"

end
