(* ===== verification/Gate_Claims.thy ===== *)
theory Gate_Claims
  imports Request_Gate
begin

section \<open>What the gate guarantees\<close>

text \<open>
  Facts about \<open>Request_Gate\<close>: which requests pass in production, and that a request that passes has
  one identity, the one its state, its headers and its query parameters all name.
\<close>

subsection \<open>Reading identities\<close>

definition names_only :: "string list \<Rightarrow> uuid \<Rightarrow> bool" where
  "names_only vs u \<longleftrightarrow> (\<forall>v \<in> set vs. uuid_of v = Some u)"

definition request_names :: "http_request \<Rightarrow> uuid \<Rightarrow> uuid \<Rightarrow> bool" where
  "request_names q org actor \<longleftrightarrow>
     names_only (header_values q organization_headers) org \<and> names_only (header_values q actor_headers) actor \<and>
     names_only (query_values q [''organization_id'']) org \<and>
     names_only (query_values q [''user_id'', ''actor_id'']) actor"

lemma those_map_Some: "those (map f xs) = Some ys \<longleftrightarrow> map f xs = map Some ys"
proof (induction xs arbitrary: ys)
  case (Cons x xs)
  then show ?case by (cases ys) (auto split: option.split)
qed auto

lemma remdups_single: "remdups us = [u] \<longleftrightarrow> us \<noteq> [] \<and> set us \<subseteq> {u}"
proof
  assume "remdups us = [u]"
  then have "set us = {u}" by (metis list.simps(15) empty_set set_remdups)
  then show "us \<noteq> [] \<and> set us \<subseteq> {u}" by auto
next
  have "us = [] \<or> remdups us = [u]" if "set us \<subseteq> {u}"
    using that by (induction us) (auto dest: arg_cong [where f = set])
  moreover assume "us \<noteq> [] \<and> set us \<subseteq> {u}"
  ultimately show "remdups us = [u]" by blast
qed

lemma those_Some [simp]: "those (map Some us) = Some us"
  by (simp add: those_map_Some [of Some, simplified])

lemma one_uuid_None [simp]: "one_uuid bad disagree vs = Inr None \<longleftrightarrow> vs = []"
  by (simp add: one_uuid_def split: option.split list.split)

lemma one_uuid_Some [simp]:
  "one_uuid bad disagree vs = Inr (Some u) \<longleftrightarrow> vs \<noteq> [] \<and> names_only vs u"
proof -
  have "one_uuid bad disagree vs = Inr (Some u) \<longleftrightarrow>
      vs \<noteq> [] \<and> (\<exists>us. map uuid_of vs = map Some us \<and> us \<noteq> [] \<and> set us \<subseteq> {u})"
    by (auto simp: one_uuid_def those_map_Some remdups_single [symmetric] split: option.splits list.splits)
  also have "\<dots> \<longleftrightarrow> vs \<noteq> [] \<and> names_only vs u"
  proof (intro iffI; elim conjE exE; intro conjI)
    fix us assume "vs \<noteq> []" and us: "map uuid_of vs = map Some us" "set us \<subseteq> {u}"
    have "uuid_of v = Some u" if "v \<in> set vs" for v
    proof -
      have "uuid_of v \<in> set (map Some us)" using that unfolding us(1) [symmetric] by simp
      with us(2) show ?thesis by auto
    qed
    then show "names_only vs u" by (simp add: names_only_def)
  next
    assume "vs \<noteq> []" and "names_only vs u"
    then show "\<exists>us. map uuid_of vs = map Some us \<and> us \<noteq> [] \<and> set us \<subseteq> {u}"
      by (intro exI [of _ "map (\<lambda>_. u) vs"]) (auto simp: names_only_def)
  qed
  finally show ?thesis .
qed

lemma one_uuid_agrees:
  "one_uuid bad disagree vs = Inr h \<Longrightarrow> (h = None \<or> h = Some u) \<longleftrightarrow> names_only vs u"
  by (cases h) (auto simp: names_only_def)

lemma one_uuid_names: "names_only vs u \<Longrightarrow> one_uuid bad disagree vs = Inr (if vs = [] then None else Some u)"
  by auto

lemma state_uuid_bound: "state_uuid v = Some u \<Longrightarrow> u < 2 ^ 128"
  unfolding state_uuid_def by (rule uuid_of_bound [of "the v"]) (simp split: if_splits)

lemma uuid_str_nonempty [simp]: "uuid_str u \<noteq> []"
  by (simp add: uuid_str_def Let_def hyphen_def)

lemma as_uuid_printed: "u < 2 ^ 128 \<Longrightarrow> as_uuid (Some (uuid_str u)) field = Inr (Some u)"
  by (simp add: as_uuid_def uuid_roundtrip)

subsection \<open>Tenancy\<close>

text \<open>A state with an identity that is not the test fallback passes exactly if the request names it.\<close>

lemma check_tenant_iff:
  assumes "\<not> is_public_path (hr_path q)" and "\<not> as_fallback st"
    and "as_org st = Some (uuid_str org)" "as_actor st = Some (uuid_str actor)"
    and "org < 2 ^ 128" "actor < 2 ^ 128"
  shows "check_tenant q st = Inr st' \<longleftrightarrow> request_names q org actor \<and> st' = st"
proof
  assume "check_tenant q st = Inr st'"
  then obtain ho ha qo qa where
      r: "tenant_uuid ''organization_id'' '' headers'' (header_values q organization_headers) = Inr ho"
      "tenant_uuid ''actor_id'' '' headers'' (header_values q actor_headers) = Inr ha"
      "tenant_uuid ''organization_id'' '' query parameters'' (query_values q [''organization_id'']) = Inr qo"
      "tenant_uuid ''actor_id'' '' query parameters'' (query_values q [''user_id'', ''actor_id'']) = Inr qa"
    and d: "tenant_decision st (Some org) (Some actor) ho ha qo qa = None" and st': "st' = st"
    using assms(1) unfolding check_tenant_def assms(3,4) as_uuid_printed [OF assms(5)]
      as_uuid_printed [OF assms(6)]
    by (auto simp: ebind_Inr_iff split: option.splits)
  from d assms(2) have "ho = None \<or> ho = Some org" "qo = None \<or> qo = Some org"
      "ha = None \<or> ha = Some actor" "qa = None \<or> qa = Some actor"
    by (auto simp: tenant_decision_def differs_def split: if_splits)
  with r show "request_names q org actor \<and> st' = st"
    unfolding request_names_def tenant_uuid_def using st' by (auto simp: one_uuid_agrees)
next
  assume n: "request_names q org actor \<and> st' = st"
  then have reads:
      "one_uuid b d (header_values q organization_headers) =
         Inr (if header_values q organization_headers = [] then None else Some org)"
      "one_uuid b d (header_values q actor_headers) =
         Inr (if header_values q actor_headers = [] then None else Some actor)"
      "one_uuid b d (query_values q [''organization_id'']) =
         Inr (if query_values q [''organization_id''] = [] then None else Some org)"
      "one_uuid b d (query_values q [''user_id'', ''actor_id'']) =
         Inr (if query_values q [''user_id'', ''actor_id''] = [] then None else Some actor)" for b d :: refusal
    unfolding request_names_def by (blast intro: one_uuid_names)+
  from n show "check_tenant q st = Inr st'"
    using assms(1,2) unfolding check_tenant_def assms(3,4) as_uuid_printed [OF assms(5)]
      as_uuid_printed [OF assms(6)]
    by (simp add: tenant_uuid_def reads tenant_decision_def differs_def)
qed

subsection \<open>Authentication\<close>

definition key_state :: "http_request \<Rightarrow> api_key \<Rightarrow> auth_state" where
  "key_state q k =
     \<lparr>as_actor = Some (uuid_str (ak_actor k)), as_org = Some (uuid_str (ak_org k)),
      as_key = Some (uuid_str (ak_id k)), as_authenticated = True, as_verified = True,
      as_compatibility = False, as_fallback = False,
      as_header_present = (header_values q organization_headers \<noteq> [] \<or> header_values q actor_headers \<noteq> []),
      as_source = Some ''api_key'', as_tier = Some (if ak_tier k = [] then ''standard'' else ak_tier k)\<rparr>"

definition keys_bounded :: "api_key list \<Rightarrow> bool" where
  "keys_bounded keys \<longleftrightarrow> (\<forall>k \<in> set keys. ak_org k < 2 ^ 128 \<and> ak_actor k < 2 ^ 128)"

lemma agree_with_None:
  "agree_with ho ha (Some org) (Some actor) = None \<longleftrightarrow>
     (ho = None \<or> ho = Some org) \<and> (ha = None \<or> ha = Some actor)"
  by (auto simp: agree_with_def)

lemma blank_state_facts [simp]:
  "\<not> has_verified_state blank_state" "state_uuid (as_org blank_state) = None"
  "state_uuid (as_actor blank_state) = None" "\<not> as_compatibility blank_state" "\<not> as_fallback blank_state"
  by (simp_all add: has_verified_state_def state_uuid_def blank_state_def)

lemma token_iff:
  assumes "keys_ok keys" and "keys_bounded keys" and "ge_db_up env"
    and "read_uuid_headers q organization_headers = Inr ho" and "read_uuid_headers q actor_headers = Inr ha"
  shows "auth_with_token env sha keys token ho ha blank_state = Inr st \<longleftrightarrow>
    (\<exists>k \<in> set keys. ak_hash k = sha token \<and> ak_revoked k = None \<and>
       names_only (header_values q organization_headers) (ak_org k) \<and>
       names_only (header_values q actor_headers) (ak_actor k) \<and> st = key_state q k)"
proof -
  have present: "(ho \<noteq> None) = (header_values q organization_headers \<noteq> [])"
      "(ha \<noteq> None) = (header_values q actor_headers \<noteq> [])"
    using assms(4,5) one_uuid_None unfolding read_uuid_headers_def by (metis sum.inject(2))+
  have agree: "(ho = None \<or> ho = Some u) = names_only (header_values q organization_headers) u"
      "(ha = None \<or> ha = Some u) = names_only (header_values q actor_headers) u" for u
    using assms(4,5) unfolding read_uuid_headers_def by (auto simp: one_uuid_agrees)
  show ?thesis
  proof (cases "find_by_token sha token keys")
    case (Inl e)
    have "find_by_token sha token keys \<noteq> Inl e"
      unfolding find_by_token_def using assms(1)
      by (intro one_or_none_unique [where f = ak_hash and v = "sha token"]) (auto simp: keys_ok_def)
    with Inl show ?thesis by simp
  next
    case (Inr found)
    show ?thesis
    proof (cases found)
      case None
      with Inr have "\<not> (ak_hash k = sha token \<and> ak_revoked k = None)" if "k \<in> set keys" for k
        using that by (auto simp: find_by_token_def one_or_none_None)
      with Inr None show ?thesis by (auto simp: auth_with_token_def)
    next
      case (Some k)
      with Inr have k: "k \<in> set keys" "ak_hash k = sha token" "ak_revoked k = None"
        by (simp_all add: find_by_token_iff [OF assms(1)])
      have only: "k' = k" if "k' \<in> set keys" "ak_hash k' = sha token" "ak_revoked k' = None" for k'
      proof -
        from that have "find_by_token sha token keys = Inr (Some k')"
          by (simp add: find_by_token_iff [OF assms(1)])
        with Inr Some show ?thesis by simp
      qed
      have read: "uuid_of (uuid_str (ak_org k)) = Some (ak_org k)"
          "uuid_of (uuid_str (ak_actor k)) = Some (ak_actor k)"
        using assms(2) k(1) by (auto simp: keys_bounded_def uuid_roundtrip)
      have "auth_with_token env sha keys token ho ha blank_state = Inr st \<longleftrightarrow>
          agree_with ho ha (Some (ak_org k)) (Some (ak_actor k)) = None \<and> st = key_state q k"
        using assms(3) Inr Some present
        by (auto simp: auth_with_token_def read key_state_def set_state_def split: option.split)
      also have "\<dots> \<longleftrightarrow> names_only (header_values q organization_headers) (ak_org k) \<and>
          names_only (header_values q actor_headers) (ak_actor k) \<and> st = key_state q k"
        by (auto simp: agree_with_None agree)
      finally have out: "auth_with_token env sha keys token ho ha blank_state = Inr st \<longleftrightarrow>
          names_only (header_values q organization_headers) (ak_org k) \<and>
          names_only (header_values q actor_headers) (ak_actor k) \<and> st = key_state q k" .
      show ?thesis unfolding out using k only by blast
    qed
  qed
qed

lemma production_authenticates:
  assumes "\<not> ge_pytest env" and "ge_legacy env = None" and "\<not> is_public_path (hr_path q)"
  shows "authenticate env sha keys q blank_state = Inr st \<longleftrightarrow>
    (\<exists>ho ha token. read_uuid_headers q organization_headers = Inr ho \<and> read_uuid_headers q actor_headers = Inr ha \<and>
       request_token q = Inr token \<and> token \<noteq> [] \<and> auth_with_token env sha keys token ho ha blank_state = Inr st)"
  using assms
  by (auto simp: authenticate_def valid_context_def identify_def ebind_Inr_iff legacy_headers_allowed_def
      split: if_splits)

lemma production_gate:
  assumes "\<not> ge_pytest env" and "ge_legacy env = None" and "ge_db_up env"
    and "\<not> is_public_path (hr_path q)" and "keys_ok keys" and "keys_bounded keys"
  shows "gate env sha keys q blank_state = Inr st \<longleftrightarrow>
    (\<exists>token. \<exists>k \<in> set keys. request_token q = Inr token \<and> token \<noteq> [] \<and> ak_hash k = sha token \<and>
       ak_revoked k = None \<and> request_names q (ak_org k) (ak_actor k) \<and> st = key_state q k)"
proof
  assume "gate env sha keys q blank_state = Inr st"
  then obtain st' where a: "authenticate env sha keys q blank_state = Inr st'" and c: "check_tenant q st' = Inr st"
    unfolding gate_def by (rule ebind_InrE)
  from a obtain ho ha token where t: "read_uuid_headers q organization_headers = Inr ho"
      "read_uuid_headers q actor_headers = Inr ha" "request_token q = Inr token" "token \<noteq> []"
      "auth_with_token env sha keys token ho ha blank_state = Inr st'"
    using production_authenticates [OF assms(1,2,4)] by blast
  from t(5) obtain k where k: "k \<in> set keys" "ak_hash k = sha token" "ak_revoked k = None" "st' = key_state q k"
    using token_iff [OF assms(5,6,3) t(1,2)] by blast
  then have "ak_org k < 2 ^ 128" "ak_actor k < 2 ^ 128" using assms(6) by (simp_all add: keys_bounded_def)
  then have "request_names q (ak_org k) (ak_actor k) \<and> st = st'"
    using c check_tenant_iff [OF assms(4), of st' "ak_org k" "ak_actor k" st] k(4) by (simp add: key_state_def)
  with t k show "\<exists>token. \<exists>k \<in> set keys. request_token q = Inr token \<and> token \<noteq> [] \<and> ak_hash k = sha token \<and>
       ak_revoked k = None \<and> request_names q (ak_org k) (ak_actor k) \<and> st = key_state q k" by blast
next
  assume "\<exists>token. \<exists>k \<in> set keys. request_token q = Inr token \<and> token \<noteq> [] \<and> ak_hash k = sha token \<and>
       ak_revoked k = None \<and> request_names q (ak_org k) (ak_actor k) \<and> st = key_state q k"
  then obtain token k where k: "k \<in> set keys" "request_token q = Inr token" "token \<noteq> []" "ak_hash k = sha token"
      "ak_revoked k = None" "request_names q (ak_org k) (ak_actor k)" "st = key_state q k" by blast
  from k(6) obtain ho ha where h: "read_uuid_headers q organization_headers = Inr ho"
      "read_uuid_headers q actor_headers = Inr ha"
    unfolding request_names_def read_uuid_headers_def by (auto dest: one_uuid_names)
  have "auth_with_token env sha keys token ho ha blank_state = Inr st"
    using k token_iff [OF assms(5,6,3) h] unfolding request_names_def by blast
  then have a: "authenticate env sha keys q blank_state = Inr st"
    using production_authenticates [OF assms(1,2,4)] h k(2,3) by blast
  have "ak_org k < 2 ^ 128" "ak_actor k < 2 ^ 128" using assms(6) k(1) by (simp_all add: keys_bounded_def)
  then have "check_tenant q st = Inr st"
    using check_tenant_iff [OF assms(4), of st "ak_org k" "ak_actor k" st] k(6,7) by (simp add: key_state_def)
  with a show "gate env sha keys q blank_state = Inr st" by (simp add: gate_def)
qed

text \<open>
  Claim C6.  In production (no pytest, legacy headers not enabled, the database up, a fresh
  request state) a request for a path that is not public passes authentication and tenancy
  exactly if it presents the token of a key that is not revoked and every organisation and actor
  its headers and query name is that key's; what the handlers then see is that key's identity.
\<close>

theorem gate_admits_exactly_key_holders:
  assumes "\<not> ge_pytest env" and "ge_legacy env = None" and "ge_db_up env"
    and "\<not> is_public_path (hr_path q)" and "keys_ok keys" and "keys_bounded keys"
  shows "gate env sha keys q blank_state = Inr st \<longleftrightarrow>
    (\<exists>token. \<exists>k \<in> set keys. request_token q = Inr token \<and> token \<noteq> [] \<and> ak_hash k = sha token \<and>
       ak_revoked k = None \<and> request_names q (ak_org k) (ak_actor k) \<and> st = key_state q k)"
  using assms by (rule production_gate)

subsection \<open>One identity\<close>

text \<open>What every accepting branch of authentication leaves on a path that is not public.\<close>

definition state_names :: "auth_state \<Rightarrow> uuid \<Rightarrow> uuid \<Rightarrow> bool" where
  "state_names st org actor \<longleftrightarrow> as_org st = Some (uuid_str org) \<and> as_actor st = Some (uuid_str actor) \<and>
     org < 2 ^ 128 \<and> actor < 2 ^ 128"

lemma set_state_names:
  "org < 2 ^ 128 \<Longrightarrow> actor < 2 ^ 128 \<Longrightarrow> state_names (set_state (Some actor) (Some org) k a v c f h s st) org actor"
  by (simp add: state_names_def set_state_def)

lemma read_uuid_headers_bound: "read_uuid_headers q names = Inr (Some u) \<Longrightarrow> u < 2 ^ 128"
  unfolding read_uuid_headers_def one_uuid_Some names_only_def
  by (cases "header_values q names") (auto dest: uuid_of_bound)

lemma token_names:
  assumes "auth_with_token env sha keys token ho ha st = Inr st'"
  shows "\<exists>org actor. state_names st' org actor"
  using assms unfolding auth_with_token_def
  by (fastforce split: if_splits sum.splits option.splits intro: set_state_names dest: uuid_of_bound)

lemma existing_names:
  assumes "auth_existing v src ho ha st = Inr st'" and "state_uuid (as_org st) \<noteq> None" and "state_uuid (as_actor st) \<noteq> None"
  shows "\<exists>org actor. state_names st' org actor"
  using assms unfolding auth_existing_def Let_def
  by (fastforce split: option.splits intro: set_state_names dest: state_uuid_bound)

lemma authenticate_names:
  assumes "authenticate env sha keys q st = Inr st'" and "\<not> is_public_path (hr_path q)"
  shows "\<exists>org actor. state_names st' org actor"
proof -
  let ?org = "state_uuid (as_org st)" and ?actor = "state_uuid (as_actor st)"
  from assms have "ebind (read_uuid_headers q organization_headers) (\<lambda>ho. ebind (read_uuid_headers q actor_headers)
      (\<lambda>ha. if \<not> valid_context st then Inl (auth_error 401 ''invalid_authenticated_context'' None)
        else ebind (request_token q) (identify env sha keys ho ha st))) = Inr st'"
    by (simp add: authenticate_def)
  then obtain ho ha token where r: "read_uuid_headers q organization_headers = Inr ho"
      "read_uuid_headers q actor_headers = Inr ha"
    and ok: "valid_context st" and branch: "identify env sha keys ho ha st token = Inr st'"
    by (elim ebind_InrE) (auto elim: ebind_InrE split: if_splits)
  from ok have both: "has_verified_state st \<Longrightarrow> ?org \<noteq> None" "(?org = None) = (?actor = None)"
    by (simp_all add: valid_context_def Let_def)
  show ?thesis
  proof (cases "token \<noteq> []")
    case True
    with branch show ?thesis by (intro token_names) (simp add: identify_def)
  next
    case empty: False
    show ?thesis
    proof (cases "has_verified_state st \<or> ?org \<noteq> None \<and> (as_compatibility st \<or> as_fallback st)")
      case True
      with both have "?org \<noteq> None" "?actor \<noteq> None" by auto
      moreover from True branch empty have "\<exists>v src. auth_existing v src ho ha st = Inr st'"
        by (auto simp: identify_def split: if_splits)
      ultimately show ?thesis by (auto intro: existing_names)
    next
      case False
      with branch empty have "(\<exists>o' a. ho = Some o' \<and> ha = Some a \<and> st' = set_state (Some a) (Some o') None
            False False True False True (Some ''legacy_headers'') st) \<or>
          st' = set_state (Some 0) (Some 0) None False False True True False (Some ''test'') st"
        by (cases ho; cases ha) (simp_all add: identify_def split: if_splits)
      moreover have "state_names (set_state (Some 0) (Some 0) k a v c f h s st) 0 0" for k a v c f h s
        by (rule set_state_names) simp_all
      ultimately show ?thesis using r by (metis set_state_names read_uuid_headers_bound)
    qed
  qed
qed

text \<open>
  Whatever the environment and the state a request arrives with, a request that
  passes on a path that is not public carries an organisation and an actor, and unless it runs
  under the test fallback every identity header and query parameter names exactly these two.
\<close>

theorem handlers_see_one_identity:
  assumes "gate env sha keys q st = Inr st'" and "\<not> is_public_path (hr_path q)"
  shows "\<exists>org actor. state_names st' org actor \<and> (as_fallback st' \<or> request_names q org actor)"
proof -
  from assms(1) obtain s where a: "authenticate env sha keys q st = Inr s" and c: "check_tenant q s = Inr st'"
    unfolding gate_def by (rule ebind_InrE)
  from authenticate_names [OF a assms(2)] obtain org actor where n: "state_names s org actor" by blast
  have same: "st' = s"
    using c assms(2) by (auto simp: check_tenant_def ebind_Inr_iff split: option.splits)
  have "request_names q org actor" if "\<not> as_fallback s"
    using check_tenant_iff [OF assms(2) that, of org actor st'] n c by (simp add: state_names_def)
  with n same show ?thesis by blast
qed

subsection \<open>Examples\<close>

definition demo_call :: http_request where
  "demo_call = \<lparr>hr_method = ''POST'', hr_path = ''/v1/retrieve'', hr_query = [], hr_params = [],
     hr_headers = [(''authorization'', ''Bearer mk_live_a''),
       (''x-organization-id'', ''00000000-0000-0000-0000-000000000007'')],
     hr_body = ''{}'', hr_host = None\<rparr>"

definition production :: gate_env where
  "production = \<lparr>ge_legacy = None, ge_pytest = False, ge_db_up = True\<rparr>"

lemma demo_call_facts:
  "\<not> is_public_path (hr_path demo_call)" "request_token demo_call = Inr ''mk_live_a''"
  "header_values demo_call organization_headers = [''00000000-0000-0000-0000-000000000007'']"
  "header_values demo_call actor_headers = []" "query_values demo_call names = []"
  "uuid_of ''00000000-0000-0000-0000-000000000007'' = Some 7"
proof -
  show "query_values demo_call names = []"
    by (simp add: query_values_def demo_call_def present_values_def)
qed code_simp+

lemma gate_ignores_body: "gate env sha keys (q\<lparr>hr_body := b\<rparr>) st = gate env sha keys q st"
proof -
  let ?q = "q\<lparr>hr_body := b\<rparr>"
  have vals: "header_values ?q names = header_values q names" "query_values ?q names = query_values q names"
      "request_token ?q = request_token q" for names
    by (simp_all add: header_values_def query_values_def request_token_def get_header_def Let_def)
  have "check_tenant ?q = check_tenant q"
    by (simp add: check_tenant_def vals fun_eq_iff)
  moreover have "authenticate env sha keys ?q st = authenticate env sha keys q st"
    unfolding authenticate_def read_uuid_headers_def vals by simp
  ultimately show ?thesis by (simp add: gate_def)
qed

lemma demo_call_names: "request_names demo_call 7 8"
  by (simp add: request_names_def demo_call_facts names_only_def)

lemma demo_gate: "gate production (\<lambda>t. t) [demo_key] demo_call blank_state = Inr (key_state demo_call demo_key)"
proof -
  have "keys_ok [demo_key]" "keys_bounded [demo_key]"
    by (simp_all add: keys_ok_def keys_bounded_def demo_key_fields)
  then show ?thesis
    using demo_call_facts(1,2) demo_call_names
    by (subst production_gate) (simp_all add: production_def demo_key_fields)
qed

theorem gate_admits_exactly_key_holders_witness:
  "gate production (\<lambda>t. t) [demo_key] demo_call blank_state = Inr (key_state demo_call demo_key)"
proof -
  have "keys_ok [demo_key]" "keys_bounded [demo_key]"
    by (simp_all add: keys_ok_def keys_bounded_def demo_key_fields)
  moreover have "\<not> ge_pytest production" "ge_legacy production = None" "ge_db_up production"
    by (simp_all add: production_def)
  ultimately show ?thesis
    using gate_admits_exactly_key_holders [of production demo_call "[demo_key]" "\<lambda>t. t"
        "key_state demo_call demo_key"] demo_call_facts(1,2) demo_call_names
    by (simp add: demo_key_fields)
qed

lemma demo_gate_legacy:
  "gate (production\<lparr>ge_legacy := Some ''on''\<rparr>) (\<lambda>t. t) []
     (demo_call\<lparr>hr_headers := [(''X-Org-Id'', ''00000000-0000-0000-0000-000000000007''),
        (''x-user-id'', ''00000000-0000-0000-0000-000000000008'')]\<rparr>) blank_state =
   Inr (set_state (Some 8) (Some 7) None False False True False True (Some ''legacy_headers'') blank_state)"
  by code_simp

theorem handlers_see_one_identity_witness:
  "\<exists>org actor. state_names (set_state (Some 8) (Some 7) None False False True False True
      (Some ''legacy_headers'') blank_state) org actor"
  using handlers_see_one_identity [OF demo_gate_legacy] by (auto simp: is_public_path_def public_paths_def demo_call_def)

text \<open>Under the test fallback the query may name any organisation: the tenancy layer looks at headers only.\<close>

theorem fallback_ignores_query:
  "\<exists>q st. query_values q [''organization_id''] = [''00000000-0000-0000-0000-000000000007''] \<and>
     gate (production\<lparr>ge_pytest := True\<rparr>) (\<lambda>t. t) [] q blank_state = Inr st \<and>
     as_org st = Some ''00000000-0000-0000-0000-000000000000''"
proof (intro exI conjI)
  let ?q = "demo_call\<lparr>hr_headers := [], hr_params := [(''organization_id'', ''00000000-0000-0000-0000-000000000007'')]\<rparr>"
  show "query_values ?q [''organization_id''] = [''00000000-0000-0000-0000-000000000007'']" by code_simp
  show "gate (production\<lparr>ge_pytest := True\<rparr>) (\<lambda>t. t) [] ?q blank_state =
    Inr (set_state (Some 0) (Some 0) None False False True True False (Some ''test'') blank_state)" by code_simp
  show "as_org (set_state (Some 0) (Some 0) None False False True True False (Some ''test'') blank_state) =
    Some ''00000000-0000-0000-0000-000000000000''" by code_simp
qed

text \<open>
  The scopes of a key decide nothing: whatever scopes the stored keys have, the same requests pass
  with the same state.
\<close>

lemma find_rescoped:
  "find_by_token sha token (map (\<lambda>k. k\<lparr>ak_scopes := f k\<rparr>) keys) =
     map_sum id (map_option (\<lambda>k. k\<lparr>ak_scopes := f k\<rparr>)) (find_by_token sha token keys)"
proof -
  have "filter (\<lambda>k. ak_hash k = h \<and> ak_revoked k = None) (map (\<lambda>k. k\<lparr>ak_scopes := f k\<rparr>) keys) =
      map (\<lambda>k. k\<lparr>ak_scopes := f k\<rparr>) (filter (\<lambda>k. ak_hash k = h \<and> ak_revoked k = None) keys)" for h
    by (simp add: filter_map comp_def)
  then show ?thesis by (simp add: find_by_token_def one_or_none_def split: list.split)
qed

theorem scopes_do_not_limit:
  "gate env sha (map (\<lambda>k. k\<lparr>ak_scopes := f k\<rparr>) keys) q st = gate env sha keys q st"
proof -
  have token: "auth_with_token env sha (map (\<lambda>k. k\<lparr>ak_scopes := f k\<rparr>) keys) token ho ha st =
      auth_with_token env sha keys token ho ha st" for token ho ha
  proof (cases "find_by_token sha token keys")
    case (Inr found)
    then show ?thesis
      by (cases found) (simp_all add: auth_with_token_def find_rescoped cong: option.case_cong if_cong)
  qed (simp add: auth_with_token_def find_rescoped)
  have same: "identify env sha (map (\<lambda>k. k\<lparr>ak_scopes := f k\<rparr>) keys) ho ha st = identify env sha keys ho ha st" for ho ha
    unfolding identify_def token by simp
  show ?thesis unfolding gate_def authenticate_def same ..
qed

end
