(* ===== verification/Py_Number.thy ===== *)
theory Py_Number
  imports Truth_Values
begin

section \<open>Numbers as text\<close>

text \<open>\<open>str(n)\<close> of a natural number; \<open>digits_val\<close> reads it back.\<close>

definition digit_char :: "nat \<Rightarrow> char" where
  "digit_char d = char_of (48 + d mod 10)"

fun nat_str :: "nat \<Rightarrow> string" where
  "nat_str n = (if n < 10 then [digit_char n] else nat_str (n div 10) @ [digit_char n])"

declare nat_str.simps [simp del]

lemma digit_char_facts:
  "is_decimal (digit_char d)" "digit_val (digit_char d) = d mod 10"
proof -
  have "48 + d mod 10 < 256" by (rule order.strict_trans [of _ 58]) simp_all
  then have "code (digit_char d) = 48 + d mod 10" by (simp add: digit_char_def)
  moreover have "d mod 10 < 10" by simp
  ultimately show "is_decimal (digit_char d)" "digit_val (digit_char d) = d mod 10"
    by (simp_all add: is_decimal_def digit_val_def)
qed

lemma nat_str_facts: "nat_str n \<noteq> [] \<and> list_all is_decimal (nat_str n) \<and> digits_val (nat_str n) = n"
proof (induction n rule: nat_str.induct)
  case (1 n)
  show ?case
  proof (cases "n < 10")
    case True
    then show ?thesis by (simp add: nat_str.simps [of n] digit_char_facts digits_val_def)
  next
    case False
    with 1 have "nat_str (n div 10) \<noteq> [] \<and> list_all is_decimal (nat_str (n div 10)) \<and>
        digits_val (nat_str (n div 10)) = n div 10" by simp
    with False show ?thesis
      by (simp add: nat_str.simps [of n] digit_char_facts digits_val_def)
  qed
qed

lemma nat_str_eq [simp]: "nat_str m = nat_str n \<longleftrightarrow> m = n"
  using nat_str_facts by metis

end
