(* ===== verification/Cache_Entry.thy ===== *)
theory Cache_Entry
  imports Json_Decode Py_Number
begin

section \<open>The text of a cached response\<close>

text \<open>
  What \<open>contexta/api/middleware/response_cache.py\<close> writes to Redis and reads back: the JSON object of
  the status, the content type and the body in hexadecimal (\<open>_execute\<close>), parsed and checked by
  \<open>_load\<close> and turned into a response by \<open>_rebuild\<close>.  Bodies are byte strings, one character per
  byte.  Reading what was written gives the response back (\<open>load_entry\<close>).
\<close>

subsection \<open>Bytes as text\<close>

definition to_hex :: "string \<Rightarrow> string" where
  "to_hex b = concat (map (\<lambda>c. hex_digits 2 (code c)) b)"

text \<open>\<open>bytes.fromhex\<close>: pairs of digits, blanks between pairs skipped.\<close>

definition hex_space :: "char \<Rightarrow> bool" where
  "hex_space c \<longleftrightarrow> code c \<in> {9, 10, 11, 12, 13, 32}"

fun from_hex :: "string \<Rightarrow> string option" where
  "from_hex [] = Some []"
| "from_hex [c] = (if hex_space c then Some [] else None)"
| "from_hex (c # d # ds) =
     (if hex_space c then from_hex (d # ds)
      else case (hex_val c, hex_val d) of
             (Some a, Some b) \<Rightarrow> map_option (\<lambda>r. char_of (16 * a + b) # r) (from_hex ds)
           | _ \<Rightarrow> None)"

subsection \<open>Writing\<close>

definition json_member :: "string \<Rightarrow> string \<Rightarrow> string" where
  "json_member k v = json_string k @ '': '' @ v"

definition headers_text :: "(string \<times> string) list \<Rightarrow> string" where
  "headers_text hs = ''{'' @ join '', '' (map (\<lambda>h. json_member (fst h) (json_string (snd h))) hs) @ ''}''"

definition entry_text :: "nat \<Rightarrow> (string \<times> string) list \<Rightarrow> string \<Rightarrow> string" where
  "entry_text status headers body =
     ''{'' @ join '', ''
       [json_member ''status'' (nat_str status), json_member ''headers'' (headers_text headers),
        json_member ''body'' (json_string (to_hex body))] @ ''}''"

subsection \<open>Reading\<close>

text \<open>\<open>_load\<close>: the parsed entry and its decoded body, or nothing.\<close>

definition load_entry :: "string \<Rightarrow> ((string \<times> py) list \<times> string) option" where
  "load_entry raw =
     (if raw = [] then None
      else case loads raw of
             Some (PyDict entry) \<Rightarrow>
               (case map_of entry ''body'' of
                  Some (PyStr h) \<Rightarrow> map_option (\<lambda>b. (entry, b)) (from_hex h)
                | _ \<Rightarrow> None)
           | _ \<Rightarrow> None)"

text \<open>
  \<open>_rebuild\<close>: a missing or unusable status and headers that are not a dictionary of strings raise
  (\<open>None\<close>).
\<close>

fun header_pairs :: "(string \<times> py) list \<Rightarrow> (string \<times> string) list option" where
  "header_pairs [] = Some []"
| "header_pairs ((k, PyStr v) # hs) = map_option (\<lambda>r. (k, v) # r) (header_pairs hs)"
| "header_pairs (_ # hs) = None"

definition status_of :: "py \<Rightarrow> nat option" where
  "status_of v = (case v of PyNum t \<Rightarrow> if t \<noteq> [] \<and> list_all is_decimal t then Some (digits_val t) else None | _ \<Rightarrow> None)"

definition rebuild_entry ::
  "(string \<times> py) list \<Rightarrow> string \<Rightarrow> (nat \<times> (string \<times> string) list \<times> string) option" where
  "rebuild_entry entry body =
     (case map_option status_of (map_of entry ''status'') of
        Some (Some status) \<Rightarrow>
          (case map_of entry ''headers'' of
             None \<Rightarrow> Some (status, [], body)
           | Some v \<Rightarrow>
               if \<not> py_truthy v then Some (status, [], body)
               else (case v of
                  PyDict hs \<Rightarrow> map_option (\<lambda>headers. (status, headers, body)) (header_pairs hs)
                | _ \<Rightarrow> None))
      | _ \<Rightarrow> None)"

subsection \<open>Round trips of the parts\<close>

lemma code_less: "code c < 256"
  by simp

lemma from_hex_pair: "from_hex (hex_digits 2 (code c) @ s) = map_option (\<lambda>r. c # r) (from_hex s)"
proof -
  let ?a = "hex_char (code c div 16)" and ?b = "hex_char (code c)"
  have digits: "hex_digits 2 (code c) = [?a, ?b]" by (simp add: numeral_2_eq_2)
  have "\<not> hex_space ?a" using hex_char_in [of "code c div 16"] by (auto simp: hex_space_def)
  moreover have "code c div 16 < 16"
    using code_less [of c] by (simp only: less_mult_imp_div_less)
  then have "16 * (code c div 16 mod 16) + code c mod 16 = code c" by simp
  ultimately show ?thesis by (simp add: digits hex_val_hex_char)
qed

lemma from_to_hex [simp]: "from_hex (to_hex b) = Some b"
  by (induction b) (simp_all add: to_hex_def from_hex_pair)

lemma hex4_digits:
  assumes "n < 65536" shows "hex4 (hex_digits 4 n) = Some n"
proof -
  define a b c where abc: "a = n div 16" "b = a div 16" "c = b div 16"
  have digits: "hex_digits 4 n = [hex_char c, hex_char b, hex_char a, hex_char n]"
    by (simp only: numeral_eq_Suc pred_numeral_simps hex_digits.simps abc append.simps BitM.simps)
  have "a < 4096" using assms unfolding abc(1) by (intro less_mult_imp_div_less) simp
  then have "b < 256" unfolding abc(2) by (intro less_mult_imp_div_less) simp
  then have "c < 16" unfolding abc(3) by (intro less_mult_imp_div_less) simp
  then have "c mod 16 = c" by simp
  moreover have "a * 16 + n mod 16 = n" "b * 16 + a mod 16 = a" "c * 16 + b mod 16 = b"
    unfolding abc by (rule div_mult_mod_eq)+
  ultimately have "((c mod 16 * 16 + b mod 16) * 16 + a mod 16) * 16 + n mod 16 = n" by (simp only:)
  then show ?thesis unfolding digits by (simp add: hex4_def hex_val_hex_char)
qed

lemma escape_unicode: "escape (CHR ''u'' # hex_digits 4 (code c) @ s) = Some (c, s)"
proof -
  have four: "hex4 (hex_digits 4 (code c)) = Some (code c)"
    using code_less [of c] by (intro hex4_digits) (rule less_trans, assumption, simp)
  have "\<not> 55296 \<le> code c" using code_less [of c] by linarith
  then have low: "(55296 \<le> code c \<and> P) = False" for P by blast
  show ?thesis using code_less [of c] by (simp add: escape_def char_or_mark_def four low)
qed

text \<open>The characters with an escape of their own, by code.\<close>

lemma char_codes:
  "code c = 92 \<longleftrightarrow> c = CHR 0x5C" "code c = 10 \<longleftrightarrow> c = CHR 0x0A" "code c = 13 \<longleftrightarrow> c = CHR 0x0D"
  "code c = 9 \<longleftrightarrow> c = CHR 0x09" "code c = 12 \<longleftrightarrow> c = CHR 0x0C" "code c = 8 \<longleftrightarrow> c = CHR 0x08"
proof -
  have by_code: "code c = code d \<longleftrightarrow> c = d" for c d by simp
  have "code (CHR 0x5C) = (92 :: nat)" "code (CHR 0x0A) = (10 :: nat)" "code (CHR 0x0D) = (13 :: nat)"
      "code (CHR 0x09) = (9 :: nat)" "code (CHR 0x0C) = (12 :: nat)" "code (CHR 0x08) = (8 :: nat)"
    by simp_all
  then show "code c = 92 \<longleftrightarrow> c = CHR 0x5C" "code c = 10 \<longleftrightarrow> c = CHR 0x0A" "code c = 13 \<longleftrightarrow> c = CHR 0x0D"
    "code c = 9 \<longleftrightarrow> c = CHR 0x09" "code c = 12 \<longleftrightarrow> c = CHR 0x0C" "code c = 8 \<longleftrightarrow> c = CHR 0x08"
    using by_code by metis+
qed

lemma scan_named [simp]:
  "scan_string (CHR 0x5C # CHR 0x22 # s) = map_option (\<lambda>(r, t). (CHR 0x22 # r, t)) (scan_string s)"
  "scan_string (CHR 0x5C # CHR 0x5C # s) = map_option (\<lambda>(r, t). (CHR 0x5C # r, t)) (scan_string s)"
  "scan_string (CHR 0x5C # CHR ''n'' # s) = map_option (\<lambda>(r, t). (CHR 0x0A # r, t)) (scan_string s)"
  "scan_string (CHR 0x5C # CHR ''r'' # s) = map_option (\<lambda>(r, t). (CHR 0x0D # r, t)) (scan_string s)"
  "scan_string (CHR 0x5C # CHR ''t'' # s) = map_option (\<lambda>(r, t). (CHR 0x09 # r, t)) (scan_string s)"
  "scan_string (CHR 0x5C # CHR ''f'' # s) = map_option (\<lambda>(r, t). (CHR 0x0C # r, t)) (scan_string s)"
  "scan_string (CHR 0x5C # CHR ''b'' # s) = map_option (\<lambda>(r, t). (CHR 0x08 # r, t)) (scan_string s)"
  "scan_string (CHR 0x5C # CHR ''u'' # hex_digits 4 (code c) @ s) = map_option (\<lambda>(r, t). (c # r, t)) (scan_string s)"
  by (simp_all add: scan_string.simps(2) [of "CHR 0x5C"] escape_unicode del: scan_string.simps)
    (simp_all add: escape_def)

lemma scan_escaped: "scan_string (escape_char c @ s) = map_option (\<lambda>(r, t). (c # r, t)) (scan_string s)"
proof (cases "c \<in> {CHR 0x22, CHR 0x5C, CHR 0x0A, CHR 0x0D, CHR 0x09, CHR 0x0C, CHR 0x08}")
  case True
  then consider "c = CHR 0x22" | "c = CHR 0x5C" | "c = CHR 0x0A" | "c = CHR 0x0D" | "c = CHR 0x09"
    | "c = CHR 0x0C" | "c = CHR 0x08" by blast
  then show ?thesis
    by cases (simp_all del: scan_string.simps add: escape_char_def Let_def quote_mark_def)
next
  case False
  then have plain: "escape_char c = (if 32 \<le> code c \<and> code c \<le> 126 then [c]
      else CHR 0x5C # CHR ''u'' # hex_digits 4 (code c))"
    unfolding escape_char_def Let_def quote_mark_def char_codes by simp
  show ?thesis
  proof (cases "32 \<le> code c \<and> code c \<le> 126")
    case True
    with False show ?thesis unfolding plain by simp
  next
    case out: False
    show ?thesis unfolding plain if_not_P [OF out] by (simp del: scan_string.simps)
  qed
qed

lemma scan_json_string: "scan_string (concat (map escape_char s) @ CHR 0x22 # t) = Some (s, t)"
  by (induction s) (simp_all add: scan_escaped)

subsection \<open>The round trip\<close>

lemma status_of_nat_str [simp]: "status_of (PyNum (nat_str n)) = Some n"
  using nat_str_facts [of n] by (simp add: status_of_def)

text \<open>A number without a leading zero, followed by a character no number has.\<close>

lemma nat_str_hd: "0 < n \<Longrightarrow> hd (nat_str n) \<noteq> CHR ''0''"
proof (induction n rule: nat_str.induct)
  case (1 n)
  show ?case
  proof (cases "n < 10")
    case True
    then have "digit_val (digit_char n) = n" by (simp add: digit_char_facts)
    moreover have "digit_val (CHR ''0'') = 0" by (simp add: digit_val_def)
    ultimately have "digit_char n \<noteq> CHR ''0''" using "1.prems" by (metis less_irrefl)
    with True show ?thesis by (simp add: nat_str.simps [of n])
  next
    case False
    moreover have "0 < n div 10" using False by simp
    ultimately have "hd (nat_str (n div 10)) \<noteq> CHR ''0''" using "1.IH" by simp
    with False nat_str_facts [of "n div 10"] show ?thesis by (simp add: nat_str.simps [of n])
  qed
qed

lemma takeWhile_number:
  "list_all P xs \<Longrightarrow> \<not> P c \<Longrightarrow> takeWhile P (xs @ c # s) = xs \<and> dropWhile P (xs @ c # s) = c # s"
  by (induction xs) auto

lemma scan_nat_str:
  assumes "0 < n" shows "scan_number (nat_str n @ CHR '','' # s) = Some (nat_str n, CHR '','' # s)"
proof -
  obtain c cs where n: "nat_str n = c # cs" using nat_str_facts [of n] by (cases "nat_str n") auto
  have c: "is_decimal c" "list_all is_decimal cs" "c \<noteq> CHR ''0''"
    using nat_str_facts [of n] nat_str_hd [OF assms] by (simp_all add: n)
  have "c \<noteq> CHR ''-''" using c(1) by (auto simp: is_decimal_def)
  moreover have "\<not> is_decimal (CHR '','')" by (simp add: is_decimal_def)
  then have "digits1 (c # cs @ CHR '','' # s) = (c # cs, CHR '','' # s)"
    using takeWhile_number [of is_decimal "c # cs" "CHR '',''" s] c by (simp add: digits1_def)
  ultimately show ?thesis
    using c by (simp add: n scan_number_def number_sign_def number_whole_def number_frac_def number_exp_def
        split: list.splits)
qed

lemma atom_nat_str:
  assumes "0 < n" shows "scan_atom (nat_str n @ CHR '','' # s) = Some (PyNum (nat_str n), CHR '','' # s)"
proof -
  obtain c cs where n: "nat_str n = c # cs" using nat_str_facts [of n] by (cases "nat_str n") auto
  then have "is_decimal c" using nat_str_facts [of n] by simp
  then have "c \<notin> {CHR ''n'', CHR ''t'', CHR ''f'', CHR ''N'', CHR ''I'', CHR ''-''}"
    by (auto simp: is_decimal_def)
  then have "find (\<lambda>(w, v). starts_with (nat_str n @ CHR '','' # s) w) literals = None"
    by (simp add: literals_def n)
  then show ?thesis by (simp add: scan_atom_def scan_nat_str [OF assms])
qed

lemma jvalue_json_string: "jvalue (Suc n) (json_string s @ t) = Some (PyStr s, t)"
  by (simp add: json_string_def quote_mark_def scan_json_string)

lemma jvalue_nat_str:
  assumes "0 < k" shows "jvalue (Suc n) (nat_str k @ CHR '','' # t) = Some (PyNum (nat_str k), CHR '','' # t)"
proof -
  obtain c cs where k: "nat_str k = c # cs" using nat_str_facts [of k] by (cases "nat_str k") auto
  then have "is_decimal c" using nat_str_facts [of k] by simp
  then have "c \<noteq> CHR 0x22" "c \<noteq> CHR ''{''" "c \<noteq> CHR ''[''" by (auto simp: is_decimal_def)
  with atom_nat_str [OF assms, of t] k show ?thesis by simp
qed

lemma skip_blank_member [simp]: "skip (CHR '' '' # json_string k @ s) = json_string k @ s"
  by (simp add: skip_def json_blank_def json_string_def quote_mark_def)

lemma skip_plain: "s \<noteq> [] \<Longrightarrow> \<not> json_blank (hd s) \<Longrightarrow> skip s = s"
  by (cases s) (auto simp: skip_def)

lemma skip_marks [simp]:
  "skip (CHR '','' # s) = CHR '','' # s" "skip (CHR ''}'' # s) = CHR ''}'' # s"
  "skip (CHR '':'' # s) = CHR '':'' # s"
  by (simp_all add: skip_def json_blank_def)

text \<open>One member, followed by the end of the object or another member.\<close>

lemma jmember_last:
  assumes "jvalue n v = Some (x, CHR ''}'' # t)" and "v \<noteq> []" and "\<not> json_blank (hd v)"
  shows "jmembers (Suc n) (json_member k v) = Some ([(k, x)], t)"
proof -
  have "skip (CHR '' '' # v) = v" using assms(2,3) by (cases v) (auto simp: skip_def json_blank_def)
  with assms(1) show ?thesis
    by (simp add: json_member_def json_string_def quote_mark_def scan_json_string)
qed

lemma jmember_next:
  assumes "jvalue n v = Some (x, CHR '','' # CHR '' '' # s)" and "v \<noteq> []" and "\<not> json_blank (hd v)"
    and "skip (CHR '' '' # s) = s" and "jmembers n s = Some (ps, t)"
  shows "jmembers (Suc n) (json_member k v) = Some ((k, x) # ps, t)"
proof -
  have "skip (CHR '' '' # v) = v" using assms(2,3) by (cases v) (auto simp: skip_def json_blank_def)
  with assms(1,4,5) show ?thesis
    by (simp add: json_member_def json_string_def quote_mark_def scan_json_string)
qed

lemma json_member_append: "json_member k v @ s = json_member k (v @ s)"
  by (simp add: json_member_def)

lemma json_string_start [simp]: "json_string s @ t \<noteq> []" "\<not> json_blank (hd (json_string s @ t))"
  by (simp_all add: json_string_def quote_mark_def json_blank_def)

lemma skip_member [simp]: "skip (CHR '' '' # json_member k v) = json_member k v"
  by (simp add: json_member_def)

lemma jmembers_headers:
  "hs \<noteq> [] \<Longrightarrow> length hs < n \<Longrightarrow>
   jmembers n (join '', '' (map (\<lambda>h. json_member (fst h) (json_string (snd h))) hs) @ CHR ''}'' # t) =
     Some (map (\<lambda>h. (fst h, PyStr (snd h))) hs, t)"
proof (induction hs arbitrary: n)
  case (Cons h hs)
  from Cons.prems obtain m where n: "n = Suc (Suc m)" by (cases n; cases "n - 1") auto
  show ?case
  proof (cases "hs = []")
    case True
    then show ?thesis unfolding n
      by (simp add: json_member_append del: jmembers.simps)
        (rule jmember_last, rule jvalue_json_string, simp_all)
  next
    case False
    then obtain h' hs' where hs: "hs = h' # hs'" by (cases hs) auto
    let ?rest = "join '', '' (map (\<lambda>h. json_member (fst h) (json_string (snd h))) hs) @ CHR ''}'' # t"
    have rest: "jmembers (Suc m) ?rest = Some (map (\<lambda>h. (fst h, PyStr (snd h))) hs, t)"
      using Cons.IH [of "Suc m"] False Cons.prems n by simp
    have shape: "\<exists>v. ?rest = json_member (fst h') v"
      unfolding hs by (cases hs') (auto simp: json_member_append)
    have "jmembers (Suc (Suc m)) (json_member (fst h) (json_string (snd h) @ CHR '','' # CHR '' '' # ?rest)) =
        Some ((fst h, PyStr (snd h)) # map (\<lambda>h. (fst h, PyStr (snd h))) hs, t)"
    proof (rule jmember_next)
      show "jvalue (Suc m) (json_string (snd h) @ CHR '','' # CHR '' '' # ?rest) =
          Some (PyStr (snd h), CHR '','' # CHR '' '' # ?rest)" by (rule jvalue_json_string)
      show "skip (CHR '' '' # ?rest) = ?rest" using shape by auto
    qed (simp_all only: rest json_string_start not_False_eq_True)
    then show ?thesis unfolding n hs by (simp add: json_member_append del: jmembers.simps)
  qed
qed simp

lemma jvalue_headers:
  assumes "length hs + 1 < n"
  shows "jvalue n (headers_text hs @ t) = Some (PyDict (dict_of (map (\<lambda>h. (fst h, PyStr (snd h))) hs)), t)"
proof -
  obtain m where n: "n = Suc m" using assms by (cases n) auto
  show ?thesis
  proof (cases hs)
    case Nil
    then show ?thesis by (simp add: n headers_text_def)
  next
    case (Cons h hs')
    let ?ms = "join '', '' (map (\<lambda>h. json_member (fst h) (json_string (snd h))) hs) @ CHR ''}'' # t"
    have "\<exists>s. ?ms = CHR 0x22 # s"
      unfolding Cons by (cases hs') (auto simp: json_member_def json_string_def quote_mark_def)
    then obtain s where s: "?ms = CHR 0x22 # s" by blast
    have "jmembers m ?ms = Some (map (\<lambda>h. (fst h, PyStr (snd h))) hs, t)"
      using assms n by (intro jmembers_headers) (auto simp: Cons)
    then show ?thesis
      unfolding n headers_text_def using s by (simp add: skip_def json_blank_def del: jmembers.simps)
  qed
qed

lemma nat_str_start: "nat_str n @ s \<noteq> []" "\<not> json_blank (hd (nat_str n @ s))"
proof -
  obtain c cs where n: "nat_str n = c # cs" using nat_str_facts [of n] by (cases "nat_str n") auto
  then have "is_decimal c" using nat_str_facts [of n] by simp
  then show "nat_str n @ s \<noteq> []" "\<not> json_blank (hd (nat_str n @ s))"
    by (auto simp: n is_decimal_def json_blank_def)
qed

lemma headers_text_start: "headers_text hs @ s \<noteq> []" "\<not> json_blank (hd (headers_text hs @ s))"
  by (simp_all add: headers_text_def json_blank_def)

definition entry_dict :: "nat \<Rightarrow> (string \<times> string) list \<Rightarrow> string \<Rightarrow> (string \<times> py) list" where
  "entry_dict status headers body =
     [(''status'', PyNum (nat_str status)),
      (''headers'', PyDict (dict_of (map (\<lambda>h. (fst h, PyStr (snd h))) headers))),
      (''body'', PyStr (to_hex body))]"

lemma jvalue_entry:
  assumes "0 < status" and "length headers + 1 < k"
  shows "jvalue (Suc (Suc (Suc k))) (entry_text status headers body) =
    Some (PyDict (entry_dict status headers body), [])"
proof -
  let ?m3 = "json_member ''body'' (json_string (to_hex body) @ [CHR ''}''])"
  let ?m2 = "json_member ''headers'' (headers_text headers @ CHR '','' # CHR '' '' # ?m3)"
  let ?m1 = "json_member ''status'' (nat_str status @ CHR '','' # CHR '' '' # ?m2)"
  obtain n where n: "k = Suc (Suc n)" using assms(2) by (cases k; cases "k - 1") auto
  have m3: "jmembers k ?m3 = Some ([(''body'', PyStr (to_hex body))], [])"
    unfolding n
    by (rule jmember_last) (simp_all only: jvalue_json_string json_string_start not_False_eq_True)
  have m2: "jmembers (Suc k) ?m2 = Some (tl (entry_dict status headers body), [])"
    unfolding entry_dict_def list.sel
  proof (rule jmember_next)
    show "jvalue k (headers_text headers @ CHR '','' # CHR '' '' # ?m3) =
      Some (PyDict (dict_of (map (\<lambda>h. (fst h, PyStr (snd h))) headers)), CHR '','' # CHR '' '' # ?m3)"
      using assms(2) by (rule jvalue_headers)
  qed (simp_all only: m3 headers_text_start skip_member not_False_eq_True)
  have m1: "jmembers (Suc (Suc k)) ?m1 = Some (entry_dict status headers body, [])"
  proof -
    have "jmembers (Suc (Suc k)) ?m1 =
        Some ((''status'', PyNum (nat_str status)) # tl (entry_dict status headers body), [])"
    proof (rule jmember_next)
      show "jvalue (Suc k) (nat_str status @ CHR '','' # CHR '' '' # ?m2) =
        Some (PyNum (nat_str status), CHR '','' # CHR '' '' # ?m2)"
        using assms(1) by (rule jvalue_nat_str)
    qed (simp_all only: m2 nat_str_start skip_member not_False_eq_True)
    then show ?thesis by (simp add: entry_dict_def)
  qed
  have whole: "entry_text status headers body = CHR ''{'' # ?m1"
    by (simp add: entry_text_def json_member_def)
  have "\<exists>s. ?m1 = CHR 0x22 # s" by (simp add: json_member_def json_string_def quote_mark_def)
  then obtain s where s: "?m1 = CHR 0x22 # s" by blast
  have "dict_of (entry_dict status headers body) = entry_dict status headers body"
    by (simp add: entry_dict_def)
  with m1 show ?thesis
    unfolding whole by (simp add: s skip_def json_blank_def del: jmembers.simps)
qed

lemma loads_entry:
  assumes "0 < status"
  shows "loads (entry_text status headers body) = Some (PyDict (entry_dict status headers body))"
proof -
  let ?t = "entry_text status headers body"
  define k where "k = length headers + 2 + 2 * length ?t"
  have "jvalue (Suc (Suc (Suc k))) ?t = raw_decode ?t"
    by (rule raw_decode_fuel) (simp add: k_def)
  moreover have "jvalue (Suc (Suc (Suc k))) ?t = Some (PyDict (entry_dict status headers body), [])"
    using assms by (rule jvalue_entry) (simp add: k_def)
  moreover have "skip ?t = ?t" by (simp add: entry_text_def skip_def json_blank_def)
  ultimately show ?thesis by (simp add: loads_def skip_def)
qed

lemma header_pairs_map: "header_pairs (map (\<lambda>h. (fst h, PyStr (snd h))) hs) = Some hs"
  by (induction hs) auto

lemma dict_of_distinct: "distinct (map fst ps) \<Longrightarrow> dict_of ps = ps"
proof (induction ps)
  case (Cons p ps)
  obtain k v where p: "p = (k, v)" by (cases p)
  have "k \<notin> fst ` set ps" using Cons.prems by (simp add: p)
  then have "map_of (rev ps) k = None" "filter (\<lambda>q. fst q \<noteq> k) ps = ps"
    by (auto simp: map_of_eq_None_iff filter_id_conv)
  with Cons show ?case by (simp add: p)
qed simp

text \<open>
  What is stored is what is served: the text of a response, read back, is accepted and rebuilt to
  the same status, headers and body bytes.
\<close>

lemma entry_roundtrip:
  assumes "0 < status" and "distinct (map fst headers)"
  shows "load_entry (entry_text status headers body) = Some (entry_dict status headers body, body) \<and>
    rebuild_entry (entry_dict status headers body) body = Some (status, headers, body)"
proof
  have "entry_text status headers body \<noteq> []" by (simp add: entry_text_def)
  then show "load_entry (entry_text status headers body) = Some (entry_dict status headers body, body)"
    by (simp add: load_entry_def loads_entry [OF assms(1)]) (simp add: entry_dict_def)
  have "map fst (map (\<lambda>h. (fst h, PyStr (snd h))) headers) = map fst headers"
    by (induction headers) auto
  with assms(2) have "dict_of (map (\<lambda>h. (fst h, PyStr (snd h))) headers) = map (\<lambda>h. (fst h, PyStr (snd h))) headers"
    by (intro dict_of_distinct) (simp only:)
  then show "rebuild_entry (entry_dict status headers body) body = Some (status, headers, body)"
    by (cases headers) (simp_all add: rebuild_entry_def entry_dict_def header_pairs_map)
qed

end
