(* ===== verification/Response_Cache.thy ===== *)
theory Response_Cache
  imports Gate_Claims Cache_Entry
begin

section \<open>The response cache and request coalescing\<close>

text \<open>
  \<open>ResponseCacheMiddleware\<close> of \<open>contexta/api/middleware/response_cache.py\<close> as a machine of callers
  and tasks.  A caller arrives, is served from Redis or misses; a caller that missed becomes the
  leader of a new task or waits for the one in flight (\<open>_inflight\<close>, under the lock); a task ends
  when the layer below answers, raises, or is cancelled with its leader; a caller resumes when its
  task has ended.  Between two awaits of the code other callers run, so each of these is a step of
  its own.  \<open>digest\<close> is the hexadecimal SHA-256.  The call an entry was stored for
  (\<open>cd_origin\<close>) is a history variable.

  The response of a task is one object that the leader and every waiter send.  A body that is
  still a stream (\<open>body_iterator\<close>) can be sent once.
\<close>

subsection \<open>Keys\<close>

record call =
  cl_request :: http_request
  cl_state :: auth_state

definition cacheable_paths :: "(string \<times> rat) list" where
  "cacheable_paths = [(''/v1/retrieve'', 30), (''/v1/retrieve/batch'', 30), (''/v1/retrieve/investigate'', 30),
     (''/v1/memories/context'', 30), (''/v1/memories/search'', 30), (''/v1/entities/search'', 30),
     (''/v1/graph/search'', 30)]"

definition cacheable_methods :: "string list" where
  "cacheable_methods = [''POST'', ''GET'']"

definition max_cacheable_body :: nat where
  "max_cacheable_body = 2 ^ 20"

definition cache_identity :: "auth_state \<Rightarrow> string list" where
  "cache_identity st = [the_default [] (as_org st), the_default [] (as_actor st), the_default [] (as_key st)]"

definition utf8_char :: "char \<Rightarrow> string" where
  "utf8_char c =
     (if code c < 128 then [c] else [char_of (192 + code c div 64), char_of (128 + code c mod 64)])"

definition utf8 :: "string \<Rightarrow> string" where
  "utf8 s = concat (map utf8_char s)"

definition key_parts :: "call \<Rightarrow> string list" where
  "key_parts c =
     [hr_method (cl_request c), hr_path (cl_request c), hr_query (cl_request c)] @ cache_identity (cl_state c)"

definition hashed_text :: "call \<Rightarrow> string \<Rightarrow> string" where
  "hashed_text c body = concat (map (\<lambda>part. utf8 part @ [CHR 0x00]) (key_parts c)) @ body"

definition cache_key :: "(string \<Rightarrow> string) \<Rightarrow> call \<Rightarrow> string \<Rightarrow> string" where
  "cache_key digest c body = ''rq:'' @ take 32 (digest (hashed_text c body))"

text \<open>The body that enters the key: that of a \<open>POST\<close> only.\<close>

definition keyed_body :: "http_request \<Rightarrow> string" where
  "keyed_body q = (if hr_method q = ''POST'' then hr_body q else [])"

subsection \<open>Responses\<close>

datatype body = Buffered string | Streamed "string list" bool

record response =
  rs_status :: nat
  rs_headers :: "(string \<times> string) list"
  rs_body :: body

text \<open>\<open>_drain\<close>: the bytes it reads, and the body it leaves; the flag is a stream that fails.\<close>

fun drain :: "body \<Rightarrow> string \<times> body" where
  "drain (Buffered b) = (b, Buffered b)"
| "drain (Streamed chunks fails) = (if fails then [] else concat chunks, Streamed [] False)"

text \<open>Sending a response: the bytes that go out, and the body that is left.\<close>

fun send :: "body \<Rightarrow> string \<times> body" where
  "send (Buffered b) = (b, Buffered b)"
| "send (Streamed chunks fails) = (concat chunks, Streamed [] False)"

definition success :: "nat \<Rightarrow> bool" where
  "success status \<longleftrightarrow> 200 \<le> status \<and> status < 300"

definition kept_headers :: "(string \<times> string) list \<Rightarrow> (string \<times> string) list" where
  "kept_headers hs =
     dict_of (filter (\<lambda>h. lower (fst h) \<notin> {''content-length'', ''content-encoding''}) hs)"

definition content_type :: "(string \<times> string) list \<Rightarrow> (string \<times> string) list" where
  "content_type hs = filter (\<lambda>h. lower (fst h) = ''content-type'') hs"

text \<open>\<open>_execute\<close> after the layer below answered: the response to hand on and what to store.\<close>

definition execute :: "response \<Rightarrow> response \<times> string option" where
  "execute r =
     (if \<not> success (rs_status r) then (r, None)
      else case drain (rs_body r) of (b, rest) \<Rightarrow>
        if b = [] then (r\<lparr>rs_body := rest\<rparr>, None)
        else
          let headers = kept_headers (rs_headers r)
          in (\<lparr>rs_status = rs_status r, rs_headers = headers, rs_body = Buffered b\<rparr>,
              Some (entry_text (rs_status r) (content_type headers) b)))"

definition mark_header :: "string \<Rightarrow> response \<Rightarrow> response" where
  "mark_header v r =
     r\<lparr>rs_headers := filter (\<lambda>h. lower (fst h) \<noteq> ''x-contexta-cache'') (rs_headers r) @ [(''x-contexta-cache'', v)]\<rparr>"

subsection \<open>The machine\<close>

record cached =
  cd_text :: string
  cd_expires :: rat
  cd_origin :: call

datatype outcome = Running | Finished response | Broke | Stopped

record task =
  tk_call :: call
  tk_key :: string
  tk_ttl :: rat
  tk_outcome :: outcome

datatype origin = Hit | OfTask nat

datatype phase =
    Missed string rat
  | Leads nat
  | Waits nat
  | Direct
  | Served origin call nat string
  | Failed
  | Cancelled

record flight =
  fl_store :: "string \<Rightarrow> cached option"
  fl_inflight :: "string \<Rightarrow> nat option"
  fl_tasks :: "task list"
  fl_callers :: "(call \<times> phase) list"

text \<open>What happens around a lookup: the body can be read, there is a Redis client, and it answers.\<close>

record lookup_env =
  lk_body_ok :: bool
  lk_client :: bool
  lk_read_ok :: bool

definition redis_read :: "rat \<Rightarrow> string \<Rightarrow> (string \<Rightarrow> cached option) \<Rightarrow> cached option" where
  "redis_read now key store = (case store key of Some e \<Rightarrow> if now < cd_expires e then Some e else None | None \<Rightarrow> None)"

text \<open>\<open>dispatch\<close> up to the lock.\<close>

definition look_up ::
  "(string \<Rightarrow> string) \<Rightarrow> lookup_env \<Rightarrow> rat \<Rightarrow> call \<Rightarrow> (string \<Rightarrow> cached option) \<Rightarrow> phase" where
  "look_up digest env now c store =
     (case map_of cacheable_paths (hr_path (cl_request c)) of
        None \<Rightarrow> Direct
      | Some ttl \<Rightarrow>
          if hr_method (cl_request c) \<notin> set cacheable_methods then Direct
          else if hr_method (cl_request c) = ''POST'' \<and>
            (\<not> lk_body_ok env \<or> max_cacheable_body < length (hr_body (cl_request c))) then Direct
          else if \<not> lk_client env then Direct
          else
            let key = cache_key digest c (keyed_body (cl_request c)) in
            case (if lk_read_ok env then redis_read now key store else None) of
              None \<Rightarrow> Missed key ttl
            | Some e \<Rightarrow>
                (case load_entry (cd_text e) of
                   None \<Rightarrow> Missed key ttl
                 | Some (entry, b) \<Rightarrow>
                     (case rebuild_entry entry b of
                        None \<Rightarrow> Failed
                      | Some (status, headers, b') \<Rightarrow> Served Hit (cd_origin e) status b')))"

datatype event =
    Arrive call lookup_env rat
  | Join nat
  | Answer nat response rat bool
  | Break nat
  | Cancel nat
  | Resume nat

definition set_phase :: "nat \<Rightarrow> phase \<Rightarrow> flight \<Rightarrow> flight" where
  "set_phase i p s = s\<lparr>fl_callers := (fl_callers s)[i := (fst (fl_callers s ! i), p)]\<rparr>"

definition set_outcome :: "nat \<Rightarrow> outcome \<Rightarrow> flight \<Rightarrow> flight" where
  "set_outcome n out s = s\<lparr>fl_tasks := (fl_tasks s)[n := (fl_tasks s ! n)\<lparr>tk_outcome := out\<rparr>]\<rparr>"

text \<open>The lock: join the task in flight or start one.\<close>

definition join_task :: "nat \<Rightarrow> string \<Rightarrow> rat \<Rightarrow> flight \<Rightarrow> flight" where
  "join_task i key ttl s =
     (case fl_inflight s key of
        Some n \<Rightarrow> set_phase i (Waits n) s
      | None \<Rightarrow>
          let n = length (fl_tasks s) in
          set_phase i (Leads n)
            (s\<lparr>fl_inflight := (fl_inflight s)(key \<mapsto> n),
               fl_tasks := fl_tasks s @ [\<lparr>tk_call = fst (fl_callers s ! i), tk_key = key, tk_ttl = ttl,
                 tk_outcome = Running\<rparr>]\<rparr>))"

text \<open>The layer below answered task \<open>n\<close>; the write to Redis may fail.\<close>

definition answer_task :: "nat \<Rightarrow> response \<Rightarrow> rat \<Rightarrow> bool \<Rightarrow> flight \<Rightarrow> flight" where
  "answer_task n r now write_ok s =
     (case execute r of (r', entry) \<Rightarrow>
        let t = fl_tasks s ! n; s' = set_outcome n (Finished r') s in
        case entry of
          Some txt \<Rightarrow>
            if write_ok
            then s'\<lparr>fl_store := (fl_store s')(tk_key t \<mapsto>
              \<lparr>cd_text = txt, cd_expires = now + of_int \<lfloor>tk_ttl t\<rfloor>, cd_origin = tk_call t\<rparr>)\<rparr>
            else s'
        | None \<Rightarrow> s')"

text \<open>A caller sends the response of its task.\<close>

definition deliver :: "nat \<Rightarrow> nat \<Rightarrow> string \<Rightarrow> response \<Rightarrow> flight \<Rightarrow> flight" where
  "deliver i n v r s =
     (case send (rs_body r) of (b, rest) \<Rightarrow>
        set_phase i (Served (OfTask n) (tk_call (fl_tasks s ! n)) (rs_status r) b)
          (set_outcome n (Finished (mark_header v (r\<lparr>rs_body := rest\<rparr>))) s))"

definition land :: "nat \<Rightarrow> flight \<Rightarrow> flight" where
  "land n s = s\<lparr>fl_inflight := (fl_inflight s)(tk_key (fl_tasks s ! n) := None)\<rparr>"

definition resume_leader :: "nat \<Rightarrow> nat \<Rightarrow> flight \<Rightarrow> flight option" where
  "resume_leader i n s =
     (case tk_outcome (fl_tasks s ! n) of
        Running \<Rightarrow> None
      | Finished r \<Rightarrow> Some (deliver i n ''miss'' r (land n s))
      | Broke \<Rightarrow> Some (set_phase i Failed (land n s))
      | Stopped \<Rightarrow> Some (set_phase i Cancelled (land n s)))"

text \<open>A waiter runs the request itself if the task raised; a cancelled task cancels it too.\<close>

definition resume_waiter :: "nat \<Rightarrow> nat \<Rightarrow> flight \<Rightarrow> flight option" where
  "resume_waiter i n s =
     (case tk_outcome (fl_tasks s ! n) of
        Running \<Rightarrow> None
      | Finished r \<Rightarrow> Some (deliver i n ''coalesced'' r s)
      | Broke \<Rightarrow> Some (set_phase i Direct s)
      | Stopped \<Rightarrow> Some (set_phase i Cancelled s))"

definition phase_of :: "nat \<Rightarrow> flight \<Rightarrow> phase option" where
  "phase_of i s = (if i < length (fl_callers s) then Some (snd (fl_callers s ! i)) else None)"

definition running :: "nat \<Rightarrow> flight \<Rightarrow> bool" where
  "running n s \<longleftrightarrow> n < length (fl_tasks s) \<and> tk_outcome (fl_tasks s ! n) = Running"

definition flight_step :: "(string \<Rightarrow> string) \<Rightarrow> event \<Rightarrow> flight \<Rightarrow> flight option" where
  "flight_step digest e s =
     (case e of
        Arrive c env now \<Rightarrow>
          Some (s\<lparr>fl_callers := fl_callers s @ [(c, look_up digest env now c (fl_store s))]\<rparr>)
      | Join i \<Rightarrow> (case phase_of i s of Some (Missed key ttl) \<Rightarrow> Some (join_task i key ttl s) | _ \<Rightarrow> None)
      | Answer n r now ok \<Rightarrow> if running n s then Some (answer_task n r now ok s) else None
      | Break n \<Rightarrow> if running n s then Some (set_outcome n Broke s) else None
      | Cancel i \<Rightarrow>
          (case phase_of i s of
             Some (Leads n) \<Rightarrow> if running n s then Some (set_outcome n Stopped s) else None
           | Some (Waits n) \<Rightarrow> Some (set_phase i Cancelled s)
           | _ \<Rightarrow> None)
      | Resume i \<Rightarrow>
          (case phase_of i s of
             Some (Leads n) \<Rightarrow> resume_leader i n s
           | Some (Waits n) \<Rightarrow> resume_waiter i n s
           | _ \<Rightarrow> None))"

definition empty_flight :: flight where
  "empty_flight = \<lparr>fl_store = (\<lambda>_. None), fl_inflight = (\<lambda>_. None), fl_tasks = [], fl_callers = []\<rparr>"

inductive flight_reached :: "(string \<Rightarrow> string) \<Rightarrow> flight \<Rightarrow> bool" for digest where
  start: "flight_reached digest empty_flight"
| step: "flight_reached digest s \<Longrightarrow> flight_step digest e s = Some s' \<Longrightarrow> flight_reached digest s'"

fun flight_run :: "(string \<Rightarrow> string) \<Rightarrow> event list \<Rightarrow> flight \<Rightarrow> flight option" where
  "flight_run digest [] s = Some s"
| "flight_run digest (e # es) s =
     (case flight_step digest e s of None \<Rightarrow> None | Some s' \<Rightarrow> flight_run digest es s')"

lemma flight_run_reached:
  "flight_reached digest s \<Longrightarrow> flight_run digest es s = Some s' \<Longrightarrow> flight_reached digest s'"
  by (induction es arbitrary: s) (auto split: option.splits intro: flight_reached.step)

end
