(* ===== verification/Cache_Claims.thy ===== *)
theory Cache_Claims
  imports Response_Cache
begin

section \<open>What the cache guarantees\<close>

text \<open>
  Invariants of the machine of \<open>Response_Cache\<close>: every key in it is the key of a call that arrived,
  there is one running task per key, and what a caller is served is what the layer below answered
  to a call with the same key.  The injectivity of the hashed text turns equal keys into equal
  requests of equal identities.
\<close>

subsection \<open>The hashed text is injective\<close>

definition no_nul :: "string \<Rightarrow> bool" where
  "no_nul s \<longleftrightarrow> CHR 0x00 \<notin> set s"

lemma code_nul: "code (CHR 0x00) = 0"
  by simp

lemma high_chars:
  assumes "128 \<le> code c"
  shows "code (char_of (192 + code c div 64) :: char) = 192 + code c div 64"
    "code (char_of (128 + code c mod 64) :: char) = 128 + code c mod 64"
proof -
  have "code c div 64 < 4" using code_less [of c] by (intro less_mult_imp_div_less) simp
  moreover have "code c mod 64 < 64" by simp
  ultimately have "192 + code c div 64 < 256" "128 + code c mod 64 < 256" by linarith+
  then show "code (char_of (192 + code c div 64) :: char) = 192 + code c div 64"
    "code (char_of (128 + code c mod 64) :: char) = 128 + code c mod 64" by simp_all
qed

lemma utf8_char_nul: "c \<noteq> CHR 0x00 \<Longrightarrow> CHR 0x00 \<notin> set (utf8_char c)"
proof
  assume "c \<noteq> CHR 0x00" and nul: "CHR 0x00 \<in> set (utf8_char c)"
  then have "128 \<le> code c" and
      "CHR 0x00 = char_of (192 + code c div 64) \<or> CHR 0x00 = char_of (128 + code c mod 64)"
    by (auto simp: utf8_char_def split: if_splits)
  then have "code (CHR 0x00) = 192 + code c div 64 \<or> code (CHR 0x00) = 128 + code c mod 64"
    using high_chars [of c] by metis
  then show False unfolding code_nul by linarith
qed

lemma utf8_nul: "no_nul s \<Longrightarrow> CHR 0x00 \<notin> set (utf8 s)"
  by (induction s) (auto simp: no_nul_def utf8_def dest: utf8_char_nul [OF not_sym])

lemma utf8_char_prefix: "utf8_char c @ s = utf8_char d @ t \<Longrightarrow> c = d \<and> s = t"
proof -
  assume eq: "utf8_char c @ s = utf8_char d @ t"
  have hd_low: "hd (utf8_char c @ s) = c" if "code c < 128" for c s using that by (simp add: utf8_char_def)
  have hd_high: "192 \<le> code (hd (utf8_char c @ s))" if "\<not> code c < 128" for c s
    using that high_chars(1) [of c] by (simp add: utf8_char_def)
  show ?thesis
  proof (cases "code c < 128")
    case True
    have "code d < 128"
    proof (rule ccontr)
      assume "\<not> code d < 128"
      from hd_high [OF this, of t] have "192 \<le> code c" using hd_low [OF True, of s] by (simp only: eq)
      with True show False by linarith
    qed
    with True eq show ?thesis by (simp only: utf8_char_def if_True append.simps list.inject)
  next
    case False
    show ?thesis
    proof (cases "code d < 128")
      case True
      then have "192 \<le> code d" using hd_high [OF False, of s] hd_low [OF True, of t] by (simp only: eq)
      with True show ?thesis by linarith
    next
      case high: False
      from eq False high have "char_of (192 + code c div 64) = (char_of (192 + code d div 64) :: char)"
          "char_of (128 + code c mod 64) = (char_of (128 + code d mod 64) :: char)" and rest: "s = t"
        by (simp_all only: utf8_char_def if_False append.simps list.inject)
      moreover have "128 \<le> code c" "128 \<le> code d" using False high by linarith+
      ultimately have "192 + code c div 64 = 192 + code d div 64" "128 + code c mod 64 = 128 + code d mod 64"
        using high_chars [of c] high_chars [of d] by metis+
      then have "code c div 64 = code d div 64" "code c mod 64 = code d mod 64" by linarith+
      then have "code c = code d" by (metis div_mult_mod_eq)
      then have "c = d" by (simp only: of_char_eq_iff)
      with rest show ?thesis by blast
    qed
  qed
qed

lemma utf8_inj: "utf8 s = utf8 t \<Longrightarrow> s = t"
proof (induction s arbitrary: t)
  case Nil
  have "utf8_char c \<noteq> []" for c by (simp add: utf8_char_def)
  with Nil show ?case by (cases t) (auto simp: utf8_def)
next
  case (Cons c s)
  have ne: "utf8_char c \<noteq> []" for c by (simp add: utf8_char_def)
  with Cons.prems obtain d t' where t: "t = d # t'" by (cases t) (auto simp: utf8_def)
  with Cons.prems have "utf8_char c @ utf8 s = utf8_char d @ utf8 t'" by (simp add: utf8_def)
  from utf8_char_prefix [OF this] Cons.IH t show ?case by simp
qed

lemma terminated_prefix:
  assumes "CHR 0x00 \<notin> set u" and "CHR 0x00 \<notin> set v" and "u @ CHR 0x00 # s = v @ CHR 0x00 # t"
  shows "u = v \<and> s = t"
proof -
  have "takeWhile (\<lambda>c. c \<noteq> CHR 0x00) (u @ CHR 0x00 # s) = u" if "CHR 0x00 \<notin> set u" for u s
    using that by (subst takeWhile_append2) auto
  with assms have "u = v" by metis
  with assms(3) show ?thesis by simp
qed

lemma parts_inj:
  "list_all no_nul ps \<Longrightarrow> list_all no_nul qs \<Longrightarrow> length ps = length qs \<Longrightarrow>
   concat (map (\<lambda>part. utf8 part @ [CHR 0x00]) ps) @ s = concat (map (\<lambda>part. utf8 part @ [CHR 0x00]) qs) @ t \<Longrightarrow>
   ps = qs \<and> s = t"
proof (induction ps arbitrary: qs)
  case (Cons p ps)
  then obtain q qs' where qs: "qs = q # qs'" by (cases qs) auto
  with Cons.prems have "utf8 p = utf8 q \<and> concat (map (\<lambda>part. utf8 part @ [CHR 0x00]) ps) @ s =
      concat (map (\<lambda>part. utf8 part @ [CHR 0x00]) qs') @ t"
    by (intro terminated_prefix) (simp_all add: utf8_nul)
  with Cons qs show ?case using utf8_inj by auto
qed simp

lemma hashed_text_inj:
  assumes "list_all no_nul (key_parts c)" and "list_all no_nul (key_parts d)"
    and "hashed_text c b = hashed_text d b'"
  shows "key_parts c = key_parts d \<and> b = b'"
  using parts_inj [OF assms(1,2), of b b'] assms(3) by (simp add: hashed_text_def key_parts_def cache_identity_def)

subsection \<open>Keys and tasks of a reachable machine\<close>

definition call_key :: "(string \<Rightarrow> string) \<Rightarrow> call \<Rightarrow> string" where
  "call_key digest c = cache_key digest c (keyed_body (cl_request c))"

definition cacheable :: "call \<Rightarrow> bool" where
  "cacheable c \<longleftrightarrow> hr_path (cl_request c) \<in> fst ` set cacheable_paths \<and>
     hr_method (cl_request c) \<in> set cacheable_methods"

definition known :: "(string \<Rightarrow> string) \<Rightarrow> flight \<Rightarrow> call \<Rightarrow> string \<Rightarrow> bool" where
  "known digest s c key \<longleftrightarrow> c \<in> fst ` set (fl_callers s) \<and> cacheable c \<and> call_key digest c = key"

definition task_key_of :: "flight \<Rightarrow> nat \<Rightarrow> string \<Rightarrow> bool" where
  "task_key_of s n key \<longleftrightarrow> n < length (fl_tasks s) \<and> tk_key (fl_tasks s ! n) = key"

fun phase_keyed :: "(string \<Rightarrow> string) \<Rightarrow> flight \<Rightarrow> call \<Rightarrow> phase \<Rightarrow> bool" where
  "phase_keyed digest s c (Missed key ttl) = known digest s c key"
| "phase_keyed digest s c (Leads n) = (cacheable c \<and> task_key_of s n (call_key digest c))"
| "phase_keyed digest s c (Waits n) = (cacheable c \<and> task_key_of s n (call_key digest c))"
| "phase_keyed digest s c (Served src orig status b) = (cacheable c \<and> known digest s orig (call_key digest c))"
| "phase_keyed digest s c _ = True"

definition keyed :: "(string \<Rightarrow> string) \<Rightarrow> flight \<Rightarrow> bool" where
  "keyed digest s \<longleftrightarrow>
     (\<forall>key e. fl_store s key = Some e \<longrightarrow> known digest s (cd_origin e) key) \<and>
     (\<forall>t \<in> set (fl_tasks s). known digest s (tk_call t) (tk_key t)) \<and>
     (\<forall>key n. fl_inflight s key = Some n \<longrightarrow> task_key_of s n key) \<and>
     (\<forall>p \<in> set (fl_callers s). phase_keyed digest s (fst p) (snd p))"

text \<open>What a step may do to the parts: callers stay, tasks keep their call and key and are only added.\<close>

definition extends :: "flight \<Rightarrow> flight \<Rightarrow> bool" where
  "extends s s' \<longleftrightarrow> fst ` set (fl_callers s) \<subseteq> fst ` set (fl_callers s') \<and>
     (\<forall>n key. task_key_of s n key \<longrightarrow> task_key_of s' n key)"

lemma extends_known: "extends s s' \<Longrightarrow> known digest s c key \<Longrightarrow> known digest s' c key"
  by (auto simp: extends_def known_def)

lemma extends_phase: "extends s s' \<Longrightarrow> phase_keyed digest s c p \<Longrightarrow> phase_keyed digest s' c p"
  by (cases p) (auto simp: extends_known, auto simp: extends_def)

lemma set_phase_parts [simp]:
  "fl_store (set_phase i p s) = fl_store s" "fl_inflight (set_phase i p s) = fl_inflight s"
  "fl_tasks (set_phase i p s) = fl_tasks s" "length (fl_callers (set_phase i p s)) = length (fl_callers s)"
  by (simp_all add: set_phase_def)

lemma set_outcome_parts [simp]:
  "fl_store (set_outcome n out s) = fl_store s" "fl_inflight (set_outcome n out s) = fl_inflight s"
  "fl_callers (set_outcome n out s) = fl_callers s" "length (fl_tasks (set_outcome n out s)) = length (fl_tasks s)"
  by (simp_all add: set_outcome_def)

lemma map_call_set_phase [simp]: "map fst (fl_callers (set_phase i p s)) = map fst (fl_callers s)"
proof (cases "i < length (fl_callers s)")
  case True
  then show ?thesis by (simp add: set_phase_def map_update list_update_same_conv)
next
  case False
  then show ?thesis by (simp add: set_phase_def list_update_beyond not_less)
qed

lemma calls_set_phase [simp]: "fst ` set (fl_callers (set_phase i p s)) = fst ` set (fl_callers s)"
  by (metis map_call_set_phase set_map)

lemma task_static [simp]:
  "tk_key (fl_tasks (set_outcome n out s) ! m) = tk_key (fl_tasks s ! m)"
  "tk_call (fl_tasks (set_outcome n out s) ! m) = tk_call (fl_tasks s ! m)"
  unfolding set_outcome_def
  by (cases "n < length (fl_tasks s)"; simp add: nth_list_update list_update_beyond not_less)+

lemma task_key_of_simps [simp]:
  "task_key_of (set_phase i p s) = task_key_of s" "task_key_of (set_outcome n out s) = task_key_of s"
  by (simp_all add: task_key_of_def fun_eq_iff)

lemma known_simps [simp]:
  "known digest (set_phase i p s) = known digest s" "known digest (set_outcome n out s) = known digest s"
  by (simp_all add: known_def fun_eq_iff)

lemma extends_simps [simp]:
  "extends s (set_phase i p s') = extends s s'" "extends s (set_outcome n out s') = extends s s'"
  "extends s s"
  by (simp_all add: extends_def)

text \<open>Changing one caller's phase, or one task's outcome.\<close>

lemma keyed_set_outcome: "keyed digest s \<Longrightarrow> keyed digest (set_outcome n out s)"
proof -
  assume k: "keyed digest s"
  have tasks: "known digest s (tk_call t) (tk_key t)" if "t \<in> set (fl_tasks (set_outcome n out s))" for t
  proof -
    from that obtain m where m: "m < length (fl_tasks s)" "t = fl_tasks (set_outcome n out s) ! m"
      by (auto simp: in_set_conv_nth)
    then have "tk_call t = tk_call (fl_tasks s ! m)" "tk_key t = tk_key (fl_tasks s ! m)" by simp_all
    with k m show ?thesis by (auto simp: keyed_def)
  qed
  have phases: "phase_keyed digest (set_outcome n out s) c p = phase_keyed digest s c p" for c p
    by (cases p) auto
  show ?thesis using k tasks by (simp add: keyed_def phases)
qed

lemma keyed_set_phase:
  assumes "keyed digest s" and "i < length (fl_callers s)"
    and "phase_keyed digest s (fst (fl_callers s ! i)) p"
  shows "keyed digest (set_phase i p s)"
proof -
  have phases: "phase_keyed digest (set_phase i p s) c q = phase_keyed digest s c q" for c q
    by (cases q) auto
  have "phase_keyed digest s (fst x) (snd x)" if "x \<in> set (fl_callers (set_phase i p s))" for x
  proof -
    from that have "x \<in> set (fl_callers s) \<or> x = (fst (fl_callers s ! i), p)"
      by (auto simp: set_phase_def dest: set_update_subset_insert [THEN subsetD])
    with assms(1,3) show ?thesis by (auto simp: keyed_def)
  qed
  with assms(1) show ?thesis by (simp add: keyed_def phases)
qed

lemma keyed_land: "keyed digest s \<Longrightarrow> keyed digest (land n s)"
proof -
  assume k: "keyed digest s"
  have same: "known digest (land n s) = known digest s" "task_key_of (land n s) = task_key_of s"
    by (simp_all add: land_def known_def task_key_of_def fun_eq_iff)
  have "phase_keyed digest (land n s) c p = phase_keyed digest s c p" for c p
    by (cases p) (auto simp: same)
  with k show ?thesis by (auto simp: keyed_def same) (auto simp: land_def split: if_splits)
qed

lemma look_up_keyed:
  assumes "keyed digest s" and "c \<in> fst ` set (fl_callers s')" and "extends s s'"
  shows "phase_keyed digest s' c (look_up digest env now c (fl_store s))"
proof -
  have hit: "known digest s' (cd_origin e) key" if "redis_read now key (fl_store s) = Some e" for key e
    using that assms(1,3) by (auto simp: redis_read_def keyed_def extends_known split: option.splits if_splits)
  have path: "x \<in> fst ` set cacheable_paths" if "map_of cacheable_paths x = Some y" for x y
    using that by (metis domI dom_map_of_conv_image_fst)
  show ?thesis
    unfolding look_up_def Let_def
    using assms(2) by (auto split: option.split if_split
        simp: known_def [of digest s' c] call_key_def cacheable_def path dest!: hit)
qed

lemma phase_ofD: "phase_of i s = Some p \<Longrightarrow> i < length (fl_callers s) \<and> snd (fl_callers s ! i) = p"
  by (simp add: phase_of_def split: if_splits)

lemma phase_of_keyed:
  assumes "keyed digest s" and "phase_of i s = Some p"
  shows "phase_keyed digest s (fst (fl_callers s ! i)) p"
  using assms by (auto simp: keyed_def dest!: phase_ofD)

text \<open>Each kind of step, once.\<close>

lemma keyed_arrive:
  assumes "keyed digest s"
  shows "keyed digest (s\<lparr>fl_callers := fl_callers s @ [(c, look_up digest env now c (fl_store s))]\<rparr>)"
proof -
  let ?s = "s\<lparr>fl_callers := fl_callers s @ [(c, look_up digest env now c (fl_store s))]\<rparr>"
  have e: "extends s ?s" by (auto simp: extends_def task_key_of_def)
  have "phase_keyed digest ?s c (look_up digest env now c (fl_store s))"
    using assms e by (intro look_up_keyed [where s = s]) auto
  with assms show ?thesis
    using extends_known [OF e] extends_phase [OF e]
    by (auto simp: keyed_def) (auto simp: task_key_of_def)
qed

lemma keyed_join:
  assumes "keyed digest s" and "phase_of i s = Some (Missed key ttl)"
  shows "keyed digest (join_task i key ttl s)"
proof -
  have i: "i < length (fl_callers s)" using assms(2) by (simp add: phase_ofD)
  have c: "known digest s (fst (fl_callers s ! i)) key"
    using phase_of_keyed [OF assms] by simp
  show ?thesis
  proof (cases "fl_inflight s key")
    case (Some n)
    then have "task_key_of s n key" using assms(1) by (simp add: keyed_def)
    with c have "phase_keyed digest s (fst (fl_callers s ! i)) (Waits n)" by (simp add: known_def)
    with assms(1) i have "keyed digest (set_phase i (Waits n) s)" by (intro keyed_set_phase)
    with Some show ?thesis by (simp add: join_task_def)
  next
    case None
    let ?t = "\<lparr>tk_call = fst (fl_callers s ! i), tk_key = key, tk_ttl = ttl, tk_outcome = Running\<rparr>"
    let ?s = "s\<lparr>fl_inflight := (fl_inflight s)(key \<mapsto> length (fl_tasks s)), fl_tasks := fl_tasks s @ [?t]\<rparr>"
    have e: "extends s ?s" by (auto simp: extends_def task_key_of_def nth_append)
    have new: "task_key_of ?s (length (fl_tasks s)) key" by (simp add: task_key_of_def)
    have kn: "known digest ?s = known digest s" by (simp add: known_def fun_eq_iff)
    have "keyed digest ?s"
      using assms(1) c new extends_phase [OF e] e unfolding keyed_def kn
      by (auto simp: extends_def)
    moreover have "phase_keyed digest ?s (fst (fl_callers ?s ! i)) (Leads (length (fl_tasks s)))"
      using c new by (simp add: known_def)
    ultimately have "keyed digest (set_phase i (Leads (length (fl_tasks s))) ?s)"
      using i by (intro keyed_set_phase) simp_all
    with None show ?thesis by (simp add: join_task_def Let_def)
  qed
qed

lemma keyed_answer:
  assumes "keyed digest s" and "n < length (fl_tasks s)"
  shows "keyed digest (answer_task n r now ok s)"
proof -
  have k: "keyed digest (set_outcome n out s)" for out using assms(1) by (rule keyed_set_outcome)
  have t: "known digest s (tk_call (fl_tasks s ! n)) (tk_key (fl_tasks s ! n))"
    using assms by (simp add: keyed_def)
  obtain r' entry where x: "execute r = (r', entry)" by (cases "execute r")
  let ?s = "set_outcome n (Finished r') s"
  let ?e = "\<lambda>w. \<lparr>cd_text = w, cd_expires = now + of_int \<lfloor>tk_ttl (fl_tasks s ! n)\<rfloor>, cd_origin = tk_call (fl_tasks s ! n)\<rparr>"
  have "keyed digest (?s\<lparr>fl_store := (fl_store s)(tk_key (fl_tasks s ! n) \<mapsto> ?e w)\<rparr>)" for w
  proof -
    let ?u = "?s\<lparr>fl_store := (fl_store s)(tk_key (fl_tasks s ! n) \<mapsto> ?e w)\<rparr>"
    have same: "known digest ?u = known digest s" "task_key_of ?u = task_key_of s"
      by (simp_all add: known_def task_key_of_def fun_eq_iff)
    have "phase_keyed digest ?u c p = phase_keyed digest ?s c p" for c p by (cases p) (simp_all add: same)
    then show ?thesis using k [of "Finished r'"] t unfolding keyed_def same by (auto simp: same)
  qed
  then show ?thesis
    using k by (cases entry) (simp_all add: answer_task_def x Let_def)
qed

lemma keyed_deliver:
  assumes "keyed digest s" and "phase_of i s = Some p" and "p = Leads n \<or> p = Waits n"
  shows "keyed digest (deliver i n v r s)"
proof -
  have p: "cacheable (fst (fl_callers s ! i)) \<and> task_key_of s n (call_key digest (fst (fl_callers s ! i)))"
    using phase_of_keyed [OF assms(1,2)] assms(3) by auto
  then have "n < length (fl_tasks s)" by (simp add: task_key_of_def)
  with assms(1) have "known digest s (tk_call (fl_tasks s ! n)) (tk_key (fl_tasks s ! n))" by (simp add: keyed_def)
  with p have orig: "known digest s (tk_call (fl_tasks s ! n)) (call_key digest (fst (fl_callers s ! i)))"
    by (simp add: task_key_of_def)
  obtain b rest where x: "send (rs_body r) = (b, rest)" by (cases "send (rs_body r)")
  have i: "i < length (fl_callers s)" using assms(2) by (simp add: phase_ofD)
  show ?thesis
    unfolding deliver_def x prod.case
    using assms(1) i p orig by (intro keyed_set_phase keyed_set_outcome) simp_all
qed

lemma phase_of_land [simp]: "phase_of i (land n s) = phase_of i s" "fl_callers (land n s) = fl_callers s"
  "fl_tasks (land n s) = fl_tasks s"
  by (simp_all add: land_def phase_of_def)

lemma keyed_step:
  assumes "keyed digest s" and "flight_step digest e s = Some s'"
  shows "keyed digest s'"
proof (cases e)
  case (Arrive c env now)
  with assms show ?thesis by (auto simp: flight_step_def intro: keyed_arrive)
next
  case (Join i)
  with assms(2) obtain key ttl where "phase_of i s = Some (Missed key ttl)" "s' = join_task i key ttl s"
    by (auto simp: flight_step_def split: option.splits phase.splits)
  with assms(1) show ?thesis by (auto intro: keyed_join)
next
  case (Answer n r now ok)
  with assms show ?thesis by (auto simp: flight_step_def running_def split: if_splits intro: keyed_answer)
next
  case (Break n)
  with assms show ?thesis by (auto simp: flight_step_def split: if_splits intro: keyed_set_outcome)
next
  case (Cancel i)
  with assms(2) obtain p where p: "phase_of i s = Some p"
      and s': "s' = set_phase i Cancelled s \<or> (\<exists>n. s' = set_outcome n Stopped s)"
    by (auto simp: flight_step_def split: option.splits phase.splits if_splits)
  with assms(1) show ?thesis by (auto dest: phase_ofD intro: keyed_set_phase keyed_set_outcome)
next
  case (Resume i)
  with assms(2) obtain p n where p: "phase_of i s = Some p"
      and c: "p = Leads n \<and> resume_leader i n s = Some s' \<or> p = Waits n \<and> resume_waiter i n s = Some s'"
    by (auto simp: flight_step_def split: option.splits phase.splits)
  have i: "i < length (fl_callers s)" using p by (simp add: phase_ofD)
  have l: "keyed digest (land n s)" using assms(1) by (rule keyed_land)
  from c show ?thesis
  proof (elim disjE conjE)
    assume "p = Leads n" "resume_leader i n s = Some s'"
    then show ?thesis using l p i
      by (auto simp: resume_leader_def split: outcome.splits intro!: keyed_deliver keyed_set_phase)
  next
    assume "p = Waits n" "resume_waiter i n s = Some s'"
    then show ?thesis using assms(1) p i
      by (auto simp: resume_waiter_def split: outcome.splits intro!: keyed_deliver keyed_set_phase)
  qed
qed

lemma keyed_reached: "flight_reached digest s \<Longrightarrow> keyed digest s"
proof (induction rule: flight_reached.induct)
  case start
  show ?case by (simp add: keyed_def empty_flight_def)
next
  case step
  then show ?case by (blast intro: keyed_step)
qed

subsection \<open>One task per key\<close>

definition leads :: "flight \<Rightarrow> nat \<Rightarrow> nat \<Rightarrow> bool" where
  "leads s i n \<longleftrightarrow> phase_of i s = Some (Leads n)"

definition flying :: "flight \<Rightarrow> bool" where
  "flying s \<longleftrightarrow>
     (\<forall>i n. leads s i n \<longrightarrow> n < length (fl_tasks s) \<and> fl_inflight s (tk_key (fl_tasks s ! n)) = Some n) \<and>
     (\<forall>n. running n s \<longrightarrow> (\<exists>i. leads s i n)) \<and>
     (\<forall>i j n. leads s i n \<longrightarrow> leads s j n \<longrightarrow> i = j) \<and>
     (\<forall>key n. fl_inflight s key = Some n \<longrightarrow> n < length (fl_tasks s))"

lemma flying_lead:
  "flying s \<Longrightarrow> leads s i n \<Longrightarrow> n < length (fl_tasks s) \<and> fl_inflight s (tk_key (fl_tasks s ! n)) = Some n"
  by (simp add: flying_def)

lemma flying_one: "flying s \<Longrightarrow> leads s i n \<Longrightarrow> leads s j n \<Longrightarrow> i = j"
  unfolding flying_def by blast

lemma flying_leader: "flying s \<Longrightarrow> running n s \<Longrightarrow> \<exists>i. leads s i n"
  by (simp add: flying_def)

lemma phase_of_set_phase:
  "phase_of j (set_phase i p s) = (if j = i \<and> i < length (fl_callers s) then Some p else phase_of j s)"
  by (auto simp: phase_of_def set_phase_def nth_list_update)

lemma phase_of_set_outcome [simp]: "phase_of j (set_outcome n out s) = phase_of j s"
  by (simp add: phase_of_def)

lemma running_set_outcome: "running m (set_outcome n out s) = (if m = n then n < length (fl_tasks s) \<and> out = Running else running m s)"
  by (auto simp: running_def set_outcome_def nth_list_update)

lemma running_simps [simp]: "running m (set_phase i p s) = running m s" "running m (land n s) = running m s"
  by (simp_all add: running_def)

lemma flying_set_outcome:
  "flying s \<Longrightarrow> out \<noteq> Running \<Longrightarrow> flying (set_outcome n out s)"
  by (simp add: flying_def leads_def running_set_outcome)

lemma flying_set_phase:
  assumes "flying s" and "\<And>n. phase_of i s \<noteq> Some (Leads n)" and "\<And>n. p \<noteq> Leads n"
  shows "flying (set_phase i p s)"
proof -
  have "leads (set_phase i p s) = leads s"
    using assms(2,3) by (auto simp: leads_def phase_of_set_phase fun_eq_iff)
  with assms(1) show ?thesis by (simp add: flying_def)
qed

lemma flying_leave:
  assumes "flying s" and "leads s i n" and "\<not> running n s" and "\<And>m. p \<noteq> Leads m"
  shows "flying (set_phase i p (land n s))"
proof -
  let ?k = "tk_key (fl_tasks s ! n)"
  have i: "i < length (fl_callers s)" using assms(2) by (simp add: leads_def phase_ofD)
  have l: "leads (set_phase i p (land n s)) j m \<longleftrightarrow> j \<noteq> i \<and> leads s j m" for j m
    using assms(4) i by (auto simp: leads_def phase_of_set_phase)
  have n: "fl_inflight s ?k = Some n" using assms(1,2) by (simp add: flying_def)
  have "tk_key (fl_tasks s ! m) \<noteq> ?k" if "leads s j m" "j \<noteq> i" for j m
  proof
    assume eq: "tk_key (fl_tasks s ! m) = ?k"
    have "fl_inflight s (tk_key (fl_tasks s ! m)) = Some m"
      using flying_lead [OF assms(1) that(1)] by simp
    then have "m = n" unfolding eq n by simp
    with flying_one [OF assms(1) that(1), of i] assms(2) that(2) show False by simp
  qed
  moreover have "\<exists>j. j \<noteq> i \<and> leads s j m" if run: "running m s" for m
  proof -
    obtain j where j: "leads s j m" using flying_leader [OF assms(1) run] by blast
    have "j \<noteq> i"
    proof
      assume "j = i"
      with j assms(2) have "m = n" by (simp add: leads_def)
      with run assms(3) show False by simp
    qed
    with j show ?thesis by blast
  qed
  moreover have "j = j'" if "leads s j m" "leads s j' m" for j j' m
    using that assms(1) by (blast dest: flying_one)
  moreover have "m < length (fl_tasks s)" if "fl_inflight (land n s) key = Some m" for key m
    using that assms(1) by (simp add: land_def flying_def split: if_splits)
  moreover have "m < length (fl_tasks s) \<and> fl_inflight (land n s) (tk_key (fl_tasks s ! m)) = Some m"
    if "leads s j m" "j \<noteq> i" for j m
    using flying_lead [OF assms(1) that(1)] calculation(1) [OF that] by (simp add: land_def)
  ultimately show ?thesis unfolding flying_def l by simp blast
qed

lemma flying_join:
  assumes "flying s" and "phase_of i s = Some (Missed key ttl)"
  shows "flying (join_task i key ttl s)"
proof (cases "fl_inflight s key")
  case (Some n)
  with assms show ?thesis by (auto simp: join_task_def intro: flying_set_phase)
next
  case None
  let ?n = "length (fl_tasks s)"
  let ?s = "join_task i key ttl s"
  have i: "i < length (fl_callers s)" using assms(2) by (simp add: phase_ofD)
  have s: "fl_inflight ?s = (fl_inflight s)(key \<mapsto> ?n)" "length (fl_tasks ?s) = Suc ?n"
      "tk_key (fl_tasks ?s ! ?n) = key" "tk_outcome (fl_tasks ?s ! ?n) = Running"
      "\<And>m. m < ?n \<Longrightarrow> fl_tasks ?s ! m = fl_tasks s ! m"
    using None by (simp_all add: join_task_def Let_def nth_append)
  have ph: "phase_of j ?s = (if j = i then Some (Leads ?n) else phase_of j s)" for j
    using None i by (simp add: join_task_def Let_def phase_of_set_phase) (simp add: phase_of_def)
  have l: "leads ?s j m \<longleftrightarrow> (j = i \<and> m = ?n) \<or> leads s j m" for j m
    using assms(2) by (auto simp: leads_def ph)
  have old: "m < ?n" if "leads s j m" for j m using flying_lead [OF assms(1) that] by simp
  have f: "m < Suc ?n \<and> fl_inflight ?s (tk_key (fl_tasks ?s ! m)) = Some m" if "leads ?s j m" for j m
  proof (cases "leads s j m")
    case True
    then have m: "m < ?n" "fl_inflight s (tk_key (fl_tasks s ! m)) = Some m"
      using flying_lead [OF assms(1) True] by simp_all
    with None have "tk_key (fl_tasks s ! m) \<noteq> key" by auto
    with m show ?thesis by (simp add: s less_SucI)
  next
    case False
    with that show ?thesis by (simp add: l s)
  qed
  have g: "\<exists>j. leads ?s j m" if "running m ?s" for m
  proof (cases "m = ?n")
    case True
    then show ?thesis by (auto simp: l)
  next
    case False
    with that have "running m s" by (auto simp: running_def s less_Suc_eq)
    with flying_leader [OF assms(1)] show ?thesis unfolding l by blast
  qed
  have h: "j = j'" if "leads ?s j m" "leads ?s j' m" for j j' m
    using that old [of j m] old [of j' m] flying_one [OF assms(1), of j m j'] unfolding l by auto
  have "n < Suc ?n" if "fl_inflight ?s k = Some n" for k n
    using that assms(1) by (auto simp: s flying_def split: if_splits intro: less_SucI)
  with f g h show ?thesis unfolding flying_def s(2) by blast
qed

lemma flying_deliver_leader:
  assumes "flying s" and "leads s i n" and "tk_outcome (fl_tasks s ! n) = Finished r"
  shows "flying (deliver i n v r (land n s))"
proof -
  obtain b rest where x: "send (rs_body r) = (b, rest)" by (cases "send (rs_body r)")
  have swap: "set_phase i p (set_outcome n out u) = set_outcome n out (set_phase i p u)" for p out u
    by (simp add: set_phase_def set_outcome_def)
  have "\<not> running n s" using assms(3) by (simp add: running_def)
  then have "flying (set_phase i p (land n s))" if "\<And>m. p \<noteq> Leads m" for p
    using assms(1,2) that by (intro flying_leave)
  then show ?thesis unfolding deliver_def x prod.case swap by (intro flying_set_outcome) simp_all
qed

lemma flying_step:
  assumes "flying s" and "flight_step digest e s = Some s'"
  shows "flying s'"
proof (cases e)
  case (Arrive c env now)
  let ?p = "look_up digest env now c (fl_store s)"
  let ?s = "s\<lparr>fl_callers := fl_callers s @ [(c, ?p)]\<rparr>"
  have "?p \<noteq> Leads n" for n by (simp add: look_up_def Let_def split: option.split)
  then have "leads ?s = leads s"
    by (auto simp: leads_def phase_of_def fun_eq_iff nth_append less_Suc_eq)
  with assms Arrive show ?thesis by (auto simp: flight_step_def flying_def running_def)
next
  case (Join i)
  with assms(2) obtain key ttl where "phase_of i s = Some (Missed key ttl)" "s' = join_task i key ttl s"
    by (auto simp: flight_step_def split: option.splits phase.splits)
  with assms(1) show ?thesis by (auto intro: flying_join)
next
  case (Answer n r now ok)
  then have "s' = answer_task n r now ok s" using assms(2) by (simp add: flight_step_def split: if_splits)
  moreover have "flying (s\<lparr>fl_store := st\<rparr>) = flying s" for s st
    by (simp add: flying_def leads_def running_def phase_of_def)
  ultimately show ?thesis
    using assms(1) by (auto simp: answer_task_def Let_def split: prod.split option.split intro: flying_set_outcome)
next
  case (Break n)
  with assms show ?thesis by (auto simp: flight_step_def split: if_splits intro: flying_set_outcome)
next
  case (Cancel i)
  with assms(2) have "(\<exists>n. phase_of i s = Some (Waits n)) \<and> s' = set_phase i Cancelled s \<or> (\<exists>n. s' = set_outcome n Stopped s)"
    by (auto simp: flight_step_def split: option.splits phase.splits if_splits)
  with assms(1) show ?thesis by (auto intro: flying_set_phase flying_set_outcome)
next
  case (Resume i)
  with assms(2) obtain n where
      c: "leads s i n \<and> resume_leader i n s = Some s' \<or> phase_of i s = Some (Waits n) \<and> resume_waiter i n s = Some s'"
    by (auto simp: flight_step_def leads_def split: option.splits phase.splits)
  then show ?thesis
  proof (elim disjE conjE)
    assume "leads s i n" "resume_leader i n s = Some s'"
    then show ?thesis using assms(1)
      by (auto simp: resume_leader_def running_def split: outcome.splits
          intro: flying_deliver_leader flying_leave)
  next
    assume "phase_of i s = Some (Waits n)" "resume_waiter i n s = Some s'"
    then show ?thesis using assms(1)
      by (auto simp: resume_waiter_def deliver_def split: outcome.splits prod.splits
          intro!: flying_set_phase flying_set_outcome)
  qed
qed

lemma flying_reached: "flight_reached digest s \<Longrightarrow> flying s"
proof (induction rule: flight_reached.induct)
  case start
  show ?case by (simp add: flying_def empty_flight_def leads_def running_def phase_of_def)
next
  case step
  then show ?case by (blast intro: flying_step)
qed

end
