(* ===== verification/Cache_Outcomes.thy ===== *)
theory Cache_Outcomes
  imports Cache_Claims
begin

section \<open>What callers of the cache are served\<close>

text \<open>
  On top of the invariants of \<open>Cache_Claims\<close>: what a caller is served is what the layer below answered
  to the task it comes from, and the properties of the whole request path that follow.
\<close>

subsection \<open>Answers persist\<close>

definition settled :: "body \<Rightarrow> bool" where
  "settled b \<longleftrightarrow> snd (send b) = b"

lemma settled_buffered [simp]: "settled (Buffered b)"
  by (simp add: settled_def)

text \<open>Task \<open>n\<close>, run for the call \<open>c\<close>, holds a response of this status and body.\<close>

definition holds_outcome :: "flight \<Rightarrow> nat \<Rightarrow> call \<Rightarrow> nat \<Rightarrow> body \<Rightarrow> bool" where
  "holds_outcome s n c status b \<longleftrightarrow> n < length (fl_tasks s) \<and> tk_call (fl_tasks s ! n) = c \<and>
     (\<exists>r. tk_outcome (fl_tasks s ! n) = Finished r \<and> rs_status r = status \<and> rs_body r = b)"

text \<open>The response a task serves: settled if it is a success.\<close>

definition serves :: "flight \<Rightarrow> nat \<Rightarrow> call \<Rightarrow> nat \<Rightarrow> string \<Rightarrow> bool" where
  "serves s n c status b \<longleftrightarrow>
     (\<exists>bd. holds_outcome s n c status bd \<and> (success status \<longrightarrow> settled bd \<and> fst (send bd) = b))"

definition persists :: "flight \<Rightarrow> flight \<Rightarrow> bool" where
  "persists s s' \<longleftrightarrow>
     (\<forall>n c status b. holds_outcome s n c status b \<longrightarrow> (\<exists>b'. holds_outcome s' n c status b' \<and> (settled b \<longrightarrow> b' = b)))"

lemma persists_answered:
  "persists s s' \<Longrightarrow> holds_outcome s n c status b \<Longrightarrow> settled b \<Longrightarrow> holds_outcome s' n c status b"
  unfolding persists_def by blast

lemma persists_serves: "persists s s' \<Longrightarrow> serves s n c status b \<Longrightarrow> serves s' n c status b"
  unfolding persists_def serves_def by metis

fun replayed :: "flight \<Rightarrow> phase \<Rightarrow> bool" where
  "replayed s (Served Hit c status b) = (success status \<and> b \<noteq> [] \<and> (\<exists>n. holds_outcome s n c status (Buffered b)))"
| "replayed s (Served (OfTask n) c status b) = serves s n c status b"
| "replayed s _ = True"

definition stored_ok :: "flight \<Rightarrow> cached \<Rightarrow> bool" where
  "stored_ok s e \<longleftrightarrow>
     (\<exists>n status headers b. holds_outcome s n (cd_origin e) status (Buffered b) \<and> success status \<and> b \<noteq> [] \<and>
        distinct (map fst headers) \<and> cd_text e = entry_text status headers b)"

definition replays :: "flight \<Rightarrow> bool" where
  "replays s \<longleftrightarrow>
     (\<forall>key e. fl_store s key = Some e \<longrightarrow> stored_ok s e) \<and>
     (\<forall>n c status b. holds_outcome s n c status b \<longrightarrow> success status \<longrightarrow> settled b) \<and>
     (\<forall>p \<in> set (fl_callers s). replayed s (snd p))"

lemma persists_replayed: "persists s s' \<Longrightarrow> replayed s p \<Longrightarrow> replayed s' p"
  by (induction s p rule: replayed.induct)
    (auto intro: persists_serves, blast intro: persists_answered settled_buffered)

lemma persists_stored: "persists s s' \<Longrightarrow> stored_ok s e \<Longrightarrow> stored_ok s' e"
  unfolding stored_ok_def by (blast intro: persists_answered settled_buffered)

lemma answered_simps [simp]:
  "holds_outcome (set_phase i p s) = holds_outcome s" "holds_outcome (land n s) = holds_outcome s"
  "holds_outcome (s\<lparr>fl_store := st\<rparr>) = holds_outcome s" "holds_outcome (s\<lparr>fl_callers := cs\<rparr>) = holds_outcome s"
  by (simp_all add: holds_outcome_def fun_eq_iff)

lemma replayed_cong: "holds_outcome s' = holds_outcome s \<Longrightarrow> replayed s' p = replayed s p"
  by (induction s p rule: replayed.induct) (simp_all add: serves_def)

lemma stored_cong: "holds_outcome s' = holds_outcome s \<Longrightarrow> stored_ok s' e = stored_ok s e"
  by (simp add: stored_ok_def)

lemma replays_set_phase:
  assumes "replays s" and "replayed s p"
  shows "replays (set_phase i p s)"
proof -
  have "replayed s (snd x)" if "x \<in> set (fl_callers (set_phase i p s))" for x
  proof -
    from that have "x \<in> set (fl_callers s) \<or> x = (fst (fl_callers s ! i), p)"
      by (auto simp: set_phase_def dest: set_update_subset_insert [THEN subsetD])
    with assms show ?thesis by (auto simp: replays_def)
  qed
  with assms(1) show ?thesis
    using replayed_cong [of "set_phase i p s" s] stored_cong [of "set_phase i p s" s]
    by (simp add: replays_def)
qed

lemma replays_land: "replays s \<Longrightarrow> replays (land n s)"
  using replayed_cong [of "land n s" s] stored_cong [of "land n s" s]
  by (simp add: replays_def) (simp add: land_def)

text \<open>An outcome that keeps what was answered keeps everything.\<close>

lemma replays_persists:
  assumes "replays s" and "persists s s'" and "fl_store s' = fl_store s" and "fl_callers s' = fl_callers s"
    and "\<And>n c status b. holds_outcome s' n c status b \<Longrightarrow> success status \<Longrightarrow> settled b"
  shows "replays s'"
  using assms persists_replayed [OF assms(2)] persists_stored [OF assms(2)] unfolding replays_def by auto

lemma answered_set_outcome:
  "holds_outcome (set_outcome n out s) m c status b \<longleftrightarrow>
     (if m = n then n < length (fl_tasks s) \<and> tk_call (fl_tasks s ! n) = c \<and>
        (\<exists>r. out = Finished r \<and> rs_status r = status \<and> rs_body r = b)
      else holds_outcome s m c status b)"
  by (auto simp: holds_outcome_def set_outcome_def nth_list_update)

lemma running_persists: "running n s \<Longrightarrow> persists s (set_outcome n out s)"
proof -
  assume "running n s"
  then have "\<not> holds_outcome s n c status b" for c status b by (simp add: running_def holds_outcome_def)
  then show ?thesis unfolding persists_def answered_set_outcome by metis
qed

lemma replays_outcome:
  assumes "replays s" and "running n s"
    and "\<And>r. out = Finished r \<Longrightarrow> success (rs_status r) \<Longrightarrow> settled (rs_body r)"
  shows "replays (set_outcome n out s)"
proof (rule replays_persists [OF assms(1) running_persists [OF assms(2)]])
  fix m c status b assume "holds_outcome (set_outcome n out s) m c status b" "success status"
  with assms(1,3) show "settled b"
    unfolding answered_set_outcome replays_def by (auto split: if_splits)
qed simp_all

subsection \<open>The steps\<close>

lemma drain_rest: "settled (snd (drain b))"
  by (cases b) (simp_all add: settled_def)

lemma drain_empty: "drain b = ([], rest) \<Longrightarrow> fst (send rest) = []"
  by (cases b) auto

lemma execute_facts:
  assumes "execute r = (r', entry)"
  shows "success (rs_status r') \<Longrightarrow> settled (rs_body r')"
    and "entry = Some w \<Longrightarrow> success (rs_status r') \<and> (\<exists>b. b \<noteq> [] \<and> rs_body r' = Buffered b \<and>
      w = entry_text (rs_status r') (content_type (kept_headers (rs_headers r))) b)"
proof -
  obtain b rest where d: "drain (rs_body r) = (b, rest)" by (cases "drain (rs_body r)")
  have "settled rest" using drain_rest [of "rs_body r"] by (simp add: d)
  with assms d show "success (rs_status r') \<Longrightarrow> settled (rs_body r')"
    by (auto simp: execute_def Let_def split: if_splits)
  from assms d show "entry = Some w \<Longrightarrow> success (rs_status r') \<and> (\<exists>b. b \<noteq> [] \<and> rs_body r' = Buffered b \<and>
      w = entry_text (rs_status r') (content_type (kept_headers (rs_headers r))) b)"
    by (auto simp: execute_def Let_def split: if_splits)
qed

lemma distinct_dict_of: "distinct (map fst (dict_of ps))"
proof (induction ps rule: dict_of.induct)
  case (2 k v ps)
  then show ?case by (auto intro: distinct_map_filter)
qed simp

lemma distinct_content_type: "distinct (map fst (content_type (kept_headers hs)))"
  unfolding content_type_def kept_headers_def using distinct_dict_of
  by (metis distinct_map_filter)

lemma look_up_replayed:
  assumes "replays s"
  shows "replayed s (look_up digest env now c (fl_store s)) \<and> look_up digest env now c (fl_store s) \<noteq> Failed"
proof -
  have hit: "\<exists>status b headers. load_entry (cd_text e) = Some (entry_dict status headers b, b) \<and>
      rebuild_entry (entry_dict status headers b) b = Some (status, headers, b) \<and>
      success status \<and> b \<noteq> [] \<and> (\<exists>n. holds_outcome s n (cd_origin e) status (Buffered b))"
    if "redis_read now key (fl_store s) = Some e" for key e
  proof -
    from that have "fl_store s key = Some e" by (auto simp: redis_read_def split: option.splits if_splits)
    with assms have "stored_ok s e" by (simp add: replays_def)
    then obtain n status headers b where e: "holds_outcome s n (cd_origin e) status (Buffered b)" "success status"
        "b \<noteq> []" "distinct (map fst headers)" "cd_text e = entry_text status headers b"
      unfolding stored_ok_def by blast
    moreover have "0 < status" using e(2) by (simp add: success_def)
    ultimately show ?thesis using entry_roundtrip [of status headers b] by auto
  qed
  show ?thesis
  proof (cases "look_up digest env now c (fl_store s) = Direct \<or> (\<exists>key ttl. look_up digest env now c (fl_store s) = Missed key ttl)")
    case True
    then show ?thesis by auto
  next
    case False
    then obtain key e where r: "redis_read now key (fl_store s) = Some e"
        and l: "look_up digest env now c (fl_store s) =
          (case load_entry (cd_text e) of None \<Rightarrow> Missed key (the (map_of cacheable_paths (hr_path (cl_request c))))
           | Some (entry, b) \<Rightarrow> (case rebuild_entry entry b of None \<Rightarrow> Failed
              | Some (status, headers, b') \<Rightarrow> Served Hit (cd_origin e) status b'))"
      unfolding look_up_def Let_def by (auto split: option.splits if_splits)
    from hit [OF r] obtain status b headers where "load_entry (cd_text e) = Some (entry_dict status headers b, b)"
        "rebuild_entry (entry_dict status headers b) b = Some (status, headers, b)"
        "success status" "b \<noteq> []" "\<exists>n. holds_outcome s n (cd_origin e) status (Buffered b)" by blast
    then show ?thesis unfolding l by simp
  qed
qed

lemma replays_answer:
  assumes "replays s" and "running n s"
  shows "replays (answer_task n r now ok s)"
proof -
  obtain r' entry where x: "execute r = (r', entry)" by (cases "execute r")
  let ?s = "set_outcome n (Finished r') s"
  have base: "replays ?s"
    using assms execute_facts(1) [OF x] by (intro replays_outcome) auto
  show ?thesis
  proof (cases "entry = None \<or> \<not> ok")
    case True
    with base show ?thesis by (auto simp: answer_task_def x Let_def split: option.split)
  next
    case False
    then obtain w where w: "entry = Some w" and ok by auto
    from execute_facts(2) [OF x w] obtain b where b: "success (rs_status r')" "b \<noteq> []" "rs_body r' = Buffered b"
        "w = entry_text (rs_status r') (content_type (kept_headers (rs_headers r))) b" by blast
    let ?e = "\<lparr>cd_text = w, cd_expires = now + of_int \<lfloor>tk_ttl (fl_tasks s ! n)\<rfloor>, cd_origin = tk_call (fl_tasks s ! n)\<rparr>"
    let ?u = "?s\<lparr>fl_store := (fl_store s)(tk_key (fl_tasks s ! n) \<mapsto> ?e)\<rparr>"
    have "holds_outcome ?s n (tk_call (fl_tasks s ! n)) (rs_status r') (Buffered b)"
      using assms(2) b(3) by (auto simp: answered_set_outcome running_def)
    then have "stored_ok ?s ?e"
      unfolding stored_ok_def using b distinct_content_type by (intro exI conjI) auto
    then have "replays ?u"
      using base replayed_cong [of ?u ?s] stored_cong [of ?u ?s] by (simp add: replays_def)
    with w \<open>ok\<close> show ?thesis by (simp add: answer_task_def x Let_def)
  qed
qed

lemma replays_deliver:
  assumes "replays s" and "n < length (fl_tasks s)" and "tk_outcome (fl_tasks s ! n) = Finished r"
  shows "replays (deliver i n v r s)"
proof -
  obtain b rest where x: "send (rs_body r) = (b, rest)" by (cases "send (rs_body r)")
  let ?r = "mark_header v (r\<lparr>rs_body := rest\<rparr>)" and ?c = "tk_call (fl_tasks s ! n)"
  have r: "rs_status ?r = rs_status r" "rs_body ?r = rest" by (simp_all add: mark_header_def)
  have now: "holds_outcome s n ?c (rs_status r) (rs_body r)" using assms(2,3) by (simp add: holds_outcome_def)
  have same: "settled (rs_body r) \<Longrightarrow> rest = rs_body r" by (simp add: settled_def x)
  have good: "success (rs_status r) \<Longrightarrow> settled (rs_body r)" using assms(1) now by (auto simp: replays_def)
  let ?s = "set_outcome n (Finished ?r) s"
  have "\<exists>b'. holds_outcome ?s m c status b' \<and> (settled bd \<longrightarrow> b' = bd)" if "holds_outcome s m c status bd" for m c status bd
  proof (cases "m = n")
    case True
    with that assms(3) have "c = ?c" "status = rs_status r" "bd = rs_body r" by (auto simp: holds_outcome_def)
    with True assms(2) r same show ?thesis by (auto simp: answered_set_outcome)
  next
    case False
    with that show ?thesis by (auto simp: answered_set_outcome)
  qed
  then have "persists s ?s" by (simp add: persists_def)
  then have base: "replays ?s"
  proof (rule replays_persists [OF assms(1)])
    fix m c status bd assume "holds_outcome ?s m c status bd" "success status"
    then show "settled bd"
      using assms(1) good same r unfolding answered_set_outcome replays_def by (auto split: if_splits)
  qed simp_all
  have "holds_outcome ?s n ?c (rs_status r) rest"
    using assms(2) r by (simp add: answered_set_outcome)
  moreover have "success (rs_status r) \<Longrightarrow> settled rest \<and> fst (send rest) = b"
    using good same x by simp
  ultimately have "replayed ?s (Served (OfTask n) ?c (rs_status r) b)" unfolding replayed.simps serves_def by blast
  with base show ?thesis unfolding deliver_def x prod.case by (rule replays_set_phase)
qed

lemma replays_join: "replays s \<Longrightarrow> replays (join_task i key ttl s)"
proof (cases "fl_inflight s key")
  case (Some n)
  moreover assume "replays s"
  ultimately show ?thesis by (simp add: join_task_def replays_set_phase)
next
  case None
  assume r: "replays s"
  let ?t = "\<lparr>tk_call = fst (fl_callers s ! i), tk_key = key, tk_ttl = ttl, tk_outcome = Running\<rparr>"
  let ?s = "s\<lparr>fl_inflight := (fl_inflight s)(key \<mapsto> length (fl_tasks s)), fl_tasks := fl_tasks s @ [?t]\<rparr>"
  have "holds_outcome ?s = holds_outcome s"
    by (auto simp: holds_outcome_def fun_eq_iff nth_append less_Suc_eq)
  then have "replays ?s"
    using r replayed_cong [of ?s s] stored_cong [of ?s s] by (simp add: replays_def)
  with None show ?thesis by (simp add: join_task_def Let_def replays_set_phase)
qed

lemma replays_step:
  assumes "replays s" and "keyed digest s" and "flight_step digest e s = Some s'"
  shows "replays s'"
proof (cases e)
  case (Arrive c env now)
  let ?s = "s\<lparr>fl_callers := fl_callers s @ [(c, look_up digest env now c (fl_store s))]\<rparr>"
  have "replays ?s"
    using assms(1) look_up_replayed [OF assms(1)] replayed_cong [of ?s s] stored_cong [of ?s s]
    by (auto simp: replays_def)
  with assms(3) Arrive show ?thesis by (simp add: flight_step_def)
next
  case (Join i)
  with assms show ?thesis by (auto simp: flight_step_def split: option.splits phase.splits intro: replays_join)
next
  case (Answer n r now ok)
  with assms show ?thesis by (auto simp: flight_step_def split: if_splits intro: replays_answer)
next
  case (Break n)
  with assms show ?thesis by (auto simp: flight_step_def split: if_splits intro: replays_outcome)
next
  case (Cancel i)
  with assms(3) have "s' = set_phase i Cancelled s \<or> (\<exists>n. running n s \<and> s' = set_outcome n Stopped s)"
    by (auto simp: flight_step_def split: option.splits phase.splits if_splits)
  with assms(1) show ?thesis by (auto intro: replays_set_phase replays_outcome)
next
  case (Resume i)
  with assms(3) obtain p n where p: "phase_of i s = Some p" "p = Leads n \<or> p = Waits n"
      and c: "resume_leader i n s = Some s' \<or> resume_waiter i n s = Some s'"
    by (auto simp: flight_step_def split: option.splits phase.splits)
  from phase_of_keyed [OF assms(2) p(1)] p(2) have "n < length (fl_tasks s)" by (auto simp: task_key_of_def)
  moreover have "replays (land n s)" using assms(1) by (rule replays_land)
  ultimately show ?thesis
    using c assms(1)
    by (auto simp: resume_leader_def resume_waiter_def split: outcome.splits
        intro!: replays_deliver replays_set_phase)
qed

lemma replays_reached: "flight_reached digest s \<Longrightarrow> replays s"
proof (induction rule: flight_reached.induct)
  case start
  show ?case by (simp add: replays_def empty_flight_def holds_outcome_def)
next
  case step
  then show ?case by (blast intro: replays_step keyed_reached)
qed

subsection \<open>What the layer below gave\<close>

text \<open>
  The bytes of an answer, as the layer below gave it, and whether its stream breaks before the end.
  \<open>given es n r\<close>: along the events \<open>es\<close> the layer below answered task \<open>n\<close> with \<open>r\<close>.
\<close>

fun whole :: "body \<Rightarrow> string" where
  "whole (Buffered b) = b"
| "whole (Streamed chunks fails) = concat chunks"

fun breaks :: "body \<Rightarrow> bool" where
  "breaks (Buffered b) = False"
| "breaks (Streamed chunks fails) = fails"

definition given :: "event list \<Rightarrow> nat \<Rightarrow> response \<Rightarrow> bool" where
  "given es n r \<longleftrightarrow> (\<exists>now ok. Answer n r now ok \<in> set es)"

definition intact :: "response \<Rightarrow> response \<Rightarrow> bool" where
  "intact r r' \<longleftrightarrow> rs_status r' = rs_status r \<and>
     (success (rs_status r) \<longrightarrow> settled (rs_body r') \<and>
        fst (send (rs_body r')) = (if breaks (rs_body r) then [] else whole (rs_body r)))"

definition outcomes_given :: "event list \<Rightarrow> flight \<Rightarrow> bool" where
  "outcomes_given es s \<longleftrightarrow>
     (\<forall>n < length (fl_tasks s). \<forall>r'. tk_outcome (fl_tasks s ! n) = Finished r' \<longrightarrow> (\<exists>r. given es n r \<and> intact r r'))"

lemma drain_whole: "fst (drain b) = (if breaks b then [] else whole b)"
  by (cases b) simp_all

lemma execute_intact: "intact r (fst (execute r))"
proof -
  obtain b rest where d: "drain (rs_body r) = (b, rest)" by (cases "drain (rs_body r)")
  have "settled rest" "b = (if breaks (rs_body r) then [] else whole (rs_body r))"
    using drain_rest [of "rs_body r"] drain_whole [of "rs_body r"] by (simp_all add: d)
  then show ?thesis
    using drain_empty [of "rs_body r" rest] d by (auto simp: intact_def execute_def Let_def)
qed

lemma delivered_intact:
  "intact r r' \<Longrightarrow> intact r (mark_header v (r'\<lparr>rs_body := snd (send (rs_body r'))\<rparr>))"
  by (auto simp: intact_def mark_header_def settled_def)

lemma given_more: "given es n r \<Longrightarrow> given (es @ [e]) n r"
  by (auto simp: given_def)

lemma outcomes_more: "outcomes_given es s \<Longrightarrow> outcomes_given (es @ [e]) s"
  unfolding outcomes_given_def using given_more by blast

lemma outcomes_tasks: "fl_tasks s' = fl_tasks s \<Longrightarrow> outcomes_given es s \<Longrightarrow> outcomes_given es s'"
  by (simp add: outcomes_given_def)

lemma outcomes_set:
  assumes "outcomes_given es s" and "\<And>r'. out = Finished r' \<Longrightarrow> \<exists>r. given es n r \<and> intact r r'"
  shows "outcomes_given es (set_outcome n out s)"
  unfolding outcomes_given_def
proof (intro allI impI)
  fix m r'
  assume "m < length (fl_tasks (set_outcome n out s))" and "tk_outcome (fl_tasks (set_outcome n out s) ! m) = Finished r'"
  with assms show "\<exists>r. given es m r \<and> intact r r'"
    by (cases "m = n") (auto simp: outcomes_given_def set_outcome_def)
qed

lemma outcomes_deliver:
  assumes "outcomes_given es s" and "n < length (fl_tasks s)" and "tk_outcome (fl_tasks s ! n) = Finished r'"
  shows "outcomes_given es (deliver i n v r' s)"
proof -
  obtain r where "given es n r" "intact r r'" using assms by (auto simp: outcomes_given_def)
  then have "outcomes_given es (set_outcome n (Finished (mark_header v (r'\<lparr>rs_body := snd (send (rs_body r'))\<rparr>))) s)"
    using delivered_intact by (intro outcomes_set [OF assms(1)]) auto
  then show ?thesis
    by (rule outcomes_tasks [rotated]) (simp add: deliver_def set_phase_def split: prod.split)
qed

lemma outcomes_step:
  assumes "outcomes_given es s" and "keyed digest s" and "flight_step digest e s = Some s'"
  shows "outcomes_given (es @ [e]) s'"
proof -
  have o: "outcomes_given (es @ [e]) s" using assms(1) by (rule outcomes_more)
  show ?thesis
  proof (cases e)
    case (Arrive c env now)
    with assms(3) o show ?thesis by (auto simp: flight_step_def intro: outcomes_tasks)
  next
    case (Join i)
    then obtain key ttl where "s' = join_task i key ttl s"
      using assms(3) by (auto simp: flight_step_def split: option.splits phase.splits)
    with o show ?thesis
      by (auto simp: join_task_def Let_def set_phase_def outcomes_given_def nth_append less_Suc_eq
          split: option.splits)
  next
    case (Answer n r now ok)
    then have "s' = answer_task n r now ok s" using assms(3) by (auto simp: flight_step_def split: if_splits)
    moreover have "outcomes_given (es @ [e]) (set_outcome n (Finished (fst (execute r))) s)"
      using o execute_intact by (intro outcomes_set) (auto simp: given_def Answer)
    ultimately show ?thesis
      by (auto simp: answer_task_def Let_def intro: outcomes_tasks split: prod.splits option.splits)
  next
    case (Break n)
    with assms(3) o show ?thesis by (auto simp: flight_step_def split: if_splits intro: outcomes_set)
  next
    case (Cancel i)
    with assms(3) have "s' = set_phase i Cancelled s \<or> (\<exists>n. s' = set_outcome n Stopped s)"
      by (auto simp: flight_step_def split: option.splits phase.splits if_splits)
    with o show ?thesis by (auto intro: outcomes_set outcomes_tasks simp: set_phase_def)
  next
    case (Resume i)
    with assms(3) obtain p n where p: "phase_of i s = Some p" "p = Leads n \<or> p = Waits n"
        and c: "resume_leader i n s = Some s' \<or> resume_waiter i n s = Some s'"
      by (auto simp: flight_step_def split: option.splits phase.splits)
    from phase_of_keyed [OF assms(2) p(1)] p(2) have "n < length (fl_tasks s)" by (auto simp: task_key_of_def)
    moreover have "outcomes_given (es @ [e]) (land n s)" using o by (auto simp: land_def intro: outcomes_tasks)
    moreover have "outcomes_given (es @ [e]) (set_phase i p' t)" if "outcomes_given (es @ [e]) t" for p' t
      using that by (auto simp: set_phase_def intro: outcomes_tasks)
    ultimately show ?thesis
      using c o by (auto simp: resume_leader_def resume_waiter_def land_def split: outcome.splits
          intro!: outcomes_deliver)
  qed
qed

lemma flight_run_snoc:
  "flight_run digest (es @ [e]) s =
     (case flight_run digest es s of None \<Rightarrow> None | Some s' \<Rightarrow> flight_step digest e s')"
  by (induction es arbitrary: s) (auto split: option.split)

lemma outcomes_run: "flight_run digest es empty_flight = Some s \<Longrightarrow> outcomes_given es s"
proof (induction es arbitrary: s rule: rev_induct)
  case Nil
  then show ?case by (auto simp: outcomes_given_def empty_flight_def)
next
  case (snoc e es)
  then obtain s0 where s0: "flight_run digest es empty_flight = Some s0" "flight_step digest e s0 = Some s"
    by (auto simp: flight_run_snoc split: option.splits)
  have "keyed digest s0" using flight_run_reached [OF flight_reached.start s0(1)] by (rule keyed_reached)
  with snoc.IH [OF s0(1)] s0(2) show ?case by (intro outcomes_step)
qed

subsection \<open>Identities\<close>

text \<open>Equal keys mean the same read by the same identity.\<close>

definition same_read :: "call \<Rightarrow> call \<Rightarrow> bool" where
  "same_read c d \<longleftrightarrow> as_org (cl_state c) = as_org (cl_state d) \<and> as_actor (cl_state c) = as_actor (cl_state d) \<and>
     as_key (cl_state c) = as_key (cl_state d) \<and> hr_method (cl_request c) = hr_method (cl_request d) \<and>
     hr_path (cl_request c) = hr_path (cl_request d) \<and> hr_query (cl_request c) = hr_query (cl_request d) \<and>
     keyed_body (cl_request c) = keyed_body (cl_request d)"

definition admitted :: "call \<Rightarrow> bool" where
  "admitted c \<longleftrightarrow> (\<exists>env sha keys. gate env sha keys (cl_request c) blank_state = Inr (cl_state c)) \<and>
     no_nul (hr_query (cl_request c))"

definition call_text :: "call \<Rightarrow> string" where
  "call_text c = hashed_text c (keyed_body (cl_request c))"

definition no_collision :: "(string \<Rightarrow> string) \<Rightarrow> call set \<Rightarrow> bool" where
  "no_collision digest calls \<longleftrightarrow> inj_on (\<lambda>x. take 32 (digest x)) (call_text ` calls)"

lemma hex_chars_nul: "set s \<subseteq> insert (CHR ''-'') hex_chars \<Longrightarrow> no_nul s"
  by (auto simp: no_nul_def)

lemma no_nul_uuid: "no_nul (uuid_str u)"
proof (rule hex_chars_nul)
  have "set (take 8 h @ hyphen @ take 4 (drop 8 h) @ hyphen @ take 4 (drop 12 h) @ hyphen @
      take 4 (drop 16 h) @ hyphen @ drop 20 h) \<subseteq> insert (CHR ''-'') A" if "set h \<subseteq> A" for h A
    using that unfolding hyphen_def by (auto dest: in_set_takeD in_set_dropD)
  from this [OF set_hex_digits] show "set (uuid_str u) \<subseteq> insert (CHR ''-'') hex_chars"
    unfolding uuid_str_def Let_def .
qed

lemma gate_key:
  assumes "gate env sha keys q blank_state = Inr st" and "\<not> is_public_path (hr_path q)"
  shows "as_key st = None \<or> (\<exists>k. as_key st = Some (uuid_str k))"
proof -
  from assms(1) obtain s where a: "authenticate env sha keys q blank_state = Inr s" and c: "check_tenant q s = Inr st"
    unfolding gate_def by (rule ebind_InrE)
  have "st = s" using c assms(2) by (auto simp: check_tenant_def ebind_Inr_iff split: option.splits)
  moreover have "as_key s = None \<or> (\<exists>k. as_key s = Some (uuid_str k))"
  proof -
    from a assms(2) obtain ho ha token where "identify env sha keys ho ha blank_state token = Inr s"
      unfolding authenticate_def by (auto simp: ebind_Inr_iff split: if_splits)
    then show ?thesis
      by (auto simp: identify_def auth_with_token_def set_state_def split: if_splits option.splits sum.splits)
  qed
  ultimately show ?thesis by simp
qed

lemma cacheable_path:
  assumes "cacheable c"
  shows "\<not> is_public_path (hr_path (cl_request c))" "no_nul (hr_path (cl_request c))"
    "no_nul (hr_method (cl_request c))"
proof -
  have paths: "\<forall>p \<in> set (map fst cacheable_paths). \<not> is_public_path p \<and> no_nul p"
    by code_simp
  have methods: "\<forall>m \<in> set cacheable_methods. no_nul m" by code_simp
  from paths methods assms show "\<not> is_public_path (hr_path (cl_request c))" "no_nul (hr_path (cl_request c))"
    "no_nul (hr_method (cl_request c))" unfolding cacheable_def by auto
qed

lemma admitted_identity:
  assumes "admitted c" and "cacheable c"
  shows "(\<exists>org actor. as_org (cl_state c) = Some (uuid_str org) \<and> as_actor (cl_state c) = Some (uuid_str actor)) \<and>
     (as_key (cl_state c) = None \<or> (\<exists>k. as_key (cl_state c) = Some (uuid_str k)))"
proof -
  from assms(1) obtain env sha keys where g: "gate env sha keys (cl_request c) blank_state = Inr (cl_state c)"
    unfolding admitted_def by blast
  have "authenticate env sha keys (cl_request c) blank_state = Inr (cl_state c)"
    using g cacheable_path(1) [OF assms(2)] unfolding gate_def
    by (auto simp: ebind_Inr_iff check_tenant_def split: option.splits)
  then obtain org actor where "state_names (cl_state c) org actor"
    using authenticate_names cacheable_path(1) [OF assms(2)] by blast
  with gate_key [OF g cacheable_path(1) [OF assms(2)]] show ?thesis by (auto simp: state_names_def)
qed

lemma admitted_parts: "admitted c \<Longrightarrow> cacheable c \<Longrightarrow> list_all no_nul (key_parts c)"
  using admitted_identity [of c] cacheable_path(2,3) [of c]
  by (auto simp: key_parts_def cache_identity_def admitted_def no_nul_uuid) (auto simp: no_nul_def)

lemma same_key_same_read:
  assumes "admitted c" "admitted d" "cacheable c" "cacheable d" and "call_key digest c = call_key digest d"
    and "no_collision digest calls" and "c \<in> calls" "d \<in> calls"
  shows "same_read c d"
proof -
  have "take 32 (digest (call_text c)) = take 32 (digest (call_text d))"
    using assms(5) by (simp add: call_key_def cache_key_def call_text_def)
  with assms(6-8) have "call_text c = call_text d" unfolding no_collision_def by (auto dest: inj_onD)
  then have parts: "key_parts c = key_parts d" "keyed_body (cl_request c) = keyed_body (cl_request d)"
    using hashed_text_inj [OF admitted_parts [OF assms(1,3)] admitted_parts [OF assms(2,4)]]
    by (auto simp: call_text_def)
  have key: "a = b" if "the_default [] a = the_default [] b" "a = None \<or> (\<exists>k. a = Some (uuid_str k))"
      "b = None \<or> (\<exists>k. b = Some (uuid_str k))" for a b :: "string option"
    using that by (metis the_default_simps uuid_str_nonempty)
  from parts show ?thesis
    using admitted_identity [OF assms(1,3)] admitted_identity [OF assms(2,4)]
    by (auto simp: same_read_def key_parts_def cache_identity_def intro: key)
qed

end
