(* ===== verification/Token_Bucket.thy ===== *)
theory Token_Bucket
  imports Prelude Complex_Main
begin

section \<open>The token-bucket interface\<close>

text \<open>
  What a rate limiter promises about one bucket.  Requests \<open>'r\<close> arrive at instants; \<open>level\<close> is
  the number of tokens in the bucket at an instant, \<open>serve\<close> handles a request and says whether
  it passed.  \<open>mine\<close> are the requests the bucket meters, \<open>fair\<close> the requests under which the
  laws hold (those of other buckets among them).  The laws: the level is never negative nor over
  the burst, rises by at most the rate, falls by one when a metered request passes and never
  rises by serving a request.
\<close>

locale token_bucket =
  fixes level :: "'s \<Rightarrow> rat \<Rightarrow> rat"
    and ok :: "'s \<Rightarrow> rat \<Rightarrow> bool"
    and serve :: "'r \<Rightarrow> rat \<Rightarrow> 's \<Rightarrow> 's \<times> bool"
    and mine :: "'r \<Rightarrow> bool"
    and fair :: "'r \<Rightarrow> bool"
    and rate :: rat
    and burst :: rat
  assumes level_cap: "ok s t \<Longrightarrow> 0 \<le> level s t \<and> level s t \<le> burst"
    and ok_later: "ok s t \<Longrightarrow> t \<le> t' \<Longrightarrow> ok s t'"
    and ok_serve: "ok s t \<Longrightarrow> fair r \<Longrightarrow> ok (fst (serve r t s)) t"
    and refill: "ok s t \<Longrightarrow> t \<le> t' \<Longrightarrow> level s t' \<le> level s t + rate * (t' - t)"
    and pays: "ok s t \<Longrightarrow> fair r \<Longrightarrow> mine r \<Longrightarrow> snd (serve r t s) \<Longrightarrow> level (fst (serve r t s)) t \<le> level s t - 1"
    and keeps: "ok s t \<Longrightarrow> fair r \<Longrightarrow> level (fst (serve r t s)) t \<le> level s t"
begin

text \<open>The metered requests of a history that pass.\<close>

fun admitted :: "('r \<times> rat) list \<Rightarrow> 's \<Rightarrow> nat" where
  "admitted [] s = 0"
| "admitted ((r, t) # rs) s =
     (if mine r \<and> snd (serve r t s) then 1 else 0) + admitted rs (fst (serve r t s))"

lemma admitted_level:
  assumes "ok s t0" and "sorted (t0 # map snd rs)" and "\<And>r. r \<in> fst ` set rs \<Longrightarrow> fair r"
  shows "of_nat (admitted rs s) \<le> level s t0 + rate * (last (t0 # map snd rs) - t0)"
  using assms
proof (induction rs arbitrary: s t0)
  case Nil
  then show ?case using level_cap by simp
next
  case (Cons p rs)
  obtain r t where p: "p = (r, t)" by (cases p)
  let ?s' = "fst (serve r t s)"
  have t: "t0 \<le> t" "sorted (t # map snd rs)" using Cons.prems(2) by (auto simp: p)
  have f: "fair r" using Cons.prems(3) by (simp add: p)
  have ok: "ok s t" by (rule ok_later [OF Cons.prems(1) t(1)])
  have IH: "of_nat (admitted rs ?s') \<le> level ?s' t + rate * (last (t # map snd rs) - t)"
    using Cons.IH [OF ok_serve [OF ok f] t(2)] Cons.prems(3) by (auto simp: p)
  define c :: rat where "c = (if mine r \<and> snd (serve r t s) then 1 else 0)"
  have "level ?s' t + c \<le> level s t"
    using pays [OF ok f] keeps [OF ok f] by (auto simp: c_def)
  moreover have "of_nat (admitted (p # rs) s) = c + of_nat (admitted rs ?s')"
    by (simp add: p c_def)
  moreover have "last (t0 # map snd (p # rs)) = last (t # map snd rs)" by (simp add: p)
  ultimately show ?case using IH refill [OF Cons.prems(1) t(1)] by (simp add: right_diff_distrib)
qed

lemma admitted_bound:
  assumes "ok s t0" and "sorted (t0 # map snd rs)" and "\<And>r. r \<in> fst ` set rs \<Longrightarrow> fair r"
  shows "of_nat (admitted rs s) \<le> burst + rate * (last (t0 # map snd rs) - t0)"
  using admitted_level [OF assms] level_cap [OF assms(1)] by linarith

end

end
