(* ===== verification/Rate_Limit.thy ===== *)
theory Rate_Limit
  imports Token_Bucket Py_Text
begin

section \<open>The API rate limiter\<close>

text \<open>
  \<open>contexta/api/middleware/ratelimit.py\<close>.  Seconds and token counts are rationals.  Redis is a map
  from keys to a value and the instant it expires; its clock is the caller's.  A request carries
  whether Redis answers during it (the limiter is fail-open).  The two pipelines of one call are
  the two functions \<open>read_bucket\<close> and \<open>write_bucket\<close>, because other callers run between them.
\<close>

subsection \<open>Redis\<close>

type_synonym redis = "string \<Rightarrow> (rat \<times> rat) option"

definition redis_get :: "rat \<Rightarrow> string \<Rightarrow> redis \<Rightarrow> rat option" where
  "redis_get now key r = (case r key of Some (v, expires) \<Rightarrow> if now < expires then Some v else None | None \<Rightarrow> None)"

text \<open>\<open>SET\<close> and \<open>EXPIRE\<close>.\<close>

definition redis_setex :: "rat \<Rightarrow> string \<Rightarrow> rat \<Rightarrow> rat \<Rightarrow> redis \<Rightarrow> redis" where
  "redis_setex now key ttl v r = r(key \<mapsto> (v, now + ttl))"

subsection \<open>Tiers\<close>

definition tier_limits :: "(string \<times> rat \<times> rat) list" where
  "tier_limits = [(''hobby'', 10, 20), (''solo_pro'', 50, 100), (''team'', 250, 500),
     (''scale'', 1000, 2000), (''standard'', 50, 100)]"

definition default_tier :: string where "default_tier = ''standard''"

definition unmetered_prefixes :: "string list" where
  "unmetered_prefixes = [''/healthz'', ''/readyz'', ''/metrics'', ''/docs'', ''/openapi.json'', ''/redoc'']"

definition limits_of :: "string \<Rightarrow> rat \<times> rat" where
  "limits_of tier =
     (case map_of tier_limits tier of
        Some l \<Rightarrow> l | None \<Rightarrow> the (map_of tier_limits default_tier))"

subsection \<open>Taking a token\<close>

definition tokens_key :: "string \<Rightarrow> string" where "tokens_key identity = ''rl:'' @ identity @ '':tokens''"
definition ts_key :: "string \<Rightarrow> string" where "ts_key identity = ''rl:'' @ identity @ '':ts''"

definition read_bucket :: "string \<Rightarrow> rat \<Rightarrow> redis \<Rightarrow> rat option \<times> rat option" where
  "read_bucket identity now r = (redis_get now (ts_key identity) r, redis_get now (tokens_key identity) r)"

definition available :: "rat \<Rightarrow> rat \<Rightarrow> rat \<Rightarrow> rat option \<times> rat option \<Rightarrow> rat" where
  "available rate burst now previous =
     (case previous of
        (None, _) \<Rightarrow> burst
      | (Some ts, tokens) \<Rightarrow>
          min burst ((case tokens of Some x \<Rightarrow> x | None \<Rightarrow> burst) + max 0 (now - ts) * rate))"

record verdict =
  allowed :: bool
  remaining :: rat
  retry_after :: rat

definition decide :: "rat \<Rightarrow> rat \<Rightarrow> verdict" where
  "decide rate level =
     (if 1 \<le> level then \<lparr>allowed = True, remaining = level - 1, retry_after = 0\<rparr>
      else \<lparr>allowed = False, remaining = level,
             retry_after = (if 0 < rate then (1 - level) / rate else 1)\<rparr>)"

definition write_bucket :: "string \<Rightarrow> rat \<Rightarrow> verdict \<Rightarrow> redis \<Rightarrow> redis" where
  "write_bucket identity now v r =
     redis_setex now (ts_key identity) 120 now (redis_setex now (tokens_key identity) 120 (remaining v) r)"

definition consume :: "bool \<Rightarrow> string \<Rightarrow> rat \<Rightarrow> rat \<Rightarrow> rat \<Rightarrow> redis \<Rightarrow> redis \<times> bool \<times> rat" where
  "consume up identity rate burst now r =
     (if \<not> up then (r, True, 0)
      else
        let v = decide rate (available rate burst now (read_bucket identity now r))
        in (write_bucket identity now v r, allowed v, retry_after v))"

subsection \<open>The middleware\<close>

record api_request =
  rq_path :: string
  rq_key_id :: "string option"
  rq_key_tier :: string
  rq_host :: "string option"
  rq_redis_up :: bool

datatype reply = Passed | Limited string int

definition request_tier :: "api_request \<Rightarrow> string" where
  "request_tier q =
     (if truthy (rq_key_id q) then (if rq_key_tier q = [] then default_tier else rq_key_tier q)
      else default_tier)"

definition request_identity :: "api_request \<Rightarrow> string" where
  "request_identity q =
     (if truthy (rq_key_id q) then ''apikey:'' @ the (rq_key_id q)
      else ''ip:'' @ (case rq_host q of Some h \<Rightarrow> h | None \<Rightarrow> ''unknown''))"

definition unmetered :: "api_request \<Rightarrow> bool" where
  "unmetered q \<longleftrightarrow> (\<exists>p \<in> set unmetered_prefixes. starts_with (rq_path q) p)"

definition dispatch_limited :: "api_request \<Rightarrow> rat \<Rightarrow> redis \<Rightarrow> redis \<times> reply" where
  "dispatch_limited q now r =
     (if unmetered q then (r, Passed)
      else
        let (rate, burst) = limits_of (request_tier q);
            (r', ok, wait) = consume (rq_redis_up q) (request_identity q) rate burst now r
        in (r', if ok then Passed else Limited (request_tier q) (max 1 (\<lfloor>wait\<rfloor> + 1))))"

subsection \<open>Keys\<close>

lemma key_simps [simp]:
  "tokens_key i = tokens_key j \<longleftrightarrow> i = j" "ts_key i = ts_key j \<longleftrightarrow> i = j"
  by (simp_all add: tokens_key_def ts_key_def)

lemma key_neq [simp]: "tokens_key i \<noteq> ts_key j" "ts_key j \<noteq> tokens_key i"
proof -
  have "rev (tokens_key i) \<noteq> rev (ts_key j)" by (simp add: tokens_key_def ts_key_def)
  then show "tokens_key i \<noteq> ts_key j" "ts_key j \<noteq> tokens_key i" by auto
qed

lemma read_write [simp]:
  "read_bucket i t (write_bucket i now v r) = (if t < now + 120 then (Some now, Some (remaining v)) else (None, None))"
  "i \<noteq> j \<Longrightarrow> read_bucket i t (write_bucket j now v r) = read_bucket i t r"
  by (auto simp: read_bucket_def write_bucket_def redis_get_def redis_setex_def)

subsection \<open>One identity's bucket\<close>

definition bucket_level :: "string \<Rightarrow> rat \<Rightarrow> rat \<Rightarrow> redis \<Rightarrow> rat \<Rightarrow> rat" where
  "bucket_level i rate burst r t = available rate burst t (read_bucket i t r)"

text \<open>
  A bucket the limiter wrote: both keys or none, expiring together two minutes after the
  timestamp, the timestamp not in the future and the tokens between zero and the burst.
\<close>

definition bucket_ok :: "string \<Rightarrow> rat \<Rightarrow> redis \<Rightarrow> rat \<Rightarrow> bool" where
  "bucket_ok i burst r t =
     (case (r (ts_key i), r (tokens_key i)) of
        (None, None) \<Rightarrow> True
      | (Some (ts, e), Some (tokens, e')) \<Rightarrow>
          e = ts + 120 \<and> e' = e \<and> ts \<le> t \<and> 0 \<le> tokens \<and> tokens \<le> burst
      | _ \<Rightarrow> False)"

lemma bucket_cases:
  assumes "bucket_ok i burst r t"
  obtains (empty) "r (ts_key i) = None" "r (tokens_key i) = None"
    | (full) ts tokens where "r (ts_key i) = Some (ts, ts + 120)" "r (tokens_key i) = Some (tokens, ts + 120)"
      "ts \<le> t" "0 \<le> tokens" "tokens \<le> burst"
  using assms by (auto simp: bucket_ok_def split: option.splits)

lemma level_full:
  assumes "r (ts_key i) = Some (ts, ts + 120)" and "r (tokens_key i) = Some (tokens, ts + 120)" and "ts \<le> t"
  shows "bucket_level i rate burst r t =
    (if t < ts + 120 then min burst (tokens + (t - ts) * rate) else burst)"
  using assms by (simp add: bucket_level_def read_bucket_def redis_get_def available_def max_def)

lemma level_empty: "r (ts_key i) = None \<Longrightarrow> bucket_level i rate burst r t = burst"
  by (simp add: bucket_level_def read_bucket_def redis_get_def available_def)

lemma level_range:
  assumes "bucket_ok i burst r t" and "0 \<le> rate" and "0 \<le> burst"
  shows "0 \<le> bucket_level i rate burst r t \<and> bucket_level i rate burst r t \<le> burst"
  using assms(1)
proof (cases rule: bucket_cases)
  case empty
  with assms show ?thesis by (simp add: level_empty)
next
  case (full ts tokens)
  with assms show ?thesis by (simp add: level_full [OF full(1,2,3)])
qed

lemma bucket_ok_later: "bucket_ok i burst r t \<Longrightarrow> t \<le> t' \<Longrightarrow> bucket_ok i burst r t'"
  by (auto simp: bucket_ok_def split: option.splits)

lemma level_refill:
  assumes "bucket_ok i burst r t" and "t \<le> t'" and "0 < rate" and "burst \<le> rate * 120"
  shows "bucket_level i rate burst r t' \<le> bucket_level i rate burst r t + rate * (t' - t)"
  using assms(1)
proof (cases rule: bucket_cases)
  case empty
  with assms show ?thesis by (simp add: level_empty)
next
  case (full ts tokens)
  have t': "ts \<le> t'" using full(3) assms(2) by simp
  have grow: "0 \<le> rate * (t' - t)" using assms(2,3) by simp
  show ?thesis
  proof (cases "t' < ts + 120")
    case True
    then show ?thesis using assms(2) grow
      by (simp add: level_full [OF full(1,2,3)] level_full [OF full(1,2) t'] algebra_simps min_def)
  next
    case False
    then have "rate * 120 \<le> rate * (t' - ts)" using assms(3) by (intro mult_left_mono) auto
    with False assms(4) full(4) grow show ?thesis
      by (simp add: level_full [OF full(1,2,3)] level_full [OF full(1,2) t'] algebra_simps min_def)
  qed
qed

lemma level_write:
  "bucket_level i rate burst (write_bucket i t v r) t = min burst (remaining v)"
  by (simp add: bucket_level_def available_def)

lemma bucket_ok_write:
  "0 \<le> remaining v \<Longrightarrow> remaining v \<le> burst \<Longrightarrow> bucket_ok i burst (write_bucket i t v r) t"
  by (simp add: bucket_ok_def write_bucket_def redis_setex_def)

lemma other_identity:
  "i \<noteq> j \<Longrightarrow> bucket_ok i burst (write_bucket j t v r) t' = bucket_ok i burst r t'"
  "i \<noteq> j \<Longrightarrow> bucket_level i rate burst (write_bucket j t v r) t' = bucket_level i rate burst r t'"
  by (simp add: bucket_ok_def write_bucket_def redis_setex_def) (simp add: bucket_level_def)

subsection \<open>The middleware as a token bucket\<close>

lemma limits_ok:
  "0 < fst (limits_of tier) \<and> 1 \<le> snd (limits_of tier) \<and> snd (limits_of tier) \<le> fst (limits_of tier) * 120"
  by (auto simp: limits_of_def tier_limits_def default_tier_def)

definition serve_request :: "api_request \<Rightarrow> rat \<Rightarrow> redis \<Rightarrow> redis \<times> bool" where
  "serve_request q now r = (let (r', reply) = dispatch_limited q now r in (r', reply = Passed))"

definition metered_on :: "string \<Rightarrow> api_request \<Rightarrow> bool" where
  "metered_on i q \<longleftrightarrow> \<not> unmetered q \<and> rq_redis_up q \<and> request_identity q = i"

text \<open>The requests of one identity all come with the limits of one tier.\<close>

definition same_tier :: "string \<Rightarrow> string \<Rightarrow> api_request \<Rightarrow> bool" where
  "same_tier i tier q \<longleftrightarrow> (request_identity q = i \<longrightarrow> limits_of (request_tier q) = limits_of tier)"

lemma serve_cases:
  "serve_request q now r =
     (if unmetered q \<or> \<not> rq_redis_up q then (r, True)
      else
        let v = decide (fst (limits_of (request_tier q)))
              (bucket_level (request_identity q) (fst (limits_of (request_tier q)))
                 (snd (limits_of (request_tier q))) r now)
        in (write_bucket (request_identity q) now v r, allowed v))"
  by (simp add: serve_request_def dispatch_limited_def consume_def bucket_level_def Let_def split: prod.split)

lemma serve_other:
  assumes "request_identity q \<noteq> i"
  shows "bucket_ok i burst (fst (serve_request q t r)) t = bucket_ok i burst r t"
    and "bucket_level i rate burst (fst (serve_request q t r)) t = bucket_level i rate burst r t"
  using assms other_identity [of i "request_identity q"] by (simp_all add: serve_cases Let_def)

lemma serve_mine:
  assumes "same_tier i tier q" and "request_identity q = i" and "\<not> unmetered q" and "rq_redis_up q"
  shows "serve_request q t r =
    (write_bucket i t (decide (fst (limits_of tier)) (bucket_level i (fst (limits_of tier)) (snd (limits_of tier)) r t)) r,
     allowed (decide (fst (limits_of tier)) (bucket_level i (fst (limits_of tier)) (snd (limits_of tier)) r t)))"
  using assms by (simp add: serve_cases same_tier_def Let_def)

lemma tier_range:
  "bucket_ok i (snd (limits_of tier)) r t \<Longrightarrow>
   0 \<le> bucket_level i (fst (limits_of tier)) (snd (limits_of tier)) r t \<and>
   bucket_level i (fst (limits_of tier)) (snd (limits_of tier)) r t \<le> snd (limits_of tier)"
  using level_range [of i "snd (limits_of tier)" r t "fst (limits_of tier)"] limits_ok [of tier] by simp

lemma remaining_range:
  "0 \<le> l \<Longrightarrow> 0 \<le> remaining (decide rate l) \<and> remaining (decide rate l) \<le> l - (if allowed (decide rate l) then 1 else 0)"
  by (simp add: decide_def)

lemma serve_mine_ok:
  assumes "same_tier i tier q" and "request_identity q = i" and "\<not> unmetered q" and "rq_redis_up q"
    and "bucket_ok i (snd (limits_of tier)) r t"
  shows "bucket_ok i (snd (limits_of tier)) (fst (serve_request q t r)) t"
    and "bucket_level i (fst (limits_of tier)) (snd (limits_of tier)) (fst (serve_request q t r)) t
      \<le> bucket_level i (fst (limits_of tier)) (snd (limits_of tier)) r t -
         (if snd (serve_request q t r) then 1 else 0)"
proof -
  let ?l = "bucket_level i (fst (limits_of tier)) (snd (limits_of tier)) r t"
  note range = tier_range [OF assms(5)]
  with remaining_range [of ?l "fst (limits_of tier)"]
  have "0 \<le> remaining (decide (fst (limits_of tier)) ?l)"
    "remaining (decide (fst (limits_of tier)) ?l) \<le> snd (limits_of tier)" by (auto split: if_splits)
  then show "bucket_ok i (snd (limits_of tier)) (fst (serve_request q t r)) t"
    by (simp add: serve_mine [OF assms(1-4)] bucket_ok_write)
  show "bucket_level i (fst (limits_of tier)) (snd (limits_of tier)) (fst (serve_request q t r)) t
      \<le> ?l - (if snd (serve_request q t r) then 1 else 0)"
    using remaining_range [of ?l "fst (limits_of tier)"] range
    by (simp add: serve_mine [OF assms(1-4)] level_write min_le_iff_disj)
qed

interpretation api_bucket: token_bucket
  "bucket_level i (fst (limits_of tier)) (snd (limits_of tier))" "bucket_ok i (snd (limits_of tier))"
  serve_request "metered_on i" "same_tier i tier" "fst (limits_of tier)" "snd (limits_of tier)"
  for i tier
proof unfold_locales
  fix r :: redis and t t' :: rat and q :: api_request
  let ?rate = "fst (limits_of tier)" and ?burst = "snd (limits_of tier)"
  assume ok: "bucket_ok i ?burst r t"
  show "0 \<le> bucket_level i ?rate ?burst r t \<and> bucket_level i ?rate ?burst r t \<le> ?burst"
    by (rule tier_range [OF ok])
  show "t \<le> t' \<Longrightarrow> bucket_ok i ?burst r t'" by (rule bucket_ok_later [OF ok])
  show "t \<le> t' \<Longrightarrow> bucket_level i ?rate ?burst r t' \<le> bucket_level i ?rate ?burst r t + ?rate * (t' - t)"
    using level_refill [OF ok] limits_ok [of tier] by blast
  assume fair: "same_tier i tier q"
  consider (other) "request_identity q \<noteq> i" | (free) "unmetered q \<or> \<not> rq_redis_up q"
    | (own) "request_identity q = i" "\<not> unmetered q" "rq_redis_up q" by blast
  note cases = this
  show "bucket_ok i ?burst (fst (serve_request q t r)) t"
    using cases ok serve_other(1) [of q i] serve_mine_ok(1) [OF fair _ _ _ ok]
    by cases (auto simp: serve_cases)
  show "bucket_level i ?rate ?burst (fst (serve_request q t r)) t \<le> bucket_level i ?rate ?burst r t"
    using cases ok serve_other(2) [of q i] serve_mine_ok(2) [OF fair _ _ _ ok]
    by cases (auto simp: serve_cases split: if_splits)
  show "metered_on i q \<Longrightarrow> snd (serve_request q t r) \<Longrightarrow>
      bucket_level i ?rate ?burst (fst (serve_request q t r)) t \<le> bucket_level i ?rate ?burst r t - 1"
    using serve_mine_ok(2) [OF fair _ _ _ ok] by (simp add: metered_on_def)
qed

subsection \<open>What the limiter promises\<close>

text \<open>The requests of a history that pass and are metered on an identity.\<close>

fun metered_passes :: "string \<Rightarrow> (api_request \<times> rat) list \<Rightarrow> redis \<Rightarrow> nat" where
  "metered_passes i [] r = 0"
| "metered_passes i ((q, t) # qs) r =
     (let (r', reply) = dispatch_limited q t r
      in (if metered_on i q \<and> reply = Passed then 1 else 0) + metered_passes i qs r')"

lemma serve_request_eq: "dispatch_limited q t r = (r', reply) \<Longrightarrow> serve_request q t r = (r', reply = Passed)"
  by (simp add: serve_request_def)

lemma metered_passes_eq: "metered_passes i qs r = api_bucket.admitted i qs r"
proof (induction qs arbitrary: r)
  case (Cons p qs)
  obtain q t where p: "p = (q, t)" by (cases p)
  obtain r' reply where d: "dispatch_limited q t r = (r', reply)" by (cases "dispatch_limited q t r")
  show ?case by (simp add: p d Cons.IH api_bucket.admitted.simps serve_request_eq [OF d])
qed (simp add: api_bucket.admitted.simps)

text \<open>
  Claim C27.  Requests handled one after another, each one's read and write of the bucket before the next
  one's, on a clock that does not run backwards: of those metered on one identity, all of one tier,
  at most the burst plus the rate times the elapsed seconds pass, however many arrive and however
  the requests of other identities fall between them, for every tier.  Requests whose reads and
  writes overlap are outside of it: they may spend one token twice (\<open>last_token_spent_twice\<close>).
\<close>

theorem passes_bounded_by_rate:
  assumes "bucket_ok i (snd (limits_of tier)) r t0" and "sorted (t0 # map snd qs)"
    and "\<And>q. q \<in> fst ` set qs \<Longrightarrow> same_tier i tier q"
  shows "of_nat (metered_passes i qs r)
    \<le> snd (limits_of tier) + fst (limits_of tier) * (last (t0 # map snd qs) - t0)"
  using api_bucket.admitted_bound [OF assms] by (simp add: metered_passes_eq)

definition demo_request :: api_request where
  "demo_request = \<lparr>rq_path = ''/v1/x'', rq_key_id = Some ''k'', rq_key_tier = ''hobby'', rq_host = None, rq_redis_up = True\<rparr>"

definition low_bucket :: redis where
  "low_bucket = [''rl:apikey:k:ts'' \<mapsto> (0, 120), ''rl:apikey:k:tokens'' \<mapsto> (1, 120)]"

lemma demo_request_facts:
  "\<not> unmetered demo_request" "rq_redis_up demo_request" "request_identity demo_request = ''apikey:k''"
  "request_tier demo_request = ''hobby''" "limits_of ''hobby'' = (10, 20)"
  by (simp_all add: unmetered_def unmetered_prefixes_def demo_request_def request_identity_def request_tier_def
      limits_of_def tier_limits_def)

lemma low_bucket_facts:
  "low_bucket (ts_key ''apikey:k'') = Some (0, 120)" "low_bucket (tokens_key ''apikey:k'') = Some (1, 120)"
  by (simp_all add: low_bucket_def ts_key_def tokens_key_def)

lemma low_bucket_read:
  "t < 120 \<Longrightarrow> read_bucket ''apikey:k'' t low_bucket = (Some 0, Some 1)"
  by (simp add: read_bucket_def redis_get_def low_bucket_facts)

theorem passes_bounded_by_rate_witness:
  "metered_passes ''apikey:k'' [(demo_request, 0), (demo_request, 0), (demo_request, 1 / 10)] low_bucket = 2 \<and>
   of_nat (metered_passes ''apikey:k'' [(demo_request, 0), (demo_request, 0), (demo_request, 1 / 10)] low_bucket)
     \<le> (21 :: rat)"
proof (rule conjI)
  show "metered_passes ''apikey:k'' [(demo_request, 0), (demo_request, 0), (demo_request, 1 / 10)] low_bucket = 2"
    by (simp add: dispatch_limited_def consume_def demo_request_facts low_bucket_read Let_def available_def
        decide_def metered_on_def)
  have "bucket_ok ''apikey:k'' (snd (limits_of ''hobby'')) low_bucket 0"
    by (simp add: bucket_ok_def low_bucket_facts demo_request_facts)
  from passes_bounded_by_rate [OF this, of "[(demo_request, 0), (demo_request, 0), (demo_request, 1 / 10)]"]
  show "of_nat (metered_passes ''apikey:k'' [(demo_request, 0), (demo_request, 0), (demo_request, 1 / 10)] low_bucket)
     \<le> (21 :: rat)"
    by (simp add: same_tier_def demo_request_facts del: metered_passes.simps)
qed

lemma level_after:
  assumes "0 < rate" and "1 \<le> burst" and "0 \<le> l" and "\<not> 1 \<le> l" and "t + retry_after (decide rate l) \<le> t'"
  shows "1 \<le> bucket_level i rate burst (write_bucket i t (decide rate l) r) t'"
proof -
  have w: "(1 - l) / rate \<le> t' - t" using assms by (simp add: decide_def)
  then have "1 \<le> l + (t' - t) * rate" using assms(1) by (simp add: pos_divide_le_eq)
  moreover have "0 \<le> (1 - l) / rate" using assms by simp
  then have "t \<le> t'" using w by linarith
  ultimately show ?thesis using assms(2,4) by (simp add: bucket_level_def available_def decide_def)
qed

text \<open>
  The \<open>Retry-After\<close> header is honest: a client that was refused and waits the seconds
  the header names is served, if nobody else spends from its bucket meanwhile.
\<close>

theorem retry_after_is_enough:
  assumes "bucket_ok (request_identity q) (snd (limits_of (request_tier q))) r now"
    and "dispatch_limited q now r = (r', Limited tier wait)" and "now + of_int wait \<le> later"
  shows "snd (dispatch_limited q later r') = Passed"
proof -
  define rate burst where "rate = fst (limits_of (request_tier q))" and "burst = snd (limits_of (request_tier q))"
  define l where "l = bucket_level (request_identity q) rate burst r now"
  have lim: "limits_of (request_tier q) = (rate, burst)" by (simp add: rate_def burst_def)
  have r: "0 < rate" "1 \<le> burst" using limits_ok [of "request_tier q"] by (simp_all add: rate_def burst_def)
  have l: "0 \<le> l" using tier_range [OF assms(1)] by (simp add: l_def rate_def burst_def)
  from assms(2) have up: "\<not> unmetered q" "rq_redis_up q" "\<not> allowed (decide rate l)"
    and w: "wait = max 1 (\<lfloor>retry_after (decide rate l)\<rfloor> + 1)"
    and r': "r' = write_bucket (request_identity q) now (decide rate l) r"
    by (auto simp: dispatch_limited_def lim consume_def Let_def l_def bucket_level_def split: if_splits)
  have "retry_after (decide rate l) \<le> of_int wait"
    unfolding w by linarith
  then have "1 \<le> bucket_level (request_identity q) rate burst r' later"
    unfolding r' using r l up(3) assms(3) by (intro level_after) (auto simp: decide_def)
  then show ?thesis
    using up by (simp add: dispatch_limited_def lim consume_def Let_def bucket_level_def decide_def)
qed

lemma demo_refused:
  "dispatch_limited demo_request 0 (write_bucket ''apikey:k'' 0 (decide 10 1) low_bucket)
     = (write_bucket ''apikey:k'' 0 (decide 10 0) (write_bucket ''apikey:k'' 0 (decide 10 1) low_bucket), Limited ''hobby'' 1)"
  by (simp add: dispatch_limited_def consume_def demo_request_facts Let_def available_def decide_def floor_eq_iff)

theorem retry_after_is_enough_witness:
  "dispatch_limited demo_request 0 (write_bucket ''apikey:k'' 0 (decide 10 1) low_bucket)
     = (write_bucket ''apikey:k'' 0 (decide 10 0) (write_bucket ''apikey:k'' 0 (decide 10 1) low_bucket), Limited ''hobby'' 1) \<and>
   snd (dispatch_limited demo_request 1
     (write_bucket ''apikey:k'' 0 (decide 10 0) (write_bucket ''apikey:k'' 0 (decide 10 1) low_bucket))) = Passed"
proof -
  have "bucket_ok (request_identity demo_request) (snd (limits_of (request_tier demo_request)))
      (write_bucket ''apikey:k'' 0 (decide 10 1) low_bucket) 0"
    by (simp add: demo_request_facts bucket_ok_write decide_def)
  from retry_after_is_enough [OF this demo_refused, of 1] demo_refused show ?thesis by simp
qed

text \<open>
  Reading and writing the bucket are two transactions: two callers that both read
  before either writes both pass on the last token, and the bucket afterwards looks as if one
  had; one after the other, the second is refused.
\<close>

theorem last_token_spent_twice:
  "\<exists>i r. let seen = read_bucket i 0 r; v = decide 10 (available 10 20 0 seen);
             r1 = write_bucket i 0 v r; v' = decide 10 (available 10 20 0 seen); r2 = write_bucket i 0 v' r1
         in available 10 20 0 seen = 1 \<and> allowed v \<and> allowed v' \<and> read_bucket i 0 r2 = read_bucket i 0 r1 \<and>
            \<not> fst (snd (consume True i 10 20 0 r1))"
  by (rule exI [of _ "''apikey:k''"], rule exI [of _ low_bucket])
    (simp add: low_bucket_read available_def decide_def consume_def Let_def)

end
