(* ===== verification/Request_Path.thy ===== *)
theory Request_Path
  imports Cache_Outcomes Rate_Limit
begin

section \<open>The request path: properties and examples\<close>

text \<open>
  What the gate of \<open>Request_Gate\<close> and the cache of \<open>Response_Cache\<close> promise together, and the runs that
  show where the cache does less than its comments say.
\<close>

subsection \<open>The stack of middlewares\<close>

text \<open>
  \<open>create_app\<close> of \<open>contexta/api/app.py\<close> installs the layers so that a request passes
  authentication, tenancy, the rate limiter and the response cache, in this order; what an outer
  layer refuses the inner ones never see.  The logging, compression and CORS layers outside of them
  do not decide about a request.
\<close>

record world =
  wo_env :: gate_env
  wo_keys :: "api_key list"
  wo_lookup :: lookup_env
  wo_limiter_up :: bool
  wo_now :: rat

record system =
  sy_limits :: redis
  sy_flight :: flight

datatype verdict_of = Refused refusal | TooMany int | Entered

definition metered_request :: "http_request \<Rightarrow> auth_state \<Rightarrow> bool \<Rightarrow> api_request" where
  "metered_request q st up =
     \<lparr>rq_path = hr_path q, rq_key_id = as_key st, rq_key_tier = the_default [] (as_tier st),
      rq_host = hr_host q, rq_redis_up = up\<rparr>"

definition handle_request ::
  "(string \<Rightarrow> string) \<Rightarrow> (string \<Rightarrow> string) \<Rightarrow> world \<Rightarrow> http_request \<Rightarrow> system \<Rightarrow> system \<times> verdict_of" where
  "handle_request digest sha w q s =
     (case gate (wo_env w) sha (wo_keys w) q blank_state of
        Inl e \<Rightarrow> (s, Refused e)
      | Inr st \<Rightarrow>
          (case dispatch_limited (metered_request q st (wo_limiter_up w)) (wo_now w) (sy_limits s) of
             (limits, Limited tier wait) \<Rightarrow> (s\<lparr>sy_limits := limits\<rparr>, TooMany wait)
           | (limits, Passed) \<Rightarrow>
               let c = \<lparr>cl_request = q, cl_state = st\<rparr>; f = sy_flight s
               in (s\<lparr>sy_limits := limits, sy_flight := f\<lparr>fl_callers := fl_callers f @
                     [(c, look_up digest (wo_lookup w) (wo_now w) c (fl_store f))]\<rparr>\<rparr>, Entered)))"

fun arrives :: "event \<Rightarrow> bool" where
  "arrives (Arrive c env now) = True"
| "arrives _ = False"

text \<open>A HTTP request line cannot hold a NUL, so no query does.\<close>

inductive system_reached :: "(string \<Rightarrow> string) \<Rightarrow> (string \<Rightarrow> string) \<Rightarrow> system \<Rightarrow> bool" for digest sha where
  boot: "system_reached digest sha \<lparr>sy_limits = limits, sy_flight = empty_flight\<rparr>"
| request: "system_reached digest sha s \<Longrightarrow> no_nul (hr_query q) \<Longrightarrow>
    system_reached digest sha (fst (handle_request digest sha w q s))"
| progress: "system_reached digest sha s \<Longrightarrow> \<not> arrives e \<Longrightarrow> flight_step digest e (sy_flight s) = Some f \<Longrightarrow>
    system_reached digest sha (s\<lparr>sy_flight := f\<rparr>)"

definition callers_of :: "system \<Rightarrow> call set" where
  "callers_of s = fst ` set (fl_callers (sy_flight s))"

lemma flight_step_map:
  "flight_step digest e s = Some s' \<Longrightarrow> \<not> arrives e \<Longrightarrow> map fst (fl_callers s') = map fst (fl_callers s)"
  by (auto simp: flight_step_def join_task_def answer_task_def deliver_def resume_leader_def resume_waiter_def
      Let_def split: event.splits option.splits phase.splits if_splits outcome.splits prod.splits)

lemma flight_step_calls:
  "flight_step digest e s = Some s' \<Longrightarrow> \<not> arrives e \<Longrightarrow> fst ` set (fl_callers s') = fst ` set (fl_callers s)"
  by (metis flight_step_map set_map)

lemma handle_request_cases:
  obtains (same) limits v where "handle_request digest sha w q s = (s\<lparr>sy_limits := limits\<rparr>, v)"
    | (entered) limits st where "gate (wo_env w) sha (wo_keys w) q blank_state = Inr st"
      "handle_request digest sha w q s = (s\<lparr>sy_limits := limits, sy_flight := (sy_flight s)\<lparr>fl_callers :=
         fl_callers (sy_flight s) @ [(\<lparr>cl_request = q, cl_state = st\<rparr>, look_up digest (wo_lookup w) (wo_now w)
           \<lparr>cl_request = q, cl_state = st\<rparr> (fl_store (sy_flight s)))]\<rparr>\<rparr>, Entered)"
proof (cases "gate (wo_env w) sha (wo_keys w) q blank_state")
  case (Inl e)
  then have "handle_request digest sha w q s = (s\<lparr>sy_limits := sy_limits s\<rparr>, Refused e)"
    by (simp add: handle_request_def)
  then show ?thesis by (rule same)
next
  case (Inr st)
  obtain limits r where d: "dispatch_limited (metered_request q st (wo_limiter_up w)) (wo_now w) (sy_limits s) = (limits, r)"
    by (cases "dispatch_limited (metered_request q st (wo_limiter_up w)) (wo_now w) (sy_limits s)")
  show ?thesis
  proof (cases r)
    case Passed
    with Inr d show ?thesis by (intro entered [of st limits]) (simp_all add: handle_request_def Let_def)
  next
    case (Limited tier wait)
    with Inr d have "handle_request digest sha w q s = (s\<lparr>sy_limits := limits\<rparr>, TooMany wait)"
      by (simp add: handle_request_def)
    then show ?thesis by (rule same)
  qed
qed

lemma system_invariant:
  "system_reached digest sha s \<Longrightarrow> flight_reached digest (sy_flight s) \<and> (\<forall>c \<in> callers_of s. admitted c)"
proof (induction rule: system_reached.induct)
  case boot
  show ?case by (auto simp: callers_of_def empty_flight_def intro: flight_reached.start [unfolded empty_flight_def])
next
  case (request s q w)
  show ?case
  proof (rule handle_request_cases [of digest sha w q s])
    fix limits v assume "handle_request digest sha w q s = (s\<lparr>sy_limits := limits\<rparr>, v)"
    with request.IH show ?thesis by (simp add: callers_of_def)
  next
    fix limits st
    let ?c = "\<lparr>cl_request = q, cl_state = st\<rparr>"
    let ?f = "(sy_flight s)\<lparr>fl_callers := fl_callers (sy_flight s) @
        [(?c, look_up digest (wo_lookup w) (wo_now w) ?c (fl_store (sy_flight s)))]\<rparr>"
    assume "gate (wo_env w) sha (wo_keys w) q blank_state = Inr st"
      and h: "handle_request digest sha w q s = (s\<lparr>sy_limits := limits, sy_flight := ?f\<rparr>, Entered)"
    with request.hyps have "admitted ?c" by (auto simp: admitted_def)
    moreover have "flight_step digest (Arrive ?c (wo_lookup w) (wo_now w)) (sy_flight s) = Some ?f"
      by (simp add: flight_step_def)
    ultimately show ?thesis
      using request.IH unfolding h by (auto simp: callers_of_def intro: flight_reached.step)
  qed
next
  case (progress s e f)
  then show ?case by (auto simp: callers_of_def flight_step_calls intro: flight_reached.step)
qed

subsection \<open>Properties\<close>

text \<open>
  Claim C5.  No response crosses an identity: in every reachable state of the whole stack, if the
  truncated digest does not collide on what the callers hashed, a caller is served only what was
  answered to a call of the same organisation, actor and key with the same method, path, query and
  (for a \<open>POST\<close>) body.
\<close>

theorem responses_stay_with_their_identity:
  assumes "system_reached digest sha s" and "(c, Served src d status b) \<in> set (fl_callers (sy_flight s))"
    and "no_collision digest (callers_of s)"
  shows "same_read c d"
proof -
  have r: "flight_reached digest (sy_flight s)" "\<forall>e \<in> callers_of s. admitted e"
    using system_invariant [OF assms(1)] by simp_all
  have "phase_keyed digest (sy_flight s) c (Served src d status b)"
    using keyed_reached [OF r(1)] assms(2) by (auto simp: keyed_def)
  then have k: "cacheable c" "known digest (sy_flight s) d (call_key digest c)" by simp_all
  have "c \<in> callers_of s" using assms(2) unfolding callers_of_def by force
  then show ?thesis
    using k r(2) assms(3) unfolding known_def callers_of_def [symmetric]
    by (intro same_key_same_read [of c d digest "callers_of s"]) auto
qed

text \<open>
  Claim C21.  Identical concurrent reads run once: in every reachable state, the tasks that
  are running have different keys.
\<close>

theorem one_running_task_per_key:
  assumes "flight_reached digest s"
  shows "inj_on (\<lambda>n. tk_key (fl_tasks s ! n)) {n. running n s}"
proof (rule inj_onI, simp)
  fix n m assume r: "running n s" "running m s" and eq: "tk_key (fl_tasks s ! n) = tk_key (fl_tasks s ! m)"
  have f: "flying s" using assms by (rule flying_reached)
  from flying_leader [OF f r(1)] flying_leader [OF f r(2)] obtain i j
    where "leads s i n" "leads s j m" by blast
  with flying_lead [OF f] have "fl_inflight s (tk_key (fl_tasks s ! n)) = Some n"
      "fl_inflight s (tk_key (fl_tasks s ! m)) = Some m" by blast+
  then show "n = m" unfolding eq by simp
qed

lemma served_by_outcome:
  assumes "flight_reached digest s" and "(c, Served src d status b) \<in> set (fl_callers s)"
  shows "case src of
      Hit \<Rightarrow> success status \<and> b \<noteq> [] \<and> (\<exists>n. holds_outcome s n d status (Buffered b))
    | OfTask n \<Rightarrow> (\<exists>bd. holds_outcome s n d status bd \<and> (success status \<longrightarrow> settled bd \<and> fst (send bd) = b))"
proof -
  have "replayed s (Served src d status b)"
    using replays_reached [OF assms(1)] assms(2) by (auto simp: replays_def)
  then show ?thesis by (cases src) (simp_all add: serves_def)
qed

lemma answered_given:
  assumes "flight_run digest es empty_flight = Some s" and "holds_outcome s n d status bd"
  obtains r where "given es n r" "tk_call (fl_tasks s ! n) = d" "rs_status r = status"
    "success status \<Longrightarrow> fst (send bd) = (if breaks (rs_body r) then [] else whole (rs_body r))"
proof -
  from assms(2) obtain r' where "n < length (fl_tasks s)" "tk_call (fl_tasks s ! n) = d"
      "tk_outcome (fl_tasks s ! n) = Finished r'" "rs_status r' = status" "rs_body r' = bd"
    by (auto simp: holds_outcome_def)
  moreover from this outcomes_run [OF assms(1)] obtain r where "given es n r" "intact r r'"
    unfolding outcomes_given_def by blast
  ultimately show thesis using that [of r] by (auto simp: intact_def)
qed

text \<open>
  Claim C20.  What is served is what the layer below answered.  Along any run: a caller served from Redis gets,
  byte for byte, the whole body of a non-empty successful answer that the layer below gave to the
  task of the call the entry was stored for, whose stream did not break; a caller of a task gets
  the status the layer below answered, and if that is a success the whole body, byte for byte,
  leader and waiters alike (and no byte at all when the answer's stream broke before its end).
\<close>

theorem served_is_answered:
  assumes "flight_run digest es empty_flight = Some s" and "(c, Served src d status b) \<in> set (fl_callers s)"
  shows "case src of
      Hit \<Rightarrow> \<exists>n r. given es n r \<and> tk_call (fl_tasks s ! n) = d \<and> rs_status r = status \<and>
        success status \<and> \<not> breaks (rs_body r) \<and> b = whole (rs_body r) \<and> b \<noteq> []
    | OfTask n \<Rightarrow> \<exists>r. given es n r \<and> tk_call (fl_tasks s ! n) = d \<and> rs_status r = status \<and>
        (success status \<longrightarrow> b = (if breaks (rs_body r) then [] else whole (rs_body r)))"
proof -
  note served = served_by_outcome [OF flight_run_reached [OF flight_reached.start assms(1)] assms(2)]
  show ?thesis
  proof (cases src)
    case Hit
    with served obtain n where n: "holds_outcome s n d status (Buffered b)" "success status" "b \<noteq> []" by auto
    from answered_given [OF assms(1) n(1)] n(2,3) show ?thesis
      by (simp add: Hit) (metis fst_conv send.simps(1))
  next
    case (OfTask n)
    with served obtain bd where n: "holds_outcome s n d status bd" "success status \<longrightarrow> fst (send bd) = b" by auto
    from answered_given [OF assms(1) n(1)] n(2) show ?thesis by (simp add: OfTask) metis
  qed
qed

subsection \<open>Examples\<close>

definition demo_read :: call where
  "demo_read = \<lparr>cl_request = demo_call, cl_state = key_state demo_call demo_key\<rparr>"

definition other_read :: call where
  "other_read = \<lparr>cl_request = demo_call\<lparr>hr_body := ''[2]''\<rparr>, cl_state = key_state demo_call demo_key\<rparr>"

definition all_up :: lookup_env where
  "all_up = \<lparr>lk_body_ok = True, lk_client = True, lk_read_ok = True\<rparr>"

definition answer_ok :: response where
  "answer_ok = \<lparr>rs_status = 200, rs_headers = [(''content-type'', ''application/json'')],
     rs_body = Streamed [''[''  , '']''] False\<rparr>"

definition answer_missing :: response where
  "answer_missing = \<lparr>rs_status = 404, rs_headers = [], rs_body = Streamed [''no''] False\<rparr>"

text \<open>Two identical reads, coalesced; \<open>rev\<close> stands for the digest.\<close>

definition coalesced_run :: "response \<Rightarrow> event list" where
  "coalesced_run r =
     [Arrive demo_read all_up 0, Arrive demo_read all_up 0, Arrive other_read all_up 0, Join 0, Join 1, Join 2,
      Answer 0 r 1 True, Resume 0, Resume 1]"

definition after :: "event list \<Rightarrow> flight" where
  "after es = (case flight_run rev es empty_flight of Some s \<Rightarrow> s | None \<Rightarrow> empty_flight)"

lemma after_reached: "flight_reached rev (after es)"
  by (cases "flight_run rev es empty_flight")
    (auto simp: after_def intro: flight_reached.start flight_run_reached)

lemma demo_reads_differ: "take 32 (rev (call_text demo_read)) \<noteq> take 32 (rev (call_text other_read))"
  by (simp add: call_text_def hashed_text_def keyed_body_def demo_read_def other_read_def demo_call_def)

lemma demo_keys_differ:
  "call_key rev demo_read \<noteq> call_key rev other_read" "call_key rev other_read \<noteq> call_key rev demo_read"
  using demo_reads_differ by (auto simp: call_key_def cache_key_def call_text_def)

lemma cold_lookup:
  "store (call_key rev c) = None \<Longrightarrow> c \<in> {demo_read, other_read} \<Longrightarrow>
   look_up rev all_up now c store = Missed (call_key rev c) 30"
  by (auto simp: look_up_def Let_def call_key_def demo_read_def other_read_def demo_call_def cacheable_paths_def
      cacheable_methods_def max_cacheable_body_def all_up_def redis_read_def)

lemmas machine = flight_step_def phase_of_def join_task_def set_phase_def Let_def answer_task_def running_def
  set_outcome_def deliver_def land_def resume_leader_def resume_waiter_def empty_flight_def

lemma answer_ok_executed:
  "execute answer_ok = (\<lparr>rs_status = 200, rs_headers = [(''content-type'', ''application/json'')], rs_body = Buffered ''[]''\<rparr>,
     Some (entry_text 200 [(''content-type'', ''application/json'')] ''[]''))"
  by (simp add: execute_def Let_def answer_ok_def success_def kept_headers_def content_type_def lower_def lower_char_def
      is_upper_letter_def)

lemma coalesced_callers:
  "fl_callers (after (coalesced_run answer_ok)) =
     [(demo_read, Served (OfTask 0) demo_read 200 ''[]''), (demo_read, Served (OfTask 0) demo_read 200 ''[]''),
      (other_read, Leads 1)]"
  by (simp add: after_def coalesced_run_def machine cold_lookup demo_keys_differ answer_ok_executed mark_header_def)

lemma demo_admitted: "admitted demo_read" "admitted other_read"
  using demo_gate gate_ignores_body [of production "\<lambda>t. t" "[demo_key]" "''[2]''" demo_call blank_state]
  by (auto simp: admitted_def no_nul_def demo_read_def other_read_def demo_call_def)

lemma demo_no_collision: "no_collision rev {demo_read, other_read}"
  using demo_reads_differ by (auto simp: no_collision_def inj_on_def)

lemma one_task_run:
  "running 0 (after (take 6 (coalesced_run answer_ok))) \<and> running 1 (after (take 6 (coalesced_run answer_ok)))"
  by (simp add: after_def coalesced_run_def machine cold_lookup demo_keys_differ)

theorem one_running_task_per_key_witness:
  "inj_on (\<lambda>n. tk_key (fl_tasks (after (take 6 (coalesced_run answer_ok))) ! n))
     {n. running n (after (take 6 (coalesced_run answer_ok)))} \<and>
   running 0 (after (take 6 (coalesced_run answer_ok))) \<and> running 1 (after (take 6 (coalesced_run answer_ok)))"
  using one_running_task_per_key [OF after_reached] one_task_run by blast

text \<open>The same run through the whole stack, while the limiter's Redis is down.\<close>

definition demo_world :: world where
  "demo_world = \<lparr>wo_env = production, wo_keys = [demo_key], wo_lookup = all_up, wo_limiter_up = False, wo_now = 0\<rparr>"

definition incoming :: "call \<Rightarrow> system \<Rightarrow> system" where
  "incoming c s = fst (handle_request rev (\<lambda>t. t) demo_world (cl_request c) s)"

lemma incoming_reached:
  "system_reached rev (\<lambda>t. t) s \<Longrightarrow> c \<in> {demo_read, other_read} \<Longrightarrow> system_reached rev (\<lambda>t. t) (incoming c s)"
  unfolding incoming_def
  by (rule system_reached.request) (auto simp: no_nul_def demo_read_def other_read_def demo_call_def)

lemma call_again: "\<lparr>cl_request = cl_request c, cl_state = cl_state c\<rparr> = (c :: call)"
  by (cases c) simp

lemma incoming_enters:
  assumes "c \<in> {demo_read, other_read}"
  shows "incoming c s = s\<lparr>sy_flight := (sy_flight s)\<lparr>fl_callers := fl_callers (sy_flight s) @
    [(c, look_up rev all_up 0 c (fl_store (sy_flight s)))]\<rparr>\<rparr>"
proof -
  have "gate production (\<lambda>t. t) [demo_key] (cl_request c) blank_state = Inr (cl_state c)"
    using assms demo_gate gate_ignores_body [of production "\<lambda>t. t" "[demo_key]" "''[2]''" demo_call blank_state]
    by (auto simp: demo_read_def other_read_def)
  then show ?thesis
    by (simp add: incoming_def handle_request_def demo_world_def Let_def dispatch_limited_def metered_request_def
        consume_def call_again split: prod.split)
qed

lemma system_progress:
  "system_reached digest sha s \<Longrightarrow> list_all (\<lambda>e. \<not> arrives e) es \<Longrightarrow> flight_run digest es (sy_flight s) = Some f \<Longrightarrow>
   system_reached digest sha (s\<lparr>sy_flight := f\<rparr>)"
proof (induction es arbitrary: s)
  case Nil
  then have "f = sy_flight s" by simp
  with Nil(1) show ?case by simp
next
  case (Cons e es)
  then obtain g where g: "flight_step digest e (sy_flight s) = Some g" "flight_run digest es g = Some f"
    by (auto split: option.splits)
  with Cons.prems have "system_reached digest sha (s\<lparr>sy_flight := g\<rparr>)" by (auto intro: system_reached.progress)
  from Cons.IH [OF this] Cons.prems(2) g(2) show ?case by simp
qed

definition demo_flight :: flight where
  "demo_flight = after (coalesced_run answer_ok)"

lemma demo_system_reached:
  "system_reached rev (\<lambda>t. t) \<lparr>sy_limits = (\<lambda>_. None), sy_flight = demo_flight\<rparr>"
proof -
  let ?boot = "\<lparr>sy_limits = (\<lambda>_. None), sy_flight = empty_flight\<rparr>"
  let ?s = "incoming other_read (incoming demo_read (incoming demo_read ?boot))"
  have s: "system_reached rev (\<lambda>t. t) ?s"
    by (intro incoming_reached system_reached.boot) simp_all
  have "flight_run rev (drop 3 (coalesced_run answer_ok)) (sy_flight ?s) = Some demo_flight"
    by (simp add: incoming_enters demo_flight_def after_def coalesced_run_def machine cold_lookup demo_keys_differ
        answer_ok_executed mark_header_def)
  moreover have "list_all (\<lambda>e. \<not> arrives e) (drop 3 (coalesced_run answer_ok))"
    by (simp add: coalesced_run_def)
  ultimately have "system_reached rev (\<lambda>t. t) (?s\<lparr>sy_flight := demo_flight\<rparr>)"
    using s by (intro system_progress)
  then show ?thesis by (simp add: incoming_enters)
qed

theorem responses_stay_with_their_identity_witness: "same_read demo_read demo_read"
  using responses_stay_with_their_identity [OF demo_system_reached, of demo_read "OfTask 0" demo_read 200 "''[]''"]
    demo_no_collision
  by (simp add: demo_flight_def coalesced_callers callers_of_def insert_commute)

lemma coalesced_run_ends: "flight_run rev (coalesced_run answer_ok) empty_flight = Some (after (coalesced_run answer_ok))"
  by (simp add: after_def coalesced_run_def machine cold_lookup demo_keys_differ answer_ok_executed mark_header_def)

theorem served_is_answered_witness:
  "\<exists>r. given (coalesced_run answer_ok) 0 r \<and> rs_status r = 200 \<and> \<not> breaks (rs_body r) \<and> whole (rs_body r) = ''[]''"
  using served_is_answered [OF coalesced_run_ends, of demo_read "OfTask 0" demo_read 200 "''[]''"]
  by (auto simp: coalesced_callers success_def split: if_splits)

subsection \<open>Where the cache does less than its comments say\<close>

text \<open>
  The waiters of an unsuccessful answer lose its body: the leader sends the stream, and what is
  left of it for the waiter is nothing.
\<close>

theorem waiter_of_an_error_gets_no_body:
  "fl_callers (after (coalesced_run answer_missing)) =
     [(demo_read, Served (OfTask 0) demo_read 404 ''no''), (demo_read, Served (OfTask 0) demo_read 404 []),
      (other_read, Leads 1)]"
  by (simp add: after_def coalesced_run_def machine cold_lookup demo_keys_differ answer_missing_def execute_def
      success_def mark_header_def)

text \<open>
  A waiter survives a task that raises and is cancelled by one whose leader goes away.
\<close>

theorem cancelled_leader_cancels_waiters:
  "fl_callers (after [Arrive demo_read all_up 0, Arrive demo_read all_up 0, Join 0, Join 1, Break 0, Resume 1]) =
     [(demo_read, Leads 0), (demo_read, Direct)] \<and>
   fl_callers (after [Arrive demo_read all_up 0, Arrive demo_read all_up 0, Join 0, Join 1, Cancel 0, Resume 1]) =
     [(demo_read, Leads 0), (demo_read, Cancelled)]"
  by (simp add: after_def machine cold_lookup)

text \<open>An entry with a body and no status fails the request instead of being discarded.\<close>

definition statusless :: string where
  "statusless = ''{'' @ json_member ''body'' (json_string []) @ ''}''"

lemma statusless_loaded:
  "load_entry statusless = Some ([(''body'', PyStr [])], []) \<and> rebuild_entry [(''body'', PyStr [])] [] = None"
  by code_simp

theorem statusless_entry_fails_the_request:
  "look_up rev all_up 0 demo_read
     [call_key rev demo_read \<mapsto> \<lparr>cd_text = statusless, cd_expires = 30, cd_origin = demo_read\<rparr>] = Failed"
  using statusless_loaded
  by (simp add: look_up_def Let_def call_key_def demo_read_def demo_call_def cacheable_paths_def
      cacheable_methods_def max_cacheable_body_def all_up_def redis_read_def)

text \<open>A successful answer whose stream fails part way is served as an empty success.\<close>

theorem failed_stream_becomes_empty_success:
  "execute \<lparr>rs_status = 200, rs_headers = [], rs_body = Streamed [''part''] True\<rparr> =
     (\<lparr>rs_status = 200, rs_headers = [], rs_body = Streamed [] False\<rparr>, None)"
  by (simp add: execute_def success_def)

end
