(* ===== verification/Net_Address.thy ===== *)
theory Net_Address
  imports Py_Text "HOL-Library.Word"
begin

section \<open>Addresses and URLs\<close>

text \<open>
  What \<open>contexta/mcp/security.py\<close> uses of Python's \<open>ipaddress\<close> and \<open>urllib.parse\<close> (as of Python
  3.11): membership of an address in a network, the properties \<open>_is_public_address\<close> tests, and the
  scheme and host name of a URL.  An address is a word of its width; a network is a base address
  and a prefix length.
\<close>

subsection \<open>Networks\<close>

datatype address = V4 "32 word" | V6 "128 word" | NoAddress

definition in_net4 :: "32 word \<Rightarrow> 32 word \<times> nat \<Rightarrow> bool" where
  "in_net4 ip net \<longleftrightarrow> drop_bit (32 - snd net) ip = drop_bit (32 - snd net) (fst net)"

definition in_net6 :: "128 word \<Rightarrow> 128 word \<times> nat \<Rightarrow> bool" where
  "in_net6 ip net \<longleftrightarrow> drop_bit (128 - snd net) ip = drop_bit (128 - snd net) (fst net)"

definition dotted :: "nat \<Rightarrow> nat \<Rightarrow> nat \<Rightarrow> nat \<Rightarrow> nat" where
  "dotted a b c d = ((a * 256 + b) * 256 + c) * 256 + d"

definition quad :: "nat \<Rightarrow> nat \<Rightarrow> nat \<Rightarrow> nat \<Rightarrow> 32 word" where
  "quad a b c d = of_nat (dotted a b c d)"

definition top16 :: "nat \<Rightarrow> 128 word" where
  "top16 n = of_nat (n * 2 ^ 112)"

definition private4 :: "(32 word \<times> nat) list" where
  "private4 =
     [(quad 0 0 0 0, 8), (quad 10 0 0 0, 8), (quad 127 0 0 0, 8), (quad 169 254 0 0, 16), (quad 172 16 0 0, 12),
      (quad 192 0 0 0, 24), (quad 192 0 0 170, 31), (quad 192 0 2 0, 24), (quad 192 168 0 0, 16),
      (quad 198 18 0 0, 15), (quad 198 51 100 0, 24), (quad 203 0 113 0, 24), (quad 240 0 0 0, 4),
      (quad 255 255 255 255, 32)]"

definition private4_exceptions :: "(32 word \<times> nat) list" where
  "private4_exceptions = [(quad 192 0 0 9, 32), (quad 192 0 0 10, 32)]"

definition top32 :: "nat \<Rightarrow> 128 word" where
  "top32 n = of_nat (n * 2 ^ 96)"

definition private6 :: "(128 word \<times> nat) list" where
  "private6 =
     [(1, 128), (0, 128), (of_nat (0xFFFF * 2 ^ 32), 96), (top32 0x0064FF9B + of_nat (2 ^ 80), 48),
      (top16 0x0100, 64), (top16 0x2001, 23), (top32 0x20010DB8, 32), (top16 0x2002, 16), (top16 0xFC00, 7),
      (top16 0xFE80, 10)]"

definition private6_exceptions :: "(128 word \<times> nat) list" where
  "private6_exceptions =
     [(top32 0x20010001 + 1, 128), (top32 0x20010001 + 2, 128), (top32 0x20010003, 32),
      (top32 0x20010004 + of_nat (0x0112 * 2 ^ 80), 48), (top32 0x20010020, 28), (top32 0x20010030, 28)]"

definition reserved6 :: "(128 word \<times> nat) list" where
  "reserved6 =
     [(top16 0x0000, 8), (top16 0x0100, 8), (top16 0x0200, 7), (top16 0x0400, 6), (top16 0x0800, 5),
      (top16 0x1000, 4), (top16 0x4000, 3), (top16 0x6000, 3), (top16 0x8000, 3), (top16 0xA000, 3),
      (top16 0xC000, 3), (top16 0xE000, 4), (top16 0xF000, 5), (top16 0xF800, 6), (top16 0xFE00, 9)]"

subsection \<open>The tests of an address\<close>

definition is_private4 :: "32 word \<Rightarrow> bool" where
  "is_private4 ip \<longleftrightarrow> list_ex (in_net4 ip) private4 \<and> \<not> list_ex (in_net4 ip) private4_exceptions"

definition mapped4 :: "128 word \<Rightarrow> 32 word option" where
  "mapped4 ip = (if drop_bit 32 ip = 0xFFFF then Some (ucast ip) else None)"

definition is_private6 :: "128 word \<Rightarrow> bool" where
  "is_private6 ip =
     (case mapped4 ip of
        Some v4 \<Rightarrow> is_private4 v4
      | None \<Rightarrow> list_ex (in_net6 ip) private6 \<and> \<not> list_ex (in_net6 ip) private6_exceptions)"

text \<open>\<open>is_private or is_loopback or is_link_local or is_reserved or is_multicast or is_unspecified\<close>.\<close>

definition refused4 :: "32 word \<Rightarrow> bool" where
  "refused4 ip \<longleftrightarrow> is_private4 ip \<or> in_net4 ip (quad 127 0 0 0, 8) \<or> in_net4 ip (quad 169 254 0 0, 16) \<or>
     in_net4 ip (quad 240 0 0 0, 4) \<or> in_net4 ip (quad 224 0 0 0, 4) \<or> ip = 0"

definition refused6 :: "128 word \<Rightarrow> bool" where
  "refused6 ip \<longleftrightarrow> is_private6 ip \<or> ip = 1 \<or> in_net6 ip (top16 0xFE80, 10) \<or>
     list_ex (in_net6 ip) reserved6 \<or> in_net6 ip (top16 0xFF00, 8) \<or> ip = 0"

subsection \<open>Networks as intervals\<close>

lemma in_net4_interval:
  assumes "n \<le> 32" and "take_bit (32 - n) (fst net) = 0" and "snd net = n"
  shows "in_net4 ip net \<longleftrightarrow> unat (fst net) \<le> unat ip \<and> unat ip < unat (fst net) + 2 ^ (32 - n)"
proof -
  let ?k = "32 - n" and ?b = "unat (fst net)" and ?i = "unat ip"
  have "in_net4 ip net \<longleftrightarrow> unat (drop_bit ?k ip) = unat (drop_bit ?k (fst net))"
    by (simp add: in_net4_def assms(3) word_unat_eq_iff)
  also have "\<dots> \<longleftrightarrow> ?i div 2 ^ ?k = ?b div 2 ^ ?k"
    unfolding unat_drop_bit_eq by (simp add: drop_bit_eq_div)
  finally have div: "in_net4 ip net \<longleftrightarrow> ?i div 2 ^ ?k = ?b div 2 ^ ?k" .
  have "take_bit ?k ?b = 0" unfolding unsigned_take_bit_eq [symmetric] assms(2) by simp
  then have "?b mod 2 ^ ?k = 0" by (simp add: take_bit_eq_mod)
  then obtain q where q: "?b = 2 ^ ?k * q" by (auto simp: mod_eq_0_iff_dvd dvd_def)
  have pos: "(0 :: nat) < 2 ^ ?k" by simp
  show ?thesis
  proof
    assume "in_net4 ip net"
    with div q pos have "?i div 2 ^ ?k = q" by simp
    then have "?i = 2 ^ ?k * q + ?i mod 2 ^ ?k" by (metis mult_div_mod_eq)
    moreover have "?i mod 2 ^ ?k < 2 ^ ?k" by simp
    ultimately show "?b \<le> ?i \<and> ?i < ?b + 2 ^ ?k" unfolding q by linarith
  next
    assume "?b \<le> ?i \<and> ?i < ?b + 2 ^ ?k"
    then have "?i div 2 ^ ?k = q" unfolding q by (intro div_nat_eqI) (simp_all add: algebra_simps)
    with div q pos show "in_net4 ip net" by simp
  qed
qed

definition blocked4 :: "(nat \<times> nat) list" where
  "blocked4 =
     [(dotted 0 0 0 0, dotted 0 255 255 255), (dotted 10 0 0 0, dotted 10 255 255 255),
      (dotted 127 0 0 0, dotted 127 255 255 255), (dotted 169 254 0 0, dotted 169 254 255 255),
      (dotted 172 16 0 0, dotted 172 31 255 255), (dotted 192 0 0 0, dotted 192 0 0 255),
      (dotted 192 0 2 0, dotted 192 0 2 255), (dotted 192 168 0 0, dotted 192 168 255 255),
      (dotted 198 18 0 0, dotted 198 19 255 255), (dotted 198 51 100 0, dotted 198 51 100 255),
      (dotted 203 0 113 0, dotted 203 0 113 255), (dotted 224 0 0 0, dotted 255 255 255 255)]"

lemma quad_dotted: "dotted a b c d < 2 ^ 32 \<Longrightarrow> unat (quad a b c d) = dotted a b c d"
  by (simp add: quad_def unat_of_nat)

text \<open>Membership of every network the code tests, as an interval.\<close>

lemma net4:
  assumes "n \<le> 32" and "dotted a b c d < 2 ^ 32" and "2 ^ (32 - n) dvd dotted a b c d"
  shows "in_net4 ip (quad a b c d, n) \<longleftrightarrow> dotted a b c d \<le> unat ip \<and> unat ip < dotted a b c d + 2 ^ (32 - n)"
proof -
  have "unat (take_bit (32 - n) (quad a b c d)) = 0"
    unfolding unsigned_take_bit_eq quad_dotted [OF assms(2)] using assms(3) by (simp add: take_bit_eq_mod)
  then have "take_bit (32 - n) (quad a b c d) = 0" by (simp add: unat_eq_zero)
  from in_net4_interval [of n "(quad a b c d, n)", OF assms(1)] this show ?thesis
    by (simp add: quad_dotted [OF assms(2)])
qed

lemma nets4:
  "in_net4 ip (quad 0 0 0 0, 8) \<longleftrightarrow> unat ip < dotted 1 0 0 0"
  "in_net4 ip (quad 10 0 0 0, 8) \<longleftrightarrow> dotted 10 0 0 0 \<le> unat ip \<and> unat ip < dotted 11 0 0 0"
  "in_net4 ip (quad 127 0 0 0, 8) \<longleftrightarrow> dotted 127 0 0 0 \<le> unat ip \<and> unat ip < dotted 128 0 0 0"
  "in_net4 ip (quad 169 254 0 0, 16) \<longleftrightarrow> dotted 169 254 0 0 \<le> unat ip \<and> unat ip < dotted 169 255 0 0"
  "in_net4 ip (quad 172 16 0 0, 12) \<longleftrightarrow> dotted 172 16 0 0 \<le> unat ip \<and> unat ip < dotted 172 32 0 0"
  "in_net4 ip (quad 192 0 0 0, 24) \<longleftrightarrow> dotted 192 0 0 0 \<le> unat ip \<and> unat ip < dotted 192 0 1 0"
  "in_net4 ip (quad 192 0 0 170, 31) \<longleftrightarrow> dotted 192 0 0 170 \<le> unat ip \<and> unat ip < dotted 192 0 0 172"
  "in_net4 ip (quad 192 0 2 0, 24) \<longleftrightarrow> dotted 192 0 2 0 \<le> unat ip \<and> unat ip < dotted 192 0 3 0"
  "in_net4 ip (quad 192 168 0 0, 16) \<longleftrightarrow> dotted 192 168 0 0 \<le> unat ip \<and> unat ip < dotted 192 169 0 0"
  "in_net4 ip (quad 198 18 0 0, 15) \<longleftrightarrow> dotted 198 18 0 0 \<le> unat ip \<and> unat ip < dotted 198 20 0 0"
  "in_net4 ip (quad 198 51 100 0, 24) \<longleftrightarrow> dotted 198 51 100 0 \<le> unat ip \<and> unat ip < dotted 198 51 101 0"
  "in_net4 ip (quad 203 0 113 0, 24) \<longleftrightarrow> dotted 203 0 113 0 \<le> unat ip \<and> unat ip < dotted 203 0 114 0"
  "in_net4 ip (quad 224 0 0 0, 4) \<longleftrightarrow> dotted 224 0 0 0 \<le> unat ip \<and> unat ip < dotted 240 0 0 0"
  "in_net4 ip (quad 240 0 0 0, 4) \<longleftrightarrow> dotted 240 0 0 0 \<le> unat ip"
  "in_net4 ip (quad 255 255 255 255, 32) \<longleftrightarrow> unat ip = dotted 255 255 255 255"
  "in_net4 ip (quad 192 0 0 9, 32) \<longleftrightarrow> unat ip = dotted 192 0 0 9"
  "in_net4 ip (quad 192 0 0 10, 32) \<longleftrightarrow> unat ip = dotted 192 0 0 10"
  using unsigned_less [of ip, where 'a = nat]
  by (subst net4; auto simp: dotted_def)+

text \<open>
  The addresses the guard refuses: an IPv4 address is refused exactly if it lies in
  one of twelve blocks, but for two addresses of one of them.
\<close>

theorem refused_blocks:
  "refused4 ip \<longleftrightarrow> list_ex (\<lambda>(lo, hi). lo \<le> unat ip \<and> unat ip \<le> hi) blocked4 \<and>
     unat ip \<noteq> dotted 192 0 0 9 \<and> unat ip \<noteq> dotted 192 0 0 10"
proof -
  define n where "n = unat ip"
  have n32: "n < dotted 255 255 255 255 + 1"
    using unsigned_less [of ip, where 'a = nat] by (simp add: n_def dotted_def)
  have zero: "ip = 0 \<longleftrightarrow> n = 0" unfolding n_def by (simp add: unat_eq_zero)
  have ends:
    "n \<le> dotted 0 255 255 255 \<longleftrightarrow> n < dotted 1 0 0 0" "n \<le> dotted 10 255 255 255 \<longleftrightarrow> n < dotted 11 0 0 0"
    "n \<le> dotted 127 255 255 255 \<longleftrightarrow> n < dotted 128 0 0 0" "n \<le> dotted 169 254 255 255 \<longleftrightarrow> n < dotted 169 255 0 0"
    "n \<le> dotted 172 31 255 255 \<longleftrightarrow> n < dotted 172 32 0 0" "n \<le> dotted 192 0 0 255 \<longleftrightarrow> n < dotted 192 0 1 0"
    "n \<le> dotted 192 0 2 255 \<longleftrightarrow> n < dotted 192 0 3 0" "n \<le> dotted 192 168 255 255 \<longleftrightarrow> n < dotted 192 169 0 0"
    "n \<le> dotted 198 19 255 255 \<longleftrightarrow> n < dotted 198 20 0 0" "n \<le> dotted 198 51 100 255 \<longleftrightarrow> n < dotted 198 51 101 0"
    "n \<le> dotted 203 0 113 255 \<longleftrightarrow> n < dotted 203 0 114 0"
    by (intro iffI; simp add: dotted_def)+
  have low: "dotted 0 0 0 0 \<le> n" by (simp add: dotted_def)
  have high: "dotted 224 0 0 0 \<le> n \<and> n \<le> dotted 255 255 255 255 \<longleftrightarrow>
      dotted 240 0 0 0 \<le> n \<or> (dotted 224 0 0 0 \<le> n \<and> n < dotted 240 0 0 0)"
    using n32 by (intro iffI) (auto simp: dotted_def)
  have inside: "dotted 192 0 0 170 \<le> n \<and> n < dotted 192 0 0 172 \<Longrightarrow> dotted 192 0 0 0 \<le> n \<and> n < dotted 192 0 1 0"
      "n = dotted 255 255 255 255 \<Longrightarrow> dotted 240 0 0 0 \<le> n" "n = 0 \<Longrightarrow> n < dotted 1 0 0 0"
    by (simp_all add: dotted_def)
  have apart: "dotted 127 0 0 0 \<le> n \<and> n < dotted 128 0 0 0 \<Longrightarrow> n \<noteq> dotted 192 0 0 9 \<and> n \<noteq> dotted 192 0 0 10"
      "dotted 169 254 0 0 \<le> n \<and> n < dotted 169 255 0 0 \<Longrightarrow> n \<noteq> dotted 192 0 0 9 \<and> n \<noteq> dotted 192 0 0 10"
      "dotted 240 0 0 0 \<le> n \<Longrightarrow> n \<noteq> dotted 192 0 0 9 \<and> n \<noteq> dotted 192 0 0 10"
      "dotted 224 0 0 0 \<le> n \<and> n < dotted 240 0 0 0 \<Longrightarrow> n \<noteq> dotted 192 0 0 9 \<and> n \<noteq> dotted 192 0 0 10"
      "n = 0 \<Longrightarrow> n \<noteq> dotted 192 0 0 9 \<and> n \<noteq> dotted 192 0 0 10"
    by (simp_all add: dotted_def)
  show ?thesis
    unfolding refused4_def is_private4_def private4_def private4_exceptions_def list_ex_iff blocked4_def
      list.set ball_simps bex_simps prod.case nets4 zero n_def [symmetric] ends high
    using inside apart low by satx
qed

end
