(* ===== verification/Mcp_Guard.thy ===== *)
theory Mcp_Guard
  imports Net_Address Api_Keys Py_Uuid
begin

section \<open>The guards of the MCP surface\<close>

text \<open>
  \<open>contexta/mcp/security.py\<close> but for the rate limiter and the input checks (\<open>Mcp_Limiter\<close>): which URLs
  \<open>safe_remote_fetch\<close> requests, which files \<open>safe_local_path\<close> lets through, whom \<open>resolve_tenant\<close>
  resolves a key to.
  The network, the name service and the file system are parameters (\<open>network\<close>, \<open>file_system\<close>); a
  name may resolve differently at every use, so they take the number of the use.  A fetch returns
  the URLs it requested besides its result.
\<close>

subsection \<open>Scheme and host of a URL\<close>

text \<open>\<open>urllib.parse.urlparse\<close>, as far as the code looks at its result.\<close>

definition clean_url :: "string \<Rightarrow> string" where
  "clean_url u = filter (\<lambda>c. code c \<notin> {9, 10, 13}) (dropWhile (\<lambda>c. code c \<le> 32) u)"

definition scheme_char :: "char \<Rightarrow> bool" where
  "scheme_char c \<longleftrightarrow> is_ascii_letter c \<or> is_decimal c \<or> c \<in> set ''+-.''"

definition split_scheme :: "string \<Rightarrow> string \<times> string" where
  "split_scheme u =
     (let s = takeWhile (\<lambda>c. c \<noteq> CHR '':'') u; rest = dropWhile (\<lambda>c. c \<noteq> CHR '':'') u in
      if rest \<noteq> [] \<and> s \<noteq> [] \<and> is_ascii_letter (hd s) \<and> list_all scheme_char s then (lower s, tl rest) else ([], u))"

definition netloc_of :: "string \<Rightarrow> string" where
  "netloc_of rest = (if starts_with rest ''//'' then takeWhile (\<lambda>c. c \<notin> set ''/?#'') (drop 2 rest) else [])"

definition after_last :: "char \<Rightarrow> string \<Rightarrow> string" where
  "after_last c s = rev (takeWhile (\<lambda>x. x \<noteq> c) (rev s))"

definition host_part :: "string \<Rightarrow> string" where
  "host_part netloc =
     (let hostinfo = after_last (CHR ''@'') netloc in
      if CHR ''['' \<in> set hostinfo
      then takeWhile (\<lambda>c. c \<noteq> CHR '']'') (tl (dropWhile (\<lambda>c. c \<noteq> CHR ''['') hostinfo))
      else takeWhile (\<lambda>c. c \<noteq> CHR '':'') hostinfo)"

definition hostname :: "string \<Rightarrow> string option" where
  "hostname netloc =
     (let h = host_part netloc in
      if h = [] then None
      else Some (lower (takeWhile (\<lambda>c. c \<noteq> CHR ''%'') h) @ dropWhile (\<lambda>c. c \<noteq> CHR ''%'') h))"

text \<open>Brackets that do not match raise, and so does a bracketed host that is not an IPv6 address.\<close>

definition bad_brackets :: "(string \<Rightarrow> bool) \<Rightarrow> string \<Rightarrow> bool" where
  "bad_brackets bracket_ok netloc \<longleftrightarrow>
     (CHR ''['' \<in> set netloc) \<noteq> (CHR '']'' \<in> set netloc) \<or>
     (CHR ''['' \<in> set netloc \<and>
        \<not> bracket_ok (takeWhile (\<lambda>c. c \<noteq> CHR '']'') (tl (dropWhile (\<lambda>c. c \<noteq> CHR ''['') netloc))))"

definition url_parts :: "(string \<Rightarrow> bool) \<Rightarrow> string \<Rightarrow> (string \<times> string option) option" where
  "url_parts bracket_ok u =
     (case split_scheme (clean_url u) of (scheme, rest) \<Rightarrow>
        let netloc = netloc_of rest in
        if bad_brackets bracket_ok netloc then None else Some (scheme, hostname netloc))"

subsection \<open>Remote fetches\<close>

record http_answer =
  ha_status :: nat
  ha_location :: "string option"
  ha_content :: string

record network =
  nw_resolve :: "nat \<Rightarrow> string \<Rightarrow> address list option"
  nw_get :: "nat \<Rightarrow> string \<Rightarrow> http_answer"
  nw_join :: "string \<Rightarrow> string \<Rightarrow> string"
  nw_bracket :: "string \<Rightarrow> bool"

datatype guard_error =
    EmptyUrl | BadUrl | NotHttps | NoHost | HostNotAllowed | Unresolved | BadAddress | NonPublic
  | NoLocation | TooLarge | TooManyRedirects | HttpStatus nat

fun public_addresses :: "address list \<Rightarrow> guard_error + unit" where
  "public_addresses [] = Inr ()"
| "public_addresses (NoAddress # as) = Inl BadAddress"
| "public_addresses (V4 ip # as) = (if refused4 ip then Inl NonPublic else public_addresses as)"
| "public_addresses (V6 ip # as) = (if refused6 ip then Inl NonPublic else public_addresses as)"

definition is_public_address :: "network \<Rightarrow> nat \<Rightarrow> string \<Rightarrow> guard_error + unit" where
  "is_public_address w t host =
     (case nw_resolve w t host of
        None \<Rightarrow> Inl Unresolved
      | Some [] \<Rightarrow> Inl Unresolved
      | Some as \<Rightarrow> public_addresses as)"

definition host_allowed :: "string list option \<Rightarrow> string \<Rightarrow> bool" where
  "host_allowed hosts h = (case hosts of None \<Rightarrow> True | Some hs \<Rightarrow> lower h \<in> lower ` set hs)"

fun split_on :: "char \<Rightarrow> string \<Rightarrow> string list" where
  "split_on sep [] = [[]]"
| "split_on sep (c # cs) =
     (if c = sep then [] # split_on sep cs
      else case split_on sep cs of p # ps \<Rightarrow> (c # p) # ps | [] \<Rightarrow> [[c]])"

text \<open>\<open>CONTEXTA_MCP_ALLOWED_FETCH_HOSTS\<close>, where none is the same as unset.\<close>

definition configured_hosts :: "string \<Rightarrow> string list option" where
  "configured_hosts raw =
     (case map (\<lambda>p. lower (strip p)) (filter (\<lambda>p. strip p \<noteq> []) (split_on (CHR '','') (strip raw))) of
        [] \<Rightarrow> None | hs \<Rightarrow> Some hs)"

definition check_host :: "network \<Rightarrow> string list option \<Rightarrow> nat \<Rightarrow> string option \<Rightarrow> guard_error + unit" where
  "check_host w hosts t h =
     (case h of
        None \<Rightarrow> Inl NoHost
      | Some h \<Rightarrow> if \<not> host_allowed hosts h then Inl HostNotAllowed else is_public_address w t h)"

definition redirects :: "nat list" where
  "redirects = [301, 302, 303, 307, 308]"

fun fetch_loop ::
  "network \<Rightarrow> string list option \<Rightarrow> nat \<Rightarrow> nat \<Rightarrow> nat \<Rightarrow> string \<Rightarrow> string list \<times> (guard_error + string)" where
  "fetch_loop w hosts max_bytes t 0 current = ([], Inl TooManyRedirects)"
| "fetch_loop w hosts max_bytes t (Suc n) current =
     (let answer = nw_get w t current;
          (requested, result) =
            (if ha_status answer \<in> set redirects then
               (if \<not> truthy (ha_location answer) then ([], Inl NoLocation)
                else
                  let next = nw_join w current (the (ha_location answer)) in
                  case url_parts (nw_bracket w) next of
                    None \<Rightarrow> ([], Inl BadUrl)
                  | Some (scheme, h) \<Rightarrow>
                      (case check_host w hosts (t + 1) h of
                         Inl e \<Rightarrow> ([], Inl e)
                       | Inr _ \<Rightarrow> fetch_loop w hosts max_bytes (t + 1) n next))
             else if \<not> (200 \<le> ha_status answer \<and> ha_status answer < 300) then ([], Inl (HttpStatus (ha_status answer)))
             else if max_bytes < length (ha_content answer) then ([], Inl TooLarge)
             else ([], Inr (ha_content answer)))
      in (current # requested, result))"

definition max_redirects :: nat where
  "max_redirects = 3"

definition safe_remote_fetch ::
  "network \<Rightarrow> string \<Rightarrow> string list option \<Rightarrow> nat \<Rightarrow> string \<Rightarrow> string list \<times> (guard_error + string)" where
  "safe_remote_fetch w env_hosts allowed_hosts max_bytes url =
     (if strip url = [] then ([], Inl EmptyUrl)
      else case url_parts (nw_bracket w) (strip url) of
        None \<Rightarrow> ([], Inl BadUrl)
      | Some (scheme, h) \<Rightarrow>
          if scheme \<noteq> ''https'' then ([], Inl NotHttps)
          else
            let hosts = (case allowed_hosts of None \<Rightarrow> configured_hosts env_hosts | Some hs \<Rightarrow> Some hs) in
            case check_host w hosts 0 h of
              Inl e \<Rightarrow> ([], Inl e)
            | Inr _ \<Rightarrow> fetch_loop w hosts max_bytes 0 (max_redirects + 1) (strip url))"

subsection \<open>Local files\<close>

text \<open>A resolved path is the list of its components, symbolic links followed.\<close>

datatype resolution = Missing | Unreadable | At "string list"

record file_system =
  fs_resolve :: "string \<Rightarrow> resolution"
  fs_root :: "string \<Rightarrow> string list option"
  fs_is_file :: "string list \<Rightarrow> bool"

datatype path_error = EmptyPath | NoRoots | NotThere | CannotResolve | NotRegular | OutsideRoots

definition within_root :: "string list \<Rightarrow> string list \<Rightarrow> bool" where
  "within_root root path \<longleftrightarrow> take (length root) path = root"

fun first_root :: "file_system \<Rightarrow> string list \<Rightarrow> string list \<Rightarrow> path_error + string list" where
  "first_root fs path [] = Inl OutsideRoots"
| "first_root fs path (root # roots) =
     (case fs_root fs root of
        None \<Rightarrow> first_root fs path roots
      | Some r \<Rightarrow>
          if within_root r path then (if fs_is_file fs path then Inr path else Inl NotRegular)
          else first_root fs path roots)"

definition safe_local_path :: "file_system \<Rightarrow> string list \<Rightarrow> string \<Rightarrow> path_error + string list" where
  "safe_local_path fs roots candidate =
     (if strip candidate = [] then Inl EmptyPath
      else if roots = [] then Inl NoRoots
      else case fs_resolve fs candidate of
        Missing \<Rightarrow> Inl NotThere
      | Unreadable \<Rightarrow> Inl CannotResolve
      | At path \<Rightarrow> first_root fs path roots)"

definition allowed_roots :: "string \<Rightarrow> string \<Rightarrow> string \<Rightarrow> string list" where
  "allowed_roots raw cwd artifacts =
     (if strip raw \<noteq> [] then filter (\<lambda>p. strip p \<noteq> []) (split_on (CHR '':'') (strip raw))
      else if strip artifacts \<noteq> [] then [cwd, strip artifacts] else [cwd])"

subsection \<open>Callers\<close>

record tenant_context =
  tc_org :: string
  tc_actor :: string
  tc_key :: string
  tc_scopes :: "string list"
  tc_tier :: string

definition context_of :: "api_key \<Rightarrow> tenant_context" where
  "context_of k =
     \<lparr>tc_org = uuid_str (ak_org k), tc_actor = uuid_str (ak_actor k), tc_key = uuid_str (ak_id k),
      tc_scopes = ak_scopes k, tc_tier = (if ak_tier k = [] then ''standard'' else ak_tier k)\<rparr>"

definition resolve_tenant ::
  "(string \<Rightarrow> string) \<Rightarrow> api_key list \<Rightarrow> string \<Rightarrow> key_error + tenant_context option" where
  "resolve_tenant sha keys raw =
     (if strip raw = [] then Inr None
      else ebind (one_or_none ManyKeys (\<lambda>k. ak_hash k = sha (strip raw)) keys) (\<lambda>found.
        case found of
          None \<Rightarrow> Inr None
        | Some k \<Rightarrow> Inr (if ak_revoked k \<noteq> None then None else Some (context_of k))))"

text \<open>\<open>True\<close> if the scope check passes.\<close>

definition require_scope :: "tenant_context \<Rightarrow> string list \<Rightarrow> bool" where
  "require_scope c needed \<longleftrightarrow> ''admin'' \<in> set (tc_scopes c) \<or> list_ex (\<lambda>s. s \<in> set (tc_scopes c)) needed"

end
