(* ===== verification/Mcp_Claims.thy ===== *)
theory Mcp_Claims
  imports Mcp_Guard
begin

section \<open>What the MCP guards guarantee\<close>

text \<open>
  Properties of \<open>Mcp_Guard\<close>: every request of a fetch goes to a host that was allowed and resolved to
  public addresses when it was checked, a file that is let through lies under a root, and a key
  resolves to the identity the HTTP gate gives it.
\<close>

subsection \<open>Fetches\<close>

fun public_address :: "address \<Rightarrow> bool" where
  "public_address (V4 ip) = (\<not> refused4 ip)"
| "public_address (V6 ip) = (\<not> refused6 ip)"
| "public_address NoAddress = False"

definition host_checked :: "network \<Rightarrow> string list option \<Rightarrow> nat \<Rightarrow> string option \<Rightarrow> bool" where
  "host_checked w hosts t h \<longleftrightarrow>
     (\<exists>name as. h = Some name \<and> host_allowed hosts name \<and> nw_resolve w t name = Some as \<and> as \<noteq> [] \<and>
        list_all public_address as)"

definition url_checked :: "network \<Rightarrow> string list option \<Rightarrow> nat \<Rightarrow> string \<Rightarrow> bool" where
  "url_checked w hosts t u \<longleftrightarrow> (\<exists>scheme h. url_parts (nw_bracket w) u = Some (scheme, h) \<and> host_checked w hosts t h)"

lemma public_addresses_Inr: "public_addresses as = Inr () \<longleftrightarrow> list_all public_address as"
  by (induction as rule: public_addresses.induct) auto

lemma check_host_Inr: "check_host w hosts t h = Inr u \<longleftrightarrow> host_checked w hosts t h"
  by (auto simp: check_host_def host_checked_def is_public_address_def public_addresses_Inr
      split: option.splits list.splits if_splits)

text \<open>The \<open>k\<close>th request of a fetch is the \<open>k\<close>th use of the network.\<close>

definition requests_checked :: "network \<Rightarrow> string list option \<Rightarrow> nat \<Rightarrow> string list \<Rightarrow> bool" where
  "requests_checked w hosts t us \<longleftrightarrow> (\<forall>k < length us. url_checked w hosts (t + k) (us ! k))"

lemma requests_checked_Cons:
  "requests_checked w hosts t (u # us) \<longleftrightarrow> url_checked w hosts t u \<and> requests_checked w hosts (t + 1) us"
  unfolding requests_checked_def
  by (auto simp: nth_Cons less_Suc_eq_0_disj split: nat.splits)

lemma requests_checked_Nil [simp]: "requests_checked w hosts t []"
  by (simp add: requests_checked_def)

definition content_ok :: "network \<Rightarrow> nat \<Rightarrow> string list \<Rightarrow> nat \<Rightarrow> string \<Rightarrow> bool" where
  "content_ok w t us max_bytes content \<longleftrightarrow> us \<noteq> [] \<and> length content \<le> max_bytes \<and>
     content = ha_content (nw_get w (t + length us - 1) (last us)) \<and>
     200 \<le> ha_status (nw_get w (t + length us - 1) (last us)) \<and> ha_status (nw_get w (t + length us - 1) (last us)) < 300"

lemma fetch_loop_checked:
  assumes "url_checked w hosts t current" and "fetch_loop w hosts max_bytes t n current = (us, result)"
  shows "requests_checked w hosts t us \<and> length us \<le> n \<and> (us \<noteq> [] \<longrightarrow> hd us = current) \<and>
    (case result of Inl _ \<Rightarrow> True | Inr content \<Rightarrow> content_ok w t us max_bytes content)"
  using assms
proof (induction n arbitrary: t current us result)
  case (Suc n)
  let ?a = "nw_get w t current" and ?next = "nw_join w current (the (ha_location (nw_get w t current)))"
  show ?case
  proof (cases "\<exists>scheme h u. ha_status ?a \<in> set redirects \<and> truthy (ha_location ?a) \<and>
      url_parts (nw_bracket w) ?next = Some (scheme, h) \<and> check_host w hosts (t + 1) h = Inr u")
    case True
    then obtain scheme h u where r: "ha_status ?a \<in> set redirects" "truthy (ha_location ?a)"
        "url_parts (nw_bracket w) ?next = Some (scheme, h)" "check_host w hosts (t + 1) h = Inr u" by blast
    obtain us' result' where rec: "fetch_loop w hosts max_bytes (t + 1) n ?next = (us', result')"
      by (cases "fetch_loop w hosts max_bytes (t + 1) n ?next")
    have "url_checked w hosts (t + 1) ?next"
      using r(3,4) by (auto simp: url_checked_def check_host_Inr)
    from Suc.IH [OF this rec] have ih: "requests_checked w hosts (t + 1) us'" "length us' \<le> n"
        "case result' of Inl _ \<Rightarrow> True | Inr content \<Rightarrow> content_ok w (t + 1) us' max_bytes content" by auto
    have "us = current # us'" "result = result'"
      using Suc.prems(2) r rec by (simp_all add: Let_def)
    with ih Suc.prems(1) show ?thesis
      by (auto simp: requests_checked_Cons content_ok_def split: sum.splits)
  next
    case False
    then have "us = [current] \<and> (case result of Inl _ \<Rightarrow> True | Inr content \<Rightarrow>
        content = ha_content ?a \<and> length content \<le> max_bytes \<and> 200 \<le> ha_status ?a \<and> ha_status ?a < 300)"
      using Suc.prems(2) by (auto simp: Let_def split: if_splits option.splits sum.splits)
    with Suc.prems(1) show ?thesis
      by (auto simp: requests_checked_Cons content_ok_def split: sum.splits)
  qed
qed simp

definition hosts_in_force :: "string \<Rightarrow> string list option \<Rightarrow> string list option" where
  "hosts_in_force env_hosts allowed = (case allowed of None \<Rightarrow> configured_hosts env_hosts | Some hs \<Rightarrow> Some hs)"

text \<open>
  Claim C18.  A fetch requests nothing it did not check: whatever the network answers, every URL it
  requests has a host on the allowlist (if there is one) whose addresses were all public when it was
  checked, there are at most four, the first is the given URL and uses https, and content it
  returns is that of a successful answer to the last one and within the limit.
\<close>

theorem fetch_requests_are_checked:
  assumes "safe_remote_fetch w env_hosts allowed max_bytes url = (us, result)"
  shows "requests_checked w (hosts_in_force env_hosts allowed) 0 us \<and> length us \<le> 4 \<and>
    (us \<noteq> [] \<longrightarrow> hd us = strip url \<and> (\<exists>h. url_parts (nw_bracket w) (strip url) = Some (''https'', h))) \<and>
    (case result of Inl _ \<Rightarrow> True | Inr content \<Rightarrow> content_ok w 0 us max_bytes content)"
proof (cases "\<exists>h u. strip url \<noteq> [] \<and> url_parts (nw_bracket w) (strip url) = Some (''https'', h) \<and>
    check_host w (hosts_in_force env_hosts allowed) 0 h = Inr u")
  case True
  then obtain h u where h: "strip url \<noteq> []" "url_parts (nw_bracket w) (strip url) = Some (''https'', h)"
      "check_host w (hosts_in_force env_hosts allowed) 0 h = Inr u" by blast
  then have "fetch_loop w (hosts_in_force env_hosts allowed) max_bytes 0 4 (strip url) = (us, result)"
    using assms by (simp add: safe_remote_fetch_def hosts_in_force_def max_redirects_def Let_def)
  moreover have "url_checked w (hosts_in_force env_hosts allowed) 0 (strip url)"
    using h by (auto simp: url_checked_def check_host_Inr)
  ultimately show ?thesis using fetch_loop_checked [of w "hosts_in_force env_hosts allowed" 0] h(2) by blast
next
  case False
  then have "us = [] \<and> (\<exists>e. result = Inl e)"
    using assms by (auto simp: safe_remote_fetch_def hosts_in_force_def Let_def split: if_splits option.splits sum.splits)
  then show ?thesis by auto
qed

subsection \<open>Files\<close>

lemma first_root_Inr:
  "first_root fs path roots = Inr p \<longleftrightarrow>
     p = path \<and> fs_is_file fs path \<and> (\<exists>root \<in> set roots. \<exists>r. fs_root fs root = Some r \<and> within_root r path)"
  by (induction roots) (auto split: option.splits)

text \<open>
  Exactly the regular files under a root pass: the path that is returned is the
  candidate with its symbolic links followed, and its leading components are those of a root.
\<close>

theorem passed_files_are_inside:
  "safe_local_path fs roots candidate = Inr p \<longleftrightarrow>
     strip candidate \<noteq> [] \<and> fs_resolve fs candidate = At p \<and> fs_is_file fs p \<and>
     (\<exists>root \<in> set roots. \<exists>r. fs_root fs root = Some r \<and> take (length r) p = r)"
  by (auto simp: safe_local_path_def first_root_Inr within_root_def split: resolution.split)

subsection \<open>Callers\<close>

text \<open>
  An MCP caller is scoped like an HTTP caller: a key resolves to an identity exactly if the
  HTTP gate finds it by the same token, and the identity is that key's organisation, actor, id,
  scopes and tier.
\<close>

theorem mcp_caller_is_http_caller:
  assumes "keys_ok keys" and "strip raw \<noteq> []"
  shows "resolve_tenant sha keys raw = map_sum id (map_option context_of) (find_by_token sha (strip raw) keys)"
proof -
  let ?h = "sha (strip raw)"
  have "one_or_none ManyKeys (\<lambda>k. ak_hash k = ?h) keys \<noteq> Inl ManyKeys"
    using assms(1) by (intro one_or_none_unique [where f = ak_hash and v = ?h]) (auto simp: keys_ok_def)
  then have single: "filter (\<lambda>k. ak_hash k = ?h) keys = [] \<or> (\<exists>k. filter (\<lambda>k. ak_hash k = ?h) keys = [k])"
    unfolding one_or_none_def by (cases "filter (\<lambda>k. ak_hash k = ?h) keys" rule: remdups_adj.cases) simp_all
  have both: "filter (\<lambda>k. ak_hash k = ?h \<and> ak_revoked k = None) keys =
      filter (\<lambda>k. ak_revoked k = None) (filter (\<lambda>k. ak_hash k = ?h) keys)"
    unfolding filter_filter by (rule refl)
  have unfold: "resolve_tenant sha keys raw =
      ebind (one_or_none ManyKeys (\<lambda>k. ak_hash k = ?h) keys) (\<lambda>found. case found of
          None \<Rightarrow> Inr None
        | Some k \<Rightarrow> Inr (if ak_revoked k \<noteq> None then None else Some (context_of k)))"
    using assms(2) by (simp only: resolve_tenant_def if_False)
  from single show ?thesis
  proof
    assume none: "filter (\<lambda>k. ak_hash k = ?h) keys = []"
    show ?thesis unfolding unfold find_by_token_def one_or_none_def both none by simp
  next
    assume "\<exists>k. filter (\<lambda>k. ak_hash k = ?h) keys = [k]"
    then obtain k where one: "filter (\<lambda>k. ak_hash k = ?h) keys = [k]" by blast
    show ?thesis unfolding unfold find_by_token_def one_or_none_def both one by simp
  qed
qed

subsection \<open>Examples\<close>

definition demo_net :: network where
  "demo_net =
     \<lparr>nw_resolve = (\<lambda>t h. Some [V4 (if h = ''cdn.example'' then quad 93 184 216 34 else quad 100 100 100 200)]),
      nw_get = (\<lambda>t u. if t = 0 then \<lparr>ha_status = 302, ha_location = Some ''http://cdn.example/d'', ha_content = []\<rparr>
                      else \<lparr>ha_status = 200, ha_location = None, ha_content = ''rows''\<rparr>),
      nw_join = (\<lambda>u l. l), nw_bracket = (\<lambda>_. False)\<rparr>"

lemma demo_urls:
  "url_parts b ''https://cdn.example/d'' = Some (''https'', Some ''cdn.example'')"
  "url_parts b ''http://cdn.example/d'' = Some (''http'', Some ''cdn.example'')"
  "url_parts b ''https://metadata/latest'' = Some (''https'', Some ''metadata'')"
  "strip ''https://cdn.example/d'' = ''https://cdn.example/d''"
  "strip ''https://metadata/latest'' = ''https://metadata/latest''"
  "configured_hosts [] = None"
  by code_simp+

lemma demo_addresses: "\<not> refused4 (quad 93 184 216 34)" "\<not> refused4 (quad 100 100 100 200)"
    "\<not> refused4 (quad 100 64 0 1)"
  by (simp_all add: refused4_def is_private4_def private4_def nets4 quad_dotted dotted_def unat_eq_zero [symmetric])

lemma demo_hops: "max_redirects + 1 = Suc (Suc (Suc (Suc 0)))" "Suc max_redirects = Suc (Suc (Suc (Suc 0)))"
  by (simp_all add: max_redirects_def eval_nat_numeral)

lemmas demo_steps = safe_remote_fetch_def Let_def demo_urls check_host_def host_allowed_def is_public_address_def
  demo_addresses demo_net_def demo_hops redirects_def

lemma demo_fetch:
  "safe_remote_fetch demo_net [] None 100 ''https://cdn.example/d'' =
     ([''https://cdn.example/d'', ''http://cdn.example/d''], Inr ''rows'')"
  by (simp add: demo_steps)

theorem fetch_requests_are_checked_witness:
  "requests_checked demo_net (hosts_in_force [] None) 0 [''https://cdn.example/d'', ''http://cdn.example/d'']"
  using fetch_requests_are_checked [OF demo_fetch] by blast

theorem mcp_caller_is_http_caller_witness:
  "resolve_tenant (\<lambda>t. t) [demo_key] ''mk_live_a '' = Inr (Some (context_of demo_key))"
proof -
  have s: "strip ''mk_live_a '' = ''mk_live_a''" by code_simp
  have "find_by_token (\<lambda>t. t) (strip ''mk_live_a '') [demo_key] = Inr (Some demo_key)"
    using demo_key_found by (simp add: demo_keys_def s)
  moreover have "keys_ok [demo_key]" by (simp add: keys_ok_def)
  ultimately show ?thesis
    using mcp_caller_is_http_caller [of "[demo_key]" "''mk_live_a ''" "\<lambda>t. t"] by (simp add: s)
qed

text \<open>A redirect may leave https: the scheme is looked at for the first URL only.\<close>

theorem redirect_leaves_https:
  "\<exists>w. safe_remote_fetch w [] None 100 ''https://cdn.example/d'' =
     ([''https://cdn.example/d'', ''http://cdn.example/d''], Inr ''rows'')"
  using demo_fetch by blast

text \<open>
  The shared address space 100.64.0.0/10 passes as public: Python's \<open>is_private\<close> leaves it out (it is
  not global either).
\<close>

theorem shared_space_is_fetched:
  "\<not> refused4 (quad 100 64 0 1) \<and>
   fst (safe_remote_fetch demo_net [] None 100 ''https://metadata/latest'') = [''https://metadata/latest'', ''http://cdn.example/d'']"
  using demo_addresses(3) by (simp add: demo_steps)

end
