(* ===== verification/Mcp_Limiter.thy ===== *)
theory Mcp_Limiter
  imports Mcp_Guard Rate_Limit "HOL-Library.AList"
begin

section \<open>The limiter and the input checks of the MCP surface\<close>

text \<open>
  \<open>McpRateLimiter\<close> and the two \<open>validate\<close> functions of \<open>contexta/mcp/security.py\<close>.  The limiter keeps
  its buckets in Redis, or in a dict when Redis is not configured.  The dict is an association
  list without repeated keys; \<open>allow_local\<close> is interpreted as a \<open>token_bucket\<close>, and the two kinds of
  bucket are shown to give the same answers.
\<close>

subsection \<open>Buckets in Redis\<close>

definition mcp_key :: "string \<Rightarrow> string" where
  "mcp_key identity = ''mcp:rl:'' @ identity"

definition mcp_ts :: "string \<Rightarrow> string" where
  "mcp_ts identity = mcp_key identity @ '':ts''"

definition mcp_tokens :: "string \<Rightarrow> string" where
  "mcp_tokens identity = mcp_key identity @ '':tokens''"

definition mcp_read :: "string \<Rightarrow> rat \<Rightarrow> redis \<Rightarrow> rat option \<times> rat option" where
  "mcp_read identity now r = (redis_get now (mcp_ts identity) r, redis_get now (mcp_tokens identity) r)"

definition mcp_write :: "string \<Rightarrow> rat \<Rightarrow> rat \<Rightarrow> redis \<Rightarrow> redis" where
  "mcp_write identity now left r =
     redis_setex now (mcp_ts identity) 120 now (redis_setex now (mcp_tokens identity) 120 left r)"

record bucket_limits =
  lm_rate :: rat
  lm_burst :: rat

definition default_limits :: bucket_limits where
  "default_limits = \<lparr>lm_rate = 20, lm_burst = 40\<rparr>"

text \<open>\<open>up\<close>: Redis answers during the call.\<close>

definition allow_redis :: "bucket_limits \<Rightarrow> bool \<Rightarrow> string \<Rightarrow> rat \<Rightarrow> rat \<Rightarrow> redis \<Rightarrow> redis \<times> bool" where
  "allow_redis lm up identity cost now r =
     (if \<not> up then (r, True)
      else
        let level = available (lm_rate lm) (lm_burst lm) now (mcp_read identity now r);
            passes = (cost \<le> level)
        in (mcp_write identity now (if passes then level - cost else level) r, passes))"

subsection \<open>Buckets in the process\<close>

type_synonym local_buckets = "(string \<times> rat \<times> rat) list"

definition evict :: "rat \<Rightarrow> local_buckets \<Rightarrow> local_buckets" where
  "evict now bs = (if 10000 < length bs then filter (\<lambda>(key, since, tokens). now - since < 300) bs else bs)"

definition allow_local :: "bucket_limits \<Rightarrow> string \<Rightarrow> rat \<Rightarrow> rat \<Rightarrow> local_buckets \<Rightarrow> local_buckets \<times> bool" where
  "allow_local lm identity cost now bs =
     (let (since, tokens) = (case map_of bs identity of Some b \<Rightarrow> b | None \<Rightarrow> (now, lm_burst lm));
          level = min (lm_burst lm) (tokens + (now - since) * lm_rate lm);
          passes = (cost \<le> level)
      in (evict now (AList.update identity (now, if passes then level - cost else level) bs), passes))"

text \<open>A limiter uses one kind of bucket: a client, once created, is kept.\<close>

datatype limiter = InRedis redis | InProcess local_buckets

fun allow :: "bucket_limits \<Rightarrow> bool \<Rightarrow> string \<Rightarrow> rat \<Rightarrow> rat \<Rightarrow> limiter \<Rightarrow> limiter \<times> bool" where
  "allow lm up identity cost now (InRedis r) = map_prod InRedis id (allow_redis lm up identity cost now r)"
| "allow lm up identity cost now (InProcess bs) = map_prod InProcess id (allow_local lm identity cost now bs)"

subsection \<open>Input checks\<close>

datatype input_error = ContentMissing | ContentEmpty | ContentTooLong nat | NotANumber | OutOfRange

definition default_max_chars :: nat where
  "default_max_chars = 20000"

text \<open>Content that is not a string is given as the text \<open>str\<close> turns it into.\<close>

definition validate_content :: "nat \<Rightarrow> string option \<Rightarrow> input_error + string" where
  "validate_content max_chars content =
     (case content of
        None \<Rightarrow> Inl ContentMissing
      | Some s \<Rightarrow>
          if strip s = [] then Inl ContentEmpty
          else if max_chars < length s then Inl (ContentTooLong (length s))
          else Inr s)"

text \<open>What \<open>float\<close> makes of the argument: it raises, or yields a number, an infinity or a NaN.\<close>

datatype float_value = Raises | Finite rat | Infinite bool | NotNumber

definition validate_importance :: "float_value \<Rightarrow> input_error + rat" where
  "validate_importance v =
     (case v of
        Raises \<Rightarrow> Inl NotANumber
      | Finite x \<Rightarrow> if 0 \<le> x \<and> x \<le> 1 then Inr x else Inl OutOfRange
      | Infinite _ \<Rightarrow> Inl OutOfRange
      | NotNumber \<Rightarrow> Inl OutOfRange)"

subsection \<open>Levels\<close>

definition redis_level :: "bucket_limits \<Rightarrow> string \<Rightarrow> redis \<Rightarrow> rat \<Rightarrow> rat" where
  "redis_level lm i r t = available (lm_rate lm) (lm_burst lm) t (mcp_read i t r)"

definition local_level :: "bucket_limits \<Rightarrow> string \<Rightarrow> local_buckets \<Rightarrow> rat \<Rightarrow> rat" where
  "local_level lm i bs t =
     (case map_of bs i of
        None \<Rightarrow> lm_burst lm
      | Some (since, tokens) \<Rightarrow> min (lm_burst lm) (tokens + (t - since) * lm_rate lm))"

definition spend :: "rat \<Rightarrow> rat \<Rightarrow> rat" where
  "spend cost level = (if cost \<le> level then level - cost else level)"

lemma allow_local_level:
  "allow_local lm i cost now bs =
    (evict now (AList.update i (now, spend cost (local_level lm i bs now)) bs), cost \<le> local_level lm i bs now)"
  by (simp add: allow_local_def local_level_def spend_def Let_def split: option.split)

lemma allow_redis_level:
  "allow_redis lm True i cost now r =
    (mcp_write i now (spend cost (redis_level lm i r now)) r, cost \<le> redis_level lm i r now)"
  by (simp add: allow_redis_def redis_level_def spend_def Let_def)

lemma mcp_key_neq [simp]: "mcp_ts i \<noteq> mcp_tokens j" "mcp_tokens j \<noteq> mcp_ts i"
proof -
  have "rev (mcp_ts i) \<noteq> rev (mcp_tokens j)" by (simp add: mcp_ts_def mcp_tokens_def)
  then show "mcp_ts i \<noteq> mcp_tokens j" "mcp_tokens j \<noteq> mcp_ts i" by auto
qed

lemma mcp_key_simps [simp]: "mcp_ts i = mcp_ts j \<longleftrightarrow> i = j" "mcp_tokens i = mcp_tokens j \<longleftrightarrow> i = j"
  by (simp_all add: mcp_ts_def mcp_tokens_def mcp_key_def)

lemma redis_level_write:
  "redis_level lm i (mcp_write i now x r) t =
     (if t < now + 120 then min (lm_burst lm) (x + max 0 (t - now) * lm_rate lm) else lm_burst lm)"
  "i \<noteq> j \<Longrightarrow> redis_level lm i (mcp_write j now x r) t = redis_level lm i r t"
  by (simp_all add: redis_level_def mcp_read_def mcp_write_def redis_get_def redis_setex_def available_def)

subsection \<open>The dict\<close>

text \<open>The burst refills before a bucket expires in Redis, or is evicted from the dict.\<close>

definition limits_fit :: "bucket_limits \<Rightarrow> bool" where
  "limits_fit lm \<longleftrightarrow> 0 < lm_rate lm \<and> 0 \<le> lm_burst lm \<and> lm_burst lm \<le> 120 * lm_rate lm"

definition local_ok :: "bucket_limits \<Rightarrow> local_buckets \<Rightarrow> rat \<Rightarrow> bool" where
  "local_ok lm bs t \<longleftrightarrow> limits_fit lm \<and> distinct (map fst bs) \<and>
     (\<forall>(key, since, tokens) \<in> set bs. since \<le> t \<and> 0 \<le> tokens)"

lemma local_okD:
  assumes "local_ok lm bs t" and "map_of bs i = Some (since, tokens)"
  shows "since \<le> t" "0 \<le> tokens"
  using assms by (auto simp: local_ok_def dest!: map_of_SomeD)

lemma map_of_filter_distinct:
  "distinct (map fst al) \<Longrightarrow>
   map_of (filter P al) k = (case map_of al k of Some v \<Rightarrow> if P (k, v) then Some v else None | None \<Rightarrow> None)"
proof (induction al)
  case (Cons e al)
  then have "map_of al k = None" if "fst e = k" using that by (auto simp: map_of_eq_None_iff)
  with Cons show ?case by (cases e) (auto split: option.splits)
qed simp

lemma full_by_then:
  assumes "limits_fit lm" and "0 \<le> tokens" and "120 \<le> (d :: rat)"
  shows "lm_burst lm \<le> tokens + d * lm_rate lm"
proof -
  have "120 * lm_rate lm \<le> d * lm_rate lm" using assms(1,3) by (intro mult_right_mono) (auto simp: limits_fit_def)
  moreover have "lm_burst lm \<le> 120 * lm_rate lm" using assms(1) by (simp add: limits_fit_def)
  ultimately show ?thesis using assms(2) by linarith
qed

lemma evict_level:
  assumes "local_ok lm bs now" and "now \<le> t"
  shows "local_level lm i (evict now bs) t = local_level lm i bs t"
proof (cases "map_of bs i")
  case None
  moreover have "map_of (evict now bs) i = None"
    using None assms(1) by (simp add: evict_def local_ok_def map_of_filter_distinct)
  ultimately show ?thesis by (simp add: local_level_def)
next
  case (Some b)
  obtain since tokens where b: "b = (since, tokens)" by (cases b)
  have kept: "map_of (evict now bs) i = Some b \<or> (map_of (evict now bs) i = None \<and> 300 \<le> now - since)"
    using Some assms(1) by (simp add: evict_def local_ok_def map_of_filter_distinct b)
  have "lm_burst lm \<le> tokens + (t - since) * lm_rate lm" if "300 \<le> now - since"
    using that assms local_okD(2) [OF assms(1)] Some
    by (intro full_by_then) (auto simp: local_ok_def b)
  with kept Some show ?thesis by (auto simp: local_level_def b min_def)
qed

lemma evict_ok: "local_ok lm bs t \<Longrightarrow> local_ok lm (evict now bs) t"
  by (auto simp: local_ok_def evict_def distinct_map_filter)

lemma local_range:
  assumes "local_ok lm bs t"
  shows "0 \<le> local_level lm i bs t \<and> local_level lm i bs t \<le> lm_burst lm"
  using assms local_okD [OF assms]
  by (auto simp: local_level_def local_ok_def limits_fit_def split: option.split)

lemma update_ok:
  assumes "local_ok lm bs now" and "0 \<le> x"
  shows "local_ok lm (AList.update i (now, x) bs) now"
proof -
  have "since \<le> now \<and> 0 \<le> tokens" if "(k, since, tokens) \<in> set (AList.update i (now, x) bs)" for k since tokens
  proof -
    have d: "distinct (map fst (AList.update i (now, x) bs))"
      using assms(1) by (intro distinct_update) (simp add: local_ok_def)
    then have "map_of (AList.update i (now, x) bs) k = Some (since, tokens)" using that by (rule map_of_is_SomeI)
    then show ?thesis using local_okD [OF assms(1)] assms(2) by (auto simp: update_conv split: if_splits)
  qed
  then show ?thesis using assms(1) distinct_update by (auto simp: local_ok_def)
qed

lemma spend_range: "0 \<le> level \<Longrightarrow> 0 \<le> spend cost level"
  by (simp add: spend_def)

text \<open>What a call does to the levels and to the invariant.\<close>

lemma local_step:
  assumes "local_ok lm bs now" and "allow_local lm i cost now bs = (bs', passes)"
  shows "local_ok lm bs' now" and "passes \<longleftrightarrow> cost \<le> local_level lm i bs now"
    and "now \<le> t \<Longrightarrow> local_level lm i bs' t = min (lm_burst lm) (spend cost (local_level lm i bs now) + (t - now) * lm_rate lm)"
    and "now \<le> t \<Longrightarrow> j \<noteq> i \<Longrightarrow> local_level lm j bs' t = local_level lm j bs t"
proof -
  let ?x = "spend cost (local_level lm i bs now)"
  have bs': "bs' = evict now (AList.update i (now, ?x) bs)" and p: "passes = (cost \<le> local_level lm i bs now)"
    using assms(2) by (simp_all add: allow_local_level)
  have ok: "local_ok lm (AList.update i (now, ?x) bs) now"
    using local_range [OF assms(1)] by (intro update_ok [OF assms(1)] spend_range) simp
  show "local_ok lm bs' now" unfolding bs' by (rule evict_ok [OF ok])
  show "passes \<longleftrightarrow> cost \<le> local_level lm i bs now" by (rule p)
  show "now \<le> t \<Longrightarrow> local_level lm i bs' t = min (lm_burst lm) (?x + (t - now) * lm_rate lm)"
    unfolding bs' by (simp add: evict_level [OF ok]) (simp add: local_level_def update_conv)
  show "now \<le> t \<Longrightarrow> j \<noteq> i \<Longrightarrow> local_level lm j bs' t = local_level lm j bs t"
    unfolding bs' by (simp add: evict_level [OF ok]) (simp add: local_level_def update_conv)
qed

lemma local_ok_later: "local_ok lm bs t \<Longrightarrow> t \<le> t' \<Longrightarrow> local_ok lm bs t'"
  by (force simp: local_ok_def)

lemma local_refill:
  assumes "local_ok lm bs t" and "t \<le> t'"
  shows "local_level lm i bs t' \<le> local_level lm i bs t + lm_rate lm * (t' - t)"
proof -
  have "0 \<le> lm_rate lm * (t' - t)" using assms by (simp add: local_ok_def limits_fit_def)
  then show ?thesis by (auto simp: local_level_def algebra_simps min_def split: option.split)
qed

subsection \<open>The dict as a token bucket\<close>

text \<open>The server calls \<open>allow\<close> with the default cost of one.\<close>

definition serve_local :: "bucket_limits \<Rightarrow> string \<Rightarrow> rat \<Rightarrow> local_buckets \<Rightarrow> local_buckets \<times> bool" where
  "serve_local lm i now bs = allow_local lm i 1 now bs"

lemma serve_local_step:
  assumes "local_ok lm bs t"
  shows "local_ok lm (fst (serve_local lm j t bs)) t"
    and "local_level lm i (fst (serve_local lm j t bs)) t \<le>
      local_level lm i bs t - (if j = i \<and> snd (serve_local lm j t bs) then 1 else 0)"
proof -
  obtain bs' passes where s: "allow_local lm j 1 t bs = (bs', passes)" by (cases "allow_local lm j 1 t bs")
  note step = local_step [OF assms s]
  show "local_ok lm (fst (serve_local lm j t bs)) t" using step(1) by (simp add: serve_local_def s)
  show "local_level lm i (fst (serve_local lm j t bs)) t \<le>
      local_level lm i bs t - (if j = i \<and> snd (serve_local lm j t bs) then 1 else 0)"
    using step(2) step(3) [of t] step(4) [of t i] local_range [OF assms, of i]
    unfolding serve_local_def s by (cases "j = i") (auto simp: spend_def min_le_iff_disj)
qed

interpretation mcp_bucket: token_bucket
  "local_level lm i" "local_ok lm" "serve_local lm" "\<lambda>j. j = i" "\<lambda>j. True" "lm_rate lm" "lm_burst lm"
  for lm i
proof unfold_locales
  fix bs :: local_buckets and t t' :: rat and j :: string
  assume ok: "local_ok lm bs t"
  show "0 \<le> local_level lm i bs t \<and> local_level lm i bs t \<le> lm_burst lm" by (rule local_range [OF ok])
  show "t \<le> t' \<Longrightarrow> local_ok lm bs t'" by (rule local_ok_later [OF ok])
  show "t \<le> t' \<Longrightarrow> local_level lm i bs t' \<le> local_level lm i bs t + lm_rate lm * (t' - t)"
    by (rule local_refill [OF ok])
  show "local_ok lm (fst (serve_local lm j t bs)) t" by (rule serve_local_step(1) [OF ok])
  show "local_level lm i (fst (serve_local lm j t bs)) t \<le> local_level lm i bs t"
    using serve_local_step(2) [OF ok, of i j] by (auto split: if_splits)
  show "j = i \<Longrightarrow> snd (serve_local lm j t bs) \<Longrightarrow>
      local_level lm i (fst (serve_local lm j t bs)) t \<le> local_level lm i bs t - 1"
    using serve_local_step(2) [OF ok, of i j] by simp
qed

subsection \<open>Both kinds of bucket\<close>

text \<open>The answers to a sequence of calls while Redis is up.\<close>

fun answers :: "bucket_limits \<Rightarrow> limiter \<Rightarrow> (string \<times> rat \<times> rat) list \<Rightarrow> bool list" where
  "answers lm l [] = []"
| "answers lm l ((i, cost, t) # calls) =
     (let (l', passes) = allow lm True i cost t l in passes # answers lm l' calls)"

definition agreeing :: "bucket_limits \<Rightarrow> local_buckets \<Rightarrow> redis \<Rightarrow> rat \<Rightarrow> bool" where
  "agreeing lm bs r t \<longleftrightarrow> local_ok lm bs t \<and> (\<forall>i. \<forall>t' \<ge> t. local_level lm i bs t' = redis_level lm i r t')"

lemma agreeing_step:
  assumes "agreeing lm bs r t" and "allow_local lm i cost t bs = (bs', p)" and "allow_redis lm True i cost t r = (r', q)"
  shows "p = q \<and> agreeing lm bs' r' t"
proof -
  have ok: "local_ok lm bs t" and same: "t \<le> t' \<Longrightarrow> local_level lm j bs t' = redis_level lm j r t'" for j t'
    using assms(1) by (auto simp: agreeing_def)
  let ?x = "spend cost (local_level lm i bs t)"
  note step = local_step [OF ok assms(2)]
  have r': "r' = mcp_write i t ?x r" and q: "q = p"
    using assms(3) same [of t i] step(2) by (simp_all add: allow_redis_level)
  have x: "0 \<le> ?x" using local_range [OF ok] by (intro spend_range) simp
  have "local_level lm j bs' t' = redis_level lm j r' t'" if "t \<le> t'" for j t'
  proof (cases "j = i")
    case True
    have "lm_burst lm \<le> ?x + (t' - t) * lm_rate lm" if "\<not> t' < t + 120"
      using that ok x by (intro full_by_then) (auto simp: local_ok_def)
    with that show ?thesis unfolding True r' step(3) [OF that] redis_level_write(1) by (auto simp: max_def min_def)
  next
    case False
    with that show ?thesis using step(4) [OF that False] same by (simp add: r' redis_level_write(2))
  qed
  with step(1) q show ?thesis by (simp add: agreeing_def)
qed

lemma agreeing_later: "agreeing lm bs r t \<Longrightarrow> t \<le> t' \<Longrightarrow> agreeing lm bs r t'"
  using local_ok_later by (force simp: agreeing_def)

lemma agreeing_empty: "limits_fit lm \<Longrightarrow> agreeing lm [] Map.empty t"
  by (simp add: agreeing_def local_ok_def local_level_def redis_level_def mcp_read_def redis_get_def available_def)

lemma agreeing_answers:
  "agreeing lm bs r t0 \<Longrightarrow> sorted (t0 # map (snd \<circ> snd) calls) \<Longrightarrow>
   answers lm (InProcess bs) calls = answers lm (InRedis r) calls"
proof (induction calls arbitrary: bs r t0)
  case (Cons call calls)
  obtain i cost t where call: "call = (i, cost, t)" by (cases call)
  obtain bs' p where l: "allow_local lm i cost t bs = (bs', p)" by (cases "allow_local lm i cost t bs")
  obtain r' q where r: "allow_redis lm True i cost t r = (r', q)" by (cases "allow_redis lm True i cost t r")
  have "agreeing lm bs r t" using Cons.prems by (intro agreeing_later [OF Cons.prems(1)]) (simp add: call)
  from agreeing_step [OF this l r] have s: "p = q" "agreeing lm bs' r' t" by auto
  have "answers lm (InProcess bs') calls = answers lm (InRedis r') calls"
    using Cons.prems(2) by (intro Cons.IH [OF s(2)]) (simp add: call)
  then show ?case by (simp add: call l r s(1))
qed simp

text \<open>
  Claim C32.  Where an empty bucket fills up within the two minutes after which Redis drops it (the
  burst is at most 120 seconds of the rate, as with the default limits), it does not matter where the
  buckets are: while Redis is up, and as long as the clock does not step back, a limiter that
  keeps them in Redis answers every sequence of calls the way the one that keeps them in the
  process does, evictions and expiring keys included.  Limits outside this range, which the
  environment may set, break it: \<open>slow_bucket_refills_in_redis\<close>.
\<close>

theorem buckets_agree:
  assumes "0 < lm_rate lm" and "0 \<le> lm_burst lm" and "lm_burst lm \<le> 120 * lm_rate lm"
    and "sorted (map (snd \<circ> snd) calls)"
  shows "answers lm (InRedis Map.empty) calls = answers lm (InProcess []) calls"
proof (cases calls)
  case (Cons call rest)
  have fit: "limits_fit lm" using assms(1-3) by (simp add: limits_fit_def)
  have "sorted (snd (snd call) # map (snd \<circ> snd) calls)" using assms(4) by (simp add: Cons)
  from agreeing_answers [OF agreeing_empty [OF fit] this] show ?thesis by simp
qed simp

definition demo_calls :: "(string \<times> rat \<times> rat) list" where
  "demo_calls = [(''key:k'', 30, 0), (''anonymous'', 40, 0), (''key:k'', 30, 0), (''key:k'', 30, 2)]"

lemma default_limits_fit: "limits_fit default_limits"
  by (simp add: limits_fit_def default_limits_def)

theorem buckets_agree_witness:
  "answers default_limits (InRedis Map.empty) demo_calls = [True, True, False, True]"
proof -
  have "answers default_limits (InProcess []) demo_calls = [True, True, False, True]"
    by (simp add: demo_calls_def allow_local_level evict_def local_level_def spend_def default_limits_def)
  with buckets_agree [of default_limits demo_calls] show ?thesis by (simp add: demo_calls_def default_limits_def)
qed

text \<open>The calls of one identity, at the default cost, that pass.\<close>

fun passes_of :: "bucket_limits \<Rightarrow> string \<Rightarrow> limiter \<Rightarrow> (string \<times> rat) list \<Rightarrow> nat" where
  "passes_of lm i l [] = 0"
| "passes_of lm i l ((j, t) # calls) =
     (let (l', passes) = allow lm True j 1 t l in (if j = i \<and> passes then 1 else 0) + passes_of lm i l' calls)"

lemma passes_of_answers:
  "passes_of lm i l calls =
     length (filter id (map2 (\<lambda>j p. j = i \<and> p) (map fst calls) (answers lm l (map (\<lambda>(j, t). (j, 1, t)) calls))))"
  by (induction lm i l calls rule: passes_of.induct) (auto split: prod.splits)

lemma passes_of_local: "passes_of lm i (InProcess bs) calls = mcp_bucket.admitted lm i calls bs"
proof (induction calls arbitrary: bs)
  case (Cons call calls)
  obtain j t where call: "call = (j, t)" by (cases call)
  obtain bs' p where s: "allow_local lm j 1 t bs = (bs', p)" by (cases "allow_local lm j 1 t bs")
  then have s': "serve_local lm j t bs = (bs', p)" by (simp add: serve_local_def)
  show ?case by (simp add: call s s' Cons.IH mcp_bucket.admitted.simps)
qed (simp add: mcp_bucket.admitted.simps)

text \<open>
  Wherever the buckets are, of the calls of one identity at most the burst plus the
  rate times the elapsed seconds pass, however the calls of others are mixed in.
\<close>

theorem tool_calls_bounded:
  assumes "limits_fit lm" and "sorted (t0 # map snd calls)" and "l = InProcess [] \<or> l = InRedis Map.empty"
  shows "of_nat (passes_of lm i l calls) \<le> lm_burst lm + lm_rate lm * (last (t0 # map snd calls) - t0)"
proof -
  let ?calls = "map (\<lambda>(j, t). (j, 1 :: rat, t)) calls"
  have times: "map (snd \<circ> snd) ?calls = map snd calls" by (simp add: comp_def case_prod_beta)
  have "answers lm (InProcess []) ?calls = answers lm (InRedis Map.empty) ?calls"
    using assms(2) by (intro agreeing_answers [OF agreeing_empty [OF assms(1)]]) (simp only: times)
  then have "passes_of lm i l calls = mcp_bucket.admitted lm i calls []"
    using assms(3) by (auto simp: passes_of_answers simp flip: passes_of_local)
  moreover have "local_ok lm [] t0" using assms(1) by (simp add: local_ok_def)
  ultimately show ?thesis using mcp_bucket.admitted_bound [of lm "[]" t0 calls i] assms(2) by simp
qed

definition demo_tool_calls :: "(string \<times> rat) list" where
  "demo_tool_calls = [(''key:k'', 0), (''anonymous'', 0), (''key:k'', 0), (''key:k'', 2)]"

theorem tool_calls_bounded_witness:
  "of_nat (passes_of default_limits ''key:k'' (InRedis Map.empty) demo_tool_calls) \<le> (80 :: rat)"
  using tool_calls_bounded [OF default_limits_fit, of 0 demo_tool_calls "InRedis Map.empty" "''key:k''"]
  by (simp add: demo_tool_calls_def default_limits_def del: passes_of.simps)

text \<open>
  A clock that steps back three seconds empties a full bucket in the process, so that an
  identity that spent one token is refused; the bucket in Redis does not count the step.
\<close>

theorem clock_step_empties_local_bucket:
  "answers default_limits (InProcess []) [(''k'', 1, 10), (''k'', 1, 7)] = [True, False] \<and>
   answers default_limits (InRedis Map.empty) [(''k'', 1, 10), (''k'', 1, 7)] = [True, True]"
  by (simp add: allow_local_level evict_def local_level_def spend_def default_limits_def
      allow_redis_level redis_level_write)
     (simp add: redis_level_def mcp_read_def redis_get_def available_def)

text \<open>
  With a token every ten thousand seconds, Redis drops the spent bucket after two minutes and
  the identity starts again with a full one; the bucket in the process holds it back.
\<close>

definition slow_limits :: bucket_limits where
  "slow_limits = \<lparr>lm_rate = 1 / 10000, lm_burst = 1\<rparr>"

theorem slow_bucket_refills_in_redis:
  "answers slow_limits (InRedis Map.empty) [(''k'', 1, 0), (''k'', 1, 200)] = [True, True] \<and>
   answers slow_limits (InProcess []) [(''k'', 1, 0), (''k'', 1, 200)] = [True, False]"
  by (simp add: allow_local_level evict_def local_level_def spend_def slow_limits_def
      allow_redis_level redis_level_write)
     (simp add: redis_level_def mcp_read_def redis_get_def available_def)

text \<open>An importance that passes is a number from zero to one: a NaN does not pass.\<close>

theorem valid_importance:
  "validate_importance v = Inr x \<longleftrightarrow> v = Finite x \<and> 0 \<le> x \<and> x \<le> 1"
  by (auto simp: validate_importance_def split: float_value.split)

end
