(* ===== verification/Rank_Fusion.thy ===== *)
theory Rank_Fusion
  imports Py_Text Complex_Main "HOL-Library.AList" "HOL-Library.Product_Lexorder" "HOL-Library.Multiset"
begin

section \<open>Rank fusion and sufficiency\<close>

text \<open>
  \<open>contexta/core/retrieval/fusion.py\<close>: weighted reciprocal rank fusion of the channels' candidate
  lists, and the test whether what the primary channels found answers the query.  Scores and
  weights are rationals.  The three dicts the code fills together (\<open>memories\<close>, \<open>scores\<close>, \<open>ranks\<close>) are one
  association list in their common insertion order; a memory's id is a UUID, ordered as its number.
\<close>

subsection \<open>Fusing ranks\<close>

record candidate =
  cn_id :: uuid
  cn_utility :: "rat option"
  cn_importance :: "rat option"
  cn_confidence :: "rat option"

record tally =
  ta_memory :: candidate
  ta_score :: rat
  ta_ranks :: "(string \<times> nat) list"

type_synonym tallies = "(uuid \<times> tally) list"

definition add_rank :: "string \<Rightarrow> rat \<Rightarrow> int \<Rightarrow> nat \<Rightarrow> candidate \<Rightarrow> tallies \<Rightarrow> tallies" where
  "add_rank channel weight k rank m ts =
     (let old = map_of ts (cn_id m) in
      AList.update (cn_id m)
        \<lparr>ta_memory = m,
         ta_score = (case old of Some e \<Rightarrow> ta_score e | None \<Rightarrow> 0) + weight / of_int (k + int rank),
         ta_ranks = (case old of Some e \<Rightarrow> ta_ranks e | None \<Rightarrow> []) @ [(channel, rank)]\<rparr> ts)"

fun rank_channel :: "string \<Rightarrow> rat \<Rightarrow> int \<Rightarrow> uuid list \<Rightarrow> nat \<Rightarrow> candidate list \<Rightarrow> tallies \<Rightarrow> tallies" where
  "rank_channel channel weight k seen rank [] ts = ts"
| "rank_channel channel weight k seen rank (m # ms) ts =
     (if cn_id m \<in> set seen then rank_channel channel weight k seen rank ms ts
      else rank_channel channel weight k (cn_id m # seen) (rank + 1) ms
             (add_rank channel weight k (rank + 1) m ts))"

definition channel_weight :: "(string \<times> rat) list \<Rightarrow> string \<Rightarrow> rat" where
  "channel_weight weights channel = max 0 (case map_of weights channel of Some w \<Rightarrow> w | None \<Rightarrow> 0)"

definition active :: "(string \<times> rat) list \<Rightarrow> string \<times> candidate list \<Rightarrow> bool" where
  "active weights c \<longleftrightarrow> channel_weight weights (fst c) \<noteq> 0 \<and> snd c \<noteq> []"

fun tally_channels ::
  "(string \<times> rat) list \<Rightarrow> int \<Rightarrow> (string \<times> candidate list) list \<Rightarrow> rat \<times> tallies \<Rightarrow> rat \<times> tallies" where
  "tally_channels weights k [] s = s"
| "tally_channels weights k ((channel, ms) # cs) (weight_sum, ts) =
     (if active weights (channel, ms)
      then tally_channels weights k cs
             (weight_sum + channel_weight weights channel,
              rank_channel channel (channel_weight weights channel) k [] 0 ms ts)
      else tally_channels weights k cs (weight_sum, ts))"

record fused =
  fu_memory :: candidate
  fu_score :: rat
  fu_ranks :: "(string \<times> nat) list"

definition or_zero :: "rat option \<Rightarrow> rat" where
  "or_zero x = (case x of Some v \<Rightarrow> v | None \<Rightarrow> 0)"

definition priors :: "rat \<Rightarrow> rat \<Rightarrow> candidate \<Rightarrow> rat" where
  "priors utility_prior quality_prior m =
     max 0 utility_prior * ((max (-1) (min 1 (or_zero (cn_utility m))) + 1) / 2) +
     max 0 quality_prior *
       (6 / 10 * max 0 (min 1 (or_zero (cn_importance m))) + 4 / 10 * max 0 (min 1 (or_zero (cn_confidence m))))"

definition fuse_one :: "rat \<Rightarrow> rat \<Rightarrow> rat \<Rightarrow> tally \<Rightarrow> fused" where
  "fuse_one maximum utility_prior quality_prior e =
     \<lparr>fu_memory = ta_memory e,
      fu_score = min 1 (ta_score e / maximum) + priors utility_prior quality_prior (ta_memory e),
      fu_ranks = ta_ranks e\<rparr>"

definition fuse_key :: "fused \<Rightarrow> rat \<times> uuid" where
  "fuse_key f = (- fu_score f, cn_id (fu_memory f))"

datatype fusion_error = BadK

definition weighted_reciprocal_rank_fusion ::
  "(string \<times> candidate list) list \<Rightarrow> (string \<times> rat) list \<Rightarrow> int \<Rightarrow> rat \<Rightarrow> rat \<Rightarrow> fusion_error + fused list" where
  "weighted_reciprocal_rank_fusion channels weights k utility_prior quality_prior =
     (if k < 1 then Inl BadK
      else
        let (weight_sum, ts) = tally_channels weights k channels (0, []) in
        if weight_sum = 0 then Inr []
        else Inr (sort_key fuse_key
               (map (\<lambda>(_, e). fuse_one (weight_sum / of_int (k + 1)) utility_prior quality_prior e) ts)))"

subsection \<open>Sufficiency\<close>

record found_result =
  fr_score :: "rat option"
  fr_memory :: "string option option"
  fr_mentions :: "string list"

record query_plan =
  pl_entities :: "string option list"
  pl_limit_hint :: int
  pl_evidence_count :: int
  pl_evidence_ids :: "string option list"

record assessment =
  as_sufficient :: bool
  as_reason :: string
  as_count :: nat
  as_required_count :: int
  as_covered :: "string list"
  as_entities :: "string list"
  as_missing :: "string list"
  as_top :: rat
  as_runner_up :: rat
  as_margin :: rat

text \<open>\<open>tuple(dict.fromkeys(...))\<close> keeps the first occurrence.\<close>

fun fromkeys :: "string list \<Rightarrow> string list" where
  "fromkeys [] = []"
| "fromkeys (x # xs) = x # filter (\<lambda>y. y \<noteq> x) (fromkeys xs)"

definition names :: "string option list \<Rightarrow> string list" where
  "names values =
     fromkeys (map (\<lambda>v. casefold (the v)) (filter (\<lambda>v. v \<noteq> None \<and> strip (the v) \<noteq> []) values))"

definition leaders :: "found_result list \<Rightarrow> rat list" where
  "leaders results = take 2 (rev (sort (map (\<lambda>r. or_zero (fr_score r)) results)))"

definition present_ids :: "found_result list \<Rightarrow> string set" where
  "present_ids results =
     set (concat (map (\<lambda>r. case fr_memory r of Some (Some i) \<Rightarrow> [i] | _ \<Rightarrow> []) results))"

definition covered_names :: "found_result list \<Rightarrow> string set" where
  "covered_names results = (\<Union>r \<in> set (filter (\<lambda>r. fr_memory r \<noteq> None) results). casefold ` set (fr_mentions r))"

definition required_count :: "query_plan option \<Rightarrow> int" where
  "required_count plan = (case plan of None \<Rightarrow> 1 | Some p \<Rightarrow> max 1 (max (pl_limit_hint p) (pl_evidence_count p)))"

definition reason_of :: "nat \<Rightarrow> int \<Rightarrow> string list \<Rightarrow> string list \<Rightarrow> rat \<Rightarrow> rat \<Rightarrow> rat \<Rightarrow> rat \<Rightarrow> bool \<times> string" where
  "reason_of n need missing_ids missing_entities best margin quality dominance =
     (if missing_ids \<noteq> [] then (False, ''missing_required_evidence'')
      else if missing_entities \<noteq> [] then (False, ''missing_required_entity'')
      else if best < quality then (False, ''below_quality_floor'')
      else if need \<le> int n then (True, ''sufficient_depth'')
      else if dominance \<le> margin then (True, ''sufficient_dominant_hit'')
      else (False, ''no_dominant_hit''))"

definition assess_primary_sufficiency ::
  "found_result list \<Rightarrow> query_plan option \<Rightarrow> string option list \<Rightarrow> string option list \<Rightarrow> rat \<Rightarrow> rat \<Rightarrow> assessment" where
  "assess_primary_sufficiency results plan entity_names evidence_ids quality dominance =
     (let best = (case leaders results of [] \<Rightarrow> 0 | s # _ \<Rightarrow> s);
          runner_up = (case leaders results of _ # s # _ \<Rightarrow> s | _ \<Rightarrow> 0);
          entities = names ((case plan of None \<Rightarrow> [] | Some p \<Rightarrow> pl_entities p) @ entity_names);
          ids = names ((case plan of None \<Rightarrow> [] | Some p \<Rightarrow> pl_evidence_ids p) @ evidence_ids);
          missing_ids = filter (\<lambda>i. i \<notin> present_ids results) ids;
          missing_entities = filter (\<lambda>e. e \<notin> covered_names results) entities;
          (ok, reason) = reason_of (length results) (required_count plan) missing_ids missing_entities
            best (best - runner_up) quality dominance
      in \<lparr>as_sufficient = ok, as_reason = reason, as_count = length results,
          as_required_count = required_count plan,
          as_covered = filter (\<lambda>e. e \<in> covered_names results) entities, as_entities = entities,
          as_missing = missing_ids, as_top = best, as_runner_up = runner_up, as_margin = best - runner_up\<rparr>)"

subsection \<open>What the tallies hold\<close>

definition ids_of :: "candidate list \<Rightarrow> uuid list" where
  "ids_of ms = map cn_id ms"

text \<open>The rank of a memory in a channel: one more than the number of different memories before it.\<close>

definition rank_in :: "candidate list \<Rightarrow> uuid \<Rightarrow> nat" where
  "rank_in ms i = card (set (takeWhile (\<lambda>j. j \<noteq> i) (ids_of ms))) + 1"

definition share :: "rat \<Rightarrow> int \<Rightarrow> candidate list \<Rightarrow> uuid \<Rightarrow> rat" where
  "share weight k ms i = (if i \<in> set (ids_of ms) then weight / of_int (k + int (rank_in ms i)) else 0)"

definition score_of :: "tallies \<Rightarrow> uuid \<Rightarrow> rat" where
  "score_of ts i = (case map_of ts i of Some e \<Rightarrow> ta_score e | None \<Rightarrow> 0)"

definition tallies_ok :: "tallies \<Rightarrow> bool" where
  "tallies_ok ts \<longleftrightarrow> distinct (map fst ts) \<and> (\<forall>(i, e) \<in> set ts. cn_id (ta_memory e) = i)"

lemma score_add_rank:
  "score_of (add_rank channel w k rank m ts) i =
     score_of ts i + (if i = cn_id m then w / of_int (k + int rank) else 0)"
  by (simp add: score_of_def add_rank_def update_conv Let_def split: option.split)

lemma keys_add_rank: "fst ` set (add_rank channel w k rank m ts) = insert (cn_id m) (fst ` set ts)"
  unfolding add_rank_def Let_def by (auto simp: update_keys simp flip: set_map)

lemma tallies_ok_add_rank:
  assumes "tallies_ok ts"
  shows "tallies_ok (add_rank channel w k rank m ts)"
proof -
  have d: "distinct (map fst (add_rank channel w k rank m ts))"
    using assms unfolding add_rank_def Let_def by (intro distinct_update) (simp add: tallies_ok_def)
  have "cn_id (ta_memory e) = i" if "(i, e) \<in> set (add_rank channel w k rank m ts)" for i e
  proof -
    have "map_of (add_rank channel w k rank m ts) i = Some e" by (rule map_of_is_SomeI [OF d that])
    with assms show ?thesis
      by (auto simp: add_rank_def Let_def update_conv tallies_ok_def split: if_splits dest!: map_of_SomeD)
  qed
  with d show ?thesis by (auto simp: tallies_ok_def)
qed

lemma rank_channel_ok:
  "tallies_ok ts \<Longrightarrow> tallies_ok (rank_channel channel w k seen rank ms ts)"
  by (induction channel w k seen rank ms ts rule: rank_channel.induct) (simp_all add: tallies_ok_add_rank)

lemma rank_channel_keys:
  "fst ` set (rank_channel channel w k seen rank ms ts) = fst ` set ts \<union> (set (ids_of ms) - set seen)"
  by (induction channel w k seen rank ms ts rule: rank_channel.induct) (auto simp: keys_add_rank ids_of_def)

lemma rank_channel_score:
  "score_of (rank_channel channel w k seen rank ms ts) i =
     score_of ts i +
     (if i \<in> set (ids_of ms) - set seen
      then w / of_int (k + int (rank + card (set (takeWhile (\<lambda>j. j \<noteq> i) (ids_of ms)) - set seen) + 1)) else 0)"
proof (induction channel w k seen rank ms ts rule: rank_channel.induct)
  case (2 channel w k seen rank m ms ts)
  let ?before = "\<lambda>ms. set (takeWhile (\<lambda>j. j \<noteq> i) (ids_of ms))"
  have ids: "ids_of (m # ms) = cn_id m # ids_of ms" by (simp add: ids_of_def)
  show ?case
  proof (cases "cn_id m \<in> set seen")
    case True
    have "?before (m # ms) - set seen = ?before ms - set seen" if "i \<notin> set seen"
      using True that by (auto simp: ids)
    with True 2(1) [OF True] show ?thesis by (auto simp: ids)
  next
    case False
    show ?thesis
    proof (cases "i = cn_id m")
      case True
      with False 2(2) [OF False] show ?thesis by (simp add: ids score_add_rank algebra_simps)
    next
      case other: False
      have "?before (m # ms) - set seen = insert (cn_id m) (?before ms - set (cn_id m # seen))"
        using False other by (auto simp: ids)
      then have "card (?before (m # ms) - set seen) = card (?before ms - set (cn_id m # seen)) + 1" by simp
      with False other 2(2) [OF False] show ?thesis
        by (simp add: ids score_add_rank add.assoc del: takeWhile.simps)
    qed
  qed
qed (simp add: ids_of_def)

lemma rank_channel_share:
  "score_of (rank_channel channel w k [] 0 ms ts) i = score_of ts i + share w k ms i"
  by (simp add: rank_channel_score share_def rank_in_def)

definition active_channels :: "(string \<times> rat) list \<Rightarrow> (string \<times> candidate list) list \<Rightarrow> (string \<times> candidate list) list" where
  "active_channels weights channels = filter (active weights) channels"

definition total_weight :: "(string \<times> rat) list \<Rightarrow> (string \<times> candidate list) list \<Rightarrow> rat" where
  "total_weight weights channels = (\<Sum>c \<leftarrow> active_channels weights channels. channel_weight weights (fst c))"

text \<open>The reciprocal rank score of a memory: its shares of the active channels.\<close>

definition rrf_sum :: "(string \<times> rat) list \<Rightarrow> int \<Rightarrow> (string \<times> candidate list) list \<Rightarrow> uuid \<Rightarrow> rat" where
  "rrf_sum weights k channels i =
     (\<Sum>c \<leftarrow> active_channels weights channels. share (channel_weight weights (fst c)) k (snd c) i)"

definition listed_ids :: "(string \<times> rat) list \<Rightarrow> (string \<times> candidate list) list \<Rightarrow> uuid set" where
  "listed_ids weights channels = (\<Union>c \<in> set (active_channels weights channels). set (ids_of (snd c)))"

lemmas channel_sums = active_channels_def total_weight_def rrf_sum_def listed_ids_def

lemma tally_channels_sums:
  assumes "tally_channels weights k channels (w, ts) = (w', ts')" and "tallies_ok ts"
  shows "tallies_ok ts' \<and> w' = w + total_weight weights channels \<and>
    fst ` set ts' = fst ` set ts \<union> listed_ids weights channels \<and>
    (\<forall>i. score_of ts' i = score_of ts i + rrf_sum weights k channels i)"
  using assms
proof (induction channels arbitrary: w ts)
  case (Cons c channels)
  obtain channel ms where c: "c = (channel, ms)" by (cases c)
  let ?w = "channel_weight weights channel"
  show ?case
  proof (cases "active weights (channel, ms)")
    case True
    then have "tally_channels weights k channels (w + ?w, rank_channel channel ?w k [] 0 ms ts) = (w', ts')"
      using Cons.prems(1) by (simp add: c)
    from Cons.IH [OF this rank_channel_ok [OF Cons.prems(2)]] True show ?thesis
      by (simp add: c channel_sums rank_channel_keys rank_channel_share ac_simps)
  next
    case False
    with Cons show ?thesis by (simp add: c channel_sums)
  qed
qed (auto simp: channel_sums)

lemma weight_pos: "c \<in> set (active_channels weights channels) \<Longrightarrow> 0 < channel_weight weights (fst c)"
  by (auto simp: active_channels_def active_def channel_weight_def max_def split: if_splits)

lemma share_bounds:
  assumes "0 < w" and "1 \<le> k"
  shows "0 \<le> share w k ms i" and "share w k ms i \<le> w / of_int (k + 1)" and "i \<in> set (ids_of ms) \<Longrightarrow> 0 < share w k ms i"
proof -
  have k: "(0 :: rat) < of_int (k + 1)" "(of_int (k + 1) :: rat) \<le> of_int (k + int (rank_in ms i))"
    using assms(2) by (simp_all add: rank_in_def)
  show "0 \<le> share w k ms i" "i \<in> set (ids_of ms) \<Longrightarrow> 0 < share w k ms i"
    using assms k by (auto simp: share_def)
  show "share w k ms i \<le> w / of_int (k + 1)"
    using assms k unfolding share_def by (auto intro: divide_left_mono)
qed

lemma rrf_le_best:
  assumes "1 \<le> k"
  shows "rrf_sum weights k channels i \<le> total_weight weights channels / of_int (k + 1)"
proof -
  have "(\<Sum>c \<leftarrow> cs. share (channel_weight weights (fst c)) k (snd c) i) \<le> (\<Sum>c \<leftarrow> cs. channel_weight weights (fst c)) / of_int (k + 1)"
    if "\<And>c. c \<in> set cs \<Longrightarrow> 0 < channel_weight weights (fst c)" for cs
    using that
  proof (induction cs)
    case (Cons c cs)
    with share_bounds(2) [of "channel_weight weights (fst c)" k "snd c" i] assms show ?case
      by (simp add: add_divide_distrib)
  qed simp
  from this [OF weight_pos] show ?thesis unfolding rrf_sum_def total_weight_def .
qed

lemma sum_list_strict:
  fixes f :: "'c \<Rightarrow> rat"
  assumes "\<And>c. c \<in> set cs \<Longrightarrow> g c \<le> f c" and "c \<in> set cs" and "g c < f c"
  shows "sum_list (map g cs) < sum_list (map f cs)"
  using assms
proof (induction cs)
  case (Cons d cs)
  have rest: "sum_list (map g cs) \<le> sum_list (map f cs)" using Cons.prems(1) by (intro sum_list_mono) simp
  show ?case
  proof (cases "c = d")
    case True
    with rest Cons.prems(3) show ?thesis by simp
  next
    case False
    with Cons have "sum_list (map g cs) < sum_list (map f cs)" by simp
    moreover have "g d \<le> f d" using Cons.prems(1) by simp
    ultimately show ?thesis by simp
  qed
qed simp

lemma rrf_pos:
  assumes "1 \<le> k" and "i \<in> listed_ids weights channels"
  shows "0 < rrf_sum weights k channels i"
proof -
  from assms(2) obtain c where c: "c \<in> set (active_channels weights channels)" "i \<in> set (ids_of (snd c))"
    by (auto simp: listed_ids_def)
  have "sum_list (map (\<lambda>_. 0) (active_channels weights channels)) < rrf_sum weights k channels i"
    unfolding rrf_sum_def using c share_bounds weight_pos assms(1) by (intro sum_list_strict [OF _ c(1)]) auto
  then show ?thesis by (simp add: sum_list_0)
qed

lemma total_pos: "i \<in> listed_ids weights channels \<Longrightarrow> 0 < total_weight weights channels"
proof -
  assume "i \<in> listed_ids weights channels"
  then obtain c where c: "c \<in> set (active_channels weights channels)" by (auto simp: listed_ids_def)
  have "sum_list (map (\<lambda>_. 0) (active_channels weights channels)) < total_weight weights channels"
    unfolding total_weight_def using c weight_pos by (intro sum_list_strict [OF _ c]) (auto intro: less_imp_le)
  then show ?thesis by (simp add: sum_list_0)
qed

lemma total_zero: "total_weight weights channels = 0 \<longleftrightarrow> active_channels weights channels = []"
proof
  assume z: "total_weight weights channels = 0"
  show "active_channels weights channels = []"
  proof (rule ccontr)
    assume "active_channels weights channels \<noteq> []"
    then obtain c where c: "c \<in> set (active_channels weights channels)" by (cases "active_channels weights channels") auto
    then have "snd c \<noteq> []" by (auto simp: active_channels_def active_def)
    then obtain m where "m \<in> set (snd c)" by (cases "snd c") auto
    with c have "cn_id m \<in> listed_ids weights channels" by (auto simp: listed_ids_def ids_of_def)
    from total_pos [OF this] z show False by simp
  qed
qed (simp add: total_weight_def)

subsection \<open>The fused list\<close>

definition fused_ids :: "fused list \<Rightarrow> uuid list" where
  "fused_ids fs = map (\<lambda>f. cn_id (fu_memory f)) fs"

lemma fusion_rows:
  assumes "weighted_reciprocal_rank_fusion channels weights k up qp = Inr fs"
  obtains ts where "1 \<le> k" "tallies_ok ts" "fst ` set ts = listed_ids weights channels"
    "\<And>i e. (i, e) \<in> set ts \<Longrightarrow> ta_score e = rrf_sum weights k channels i"
    "fs = sort_key fuse_key
       (map (\<lambda>(_, e). fuse_one (total_weight weights channels / of_int (k + 1)) up qp e) ts)"
proof -
  obtain w ts where t: "tally_channels weights k channels (0, []) = (w, ts)"
    by (cases "tally_channels weights k channels (0, [])")
  have "tallies_ok []" by (simp add: tallies_ok_def)
  from tally_channels_sums [OF t this] have ok: "tallies_ok ts" and w: "w = total_weight weights channels"
    and keys: "fst ` set ts = listed_ids weights channels"
    and sums: "\<And>i. score_of ts i = rrf_sum weights k channels i"
    by (auto simp: score_of_def)
  have scores: "ta_score e = rrf_sum weights k channels i" if "(i, e) \<in> set ts" for i e
    using sums [of i] map_of_is_SomeI [OF _ that] ok by (simp add: score_of_def tallies_ok_def)
  have k: "1 \<le> k" using assms by (auto simp: weighted_reciprocal_rank_fusion_def split: if_splits)
  have "fs = sort_key fuse_key
       (map (\<lambda>(_, e). fuse_one (total_weight weights channels / of_int (k + 1)) up qp e) ts)"
  proof (cases "w = 0")
    case True
    then have "ts = []" using keys by (simp add: w total_zero listed_ids_def)
    with True assms k t show ?thesis by (simp add: weighted_reciprocal_rank_fusion_def)
  next
    case False
    with assms k t show ?thesis by (simp add: weighted_reciprocal_rank_fusion_def w)
  qed
  from that [OF k ok keys _ this] scores show thesis by blast
qed

lemma share_of_best:
  assumes "1 \<le> k" and "i \<in> listed_ids weights channels"
  shows "0 < rrf_sum weights k channels i / (total_weight weights channels / of_int (k + 1))"
    and "rrf_sum weights k channels i / (total_weight weights channels / of_int (k + 1)) \<le> 1"
proof -
  define best where "best = total_weight weights channels / of_int (k + 1)"
  have "0 < best" using total_pos [OF assms(2)] assms(1) by (simp add: best_def)
  moreover have "rrf_sum weights k channels i \<le> best" unfolding best_def by (rule rrf_le_best [OF assms(1)])
  ultimately have "0 < rrf_sum weights k channels i / best" "rrf_sum weights k channels i / best \<le> 1"
    using rrf_pos [OF assms] by (simp_all add: divide_le_eq_1)
  then show "0 < rrf_sum weights k channels i / (total_weight weights channels / of_int (k + 1))"
    "rrf_sum weights k channels i / (total_weight weights channels / of_int (k + 1)) \<le> 1"
    unfolding best_def .
qed

lemma fused_facts:
  assumes "weighted_reciprocal_rank_fusion channels weights k up qp = Inr fs"
  shows "distinct (fused_ids fs)" and "set (fused_ids fs) = listed_ids weights channels" and "sorted (map fuse_key fs)"
    and "f \<in> set fs \<Longrightarrow> fu_score f =
      rrf_sum weights k channels (cn_id (fu_memory f)) / (total_weight weights channels / of_int (k + 1)) +
      priors up qp (fu_memory f)"
proof -
  let ?best = "total_weight weights channels / of_int (k + 1)"
  from fusion_rows [OF assms] obtain ts where k: "1 \<le> k" and ok: "tallies_ok ts"
    and keys: "fst ` set ts = listed_ids weights channels"
    and scores: "\<And>i e. (i, e) \<in> set ts \<Longrightarrow> ta_score e = rrf_sum weights k channels i"
    and fs: "fs = sort_key fuse_key (map (\<lambda>(_, e). fuse_one ?best up qp e) ts)" by blast
  let ?rows = "map (\<lambda>(_, e). fuse_one ?best up qp e) ts"
  have ids: "fused_ids ?rows = map fst ts"
    using ok by (auto simp: fused_ids_def fuse_one_def tallies_ok_def)
  have same: "mset fs = mset ?rows" by (simp add: fs)
  have "mset (fused_ids fs) = mset (fused_ids ?rows)" unfolding fused_ids_def mset_map same ..
  then have m: "mset (fused_ids fs) = mset (map fst ts)" by (simp only: ids)
  show "distinct (fused_ids fs)" using ok mset_eq_imp_distinct_iff [OF m] by (simp add: tallies_ok_def)
  show "set (fused_ids fs) = listed_ids weights channels" using mset_eq_setD [OF m] keys by simp
  show "sorted (map fuse_key fs)" by (simp add: fs)
  show "fu_score f = rrf_sum weights k channels (cn_id (fu_memory f)) / ?best + priors up qp (fu_memory f)"
    if "f \<in> set fs"
  proof -
    from that obtain i e where e: "(i, e) \<in> set ts" and f: "f = fuse_one ?best up qp e" by (auto simp: fs)
    have i: "cn_id (ta_memory e) = i" using ok e by (auto simp: tallies_ok_def)
    have "i \<in> listed_ids weights channels" using e keys by force
    from share_of_best(2) [OF k this] show ?thesis
      unfolding f fuse_one_def by (simp only: scores [OF e] i fused.simps min_absorb2)
  qed
qed

text \<open>
  The fused list holds every memory of an active channel once, ordered by descending
  score and, at equal scores, by id.
\<close>

theorem fusion_ranks_each_memory_once:
  assumes "weighted_reciprocal_rank_fusion channels weights k up qp = Inr fs"
  shows "distinct (fused_ids fs) \<and> set (fused_ids fs) = listed_ids weights channels \<and> sorted (map fuse_key fs)"
  using fused_facts [OF assms] by blast

text \<open>
  A fused score is the memory's weighted reciprocal rank sum, as a share of the best
  possible one, plus its priors: the share is positive and at most one, so the clamp in the code
  only ever absorbs rounding.
\<close>

theorem fused_score_is_rrf:
  assumes "weighted_reciprocal_rank_fusion channels weights k up qp = Inr fs" and "f \<in> set fs"
  shows "\<exists>share. share = rrf_sum weights k channels (cn_id (fu_memory f)) / (total_weight weights channels / of_int (k + 1)) \<and>
    0 < share \<and> share \<le> 1 \<and> fu_score f = share + priors up qp (fu_memory f)"
proof -
  have k: "1 \<le> k" using assms(1) by (auto simp: weighted_reciprocal_rank_fusion_def split: if_splits)
  let ?i = "cn_id (fu_memory f)" and ?best = "total_weight weights channels / of_int (k + 1)"
  have i: "?i \<in> listed_ids weights channels"
    using fused_facts(2) [OF assms(1)] assms(2) by (auto simp: fused_ids_def)
  from share_of_best [OF k i] fused_facts(4) [OF assms] show ?thesis by blast
qed

definition preferred :: "(string \<times> rat) list \<Rightarrow> (string \<times> candidate list) list \<Rightarrow> uuid \<Rightarrow> uuid \<Rightarrow> bool" where
  "preferred weights channels i j \<longleftrightarrow>
     list_all (\<lambda>c. j \<in> set (ids_of (snd c)) \<longrightarrow> i \<in> set (ids_of (snd c)) \<and> rank_in (snd c) i < rank_in (snd c) j)
       (active_channels weights channels)"

lemma share_less:
  assumes "0 < w" and "1 \<le> k" and "i \<in> set (ids_of ms)" and "rank_in ms i < rank_in ms j"
  shows "share w k ms j < share w k ms i"
proof (cases "j \<in> set (ids_of ms)")
  case True
  have "(0 :: rat) < of_int (k + int (rank_in ms i))" "(of_int (k + int (rank_in ms i)) :: rat) < of_int (k + int (rank_in ms j))"
    using assms(2,4) by (simp_all add: rank_in_def)
  with assms True show ?thesis by (simp add: share_def divide_strict_left_mono del: of_int_add)
next
  case False
  with share_bounds(3) [OF assms(1,2,3)] show ?thesis by (simp add: share_def)
qed

lemma preferred_rrf:
  assumes "1 \<le> k" and "preferred weights channels i j" and "j \<in> listed_ids weights channels"
  shows "rrf_sum weights k channels j < rrf_sum weights k channels i"
proof -
  from assms(3) obtain c where c: "c \<in> set (active_channels weights channels)" "j \<in> set (ids_of (snd c))"
    by (auto simp: listed_ids_def)
  have less: "share (channel_weight weights (fst d)) k (snd d) j < share (channel_weight weights (fst d)) k (snd d) i"
    if "d \<in> set (active_channels weights channels)" "j \<in> set (ids_of (snd d))" for d
    using that assms(1,2) weight_pos [OF that(1)] by (intro share_less) (auto simp: preferred_def list_all_iff)
  have "share (channel_weight weights (fst d)) k (snd d) j \<le> share (channel_weight weights (fst d)) k (snd d) i"
    if "d \<in> set (active_channels weights channels)" for d
    using that less [OF that] share_bounds(1) [OF weight_pos [OF that] assms(1)]
    by (cases "j \<in> set (ids_of (snd d))") (auto simp: share_def intro: less_imp_le)
  then show ?thesis unfolding rrf_sum_def
    using c less [OF c] by (intro sum_list_strict [where c = c]) blast+
qed

lemma sorted_before:
  assumes "sorted (map key fs)" and "f \<in> set fs" and "g \<in> set fs" and "key f < key g"
  shows "\<exists>xs ys zs. fs = xs @ f # ys @ g # zs"
proof -
  from assms(2) obtain xs ys where fs: "fs = xs @ f # ys" by (auto dest: split_list)
  have "g \<notin> set xs" using assms(1,4) by (auto simp: fs sorted_append)
  with assms(3,4) have "g \<in> set ys" by (auto simp: fs)
  then obtain us vs where "ys = us @ g # vs" by (auto dest: split_list)
  then show ?thesis by (auto simp: fs)
qed

text \<open>
  The channels' unanimous preference survives: if every active channel that holds the
  second memory holds the first one before it, and the first one's priors are no worse, then it
  comes first in the fused list.
\<close>

theorem unanimous_preference_survives:
  assumes "weighted_reciprocal_rank_fusion channels weights k up qp = Inr fs" and "f \<in> set fs" and "g \<in> set fs"
    and "preferred weights channels (cn_id (fu_memory f)) (cn_id (fu_memory g))"
    and "priors up qp (fu_memory g) \<le> priors up qp (fu_memory f)"
  shows "\<exists>xs ys zs. fs = xs @ f # ys @ g # zs"
proof (rule sorted_before [OF fused_facts(3) [OF assms(1)] assms(2,3)])
  have k: "1 \<le> k" using assms(1) by (auto simp: weighted_reciprocal_rank_fusion_def split: if_splits)
  have j: "cn_id (fu_memory g) \<in> listed_ids weights channels"
    using fused_facts(2) [OF assms(1)] assms(3) by (auto simp: fused_ids_def)
  have "0 < total_weight weights channels / of_int (k + 1)" using total_pos [OF j] k by simp
  with preferred_rrf [OF k assms(4) j] have "rrf_sum weights k channels (cn_id (fu_memory g)) /
      (total_weight weights channels / of_int (k + 1)) < rrf_sum weights k channels (cn_id (fu_memory f)) /
      (total_weight weights channels / of_int (k + 1))" by (rule divide_strict_right_mono)
  from add_less_le_mono [OF this assms(5)] have "fu_score g < fu_score f"
    unfolding fused_facts(4) [OF assms(1,2)] fused_facts(4) [OF assms(1,3)] .
  then show "fuse_key f < fuse_key g" by (simp add: fuse_key_def)
qed

subsection \<open>When the primary channels suffice\<close>

lemma set_fromkeys: "set (fromkeys xs) = set xs"
  by (induction xs) auto

lemma set_names: "set (names values) = {casefold s | s. Some s \<in> set values \<and> strip s \<noteq> []}"
  unfolding names_def set_fromkeys set_map set_filter by (auto intro!: image_eqI [where x = "Some s" for s])

lemma leaders_mset: "mset results = mset results' \<Longrightarrow> leaders results = leaders results'"
  unfolding leaders_def by (metis mset_map sorted_list_of_multiset_mset)

lemma present_mset: "mset results = mset results' \<Longrightarrow> present_ids results = present_ids results'"
  unfolding present_ids_def set_concat set_map using mset_eq_setD [of results results'] by simp

lemma covered_mset: "mset results = mset results' \<Longrightarrow> covered_names results = covered_names results'"
  unfolding covered_names_def set_filter using mset_eq_setD [of results results'] by simp

text \<open>
  Whether the primary channels suffice does not depend on the order in which they
  returned their results.
\<close>

theorem assessment_ignores_order:
  assumes "mset results = mset results'"
  shows "assess_primary_sufficiency results plan entity_names evidence_ids quality dominance =
    assess_primary_sufficiency results' plan entity_names evidence_ids quality dominance"
  unfolding assess_primary_sufficiency_def leaders_mset [OF assms] present_mset [OF assms]
    covered_mset [OF assms] mset_eq_length [OF assms] ..

definition plan_ids :: "query_plan option \<Rightarrow> string option list \<Rightarrow> string option list" where
  "plan_ids plan evidence_ids = (case plan of None \<Rightarrow> [] | Some p \<Rightarrow> pl_evidence_ids p) @ evidence_ids"

definition plan_entities :: "query_plan option \<Rightarrow> string option list \<Rightarrow> string option list" where
  "plan_entities plan entity_names = (case plan of None \<Rightarrow> [] | Some p \<Rightarrow> pl_entities p) @ entity_names"

lemma reason_of_ok:
  "fst (reason_of n need missing_ids missing_entities best margin quality dominance) \<longleftrightarrow>
     missing_ids = [] \<and> missing_entities = [] \<and> quality \<le> best \<and> (need \<le> int n \<or> dominance \<le> margin)"
  by (auto simp: reason_of_def)

text \<open>
  The contract of the assessment: the primary channels suffice exactly if every
  required id is present and every required entity is mentioned (both compared in lower case), the
  best score reaches the floor, and either there are as many results as the plan asks for or the
  best score leads the second by the margin.
\<close>

theorem sufficient_iff:
  "as_sufficient (assess_primary_sufficiency results plan entity_names evidence_ids quality dominance) \<longleftrightarrow>
     {casefold s | s. Some s \<in> set (plan_ids plan evidence_ids) \<and> strip s \<noteq> []} \<subseteq> present_ids results \<and>
     {casefold s | s. Some s \<in> set (plan_entities plan entity_names) \<and> strip s \<noteq> []} \<subseteq> covered_names results \<and>
     quality \<le> (case leaders results of [] \<Rightarrow> 0 | s # _ \<Rightarrow> s) \<and>
     (required_count plan \<le> int (length results) \<or>
      dominance \<le> (case leaders results of [] \<Rightarrow> 0 | [s] \<Rightarrow> s | s # s' # _ \<Rightarrow> s - s'))"
proof -
  have gap: "(case leaders results of [] \<Rightarrow> 0 | s # _ \<Rightarrow> s) - (case leaders results of _ # s # _ \<Rightarrow> s | _ \<Rightarrow> 0) =
      (case leaders results of [] \<Rightarrow> 0 | [s] \<Rightarrow> s | s # s' # _ \<Rightarrow> s - s')"
    by (simp split: list.split)
  have all: "filter (\<lambda>i. i \<notin> S) (names vs) = [] \<longleftrightarrow>
      {casefold s | s. Some s \<in> set vs \<and> strip s \<noteq> []} \<subseteq> S" for S vs
    unfolding set_names [symmetric] by (auto simp: filter_empty_conv)
  show ?thesis
    unfolding assess_primary_sufficiency_def Let_def gap
    by (simp only: case_prod_beta assessment.simps reason_of_ok all plan_ids_def plan_entities_def conj_assoc)
qed

subsection \<open>Examples\<close>

definition demo_memory :: "uuid \<Rightarrow> candidate" where
  "demo_memory i = \<lparr>cn_id = i, cn_utility = None, cn_importance = None, cn_confidence = None\<rparr>"

definition demo_channels :: "(string \<times> candidate list) list" where
  "demo_channels =
     [(''lexical'', [demo_memory 5, demo_memory 7, demo_memory 5, demo_memory 9]),
      (''dense'', [demo_memory 5, demo_memory 7]), (''off'', [demo_memory 3])]"

definition demo_weights :: "(string \<times> rat) list" where
  "demo_weights = [(''lexical'', 2), (''dense'', 2)]"

definition demo_fused :: "uuid \<Rightarrow> rat \<Rightarrow> (string \<times> nat) list \<Rightarrow> fused" where
  "demo_fused i score ranks = \<lparr>fu_memory = demo_memory i, fu_score = score, fu_ranks = ranks\<rparr>"

lemma demo_fusion:
  "weighted_reciprocal_rank_fusion demo_channels demo_weights 2 0 0 =
     Inr [demo_fused 5 1 [(''lexical'', 1), (''dense'', 1)], demo_fused 7 (3 / 4) [(''lexical'', 2), (''dense'', 2)],
          demo_fused 9 (3 / 10) [(''lexical'', 3)]]"
  by (simp add: weighted_reciprocal_rank_fusion_def demo_channels_def demo_weights_def demo_memory_def
      demo_fused_def active_def channel_weight_def add_rank_def fuse_one_def fuse_key_def priors_def or_zero_def)

theorem fusion_ranks_each_memory_once_witness:
  "listed_ids demo_weights demo_channels = {5, 7, 9}"
  using fusion_ranks_each_memory_once [OF demo_fusion] by (auto simp: fused_ids_def demo_fused_def demo_memory_def)

theorem fused_score_is_rrf_witness:
  "rrf_sum demo_weights 2 demo_channels 7 / (total_weight demo_weights demo_channels / 3) = 3 / 4"
  using fused_score_is_rrf [OF demo_fusion, of "demo_fused 7 (3 / 4) [(''lexical'', 2), (''dense'', 2)]"]
  by (simp add: demo_fused_def demo_memory_def priors_def)

theorem unanimous_preference_survives_witness:
  "preferred demo_weights demo_channels 5 7 \<and>
   (\<exists>xs ys zs. xs @ demo_fused 5 1 [(''lexical'', 1), (''dense'', 1)] # ys @
      demo_fused 7 (3 / 4) [(''lexical'', 2), (''dense'', 2)] # zs =
    [demo_fused 5 1 [(''lexical'', 1), (''dense'', 1)], demo_fused 7 (3 / 4) [(''lexical'', 2), (''dense'', 2)],
     demo_fused 9 (3 / 10) [(''lexical'', 3)]])"
proof -
  have p: "preferred demo_weights demo_channels 5 7"
    by (simp add: preferred_def active_channels_def active_def channel_weight_def demo_weights_def demo_channels_def
        ids_of_def rank_in_def demo_memory_def)
  with unanimous_preference_survives [OF demo_fusion, of "demo_fused 5 1 [(''lexical'', 1), (''dense'', 1)]"
      "demo_fused 7 (3 / 4) [(''lexical'', 2), (''dense'', 2)]"]
  have "\<exists>xs ys zs. [demo_fused 5 1 [(''lexical'', 1), (''dense'', 1)], demo_fused 7 (3 / 4) [(''lexical'', 2), (''dense'', 2)],
     demo_fused 9 (3 / 10) [(''lexical'', 3)]] = xs @ demo_fused 5 1 [(''lexical'', 1), (''dense'', 1)] # ys @
      demo_fused 7 (3 / 4) [(''lexical'', 2), (''dense'', 2)] # zs"
    by (simp add: priors_def demo_fused_def demo_memory_def)
  with p show ?thesis by metis
qed

definition demo_result :: "string \<Rightarrow> rat \<Rightarrow> found_result" where
  "demo_result i score = \<lparr>fr_score = Some score, fr_memory = Some (Some i), fr_mentions = []\<rparr>"

theorem assessment_ignores_order_witness:
  "assess_primary_sufficiency [demo_result ''a'' (1 / 2), demo_result ''b'' 1] None [] [] (9 / 20) (1 / 10) =
   assess_primary_sufficiency [demo_result ''b'' 1, demo_result ''a'' (1 / 2)] None [] [] (9 / 20) (1 / 10)"
  by (rule assessment_ignores_order) simp

text \<open>
  Required ids are lowered but the ids found are not, so an id with an upper-case letter is reported
  missing while its memory is among the results.
\<close>

theorem upper_case_evidence_is_missing:
  "as_reason (assess_primary_sufficiency [demo_result ''Ev-1'' 1] None [] [Some ''Ev-1''] 0 0) = ''missing_required_evidence'' \<and>
   as_missing (assess_primary_sufficiency [demo_result ''Ev-1'' 1] None [] [Some ''Ev-1''] 0 0) = [''ev-1'']"
proof -
  have n: "names [Some ''Ev-1''] = [''ev-1'']" "names [] = []" by code_simp+
  have p: "present_ids [demo_result ''Ev-1'' 1] = {''Ev-1''}" by (simp add: present_ids_def demo_result_def)
  show ?thesis by (simp add: assess_primary_sufficiency_def n p reason_of_def Let_def)
qed

end
