(* ===== verification/Py_Date.thy ===== *)
theory Py_Date
  imports Py_Text
begin

section \<open>Dates\<close>

text \<open>
  Python's \<open>datetime.date\<close>: the proleptic Gregorian calendar from year 1 to 9999.  Arithmetic goes
  through the ordinal, day 1 being the first of January of year 1; what is out of range raises
  (\<open>None\<close>).  Ordinals and dates correspond (\<open>from_ordinal_ordinal\<close>, \<open>ordinal_from_ordinal\<close>), and the
  order of dates is that of their ordinals.
\<close>

record date =
  dt_year :: int
  dt_month :: int
  dt_day :: int

definition leap :: "int \<Rightarrow> bool" where
  "leap y \<longleftrightarrow> y mod 4 = 0 \<and> (y mod 100 \<noteq> 0 \<or> y mod 400 = 0)"

definition month_days :: "int \<Rightarrow> int \<Rightarrow> int" where
  "month_days y m =
     (if m = 2 then if leap y then 29 else 28
      else if m = 4 \<or> m = 6 \<or> m = 9 \<or> m = 11 then 30 else 31)"

definition valid_date :: "date \<Rightarrow> bool" where
  "valid_date d \<longleftrightarrow> 1 \<le> dt_year d \<and> dt_year d \<le> 9999 \<and> 1 \<le> dt_month d \<and> dt_month d \<le> 12 \<and>
     1 \<le> dt_day d \<and> dt_day d \<le> month_days (dt_year d) (dt_month d)"

definition mk_date :: "int \<Rightarrow> int \<Rightarrow> int \<Rightarrow> date option" where
  "mk_date y m d =
     (let r = \<lparr>dt_year = y, dt_month = m, dt_day = d\<rparr> in if valid_date r then Some r else None)"

definition year_days :: "int \<Rightarrow> int" where
  "year_days y = (if leap y then 366 else 365)"

definition before_year :: "int \<Rightarrow> int" where
  "before_year y = (y - 1) * 365 + (y - 1) div 4 - (y - 1) div 100 + (y - 1) div 400"

definition before_month :: "int \<Rightarrow> int \<Rightarrow> int" where
  "before_month y m = sum_list (map (month_days y) [1..m - 1])"

definition ordinal :: "date \<Rightarrow> int" where
  "ordinal d = before_year (dt_year d) + before_month (dt_year d) (dt_month d) + dt_day d"

text \<open>The month and the day of the \<open>n\<close>th day of a year, and the year of a day.\<close>

function month_of :: "int \<Rightarrow> int \<Rightarrow> int \<Rightarrow> int \<times> int" where
  "month_of y m n = (if n \<le> month_days y m \<or> 12 \<le> m then (m, n) else month_of y (m + 1) (n - month_days y m))"
  by pat_completeness auto
termination by (relation "measure (\<lambda>(y, m, n). nat (12 - m))") auto

function year_of :: "int \<Rightarrow> int \<Rightarrow> int \<times> int" where
  "year_of y n = (if n \<le> year_days y then (y, n) else year_of (y + 1) (n - year_days y))"
  by pat_completeness auto
termination by (relation "measure (\<lambda>(y, n). nat n)") (auto simp: year_days_def split: if_splits)

declare month_of.simps [simp del] year_of.simps [simp del]

definition max_ordinal :: int where
  "max_ordinal = 3652059"

definition from_ordinal :: "int \<Rightarrow> date option" where
  "from_ordinal n =
     (if n < 1 \<or> max_ordinal < n then None
      else
        let y0 = (n - 1) div 366 + 1;
            (y, k) = year_of y0 (n - before_year y0);
            (m, d) = month_of y 1 k
        in Some \<lparr>dt_year = y, dt_month = m, dt_day = d\<rparr>)"

text \<open>\<open>d + timedelta(days=k)\<close>, \<open>d.weekday()\<close> (Monday is 0) and \<open>d.replace(day=1)\<close>.\<close>

definition add_days :: "date \<Rightarrow> int \<Rightarrow> date option" where
  "add_days d k = from_ordinal (ordinal d + k)"

definition weekday :: "date \<Rightarrow> int" where
  "weekday d = (ordinal d + 6) mod 7"

definition first_of_month :: "date \<Rightarrow> date" where
  "first_of_month d = d\<lparr>dt_day := 1\<rparr>"

subsection \<open>Years and months add up\<close>

lemma month_days_range: "28 \<le> month_days y m" "month_days y m \<le> 31"
  by (simp_all add: month_days_def)

lemma div_step:
  fixes y k :: int
  assumes "1 < k"
  shows "y div k = (y - 1) div k + (if y mod k = 0 then 1 else 0)"
proof -
  define q r where "q = (y - 1) div k" and "r = (y - 1) mod k"
  have "k * q + r = y - 1" unfolding q_def r_def by (rule mult_div_mod_eq)
  then have y: "y = k * q + (r + 1)" by simp
  have r: "0 \<le> r" "r < k" using assms by (simp_all add: r_def)
  show ?thesis
  proof (cases "r + 1 = k")
    case True
    with y have "y = k * (q + 1)" by (simp add: algebra_simps)
    then have "y div k = q + 1" "y mod k = 0" using assms by simp_all
    then show ?thesis by (simp flip: q_def)
  next
    case False
    then have "y div k = q" "y mod k = r + 1"
      using y r by (auto intro: int_div_pos_eq int_mod_pos_eq)
    then show ?thesis using r by (simp flip: q_def)
  qed
qed

lemma before_year_Suc: "before_year (y + 1) = before_year y + year_days y"
proof -
  have "y mod 100 = 0" if "y mod 400 = 0"
    using that dvd_trans [of 100 400 y] by (simp add: mod_eq_0_iff_dvd)
  moreover have "y mod 4 = 0" if "y mod 100 = 0"
    using that dvd_trans [of 4 100 y] by (simp add: mod_eq_0_iff_dvd)
  ultimately have days: "year_days y = 365 + (if y mod 4 = 0 then 1 else 0) - (if y mod 100 = 0 then 1 else 0) +
      (if y mod 400 = 0 then 1 else 0)"
    unfolding year_days_def leap_def
    by (cases "y mod 4 = 0"; cases "y mod 100 = 0"; cases "y mod 400 = 0"; simp only: if_True if_False simp_thms)
  have next_year: "before_year (y + 1) = y * 365 + y div 4 - y div 100 + y div 400"
    unfolding before_year_def add_diff_cancel_right' ..
  have sums: "y * 365 + a - b + c = (y - 1) * 365 + a' - b' + c' + (365 + p - q + r)"
    if "a = a' + p" "b = b' + q" "c = c' + r" for a b c a' b' c' p q r :: int
    using that by simp
  show ?thesis unfolding next_year days unfolding before_year_def
    by (rule sums; rule div_step; simp)
qed

lemma before_month_Suc: "1 \<le> m \<Longrightarrow> before_month y (m + 1) = before_month y m + month_days y m"
  by (simp add: before_month_def upto_rec2)

lemma before_month_1 [simp]: "before_month y 1 = 0"
  by (simp add: before_month_def)

lemma before_month_13: "before_month y 13 = year_days y"
  by (simp add: before_month_def upto.simps month_days_def year_days_def)

lemma year_days_pos: "0 < year_days y" "year_days y \<le> 366"
  by (simp_all add: year_days_def)

lemma before_year_mono: "y \<le> y' \<Longrightarrow> before_year y \<le> before_year y'"
proof (induction y' rule: int_ge_induct)
  case (step y')
  with before_year_Suc [of y'] year_days_pos [of y'] show ?case by simp
qed simp

lemma before_month_mono: "m \<le> m' \<Longrightarrow> 1 \<le> m \<Longrightarrow> before_month y m \<le> before_month y m'"
proof (induction m' rule: int_ge_induct)
  case (step m')
  with before_month_Suc [of m' y] month_days_range [of y m'] show ?case by simp
qed simp

subsection \<open>Ordinals and dates\<close>

lemma year_of_eq:
  "1 \<le> n \<Longrightarrow> year_of y n = (y', k) \<Longrightarrow> before_year y' + k = before_year y + n \<and> 1 \<le> k \<and> k \<le> year_days y' \<and> y \<le> y'"
proof (induction y n rule: year_of.induct)
  case (1 y n)
  show ?case
  proof (cases "n \<le> year_days y")
    case True
    with 1 show ?thesis by (simp add: year_of.simps [of y n])
  next
    case False
    with 1 before_year_Suc [of y] show ?thesis by (simp add: year_of.simps [of y n])
  qed
qed

lemma month_of_eq:
  "1 \<le> n \<Longrightarrow> 1 \<le> m \<Longrightarrow> m \<le> 12 \<Longrightarrow> before_month y m + n \<le> year_days y \<Longrightarrow> month_of y m n = (m', k) \<Longrightarrow>
   before_month y m' + k = before_month y m + n \<and> 1 \<le> k \<and> k \<le> month_days y m' \<and> 1 \<le> m' \<and> m' \<le> 12"
proof (induction y m n rule: month_of.induct)
  case (1 y m n)
  show ?case
  proof (cases "n \<le> month_days y m \<or> 12 \<le> m")
    case True
    then have "m' = m" "k = n" using "1.prems"(5) by (simp_all add: month_of.simps [of y m n])
    moreover have "n \<le> month_days y m" if "m = 12"
      using that "1.prems"(4) before_month_Suc [of 12 y] before_month_13 [of y] by simp
    ultimately show ?thesis using True "1.prems" by auto
  next
    case False
    have "month_of y (m + 1) (n - month_days y m) = (m', k)"
      using "1.prems"(5) False by (simp add: month_of.simps [of y m n])
    moreover have "before_month y (m + 1) + (n - month_days y m) = before_month y m + n"
      using before_month_Suc [OF "1.prems"(2)] by simp
    ultimately show ?thesis using "1.IH" [OF False] "1.prems" False by simp
  qed
qed

lemma ordinal_bounds:
  assumes "valid_date d"
  shows "before_year (dt_year d) < ordinal d" and "ordinal d \<le> before_year (dt_year d + 1)"
proof -
  have m: "1 \<le> dt_month d" "dt_month d \<le> 12" "1 \<le> dt_day d" "dt_day d \<le> month_days (dt_year d) (dt_month d)"
    using assms by (simp_all add: valid_date_def)
  show "before_year (dt_year d) < ordinal d"
    using before_month_mono [of 1 "dt_month d" "dt_year d"] m by (simp add: ordinal_def)
  have "before_month (dt_year d) (dt_month d) + dt_day d \<le> before_month (dt_year d) (dt_month d + 1)"
    using before_month_Suc [OF m(1)] m(4) by simp
  also have "\<dots> \<le> before_month (dt_year d) 13" using m by (intro before_month_mono) auto
  finally show "ordinal d \<le> before_year (dt_year d + 1)"
    by (simp add: ordinal_def before_year_Suc before_month_13)
qed

definition date_key :: "date \<Rightarrow> int \<times> int \<times> int" where
  "date_key d = (dt_year d, dt_month d, dt_day d)"

definition earlier :: "date \<Rightarrow> date \<Rightarrow> bool" where
  "earlier d e \<longleftrightarrow> dt_year d < dt_year e \<or> (dt_year d = dt_year e \<and>
     (dt_month d < dt_month e \<or> (dt_month d = dt_month e \<and> dt_day d < dt_day e)))"

lemma earlier_ordinal:
  assumes "valid_date d" and "valid_date e" and "earlier d e"
  shows "ordinal d < ordinal e"
proof (cases "dt_year d = dt_year e")
  case True
  show ?thesis
  proof (cases "dt_month d = dt_month e")
    case True
    with \<open>dt_year d = dt_year e\<close> assms(3) show ?thesis by (simp add: earlier_def ordinal_def)
  next
    case False
    with True assms(3) have "dt_month d + 1 \<le> dt_month e" by (simp add: earlier_def)
    moreover have d: "1 \<le> dt_month d" "dt_day d \<le> month_days (dt_year d) (dt_month d)" "1 \<le> dt_day e"
      using assms by (simp_all add: valid_date_def)
    ultimately have "before_month (dt_year d) (dt_month d + 1) \<le> before_month (dt_year d) (dt_month e)"
      by (intro before_month_mono) auto
    with d True before_month_Suc [OF d(1), of "dt_year d"] show ?thesis by (simp add: ordinal_def)
  qed
next
  case False
  then have "dt_year d + 1 \<le> dt_year e" using assms(3) by (simp add: earlier_def)
  then have "before_year (dt_year d + 1) \<le> before_year (dt_year e)" by (rule before_year_mono)
  with ordinal_bounds [OF assms(1)] ordinal_bounds [OF assms(2)] show ?thesis by simp
qed

lemma date_trichotomy: "d = e \<or> earlier d e \<or> earlier e d" for d e :: date
  by (cases d; cases e) (auto simp: earlier_def)

lemma ordinal_eq: "valid_date d \<Longrightarrow> valid_date e \<Longrightarrow> ordinal d = ordinal e \<longleftrightarrow> d = e"
  using date_trichotomy [of d e] earlier_ordinal [of d e] earlier_ordinal [of e d] by auto

lemma ordinal_less: "valid_date d \<Longrightarrow> valid_date e \<Longrightarrow> ordinal d < ordinal e \<longleftrightarrow> earlier d e"
  using date_trichotomy [of d e] earlier_ordinal [of d e] earlier_ordinal [of e d] by auto

lemma ordinal_range: "valid_date d \<Longrightarrow> 1 \<le> ordinal d \<and> ordinal d \<le> max_ordinal"
proof -
  assume d: "valid_date d"
  have "before_year 1 \<le> before_year (dt_year d)" "before_year (dt_year d + 1) \<le> before_year 10000"
    using d by (auto simp: valid_date_def intro: before_year_mono)
  moreover have "before_year 1 = 0" "before_year 10000 = max_ordinal" by (simp_all add: before_year_def max_ordinal_def)
  ultimately show ?thesis using ordinal_bounds [OF d] by simp
qed

lemma ordinal_from_ordinal:
  assumes "1 \<le> n" and "n \<le> max_ordinal"
  obtains d where "from_ordinal n = Some d" "valid_date d" "ordinal d = n"
proof -
  define y0 where "y0 = (n - 1) div 366 + 1"
  have y0: "1 \<le> y0" using assms(1) by (simp add: y0_def)
  have "before_year y0 < n"
  proof -
    define q where "q = (n - 1) div 366"
    have q: "0 \<le> q" "366 * q \<le> n - 1" using assms(1) by (simp_all add: q_def)
    have "q div 4 - q div 100 + q div 400 \<le> q" using q(1) by simp
    then have "before_year y0 \<le> 366 * q" by (simp add: before_year_def y0_def flip: q_def)
    with q show ?thesis by simp
  qed
  then have pos: "1 \<le> n - before_year y0" by simp
  obtain y k where y: "year_of y0 (n - before_year y0) = (y, k)" by (cases "year_of y0 (n - before_year y0)")
  from year_of_eq [OF pos y] have k: "before_year y + k = n" "1 \<le> k" "k \<le> year_days y" "y0 \<le> y" by simp_all
  obtain m d where m: "month_of y 1 k = (m, d)" by (cases "month_of y 1 k")
  from month_of_eq [OF k(2) _ _ _ m] k(3)
  have md: "before_month y m + d = k" "1 \<le> d" "d \<le> month_days y m" "1 \<le> m" "m \<le> 12" by simp_all
  have "y \<le> 9999"
  proof (rule ccontr)
    assume "\<not> y \<le> 9999"
    then have "before_year 10000 \<le> before_year y" by (intro before_year_mono) simp
    with k assms(2) show False by (simp add: before_year_def max_ordinal_def)
  qed
  with k md y0 have "valid_date \<lparr>dt_year = y, dt_month = m, dt_day = d\<rparr>" by (simp add: valid_date_def)
  moreover have "from_ordinal n = Some \<lparr>dt_year = y, dt_month = m, dt_day = d\<rparr>"
    using assms y m by (simp add: from_ordinal_def Let_def flip: y0_def)
  moreover have "ordinal \<lparr>dt_year = y, dt_month = m, dt_day = d\<rparr> = n" using k md by (simp add: ordinal_def)
  ultimately show thesis using that by blast
qed

lemma from_ordinal_iff: "from_ordinal n = Some d \<longleftrightarrow> valid_date d \<and> ordinal d = n"
proof
  assume d: "from_ordinal n = Some d"
  then have "1 \<le> n" "n \<le> max_ordinal" by (auto simp: from_ordinal_def split: if_splits)
  then obtain e where "from_ordinal n = Some e" "valid_date e" "ordinal e = n" by (rule ordinal_from_ordinal)
  with d show "valid_date d \<and> ordinal d = n" by simp
next
  assume d: "valid_date d \<and> ordinal d = n"
  with ordinal_range [of d] obtain e where "from_ordinal n = Some e" "valid_date e" "ordinal e = n"
    using ordinal_from_ordinal [of n] by blast
  with d ordinal_eq [of d e] show "from_ordinal n = Some d" by simp
qed

lemma add_days_iff: "add_days d k = Some e \<longleftrightarrow> valid_date e \<and> ordinal e = ordinal d + k"
  by (simp add: add_days_def from_ordinal_iff)

lemma add_days_None: "add_days d k = None \<longleftrightarrow> ordinal d + k < 1 \<or> max_ordinal < ordinal d + k"
proof -
  have "add_days d k \<noteq> None" if "1 \<le> ordinal d + k" "ordinal d + k \<le> max_ordinal"
    using ordinal_from_ordinal [OF that] by (auto simp: add_days_def)
  moreover have "add_days d k = None" if "ordinal d + k < 1 \<or> max_ordinal < ordinal d + k"
    using that by (simp add: add_days_def from_ordinal_def)
  ultimately show ?thesis by (cases "ordinal d + k < 1 \<or> max_ordinal < ordinal d + k") auto
qed

lemma mk_date_iff: "mk_date y m d = Some e \<longleftrightarrow> valid_date e \<and> e = \<lparr>dt_year = y, dt_month = m, dt_day = d\<rparr>"
  by (auto simp: mk_date_def Let_def)

lemma weekday_range: "0 \<le> weekday d \<and> weekday d < 7"
  by (simp add: weekday_def)

end
