(* ===== verification/Temporal_Dates.thy ===== *)
theory Temporal_Dates
  imports Py_Date
begin

section \<open>The calendar arithmetic of temporal grounding\<close>

text \<open>
  The functions of \<open>contexta/core/temporal.py\<close> that turn the parts of a recognised expression into
  dates: shifting by units, the bounds of a period, the weekday meant by ``last Friday''.  The
  reference is the local date of the message.  \<open>None\<close> is the \<open>ValueError\<close> or \<open>OverflowError\<close> the
  date operation raises.
\<close>

subsection \<open>Shifting\<close>

definition month_index :: "date \<Rightarrow> int" where
  "month_index d = dt_year d * 12 + dt_month d - 1"

definition add_months :: "date \<Rightarrow> int \<Rightarrow> date option" where
  "add_months d months =
     (let i = month_index d + months; y = i div 12; m = i mod 12 + 1
      in mk_date y m (min (dt_day d) (month_days y m)))"

definition shift_date :: "date \<Rightarrow> int \<Rightarrow> string \<Rightarrow> date option" where
  "shift_date d amount unit =
     (if unit = ''day'' then add_days d amount
      else if unit = ''week'' then add_days d (7 * amount)
      else if unit = ''month'' then add_months d amount
      else if unit = ''year'' then add_months d (amount * 12)
      else None)"

subsection \<open>Periods\<close>

type_synonym bounds = "date \<times> date \<times> string"

text \<open>The first day, the last day as a function of the first, and the precision.\<close>

definition ending :: "(date \<Rightarrow> date option) \<Rightarrow> string \<Rightarrow> date option \<Rightarrow> bounds option" where
  "ending last_day precision start =
     Option.bind start (\<lambda>s. map_option (\<lambda>e. (s, e, precision)) (last_day s))"

definition week_end :: "date \<Rightarrow> date option" where
  "week_end s = add_days s 6"

definition months_end :: "int \<Rightarrow> date \<Rightarrow> date option" where
  "months_end n s = Option.bind (add_months s n) (\<lambda>e. add_days e (-1))"

definition year_end :: "date \<Rightarrow> date option" where
  "year_end s = mk_date (dt_year s) 12 31"

definition week_start :: "date \<Rightarrow> date option" where
  "week_start d = add_days d (- weekday d)"

definition period_bounds :: "date \<Rightarrow> string \<Rightarrow> int \<Rightarrow> bounds option" where
  "period_bounds d unit offset =
     (if unit = ''week'' then ending week_end ''week'' (Option.bind (week_start d) (\<lambda>s. add_days s (7 * offset)))
      else if unit = ''month'' then ending (months_end 1) ''month'' (add_months (first_of_month d) offset)
      else if unit = ''year'' then ending year_end ''year'' (mk_date (dt_year d + offset) 1 1)
      else None)"

definition quarter_bounds :: "int \<Rightarrow> int \<Rightarrow> (date \<times> date) option" where
  "quarter_bounds year quarter =
     map_option (\<lambda>(s, e, _). (s, e))
       (ending (months_end 3) ''quarter'' (mk_date year (3 * max 1 (min 4 quarter) - 2) 1))"

definition direction_offset :: "string \<Rightarrow> int" where
  "direction_offset direction =
     (if direction = ''last'' \<or> direction = ''previous'' then -1
      else if direction \<in> {''next'', ''following'', ''upcoming'', ''coming''} then 1
      else 0)"

definition extended_period_bounds :: "date \<Rightarrow> string \<Rightarrow> string \<Rightarrow> bounds option" where
  "extended_period_bounds d unit direction =
     (let offset = direction_offset direction in
      if unit = ''week'' then ending week_end ''week'' (Option.bind (week_start d) (\<lambda>s. add_days s (7 * offset)))
      else if unit = ''month'' then ending (months_end 1) ''month'' (add_months (first_of_month d) offset)
      else if unit = ''quarter'' then
        ending (months_end 3) ''quarter'' (add_months (first_of_month d) (((dt_month d - 1) div 3 + offset) * 3))
      else if unit = ''year'' then ending year_end ''year'' (mk_date (dt_year d + offset) 1 1)
      else None)"

text \<open>\<open>week of\<close>, \<open>month of\<close> and \<open>quarter of\<close> a target date.\<close>

definition bounds_around :: "string \<Rightarrow> date \<Rightarrow> bounds option" where
  "bounds_around unit d =
     (if unit = ''week'' then ending week_end ''week'' (week_start d)
      else if unit = ''month'' then ending (months_end 1) ''month'' (Some (first_of_month d))
      else ending (months_end 3) ''quarter'' (add_months (first_of_month d) ((dt_month d - 1) div 3 * 3)))"

definition weekend_bounds :: "date \<Rightarrow> string \<Rightarrow> (date \<times> date) option" where
  "weekend_bounds d direction =
     Option.bind (add_days d (- (weekday d + (if weekday d < 5 then 2 else 0)))) (\<lambda>s.
     Option.bind
       (if direction = ''last'' \<or> direction = ''previous'' then add_days s (-7)
        else if direction \<in> {''next'', ''following'', ''upcoming'', ''coming''}
        then add_days s (if weekday d < 5 then 7 else 0)
        else Some s) (\<lambda>s.
     map_option (\<lambda>e. (s, e)) (add_days s 1)))"

text \<open>The week before or after a period.\<close>

definition week_beside :: "date \<Rightarrow> string \<Rightarrow> string \<Rightarrow> string \<Rightarrow> bounds option" where
  "week_beside d side direction unit =
     Option.bind (extended_period_bounds d unit direction) (\<lambda>(s, e, _).
       ending week_end ''week'' (if side = ''before'' then add_days s (-7) else add_days e 1))"

subsection \<open>Weekdays\<close>

definition days_since_weekday :: "date \<Rightarrow> int \<Rightarrow> int" where
  "days_since_weekday d w = (let n = (weekday d - w) mod 7 in if n = 0 then 7 else n)"

definition weekday_target :: "date \<Rightarrow> string \<Rightarrow> int \<Rightarrow> date option" where
  "weekday_target d direction w =
     Option.bind (week_start d) (\<lambda>current_week.
       if direction = ''last'' \<or> direction = ''previous'' then add_days d (- days_since_weekday d w)
       else if direction = ''this'' then add_days current_week w
       else add_days current_week (7 + w))"

definition coming_weekday :: "date \<Rightarrow> int \<Rightarrow> date option" where
  "coming_weekday d w = add_days d ((w - weekday d) mod 7)"

subsection \<open>Months\<close>

lemma add_months_fields:
  assumes "valid_date d" and "add_months d k = Some e"
  shows "valid_date e" "month_index e = month_index d + k" "dt_day e = min (dt_day d) (month_days (dt_year e) (dt_month e))"
proof -
  define i where "i = month_index d + k"
  have e: "valid_date e" "e = \<lparr>dt_year = i div 12, dt_month = i mod 12 + 1,
      dt_day = min (dt_day d) (month_days (i div 12) (i mod 12 + 1))\<rparr>"
    using assms(2) unfolding add_months_def Let_def mk_date_iff i_def [symmetric] by blast+
  have "i div 12 * 12 + i mod 12 = i" by (rule div_mult_mod_eq)
  then have "month_index e = i" by (simp add: e(2) month_index_def)
  with e show "valid_date e" "month_index e = month_index d + k"
      "dt_day e = min (dt_day d) (month_days (dt_year e) (dt_month e))" by (simp_all add: i_def)
qed

lemma add_months_Some:
  assumes "valid_date d" and "12 \<le> month_index d + k" and "month_index d + k < 120000"
  shows "add_months d k \<noteq> None"
proof -
  let ?i = "month_index d + k"
  have "1 \<le> ?i div 12" "?i div 12 \<le> 9999" using assms(2,3) by linarith+
  moreover have "1 \<le> dt_day d" using assms(1) by (simp add: valid_date_def)
  ultimately have "valid_date \<lparr>dt_year = ?i div 12, dt_month = ?i mod 12 + 1,
      dt_day = min (dt_day d) (month_days (?i div 12) (?i mod 12 + 1))\<rparr>"
    using month_days_range [of "?i div 12" "?i mod 12 + 1"] by (auto simp: valid_date_def)
  then show ?thesis by (simp add: add_months_def mk_date_def Let_def)
qed

lemma month_index_inj:
  assumes "valid_date d" and "valid_date e" and "month_index d = month_index e"
  shows "dt_year d = dt_year e" "dt_month d = dt_month e"
proof -
  have "1 \<le> dt_month d" "dt_month d \<le> 12" "1 \<le> dt_month e" "dt_month e \<le> 12"
    using assms(1,2) by (simp_all add: valid_date_def)
  with assms(3) show "dt_year d = dt_year e" "dt_month d = dt_month e" unfolding month_index_def by presburger+
qed

lemma month_index_range: "valid_date d \<Longrightarrow> 12 \<le> month_index d \<and> month_index d < 120000"
  by (simp add: valid_date_def month_index_def)

lemma dt_eqI: "dt_year d = dt_year e \<Longrightarrow> dt_month d = dt_month e \<Longrightarrow> dt_day d = dt_day e \<Longrightarrow> d = (e :: date)"
  by (cases d; cases e) simp

text \<open>Days up to the 28th survive any number of months.\<close>

lemma add_months_back:
  assumes "valid_date d" and "dt_day d \<le> 28" and "add_months d k = Some e"
  shows "add_months e (- k) = Some d"
proof -
  note e = add_months_fields [OF assms(1,3)]
  have "add_months e (- k) \<noteq> None"
    using e month_index_range [OF assms(1)] by (intro add_months_Some) auto
  then obtain f where f: "add_months e (- k) = Some f" by blast
  note g = add_months_fields [OF e(1) f]
  have i: "month_index f = month_index d" using g(2) e(2) by simp
  have "dt_day e = dt_day d" using e(3) assms(2) month_days_range [of "dt_year e" "dt_month e"] by simp
  then have "dt_day f = dt_day d" using g(3) assms(2) month_days_range [of "dt_year f" "dt_month f"] by simp
  with month_index_inj [OF g(1) assms(1) i] have "f = d" by (intro dt_eqI)
  with f show ?thesis by simp
qed

lemma valid_first: "valid_date d \<Longrightarrow> valid_date (first_of_month d)"
  using month_days_range [of "dt_year d" "dt_month d"] by (auto simp: first_of_month_def valid_date_def)

lemma first_fields [simp]: "dt_year (first_of_month d) = dt_year d" "dt_month (first_of_month d) = dt_month d"
    "dt_day (first_of_month d) = 1" "month_index (first_of_month d) = month_index d"
  by (simp_all add: first_of_month_def month_index_def)

lemma add_months_first_day: "valid_date d \<Longrightarrow> dt_day d = 1 \<Longrightarrow> add_months d k = Some e \<Longrightarrow> dt_day e = 1"
  using add_months_fields [of d k e] month_days_range [of "dt_year e" "dt_month e"] by simp

lemma add_months_add:
  assumes "valid_date d" and "dt_day d = 1" and "add_months d j = Some e" and "add_months e k = Some f"
  shows "add_months d (j + k) = Some f"
proof -
  note e = add_months_fields [OF assms(1,3)] and e1 = add_months_first_day [OF assms(1,2,3)]
  note f = add_months_fields [OF e(1) assms(4)] and f1 = add_months_first_day [OF e(1) e1 assms(4)]
  have "add_months d (j + k) \<noteq> None"
    using f e month_index_range [OF f(1)] by (intro add_months_Some [OF assms(1)]) auto
  then obtain g where g: "add_months d (j + k) = Some g" by blast
  note h = add_months_fields [OF assms(1) g]
  have "month_index g = month_index f" using h(2) e(2) f(2) by simp
  from month_index_inj [OF h(1) f(1) this] add_months_first_day [OF assms(1,2) g] f1 have "g = f" by (intro dt_eqI) auto
  with g show ?thesis by simp
qed

lemma next_month_ordinal:
  assumes "valid_date d" and "dt_day d = 1" and "add_months d 1 = Some e"
  shows "ordinal e = ordinal d + month_days (dt_year d) (dt_month d)"
proof -
  note e = add_months_fields [OF assms(1,3)] and e1 = add_months_first_day [OF assms]
  have m: "1 \<le> dt_month d" "dt_month d \<le> 12" using assms(1) by (simp_all add: valid_date_def)
  have e_month: "1 \<le> dt_month e" "dt_month e \<le> 12" using e(1) by (simp_all add: valid_date_def)
  show ?thesis
  proof (cases "dt_month d = 12")
    case True
    then have "dt_year e = dt_year d + 1" "dt_month e = 1"
      using e(2) e_month m unfolding month_index_def by presburger+
    with True e1 assms(2) before_month_Suc [of 12 "dt_year d"] before_month_13 [of "dt_year d"] show ?thesis
      by (simp add: ordinal_def before_year_Suc)
  next
    case False
    then have "dt_year e = dt_year d" "dt_month e = dt_month d + 1"
      using e(2) e_month m unfolding month_index_def by presburger+
    with e1 assms(2) before_month_Suc [OF m(1), of "dt_year d"] show ?thesis by (simp add: ordinal_def)
  qed
qed

end
