(* ===== verification/Temporal_Match.thy ===== *)
theory Temporal_Match
  imports Temporal_Dates Py_Regex
begin

section \<open>Recognising temporal expressions\<close>

text \<open>
  The first recogniser of \<open>contexta/core/temporal.py\<close>, \<open>_resolve_match\<close> with \<open>_EXPRESSION_RE\<close>, and the
  parser of absolute dates.  A date stands for its midnight in the caller's time zone, which the code
  carries along and never looks at here; the reference is the local date of the message.  A date
  operation that raises ends the call (\<open>DateError\<close>), but where the code catches it.  The fallback of
  \<open>week before\<close> expressions, \<open>_resolve_extra_expression\<close>, is the argument \<open>extra\<close>.
\<close>

subsection \<open>Tables\<close>

definition weekdays :: "string list" where
  "weekdays = [''monday'', ''tuesday'', ''wednesday'', ''thursday'', ''friday'', ''saturday'', ''sunday'']"

definition months :: "(string \<times> int) list" where
  "months =
     [(''january'', 1), (''jan'', 1), (''february'', 2), (''feb'', 2), (''march'', 3), (''mar'', 3),
      (''april'', 4), (''apr'', 4), (''may'', 5), (''june'', 6), (''jun'', 6), (''july'', 7), (''jul'', 7),
      (''august'', 8), (''aug'', 8), (''september'', 9), (''sept'', 9), (''sep'', 9), (''october'', 10),
      (''oct'', 10), (''november'', 11), (''nov'', 11), (''december'', 12), (''dec'', 12)]"

definition number_words :: "(string \<times> int) list" where
  "number_words =
     [(''a'', 1), (''an'', 1), (''one'', 1), (''two'', 2), (''three'', 3), (''four'', 4), (''five'', 5),
      (''six'', 6), (''seven'', 7), (''eight'', 8), (''nine'', 9), (''ten'', 10), (''eleven'', 11),
      (''twelve'', 12), (''thirteen'', 13), (''fourteen'', 14), (''fifteen'', 15), (''sixteen'', 16),
      (''seventeen'', 17), (''eighteen'', 18), (''nineteen'', 19), (''twenty'', 20), (''thirty'', 30),
      (''forty'', 40), (''fifty'', 50), (''a couple'', 2), (''a couple of'', 2), (''couple'', 2),
      (''couple of'', 2), (''a few'', 3), (''few'', 3), (''several'', 3)]"

definition int_of :: "string \<Rightarrow> int" where
  "int_of s = foldl (\<lambda>n c. 10 * n + int (digit_val c)) 0 s"

subsection \<open>Patterns\<close>

definition decimal_re :: regex where "decimal_re = Cls is_decimal"
definition blanks_re :: regex where "blanks_re = plus (Cls is_space)"
definition words_re :: "string list \<Rightarrow> regex" where "words_re ws = alts (map ilit ws)"

definition month_name_re :: regex where
  "month_name_re = words_re (map fst months)"

definition day_suffix_re :: regex where
  "day_suffix_re = words_re [''st'', ''nd'', ''rd'', ''th'']"

definition day_re :: regex where
  "day_re = Seq (Rep 1 (Some 2) decimal_re) (opt day_suffix_re)"

definition four_digits_re :: regex where
  "four_digits_re = times 4 decimal_re"

definition iso_day_re :: regex where
  "iso_day_re = seqs [four_digits_re, chr (CHR ''-''), times 2 decimal_re, chr (CHR ''-''), times 2 decimal_re]"

definition slash_date_re :: regex where
  "slash_date_re = seqs [four_digits_re, chr (CHR ''/''), Rep 1 (Some 2) decimal_re, chr (CHR ''/''), Rep 1 (Some 2) decimal_re]"

definition comma_re :: regex where
  "comma_re = opt (chr (CHR '',''))"

definition natural_date_re :: regex where
  "natural_date_re = alts
     [seqs [day_re, blanks_re, month_name_re, comma_re, blanks_re, four_digits_re],
      seqs [month_name_re, blanks_re, day_re, comma_re, blanks_re, four_digits_re],
      seqs [month_name_re, star (Cls is_space), comma_re, star (Cls is_space), four_digits_re]]"

definition weekday_re :: regex where
  "weekday_re = words_re weekdays"

definition count_re :: regex where
  "count_re = alts [plus decimal_re, words_re [''a'', ''an'', ''one'', ''two'', ''three'', ''four'', ''five'',
     ''six'', ''seven'', ''eight'', ''nine'', ''ten'', ''eleven'', ''twelve'']]"

definition direction_re :: regex where
  "direction_re = words_re [''last'', ''this'', ''next'']"

definition unit_re :: regex where
  "unit_re = words_re [''day'', ''week'', ''month'', ''year'']"

definition week_before_target_re :: regex where
  "week_before_target_re = alts
     [natural_date_re, iso_day_re, slash_date_re, seqs [ilit ''in'', blanks_re, four_digits_re], four_digits_re,
      words_re [''yesterday'', ''today'', ''tomorrow''],
      seqs [direction_re, blanks_re, alts [words_re [''week'', ''month'', ''year''], weekday_re]],
      seqs [count_re, blanks_re, unit_re, opt (ilit ''s''), blanks_re, ilit ''ago''],
      weekday_re]"

text \<open>
  \<open>_EXPRESSION_RE\<close>; its groups are 1 \<open>week_before\<close>, 2 \<open>day_word\<close>, 3 \<open>period_direction\<close>, 4 \<open>period_unit\<close>,
  5 \<open>weekday_direction\<close>, 6 \<open>weekday_name\<close>, 7 \<open>ago_count\<close>, 8 \<open>ago_unit\<close>, 9 \<open>weekday_only\<close>,
  10 \<open>explicit_date\<close>, 11 \<open>explicit_slash_date\<close>, 12 \<open>natural_date\<close>, 13 \<open>year_only\<close>.
\<close>

definition bounded_re :: "regex \<Rightarrow> regex" where
  "bounded_re r = seqs [WordB, r, WordB]"

definition expression_re :: regex where
  "expression_re = alts
     [bounded_re (Grp 1 (seqs [ilit ''week'', blanks_re, ilit ''before'', blanks_re, week_before_target_re])),
      bounded_re (Grp 2 (words_re [''yesterday'', ''today'', ''tomorrow''])),
      bounded_re (seqs [Grp 3 direction_re, blanks_re, Grp 4 (words_re [''week'', ''month'', ''year''])]),
      bounded_re (seqs [Grp 5 direction_re, blanks_re, Grp 6 weekday_re]),
      bounded_re (seqs [Grp 7 count_re, blanks_re, Grp 8 unit_re, opt (ilit ''s''), blanks_re, ilit ''ago'']),
      bounded_re (Grp 9 weekday_re),
      bounded_re (Grp 10 iso_day_re),
      bounded_re (Grp 11 slash_date_re),
      bounded_re (Grp 12 natural_date_re),
      bounded_re (Grp 13 (seqs [ilit ''in'', blanks_re, four_digits_re]))]"

text \<open>
  \<open>_NATURAL_DATE_PARTS_RE\<close>; its groups are 1 and 2 day and month of a day-first date, 3 and 4 month
  and day of a month-first one, 5 a month alone, 6 the year.
\<close>

definition natural_parts_re :: regex where
  "natural_parts_re = seqs
     [Behind (\<lambda>b. b = []),
      alts [seqs [Grp 1 day_re, blanks_re, Grp 2 month_name_re], seqs [Grp 3 month_name_re, blanks_re, Grp 4 day_re],
            Grp 5 month_name_re],
      star (Cls is_space), comma_re, star (Cls is_space), Grp 6 four_digits_re, EndS]"

definition year_only_re :: regex where
  "year_only_re = seqs [Behind (\<lambda>b. b = []), ilit ''in'', blanks_re, Grp 1 four_digits_re, EndS]"

text \<open>\<open>re.fullmatch\<close>: the first way to match that reads everything.\<close>

definition full_match :: "regex \<Rightarrow> string \<Rightarrow> hit option" where
  "full_match r s =
     map_option (\<lambda>q. \<lparr>ht_start = 0, ht_text = s, ht_caps = ps_caps q\<rparr>)
       (find (\<lambda>q. ps_after q = []) (runs r (start_at [] s)))"

subsection \<open>Absolute dates\<close>

definition one_blank :: "string \<Rightarrow> string" where
  "one_blank s = re_sub blanks_re (\<lambda>_. '' '') (strip s)"

text \<open>The fields of \<open>YYYY-MM-DD\<close> and of \<open>YYYY/M/D\<close>.\<close>

definition iso_fields :: "string \<Rightarrow> date option" where
  "iso_fields s = mk_date (int_of (take 4 s)) (int_of (take 2 (drop 5 s))) (int_of (take 2 (drop 8 s)))"

definition slash_fields :: "string \<Rightarrow> date option" where
  "slash_fields s =
     (let rest = drop 5 s; m = takeWhile (\<lambda>c. c \<noteq> CHR ''/'') rest
      in mk_date (int_of (take 4 s)) (int_of m) (int_of (drop (length m + 1) rest)))"

definition first_of :: "string \<Rightarrow> string \<Rightarrow> string" where
  "first_of a b = (if a \<noteq> [] then a else b)"

definition day_number :: "string \<Rightarrow> int" where
  "day_number s = int_of (re_sub (Seq day_suffix_re EndS) (\<lambda>_. []) s)"

definition natural_fields :: "hit \<Rightarrow> (date \<times> date option \<times> string) option" where
  "natural_fields h =
     (let year = int_of (group 6 h); day = first_of (group 1 h) (group 4 h) in
      case map_of months (lower (first_of (group 2 h) (first_of (group 3 h) (group 5 h)))) of
        None \<Rightarrow> None
      | Some month \<Rightarrow>
          if day = [] then
            Option.bind (mk_date year month 1) (\<lambda>s.
              map_option (\<lambda>e. (s, Some e, ''month'')) (mk_date year month (month_days year month)))
          else map_option (\<lambda>s. (s, None, ''day'')) (mk_date year month (day_number day)))"

definition parse_absolute_expression :: "string \<Rightarrow> (date \<times> date option \<times> string) option" where
  "parse_absolute_expression expression =
     (let c = one_blank expression in
      if full_match iso_day_re c \<noteq> None then map_option (\<lambda>s. (s, None, ''day'')) (iso_fields c)
      else if full_match slash_date_re c \<noteq> None then map_option (\<lambda>s. (s, None, ''day'')) (slash_fields c)
      else case full_match year_only_re c of
        Some h \<Rightarrow>
          Option.bind (mk_date (int_of (group 1 h)) 1 1) (\<lambda>s.
            map_option (\<lambda>e. (s, Some e, ''year'')) (mk_date (int_of (group 1 h)) 12 31))
      | None \<Rightarrow> Option.bind (full_match natural_parts_re c) natural_fields)"

subsection \<open>Matches\<close>

definition decimal_char :: "int \<Rightarrow> char" where
  "decimal_char n = char_of (48 + nat n)"

definition isoformat :: "date \<Rightarrow> string" where
  "isoformat d =
     map decimal_char [dt_year d div 1000, dt_year d div 100 mod 10, dt_year d div 10 mod 10, dt_year d mod 10] @ ''-'' @
     map decimal_char [dt_month d div 10, dt_month d mod 10] @ ''-'' @ map decimal_char [dt_day d div 10, dt_day d mod 10]"

record temporal_match =
  tm_original :: string
  tm_normalized :: string
  tm_start :: "date option"
  tm_end :: "date option"
  tm_precision :: string
  tm_basis :: string

datatype temporal_error = DateError

definition resolved_date_match :: "string \<Rightarrow> date \<Rightarrow> date option \<Rightarrow> string \<Rightarrow> string \<Rightarrow> temporal_match" where
  "resolved_date_match expression s e precision basis =
     \<lparr>tm_original = expression,
      tm_normalized = (case e of None \<Rightarrow> isoformat s | Some x \<Rightarrow> isoformat s @ '' through '' @ isoformat x),
      tm_start = Some s, tm_end = e, tm_precision = precision, tm_basis = basis\<rparr>"

definition unresolved :: "string \<Rightarrow> string \<Rightarrow> temporal_match" where
  "unresolved expression basis =
     \<lparr>tm_original = expression, tm_normalized = expression, tm_start = None, tm_end = None,
      tm_precision = ''unknown'', tm_basis = basis\<rparr>"

definition resolve_explicit_match :: "string \<Rightarrow> temporal_match option" where
  "resolve_explicit_match expression =
     map_option (\<lambda>(s, e, precision). resolved_date_match expression s e precision ''explicit_date'')
       (parse_absolute_expression expression)"

definition week_before_re :: regex where
  "week_before_re = seqs [ilit ''week'', blanks_re, ilit ''before'', blanks_re, Grp 1 (plus (none_of [char_of (10 :: nat)]))]"

definition resolve_week_before :: "string \<Rightarrow> temporal_match option" where
  "resolve_week_before expression =
     Option.bind (full_match week_before_re (strip expression)) (\<lambda>h.
     Option.bind (parse_absolute_expression (group 1 h)) (\<lambda>(s, _, precision).
       if precision \<noteq> ''day'' then None
       else map_option (\<lambda>t. resolved_date_match expression t None ''day'' ''relative_expression'') (add_days s (-7))))"

definition dated :: "string \<Rightarrow> string \<Rightarrow> date option \<Rightarrow> temporal_error + temporal_match option" where
  "dated original precision target =
     (case target of
        None \<Rightarrow> Inl DateError
      | Some t \<Rightarrow> Inr (Some (resolved_date_match original t None precision ''relative_expression'')))"

definition weekday_index :: "string \<Rightarrow> int" where
  "weekday_index name = int (length (takeWhile (\<lambda>w. w \<noteq> lower name) weekdays))"

text \<open>The branch of a weekday with a direction computes the date itself.\<close>

definition weekday_of_phrase :: "date \<Rightarrow> string \<Rightarrow> int \<Rightarrow> date option" where
  "weekday_of_phrase d direction w =
     Option.bind (week_start d) (\<lambda>current_week.
       if direction = ''last'' then
         (let n = (weekday d - w) mod 7;
              days_since = (if n = 0 then 7 else n)
          in add_days d (- days_since))
       else if direction = ''this'' then add_days current_week w
       else add_days current_week (7 + w))"

definition ago_count :: "string \<Rightarrow> int" where
  "ago_count raw = (case map_of number_words raw of Some n \<Rightarrow> n | None \<Rightarrow> int_of raw)"

definition day_word_offset :: "string \<Rightarrow> int" where
  "day_word_offset w = (if lower w = ''yesterday'' then -1 else if lower w = ''today'' then 0 else 1)"

definition resolve_groups ::
  "(string \<Rightarrow> temporal_error + temporal_match option) \<Rightarrow> string \<Rightarrow> hit \<Rightarrow> date \<Rightarrow> temporal_error + temporal_match option" where
  "resolve_groups extra original h d =
     (if group 1 h \<noteq> [] then
        (case resolve_week_before original of
           Some m \<Rightarrow> Inr (Some m)
         | None \<Rightarrow> ebind (extra original) (\<lambda>m. case m of
             Some m \<Rightarrow> Inr (Some m)
           | None \<Rightarrow> Inr (Some (unresolved original ''unresolved_unknown_expression''))))
      else if group 2 h \<noteq> [] then dated original ''day'' (add_days d (day_word_offset (group 2 h)))
      else if group 3 h \<noteq> [] then
        (case period_bounds d (lower (group 4 h)) (direction_offset (lower (group 3 h))) of
           None \<Rightarrow> Inl DateError
         | Some (s, e, precision) \<Rightarrow> Inr (Some (resolved_date_match original s (Some e) precision ''relative_expression'')))
      else if group 5 h \<noteq> [] then
        dated original ''day'' (weekday_of_phrase d (lower (group 5 h)) (weekday_index (group 6 h)))
      else if group 7 h \<noteq> [] then
        dated original (lower (group 8 h)) (shift_date d (- ago_count (lower (group 7 h))) (lower (group 8 h)))
      else if group 9 h \<noteq> [] then dated original ''day'' (coming_weekday d (weekday_index (group 9 h)))
      else if group 10 h \<noteq> [] \<or> group 11 h \<noteq> [] then
        Inr (map_option (\<lambda>t. resolved_date_match original t None ''day'' ''explicit_date'')
          (let v = first_of (group 10 h) (group 11 h)
           in if CHR ''-'' \<in> set v then iso_fields v else slash_fields v))
      else if group 12 h \<noteq> [] \<or> group 13 h \<noteq> [] then Inr (resolve_explicit_match original)
      else Inr None)"

definition resolve_match ::
  "(string \<Rightarrow> temporal_error + temporal_match option) \<Rightarrow> string \<Rightarrow> date \<Rightarrow> temporal_error + temporal_match option" where
  "resolve_match extra expression d =
     (case full_match expression_re (strip expression) of
        None \<Rightarrow> Inr None
      | Some h \<Rightarrow> resolve_groups extra (strip expression) h d)"

end
