(* ===== verification/Temporal_Periods.thy ===== *)
theory Temporal_Periods
  imports Temporal_Dates
begin

section \<open>What the calendar arithmetic guarantees\<close>

text \<open>
  Weeks, months and years tile the calendar and the current one holds the reference; ``last'',
  ``this'' and ``next'' weekdays are the ones meant; month shifts undo each other; and the quarters
  and weekends of relative expressions, which are not what they are called.
\<close>

lemma ending_iff: "ending f p st = Some (s, e, q) \<longleftrightarrow> st = Some s \<and> f s = Some e \<and> q = p"
  by (auto simp: ending_def bind_eq_Some_conv)

lemma bind_add_days: "Option.bind (add_days d j) (\<lambda>s. add_days s k) = Some e \<Longrightarrow> valid_date e \<and> ordinal e = ordinal d + j + k"
  by (auto simp: bind_eq_Some_conv add_days_iff)

lemma add_months_0: "valid_date d \<Longrightarrow> add_months d 0 = Some d"
proof -
  assume d: "valid_date d"
  with month_index_range [OF d] obtain e where e: "add_months d 0 = Some e"
    using add_months_Some [of d 0] by fastforce
  note f = add_months_fields [OF d e]
  from month_index_inj [OF f(1) d] f(2) have m: "dt_year e = dt_year d" "dt_month e = dt_month d" by simp_all
  then have "dt_day e = dt_day d" using f(3) d by (simp add: valid_date_def)
  with m e show ?thesis using dt_eqI by metis
qed

lemma ordinal_first: "ordinal d = ordinal (first_of_month d) + dt_day d - 1"
  by (simp add: ordinal_def)

lemma months_end_ordinal:
  assumes "valid_date s" and "dt_day s = 1" and "months_end 1 s = Some e"
  shows "ordinal e = ordinal s + month_days (dt_year s) (dt_month s) - 1"
    and "add_days e 1 = add_months s 1"
proof -
  from assms(3) obtain f where f: "add_months s 1 = Some f" "add_days f (-1) = Some e"
    by (auto simp: months_end_def bind_eq_Some_conv)
  from next_month_ordinal [OF assms(1,2) f(1)] f(2)
  show "ordinal e = ordinal s + month_days (dt_year s) (dt_month s) - 1" by (simp add: add_days_iff)
  show "add_days e 1 = add_months s 1"
    using f add_months_fields(1) [OF assms(1) f(1)] by (simp add: add_days_iff)
qed

lemma year_bounds:
  assumes "mk_date y 1 1 = Some s" and "mk_date (dt_year s) 12 31 = Some e"
  shows "ordinal s = before_year y + 1" "ordinal e = before_year (y + 1)"
proof -
  have s: "s = \<lparr>dt_year = y, dt_month = 1, dt_day = 1\<rparr>" using assms(1) by (simp add: mk_date_iff)
  then have e: "e = \<lparr>dt_year = y, dt_month = 12, dt_day = 31\<rparr>" using assms(2) by (simp add: mk_date_iff)
  show "ordinal s = before_year y + 1" by (simp add: s ordinal_def)
  show "ordinal e = before_year (y + 1)"
    using before_month_Suc [of 12 y] before_month_13 [of y] month_days_def [of y 12]
    by (simp add: e ordinal_def before_year_Suc)
qed

lemma weeks_tile:
  assumes "period_bounds d ''week'' k = Some (s, e, p)"
  shows "ordinal s = ordinal d - weekday d + 7 * k" "ordinal e = ordinal s + 6" "valid_date s"
proof -
  from assms obtain f where f: "week_start d = Some f" "add_days f (7 * k) = Some s" "add_days s 6 = Some e"
    by (auto simp: period_bounds_def ending_iff week_end_def bind_eq_Some_conv)
  then show "ordinal s = ordinal d - weekday d + 7 * k" "ordinal e = ordinal s + 6" "valid_date s"
    by (auto simp: week_start_def add_days_iff)
qed

text \<open>
  Periods tile the calendar: the one after a period begins the day after it ends, and
  the current one holds the reference date.
\<close>

theorem periods_tile:
  assumes "valid_date d" and "period_bounds d unit k = Some (s, e, p)" and "period_bounds d unit (k + 1) = Some (s', e', p')"
  shows "add_days e 1 = Some s' \<and> (k = 0 \<longrightarrow> ordinal s \<le> ordinal d \<and> ordinal d \<le> ordinal e)"
proof -
  consider (week) "unit = ''week''" | (month) "unit = ''month''" | (year) "unit = ''year''"
    using assms(2) by (auto simp: period_bounds_def split: if_splits)
  then show ?thesis
  proof cases
    case week
    note w = assms(2,3) [unfolded week]
    from weeks_tile [OF w(1)] weeks_tile [OF w(2)] weekday_range [of d] show ?thesis by (simp add: add_days_iff)
  next
    case month
    from assms(2) have s: "add_months (first_of_month d) k = Some s" "months_end 1 s = Some e"
      by (simp_all add: period_bounds_def month ending_iff)
    from assms(3) have s': "add_months (first_of_month d) (k + 1) = Some s'"
      by (simp add: period_bounds_def month ending_iff)
    note first = valid_first [OF assms(1)]
    note v = add_months_fields(1) [OF first s(1)] add_months_first_day [OF first _ s(1), simplified]
    note e = months_end_ordinal [OF v s(2)]
    from s(2) obtain f where "add_months s 1 = Some f" by (auto simp: months_end_def bind_eq_Some_conv)
    with add_months_add [OF first _ s(1)] s' e(2) have "add_days e 1 = Some s'" by simp
    moreover have "ordinal s \<le> ordinal d \<and> ordinal d \<le> ordinal e" if "k = 0"
    proof -
      have "s = first_of_month d" using that s(1) add_months_0 [OF first] by simp
      with e(1) ordinal_first [of d] assms(1) show ?thesis by (simp add: valid_date_def)
    qed
    ultimately show ?thesis by blast
  next
    case year
    from assms(2) have s: "mk_date (dt_year d + k) 1 1 = Some s" "mk_date (dt_year s) 12 31 = Some e"
      by (simp_all add: period_bounds_def year ending_iff year_end_def)
    from assms(3) have s': "mk_date (dt_year d + (k + 1)) 1 1 = Some s'" "mk_date (dt_year s') 12 31 = Some e'"
      by (simp_all add: period_bounds_def year ending_iff year_end_def)
    from year_bounds [OF s] year_bounds(1) [OF s'] have "ordinal s' = ordinal e + 1" by (simp add: add.assoc)
    moreover have "valid_date s'" using s'(1) unfolding mk_date_iff by blast
    ultimately show ?thesis
      using year_bounds [OF s] ordinal_bounds [OF assms(1)] by (auto simp: add_days_iff)
  qed
qed

text \<open>
  The date a weekday phrase means, by where it lies in the calendar: ``last'' and ``previous'' mean
  the latest such weekday before the reference, ``this'' the one of the reference's week (from
  Monday), and any other direction the one of the week after.
\<close>

definition weekday_meant :: "date \<Rightarrow> string \<Rightarrow> int \<Rightarrow> date \<Rightarrow> bool" where
  "weekday_meant d direction w e \<longleftrightarrow> valid_date e \<and> weekday e = w \<and>
    (if direction = ''last'' \<or> direction = ''previous'' then ordinal e < ordinal d \<and> ordinal d \<le> ordinal e + 7
     else if direction = ''this'' then ordinal e - weekday e = ordinal d - weekday d
     else ordinal e - weekday e = ordinal d - weekday d + 7)"

lemma weekday_shift: "ordinal e = ordinal d + k \<Longrightarrow> weekday e = (weekday d + k) mod 7"
  unfolding weekday_def by (simp add: mod_simps algebra_simps)

lemma week_start_exists:
  assumes "valid_date d"
  obtains s where "week_start d = Some s" and "ordinal s = ordinal d - weekday d"
proof -
  have "weekday d \<le> ordinal d - 1"
    using ordinal_range [OF assms] unfolding weekday_def by presburger
  then have "add_days d (- weekday d) \<noteq> None"
    using ordinal_range [OF assms] weekday_range [of d] by (auto simp: add_days_None)
  then show thesis using that by (auto simp: week_start_def add_days_iff)
qed

lemma days_since_meant:
  assumes "0 \<le> w" and "w < 7"
  shows "ordinal e = ordinal d - days_since_weekday d w \<longleftrightarrow>
    weekday e = w \<and> ordinal e < ordinal d \<and> ordinal d \<le> ordinal e + 7"
proof -
  define n where "n = days_since_weekday d w"
  have "0 \<le> (weekday d - w) mod 7" "(weekday d - w) mod 7 < 7" by simp_all
  then have n: "1 \<le> n" "n \<le> 7" by (auto simp: n_def days_since_weekday_def Let_def)
  have "n mod 7 = (weekday d - w) mod 7" by (simp add: n_def days_since_weekday_def Let_def)
  then have "(weekday d - n) mod 7 = (weekday d - (weekday d - w)) mod 7" by (metis mod_diff_right_eq)
  then have w: "(weekday d - n) mod 7 = w" using assms by simp
  show ?thesis
  proof
    assume "ordinal e = ordinal d - days_since_weekday d w"
    then show "weekday e = w \<and> ordinal e < ordinal d \<and> ordinal d \<le> ordinal e + 7"
      using weekday_shift [of e d "- n"] n w by (simp add: n_def)
  next
    assume e: "weekday e = w \<and> ordinal e < ordinal d \<and> ordinal d \<le> ordinal e + 7"
    define k where "k = ordinal d - ordinal e"
    have k: "1 \<le> k" "k \<le> 7" using e by (simp_all add: k_def)
    have "ordinal e = ordinal d + - k" by (simp add: k_def)
    from weekday_shift [OF this] e have "(weekday d - k) mod 7 = w" by simp
    note k = k this
    have "7 dvd n - k" using w k(3) mod_eq_dvd_iff [of "weekday d - k" 7 "weekday d - n"] by simp
    with n(1,2) k(1,2) have "k = n" by presburger
    then show "ordinal e = ordinal d - days_since_weekday d w" by (simp add: k_def n_def)
  qed
qed

text \<open>The weekday the extended recogniser computes is the one meant, whenever the calendar has it.\<close>

theorem weekday_is_the_one_meant:
  assumes "valid_date d" and "0 \<le> w" and "w < 7"
  shows "weekday_target d direction w = Some e \<longleftrightarrow> weekday_meant d direction w e"
proof -
  obtain s where s: "week_start d = Some s" "ordinal s = ordinal d - weekday d"
    using assms(1) by (rule week_start_exists)
  have shift: "ordinal e = ordinal d - weekday d + (7 * j + w) \<longleftrightarrow>
      weekday e = w \<and> ordinal e - weekday e = ordinal d - weekday d + 7 * j" for j
  proof -
    have "weekday e = w" if "ordinal e = ordinal d - weekday d + (7 * j + w)"
      using weekday_shift [of e d "7 * j + w - weekday d"] that assms(2,3) by simp
    then show ?thesis by auto
  qed
  show ?thesis
    using shift [of 0] shift [of 1] days_since_meant [OF assms(2,3), of e d]
    by (auto simp: weekday_target_def weekday_meant_def s add_days_iff)
qed

text \<open>
  Month shifts undo each other for days up to the 28th; a later day is cut to the month's
  last one.
\<close>

theorem month_shifts_undo:
  assumes "valid_date d" and "dt_day d \<le> 28" and "add_months d k = Some e"
  shows "add_months e (- k) = Some d \<and> month_index e = month_index d + k \<and> dt_day e = dt_day d"
  using add_months_back [OF assms] add_months_fields [OF assms(1,3)] assms(2) month_days_range [of "dt_year e" "dt_month e"]
  by simp

subsection \<open>Examples\<close>

definition ymd :: "int \<Rightarrow> int \<Rightarrow> int \<Rightarrow> date" where
  "ymd y m d = \<lparr>dt_year = y, dt_month = m, dt_day = d\<rparr>"

lemma demo_dates: "valid_date (ymd 2024 5 15)" "weekday (ymd 2024 5 15) = 2"
  by code_simp+

lemma demo_periods:
  "period_bounds (ymd 2024 5 15) ''week'' 0 = Some (ymd 2024 5 13, ymd 2024 5 19, ''week'')"
  "period_bounds (ymd 2024 5 15) ''week'' 1 = Some (ymd 2024 5 20, ymd 2024 5 26, ''week'')"
  by code_simp+

theorem periods_tile_witness: "add_days (ymd 2024 5 19) 1 = Some (ymd 2024 5 20)"
  using periods_tile [OF demo_dates(1) demo_periods(1), of "ymd 2024 5 20" "ymd 2024 5 26" "''week''"] demo_periods(2)
  by simp

theorem weekday_is_the_one_meant_witness:
  "weekday_meant (ymd 2024 5 15) ''last'' 4 (ymd 2024 5 10)"
proof -
  have "weekday_target (ymd 2024 5 15) ''last'' 4 = Some (ymd 2024 5 10)" by code_simp
  with weekday_is_the_one_meant [OF demo_dates(1), of 4 "''last''" "ymd 2024 5 10"] show ?thesis by simp
qed

theorem month_shifts_undo_witness:
  "add_months (ymd 2024 5 15) 20 = Some (ymd 2026 1 15) \<and> add_months (ymd 2026 1 15) (- 20) = Some (ymd 2024 5 15)"
proof -
  have t: "add_months (ymd 2024 5 15) 20 = Some (ymd 2026 1 15)" by code_simp
  with month_shifts_undo [OF demo_dates(1) _ t] show ?thesis by (simp add: ymd_def)
qed

text \<open>
  The quarter is counted from the reference's month instead of from January: in May 2024 ``this
  quarter'' runs from August to October, and the quarter of a day in February from February to
  April.
\<close>

theorem this_quarter_is_another:
  "extended_period_bounds (ymd 2024 5 15) ''quarter'' ''this'' = Some (ymd 2024 8 1, ymd 2024 10 31, ''quarter'') \<and>
   bounds_around ''quarter'' (ymd 2024 2 10) = Some (ymd 2024 2 1, ymd 2024 4 30, ''quarter'') \<and>
   quarter_bounds 2024 2 = Some (ymd 2024 4 1, ymd 2024 6 30)"
  by (intro conjI) code_simp+

text \<open>
  ``This weekend'' is the last one on a Wednesday, and Monday and Tuesday on a Saturday.
\<close>

theorem this_weekend_is_another:
  "weekday (ymd 2024 5 15) = 2 \<and> weekend_bounds (ymd 2024 5 15) ''this'' = Some (ymd 2024 5 11, ymd 2024 5 12) \<and>
   weekday (ymd 2024 5 18) = 5 \<and> weekend_bounds (ymd 2024 5 18) ''this'' = Some (ymd 2024 5 13, ymd 2024 5 14)"
  by (intro conjI) code_simp+

end
