(* ===== verification/Regex_Case.thy ===== *)
theory Regex_Case
  imports Py_Regex
begin

section \<open>Patterns under \<open>re.IGNORECASE\<close>\<close>

text \<open>
  A pattern whose classes do not tell a letter from its capital matches a text the way it matches the
  text in lower case: the same ways, in the same order, with the same groups but for their case.  So
  what a pattern does with phrases in lower case, it does with every casing of them.
\<close>

definition lowered_capture :: "capture \<Rightarrow> capture" where
  "lowered_capture c = c\<lparr>cp_text := lower (cp_text c)\<rparr>"

definition lowered :: "position \<Rightarrow> position" where
  "lowered p = \<lparr>ps_before = lower (ps_before p), ps_after = lower (ps_after p), ps_caps = map lowered_capture (ps_caps p)\<rparr>"

primrec caseless :: "regex \<Rightarrow> bool" where
  "caseless Eps = True"
| "caseless (Cls P) = (\<forall>c. P (lower_char c) = P c)"
| "caseless (Seq r t) = (caseless r \<and> caseless t)"
| "caseless (Alt r t) = (caseless r \<and> caseless t)"
| "caseless (Rep lo hi r) = caseless r"
| "caseless (Grp n r) = caseless r"
| "caseless WordB = True"
| "caseless (NotAhead r) = caseless r"
| "caseless EndS = True"
| "caseless (Behind P) = (\<forall>s. P (lower s) = P s)"

named_theorems caseless_simps "patterns and characters that do not depend on case"

subsection \<open>Characters\<close>

lemma is_word_lower_char [caseless_simps]: "is_word (lower_char c) = is_word c"
proof (cases "is_upper_letter c")
  case True
  then have u: "65 \<le> code c \<and> code c \<le> 90 \<or> 192 \<le> code c \<and> code c \<le> 222 \<and> code c \<noteq> 215"
    by (simp add: is_upper_letter_def)
  then have "is_word c" by (auto simp: is_word_def is_ascii_letter_def)
  moreover have "97 \<le> code (lower_char c) \<and> code (lower_char c) \<le> 122 \<or> 192 \<le> code (lower_char c) \<and>
      code (lower_char c) \<noteq> 215 \<and> code (lower_char c) \<noteq> 247"
    using u True by (auto simp: code_lower_char)
  then have "is_word (lower_char c)" by (auto simp: is_word_def is_ascii_letter_def)
  ultimately show ?thesis by simp
qed (simp add: lower_char_def)

lemma is_decimal_lower_char [caseless_simps]: "is_decimal (lower_char c) = is_decimal c"
  unfolding is_decimal_def code_lower_char by (auto simp: is_upper_letter_def)

lemma lower_nil [caseless_simps]: "lower s = [] \<longleftrightarrow> s = []" "[] = lower s \<longleftrightarrow> s = []"
  by (cases s; simp add: lower_def)+

lemma hd_lower: "s \<noteq> [] \<Longrightarrow> hd (lower s) = lower_char (hd s)"
  by (cases s) (simp_all add: lower_def)

lemma lower_char_newline: "lower_char c = char_of (10 :: nat) \<longleftrightarrow> c = char_of (10 :: nat)"
proof -
  have ten: "d = char_of (10 :: nat) \<longleftrightarrow> code d = 10" for d by (subst of_char_eq_iff [where 'a = nat, symmetric]) simp
  show ?thesis unfolding ten code_lower_char by (auto simp: is_upper_letter_def)
qed

lemma lower_newline: "lower s = [char_of (10 :: nat)] \<longleftrightarrow> s = [char_of (10 :: nat)]"
  by (cases s) (auto simp: lower_def lower_char_newline)

subsection \<open>Runs\<close>

lemma lowered_simps [simp]:
  "ps_after (lowered p) = lower (ps_after p)" "ps_before (lowered p) = lower (ps_before p)"
  "ps_caps (lowered p) = map lowered_capture (ps_caps p)"
  by (simp_all add: lowered_def)

lemma lowered_boundary: "at_boundary (lower bef) (lower aft) = at_boundary bef aft"
proof -
  have "(lower s \<noteq> [] \<and> is_word (hd (lower s))) = (s \<noteq> [] \<and> is_word (hd s))" for s
    by (cases s) (simp_all add: lower_def is_word_lower_char)
  then show ?thesis by (simp add: at_boundary_def)
qed

lemma lowered_close: "close_group n (lowered p) (lowered q) = lowered (close_group n p q)"
  by (simp add: close_group_def lowered_def lowered_capture_def lower_def take_map)

lemma lowered_rounds:
  assumes "\<And>p. step (lowered p) = map lowered (step p)"
  shows "rounds step n (lowered p) = map lowered (rounds step n p)"
  by (induction n arbitrary: p) (simp_all add: assms map_concat comp_def)

lemma lowered_more_rounds:
  assumes "\<And>p. step (lowered p) = map lowered (step p)"
  shows "more_rounds step n (lowered p) = map lowered (more_rounds step n p)"
  by (induction n arbitrary: p) (simp_all add: assms map_concat comp_def filter_map)

lemma runs_lowered: "caseless r \<Longrightarrow> runs r (lowered p) = map lowered (runs r p)"
proof (induction r arbitrary: p)
  case (Cls P)
  then show ?case by (cases "ps_after p") (simp_all add: lowered_def lower_def)
next
  case (Rep lo hi r)
  then have step: "runs r (lowered p) = map lowered (runs r p)" for p by simp
  show ?case
    by (cases hi) (simp_all add: lowered_rounds [of "runs r", OF step] lowered_more_rounds [of "runs r", OF step]
      map_concat comp_def)
qed (simp_all add: map_concat comp_def lowered_close lowered_boundary lower_nil lower_newline)

subsection \<open>Patterns\<close>

lemma caseless_ilit [caseless_simps]: "caseless (ilit s)"
  by (induction s) simp_all

lemma caseless_seqs [caseless_simps]: "caseless (seqs rs) \<longleftrightarrow> (\<forall>r \<in> set rs. caseless r)"
  by (induction rs rule: seqs.induct) auto

lemma caseless_alts [caseless_simps]: "caseless (alts rs) \<longleftrightarrow> (\<forall>r \<in> set rs. caseless r)"
  by (induction rs rule: alts.induct) auto

lemma caseless_chr [caseless_simps]:
  assumes "code d < 65 \<or> 90 < code d \<and> code d < 97"
  shows "caseless (chr d)"
proof -
  have "lower_char c = d \<longleftrightarrow> c = d" for c
  proof -
    have "code (lower_char c) = code d \<longleftrightarrow> code c = code d"
      unfolding code_lower_char using assms by (auto simp: is_upper_letter_def)
    then show ?thesis by simp
  qed
  then show ?thesis by (simp add: chr_def)
qed

end
