(* ===== verification/Temporal_Claims.thy ===== *)
theory Temporal_Claims
  imports Temporal_Match Temporal_Periods Regex_Case
begin

section \<open>What recognised expressions mean\<close>

text \<open>
  The texts the recogniser understands, from the characters to the dates: weekday and period phrases
  resolve to the dates of \<open>Temporal_Periods\<close>, an ISO date to itself, and a count no date can hold
  raises.
\<close>

subsection \<open>Evaluating the patterns\<close>

text \<open>How the characters of the phrases are classified.\<close>

lemma letter_facts:
  "lower_char (CHR ''a'') = CHR ''a''" "is_space (CHR ''a'') = False" "is_decimal (CHR ''a'') = False"
  "is_word (CHR ''a'') = True"
  "lower_char (CHR ''b'') = CHR ''b''" "is_space (CHR ''b'') = False" "is_decimal (CHR ''b'') = False"
  "is_word (CHR ''b'') = True"
  "lower_char (CHR ''c'') = CHR ''c''" "is_space (CHR ''c'') = False" "is_decimal (CHR ''c'') = False"
  "is_word (CHR ''c'') = True"
  "lower_char (CHR ''d'') = CHR ''d''" "is_space (CHR ''d'') = False" "is_decimal (CHR ''d'') = False"
  "is_word (CHR ''d'') = True"
  "lower_char (CHR ''e'') = CHR ''e''" "is_space (CHR ''e'') = False" "is_decimal (CHR ''e'') = False"
  "is_word (CHR ''e'') = True"
  "lower_char (CHR ''f'') = CHR ''f''" "is_space (CHR ''f'') = False" "is_decimal (CHR ''f'') = False"
  "is_word (CHR ''f'') = True"
  "lower_char (CHR ''g'') = CHR ''g''" "is_space (CHR ''g'') = False" "is_decimal (CHR ''g'') = False"
  "is_word (CHR ''g'') = True"
  "lower_char (CHR ''h'') = CHR ''h''" "is_space (CHR ''h'') = False" "is_decimal (CHR ''h'') = False"
  "is_word (CHR ''h'') = True"
  "lower_char (CHR ''i'') = CHR ''i''" "is_space (CHR ''i'') = False" "is_decimal (CHR ''i'') = False"
  "is_word (CHR ''i'') = True"
  "lower_char (CHR ''j'') = CHR ''j''" "is_space (CHR ''j'') = False" "is_decimal (CHR ''j'') = False"
  "is_word (CHR ''j'') = True"
  "lower_char (CHR ''k'') = CHR ''k''" "is_space (CHR ''k'') = False" "is_decimal (CHR ''k'') = False"
  "is_word (CHR ''k'') = True"
  "lower_char (CHR ''l'') = CHR ''l''" "is_space (CHR ''l'') = False" "is_decimal (CHR ''l'') = False"
  "is_word (CHR ''l'') = True"
  "lower_char (CHR ''m'') = CHR ''m''" "is_space (CHR ''m'') = False" "is_decimal (CHR ''m'') = False"
  "is_word (CHR ''m'') = True"
  "lower_char (CHR ''n'') = CHR ''n''" "is_space (CHR ''n'') = False" "is_decimal (CHR ''n'') = False"
  "is_word (CHR ''n'') = True"
  "lower_char (CHR ''o'') = CHR ''o''" "is_space (CHR ''o'') = False" "is_decimal (CHR ''o'') = False"
  "is_word (CHR ''o'') = True"
  "lower_char (CHR ''p'') = CHR ''p''" "is_space (CHR ''p'') = False" "is_decimal (CHR ''p'') = False"
  "is_word (CHR ''p'') = True"
  "lower_char (CHR ''q'') = CHR ''q''" "is_space (CHR ''q'') = False" "is_decimal (CHR ''q'') = False"
  "is_word (CHR ''q'') = True"
  "lower_char (CHR ''r'') = CHR ''r''" "is_space (CHR ''r'') = False" "is_decimal (CHR ''r'') = False"
  "is_word (CHR ''r'') = True"
  "lower_char (CHR ''s'') = CHR ''s''" "is_space (CHR ''s'') = False" "is_decimal (CHR ''s'') = False"
  "is_word (CHR ''s'') = True"
  "lower_char (CHR ''t'') = CHR ''t''" "is_space (CHR ''t'') = False" "is_decimal (CHR ''t'') = False"
  "is_word (CHR ''t'') = True"
  "lower_char (CHR ''u'') = CHR ''u''" "is_space (CHR ''u'') = False" "is_decimal (CHR ''u'') = False"
  "is_word (CHR ''u'') = True"
  "lower_char (CHR ''v'') = CHR ''v''" "is_space (CHR ''v'') = False" "is_decimal (CHR ''v'') = False"
  "is_word (CHR ''v'') = True"
  "lower_char (CHR ''w'') = CHR ''w''" "is_space (CHR ''w'') = False" "is_decimal (CHR ''w'') = False"
  "is_word (CHR ''w'') = True"
  "lower_char (CHR ''x'') = CHR ''x''" "is_space (CHR ''x'') = False" "is_decimal (CHR ''x'') = False"
  "is_word (CHR ''x'') = True"
  "lower_char (CHR ''y'') = CHR ''y''" "is_space (CHR ''y'') = False" "is_decimal (CHR ''y'') = False"
  "is_word (CHR ''y'') = True"
  "lower_char (CHR ''z'') = CHR ''z''" "is_space (CHR ''z'') = False" "is_decimal (CHR ''z'') = False"
  "is_word (CHR ''z'') = True"
  "lower_char (CHR '' '') = CHR '' ''" "is_space (CHR '' '') = True" "is_decimal (CHR '' '') = False" "is_word (CHR '' '') = False"
  by code_simp+

lemmas pattern_defs = expression_re_def bounded_re_def words_re_def direction_re_def weekday_re_def weekdays_def
  blanks_re_def count_re_def unit_re_def iso_day_re_def slash_date_re_def natural_date_re_def four_digits_re_def
  day_re_def decimal_re_def month_name_re_def months_def comma_re_def week_before_target_re_def day_suffix_re_def

lemmas matching = full_match_def pattern_defs start_at_def letter_facts at_boundary_def close_group_def group_def
  capture_of_def chr_def

definition groups :: "string \<Rightarrow> string list option" where
  "groups s = map_option (\<lambda>h. map (\<lambda>n. group n h) [1, 2, 3, 4, 5, 6]) (full_match expression_re s)"

lemma last_phrases: "map (\<lambda>w. groups (''last '' @ w)) weekdays = map (\<lambda>w. Some [[], [], [], [], ''last'', w]) weekdays"
  by (simp add: groups_def matching)

lemma this_phrases: "map (\<lambda>w. groups (''this '' @ w)) weekdays = map (\<lambda>w. Some [[], [], [], [], ''this'', w]) weekdays"
  by (simp add: groups_def matching)

lemma next_phrases: "map (\<lambda>w. groups (''next '' @ w)) weekdays = map (\<lambda>w. Some [[], [], [], [], ''next'', w]) weekdays"
  by (simp add: groups_def matching)

definition directions :: "string list" where
  "directions = [''last'', ''this'', ''next'']"

lemma period_phrases:
  "map (\<lambda>r. map (\<lambda>u. groups (r @ '' '' @ u)) [''week'', ''month'', ''year'']) directions =
   map (\<lambda>r. map (\<lambda>u. Some [[], [], r, u, [], []]) [''week'', ''month'', ''year'']) directions"
  by (simp add: groups_def matching directions_def)

lemma groups_match:
  assumes "groups s = Some [a, b, c, u, r, w]"
  obtains h where "full_match expression_re s = Some h" "group 1 h = a" "group 2 h = b" "group 3 h = c"
    "group 4 h = u" "group 5 h = r" "group 6 h = w"
  using assms by (auto simp: groups_def)

lemma resolve_period:
  assumes "groups s = Some [[], [], r, u, [], []]" and "strip s = s" and "r \<noteq> []"
  shows "resolve_match extra s d =
    (case period_bounds d (lower u) (direction_offset (lower r)) of
       None \<Rightarrow> Inl DateError
     | Some (a, e, p) \<Rightarrow> Inr (Some (resolved_date_match s a (Some e) p ''relative_expression'')))"
  using assms(1) by (rule groups_match) (simp add: resolve_match_def resolve_groups_def assms(2,3))

lemma phrase_words:
  "list_all (\<lambda>r. lower r = r \<and> r \<noteq> [] \<and>
     list_all (\<lambda>w. strip (r @ '' '' @ w) = r @ '' '' @ w) (weekdays @ [''week'', ''month'', ''year''])) directions"
  "map weekday_index weekdays = [0, 1, 2, 3, 4, 5, 6]"
  "map lower [''week'', ''month'', ''year''] = [''week'', ''month'', ''year'']"
  by code_simp+

lemma weekday_groups:
  assumes "r \<in> set directions" and "w \<in> set weekdays"
  shows "groups (r @ '' '' @ w) = Some [[], [], [], [], r, w]"
  using assms last_phrases this_phrases next_phrases unfolding directions_def map_eq_conv by auto

subsection \<open>Weekday phrases\<close>

lemma caseless_expression: "caseless expression_re"
  by (simp add: pattern_defs caseless_simps)

lemma full_match_lower:
  assumes "caseless r"
  shows "full_match r (lower s) =
    map_option (\<lambda>h. h\<lparr>ht_text := lower (ht_text h), ht_caps := map lowered_capture (ht_caps h)\<rparr>) (full_match r s)"
proof -
  have start: "start_at [] (lower s) = lowered (start_at [] s)" by (simp add: start_at_def lowered_def lower_def)
  have "find (\<lambda>q. ps_after q = []) (map lowered qs) = map_option lowered (find (\<lambda>q. ps_after q = []) qs)" for qs
    by (induction qs) (simp_all add: caseless_simps)
  then show ?thesis
    unfolding full_match_def start runs_lowered [OF assms] by (simp add: option.map_comp comp_def)
qed

lemma group_lower: "group n (h\<lparr>ht_text := x, ht_caps := map lowered_capture (ht_caps h)\<rparr>) = lower (group n h)"
proof -
  have "find (\<lambda>c. cp_group c = n) (map lowered_capture cs) = map_option lowered_capture (find (\<lambda>c. cp_group c = n) cs)" for cs
    by (induction cs) (simp_all add: lowered_capture_def)
  then show ?thesis by (simp add: group_def capture_of_def lowered_capture_def lower_def split: option.split)
qed

lemma groups_lower: "groups (lower s) = map_option (map lower) (groups s)"
  by (cases "full_match expression_re s")
     (simp_all add: groups_def full_match_lower [OF caseless_expression] group_lower)

lemma lower_weekday_index: "weekday_index (lower name) = weekday_index name"
  by (simp add: weekday_index_def)

lemma resolve_weekday:
  assumes "lower (strip s) = r @ '' '' @ w" and "r \<in> set directions" and "w \<in> set weekdays"
  shows "resolve_match extra s d = dated (strip s) ''day'' (weekday_of_phrase d r (weekday_index w))"
proof -
  have "map_option (map lower) (groups (strip s)) = Some [[], [], [], [], r, w]"
    unfolding groups_lower [symmetric] assms(1) by (rule weekday_groups [OF assms(2,3)])
  then obtain gs where gs: "groups (strip s) = Some gs" "map lower gs = [[], [], [], [], r, w]"
    by (cases "groups (strip s)") simp_all
  from gs(2) obtain a b c u x y where gs': "gs = [a, b, c, u, x, y]"
    "lower a = []" "lower b = []" "lower c = []" "lower u = []" "lower x = r" "lower y = w"
    by (auto simp: map_eq_Cons_conv)
  have "r \<noteq> []" using phrase_words(1) assms(2) by (auto simp: list_all_iff)
  then have x: "x \<noteq> []" using gs'(6) by (auto simp: lower_def)
  obtain h where h: "full_match expression_re (strip s) = Some h" "group 1 h = a" "group 2 h = b" "group 3 h = c"
      "group 4 h = u" "group 5 h = x" "group 6 h = y"
    using groups_match [OF gs(1) [unfolded gs'(1)]] by blast
  have "weekday_index y = weekday_index w" using lower_weekday_index [of y] gs'(7) by simp
  then show ?thesis
    using gs' x h by (simp add: resolve_match_def resolve_groups_def lower_nil)
qed

lemma weekday_of_phrase_target:
  assumes "r \<in> set directions"
  shows "weekday_of_phrase d r w = weekday_target d r w"
  using assms
  by (auto simp: directions_def weekday_of_phrase_def weekday_target_def days_since_weekday_def Let_def)

lemma weekday_index_nth: "w < 7 \<Longrightarrow> weekday_index (weekdays ! w) = int w \<and> weekdays ! w \<in> set weekdays"
proof
  assume w: "w < 7"
  have len: "length weekdays = 7" by (simp add: weekdays_def)
  have "map weekday_index weekdays ! w = int w"
    unfolding phrase_words(2) using w by (auto simp: numeral_eq_Suc less_Suc_eq)
  then show "weekday_index (weekdays ! w) = int w" using len w by simp
  show "weekdays ! w \<in> set weekdays" using len w by simp
qed

text \<open>
  Claim C33.  A weekday phrase resolves to the day it means in the calendar: \<open>last friday\<close> to the latest
  Friday before the reference (a week back when the reference is a Friday), \<open>this friday\<close> to the Friday of
  the reference's week, \<open>next friday\<close> to the one of the week after, and so for every weekday.  The
  phrase is a direction, one blank and a weekday, in any casing and with any white space around it;
  the match keeps the casing.  It raises only where the calendar has no such day.
\<close>

theorem weekday_phrases_resolve:
  assumes "valid_date d" and "r \<in> set directions" and "w < 7" and "lower (strip s) = r @ '' '' @ weekdays ! w"
  shows "(resolve_match extra s d = Inr (Some m) \<longleftrightarrow>
      (\<exists>e. weekday_meant d r (int w) e \<and> m = resolved_date_match (strip s) e None ''day'' ''relative_expression'')) \<and>
    (resolve_match extra s d = Inl DateError \<longleftrightarrow> (\<nexists>e. weekday_meant d r (int w) e))"
proof -
  have res: "resolve_match extra s d = dated (strip s) ''day'' (weekday_target d r (int w))"
    using resolve_weekday [OF assms(4,2)] weekday_index_nth [OF assms(3)] by (simp add: weekday_of_phrase_target [OF assms(2)])
  have meant: "weekday_target d r (int w) = Some e \<longleftrightarrow> weekday_meant d r (int w) e" for e
    by (rule weekday_is_the_one_meant [OF assms(1)]) (use assms(3) in simp_all)
  show ?thesis
    unfolding res meant [symmetric] by (cases "weekday_target d r (int w)") (auto simp: dated_def)
qed

text \<open>
  A period phrase resolves to the period's first and last day: \<open>next month\<close> to the bounds
  of the month after the reference's, and likewise for weeks, months, years and every direction.
\<close>

theorem period_phrases_resolve:
  assumes "r \<in> set directions" and "u \<in> {''week'', ''month'', ''year''}" and "period_bounds d u (direction_offset r) = Some (a, e, p)"
  shows "resolve_match extra (r @ '' '' @ u) d =
    Inr (Some (resolved_date_match (r @ '' '' @ u) a (Some e) p ''relative_expression''))"
proof -
  have "groups (r @ '' '' @ u) = Some [[], [], r, u, [], []]"
    using assms(1,2) period_phrases unfolding directions_def map_eq_conv by auto
  moreover have "lower r = r" "r \<noteq> []" "strip (r @ '' '' @ u) = r @ '' '' @ u" "lower u = u"
    using phrase_words assms(1,2) by (auto simp: list_all_iff)
  ultimately show ?thesis using resolve_period [of "r @ '' '' @ u" r u] assms(3) by simp
qed

subsection \<open>ISO dates\<close>

lemma no_blanks: "\<forall>c \<in> set s. \<not> is_space c \<Longrightarrow> segments blanks_re bef s = map Plain s"
  by (induction s arbitrary: bef) (simp_all add: blanks_re_def start_at_def)

lemma rebuild_plain: "rebuild f (map Plain s) = s"
  by (induction s) simp_all

lemma one_blank_none: "\<forall>c \<in> set s. \<not> is_space c \<Longrightarrow> one_blank s = s"
proof -
  assume s: "\<forall>c \<in> set s. \<not> is_space c"
  have "lstrip s = s" using s by (cases s) (simp_all add: lstrip_def)
  moreover have "rstrip s = s" using s by (cases "s = []") (simp_all add: rstrip_noop, simp add: rstrip_def)
  ultimately show ?thesis using no_blanks [OF s] by (simp add: one_blank_def strip_def re_sub_def rebuild_plain)
qed

lemma digit_facts:
  assumes "0 \<le> n" and "n < 10"
  shows "is_decimal (decimal_char n)" "digit_val (decimal_char n) = nat n" "\<not> is_space (decimal_char n)"
proof -
  have "48 + nat n < 256" using assms by simp
  then have code: "code (decimal_char n) = 48 + nat n" by (simp add: decimal_char_def)
  then show "is_decimal (decimal_char n)" using assms by (simp add: is_decimal_def)
  show "digit_val (decimal_char n) = nat n" by (simp add: digit_val_def code)
  show "\<not> is_space (decimal_char n)" using assms by (auto simp: is_space_def code)
qed

lemma four_digits: "10 * (10 * (10 * (y div 1000) + y div 100 mod 10) + y div 10 mod 10) + y mod 10 = (y :: int)"
proof -
  have "y div 1000 = y div 10 div 10 div 10" "y div 100 = y div 10 div 10"
    by (simp_all add: zdiv_zmult2_eq [symmetric])
  then show ?thesis by (simp only: mult_div_mod_eq)
qed

lemma int_digits:
  "\<lbrakk>0 \<le> a; a < 10; 0 \<le> b; b < 10\<rbrakk> \<Longrightarrow> int_of [decimal_char a, decimal_char b] = 10 * a + b"
  "\<lbrakk>0 \<le> a; a < 10; 0 \<le> b; b < 10; 0 \<le> c; c < 10; 0 \<le> e; e < 10\<rbrakk> \<Longrightarrow>
   int_of [decimal_char a, decimal_char b, decimal_char c, decimal_char e] = 10 * (10 * (10 * a + b) + c) + e"
  by (simp_all add: int_of_def digit_facts)

lemma digit_ranges:
  assumes "valid_date d"
  shows "0 \<le> dt_year d div 1000" "dt_year d div 1000 < 10" "0 \<le> dt_month d div 10" "dt_month d div 10 < 10"
    "0 \<le> dt_day d div 10" "dt_day d div 10 < 10"
proof -
  have "1 \<le> dt_year d" "dt_year d \<le> 9999" "1 \<le> dt_month d" "dt_month d \<le> 12" "1 \<le> dt_day d" "dt_day d \<le> 31"
    using assms month_days_range [of "dt_year d" "dt_month d"] by (auto simp: valid_date_def)
  then show "0 \<le> dt_year d div 1000" "dt_year d div 1000 < 10" "0 \<le> dt_month d div 10" "dt_month d div 10 < 10"
    "0 \<le> dt_day d div 10" "dt_day d div 10 < 10" by simp_all
qed

lemma iso_match:
  assumes "list_all is_decimal [a, b, c, e, m, n, j, k]"
  shows "full_match iso_day_re ([a, b, c, e] @ ''-'' @ [m, n] @ ''-'' @ [j, k]) \<noteq> None"
  using assms by (simp add: full_match_def iso_day_re_def four_digits_re_def decimal_re_def chr_def start_at_def eval_nat_numeral)

definition is_digit_value :: "int \<Rightarrow> bool" where
  "is_digit_value n \<longleftrightarrow> 0 \<le> n \<and> n < 10"

lemma iso_read:
  assumes "list_all is_digit_value [a, b, c, e, m, n, j, k]"
  shows "parse_absolute_expression
      (map decimal_char [a, b, c, e] @ ''-'' @ map decimal_char [m, n] @ ''-'' @ map decimal_char [j, k]) =
    map_option (\<lambda>s. (s, None, ''day'')) (mk_date (10 * (10 * (10 * a + b) + c) + e) (10 * m + n) (10 * j + k))"
    (is "parse_absolute_expression ?s = _")
proof -
  have r: "0 \<le> x \<and> x < 10" if "x \<in> {a, b, c, e, m, n, j, k}" for x
    using assms that by (auto simp: is_digit_value_def)
  have "\<not> is_space (CHR ''-'')" by (simp add: is_space_def)
  then have "\<forall>x \<in> set ?s. \<not> is_space x" using r by (simp add: digit_facts)
  then have blank: "one_blank ?s = ?s" by (rule one_blank_none)
  have fits: "full_match iso_day_re ?s \<noteq> None"
    using iso_match [of "decimal_char a" "decimal_char b" "decimal_char c" "decimal_char e" "decimal_char m" "decimal_char n"
        "decimal_char j" "decimal_char k"] r by (simp add: digit_facts)
  have "iso_fields ?s = mk_date (10 * (10 * (10 * a + b) + c) + e) (10 * m + n) (10 * j + k)"
    using r int_digits(1) [of m n] int_digits(1) [of j k] int_digits(2) [of a b c e] by (simp add: iso_fields_def)
  with fits show ?thesis unfolding parse_absolute_expression_def Let_def blank by simp
qed

text \<open>
  Claim C34.  A date written the ISO way is read back as that date, for every date of the calendar.
\<close>

theorem iso_dates_read_back:
  assumes "valid_date d"
  shows "parse_absolute_expression (isoformat d) = Some (d, None, ''day'')"
proof -
  have mod: "is_digit_value (x mod 10)" for x by (simp add: is_digit_value_def)
  have "list_all is_digit_value [dt_year d div 1000, dt_year d div 100 mod 10, dt_year d div 10 mod 10,
      dt_year d mod 10, dt_month d div 10, dt_month d mod 10, dt_day d div 10, dt_day d mod 10]"
    using digit_ranges [OF assms] mod by (simp only: list.pred_inject is_digit_value_def simp_thms)
  from iso_read [OF this] have "parse_absolute_expression (isoformat d) =
      map_option (\<lambda>s. (s, None, ''day'')) (mk_date (dt_year d) (dt_month d) (dt_day d))"
    unfolding isoformat_def four_digits mult_div_mod_eq .
  also have "mk_date (dt_year d) (dt_month d) (dt_day d) = Some d" using assms by (simp add: mk_date_iff)
  finally show ?thesis by simp
qed

subsection \<open>Examples\<close>

theorem weekday_phrases_resolve_witness:
  "resolve_match (\<lambda>_. Inr None) '' Last Wednesday'' (ymd 2024 5 15) =
     Inr (Some (resolved_date_match ''Last Wednesday'' (ymd 2024 5 8) None ''day'' ''relative_expression''))"
proof -
  have phrase: "strip '' Last Wednesday'' = ''Last Wednesday''" "lower ''Last Wednesday'' = ''last'' @ '' '' @ weekdays ! 2"
    by code_simp+
  have "valid_date (ymd 2024 5 8) \<and> weekday (ymd 2024 5 8) = 2 \<and> ordinal (ymd 2024 5 8) + 7 = ordinal (ymd 2024 5 15)"
    by code_simp
  then have "weekday_meant (ymd 2024 5 15) ''last'' (int 2) (ymd 2024 5 8)" by (simp add: weekday_meant_def)
  with weekday_phrases_resolve [OF demo_dates(1), of "''last''" 2 "'' Last Wednesday''"] show ?thesis
    by (simp add: directions_def phrase) blast
qed

theorem period_phrases_resolve_witness:
  "resolve_match (\<lambda>_. Inr None) (''next'' @ '' '' @ ''month'') (ymd 2024 1 31) =
     Inr (Some (resolved_date_match ''next month'' (ymd 2024 2 1) (Some (ymd 2024 2 29)) ''month'' ''relative_expression''))"
proof -
  have "period_bounds (ymd 2024 1 31) ''month'' (direction_offset ''next'') = Some (ymd 2024 2 1, ymd 2024 2 29, ''month'')"
    by code_simp
  from period_phrases_resolve [OF _ _ this] show ?thesis by (simp add: directions_def)
qed

theorem iso_dates_read_back_witness:
  "parse_absolute_expression (isoformat (ymd 2024 2 29)) = Some (ymd 2024 2 29, None, ''day'')"
proof -
  have "valid_date (ymd 2024 2 29)" by code_simp
  then show ?thesis by (rule iso_dates_read_back)
qed

lemma numeral_facts:
  "lower_char (CHR ''3'') = CHR ''3''" "is_space (CHR ''3'') = False" "is_decimal (CHR ''3'')" "is_word (CHR ''3'')"
  "lower_char (CHR ''0'') = CHR ''0''" "is_space (CHR ''0'') = False" "is_decimal (CHR ''0'')" "is_word (CHR ''0'')"
  by code_simp+

lemma long_ago:
  "map_option (\<lambda>h. map (\<lambda>n. group n h) [1, 2, 3, 5, 7, 8]) (full_match expression_re ''3000 years ago'') =
   Some [[], [], [], [], ''3000'', ''year'']"
  by (simp add: matching numeral_facts)

text \<open>
  A count that leads out of the calendar is not an unresolved expression: the date operation raises.
  The module does not catch it and its callers only repeat the call with another time zone, so a
  message that says \<open>3000 years ago\<close> cannot be normalised at all.
\<close>

theorem long_ago_raises:
  "resolve_match extra ''3000 years ago'' (ymd 2024 5 15) = Inl DateError"
proof -
  obtain h where h: "full_match expression_re ''3000 years ago'' = Some h" "group 1 h = []" "group 2 h = []"
      "group 3 h = []" "group 5 h = []" "group 7 h = ''3000''" "group 8 h = ''year''"
    using long_ago by auto
  have "strip ''3000 years ago'' = ''3000 years ago''" "lower ''year'' = ''year''"
    "shift_date (ymd 2024 5 15) (- ago_count (lower ''3000'')) ''year'' = None"
    by code_simp+
  with h show ?thesis by (simp add: resolve_match_def resolve_groups_def dated_def)
qed

end
