(* ===== verification/Pii_Filter.thy ===== *)
theory Pii_Filter
  imports Sensitive_Filter Py_Number "HOL-Library.Product_Lexorder"
begin

section \<open>Personal data: overlaps, redaction and pseudonyms\<close>

text \<open>
  \<open>PiiFilter\<close> of \<open>contexta/core/extraction/pii_filter.py\<close>: the checksum validators, what a pattern's
  matches are turned into, which of the overlapping findings are kept, how direct findings are
  erased and how the others become pseudonyms; and the gate \<open>redact_all\<close> and \<open>secondary_redact\<close> of
  \<open>sensitive_filter.py\<close> that runs it behind the credential filter.  The pattern tables are arguments
  (\<open>direct\<close> and \<open>soft\<close>): what is shown holds for every table.
\<close>

datatype tier = Direct | Soft

record finding =
  pf_category :: string
  pf_tier :: tier
  pf_start :: nat
  pf_end :: nat
  pf_value :: string
  pf_validated :: bool

definition pf_length :: "finding \<Rightarrow> nat" where
  "pf_length f = pf_end f - pf_start f"

subsection \<open>Validators\<close>

text \<open>
  \<open>isdigit\<close> of the whole string; it is false for the empty one.  (Superscript digits, which the
  patterns never pass on, count as other characters here.)
\<close>

definition all_digits :: "string \<Rightarrow> bool" where
  "all_digits s \<longleftrightarrow> s \<noteq> [] \<and> list_all is_decimal s"

definition luhn_step :: "nat \<Rightarrow> nat \<times> nat \<Rightarrow> nat" where
  "luhn_step parity p = (if fst p mod 2 = parity then luhn_double (snd p) else snd p)"

definition luhn_valid :: "string \<Rightarrow> bool" where
  "luhn_valid digits \<longleftrightarrow> all_digits digits \<and> 13 \<le> length digits \<and> length digits \<le> 19 \<and>
     sum_list (map (luhn_step (length digits mod 2)) (enumerate 0 (map digit_val digits))) mod 10 = 0"

definition aba_routing_valid :: "string \<Rightarrow> bool" where
  "aba_routing_valid digits \<longleftrightarrow> length digits = 9 \<and> all_digits digits \<and>
     sum_list (map2 (\<lambda>c w. digit_val c * w) digits [3, 7, 1, 3, 7, 1, 3, 7, 1]) mod 10 = 0"

fun split_at :: "char \<Rightarrow> string \<Rightarrow> string list" where
  "split_at sep [] = [[]]"
| "split_at sep (c # cs) =
     (if c = sep then [] # split_at sep cs
      else case split_at sep cs of p # ps \<Rightarrow> (c # p) # ps | [] \<Rightarrow> [[c]])"

definition octet_valid :: "string \<Rightarrow> bool" where
  "octet_valid part \<longleftrightarrow> all_digits part \<and> length part \<le> 3 \<and> digits_val part \<le> 255 \<and>
     \<not> (1 < length part \<and> hd part = CHR ''0'')"

definition ipv4_valid :: "string \<Rightarrow> bool" where
  "ipv4_valid s \<longleftrightarrow> length (split_at (CHR ''.'') s) = 4 \<and> list_all octet_valid (split_at (CHR ''.'') s)"

definition ssn_valid :: "string \<Rightarrow> bool" where
  "ssn_valid s =
     (let digits = filter is_decimal s; area = take 3 digits; grp = take 2 (drop 3 digits); serial = drop 5 digits in
      length digits = 9 \<and> area \<noteq> ''000'' \<and> area \<noteq> ''666'' \<and> hd area \<noteq> CHR ''9'' \<and>
      grp \<noteq> ''00'' \<and> serial \<noteq> ''0000'')"

definition phone_plausible :: "string \<Rightarrow> bool" where
  "phone_plausible raw =
     (let n = length (filter is_decimal raw);
          dash = one_of ''-/'';
          short = Rep 1 (Some 2) digit_cls
      in 7 \<le> n \<and> n \<le> 15 \<and> \<not> fullmatch (plus (seqs [times 4 digit_cls, dash, short, dash, short])) (strip raw))"

subsection \<open>Findings\<close>

text \<open>A direct pattern has a category and perhaps a validator; \<open>m.lastindex\<close> is the group closed last.\<close>

type_synonym direct_spec = "string \<times> regex \<times> (string \<Rightarrow> bool) option"

definition direct_finding :: "string \<Rightarrow> (string \<Rightarrow> bool) option \<Rightarrow> hit \<Rightarrow> finding option" where
  "direct_finding category validator h =
     (case ht_caps h of
        [] \<Rightarrow> None
      | c # _ \<Rightarrow>
          let ok = (case validator of Some v \<Rightarrow> v (cp_text c) | None \<Rightarrow> category = ''phone'' \<longrightarrow> phone_plausible (cp_text c))
          in if \<not> ok then None
             else Some \<lparr>pf_category = category, pf_tier = Direct, pf_start = cp_start c,
                        pf_end = cp_start c + length (cp_text c), pf_value = cp_text c,
                        pf_validated = validator \<noteq> None\<rparr>)"

definition scan_direct :: "direct_spec list \<Rightarrow> string \<Rightarrow> finding list" where
  "scan_direct direct content =
     concat (map (\<lambda>(category, r, validator). List.map_filter (direct_finding category validator) (finditer r content)) direct)"

definition is_upper_word :: "string \<Rightarrow> bool" where
  "is_upper_word w \<longleftrightarrow> list_ex is_ascii_letter w \<and> list_all (\<lambda>c. \<not> (97 \<le> code c \<and> code c \<le> 122)) w"

definition soft_name_ok :: "string list \<Rightarrow> string \<Rightarrow> bool" where
  "soft_name_ok stopwords candidate =
     (let ws = split_ws candidate in
      2 \<le> length ws \<and> list_all (\<lambda>w. lower w \<notin> set stopwords \<and> \<not> is_upper_word w) ws)"

definition upper_ascii :: "char \<Rightarrow> char" where
  "upper_ascii c = (if 97 \<le> code c \<and> code c \<le> 122 then char_of (code c - 32) else c)"

text \<open>\<open>span(1)\<close> for organisations and names, \<open>span()\<close> for places.\<close>

definition soft_span :: "string \<Rightarrow> hit \<Rightarrow> (nat \<times> nat) option" where
  "soft_span category h =
     (if category = ''location'' then Some (ht_start h, ht_start h + length (ht_text h))
      else map_option (\<lambda>c. (cp_start c, cp_start c + length (cp_text c))) (capture_of 1 h))"

definition soft_finding :: "string list \<Rightarrow> string list \<Rightarrow> string \<Rightarrow> string \<Rightarrow> hit \<Rightarrow> finding option" where
  "soft_finding stopwords states content category h =
     Option.bind (soft_span category h) (\<lambda>(s, e).
       if (category = ''location'' \<longrightarrow> map upper_ascii (group 2 h) \<in> set states) \<and>
          (category \<noteq> ''location'' \<and> category \<noteq> ''organization'' \<longrightarrow> soft_name_ok stopwords (group 1 h))
       then Some \<lparr>pf_category = category, pf_tier = Soft, pf_start = s, pf_end = e,
                  pf_value = take (e - s) (drop s content), pf_validated = False\<rparr>
       else None)"

definition scan_soft :: "string list \<Rightarrow> string list \<Rightarrow> (string \<times> regex) list \<Rightarrow> string \<Rightarrow> finding list" where
  "scan_soft stopwords states soft content =
     concat (map (\<lambda>(category, r).
       List.map_filter (soft_finding stopwords states content category) (finditer r content)) soft)"

subsection \<open>Overlaps\<close>

definition clash :: "finding \<Rightarrow> finding \<Rightarrow> bool" where
  "clash f g \<longleftrightarrow> pf_start f < pf_end g \<and> pf_start g < pf_end f"

definition rank_of :: "finding \<Rightarrow> nat \<times> int \<times> nat" where
  "rank_of f = ((case pf_tier f of Direct \<Rightarrow> 0 | Soft \<Rightarrow> 1), int (pf_start f) - int (pf_end f), pf_start f)"

fun accept :: "finding list \<Rightarrow> finding list \<Rightarrow> finding list" where
  "accept acc [] = acc"
| "accept acc (f # fs) = accept (if list_ex (clash f) acc then acc else acc @ [f]) fs"

definition resolve_overlaps :: "finding list \<Rightarrow> finding list" where
  "resolve_overlaps fs = sort_key pf_start (accept [] (sort_key rank_of fs))"

subsection \<open>Erasing\<close>

definition replace_span :: "finding \<Rightarrow> string \<Rightarrow> string" where
  "replace_span f s = take (pf_start f) s @ REDACTED @ drop (pf_end f) s"

text \<open>\<open>sorted(..., reverse=True)\<close> keeps the order of equal keys.\<close>

definition from_the_right :: "finding list \<Rightarrow> finding list" where
  "from_the_right fs = rev (sort_key pf_start (rev fs))"

definition erase :: "finding list \<Rightarrow> string \<Rightarrow> string" where
  "erase fs content = fold replace_span (from_the_right fs) content"

subsection \<open>Pseudonyms\<close>

definition pseudonym_prefix :: "string \<Rightarrow> string" where
  "pseudonym_prefix category =
     (if category = ''person_name'' then ''PERSON'' else if category = ''organization'' then ''ORG''
      else if category = ''location'' then ''LOCATION'' else ''ENTITY'')"

definition pseudonym :: "string \<Rightarrow> nat \<Rightarrow> string" where
  "pseudonym prefix n = ''['' @ prefix @ ''_'' @ nat_str n @ '']''"

definition pf_key :: "finding \<Rightarrow> string" where
  "pf_key f = casefold (strip (pf_value f))"

type_synonym naming = "(string \<times> string) list \<times> (string \<times> nat) list"

definition name_one :: "finding \<Rightarrow> naming \<Rightarrow> naming" where
  "name_one f s =
     (case s of (names, counts) \<Rightarrow>
        if map_of names (pf_key f) \<noteq> None then s
        else
          let prefix = pseudonym_prefix (pf_category f);
              n = (case map_of counts prefix of Some k \<Rightarrow> k | None \<Rightarrow> 0) + 1
          in (names @ [(pf_key f, pseudonym prefix n)], (prefix, n) # counts))"

definition pseudonyms :: "finding list \<Rightarrow> (string \<times> string) list" where
  "pseudonyms soft = fst (fold name_one soft ([], []))"

definition candidates_of :: "finding \<Rightarrow> string list" where
  "candidates_of f =
     pf_value f #
     (if pf_category f = ''person_name''
      then filter (\<lambda>w. 3 \<le> length w) (drop 1 (split_ws (pf_value f))) @
           filter (\<lambda>w. 3 \<le> length w) (take 1 (split_ws (pf_value f)))
      else [])"

definition substitutions :: "(string \<times> string) list \<Rightarrow> finding list \<Rightarrow> (string \<times> string) list" where
  "substitutions names soft =
     concat (map (\<lambda>f. case map_of names (pf_key f) of
                       None \<Rightarrow> []
                     | Some t \<Rightarrow> map (\<lambda>v. (v, t)) (candidates_of f)) soft)"

definition alone_re :: "string \<Rightarrow> regex" where
  "alone_re value = seqs [Behind (\<lambda>b. b = [] \<or> \<not> is_alnum (hd b)), lit value, NotAhead (Cls is_alnum)]"

fun substitute :: "string list \<Rightarrow> (string \<times> string) list \<Rightarrow> string \<Rightarrow> string" where
  "substitute seen [] s = s"
| "substitute seen ((v, t) # vs) s =
     (if casefold v \<in> set seen then substitute seen vs s
      else substitute (casefold v # seen) vs (re_sub (alone_re v) (\<lambda>_. t) s))"

definition apply_pseudonyms :: "(string \<times> string) list \<Rightarrow> finding list \<Rightarrow> string \<Rightarrow> string" where
  "apply_pseudonyms names soft s =
     substitute [] (sort_key (\<lambda>p. - int (length (fst p))) (substitutions names soft)) s"

subsection \<open>The scan and its gate\<close>

record pii_tables =
  pt_direct :: "direct_spec list"
  pt_soft :: "(string \<times> regex) list"
  pt_stopwords :: "string list"
  pt_states :: "string list"

record pii_result =
  pr_content :: string
  pr_findings :: "finding list"
  pr_names :: "(string \<times> string) list"

text \<open>What a scan makes of the findings of both tiers.\<close>

definition redact_findings :: "bool \<Rightarrow> finding list \<Rightarrow> finding list \<Rightarrow> string \<Rightarrow> pii_result" where
  "redact_findings pseudonymize direct soft content =
     (let soft = filter (\<lambda>f. \<not> list_ex (clash f) direct) soft;
          redacted = erase direct content;
          names = (if pseudonymize then pseudonyms soft else [])
      in \<lparr>pr_content = (if pseudonymize then apply_pseudonyms names soft redacted else erase soft redacted),
          pr_findings = sort_key pf_start (direct @ soft), pr_names = names\<rparr>)"

definition scan_pii :: "pii_tables \<Rightarrow> bool \<Rightarrow> string \<Rightarrow> pii_result" where
  "scan_pii tables pseudonymize content =
     (if content = [] then \<lparr>pr_content = content, pr_findings = [], pr_names = []\<rparr>
      else redact_findings pseudonymize (resolve_overlaps (scan_direct (pt_direct tables) content))
             (resolve_overlaps (scan_soft (pt_stopwords tables) (pt_states tables) (pt_soft tables) content)) content)"

definition pii_event :: "finding \<Rightarrow> redaction_event" where
  "pii_event f = \<lparr>re_type = ''pii:'' @ pf_category f, re_length = pf_length f, re_position = pf_start f\<rparr>"

definition redact_all :: "pii_tables \<Rightarrow> string \<Rightarrow> scan_result \<times> pii_result" where
  "redact_all tables content =
     (let credentials = scan_and_redact content; pii = scan_pii tables True (sc_content credentials);
          events = sc_events credentials @ map pii_event (pr_findings pii)
      in (\<lparr>sc_sensitive = (events \<noteq> []), sc_content = pr_content pii, sc_events = events\<rparr>, pii))"

definition credential_event_types :: "string list" where
  "credential_event_types =
     [''password'', ''otp'', ''api_key'', ''jwt'', ''bearer_token'', ''session_cookie'', ''payment_card'']"

definition secondary_redact :: "pii_tables \<Rightarrow> string \<Rightarrow> bool \<times> string" where
  "secondary_redact tables content =
     (let (result, pii) = redact_all tables content
      in (list_ex (\<lambda>f. pf_tier f = Direct) (pr_findings pii) \<or>
          list_ex (\<lambda>e. re_type e \<in> set credential_event_types \<and> \<not> starts_with (re_type e) ''pii:'') (sc_events result),
          sc_content result))"

end
