(* ===== verification/Pii_Patterns.thy ===== *)
theory Pii_Patterns
  imports Pii_Filter
begin

section \<open>The personal data patterns\<close>

text \<open>
  The tables of \<open>PiiFilter\<close>: the direct and the soft patterns with their validators, in the order the
  scan tries them, the words that are not part of a name and the states.  A quantifier \<open>{0,24}?\<close> that
  takes as little as it can is \<open>few\<close>.
\<close>

definition us_states :: "string list" where
  "us_states =
    [''AL'', ''AK'', ''AZ'', ''AR'', ''CA'', ''CO'', ''CT'', ''DE'', ''FL'', ''GA'', ''HI'',
     ''ID'', ''IL'', ''IN'', ''IA'', ''KS'', ''KY'', ''LA'', ''ME'', ''MD'', ''MA'', ''MI'',
     ''MN'', ''MS'', ''MO'', ''MT'', ''NE'', ''NV'', ''NH'', ''NJ'', ''NM'', ''NY'', ''NC'',
     ''ND'', ''OH'', ''OK'', ''OR'', ''PA'', ''RI'', ''SC'', ''SD'', ''TN'', ''TX'', ''UT'',
     ''VT'', ''VA'', ''WA'', ''WV'', ''WI'', ''WY'', ''DC'']"

definition month_words :: "string list" where
  "month_words =
    [''January'', ''February'', ''March'', ''April'', ''May'', ''June'', ''July'', ''August'',
     ''September'', ''October'', ''November'', ''December'', ''Jan'', ''Feb'', ''Mar'', ''Apr'',
     ''Jun'', ''Jul'', ''Aug'', ''Sep'', ''Sept'', ''Oct'', ''Nov'', ''Dec'']"

definition health_terms :: "string list" where
  "health_terms =
    [''type 1 diabetes'', ''type 2 diabetes'', ''diabetes mellitus'', ''hypertension'',
     ''major depressive disorder'', ''depression'', ''anxiety disorder'', ''generalized anxiety'',
     ''bipolar disorder'', ''schizophrenia'', ''psychosis'', ''epilepsy'', ''seizure disorder'',
     ''asthma'', ''copd'', ''emphysema'', ''hiv'', ''hepatitis b'', ''hepatitis c'',
     ''tuberculosis'', ''cancer'', ''carcinoma'', ''leukemia'', ''lymphoma'', ''melanoma'',
     ''multiple sclerosis'', ''parkinson'', ''alzheimers'', ''crohns disease'',
     ''ulcerative colitis'', ''celiac disease'', ''lupus'', ''psoriasis'',
     ''rheumatoid arthritis'', ''fibromyalgia'', ''anemia'', ''thalassemia'', ''kidney disease'',
     ''renal failure'', ''liver disease'', ''cirrhosis'', ''heart disease'',
     ''atrial fibrillation'', ''coronary artery disease'', ''angina'', ''stroke'', ''aneurysm'',
     ''pulmonary embolism'', ''deep vein thrombosis'', ''miscarriage'', ''stillbirth'',
     ''infertility'', ''pregnancy'', ''abortion'', ''contraceptive'', ''hiv positive'', ''std'',
     ''sti'', ''chlamydia'', ''gonorrhea'', ''syphilis'', ''herpes'', ''adhd'', ''autism'',
     ''schizotypal'', ''metformin'', ''insulin'', ''warfarin'', ''heparin'', ''lisinopril'',
     ''amlodipine'', ''atorvastatin'', ''simvastatin'', ''sertraline'', ''fluoxetine'',
     ''citalopram'', ''escitalopram'', ''paroxetine'', ''venlafaxine'', ''quetiapine'',
     ''risperidone'', ''olanzapine'', ''aripiprazole'', ''clozapine'', ''lithium'', ''valproate'',
     ''carbamazepine'', ''lamotrigine'', ''levetiracetam'', ''gabapentin'', ''pregabalin'',
     ''amoxicillin'', ''azithromycin'', ''ciprofloxacin'', ''levothyroxine'', ''methimazole'',
     ''prednisone'', ''prednisolone'', ''methylprednisolone'', ''adalimumab'', ''rituximab'',
     ''etanercept'', ''infliximab'', ''omeprazole'', ''pantoprazole'', ''salbutamol'',
     ''albuterol'', ''fluticasone'', ''montelukast'', ''apixaban'', ''rivaroxaban'',
     ''clopidogrel'', ''digoxin'', ''levodopa'', ''donepezil'', ''memantine'', ''sildenafil'']"

definition name_stopwords :: "string list" where
  "name_stopwords =
    [''the'', ''a'', ''an'', ''this'', ''that'', ''these'', ''those'', ''it'', ''its'', ''we'',
     ''our'', ''us'', ''i'', ''my'', ''me'', ''you'', ''your'', ''he'', ''him'', ''his'', ''she'',
     ''her'', ''hers'', ''they'', ''them'', ''their'', ''if'', ''when'', ''while'', ''after'',
     ''before'', ''then'', ''than'', ''so'', ''because'', ''however'', ''although'', ''but'',
     ''and'', ''for'', ''with'', ''from'', ''into'', ''on'', ''at'', ''by'', ''to'', ''of'',
     ''in'', ''is'', ''are'', ''was'', ''were'', ''be'', ''been'', ''monday'', ''tuesday'',
     ''wednesday'', ''thursday'', ''friday'', ''saturday'', ''sunday'', ''mon'', ''tue'', ''wed'',
     ''thu'', ''fri'', ''sat'', ''sun'', ''january'', ''february'', ''march'', ''april'', ''may'',
     ''june'', ''july'', ''august'', ''september'', ''october'', ''november'', ''december'',
     ''jan'', ''feb'', ''mar'', ''apr'', ''jun'', ''jul'', ''aug'', ''sep'', ''sept'', ''oct'',
     ''nov'', ''dec'', ''server'', ''service'', ''client'', ''data'', ''memory'', ''retrieval'',
     ''pipeline'', ''vector'', ''model'', ''layer'', ''index'', ''cache'', ''queue'', ''table'',
     ''column'', ''row'', ''cell'', ''graph'', ''node'', ''edge'', ''token'', ''chunk'', ''batch'',
     ''worker'', ''error'', ''warning'', ''info'', ''debug'', ''trace'', ''health'', ''status'',
     ''version'', ''release'', ''sprint'', ''ticket'', ''issue'', ''bug'', ''feature'', ''story'',
     ''merge'', ''branch'', ''commit'', ''deploy'', ''build'', ''test'', ''unit'', ''integration'',
     ''smoke'', ''query'', ''schema'', ''migration'', ''backup'', ''restore'', ''alert'',
     ''metric'', ''dashboard'', ''report'', ''export'', ''import'', ''upload'', ''download'',
     ''config'', ''setting'', ''option'', ''flag'', ''value'', ''name'', ''type'', ''class'',
     ''object'', ''method'', ''function'', ''field'', ''event'', ''message'', ''response'',
     ''request'', ''header'', ''cookie'', ''session'', ''password'', ''secret'', ''docker'',
     ''kubernetes'', ''postgres'', ''python'', ''javascript'', ''typescript'', ''react'',
     ''nginx'', ''redis'', ''kafka'', ''linux'', ''windows'', ''morning'', ''evening'', ''night'',
     ''today'', ''tomorrow'', ''yesterday'', ''week'', ''month'', ''year'', ''day'', ''time'',
     ''date'', ''number'', ''count'', ''total'', ''average'', ''first'', ''second'', ''third'',
     ''last'', ''next'', ''new'', ''old'', ''good'', ''bad'', ''high'', ''low'', ''north'',
     ''south'', ''east'', ''west'', ''left'', ''right'', ''up'', ''down'', ''over'', ''under'',
     ''out'', ''off'', ''again'', ''once'', ''here'', ''there'', ''all'', ''any'', ''some'',
     ''each'', ''more'', ''most'', ''other'', ''same'', ''such'', ''only'', ''own'', ''too'',
     ''very'', ''team'', ''office'', ''company'', ''project'', ''product'', ''customer'', ''user'',
     ''users'', ''requests'', ''responses'', ''memories'', ''context'', ''prompt'', ''system'',
     ''assistant'', ''agent'', ''tool'', ''tools'', ''file'', ''files'', ''line'', ''lines'',
     ''page'', ''pages'', ''note'', ''notes'', ''task'', ''tasks'', ''job'', ''jobs'']"

definition org_suffixes :: "string list" where
  "org_suffixes =
    [''Inc'', ''Inc.'', ''LLC'', ''L.L.C.'', ''Ltd'', ''Ltd.'', ''Corp'', ''Corp.'',
     ''Corporation'', ''Company'', ''Co.'', ''GmbH'', ''LLP'', ''PLC'', ''S.A.'', ''AG'', ''B.V.'']"

definition address_suffixes :: "string list" where
  "address_suffixes =
    [''Street'', ''St'', ''Avenue'', ''Ave'', ''Road'', ''Rd'', ''Lane'', ''Ln'', ''Drive'',
     ''Dr'', ''Boulevard'', ''Blvd'', ''Court'', ''Ct'', ''Terrace'', ''Ter'', ''Place'', ''Pl'',
     ''Square'', ''Sq'', ''Way'', ''Highway'', ''Hwy'', ''Circle'', ''Cir'', ''Parkway'', ''Pwy'',
     ''Row'', ''Close'']"

subsection \<open>Building blocks\<close>

definition letter_cls :: regex where "letter_cls = Cls is_ascii_letter"
definition upper_cls :: regex where "upper_cls = Cls (\<lambda>c. 65 \<le> code c \<and> code c \<le> 90)"
definition lower_cls :: regex where "lower_cls = Cls (\<lambda>c. 97 \<le> code c \<and> code c \<le> 122)"
definition upper_digit_cls :: regex where "upper_digit_cls = Cls upper_or_digit"
definition quote_char :: char where "quote_char = CHR 0x27"

definition hex_cls :: regex where
  "hex_cls = Cls (\<lambda>c. is_decimal c \<or> (65 \<le> code c \<and> code c \<le> 70) \<or> (97 \<le> code c \<and> code c \<le> 102))"

text \<open>\<open>\b(...)\b\<close>\<close>

definition worded :: "regex \<Rightarrow> regex" where
  "worded r = seqs [WordB, Grp 1 r, WordB]"

text \<open>\<open>(?<!\d)\<close> and \<open>(?!\d)\<close>\<close>

definition no_digit_before :: regex where
  "no_digit_before = Behind (\<lambda>b. b = [] \<or> \<not> is_decimal (hd b))"

definition no_digit_after :: regex where
  "no_digit_after = NotAhead digit_cls"

fun few :: "nat \<Rightarrow> regex \<Rightarrow> regex" where
  "few 0 r = Eps"
| "few (Suc n) r = Alt Eps (Seq r (few n r))"

text \<open>\<open>[\s.\-]\<close>, and \<open>(?:number|no\.?|#)?\<close> with the blanks around it.\<close>

definition phone_sep :: regex where
  "phone_sep = Cls (\<lambda>c. is_space c \<or> c = CHR ''.'' \<or> c = CHR ''-'')"

definition number_word :: regex where
  "number_word = seqs [star space_cls,
     opt (alts [ilit ''number'', Seq (ilit ''no'') (opt (chr (CHR ''.''))), chr (CHR ''#'')]), star space_cls]"

definition number_label :: regex where
  "number_label = seqs [number_word, opt (one_of '':=''), star space_cls]"

subsection \<open>Credentials and contact data\<close>

definition aws_secret_re :: regex where
  "aws_secret_re = seqs [ilit ''aws_secret_access_key'', assign_re, quote_opt, Grp 1 (times 40 (token_cls ''/+='')), quote_opt]"

definition slack_re :: regex where
  "slack_re = worded (seqs [lit ''xox'', one_of ''baprs'', chr (CHR ''-''), Rep 10 None (token_cls ''-'')])"

definition sendgrid_re :: regex where
  "sendgrid_re = worded (seqs [lit ''SG.'', Rep 16 None (token_cls ''_-''), chr (CHR ''.''), Rep 16 None (token_cls ''_-'')])"

definition npm_re :: regex where
  "npm_re = worded (Seq (lit ''npm_'') (Rep 30 None (token_cls '''')))"

definition url_credentials_re :: regex where
  "url_credentials_re = seqs [WordB,
     Grp 1 (seqs [lower_cls, star (Cls (\<lambda>c. (97 \<le> code c \<and> code c \<le> 122) \<or> is_decimal c \<or> c \<in> set ''+.-'')), lit ''://'']),
     Grp 2 (plus (Cls (\<lambda>c. \<not> is_space c \<and> c \<notin> set '':/@''))), chr (CHR '':''),
     Grp 3 (plus (Cls (\<lambda>c. \<not> is_space c \<and> c \<notin> set ''@/''))), chr (CHR ''@'')]"

definition private_key_re :: regex where
  "private_key_re = seqs [
     Grp 1 (seqs [lit ''-----BEGIN '', star (Cls (\<lambda>c. (65 \<le> code c \<and> code c \<le> 90) \<or> c = CHR '' '')),
       lit ''PRIVATE KEY-----'', star space_cls]),
     Grp 2 (Rep 16 None (Cls (\<lambda>c. is_alnum c \<or> c \<in> set ''+/='' \<or> is_space c)))]"

definition openai_re :: regex where
  "openai_re = worded (Seq (lit ''sk-proj-'') (Rep 20 None (token_cls ''_-'')))"

text \<open>\<open>[A-Za-z0-9](?:[A-Za-z0-9\-]*[A-Za-z0-9])?\<close>\<close>

definition host_label :: regex where
  "host_label = Seq (token_cls '''') (opt (Seq (star (token_cls ''-'')) (token_cls '''')))"

definition email_re :: regex where
  "email_re = worded (seqs [plus (token_cls ''._%+-''), chr (CHR ''@''), host_label,
     star (Seq (chr (CHR ''.'')) host_label), chr (CHR ''.''), Rep 2 None letter_cls])"

definition spelled_email_re :: regex where
  "spelled_email_re = worded (seqs [plus (token_cls ''._%+-''), opt space_cls,
     chr (CHR ''[''), alts [lit ''at'', lit ''@''], chr (CHR '']''), opt space_cls,
     plus (token_cls ''.-''), opt space_cls,
     chr (CHR ''[''), alts [lit ''dot'', lit ''.''], chr (CHR '']''), opt space_cls, Rep 2 None letter_cls])"

definition phone_parens_re :: regex where
  "phone_parens_re = Grp 1 (seqs [no_digit_before, chr (CHR ''(''), times 3 digit_cls, chr (CHR '')''), opt space_cls,
     times 3 digit_cls, phone_sep, times 4 digit_cls, no_digit_after])"

definition phone_plain_re :: regex where
  "phone_plain_re = Grp 1 (seqs [no_digit_before, times 3 digit_cls, phone_sep, times 3 digit_cls, phone_sep,
     times 4 digit_cls, no_digit_after])"

definition phone_country_re :: regex where
  "phone_country_re = Grp 1 (seqs [Behind (\<lambda>b. b = [] \<or> \<not> (is_decimal (hd b) \<or> hd b = CHR ''+'')),
     chr (CHR ''+''), Rep 1 (Some 3) digit_cls, opt phone_sep, opt (chr (CHR ''('')), Rep 1 (Some 4) digit_cls,
     opt (chr (CHR '')'')), opt phone_sep, Rep 2 (Some 4) digit_cls, opt phone_sep, Rep 2 (Some 4) digit_cls,
     opt (Seq (opt phone_sep) (Rep 1 (Some 4) digit_cls)), no_digit_after])"

definition phone_label_re :: regex where
  "phone_label_re = seqs [WordB,
     alts [ilit ''phone'', ilit ''mobile'', ilit ''cell'', ilit ''telephone'', ilit ''tel'', ilit ''whatsapp'',
       seqs [ilit ''contact'', plus space_cls, ilit ''number'']],
     number_word, opt (alts [ilit ''is'', chr (CHR '':''), chr (CHR ''='')]), star space_cls,
     Grp 1 (seqs [opt (chr (CHR ''+'')), digit_cls,
       Rep 6 (Some 18) (Cls (\<lambda>c. is_decimal c \<or> is_space c \<or> c \<in> set ''-().'')), digit_cls])]"

subsection \<open>Government, finance and birth\<close>

definition dash :: regex where "dash = chr (CHR ''-'')"

definition ssn_re :: regex where
  "ssn_re = worded (seqs [times 3 digit_cls, dash, times 2 digit_cls, dash, times 4 digit_cls])"

definition three_fours_re :: regex where
  "three_fours_re = worded (seqs [times 4 digit_cls, space_cls, times 4 digit_cls, space_cls, times 4 digit_cls])"

definition two_seven_re :: regex where
  "two_seven_re = worded (seqs [times 2 digit_cls, dash, times 7 digit_cls])"

definition uuid_re :: regex where
  "uuid_re = worded (seqs [times 8 hex_cls, dash, times 4 hex_cls, dash, times 4 hex_cls, dash, times 4 hex_cls, dash,
     times 12 hex_cls])"

definition passport_re :: regex where
  "passport_re = seqs [WordB, ilit ''passport'', number_label,
     Grp 1 (Seq (Rep 1 (Some 2) letter_cls) (Rep 6 (Some 9) digit_cls)), WordB]"

definition licence_re :: regex where
  "licence_re = seqs [
     alts [seqs [WordB, ilit ''driver'', opt (chr quote_char), opt (ilit ''s''), star space_cls, ilit ''licen'',
             Cls (\<lambda>c. lower_char c \<in> set ''cs''), ilit ''e''],
           seqs [ilit ''driving'', star space_cls, ilit ''licen'', Cls (\<lambda>c. lower_char c \<in> set ''cs''), ilit ''e''],
           seqs [WordB, ilit ''dl'', WordB]],
     number_label, Grp 1 (Seq (Rep 0 (Some 2) letter_cls) (Rep 5 (Some 12) digit_cls)), WordB]"

definition card_number_re :: regex where
  "card_number_re = worded (Seq (Rep 12 (Some 18) (Seq digit_cls (opt (one_of '' -'')))) digit_cls)"

definition iban_re :: regex where
  "iban_re = worded (seqs [times 2 upper_cls, times 2 digit_cls,
     Rep 2 (Some 7) (Seq (opt (chr (CHR '' ''))) (times 4 upper_digit_cls)),
     opt (Seq (opt (chr (CHR '' ''))) (Rep 1 (Some 4) upper_digit_cls))])"

definition routing_re :: regex where
  "routing_re = worded (times 9 digit_cls)"

definition account_re :: regex where
  "account_re = seqs [WordB, ilit ''account'', number_label, Grp 1 (Rep 6 (Some 17) digit_cls), WordB]"

definition birth_words :: regex where
  "birth_words = seqs [WordB,
     alts [seqs [ilit ''date'', plus space_cls, ilit ''of'', plus space_cls, ilit ''birth''],
           seqs [ilit ''birth'', star space_cls, ilit ''date''],
           seqs [ilit ''d'', opt (chr (CHR ''.'')), ilit ''o'', opt (chr (CHR ''.'')), ilit ''b'', opt (chr (CHR ''.''))],
           Seq (ilit ''born'') (opt (Seq (plus space_cls) (ilit ''on'')))],
     WordB, few 24 (none_of [CHR ''.'', char_of (10::nat)])]"

definition birth_iso_re :: regex where
  "birth_iso_re = Seq birth_words (Grp 1 (seqs [times 4 digit_cls, dash, times 2 digit_cls, dash, times 2 digit_cls]))"

definition birth_month_re :: regex where
  "birth_month_re = Seq birth_words (Grp 1 (seqs [Rep 1 (Some 2) digit_cls, plus space_cls, alts (map ilit month_words),
     plus space_cls, times 4 digit_cls]))"

subsection \<open>Places, devices and health\<close>

definition address_re :: regex where
  "address_re = Seq WordB (Grp 1 (seqs [Rep 1 (Some 6) digit_cls, plus space_cls,
     Rep 0 (Some 4) (seqs [upper_cls, star (Cls (\<lambda>c. is_ascii_letter c \<or> c \<in> {CHR ''.'', quote_char, CHR ''-''})),
       plus space_cls]),
     alts (map lit address_suffixes), WordB,
     opt (seqs [star space_cls, opt (chr (CHR '','')), star space_cls,
       alts (map lit [''Apt'', ''Apartment'', ''Unit'', ''Suite'', ''Ste'', ''Floor'', ''Fl'']),
       opt (chr (CHR ''.'')), star space_cls, plus (token_cls ''-'')])]))"

definition postcode_re :: regex where
  "postcode_re = worded (seqs [Rep 1 (Some 2) upper_cls, Rep 1 (Some 2) digit_cls, opt upper_cls, opt space_cls,
     digit_cls, times 2 upper_cls])"

definition ipv4_re :: regex where
  "ipv4_re = worded (Seq (Rep 1 (Some 3) digit_cls) (times 3 (Seq (chr (CHR ''.'')) (Rep 1 (Some 3) digit_cls))))"

definition mac_re :: regex where
  "mac_re = worded (Seq (times 2 hex_cls) (times 5 (Seq (chr (CHR '':'')) (times 2 hex_cls))))"

definition coordinates_re :: regex where
  "coordinates_re = worded (seqs [opt dash, Rep 1 (Some 2) digit_cls, chr (CHR ''.''), Rep 3 None digit_cls,
     star space_cls, chr (CHR '',''), star space_cls,
     opt dash, Rep 1 (Some 3) digit_cls, chr (CHR ''.''), Rep 3 None digit_cls])"

definition health_re :: regex where
  "health_re = worded (alts (map ilit health_terms))"

subsection \<open>The direct table\<close>

text \<open>
  The mod-97 check.  The pattern passes on capital letters, digits and blanks only, so \<open>upper\<close> is the
  identity there; letters above ASCII, which it could change into two, do not reach this function.
\<close>

definition iban_digits :: "string \<Rightarrow> string" where
  "iban_digits s = concat (map (\<lambda>c. if is_ascii_letter c then nat_str (code c - 55) else [c]) s)"

definition iban_shape :: regex where
  "iban_shape = seqs [times 2 upper_cls, times 2 digit_cls, Rep 11 (Some 30) upper_digit_cls]"

definition iban_valid :: "string \<Rightarrow> bool" where
  "iban_valid canonical =
     (let compact = map upper_ascii (filter (\<lambda>c. \<not> is_space c) canonical)
      in fullmatch iban_shape compact \<and> digits_val (iban_digits (drop 4 compact @ take 4 compact)) mod 97 = 1)"

definition direct_specs :: "direct_spec list" where
  "direct_specs =
    [(''aws_secret_key'', aws_secret_re, None),
     (''slack_token'', slack_re, None),
     (''sendgrid_key'', sendgrid_re, None),
     (''npm_token'', npm_re, None),
     (''url_credentials'', url_credentials_re, None),
     (''private_key'', private_key_re, None),
     (''openai_key'', openai_re, None),
     (''email'', email_re, None),
     (''email'', spelled_email_re, None),
     (''phone'', phone_parens_re, None),
     (''phone'', phone_plain_re, None),
     (''phone'', phone_country_re, None),
     (''phone'', phone_label_re, None),
     (''national_id'', ssn_re, Some ssn_valid),
     (''national_id'', three_fours_re, None),
     (''national_id'', two_seven_re, None),
     (''national_id'', uuid_re, None),
     (''passport'', passport_re, None),
     (''drivers_license'', licence_re, None),
     (''payment_card'', card_number_re, Some luhn_valid),
     (''bank_account'', iban_re, Some iban_valid),
     (''bank_account'', routing_re, Some aba_routing_valid),
     (''bank_account'', account_re, None),
     (''date_of_birth'', birth_iso_re, None),
     (''date_of_birth'', birth_month_re, None),
     (''postal_address'', address_re, None),
     (''postal_address'', postcode_re, None),
     (''network_identifier'', ipv4_re, Some ipv4_valid),
     (''network_identifier'', mac_re, None),
     (''precise_location'', coordinates_re, None),
     (''health_data'', health_re, None)]"

subsection \<open>The soft table\<close>

definition capitalised :: regex where
  "capitalised = Seq upper_cls (Rep 1 (Some 15) lower_cls)"

definition full_name :: regex where
  "full_name = Seq capitalised (Rep 1 (Some 2) (Seq (plus space_cls) capitalised))"

definition honorific_re :: regex where
  "honorific_re = seqs [WordB, alts (map ilit [''mr'', ''mrs'', ''ms'', ''miss'', ''dr'', ''prof'', ''sir'', ''madam'']),
     opt (chr (CHR ''.'')), plus space_cls, Grp 1 full_name, WordB]"

definition introduction_re :: regex where
  "introduction_re = seqs [WordB,
     alts (map ilit [''my name is'', ''i am'', ''i'' @ [quote_char] @ ''m'', ''im'', ''this is'', ''call me'', ''signing as'']),
     plus space_cls, Grp 1 full_name, WordB]"

definition bigram_re :: regex where
  "bigram_re = worded (seqs [Grp 2 capitalised, plus space_cls, Grp 3 capitalised])"

definition organization_re :: regex where
  "organization_re = worded (seqs [upper_cls, star (token_cls ''&.-''),
     Rep 0 (Some 3) (seqs [plus space_cls, upper_cls, star (token_cls ''&.-'')]),
     plus space_cls, alts (map lit org_suffixes)])"

definition place_word :: regex where
  "place_word = Seq upper_cls (Rep 2 (Some 20) lower_cls)"

definition location_re :: regex where
  "location_re = seqs [WordB, Grp 1 (Seq place_word (opt (Seq (one_of '' -'') place_word))), chr (CHR '',''),
     star space_cls, Grp 2 (times 2 upper_cls), WordB]"

definition soft_specs :: "(string \<times> regex) list" where
  "soft_specs =
    [(''person_name'', honorific_re), (''person_name'', introduction_re), (''person_name'', bigram_re),
     (''organization'', organization_re), (''location'', location_re)]"

definition pii_patterns :: pii_tables where
  "pii_patterns = \<lparr>pt_direct = direct_specs, pt_soft = soft_specs, pt_stopwords = name_stopwords, pt_states = us_states\<rparr>"

end
