(* ===== verification/Regex_Groups.thy ===== *)
theory Regex_Groups
  imports Py_Regex
begin

section \<open>What groups capture\<close>

text \<open>
  A pattern none of whose groups can match the empty string captures non-empty parts of the text it
  searches, each at the offset it reports.  \<open>groups_read\<close> is decided by walking the pattern.
\<close>

primrec min_len :: "regex \<Rightarrow> nat" where
  "min_len Eps = 0"
| "min_len (Cls P) = 1"
| "min_len (Seq r t) = min_len r + min_len t"
| "min_len (Alt r t) = min (min_len r) (min_len t)"
| "min_len (Rep lo hi r) = lo * min_len r"
| "min_len (Grp n r) = min_len r"
| "min_len WordB = 0"
| "min_len (NotAhead r) = 0"
| "min_len EndS = 0"
| "min_len (Behind P) = 0"

primrec groups_read :: "regex \<Rightarrow> bool" where
  "groups_read Eps = True"
| "groups_read (Cls P) = True"
| "groups_read (Seq r t) = (groups_read r \<and> groups_read t)"
| "groups_read (Alt r t) = (groups_read r \<and> groups_read t)"
| "groups_read (Rep lo hi r) = groups_read r"
| "groups_read (Grp n r) = (0 < min_len r \<and> groups_read r)"
| "groups_read WordB = True"
| "groups_read (NotAhead r) = True"
| "groups_read EndS = True"
| "groups_read (Behind P) = True"

lemma reads_min_len: "reads (\<lambda>u. min_len r \<le> length u) r"
proof (induction r)
  case (Cls P)
  show ?case by (rule reads_Cls) simp
next
  case (Seq r t)
  then show ?case by (rule reads_Seq) simp
next
  case (Alt r t)
  then show ?case by (auto intro!: reads_Alt elim: reads_mono)
next
  case (Rep lo hi r)
  have "reads (\<lambda>u. min_len r \<le> count_in (\<lambda>_. True) u) r" using Rep by (simp add: count_in_def)
  from reads_Rep_count [OF this, of lo hi] show ?case by (simp add: count_in_def)
next
  case (Grp n r)
  then show ?case by (simp add: reads_Grp)
qed (auto simp: reads_def reads_step_def intro: consumes_refl split: if_splits)

text \<open>\<open>captured s c\<close>: the capture is a non-empty part of \<open>s\<close>, where it says it is.\<close>

definition captured :: "string \<Rightarrow> capture \<Rightarrow> bool" where
  "captured s c \<longleftrightarrow> cp_text c \<noteq> [] \<and> cp_start c + length (cp_text c) \<le> length s \<and>
     take (length (cp_text c)) (drop (cp_start c) s) = cp_text c"

definition within :: "string \<Rightarrow> position \<Rightarrow> bool" where
  "within s p \<longleftrightarrow> rev (ps_before p) @ ps_after p = s \<and> list_all (captured s) (ps_caps p)"

lemma within_rounds:
  assumes "\<And>p q. within s p \<Longrightarrow> q \<in> set (step p) \<Longrightarrow> within s q" and "within s p"
  shows "q \<in> set (rounds step n p) \<Longrightarrow> within s q" and "q \<in> set (more_rounds step n p) \<Longrightarrow> within s q"
proof -
  show "q \<in> set (rounds step n p) \<Longrightarrow> within s q"
    using assms(2)
  proof (induction n arbitrary: p)
    case (Suc n)
    then obtain x where "x \<in> set (step p)" "q \<in> set (rounds step n x)" by auto
    with Suc.IH assms(1) [OF Suc.prems(2)] show ?case by blast
  qed simp
  show "q \<in> set (more_rounds step n p) \<Longrightarrow> within s q"
    using assms(2)
  proof (induction n arbitrary: p)
    case (Suc n)
    then consider "q = p" | x where "x \<in> set (step p)" "q \<in> set (more_rounds step n x)" by auto
    then show ?case
    proof cases
      case 2
      with Suc.IH assms(1) [OF Suc.prems(2)] show ?thesis by blast
    qed (simp add: Suc.prems)
  qed simp
qed

lemma within_close:
  assumes p: "within s p" and q: "within s q" and c: "consumes p u q" and u: "u \<noteq> []"
  shows "within s (close_group n p q)"
proof -
  have "s = rev (ps_before p) @ u @ ps_after q" "ps_after p = u @ ps_after q"
    using p c by (auto simp: within_def consumes_def)
  then have "captured s \<lparr>cp_group = n, cp_start = length (ps_before p),
      cp_text = take (length (ps_after p) - length (ps_after q)) (ps_after p)\<rparr>"
    using u by (simp add: captured_def)
  with q show ?thesis by (simp add: within_def close_group_def)
qed

lemma runs_within: "groups_read r \<Longrightarrow> within s p \<Longrightarrow> q \<in> set (runs r p) \<Longrightarrow> within s q"
proof (induction r arbitrary: p q)
  case (Cls P)
  then show ?case by (auto simp: within_def split: list.splits if_splits)
next
  case (Seq r t)
  from Seq.prems(3) obtain x where x: "x \<in> set (runs r p)" "q \<in> set (runs t x)" by auto
  have "within s x" using Seq.IH(1) [OF _ Seq.prems(2) x(1)] Seq.prems(1) by simp
  from Seq.IH(2) [OF _ this x(2)] Seq.prems(1) show ?case by simp
next
  case (Alt r t)
  from Alt.prems(3) consider "q \<in> set (runs r p)" | "q \<in> set (runs t p)" by auto
  then show ?case using Alt.IH [OF _ Alt.prems(2)] Alt.prems(1) by cases simp_all
next
  case (Rep lo hi r)
  have step: "\<And>p q. within s p \<Longrightarrow> q \<in> set (runs r p) \<Longrightarrow> within s q" using Rep.IH Rep.prems(1) by simp
  from Rep.prems(3) obtain x n where x: "x \<in> set (rounds (runs r) lo p)" "q \<in> set (more_rounds (runs r) n x)" by auto
  have "within s x" by (rule within_rounds(1) [OF step Rep.prems(2) x(1)])
  from within_rounds(2) [OF step this x(2)] show ?case .
next
  case (Grp n r)
  then obtain q0 where q0: "q = close_group n p q0" "q0 \<in> set (runs r p)" by auto
  obtain u where u: "consumes p u q0" "min_len r \<le> length u" using readsD [OF reads_min_len q0(2)] by blast
  have "within s q0" using Grp.IH [OF _ Grp.prems(2) q0(2)] Grp.prems(1) by simp
  moreover have "u \<noteq> []" using u(2) Grp.prems(1) by auto
  ultimately show ?case unfolding q0(1) using within_close [OF Grp.prems(2) _ u(1)] by blast
qed (auto split: if_splits)

lemma segments_captured:
  assumes "groups_read r" and "h \<in> set (hits_of (segments r bef aft))"
  shows "list_all (captured (rev bef @ aft)) (ht_caps h)"
  using assms
proof (induction r bef aft rule: segments.induct)
  case (2 r bef c cs)
  show ?case
  proof (cases "runs r (start_at bef (c # cs))")
    case Nil
    with 2 show ?thesis by simp
  next
    case (Cons q qs)
    have "within (rev bef @ c # cs) (start_at bef (c # cs))" by (simp add: within_def start_at_def)
    then have w: "within (rev bef @ c # cs) q"
      by (rule runs_within [OF "2.prems"(1)]) (simp add: Cons)
    show ?thesis
    proof (cases "length (ps_after q) \<le> length cs")
      case True
      have "segments r bef (c # cs) = Hit \<lparr>ht_start = length bef,
          ht_text = take (length (c # cs) - length (ps_after q)) (c # cs), ht_caps = ps_caps q\<rparr> #
          segments r (ps_before q) (ps_after q)"
        unfolding segments.simps Cons using True by simp
      with "2.prems"(2) consider "ht_caps h = ps_caps q" | "h \<in> set (hits_of (segments r (ps_before q) (ps_after q)))"
        by auto
      then show ?thesis
      proof cases
        case 1
        with w show ?thesis by (simp add: within_def)
      next
        case 2
        from "2.IH"(2) [OF Cons True "2.prems"(1) this] w show ?thesis by (simp add: within_def)
      qed
    next
      case False
      with "2.IH"(3) [OF Cons False "2.prems"(1)] "2.prems"(2) Cons show ?thesis by simp
    qed
  qed
qed simp

text \<open>The match itself, \<open>group(0)\<close>, is where \<open>m.start()\<close> says.\<close>

definition whole :: "hit \<Rightarrow> capture" where
  "whole h = \<lparr>cp_group = 0, cp_start = ht_start h, cp_text = ht_text h\<rparr>"

lemma segments_whole:
  "h \<in> set (hits_of (segments r bef aft)) \<Longrightarrow> captured (rev bef @ aft) (whole h)"
proof (induction r bef aft rule: segments.induct)
  case (2 r bef c cs)
  show ?case
  proof (cases "runs r (start_at bef (c # cs))")
    case Nil
    with 2 show ?thesis by simp
  next
    case (Cons q qs)
    then obtain u where "consumes (start_at bef (c # cs)) u q" using runs_consumes [of q r] by fastforce
    then have u: "c # cs = u @ ps_after q" "ps_before q = rev u @ bef" by (simp_all add: consumes_def start_at_def)
    show ?thesis
    proof (cases "length (ps_after q) \<le> length cs")
      case True
      have t: "take (length (c # cs) - length (ps_after q)) (c # cs) = u" unfolding u(1) by simp
      have "segments r bef (c # cs) = Hit \<lparr>ht_start = length bef, ht_text = u, ht_caps = ps_caps q\<rparr> #
          segments r (ps_before q) (ps_after q)"
        unfolding segments.simps Cons using True t by simp
      with "2.prems" consider "whole h = \<lparr>cp_group = 0, cp_start = length bef, cp_text = u\<rparr>"
        | "h \<in> set (hits_of (segments r (ps_before q) (ps_after q)))"
        by (auto simp: whole_def)
      then show ?thesis
      proof cases
        case 1
        have "u \<noteq> []" using True u(1) by (metis append_Nil impossible_Cons)
        with 1 show ?thesis unfolding u(1) by (simp add: captured_def)
      next
        case 2
        from "2.IH"(2) [OF Cons True this] show ?thesis unfolding u(1) by (simp add: u(2))
      qed
    next
      case False
      with "2.IH"(3) [OF Cons False] "2.prems" Cons show ?thesis by simp
    qed
  qed
qed simp

lemma finditer_whole: "h \<in> set (finditer r s) \<Longrightarrow> captured s (whole h)"
  using segments_whole [of h r "[]" s] by (simp add: finditer_def)

lemma finditer_captured:
  "groups_read r \<Longrightarrow> h \<in> set (finditer r s) \<Longrightarrow> list_all (captured s) (ht_caps h)"
  using segments_captured [of r h "[]" s] by (simp add: finditer_def)

end
