(* ===== verification/Pii_Claims.thy ===== *)
theory Pii_Claims
  imports Pii_Patterns Regex_Groups "HOL-Library.Multiset"
begin

section \<open>What the personal data filter guarantees\<close>

text \<open>
  Which overlapping findings survive, that erasing replaces their spans and nothing else, that
  pseudonyms identify, and that the two Luhn checks of the program agree; and where the filter leaves
  what it found in the text.
\<close>

subsection \<open>Overlaps\<close>

definition proper :: "finding list \<Rightarrow> bool" where
  "proper fs \<longleftrightarrow> (\<forall>f \<in> set fs. pf_start f < pf_end f)"

definition apart :: "finding list \<Rightarrow> bool" where
  "apart fs \<longleftrightarrow> distinct fs \<and> (\<forall>f \<in> set fs. \<forall>g \<in> set fs. f = g \<or> \<not> clash f g)"

lemma clash_sym: "clash f g \<longleftrightarrow> clash g f"
  by (auto simp: clash_def)

lemma apart_mset: "mset gs = mset fs \<Longrightarrow> apart gs = apart fs"
  using mset_eq_imp_distinct_iff [of gs fs] mset_eq_setD [of gs fs] by (simp add: apart_def)

lemma accept_facts:
  assumes "sorted (map rank_of (acc @ fs))" and "apart acc" and "proper fs"
  shows "apart (accept acc fs) \<and> set acc \<subseteq> set (accept acc fs) \<and> set (accept acc fs) \<subseteq> set acc \<union> set fs \<and>
    (\<forall>f \<in> set fs. f \<in> set (accept acc fs) \<or> (\<exists>g \<in> set (accept acc fs). clash f g \<and> rank_of g \<le> rank_of f))"
  using assms
proof (induction acc fs rule: accept.induct)
  case (2 acc f fs)
  have rest: "proper fs" using "2.prems"(3) by (simp add: proper_def)
  show ?case
  proof (cases "list_ex (clash f) acc")
    case True
    then obtain g where g: "g \<in> set acc" "clash f g" by (auto simp: list_ex_iff)
    have "rank_of g \<le> rank_of f" using "2.prems"(1) g(1) by (auto simp: sorted_append)
    moreover have "sorted (map rank_of (acc @ fs))" using "2.prems"(1) by (auto simp: sorted_append)
    ultimately show ?thesis using True "2.IH" "2.prems"(2) rest g by auto
  next
    case False
    have "clash f f" using "2.prems"(3) by (simp add: proper_def clash_def)
    with False have "f \<notin> set acc" by (auto simp: list_ex_iff)
    then have "apart (acc @ [f])"
      using False "2.prems"(2) clash_sym by (auto simp: apart_def list_ex_iff)
    with False "2.IH" "2.prems"(1) rest show ?thesis by auto
  qed
qed (simp add: apart_def)

text \<open>
  Of the findings of a scan the ones kept are apart from each other, in the order of the
  text, and every other one overlaps a kept one that comes before it in the priority (direct before
  soft, longer before shorter, then from the left).
\<close>

theorem overlaps_resolved:
  assumes "proper fs"
  shows "apart (resolve_overlaps fs) \<and> sorted (map pf_start (resolve_overlaps fs)) \<and>
    set (resolve_overlaps fs) \<subseteq> set fs \<and>
    (\<forall>f \<in> set fs. f \<in> set (resolve_overlaps fs) \<or> (\<exists>g \<in> set (resolve_overlaps fs). clash f g \<and> rank_of g \<le> rank_of f))"
proof -
  have "proper (sort_key rank_of fs)" using assms by (simp add: proper_def)
  from accept_facts [of "[]", OF _ _ this]
  have a: "apart (accept [] (sort_key rank_of fs))" "set (accept [] (sort_key rank_of fs)) \<subseteq> set fs"
    "\<forall>f \<in> set fs. f \<in> set (accept [] (sort_key rank_of fs)) \<or>
       (\<exists>g \<in> set (accept [] (sort_key rank_of fs)). clash f g \<and> rank_of g \<le> rank_of f)"
    by (auto simp: apart_def)
  have "apart (resolve_overlaps fs)"
    using a(1) apart_mset [of "resolve_overlaps fs" "accept [] (sort_key rank_of fs)"] by (simp add: resolve_overlaps_def)
  with a show ?thesis by (simp add: resolve_overlaps_def)
qed

subsection \<open>Erasing\<close>

text \<open>The text with the spans replaced, read from the left.\<close>

fun erased :: "nat \<Rightarrow> finding list \<Rightarrow> string \<Rightarrow> string" where
  "erased pos [] s = drop pos s"
| "erased pos (f # fs) s = drop pos (take (pf_start f) s) @ REDACTED @ erased (pf_end f) fs s"

text \<open>The spans follow each other without overlapping, within the text.\<close>

fun in_order :: "nat \<Rightarrow> finding list \<Rightarrow> nat \<Rightarrow> bool" where
  "in_order pos [] n \<longleftrightarrow> pos \<le> n"
| "in_order pos (f # fs) n \<longleftrightarrow> pos \<le> pf_start f \<and> pf_start f < pf_end f \<and> in_order (pf_end f) fs n"

lemma in_order_bound: "in_order pos fs n \<Longrightarrow> pos \<le> n"
  by (induction pos fs n rule: in_order.induct) auto

lemma fold_replace_prefix:
  assumes "\<forall>f \<in> set fs. length p \<le> pf_start f \<and> pf_start f < pf_end f"
  shows "\<exists>t. fold replace_span fs (p @ s) = p @ t"
  using assms
proof (induction fs arbitrary: s)
  case (Cons f fs)
  have "replace_span f (p @ s) = p @ take (pf_start f - length p) s @ REDACTED @ drop (pf_end f - length p) s"
    using Cons.prems by (simp add: replace_span_def)
  with Cons.IH Cons.prems show ?case by simp
qed simp

lemma in_order_later: "in_order pos fs n \<Longrightarrow> f \<in> set fs \<Longrightarrow> pos \<le> pf_start f \<and> pf_start f < pf_end f"
proof (induction pos fs n rule: in_order.induct)
  case (2 pos g fs n)
  then show ?case by (cases "f = g") auto
qed simp

lemma erase_rev:
  "in_order pos fs (length s) \<Longrightarrow> drop pos (fold replace_span (rev fs) s) = erased pos fs s \<and>
   take pos (fold replace_span (rev fs) s) = take pos s"
proof (induction pos fs "length s" rule: in_order.induct)
  case (2 pos f fs)
  let ?t = "fold replace_span (rev fs) s"
  have o: "pos \<le> pf_start f" "pf_start f < pf_end f" "in_order (pf_end f) fs (length s)" using "2.prems" by simp_all
  from "2.hyps" [OF o(3)] have t: "drop (pf_end f) ?t = erased (pf_end f) fs s" "take (pf_end f) ?t = take (pf_end f) s"
    by simp_all
  have len: "pf_end f \<le> length s" by (rule in_order_bound [OF o(3)])
  have "take (pf_start f) ?t = take (pf_start f) (take (pf_end f) ?t)" using o(2) by simp
  also have "\<dots> = take (pf_start f) s" unfolding t(2) using o(2) by simp
  finally have start: "take (pf_start f) ?t = take (pf_start f) s" .
  have r: "fold replace_span (rev (f # fs)) s = take (pf_start f) s @ REDACTED @ erased (pf_end f) fs s"
    by (simp add: replace_span_def start t(1))
  show ?case unfolding r using o len by (simp add: drop_take)
qed simp

lemma in_order_if:
  assumes "apart fs" and "sorted (map pf_start fs)" and "proper fs" and "\<forall>f \<in> set fs. pf_end f \<le> n"
    and "\<forall>f \<in> set fs. pos \<le> pf_start f" and "pos \<le> n"
  shows "in_order pos fs n"
  using assms
proof (induction fs arbitrary: pos)
  case (Cons f fs)
  have "pf_end f \<le> pf_start g" if "g \<in> set fs" for g
  proof -
    have "\<not> clash f g" "pf_start f \<le> pf_start g" "pf_start g < pf_end g"
      using Cons.prems(1,2,3) that by (auto simp: apart_def proper_def)
    then show ?thesis by (auto simp: clash_def)
  qed
  moreover have "apart fs" "proper fs" using Cons.prems(1,3) by (auto simp: apart_def proper_def)
  ultimately show ?case using Cons by (simp add: proper_def)
qed simp

lemma distinct_starts: "apart fs \<Longrightarrow> proper fs \<Longrightarrow> distinct (map pf_start fs)"
proof (induction fs)
  case (Cons f fs)
  have "pf_start g \<noteq> pf_start f" if "g \<in> set fs" for g
  proof
    assume "pf_start g = pf_start f"
    moreover have "pf_start f < pf_end f" "pf_start g < pf_end g" using Cons.prems(2) that by (auto simp: proper_def)
    ultimately have "clash f g" by (simp add: clash_def)
    moreover have "g \<noteq> f" using Cons.prems(1) that by (auto simp: apart_def)
    ultimately show False using Cons.prems(1) that by (auto simp: apart_def)
  qed
  then have "pf_start f \<notin> pf_start ` set fs" by (metis imageE)
  moreover have "distinct (map pf_start fs)" using Cons.prems by (intro Cons.IH) (auto simp: apart_def proper_def)
  ultimately show ?case by simp
qed simp

lemma from_the_right_sorted:
  assumes "sorted (map pf_start fs)" and "distinct (map pf_start fs)"
  shows "from_the_right fs = rev fs"
proof -
  have "sort_key pf_start (rev fs) = fs"
    using assms by (intro map_sorted_distinct_set_unique [where f = pf_start]) (auto simp: distinct_map)
  then show ?thesis by (simp add: from_the_right_def)
qed

definition in_text :: "string \<Rightarrow> finding list \<Rightarrow> bool" where
  "in_text content fs \<longleftrightarrow> proper fs \<and> (\<forall>f \<in> set fs. pf_end f \<le> length content)"

lemma erase_erased:
  assumes "apart fs" and "sorted (map pf_start fs)" and "in_text content fs"
  shows "erase fs content = erased 0 fs content"
proof -
  have p: "proper fs" "\<forall>f \<in> set fs. pf_end f \<le> length content" using assms(3) by (simp_all add: in_text_def)
  have "in_order 0 fs (length content)" using assms(1,2) p by (intro in_order_if) auto
  from erase_rev [OF this] show ?thesis
    by (simp add: erase_def from_the_right_sorted [OF assms(2) distinct_starts [OF assms(1) p(1)]])
qed

text \<open>
  Erasing the direct findings of a scan, which the code does from the right so that offsets
  stay valid, puts the marker in place of each span and keeps every character outside of them, in
  order.
\<close>

theorem erasing_replaces_spans:
  assumes "in_text content fs"
  shows "erase (resolve_overlaps fs) content = erased 0 (resolve_overlaps fs) content"
proof -
  have p: "proper fs" using assms by (simp add: in_text_def)
  have sub: "set (resolve_overlaps fs) \<subseteq> set fs" and a: "apart (resolve_overlaps fs)"
    using accept_facts [of "[]" "sort_key rank_of fs"] p apart_mset [of "resolve_overlaps fs" "accept [] (sort_key rank_of fs)"]
    by (auto simp: apart_def proper_def resolve_overlaps_def)
  have "in_text content (resolve_overlaps fs)" using assms sub by (auto simp: in_text_def proper_def)
  then show ?thesis by (intro erase_erased a) (simp add: resolve_overlaps_def)
qed

subsection \<open>What a scan finds\<close>

text \<open>A finding is located if its value is what the text has at its span.\<close>

definition located :: "string \<Rightarrow> finding \<Rightarrow> bool" where
  "located content f \<longleftrightarrow> pf_start f < pf_end f \<and> pf_end f \<le> length content \<and>
     pf_value f = take (pf_end f - pf_start f) (drop (pf_start f) content)"

lemma located_in_text: "list_all (located content) fs \<Longrightarrow> in_text content fs"
  by (auto simp: in_text_def proper_def located_def list_all_iff)

lemmas direct_pattern_defs = direct_specs_def worded_def aws_secret_re_def slack_re_def sendgrid_re_def npm_re_def
  url_credentials_re_def private_key_re_def openai_re_def email_re_def host_label_def spelled_email_re_def
  phone_parens_re_def phone_plain_re_def phone_country_re_def phone_label_re_def number_word_def number_label_def
  ssn_re_def three_fours_re_def two_seven_re_def uuid_re_def passport_re_def licence_re_def card_number_re_def iban_re_def
  routing_re_def account_re_def birth_words_def birth_iso_re_def birth_month_re_def address_re_def postcode_re_def
  ipv4_re_def mac_re_def coordinates_re_def health_re_def

lemmas soft_pattern_defs = soft_specs_def honorific_re_def introduction_re_def bigram_re_def organization_re_def
  location_re_def full_name_def capitalised_def place_word_def worded_def

lemmas class_defs = token_cls_def digit_cls_def space_cls_def letter_cls_def upper_cls_def lower_cls_def
  upper_digit_cls_def hex_cls_def phone_sep_def dash_def chr_def one_of_def none_of_def assign_re_def quote_opt_def
  no_digit_before_def no_digit_after_def

lemma lit_reads [simp]: "min_len (lit w) = length w" "groups_read (lit w)"
  by (induction w) (simp_all add: chr_def)

lemma ilit_reads [simp]: "min_len (ilit w) = length w" "groups_read (ilit w)"
  by (induction w) simp_all

lemma few_reads [simp]: "min_len (few n r) = 0" "groups_read r \<Longrightarrow> groups_read (few n r)"
  by (induction n) simp_all

lemma alts_reads: "list_all groups_read rs \<Longrightarrow> groups_read (alts rs)"
  by (induction rs rule: alts.induct) simp_all

lemma alts_min_len: "list_all (\<lambda>r. 0 < min_len r) rs \<Longrightarrow> 0 < min_len (alts rs)"
  by (induction rs rule: alts.induct) simp_all

lemma direct_groups_read: "list_all (\<lambda>(c, r, v). groups_read r) direct_specs"
  by (simp add: direct_pattern_defs class_defs alts_reads alts_min_len month_words_def health_terms_def address_suffixes_def)

lemma soft_groups_read: "list_all (\<lambda>(c, r). groups_read r) soft_specs"
  by (simp add: soft_pattern_defs class_defs org_suffixes_def)

lemma scan_direct_located: "list_all (located content) (scan_direct direct_specs content)"
proof -
  have "located content f"
    if spec: "(c, r, v) \<in> set direct_specs" and h: "h \<in> set (finditer r content)" "direct_finding c v h = Some f" for c r v h f
  proof -
    have "groups_read r" using direct_groups_read spec by (auto simp: list_all_iff)
    from finditer_captured [OF this h(1)] h(2) show ?thesis
      by (auto simp: direct_finding_def located_def captured_def Let_def split: list.splits if_splits)
  qed
  then show ?thesis by (auto simp: scan_direct_def list_all_iff List.map_filter_def)
qed

lemma scan_soft_located: "list_all (located content) (scan_soft stopwords states soft_specs content)"
proof -
  have "located content f"
    if spec: "(c, r) \<in> set soft_specs" and h: "h \<in> set (finditer r content)" "soft_finding stopwords states content c h = Some f" for c r h f
  proof -
    have "groups_read r" using soft_groups_read spec by (auto simp: list_all_iff)
    from finditer_captured [OF this h(1)] have caps: "captured content x" if "capture_of 1 h = Some x" for x
      using that by (auto simp: capture_of_def list_all_iff find_Some_iff)
    from h(2) obtain s e where se: "soft_span c h = Some (s, e)"
      "f = \<lparr>pf_category = c, pf_tier = Soft, pf_start = s, pf_end = e, pf_value = take (e - s) (drop s content), pf_validated = False\<rparr>"
      by (auto simp: soft_finding_def bind_eq_Some_conv split: if_splits)
    have "s < e \<and> e \<le> length content"
      using se(1) finditer_whole [OF h(1)] caps
      by (auto simp: soft_span_def captured_def whole_def split: if_splits)
    then show ?thesis by (simp add: located_def se(2))
  qed
  then show ?thesis by (auto simp: scan_soft_def list_all_iff List.map_filter_def)
qed

lemma located_proper: "list_all (located content) fs \<Longrightarrow> proper fs"
  by (auto simp: proper_def located_def list_all_iff)

lemma resolved_located: "list_all (located content) fs \<Longrightarrow> list_all (located content) (resolve_overlaps fs)"
  using overlaps_resolved [OF located_proper, of content fs] by (auto simp: list_all_iff)

text \<open>
  Claim C35.  With the patterns of the program, on every text: erasing the direct findings, which the code does
  from the right so that offsets stay valid, puts the marker in place of each kept span and keeps
  every character outside of them, in order; and whatever a pattern found is erased with one of
  these spans or overlaps one.
\<close>

theorem direct_findings_erased:
  "let found = scan_direct direct_specs content; kept = resolve_overlaps found in
   erase kept content = erased 0 kept content \<and>
   list_all (\<lambda>f. f \<in> set kept \<or> list_ex (\<lambda>g. clash f g \<and> rank_of g \<le> rank_of f) kept) found"
proof -
  note loc = scan_direct_located [of content]
  show ?thesis
    using erasing_replaces_spans [OF located_in_text [OF loc]] overlaps_resolved [OF located_proper [OF loc]]
    by (auto simp: Let_def list_all_iff list_ex_iff)
qed

lemma apart_append:
  assumes "apart fs" and "apart gs" and "proper gs" and "\<And>f g. f \<in> set fs \<Longrightarrow> g \<in> set gs \<Longrightarrow> \<not> clash g f"
  shows "apart (fs @ gs)"
proof -
  have self: "clash g g" if "g \<in> set gs" for g using assms(3) that by (simp add: proper_def clash_def)
  have no: "\<not> clash f g" "\<not> clash g f" if "f \<in> set fs" "g \<in> set gs" for f g
    using assms(4) [OF that] clash_sym by blast+
  have "set fs \<inter> set gs = {}" using self no by blast
  with assms(1,2) no show ?thesis unfolding apart_def by auto
qed

text \<open>
  Claim C36.  The findings a scan with the patterns of the program reports, of both tiers, lie in the text
  where they say, do not overlap, and come in the order of the text.
\<close>

theorem findings_located:
  "list_all (located content) (pr_findings (scan_pii pii_patterns pseudonymize content)) \<and>
   apart (pr_findings (scan_pii pii_patterns pseudonymize content)) \<and>
   sorted (map pf_start (pr_findings (scan_pii pii_patterns pseudonymize content)))"
proof (cases "content = []")
  case True
  then show ?thesis by (simp add: scan_pii_def apart_def)
next
  case False
  let ?direct = "resolve_overlaps (scan_direct direct_specs content)"
  let ?all = "resolve_overlaps (scan_soft name_stopwords us_states soft_specs content)"
  let ?soft = "filter (\<lambda>f. \<not> list_ex (clash f) ?direct) ?all"
  have f: "pr_findings (scan_pii pii_patterns pseudonymize content) = sort_key pf_start (?direct @ ?soft)"
    using False by (simp add: scan_pii_def redact_findings_def pii_patterns_def Let_def)
  have loc: "list_all (located content) ?direct" "list_all (located content) ?all"
    by (rule resolved_located [OF scan_direct_located], rule resolved_located [OF scan_soft_located])
  have parts: "apart ?direct" "apart ?all"
    using overlaps_resolved [OF located_proper [OF scan_direct_located]]
      overlaps_resolved [OF located_proper [OF scan_soft_located]] by blast+
  have "apart ?soft" using parts(2) by (auto simp: apart_def)
  moreover have "proper ?soft" using located_proper [OF loc(2)] by (auto simp: proper_def)
  ultimately have "apart (?direct @ ?soft)"
    using parts(1) by (intro apart_append) (auto simp: list_ex_iff)
  then have "apart (sort_key pf_start (?direct @ ?soft))" by (subst apart_mset [of _ "?direct @ ?soft"]) simp_all
  with loc show ?thesis unfolding f by (auto simp: list_all_iff)
qed

subsection \<open>Checksums\<close>

lemma luhn_forward:
  "par < 2 \<Longrightarrow> sum_list (map (luhn_step par) (enumerate i ds)) = luhn_sum (i mod 2 = par) ds"
proof (induction ds arbitrary: i)
  case (Cons d ds)
  have "Suc i mod 2 = par \<longleftrightarrow> i mod 2 \<noteq> par" using Cons.prems by presburger
  with Cons.IH [OF Cons.prems, of "Suc i"] show ?case by (simp add: luhn_step_def)
qed simp

lemma luhn_sum_append: "luhn_sum b (xs @ ys) = luhn_sum b xs + luhn_sum (b \<noteq> odd (length xs)) ys"
proof (induction xs arbitrary: b)
  case (Cons x xs)
  then show ?case by (cases "even (length xs)"; cases b) simp_all
qed simp

lemma luhn_sum_rev: "luhn_sum b (rev ds) = luhn_sum (b \<noteq> even (length ds)) ds"
proof (induction ds arbitrary: b)
  case (Cons d ds)
  show ?case by (cases "even (length ds)"; cases b) (simp_all add: luhn_sum_append Cons.IH)
qed simp

text \<open>
  The two Luhn checks of the program, one that doubles every other digit from the right and
  one that doubles by the parity of the length from the left, accept the same numbers.
\<close>

theorem luhn_checks_agree:
  "luhn_valid digits \<longleftrightarrow> all_digits digits \<and> 13 \<le> length digits \<and> length digits \<le> 19 \<and> luhn_check digits"
proof -
  let ?ds = "map digit_val digits"
  have "sum_list (map (luhn_step (length digits mod 2)) (enumerate 0 ?ds)) = luhn_sum (even (length digits)) ?ds"
    by (subst luhn_forward) (auto simp: even_iff_mod_2_eq_zero)
  also have "\<dots> = luhn_sum False (rev ?ds)" by (simp add: luhn_sum_rev)
  finally show ?thesis by (simp add: luhn_valid_def luhn_check_def luhn_total_sum)
qed

subsection \<open>Pseudonyms\<close>

definition prefixes :: "string list" where
  "prefixes = [''PERSON'', ''ORG'', ''LOCATION'', ''ENTITY'']"

lemma pseudonym_eq:
  assumes "p \<in> set prefixes" and "q \<in> set prefixes"
  shows "pseudonym p m = pseudonym q n \<longleftrightarrow> p = q \<and> m = n"
  using assms by (auto simp: pseudonym_def prefixes_def)

lemma prefix_in: "pseudonym_prefix c \<in> set prefixes"
  by (simp add: pseudonym_prefix_def prefixes_def)

definition count_of :: "(string \<times> nat) list \<Rightarrow> string \<Rightarrow> nat" where
  "count_of counts p = (case map_of counts p of Some k \<Rightarrow> k | None \<Rightarrow> 0)"

definition naming_ok :: "naming \<Rightarrow> bool" where
  "naming_ok s \<longleftrightarrow> distinct (map fst (fst s)) \<and> distinct (map snd (fst s)) \<and>
     (\<forall>t \<in> set (map snd (fst s)). \<exists>p n. t = pseudonym p n \<and> p \<in> set prefixes \<and> n \<le> count_of (snd s) p)"

lemma name_one_ok:
  assumes "naming_ok s"
  shows "naming_ok (name_one f s)" and "map_of (fst (name_one f s)) (pf_key f) \<noteq> None"
    and "map_of (fst s) k = Some t \<Longrightarrow> map_of (fst (name_one f s)) k = Some t"
proof -
  obtain names counts where s: "s = (names, counts)" by (cases s)
  let ?p = "pseudonym_prefix (pf_category f)"
  let ?n = "count_of counts ?p + 1"
  have step: "name_one f s = (if map_of names (pf_key f) \<noteq> None then s
      else (names @ [(pf_key f, pseudonym ?p ?n)], (?p, ?n) # counts))"
    by (simp add: name_one_def s count_of_def Let_def)
  show "map_of (fst (name_one f s)) (pf_key f) \<noteq> None"
    unfolding step by (cases "map_of names (pf_key f)") (simp_all add: s)
  show "map_of (fst s) k = Some t \<Longrightarrow> map_of (fst (name_one f s)) k = Some t" 
    unfolding step by (cases "map_of names (pf_key f)") (auto simp: s map_add_Some_iff)
  show "naming_ok (name_one f s)"
  proof (cases "map_of names (pf_key f)")
    case None
    have old: "\<exists>p n. t = pseudonym p n \<and> p \<in> set prefixes \<and> n \<le> count_of counts p" if "t \<in> set (map snd names)" for t
      using assms that by (auto simp: naming_ok_def s)
    have fresh: "pseudonym ?p ?n \<notin> set (map snd names)"
    proof
      assume "pseudonym ?p ?n \<in> set (map snd names)"
      from old [OF this] obtain p n where "pseudonym ?p ?n = pseudonym p n" "p \<in> set prefixes" "n \<le> count_of counts p" by blast
      with pseudonym_eq [OF prefix_in, of p] show False by auto
    qed
    have kept: "\<exists>p n. t = pseudonym p n \<and> p \<in> set prefixes \<and> n \<le> count_of ((?p, ?n) # counts) p"
      if "t \<in> set (map snd names)" for t
    proof -
      from old [OF that] obtain p n where "t = pseudonym p n" "p \<in> set prefixes" "n \<le> count_of counts p" by blast
      then show ?thesis by (intro exI [of _ p] exI [of _ n]) (auto simp: count_of_def)
    qed
    have own: "\<exists>p n. pseudonym ?p ?n = pseudonym p n \<and> p \<in> set prefixes \<and> n \<le> count_of ((?p, ?n) # counts) p"
      using prefix_in by (intro exI [of _ ?p] exI [of _ ?n]) (simp add: count_of_def)
    have "pf_key f \<notin> set (map fst names)" using None by (simp add: map_of_eq_None_iff)
    with assms fresh kept own show ?thesis unfolding step using None by (auto simp: naming_ok_def s)
  next
    case Some
    with assms show ?thesis by (simp add: step)
  qed
qed

lemma fold_names:
  "naming_ok s \<Longrightarrow> naming_ok (fold name_one fs s) \<and>
   (\<forall>k t. map_of (fst s) k = Some t \<longrightarrow> map_of (fst (fold name_one fs s)) k = Some t) \<and>
   (\<forall>f \<in> set fs. map_of (fst (fold name_one fs s)) (pf_key f) \<noteq> None)"
proof (induction fs arbitrary: s)
  case (Cons f fs)
  note one = name_one_ok [OF Cons.prems]
  from Cons.IH [OF one(1)] one show ?case by fastforce
qed simp

text \<open>
  Claim C37.  Pseudonyms identify: every soft finding has one, two findings have the same one exactly
  if their values are the same name (but for case and blanks at the ends).
\<close>

theorem pseudonyms_identify:
  assumes "f \<in> set soft" and "g \<in> set soft"
  shows "map_of (pseudonyms soft) (pf_key f) \<noteq> None \<and>
    (map_of (pseudonyms soft) (pf_key f) = map_of (pseudonyms soft) (pf_key g) \<longleftrightarrow> pf_key f = pf_key g)"
proof -
  have start: "naming_ok ([], [])" by (simp add: naming_ok_def)
  have ok: "naming_ok (fold name_one soft ([], []))"
    and mem: "\<And>h. h \<in> set soft \<Longrightarrow> map_of (pseudonyms soft) (pf_key h) \<noteq> None"
    using fold_names [OF start, of soft] by (auto simp: pseudonyms_def)
  obtain t u where t: "map_of (pseudonyms soft) (pf_key f) = Some t" "map_of (pseudonyms soft) (pf_key g) = Some u"
    using mem [OF assms(1)] mem [OF assms(2)] by blast
  have "pf_key f = pf_key g" if "t = u"
  proof -
    have "distinct (map snd (pseudonyms soft))" using ok by (simp add: naming_ok_def pseudonyms_def)
    moreover have "(pf_key f, t) \<in> set (pseudonyms soft)" "(pf_key g, t) \<in> set (pseudonyms soft)"
      using t that by (auto dest: map_of_SomeD)
    ultimately show ?thesis by (metis distinct_map inj_on_def snd_conv prod.inject)
  qed
  with t show ?thesis by auto
qed

subsection \<open>Examples, and what stays in the text\<close>

definition span_of :: "string \<Rightarrow> tier \<Rightarrow> nat \<Rightarrow> string \<Rightarrow> finding" where
  "span_of category t s v =
     \<lparr>pf_category = category, pf_tier = t, pf_start = s, pf_end = s + length v, pf_value = v, pf_validated = False\<rparr>"

definition card_text :: string where
  "card_text = ''tel 555 12 34   4111111111111111''"

definition phone_span :: finding where
  "phone_span = span_of ''phone'' Direct 4 ''555 12 34   41111111''"

definition card_span :: finding where
  "card_span = span_of ''payment_card'' Direct 16 ''4111111111111111''"

lemmas span_defs = phone_span_def card_span_def span_of_def

lemma card_overlap: "resolve_overlaps [card_span, phone_span] = [phone_span]"
  by (simp add: resolve_overlaps_def rank_of_def clash_def span_defs)

theorem overlaps_resolved_witness: "clash card_span phone_span \<and> rank_of phone_span \<le> rank_of card_span"
proof -
  have p: "proper [card_span, phone_span]" by (simp add: proper_def span_defs)
  have n: "card_span \<noteq> phone_span" by (simp add: span_defs)
  from overlaps_resolved [OF p] n show ?thesis by (simp add: card_overlap)
qed

theorem erasing_replaces_spans_witness: "erase [phone_span] card_text = ''tel [REDACTED]11111111''"
proof -
  have w: "in_text card_text [card_span, phone_span]"
    by (simp add: in_text_def proper_def span_defs card_text_def)
  show ?thesis
    using erasing_replaces_spans [OF w] unfolding card_overlap by (simp add: span_defs card_text_def REDACTED_def)
qed

definition acme :: "finding list" where
  "acme = [span_of ''organization'' Soft 0 ''Acme Inc'', span_of ''organization'' Soft 10 ''ACME Inc'']"

lemma acme_keys: "map pf_key acme = [''acme inc'', ''acme inc'']"
  by code_simp

theorem pseudonyms_identify_witness:
  "map_of (pseudonyms acme) (pf_key (acme ! 0)) = map_of (pseudonyms acme) (pf_key (acme ! 1))"
proof -
  have k: "pf_key (acme ! 0) = pf_key (acme ! 1)" using acme_keys by (simp add: acme_def)
  show ?thesis using pseudonyms_identify [of "acme ! 0" acme "acme ! 1"] k by (simp add: acme_def)
qed

text \<open>
  A finding that overlaps a kept one is dropped whole, and the part of it outside of the kept
  span stays: with a phone number that runs into a card number the last eight digits of the card do.
\<close>

theorem overlap_leaves_digits:
  "phone_plausible (pf_value phone_span) \<and> luhn_valid (pf_value card_span) \<and>
   pr_content (redact_findings True (resolve_overlaps [card_span, phone_span]) [] card_text) = ''tel [REDACTED]11111111''"
proof (intro conjI)
  show "phone_plausible (pf_value phone_span)" "luhn_valid (pf_value card_span)" by code_simp+
  have "erase [phone_span] card_text = ''tel [REDACTED]11111111''"
    by (simp add: erase_def from_the_right_def replace_span_def REDACTED_def span_defs card_text_def)
  then show "pr_content (redact_findings True (resolve_overlaps [card_span, phone_span]) [] card_text) =
      ''tel [REDACTED]11111111''"
    by (simp add: redact_findings_def card_overlap pseudonyms_def apply_pseudonyms_def substitutions_def Let_def)
qed

text \<open>
  The card pattern matches numbers written in groups, but its validator wants digits only, so such
  a number is never found.
\<close>

theorem grouped_card_is_refused:
  "luhn_valid ''4111111111111111'' \<and> \<not> luhn_valid ''4111 1111 1111 1111''"
  by code_simp

text \<open>
  Without pseudonyms the soft findings are erased at their offsets in the original text, although
  the direct ones have already moved what follows them: the surname stays.
\<close>

definition mail_text :: string where
  "mail_text = ''ab@c.de Ann Lee''"

theorem erasing_names_misses_them:
  "pr_content (redact_findings False [span_of ''email'' Direct 0 ''ab@c.de''] [span_of ''person_name'' Soft 8 ''Ann Lee''] mail_text)
     = ''[REDACTE[REDACTED]Lee''"
  by (simp add: redact_findings_def Let_def clash_def erase_def from_the_right_def replace_span_def REDACTED_def
      span_of_def mail_text_def)

text \<open>
  Values that differ in case share a pseudonym, and only the first spelling is replaced: the other
  stays in the text although it is reported as pseudonymised.
\<close>

theorem other_spelling_stays:
  "pr_content (redact_findings True [] acme ''Acme Inc, ACME Inc'') = ''[ORG_1], ACME Inc'' \<and>
   length (pr_findings (redact_findings True [] acme ''Acme Inc, ACME Inc'')) = 2"
  by code_simp

text \<open>
  The digits an overlap leaves behind can be a finding of their own in a second scan: behind the
  phone number a routing number comes to light once the span is replaced.  \<open>secondary_redact\<close> takes
  such a finding for one the model made up and drops the memory.
\<close>

definition phone_and_routing :: pii_tables where
  "phone_and_routing =
     \<lparr>pt_direct = [(''phone'', phone_label_re, None), (''bank_account'', routing_re, Some aba_routing_valid)],
      pt_soft = [], pt_stopwords = [], pt_states = []\<rparr>"

definition fused_text :: string where
  "fused_text = ''tel 555 12 34   12345678021000021''"

definition left_text :: string where
  "left_text = ''tel [REDACTED]021000021''"

lemma first_hits:
  "finditer phone_label_re fused_text = [\<lparr>ht_start = 0, ht_text = ''tel 555 12 34   12345678'',
     ht_caps = [\<lparr>cp_group = 1, cp_start = 4, cp_text = ''555 12 34   12345678''\<rparr>]\<rparr>]"
  "finditer routing_re fused_text = []"
  by code_simp+

lemma second_hits:
  "finditer phone_label_re left_text = []"
  "finditer routing_re left_text = [\<lparr>ht_start = 14, ht_text = ''021000021'',
     ht_caps = [\<lparr>cp_group = 1, cp_start = 14, cp_text = ''021000021''\<rparr>]\<rparr>]"
  by code_simp+

lemma both_valid: "phone_plausible ''555 12 34   12345678''" "aba_routing_valid ''021000021''"
  by code_simp+

lemma first_scan:
  "resolve_overlaps (scan_direct (pt_direct phone_and_routing) fused_text) = [span_of ''phone'' Direct 4 ''555 12 34   12345678'']"
  by (simp add: phone_and_routing_def scan_direct_def first_hits direct_finding_def both_valid resolve_overlaps_def span_of_def
      List.map_filter_def)

lemma second_scan:
  "map pf_category (resolve_overlaps (scan_direct (pt_direct phone_and_routing) left_text)) = [''bank_account'']"
  by (simp add: phone_and_routing_def scan_direct_def second_hits direct_finding_def both_valid resolve_overlaps_def
      List.map_filter_def)

lemma no_soft: "resolve_overlaps (scan_soft w x (pt_soft phone_and_routing) s) = []"
  by (simp add: phone_and_routing_def scan_soft_def resolve_overlaps_def)

lemma first_erased: "erase [span_of ''phone'' Direct 4 ''555 12 34   12345678''] fused_text = left_text"
  by (simp add: span_of_def erase_def from_the_right_def replace_span_def REDACTED_def fused_text_def left_text_def)

theorem second_scan_finds_more:
  "set (pt_direct phone_and_routing) \<subseteq> set direct_specs \<and>
   map pf_category (pr_findings (scan_pii phone_and_routing True fused_text)) = [''phone''] \<and>
   pr_content (scan_pii phone_and_routing True fused_text) = left_text \<and>
   map pf_category (pr_findings (scan_pii phone_and_routing True left_text)) = [''bank_account'']"
proof (intro conjI)
  show "set (pt_direct phone_and_routing) \<subseteq> set direct_specs"
    by (simp add: phone_and_routing_def direct_specs_def)
  have n: "fused_text \<noteq> []" "left_text \<noteq> []" by (simp_all add: fused_text_def left_text_def)
  show "map pf_category (pr_findings (scan_pii phone_and_routing True fused_text)) = [''phone'']"
    by (simp add: scan_pii_def n redact_findings_def first_scan no_soft Let_def span_of_def)
  show "pr_content (scan_pii phone_and_routing True fused_text) = left_text"
    by (simp add: scan_pii_def n redact_findings_def first_scan no_soft Let_def first_erased
        pseudonyms_def apply_pseudonyms_def substitutions_def)
  have sorted: "sort_key pf_start (resolve_overlaps fs) = resolve_overlaps fs" for fs
    by (simp add: resolve_overlaps_def sort_key_id_if_sorted)
  show "map pf_category (pr_findings (scan_pii phone_and_routing True left_text)) = [''bank_account'']"
    by (simp add: scan_pii_def n redact_findings_def no_soft Let_def sorted second_scan)
qed

end
