(* ===== verification/Relation_Extraction.thy ===== *)
theory Relation_Extraction
  imports Sensitive_Filter "HOL-Library.AList"
begin

section \<open>Typed relations between entities\<close>

text \<open>
  \<open>contexta/core/entities/relation_extractor.py\<close>: which candidate names become entities and of which
  type, and the relations a text states between the entities of a memory, at most one for each pair.
  \<open>matched_specific\<close> is a dict whose keys are unordered pairs of ids; here it is an association list in
  insertion order whose keys have the smaller id first.  \<open>Entity\<close> is of \<open>contexta/models/entity.py\<close>; of its
  JSON attributes the count of mentions is a field of its own.
\<close>

record entity =
  en_id :: uuid
  en_org :: uuid
  en_user :: uuid
  en_type :: string
  en_name :: string
  en_mentions :: "int option"
  en_attrs :: json
  en_updated :: instant

subsection \<open>Vocabulary\<close>

definition excluded_entity_words :: "string list" where
  "excluded_entity_words =
    [''the'', ''a'', ''an'', ''this'', ''that'', ''these'', ''those'', ''i'', ''me'', ''my'',
     ''we'', ''us'', ''our'', ''you'', ''your'', ''he'', ''him'', ''his'', ''she'', ''her'',
     ''they'', ''them'', ''their'', ''it'', ''its'', ''what'', ''when'', ''where'', ''who'',
     ''which'', ''whose'', ''why'', ''how'', ''is'', ''am'', ''are'', ''was'', ''were'', ''be'',
     ''been'', ''being'', ''do'', ''does'', ''did'', ''have'', ''has'', ''had'', ''having'',
     ''would'', ''could'', ''should'', ''will'', ''can'', ''may'', ''might'', ''must'', ''and'',
     ''or'', ''but'', ''if'', ''so'', ''then'', ''because'', ''as'', ''until'', ''while'', ''of'',
     ''at'', ''by'', ''for'', ''with'', ''about'', ''against'', ''between'', ''into'', ''through'',
     ''during'', ''before'', ''after'', ''above'', ''below'', ''to'', ''from'', ''up'', ''down'',
     ''in'', ''out'', ''on'', ''off'', ''over'', ''under'', ''again'', ''further'', ''there'',
     ''here'', ''all'', ''any'', ''both'', ''each'', ''few'', ''more'', ''most'', ''other'',
     ''some'', ''such'', ''no'', ''nor'', ''not'', ''only'', ''own'', ''same'', ''too'', ''very'',
     ''yeah'', ''yes'', ''nope'', ''hey'', ''good'', ''great'', ''thanks'', ''thank'', ''date'',
     ''gonna'', ''wanna'', ''gotta'', ''yesterday'', ''today'', ''tomorrow'', ''sure'', ''well'',
     ''just'', ''also'', ''wow'', ''hope'', ''congrats'', ''nothing'', ''anything'', ''something'',
     ''maybe'', ''actually'', ''really'', ''since'', ''even'', ''speaker'', ''user'', ''time'',
     ''day'', ''week'', ''month'', ''year'', ''lot'', ''lots'', ''thing'', ''things'', ''stuff'',
     ''mel'']"

definition generic_noise_words :: "string list" where
  "generic_noise_words =
    [''these'', ''those'', ''crazy'', ''thing'', ''things'', ''stuff'', ''work'', ''job'',
     ''career'', ''engine'', ''architecture'', ''system'', ''monitor'', ''project'', ''product'',
     ''feature'', ''version'', ''update'', ''model'', ''layer'', ''module'', ''service'', ''tool'',
     ''tools'', ''library'', ''code'', ''file'', ''data'', ''database'', ''query'', ''memory'',
     ''memories'', ''context'', ''search'', ''retrieval'', ''agent'', ''agents'', ''user'',
     ''assistant'', ''client'', ''server'', ''process'', ''cycle'', ''state'', ''overview'',
     ''summary'', ''plan'', ''notes'', ''status'', ''decision'', ''advice'', ''lead'', ''roles'',
     ''candidate'', ''patent'', ''cold'', ''warm'', ''active'']"

definition known_technologies :: "string list" where
  "known_technologies =
    [''python'', ''rust'', ''typescript'', ''javascript'', ''golang'', ''c++'', ''c#'',
     ''postgres'', ''postgresql'', ''redis'', ''qdrant'', ''lancedb'', ''scylladb'', ''docker'',
     ''fastapi'', ''tauri'', ''react'', ''nextjs'', ''next.js'', ''vue'', ''mcp'', ''fastembed'',
     ''sqlite'', ''graphql'', ''rest'', ''bge'', ''bm25'', ''sqlalchemy'', ''asyncpg'',
     ''pydantic'', ''uvicorn'', ''git'', ''linux'', ''cuda'', ''ai'', ''llm'', ''ml'', ''nlp'']"

definition known_companies :: "string list" where
  "known_companies =
    [''google'', ''anthropic'', ''openai'', ''microsoft'', ''apple'', ''ibm'', ''meta'',
     ''wellfound'', ''yc'', ''y combinator'', ''stripe'', ''supabase'', ''amazon'', ''aws'',
     ''huggingface'', ''github'', ''gitlab'']"

definition known_projects :: "string list" where
  "known_projects =
    [''contexta'', ''luno'', ''nori'', ''loci'', ''haru'', ''tydl'', ''square'', ''aethlon'',
     ''aethlon infra'', ''memento'']"

subsection \<open>Entity types and candidates\<close>

definition title_prefixes :: "string list" where
  "title_prefixes = [''mr.'', ''ms.'', ''dr.'', ''prof.'']"

definition known_people :: "string list" where
  "known_people = [''jenith'', ''claude'', ''melanie'', ''caroline'', ''alice'', ''bob'', ''charlie'']"

definition infer_entity_type :: "string \<Rightarrow> string \<Rightarrow> string" where
  "infer_entity_type name context =
     (let n = strip (lower name); c = lower context in
      if n \<in> set known_projects then ''project''
      else if n \<in> set known_technologies \<or> list_ex (contains n) [''db'', ''sql'', ''api'', ''framework'', ''protocol'']
      then ''technology''
      else if n \<in> set known_companies \<or> list_ex (contains n) [''inc'', ''llc'', ''corp'', ''labs'', ''company'']
      then ''company''
      else if contains c ''project'' \<or> contains c ''app'' \<or> contains c ''terminal'' then ''project''
      else if list_ex (starts_with n) title_prefixes then ''person''
      else if n \<in> set known_people then ''person''
      else ''concept'')"

text \<open>\<open>s.strip(chars)\<close>\<close>

definition strip_chars :: "string \<Rightarrow> string \<Rightarrow> string" where
  "strip_chars chars s = rev (dropWhile (\<lambda>c. c \<in> set chars) (rev (dropWhile (\<lambda>c. c \<in> set chars) s)))"

definition candidate_marks :: string where
  "candidate_marks = ''#@.,;:!?()[]'' @ quote_chars"

definition clean_candidate :: "string \<Rightarrow> string" where
  "clean_candidate cand = strip_chars candidate_marks (strip cand)"

text \<open>\<open>s.isupper()\<close>: a cased letter, and no cased letter that is not upper case.\<close>

definition is_lower_letter :: "char \<Rightarrow> bool" where
  "is_lower_letter c \<longleftrightarrow> (97 \<le> code c \<and> code c \<le> 122) \<or> code c \<in> {170, 181, 186} \<or> (223 \<le> code c \<and> code c \<noteq> 247)"

definition all_upper :: "string \<Rightarrow> bool" where
  "all_upper s \<longleftrightarrow> list_ex is_upper_letter s \<and> \<not> list_ex is_lower_letter s"

definition known_entity :: "string \<Rightarrow> bool" where
  "known_entity n \<longleftrightarrow> n \<in> set known_technologies \<or> n \<in> set known_companies \<or> n \<in> set known_projects"

definition names_entity :: "string \<Rightarrow> bool" where
  "names_entity s \<longleftrightarrow> known_entity (lower s) \<or> (all_upper s \<and> 2 \<le> length s \<and> length s \<le> 5) \<or>
     is_upper_letter (hd s) \<or> CHR '' '' \<in> set s"

fun filter_candidates :: "string \<Rightarrow> string list \<Rightarrow> string list \<Rightarrow> (string \<times> string) list" where
  "filter_candidates text seen [] = []"
| "filter_candidates text seen (cand # cands) =
     (let c = clean_candidate cand; l = lower c in
      if length c < 2 \<or> l \<in> set excluded_entity_words \<or> l \<in> set generic_noise_words \<or> list_all is_digit c \<or>
         l \<in> set seen \<or> \<not> names_entity c
      then filter_candidates text seen cands
      else (c, infer_entity_type c text) # filter_candidates text (l # seen) cands)"

definition filter_entity_candidates :: "string list \<Rightarrow> string \<Rightarrow> (string \<times> string) list" where
  "filter_entity_candidates candidates text = filter_candidates text [] candidates"

subsection \<open>Relation patterns\<close>

definition sp :: regex where "sp = plus space_cls"

definition whole_words :: "regex list \<Rightarrow> regex" where
  "whole_words rs = seqs [WordB, alts rs, WordB]"

text \<open>\<open>v\s+w\<close>, and \<open>v\s+(?:an?|the)?\s*\<close>\<close>

definition two :: "string \<Rightarrow> string \<Rightarrow> regex" where
  "two v w = seqs [lit v, sp, lit w]"

definition with_article :: "regex \<Rightarrow> regex" where
  "with_article r = seqs [r, sp, opt (alts [Seq (lit ''a'') (opt (lit ''n'')), lit ''the'']), star space_cls]"

definition relation_patterns :: "(regex \<times> string \<times> string) list" where
  "relation_patterns =
    [(whole_words [two ''integrates'' ''with'', lit ''integrates'', two ''connects'' ''to'', two ''connects'' ''with'',
        two ''interfaces'' ''with'', two ''syncs'' ''with''], ''integrates_with'', ''integrated_by''),
     (whole_words [two ''used'' ''by'', two ''built'' ''for'', two ''designed'' ''for'', two ''consumed'' ''by''],
        ''used_by'', ''uses''),
     (whole_words [lit ''uses'', lit ''utilizes'', lit ''leverages'', lit ''powers'', two ''runs'' ''on'', two ''built'' ''on'',
        two ''built'' ''with''], ''uses'', ''used_by''),
     (whole_words [two ''depends'' ''on'', seqs [lit ''relies'', sp, alts [lit ''on'', lit ''upon'']], lit ''requires''],
        ''depends_on'', ''dependency_of''),
     (whole_words [two ''works'' ''on'', lit ''develops'', lit ''building'', lit ''architecting'', lit ''maintains''],
        ''works_on'', ''worked_on_by''),
     (whole_words [seqs [lit ''works'', sp, alts [lit ''at'', lit ''for'']], seqs [lit ''employed'', sp, alts [lit ''at'', lit ''by'']],
        lit ''joined''], ''works_at'', ''employs''),
     (whole_words [two ''created'' ''by'', two ''founded'' ''by'', two ''authored'' ''by'', two ''built'' ''by''],
        ''created_by'', ''created''),
     (whole_words [two ''part'' ''of'', two ''subsystem'' ''of'', two ''component'' ''of'', two ''module'' ''in'', two ''arm'' ''of''],
        ''part_of'', ''has_component''),
     (whole_words [lit ''prefers'', lit ''likes'', lit ''loves'', lit ''favors''], ''prefers'', ''preferred_by''),
     (whole_words [lit ''dislikes'', lit ''hates'', lit ''avoids''], ''avoids'', ''avoided_by''),
     (whole_words [two ''collaborates'' ''with'', two ''partners'' ''with'', two ''working'' ''with''],
        ''collaborates_with'', ''collaborates_with''),
     (whole_words [two ''located'' ''in'', two ''based'' ''in'', two ''lives'' ''in''], ''located_in'', ''location_of''),
     (whole_words [with_article (lit ''is''), with_article (two ''acts'' ''as''), with_article (two ''serves'' ''as'')],
        ''is_a'', ''has_instance'')]"

definition emitted_relationship_types :: "string list" where
  "emitted_relationship_types = concat (map (\<lambda>(p, f, b). [f, b]) relation_patterns) @ [''related_to'']"

subsection \<open>Sentences\<close>

definition is_line_break :: "char \<Rightarrow> bool" where
  "is_line_break c \<longleftrightarrow> code c \<in> {10, 11, 12, 13, 28, 29, 30, 133}"

fun line_go :: "string \<Rightarrow> string \<Rightarrow> string list" where
  "line_go w [] = (if w = [] then [] else [rev w])"
| "line_go w (c # cs) =
     (if is_line_break c
      then rev w # line_go [] (if code c = 13 \<and> cs \<noteq> [] \<and> code (hd cs) = 10 then tl cs else cs)
      else line_go (c # w) cs)"

definition split_lines :: "string \<Rightarrow> string list" where
  "split_lines s = line_go [] s"

definition sentence_end_re :: regex where
  "sentence_end_re = Seq (Behind (\<lambda>b. b \<noteq> [] \<and> hd b \<in> set ''.!?'')) sp"

definition sentences :: "string \<Rightarrow> string list" where
  "sentences text = concat (map (\<lambda>line.
     if strip line = [] then [] else filter (\<lambda>s. s \<noteq> []) (map strip (re_split sentence_end_re (strip line))))
     (split_lines text))"

subsection \<open>Relations\<close>

type_synonym relation = "entity \<times> string \<times> entity"
type_synonym pair_key = "uuid \<times> uuid"

definition pair_of :: "entity \<Rightarrow> entity \<Rightarrow> pair_key" where
  "pair_of a b = (min (en_id a) (en_id b), max (en_id a) (en_id b))"

definition name_re :: "entity \<Rightarrow> regex" where
  "name_re e = seqs [WordB, lit (lower (en_name e)), WordB]"

definition present_entities :: "entity list \<Rightarrow> string \<Rightarrow> (nat \<times> entity) list" where
  "present_entities entities s =
     sort_key fst (concat (map (\<lambda>e. map (\<lambda>h. (ht_start h, e)) (finditer (name_re e) s)) entities))"

fun pairs_of :: "'a list \<Rightarrow> ('a \<times> 'a) list" where
  "pairs_of [] = []"
| "pairs_of (x # xs) = map (Pair x) xs @ pairs_of xs"

definition between_span :: "string \<Rightarrow> nat \<times> entity \<Rightarrow> nat \<Rightarrow> string" where
  "between_span s a pos_b =
     (let start = fst a + length (en_name (snd a)) in strip (take (pos_b - start) (drop start s)))"

definition relation_in :: "string \<Rightarrow> string option" where
  "relation_in span = map_option (\<lambda>(p, f, b). f) (find (\<lambda>(p, f, b). finditer p span \<noteq> []) relation_patterns)"

definition relate :: "string \<Rightarrow> (nat \<times> entity) \<times> (nat \<times> entity) \<Rightarrow> (pair_key \<times> relation) list \<Rightarrow> (pair_key \<times> relation) list" where
  "relate s = (\<lambda>(a, b) matched.
     if en_id (snd a) = en_id (snd b) then matched
     else
       let span = between_span s a (fst b)
       in if length (split_ws span) \<le> 16
          then case relation_in span of
                 Some rel \<Rightarrow> AList.update (pair_of (snd a) (snd b)) (snd a, rel, snd b) matched
               | None \<Rightarrow> matched
          else matched)"

definition relate_sentence :: "entity list \<Rightarrow> string \<Rightarrow> (pair_key \<times> relation) list \<Rightarrow> (pair_key \<times> relation) list" where
  "relate_sentence entities sent matched =
     fold (relate (lower sent)) (pairs_of (present_entities entities (lower sent))) matched"

definition related_to_max_entities :: nat where
  "related_to_max_entities = 4"

definition related_to_max_pairs :: nat where
  "related_to_max_pairs = 6"

fun backfill_pairs :: "pair_key list \<Rightarrow> relation list \<Rightarrow> (entity \<times> entity) list \<Rightarrow> relation list" where
  "backfill_pairs covered out [] = out"
| "backfill_pairs covered out ((a, b) # ps) =
     (if related_to_max_pairs \<le> length out then out
      else if en_id a = en_id b \<or> pair_of a b \<in> set covered then backfill_pairs covered out ps
      else backfill_pairs (pair_of a b # covered) (out @ [(a, ''related_to'', b)]) ps)"

definition related_to_backfill :: "entity list \<Rightarrow> pair_key list \<Rightarrow> relation list" where
  "related_to_backfill entities covered =
     (if related_to_max_entities < length entities then [] else backfill_pairs covered [] (pairs_of entities))"

definition extract_semantic_relations :: "string \<Rightarrow> entity list \<Rightarrow> relation list" where
  "extract_semantic_relations text entities =
     (if length entities < 2 then []
      else let matched = fold (relate_sentence entities) (sentences text) []
           in map snd matched @ related_to_backfill entities (map fst matched))"

end
