(* ===== verification/Entity_Resolver.thy ===== *)
theory Entity_Resolver
  imports Relation_Extraction Complex_Main
begin

section \<open>Resolving the entities of a batch\<close>

text \<open>
  \<open>BulkEntityResolver\<close> of \<open>contexta/core/entities/bulk_resolver.py\<close> and the two lookups of
  \<open>EntityRepository\<close> it uses.  The rows are those of the entity table, as the objects the session
  holds for them: the code changes them in place and stages an update for each.  \<open>entity_by_name\<close>,
  \<open>fuzzy_by_name\<close> and \<open>staged_updates\<close> are association lists.  Trigram similarity is PostgreSQL's and an
  argument, as are the ids \<open>uuid4\<close> draws; the ids of edges are left out.
\<close>

record batch_memory =
  bm_id :: uuid
  bm_type :: string
  bm_title :: string
  bm_content :: string
  bm_entities :: "string list"

record entity_link =
  lk_memory :: uuid
  lk_entity :: uuid
  lk_org :: uuid

record entity_edge =
  ee_source :: uuid
  ee_target :: uuid
  ee_type :: string
  ee_org :: uuid

record entity_update =
  eu_mentions :: "int option"
  eu_attrs :: json
  eu_updated :: instant

record resolver =
  rw_org :: uuid
  rw_user :: uuid
  rw_now :: instant
  rw_similarity :: "string \<Rightarrow> string \<Rightarrow> rat"
  rw_prefilter :: rat
  rw_ids :: "nat \<Rightarrow> uuid"
  rw_edges :: bool

record batch =
  bt_rows :: "entity list"
  bt_new :: "entity list"
  bt_names :: "(string \<times> uuid) list"
  bt_fuzzy :: "(string \<times> uuid option) list"
  bt_updates :: "(uuid \<times> entity_update) list"
  bt_links :: "entity_link list"
  bt_edges :: "entity_edge list"
  bt_resolved :: "(uuid \<times> uuid list) list"

subsection \<open>Lookups\<close>

definition owned :: "resolver \<Rightarrow> entity \<Rightarrow> bool" where
  "owned w e \<longleftrightarrow> en_org e = rw_org w \<and> en_user e = rw_user w"

definition get_by_names :: "resolver \<Rightarrow> string list \<Rightarrow> entity list \<Rightarrow> entity list" where
  "get_by_names w names rows = filter (\<lambda>e. owned w e \<and> lower (en_name e) \<in> set (map lower names)) rows"

definition trgm_match_threshold :: rat where
  "trgm_match_threshold = 6 / 10"

definition find_similar_names :: "resolver \<Rightarrow> string \<Rightarrow> entity list \<Rightarrow> entity list" where
  "find_similar_names w name rows =
     (if name = [] then []
      else take 5 (sort_key (\<lambda>e. - rw_similarity w (en_name e) name)
        (sort_key en_id (filter (\<lambda>e. owned w e \<and> rw_prefilter w \<le> rw_similarity w (en_name e) name \<and>
           trgm_match_threshold < rw_similarity w (en_name e) name) rows))))"

definition seed_one :: "entity \<Rightarrow> (string \<times> uuid) list \<Rightarrow> (string \<times> uuid) list" where
  "seed_one e names =
     (if map_of names (lower (en_name e)) = None then names @ [(lower (en_name e), en_id e)] else names)"

definition seed_exact_matches :: "resolver \<Rightarrow> string list \<Rightarrow> entity list \<Rightarrow> (string \<times> uuid) list" where
  "seed_exact_matches w mentions rows = fold seed_one (get_by_names w mentions rows) []"

definition digit_groups :: "string \<Rightarrow> string list" where
  "digit_groups s = map ht_text (finditer (plus digit_cls) (lower s))"

definition fuzzy_match :: "resolver \<Rightarrow> string \<Rightarrow> entity list \<Rightarrow> uuid option" where
  "fuzzy_match w name rows =
     map_option en_id (find (\<lambda>e. digit_groups (en_name e) = digit_groups name) (find_similar_names w name rows))"

subsection \<open>The type of a new entity\<close>

definition technology_tokens :: "string list" where
  "technology_tokens = [''python'', ''redis'', ''postgres'', ''fastapi'', ''docker'', ''k8s'']"

definition company_tokens :: "string list" where
  "company_tokens = [''inc'', ''llc'', ''corp'', ''company'', ''org'', ''labs'']"

definition memory_type_entities :: "(string \<times> string) list" where
  "memory_type_entities = [(''project'', ''project''), (''preference'', ''preference''), (''goal'', ''goal''),
     (''skill'', ''skill''), (''relationship'', ''person'')]"

definition word_split_re :: regex where
  "word_split_re = plus (Cls (\<lambda>c. \<not> (is_decimal c \<or> (97 \<le> code c \<and> code c \<le> 122))))"

definition new_entity_type :: "string \<Rightarrow> string \<Rightarrow> string" where
  "new_entity_type name memory_type =
     (let ws = filter (\<lambda>x. x \<noteq> []) (re_split word_split_re (lower name)) in
      if list_ex (\<lambda>x. x \<in> set technology_tokens) ws then ''technology''
      else if ws \<noteq> [] \<and> last ws \<in> set company_tokens then ''company''
      else case map_of memory_type_entities memory_type of Some t \<Rightarrow> t | None \<Rightarrow> ''topic'')"

subsection \<open>A mention\<close>

definition kept_mentions :: "batch_memory \<Rightarrow> string list" where
  "kept_mentions m =
     filter (\<lambda>n. 2 \<le> length n \<and> lower n \<notin> set excluded_entity_words) (map strip (bm_entities m))"

definition count_up :: "instant \<Rightarrow> entity \<Rightarrow> entity" where
  "count_up now e =
     e\<lparr>en_mentions := Some ((case en_mentions e of Some k \<Rightarrow> k | None \<Rightarrow> 1) + 1), en_updated := now\<rparr>"

definition touch :: "instant \<Rightarrow> uuid \<Rightarrow> entity list \<Rightarrow> entity list" where
  "touch now i es = map (\<lambda>e. if en_id e = i then count_up now e else e) es"

definition snapshot :: "entity \<Rightarrow> entity_update" where
  "snapshot e = \<lparr>eu_mentions = en_mentions e, eu_attrs = en_attrs e, eu_updated = en_updated e\<rparr>"

definition objects :: "batch \<Rightarrow> entity list" where
  "objects s = bt_rows s @ bt_new s"

definition mention_again :: "resolver \<Rightarrow> string \<Rightarrow> uuid \<Rightarrow> batch \<Rightarrow> batch" where
  "mention_again w l i s =
     (let s' = s\<lparr>bt_names := AList.update l i (bt_names s), bt_rows := touch (rw_now w) i (bt_rows s),
                 bt_new := touch (rw_now w) i (bt_new s)\<rparr>
      in if i \<in> set (map en_id (bt_new s)) then s'
         else case find (\<lambda>e. en_id e = i) (bt_rows s') of
                Some e \<Rightarrow> s'\<lparr>bt_updates := AList.update i (snapshot e) (bt_updates s)\<rparr>
              | None \<Rightarrow> s')"

definition new_entity :: "resolver \<Rightarrow> batch_memory \<Rightarrow> string \<Rightarrow> batch \<Rightarrow> entity" where
  "new_entity w m name s =
     \<lparr>en_id = rw_ids w (length (bt_new s)), en_org = rw_org w, en_user = rw_user w,
      en_type = new_entity_type name (bm_type m), en_name = name, en_mentions = Some 1, en_attrs = ''{}'',
      en_updated = rw_now w\<rparr>"

definition find_mentioned :: "resolver \<Rightarrow> string \<Rightarrow> batch \<Rightarrow> uuid option \<times> batch" where
  "find_mentioned w name s =
     (let l = lower name in
      case map_of (bt_names s) l of
        Some i \<Rightarrow> (Some i, s)
      | None \<Rightarrow>
          (case map_of (bt_fuzzy s) l of
             Some r \<Rightarrow> (r, s)
           | None \<Rightarrow> let r = fuzzy_match w name (bt_rows s) in (r, s\<lparr>bt_fuzzy := (l, r) # bt_fuzzy s\<rparr>)))"

definition resolve_mention :: "resolver \<Rightarrow> batch_memory \<Rightarrow> string \<Rightarrow> batch \<Rightarrow> uuid \<times> batch" where
  "resolve_mention w m name s =
     (case find_mentioned w name s of
        (Some i, s) \<Rightarrow> (i, mention_again w (lower name) i s)
      | (None, s) \<Rightarrow>
          let e = new_entity w m name s
          in (en_id e, s\<lparr>bt_names := AList.update (lower name) (en_id e) (bt_names s), bt_new := bt_new s @ [e]\<rparr>))"

subsection \<open>A memory and the batch\<close>

definition link_mention :: "resolver \<Rightarrow> batch_memory \<Rightarrow> string \<Rightarrow> uuid list \<times> batch \<Rightarrow> uuid list \<times> batch" where
  "link_mention w m name = (\<lambda>(resolved, s).
     case resolve_mention w m name s of (i, s) \<Rightarrow>
       if i \<in> set resolved then (resolved, s)
       else (resolved @ [i], s\<lparr>bt_links := bt_links s @ [\<lparr>lk_memory = bm_id m, lk_entity = i, lk_org = rw_org w\<rparr>]\<rparr>))"

definition edge_identity :: "entity_edge \<Rightarrow> uuid \<times> uuid \<times> string" where
  "edge_identity e = (ee_source e, ee_target e, ee_type e)"

text \<open>\<open>known_edges\<close> holds the identities of the edges of the batch so far.\<close>

definition note_edge :: "resolver \<Rightarrow> relation \<Rightarrow> entity_edge list \<Rightarrow> entity_edge list" where
  "note_edge w = (\<lambda>(a, rel, b) edges.
     if en_id a = en_id b \<or> (en_id a, en_id b, rel) \<in> set (map edge_identity edges) then edges
     else edges @ [\<lparr>ee_source = en_id a, ee_target = en_id b, ee_type = rel, ee_org = rw_org w\<rparr>])"

definition memory_text :: "batch_memory \<Rightarrow> string" where
  "memory_text m = bm_title m @ [char_of (10::nat)] @ bm_content m"

definition resolved_objects :: "batch \<Rightarrow> uuid list \<Rightarrow> entity list" where
  "resolved_objects s ids = List.map_filter (\<lambda>i. find (\<lambda>e. en_id e = i) (objects s)) ids"

definition resolve_memory :: "resolver \<Rightarrow> batch_memory \<Rightarrow> batch \<Rightarrow> batch" where
  "resolve_memory w m s =
     (case fold (link_mention w m) (kept_mentions m) ([], s) of (resolved, s) \<Rightarrow>
        s\<lparr>bt_resolved := AList.update (bm_id m) resolved (bt_resolved s),
          bt_edges := (if 1 < length resolved \<and> rw_edges w
                       then fold (note_edge w) (extract_semantic_relations (memory_text m) (resolved_objects s resolved)) (bt_edges s)
                       else bt_edges s)\<rparr>)"

definition empty_batch :: "entity list \<Rightarrow> batch" where
  "empty_batch rows =
     \<lparr>bt_rows = rows, bt_new = [], bt_names = [], bt_fuzzy = [], bt_updates = [], bt_links = [], bt_edges = [], bt_resolved = []\<rparr>"

definition resolve_batch :: "resolver \<Rightarrow> batch_memory list \<Rightarrow> entity list \<Rightarrow> batch" where
  "resolve_batch w memories rows =
     (let mentions = concat (map kept_mentions memories) in
      if mentions = [] then empty_batch rows
      else fold (resolve_memory w) memories
             ((empty_batch rows)\<lparr>bt_names := seed_exact_matches w mentions rows\<rparr>))"

definition insertable_edges :: "entity_edge list \<Rightarrow> entity_edge list" where
  "insertable_edges edges = filter (\<lambda>e. ee_source e \<noteq> ee_target e) edges"

text \<open>\<open>ON CONFLICT DO NOTHING\<close>, a row at a time.\<close>

definition insert_edge :: "entity_edge \<Rightarrow> entity_edge list \<Rightarrow> entity_edge list" where
  "insert_edge e table =
     (if list_ex (\<lambda>r. ee_org r = ee_org e \<and> edge_identity r = edge_identity e) table then table else table @ [e])"

text \<open>The rows inserted, and the table; \<open>None\<close> is the \<open>AuthorizationError\<close> of an edge of another tenant.\<close>

definition insert_many_ignore_conflicts ::
  "uuid \<Rightarrow> entity_edge list \<Rightarrow> entity_edge list \<Rightarrow> (entity_edge list \<times> entity_edge list) option" where
  "insert_many_ignore_conflicts tenant edges table =
     (if list_all (\<lambda>e. ee_org e = tenant) edges
      then let after = fold insert_edge (insertable_edges edges) table in Some (drop (length table) after, after)
      else None)"

end
