(* ===== verification/Entity_Claims.thy ===== *)
theory Entity_Claims
  imports Entity_Resolver
begin

section \<open>What relation extraction guarantees\<close>

text \<open>
  At most one relation for each pair of entities, each well formed, and the backfill bounded.
\<close>

subsection \<open>Relations of a text\<close>

definition key_of :: "relation \<Rightarrow> pair_key" where
  "key_of = (\<lambda>(a, rel, b). pair_of a b)"

definition relation_ok :: "entity list \<Rightarrow> relation \<Rightarrow> bool" where
  "relation_ok entities = (\<lambda>(a, rel, b). a \<in> set entities \<and> b \<in> set entities \<and> en_id a \<noteq> en_id b \<and>
     rel \<in> set emitted_relationship_types)"

definition matched_ok :: "entity list \<Rightarrow> (pair_key \<times> relation) list \<Rightarrow> bool" where
  "matched_ok entities m \<longleftrightarrow> distinct (map fst m) \<and> (\<forall>(k, r) \<in> set m. k = key_of r \<and> relation_ok entities r)"

lemma set_update: "x \<in> set (AList.update k v al) \<Longrightarrow> x = (k, v) \<or> x \<in> set al"
  by (induction al) (auto split: if_splits)

lemma matched_ok_update:
  "matched_ok entities m \<Longrightarrow> relation_ok entities r \<Longrightarrow> k = key_of r \<Longrightarrow> matched_ok entities (AList.update k r m)"
  unfolding matched_ok_def by (auto simp: distinct_update dest!: set_update)

lemma relation_in_emitted: "relation_in gap = Some rel \<Longrightarrow> rel \<in> set emitted_relationship_types"
proof -
  assume "relation_in gap = Some rel"
  then obtain p b where "find (\<lambda>(p, f, b). finditer p gap \<noteq> []) relation_patterns = Some (p, rel, b)"
    by (auto simp: relation_in_def)
  then have "(p, rel, b) \<in> set relation_patterns" by (auto simp: find_Some_iff) (metis nth_mem)
  then have "rel \<in> set (concat (map (\<lambda>(p, f, b). [f, b]) relation_patterns))"
    by (simp only: set_concat set_map UN_iff) (rule bexI [of _ "[rel, b]"], simp, rule image_eqI [of _ _ "(p, rel, b)"], simp_all)
  then show ?thesis by (simp only: emitted_relationship_types_def set_append Un_iff) simp
qed

lemma set_pairs_of: "(x, y) \<in> set (pairs_of xs) \<Longrightarrow> x \<in> set xs \<and> y \<in> set xs"
  by (induction xs) auto

lemma relate_ok:
  assumes "matched_ok entities m" and "snd a \<in> set entities" and "snd b \<in> set entities"
  shows "matched_ok entities (relate s (a, b) m)"
proof (cases "en_id (snd a) = en_id (snd b)")
  case False
  show ?thesis
  proof (cases "relation_in (between_span s a (fst b))")
    case (Some rel)
    have "relation_ok entities (snd a, rel, snd b)"
      using assms False relation_in_emitted [OF Some] by (simp add: relation_ok_def)
    from matched_ok_update [OF assms(1) this] assms(1) Some False show ?thesis
      by (simp add: relate_def Let_def key_of_def)
  qed (use assms(1) False in \<open>simp add: relate_def Let_def\<close>)
qed (use assms(1) in \<open>simp add: relate_def\<close>)

lemma fold_invariant:
  assumes "\<And>x s. x \<in> set xs \<Longrightarrow> P s \<Longrightarrow> P (f x s)" and "P s"
  shows "P (fold f xs s)"
  using assms by (induction xs arbitrary: s) auto

lemma relate_sentence_ok: "matched_ok entities m \<Longrightarrow> matched_ok entities (relate_sentence entities sent m)"
  unfolding relate_sentence_def
proof (rule fold_invariant)
  fix x m assume x: "x \<in> set (pairs_of (present_entities entities (lower sent)))" and m: "matched_ok entities m"
  obtain a b where ab: "x = (a, b)" by (cases x)
  have "snd a \<in> set entities" "snd b \<in> set entities"
    using set_pairs_of [OF x [unfolded ab]] by (auto simp: present_entities_def)
  from relate_ok [OF m this] show "matched_ok entities (relate (lower sent) x m)" by (simp add: ab)
qed

lemma backfill_ok:
  assumes "distinct (map key_of out)" and "set (map key_of out) \<inter> set old = {}" and "set covered = set (map key_of out) \<union> set old"
    and "\<forall>r \<in> set out. relation_ok entities r \<and> fst (snd r) = ''related_to''"
    and "\<forall>(a, b) \<in> set ps. a \<in> set entities \<and> b \<in> set entities" and "length out \<le> 6"
  shows "distinct (map key_of (backfill_pairs covered out ps)) \<and> set (map key_of (backfill_pairs covered out ps)) \<inter> set old = {} \<and>
    (\<forall>r \<in> set (backfill_pairs covered out ps). relation_ok entities r \<and> fst (snd r) = ''related_to'') \<and>
    length (backfill_pairs covered out ps) \<le> 6"
  using assms
proof (induction covered out ps rule: backfill_pairs.induct)
  case (2 covered out a b ps)
  consider "related_to_max_pairs \<le> length out" | "\<not> related_to_max_pairs \<le> length out" "en_id a = en_id b \<or> pair_of a b \<in> set covered"
    | "\<not> related_to_max_pairs \<le> length out" "en_id a \<noteq> en_id b" "pair_of a b \<notin> set covered" by blast
  then show ?case
  proof cases
    case 1
    with "2.prems" show ?thesis by simp
  next
    case 2
    with "2.IH"(1) "2.prems" show ?thesis by simp
  next
    case 3
    let ?r = "(a, ''related_to'', b)"
    have new: "relation_ok entities ?r" using 3 "2.prems"(5) by (simp add: relation_ok_def emitted_relationship_types_def)
    have d: "distinct (map key_of (out @ [?r]))" "set (map key_of (out @ [?r])) \<inter> set old = {}"
      "set (pair_of a b # covered) = set (map key_of (out @ [?r])) \<union> set old"
      using "2.prems"(1,2,3) 3 by (auto simp: key_of_def)
    have l: "length (out @ [?r]) \<le> 6" using 3 by (simp add: related_to_max_pairs_def)
    have all: "\<forall>r \<in> set (out @ [?r]). relation_ok entities r \<and> fst (snd r) = ''related_to''" using "2.prems"(4) new by simp
    have rest: "\<forall>(a, b) \<in> set ps. a \<in> set entities \<and> b \<in> set entities" using "2.prems"(5) by simp
    from "2.IH"(2) [OF _ _ d all rest l] 3 show ?thesis by simp
  qed
qed simp

lemma relations_of_text:
  fixes content entities
  defines "rels \<equiv> extract_semantic_relations content entities"
  shows "distinct (map key_of rels)" and "\<forall>r \<in> set rels. relation_ok entities r"
    and "2 \<le> length entities \<Longrightarrow> \<exists>typed untyped. rels = typed @ untyped \<and> length untyped \<le> 6 \<and>
      (\<forall>r \<in> set untyped. fst (snd r) = ''related_to'')"
proof -
  let ?m = "fold (relate_sentence entities) (sentences content) []"
  let ?b = "related_to_backfill entities (map fst ?m)"
  have m: "matched_ok entities ?m"
    by (rule fold_invariant) (simp_all add: relate_sentence_ok, simp add: matched_ok_def)
  have keys: "map key_of (map snd ?m) = map fst ?m" using m by (auto simp: matched_ok_def)
  have b: "distinct (map key_of ?b) \<and> set (map key_of ?b) \<inter> set (map fst ?m) = {} \<and>
      (\<forall>r \<in> set ?b. relation_ok entities r \<and> fst (snd r) = ''related_to'') \<and> length ?b \<le> 6"
  proof (cases "related_to_max_entities < length entities")
    case False
    have "\<forall>(a, b) \<in> set (pairs_of entities). a \<in> set entities \<and> b \<in> set entities" using set_pairs_of by fastforce
    from backfill_ok [of "[]" "map fst ?m" "map fst ?m", OF _ _ _ _ this] False show ?thesis
      by (simp add: related_to_backfill_def)
  qed (simp add: related_to_backfill_def)
  have two: "rels = (if length entities < 2 then [] else map snd ?m @ ?b)"
    by (simp add: rels_def extract_semantic_relations_def Let_def)
  have dm: "distinct (map fst ?m)" using m by (simp add: matched_ok_def)
  have "distinct (map key_of (map snd ?m @ ?b))"
    unfolding map_append keys distinct_append using b dm by blast
  then show "distinct (map key_of rels)" by (simp add: two)
  have "\<forall>r \<in> set (map snd ?m). relation_ok entities r" using m by (auto simp: matched_ok_def)
  with b show "\<forall>r \<in> set rels. relation_ok entities r" by (simp add: two ball_Un)
  show "2 \<le> length entities \<Longrightarrow> \<exists>typed untyped. rels = typed @ untyped \<and> length untyped \<le> 6 \<and>
      (\<forall>r \<in> set untyped. fst (snd r) = ''related_to'')"
    using b by (intro exI [of _ "map snd ?m"] exI [of _ ?b]) (simp add: two)
qed

text \<open>
  A text gives at most one relation for each pair of entities, whatever their order, each between two
  different ones of the entities given and of a type that is pinned; at most six of them, the last
  ones, are there only because the entities occur together.
\<close>

theorem one_relation_per_pair:
  "distinct (map key_of (extract_semantic_relations content entities)) \<and>
   list_all (relation_ok entities) (extract_semantic_relations content entities) \<and>
   (\<exists>typed untyped. extract_semantic_relations content entities = typed @ untyped \<and> length untyped \<le> 6 \<and>
      list_all (\<lambda>r. fst (snd r) = ''related_to'') untyped)"
proof (cases "length entities < 2")
  case True
  then show ?thesis by (simp add: extract_semantic_relations_def)
next
  case False
  with relations_of_text [where content = content and entities = entities] show ?thesis by (simp add: list_all_iff)
qed

end
