(* ===== verification/Entity_Batch.thy ===== *)
theory Entity_Batch
  imports Entity_Claims
begin

section \<open>What resolving a batch guarantees\<close>

text \<open>
  No mention is lost and the staged updates say what the objects hold; a memory is linked to exactly
  the entities its mentions name, and one name means one entity throughout the batch; new entities
  respect the table's identity; the edges pass the constraints of their table.  Each step of a batch
  keeps \<open>good\<close> and only grows the index of names (\<open>grows\<close>).
\<close>

subsection \<open>The state of a batch\<close>

definition mentions_of :: "entity \<Rightarrow> int" where
  "mentions_of e = (case en_mentions e of Some k \<Rightarrow> k | None \<Rightarrow> 1)"

definition mention_total :: "entity list \<Rightarrow> int" where
  "mention_total es = sum_list (map mentions_of es)"

definition restore :: "entity_update \<Rightarrow> entity \<Rightarrow> entity" where
  "restore u e = e\<lparr>en_mentions := eu_mentions u, en_attrs := eu_attrs u, en_updated := eu_updated u\<rparr>"

text \<open>What the caller's updates make of a row.\<close>

definition apply_update :: "(uuid \<times> entity_update) list \<Rightarrow> entity \<Rightarrow> entity" where
  "apply_update us e = (case map_of us (en_id e) of Some u \<Rightarrow> restore u e | None \<Rightarrow> e)"

definition ids_fresh :: "resolver \<Rightarrow> entity list \<Rightarrow> bool" where
  "ids_fresh w db \<longleftrightarrow> distinct (map en_id db) \<and> inj (rw_ids w) \<and> (\<forall>n. rw_ids w n \<notin> en_id ` set db)"

definition known_ids :: "batch \<Rightarrow> uuid set" where
  "known_ids s = snd ` set (bt_names s) \<union> {i. Some i \<in> snd ` set (bt_fuzzy s)}"

definition rows_ok :: "entity list \<Rightarrow> batch \<Rightarrow> bool" where
  "rows_ok db s \<longleftrightarrow> bt_rows s = map (apply_update (bt_updates s)) db \<and>
     distinct (map fst (bt_updates s)) \<and> fst ` set (bt_updates s) \<subseteq> en_id ` set db"

definition batch_ok :: "resolver \<Rightarrow> entity list \<Rightarrow> batch \<Rightarrow> bool" where
  "batch_ok w db s \<longleftrightarrow> rows_ok db s \<and> map en_id (bt_new s) = map (rw_ids w) [0..<length (bt_new s)] \<and>
     known_ids s \<subseteq> en_id ` set (objects s)"

lemma en_id_kept [simp]: "en_id (restore u e) = en_id e" "en_id (apply_update us e) = en_id e" "en_id (count_up now e) = en_id e"
  by (simp_all add: restore_def apply_update_def count_up_def split: option.split)

lemma touch_ids [simp]: "map en_id (touch now i es) = map en_id es" "length (touch now i es) = length es"
  "en_id ` set (touch now i es) = en_id ` set es"
proof -
  show ids: "map en_id (touch now i es) = map en_id es" by (simp add: touch_def comp_def)
  show "length (touch now i es) = length es" by (simp add: touch_def)
  show "en_id ` set (touch now i es) = en_id ` set es" using ids by (metis list.set_map)
qed

lemma touch_other: "i \<notin> en_id ` set es \<Longrightarrow> touch now i es = es"
  unfolding touch_def by (rule map_idI) auto

lemma total_touch:
  "distinct (map en_id es) \<Longrightarrow> mention_total (touch now i es) = mention_total es + (if i \<in> en_id ` set es then 1 else 0)"
proof (induction es)
  case (Cons e es)
  have "mention_total (touch now i es) = mention_total es" if "en_id e = i"
    using Cons.prems that by (simp add: touch_other)
  moreover have "mentions_of (count_up now e) = mentions_of e + 1" by (simp add: mentions_of_def count_up_def)
  ultimately show ?case using Cons by (auto simp: mention_total_def touch_def)
qed (simp add: mention_total_def touch_def)

lemma rows_ok_ids: "rows_ok db s \<Longrightarrow> map en_id (bt_rows s) = map en_id db"
  by (simp add: rows_ok_def comp_def)

lemma batch_ids:
  assumes "batch_ok w db s" and "ids_fresh w db"
  shows "distinct (map en_id (objects s))" and "en_id ` set (bt_rows s) = en_id ` set db"
    and "en_id ` set (bt_new s) \<inter> en_id ` set db = {}" and "rw_ids w (length (bt_new s)) \<notin> en_id ` set (objects s)"
proof -
  have r: "map en_id (bt_rows s) = map en_id db" using assms(1) by (simp add: batch_ok_def rows_ok_ids)
  have n: "map en_id (bt_new s) = map (rw_ids w) [0..<length (bt_new s)]" using assms(1) by (simp add: batch_ok_def)
  show rs: "en_id ` set (bt_rows s) = en_id ` set db" using r by (metis list.set_map)
  have ns: "en_id ` set (bt_new s) = rw_ids w ` {0..<length (bt_new s)}" using n by (metis list.set_map set_upt)
  show no: "en_id ` set (bt_new s) \<inter> en_id ` set db = {}" unfolding ns using assms(2) by (auto simp: ids_fresh_def)
  have "distinct (map en_id (bt_new s))" unfolding n using assms(2) by (simp add: ids_fresh_def distinct_map inj_on_subset [of _ UNIV])
  moreover have "distinct (map en_id (bt_rows s))" unfolding r using assms(2) by (simp add: ids_fresh_def)
  ultimately show "distinct (map en_id (objects s))"
    using no rs by (auto simp: objects_def)
  show "rw_ids w (length (bt_new s)) \<notin> en_id ` set (objects s)"
    unfolding objects_def set_append image_Un rs ns using assms(2) by (auto simp: ids_fresh_def dest: injD)
qed

lemma fuzzy_match_row: "fuzzy_match w name rows = Some i \<Longrightarrow> i \<in> en_id ` set rows"
proof -
  assume "fuzzy_match w name rows = Some i"
  then obtain e where e: "find (\<lambda>e. digit_groups (en_name e) = digit_groups name) (find_similar_names w name rows) = Some e"
    "i = en_id e" by (auto simp: fuzzy_match_def)
  then have "e \<in> set (find_similar_names w name rows)" by (auto simp: find_Some_iff)
  then have "e \<in> set rows" by (auto simp: find_similar_names_def split: if_splits dest!: in_set_takeD)
  with e(2) show ?thesis by simp
qed

lemma known_name: "map_of (bt_names s) l = Some i \<Longrightarrow> i \<in> known_ids s"
  unfolding known_ids_def by (metis UnI1 map_of_SomeD image_eqI snd_conv)

lemma known_fuzzy: "map_of (bt_fuzzy s) l = Some (Some i) \<Longrightarrow> i \<in> known_ids s"
  unfolding known_ids_def by (metis (mono_tags, lifting) UnI2 map_of_SomeD image_eqI mem_Collect_eq snd_conv)

definition same_rows :: "batch \<Rightarrow> batch \<Rightarrow> bool" where
  "same_rows s t \<longleftrightarrow> bt_rows t = bt_rows s \<and> bt_new t = bt_new s \<and> bt_names t = bt_names s \<and> bt_updates t = bt_updates s \<and>
     bt_links t = bt_links s \<and> bt_edges t = bt_edges s \<and> bt_resolved t = bt_resolved s"

lemma find_mentioned_ok:
  assumes "batch_ok w db s" and "find_mentioned w name s = (r, t)"
  shows "batch_ok w db t" and "same_rows s t" and "r = Some i \<Longrightarrow> i \<in> en_id ` set (objects s)"
    and "r = Some i \<Longrightarrow> map_of (bt_names s) (lower name) \<in> {None, Some i}"
    and "r = None \<Longrightarrow> map_of (bt_names s) (lower name) = None"
proof -
  have known: "known_ids s \<subseteq> en_id ` set (objects s)" using assms(1) by (simp add: batch_ok_def)
  let ?f = "fuzzy_match w name (bt_rows s)"
  have "batch_ok w db t \<and> same_rows s t \<and> (\<forall>i. r = Some i \<longrightarrow> i \<in> en_id ` set (objects s) \<and>
      map_of (bt_names s) (lower name) \<in> {None, Some i}) \<and> (r = None \<longrightarrow> map_of (bt_names s) (lower name) = None)"
  proof (cases "map_of (bt_names s) (lower name)")
    case (Some i)
    have "r = Some i" "t = s" using assms(2) by (simp_all add: find_mentioned_def Some)
    moreover have "i \<in> en_id ` set (objects s)" using known known_name [OF Some] by blast
    ultimately show ?thesis using assms(1) Some by (simp add: same_rows_def)
  next
    case none: None
    show ?thesis
    proof (cases "map_of (bt_fuzzy s) (lower name)")
      case (Some q)
      have "r = q" "t = s" using assms(2) by (simp_all add: find_mentioned_def none Some)
      moreover have "i \<in> en_id ` set (objects s)" if "q = Some i" for i
        using known known_fuzzy [of s "lower name" i] Some that by blast
      ultimately show ?thesis using assms(1) none by (simp add: same_rows_def)
    next
      case None
      have t: "r = ?f" "t = s\<lparr>bt_fuzzy := (lower name, ?f) # bt_fuzzy s\<rparr>"
        using assms(2) by (auto simp: find_mentioned_def none None Let_def)
      have f: "i \<in> en_id ` set (objects s)" if "?f = Some i" for i
        using fuzzy_match_row [OF that] unfolding objects_def by auto
      have "known_ids t \<subseteq> known_ids s \<union> {i. ?f = Some i}" unfolding t(2) by (auto simp: known_ids_def)
      with known f have "known_ids t \<subseteq> en_id ` set (objects s)" by blast
      with assms(1) have "batch_ok w db t" unfolding t(2) by (simp add: batch_ok_def rows_ok_def objects_def)
      with f none show ?thesis unfolding t(1) by (simp add: t(2) same_rows_def)
    qed
  qed
  then show "batch_ok w db t" "same_rows s t" "r = Some i \<Longrightarrow> i \<in> en_id ` set (objects s)"
    "r = Some i \<Longrightarrow> map_of (bt_names s) (lower name) \<in> {None, Some i}"
    "r = None \<Longrightarrow> map_of (bt_names s) (lower name) = None" by blast+
qed


subsection \<open>One mention\<close>

lemma mention_again_fields [simp]:
  "bt_names (mention_again w l i s) = AList.update l i (bt_names s)"
  "bt_rows (mention_again w l i s) = touch (rw_now w) i (bt_rows s)"
  "bt_new (mention_again w l i s) = touch (rw_now w) i (bt_new s)"
  "bt_fuzzy (mention_again w l i s) = bt_fuzzy s" "bt_links (mention_again w l i s) = bt_links s"
  "bt_edges (mention_again w l i s) = bt_edges s" "bt_resolved (mention_again w l i s) = bt_resolved s"
  by (simp_all add: mention_again_def Let_def split: option.split)

lemma find_touch:
  "distinct (map en_id es) \<Longrightarrow> r \<in> set es \<Longrightarrow> find (\<lambda>e. en_id e = en_id r) (touch now (en_id r) es) = Some (count_up now r)"
  by (induction es) (auto simp: touch_def)

lemma restore_snapshot: "restore (snapshot (count_up now (apply_update us d))) d = count_up now (apply_update us d)"
  by (simp add: restore_def snapshot_def count_up_def apply_update_def split: option.split)

lemma set_of_update: "fst ` set (AList.update k v al) = insert k (fst ` set al)" "snd ` set (AList.update k v al) \<subseteq> insert v (snd ` set al)"
  by (induction al) auto

lemma rows_ok_touch:
  assumes "rows_ok db s" and "distinct (map en_id db)" and "i \<in> en_id ` set db" and "i \<notin> en_id ` set (bt_new s)"
  shows "rows_ok db (mention_again w l i s)"
proof -
  obtain d where d: "d \<in> set db" "en_id d = i" using assms(3) by blast
  let ?r = "apply_update (bt_updates s) d"
  have rows: "bt_rows s = map (apply_update (bt_updates s)) db" using assms(1) by (simp add: rows_ok_def)
  have "find (\<lambda>e. en_id e = i) (touch (rw_now w) i (bt_rows s)) = Some (count_up (rw_now w) ?r)"
    using find_touch [of "bt_rows s" ?r "rw_now w"] assms(2) d by (simp add: rows comp_def)
  then have u: "bt_updates (mention_again w l i s) = AList.update i (snapshot (count_up (rw_now w) ?r)) (bt_updates s)"
    using assms(4) by (simp add: mention_again_def Let_def)
  have "(if en_id (apply_update (bt_updates s) x) = i then count_up (rw_now w) (apply_update (bt_updates s) x)
      else apply_update (bt_updates s) x) = apply_update (bt_updates (mention_again w l i s)) x" if x: "x \<in> set db" for x
  proof (cases "en_id x = i")
    case True
    then have "x = d" using d x assms(2) by (auto simp: distinct_map dest: inj_onD)
    with True show ?thesis using restore_snapshot [of "rw_now w" "bt_updates s" d]
      by (simp add: u apply_update_def [of "AList.update _ _ _"] update_conv')
  next
    case False
    then have "apply_update (bt_updates (mention_again w l i s)) x = apply_update (bt_updates s) x"
      by (simp add: u apply_update_def update_conv')
    with False show ?thesis by simp
  qed
  then have "touch (rw_now w) i (bt_rows s) = map (apply_update (bt_updates (mention_again w l i s))) db"
    by (simp add: rows touch_def)
  moreover have "distinct (map fst (bt_updates (mention_again w l i s)))" "fst ` set (bt_updates (mention_again w l i s)) \<subseteq> en_id ` set db"
    using assms(1,3) by (simp_all add: u rows_ok_def distinct_update set_of_update(1))
  ultimately show ?thesis by (simp add: rows_ok_def)
qed

lemma mention_again_ok:
  assumes "batch_ok w db s" and "ids_fresh w db" and "i \<in> en_id ` set (objects s)"
  shows "batch_ok w db (mention_again w l i s)"
    and "mention_total (objects (mention_again w l i s)) = mention_total (objects s) + 1"
proof -
  note ids = batch_ids [OF assms(1,2)]
  have obj: "objects (mention_again w l i s) = touch (rw_now w) i (objects s)" by (simp add: objects_def touch_def)
  show "mention_total (objects (mention_again w l i s)) = mention_total (objects s) + 1"
    unfolding obj total_touch [OF ids(1)] using assms(3) by simp
  have "rows_ok db (mention_again w l i s)"
  proof (cases "i \<in> en_id ` set (bt_new s)")
    case True
    then have "i \<notin> en_id ` set (bt_rows s)" using ids(2,3) by blast
    moreover have "bt_updates (mention_again w l i s) = bt_updates s" using True by (simp add: mention_again_def Let_def)
    ultimately show ?thesis using assms(1) by (simp add: batch_ok_def rows_ok_def touch_other)
  next
    case False
    then have "i \<in> en_id ` set db" using assms(3) ids(2) by (auto simp: objects_def)
    with rows_ok_touch False assms(1,2) show ?thesis by (simp add: batch_ok_def ids_fresh_def)
  qed
  moreover have "known_ids (mention_again w l i s) \<subseteq> insert i (known_ids s)"
    using set_of_update(2) [of l i "bt_names s"] by (auto simp: known_ids_def)
  moreover have "en_id ` set (objects (mention_again w l i s)) = en_id ` set (objects s)" unfolding obj by simp
  ultimately show "batch_ok w db (mention_again w l i s)" using assms(1,3) by (auto simp: batch_ok_def)
qed

lemma new_entity_ok:
  fixes m :: batch_memory and name :: string
  assumes "batch_ok w db s"
  defines "e \<equiv> new_entity w m name s"
  defines "t \<equiv> s\<lparr>bt_names := AList.update (lower name) (en_id e) (bt_names s), bt_new := bt_new s @ [e]\<rparr>"
  shows "batch_ok w db t" and "mention_total (objects t) = mention_total (objects s) + 1"
proof -
  have "known_ids t \<subseteq> insert (en_id e) (known_ids s)"
    using set_of_update(2) [of "lower name" "en_id e" "bt_names s"] by (auto simp: known_ids_def t_def)
  moreover have "objects t = objects s @ [e]" by (simp add: objects_def t_def)
  ultimately show "batch_ok w db t" "mention_total (objects t) = mention_total (objects s) + 1"
    using assms(1) by (auto simp: batch_ok_def rows_ok_def t_def e_def new_entity_def mention_total_def mentions_of_def)
qed


subsection \<open>Growth of a batch\<close>

text \<open>New entities are the user's, are in the index under their names, and their names were mentioned.\<close>

definition new_ok :: "resolver \<Rightarrow> string set \<Rightarrow> batch \<Rightarrow> bool" where
  "new_ok w L s \<longleftrightarrow> (\<forall>e \<in> set (bt_new s). map_of (bt_names s) (lower (en_name e)) = Some (en_id e) \<and>
     owned w e \<and> lower (en_name e) \<in> L)"

definition good :: "resolver \<Rightarrow> entity list \<Rightarrow> string set \<Rightarrow> batch \<Rightarrow> bool" where
  "good w db L s \<longleftrightarrow> batch_ok w db s \<and> new_ok w L s"

text \<open>\<open>grows n s t\<close>: the batch took up \<open>n\<close> mentions and forgot no name.\<close>

definition grows :: "nat \<Rightarrow> batch \<Rightarrow> batch \<Rightarrow> bool" where
  "grows n s t \<longleftrightarrow> mention_total (objects t) = mention_total (objects s) + int n \<and>
     map_of (bt_names s) \<subseteq>\<^sub>m map_of (bt_names t)"

lemma grows_refl: "grows 0 s s"
  by (simp add: grows_def)

lemma grows_trans: "grows m s t \<Longrightarrow> grows n t u \<Longrightarrow> grows (m + n) s u"
  by (auto simp: grows_def intro: map_le_trans)

lemma growsD: "grows n s t \<Longrightarrow> map_of (bt_names s) l = Some i \<Longrightarrow> map_of (bt_names t) l = Some i"
  by (auto simp: grows_def map_le_def dom_def)

lemma count_up_kept [simp]: "en_name (count_up now e) = en_name e" "en_org (count_up now e) = en_org e" "en_user (count_up now e) = en_user e"
  by (simp_all add: count_up_def)

lemma new_ok_touch:
  assumes "new_ok w L s" and "map_of (bt_names s) \<subseteq>\<^sub>m map_of (bt_names (mention_again w l i s))"
  shows "new_ok w L (mention_again w l i s)"
  unfolding new_ok_def
proof
  fix e' assume "e' \<in> set (bt_new (mention_again w l i s))"
  then obtain e where e: "e \<in> set (bt_new s)" "e' = (if en_id e = i then count_up (rw_now w) e else e)"
    by (auto simp: touch_def)
  have "map_of (bt_names s) (lower (en_name e)) = Some (en_id e)" "owned w e" "lower (en_name e) \<in> L"
    using assms(1) e(1) by (simp_all add: new_ok_def)
  moreover have "en_name e' = en_name e" "en_id e' = en_id e" "en_org e' = en_org e" "en_user e' = en_user e"
    unfolding e(2) by simp_all
  ultimately show "map_of (bt_names (mention_again w l i s)) (lower (en_name e')) = Some (en_id e') \<and>
      owned w e' \<and> lower (en_name e') \<in> L"
    using assms(2) by (auto simp: owned_def map_le_def dom_def)
qed

definition same_output :: "batch \<Rightarrow> batch \<Rightarrow> bool" where
  "same_output s t \<longleftrightarrow> bt_links t = bt_links s \<and> bt_edges t = bt_edges s \<and> bt_resolved t = bt_resolved s"

lemma resolve_mention_ok:
  assumes s: "good w db L s" and fresh: "ids_fresh w db" and l: "lower name \<in> L"
    and r: "resolve_mention w m name s = (i, t)"
  shows "good w db L t \<and> grows 1 s t \<and> same_output s t \<and> map_of (bt_names t) (lower name) = Some i"
proof -
  obtain x u where xu: "find_mentioned w name s = (x, u)" by (cases "find_mentioned w name s")
  have bs: "batch_ok w db s" using s by (simp add: good_def)
  note look = find_mentioned_ok [OF bs xu]
  have same: "bt_rows u = bt_rows s" "bt_new u = bt_new s" "bt_names u = bt_names s" "same_output s u"
    using look(2) by (simp_all add: same_rows_def same_output_def)
  have obj: "objects u = objects s" by (simp add: objects_def same)
  have nu: "new_ok w L u" using s by (simp add: good_def new_ok_def same)
  show ?thesis
  proof (cases x)
    case (Some j)
    have t: "i = j" "t = mention_again w (lower name) j u" using r by (auto simp: resolve_mention_def xu Some)
    have "j \<in> en_id ` set (objects u)" using look(3) [OF Some] by (simp add: obj)
    note again = mention_again_ok [OF look(1) fresh this, of "lower name"]
    have le: "map_of (bt_names u) \<subseteq>\<^sub>m map_of (bt_names (mention_again w (lower name) j u))"
      using look(4) [OF Some] by (auto simp: same update_conv' map_le_def)
    have "good w db L t" using again(1) new_ok_touch [OF nu le] by (simp add: good_def t)
    moreover have "grows 1 s t" using again(2) le by (simp add: grows_def obj same t)
    moreover have "same_output s t" using same(4) by (simp add: same_output_def t)
    moreover have "map_of (bt_names t) (lower name) = Some i" by (simp add: t update_conv')
    ultimately show ?thesis by blast
  next
    case None
    let ?e = "new_entity w m name u"
    let ?t = "u\<lparr>bt_names := AList.update (lower name) (en_id ?e) (bt_names u), bt_new := bt_new u @ [?e]\<rparr>"
    have t: "i = en_id ?e" "t = ?t" using r by (auto simp: resolve_mention_def xu None Let_def)
    note new = new_entity_ok [OF look(1), where name = name and m = m]
    have none: "map_of (bt_names u) (lower name) = None" using look(5) [OF None] by (simp add: same)
    then have le: "map_of (bt_names u) \<subseteq>\<^sub>m map_of (bt_names ?t)"
      by (auto simp: update_conv' map_le_def)
    have e: "en_name ?e = name" "owned w ?e" by (simp_all add: new_entity_def owned_def)
    have "new_ok w L ?t"
      using nu le l e by (auto simp: new_ok_def update_conv' map_le_def dom_def)
    then have "good w db L t" using new(1) by (simp add: good_def t(2))
    moreover have "grows 1 s t" using new(2) le by (simp add: grows_def obj same t(2))
    moreover have "same_output s t" using same(4) by (simp add: same_output_def t(2))
    moreover have "map_of (bt_names t) (lower name) = Some i" by (simp add: t update_conv')
    ultimately show ?thesis by blast
  qed
qed


subsection \<open>A memory\<close>

definition link_of :: "resolver \<Rightarrow> batch_memory \<Rightarrow> uuid \<Rightarrow> entity_link" where
  "link_of w m i = \<lparr>lk_memory = bm_id m, lk_entity = i, lk_org = rw_org w\<rparr>"

text \<open>The entities a list of names stands for.\<close>

definition named_by :: "batch \<Rightarrow> string list \<Rightarrow> uuid set" where
  "named_by s ns = {i. \<exists>n \<in> set ns. map_of (bt_names s) (lower n) = Some i}"

definition all_named :: "batch \<Rightarrow> string list \<Rightarrow> bool" where
  "all_named s ns \<longleftrightarrow> (\<forall>n \<in> set ns. map_of (bt_names s) (lower n) \<noteq> None)"

lemma named_by_grows: "grows k s t \<Longrightarrow> all_named s ns \<Longrightarrow> named_by t ns = named_by s ns \<and> all_named t ns"
  by (force simp: named_by_def all_named_def dest: growsD)

lemma good_output [simp]:
  "good w db L (s\<lparr>bt_links := x\<rparr>) = good w db L s"
  "good w db L (s\<lparr>bt_resolved := y, bt_edges := z\<rparr>) = good w db L s"
  by (simp_all add: good_def batch_ok_def rows_ok_def new_ok_def known_ids_def objects_def)

lemma link_all_ok:
  assumes "good w db L s" and "ids_fresh w db" and "lower ` set ns \<subseteq> L" and "distinct res"
    and "fold (link_mention w m) ns (res, s) = (res', t)"
  shows "good w db L t \<and> grows (length ns) s t \<and> bt_edges t = bt_edges s \<and> bt_resolved t = bt_resolved s \<and> distinct res' \<and>
    (\<exists>extra. res' = res @ extra \<and> bt_links t = bt_links s @ map (link_of w m) extra) \<and>
    set res' = set res \<union> named_by t ns \<and> all_named t ns"
  using assms(1,3-)
proof (induction ns arbitrary: res s)
  case Nil
  then show ?case by (simp add: grows_refl named_by_def all_named_def)
next
  case (Cons n ns)
  obtain i u where iu: "resolve_mention w m n s = (i, u)" by (cases "resolve_mention w m n s")
  have "lower n \<in> L" using Cons.prems(2) by simp
  from resolve_mention_ok [OF Cons.prems(1) assms(2) this iu]
  have u: "good w db L u" "grows 1 s u" "same_output s u" "map_of (bt_names u) (lower n) = Some i" by blast+
  let ?res = "if i \<in> set res then res else res @ [i]"
  let ?u = "if i \<in> set res then u else u\<lparr>bt_links := bt_links u @ [link_of w m i]\<rparr>"
  have step: "link_mention w m n (res, s) = (?res, ?u)" by (simp add: link_mention_def iu link_of_def)
  have names: "bt_names ?u = bt_names u" "objects ?u = objects u" "bt_edges ?u = bt_edges s" "bt_resolved ?u = bt_resolved s"
    using u(3) by (simp_all add: objects_def same_output_def)
  have gu: "good w db L ?u" using u(1) by simp
  have g: "grows 1 s ?u" using u(2) names by (simp add: grows_def)
  have d: "distinct ?res" using Cons.prems(3) by simp
  have f: "fold (link_mention w m) ns (?res, ?u) = (res', t)" using Cons.prems(4) step by simp
  have "lower ` set ns \<subseteq> L" using Cons.prems(2) by simp
  from Cons.IH [OF gu this d f] obtain extra where t: "good w db L t" "grows (length ns) ?u t" "bt_edges t = bt_edges ?u"
    "bt_resolved t = bt_resolved ?u" "distinct res'" "res' = ?res @ extra" "bt_links t = bt_links ?u @ map (link_of w m) extra"
    "set res' = set ?res \<union> named_by t ns" "all_named t ns" by blast
  have i: "map_of (bt_names t) (lower n) = Some i" using growsD [OF t(2)] names u(4) by simp
  have "\<exists>extra. res' = res @ extra \<and> bt_links t = bt_links s @ map (link_of w m) extra"
    using t(6,7) u(3) by (cases "i \<in> set res") (auto simp: same_output_def)
  moreover have "set res' = set res \<union> named_by t (n # ns)" using t(8) i by (auto simp: named_by_def)
  moreover have "all_named t (n # ns)" using t(9) i by (simp add: all_named_def)
  moreover have "grows (length (n # ns)) s t" using grows_trans [OF g t(2)] by simp
  ultimately show ?case using t(1,3,4,5) names by simp
qed

definition edge_ok :: "entity_link list \<Rightarrow> entity_edge \<Rightarrow> bool" where
  "edge_ok links e \<longleftrightarrow> ee_source e \<noteq> ee_target e \<and> ee_type e \<in> set emitted_relationship_types \<and>
     (\<exists>l \<in> set links. \<exists>k \<in> set links. lk_memory l = lk_memory k \<and> lk_entity l = ee_source e \<and> lk_entity k = ee_target e)"

definition edges_ok :: "batch \<Rightarrow> bool" where
  "edges_ok s \<longleftrightarrow> distinct (map edge_identity (bt_edges s)) \<and> list_all (edge_ok (bt_links s)) (bt_edges s)"

lemma edge_ok_more: "edge_ok links e \<Longrightarrow> set links \<subseteq> set links' \<Longrightarrow> edge_ok links' e"
  unfolding edge_ok_def by blast

lemma note_edges_ok:
  assumes "distinct (map edge_identity es)" and "list_all (edge_ok links) es"
    and "\<And>a rel b. (a, rel, b) \<in> set rels \<Longrightarrow> edge_ok links \<lparr>ee_source = en_id a, ee_target = en_id b, ee_type = rel, ee_org = rw_org w\<rparr>"
  shows "distinct (map edge_identity (fold (note_edge w) rels es)) \<and> list_all (edge_ok links) (fold (note_edge w) rels es)"
  using assms
proof (induction rels arbitrary: es)
  case (Cons r rels)
  obtain a rel b where r: "r = (a, rel, b)" by (cases r)
  let ?e = "\<lparr>ee_source = en_id a, ee_target = en_id b, ee_type = rel, ee_org = rw_org w\<rparr>"
  have new: "edge_ok links ?e" using Cons.prems(3) r by simp
  have "distinct (map edge_identity (note_edge w r es)) \<and> list_all (edge_ok links) (note_edge w r es)"
  proof (cases "en_id a = en_id b \<or> (en_id a, en_id b, rel) \<in> set (map edge_identity es)")
    case True
    then have "note_edge w r es = es" unfolding r note_edge_def by simp
    with Cons.prems(1,2) show ?thesis by simp
  next
    case False
    then have add: "note_edge w r es = es @ [?e]" unfolding r note_edge_def by simp
    have "edge_identity ?e \<notin> set (map edge_identity es)" using False by (simp add: edge_identity_def)
    with add new Cons.prems(1,2) show ?thesis by simp
  qed
  with Cons show ?case by simp
qed simp

lemma resolved_object_id: "a \<in> set (resolved_objects s ids) \<Longrightarrow> en_id a \<in> set ids"
proof (induction ids)
  case (Cons i ids)
  then show ?case
    by (cases "find (\<lambda>e. en_id e = i) (objects s)")
       (auto simp: resolved_objects_def List.map_filter_simps find_Some_iff)
qed (simp add: resolved_objects_def List.map_filter_simps)

lemma resolve_memory_ok:
  assumes "good w db L s" and "ids_fresh w db" and "lower ` set (kept_mentions m) \<subseteq> L"
  shows "good w db L (resolve_memory w m s)" and "grows (length (kept_mentions m)) s (resolve_memory w m s)"
    and "all_named (resolve_memory w m s) (kept_mentions m)"
    and "\<exists>res. distinct res \<and> set res = named_by (resolve_memory w m s) (kept_mentions m) \<and>
      bt_links (resolve_memory w m s) = bt_links s @ map (link_of w m) res"
    and "edges_ok s \<Longrightarrow> edges_ok (resolve_memory w m s)"
proof -
  obtain res t where rt: "fold (link_mention w m) (kept_mentions m) ([], s) = (res, t)"
    by (cases "fold (link_mention w m) (kept_mentions m) ([], s)")
  from link_all_ok [OF assms distinct.simps(1) [THEN iffD2, OF TrueI] rt]
  have t: "good w db L t" "grows (length (kept_mentions m)) s t" "bt_edges t = bt_edges s" "distinct res"
    "bt_links t = bt_links s @ map (link_of w m) res" "set res = named_by t (kept_mentions m)" "all_named t (kept_mentions m)"
    by auto
  let ?rels = "extract_semantic_relations (memory_text m) (resolved_objects t res)"
  let ?x = "resolve_memory w m s"
  let ?edges = "if 1 < length res \<and> rw_edges w then fold (note_edge w) ?rels (bt_edges t) else bt_edges t"
  have x: "?x = t\<lparr>bt_resolved := AList.update (bm_id m) res (bt_resolved t), bt_edges := ?edges\<rparr>"
    by (simp add: resolve_memory_def rt)
  have parts: "bt_names ?x = bt_names t" "objects ?x = objects t" "bt_links ?x = bt_links t" "bt_edges ?x = ?edges"
    unfolding x by (simp_all add: objects_def)
  show "good w db L ?x" using t(1) unfolding x by simp
  show "grows (length (kept_mentions m)) s ?x" using t(2) by (simp add: grows_def parts)
  show "all_named ?x (kept_mentions m)" using t(7) by (simp add: all_named_def parts)
  show "\<exists>res. distinct res \<and> set res = named_by ?x (kept_mentions m) \<and> bt_links ?x = bt_links s @ map (link_of w m) res"
    using t(4,5,6) by (intro exI [of _ res]) (simp add: named_by_def parts)
  show "edges_ok ?x" if e: "edges_ok s"
  proof -
    have links: "set (bt_links s) \<subseteq> set (bt_links t)" by (simp add: t(5))
    have old: "distinct (map edge_identity (bt_edges t))" "list_all (edge_ok (bt_links t)) (bt_edges t)"
      using e edge_ok_more [OF _ links] by (auto simp: edges_ok_def t(3) list_all_iff)
    have new: "edge_ok (bt_links t) \<lparr>ee_source = en_id a, ee_target = en_id b, ee_type = rel, ee_org = rw_org w\<rparr>"
      if r: "(a, rel, b) \<in> set ?rels" for a rel b
    proof -
      have ok: "relation_ok (resolved_objects t res) (a, rel, b)" using relations_of_text(2) r by blast
      then have "en_id a \<in> set res" "en_id b \<in> set res" by (auto simp: relation_ok_def dest: resolved_object_id)
      then have "link_of w m (en_id a) \<in> set (bt_links t)" "link_of w m (en_id b) \<in> set (bt_links t)" by (simp_all add: t(5))
      moreover have "en_id a \<noteq> en_id b" "rel \<in> set emitted_relationship_types" using ok by (simp_all add: relation_ok_def)
      ultimately show ?thesis unfolding edge_ok_def
        by (intro conjI bexI [of _ "link_of w m (en_id a)"] bexI [of _ "link_of w m (en_id b)"]) (simp_all add: link_of_def)
    qed
    from note_edges_ok [OF old new] old show ?thesis by (simp add: edges_ok_def parts)
  qed
qed


subsection \<open>A batch\<close>

lemma resolve_all_ok:
  assumes "good w db L s" and "ids_fresh w db" and "\<forall>m \<in> set ms. lower ` set (kept_mentions m) \<subseteq> L"
    and "t = fold (resolve_memory w) ms s"
  shows "good w db L t \<and> grows (length (concat (map kept_mentions ms))) s t \<and> (edges_ok s \<longrightarrow> edges_ok t) \<and>
    (\<forall>m \<in> set ms. all_named t (kept_mentions m)) \<and>
    set (bt_links t) = set (bt_links s) \<union> (\<Union>m \<in> set ms. link_of w m ` named_by t (kept_mentions m)) \<and>
    (distinct (bt_links s) \<and> distinct (map bm_id ms) \<and> lk_memory ` set (bt_links s) \<inter> bm_id ` set ms = {} \<longrightarrow>
     distinct (bt_links t))"
  using assms(1,3,4)
proof (induction ms arbitrary: s)
  case Nil
  then show ?case by (simp add: grows_refl)
next
  case (Cons m ms)
  let ?u = "resolve_memory w m s"
  have m: "lower ` set (kept_mentions m) \<subseteq> L" using Cons.prems(2) by simp
  note one = resolve_memory_ok [OF Cons.prems(1) assms(2) m]
  obtain res where res: "distinct res" "set res = named_by ?u (kept_mentions m)" "bt_links ?u = bt_links s @ map (link_of w m) res"
    using one(4) by blast
  have ms: "\<forall>m \<in> set ms. lower ` set (kept_mentions m) \<subseteq> L" "t = fold (resolve_memory w) ms ?u" using Cons.prems by simp_all
  note rest = Cons.IH [OF one(1) ms]
  have g: "grows (length (concat (map kept_mentions ms))) ?u t" using rest by blast
  have named: "named_by t (kept_mentions m) = named_by ?u (kept_mentions m)" "all_named t (kept_mentions m)"
    using named_by_grows [OF g one(3)] by blast+
  have "distinct (bt_links t)" if d: "distinct (bt_links s)" "distinct (map bm_id (m # ms))"
    "lk_memory ` set (bt_links s) \<inter> bm_id ` set (m # ms) = {}"
  proof -
    have "inj (link_of w m)" by (rule injI) (simp add: link_of_def)
    then have "distinct (map (link_of w m) res)" using res(1) by (simp add: distinct_map inj_on_subset [of _ UNIV])
    moreover have "set (bt_links s) \<inter> set (map (link_of w m) res) = {}" using d(3) by (force simp: link_of_def)
    ultimately have "distinct (bt_links ?u)" using d(1) by (simp add: res(3))
    moreover have "lk_memory ` set (bt_links ?u) \<inter> bm_id ` set ms = {}" using d(2,3) by (auto simp: res(3) link_of_def)
    ultimately show ?thesis using rest d(2) by simp
  qed
  moreover have "grows (length (concat (map kept_mentions (m # ms)))) s t" using grows_trans [OF one(2) g] by simp
  moreover have "set (bt_links t) = set (bt_links s) \<union> (\<Union>m \<in> set (m # ms). link_of w m ` named_by t (kept_mentions m))"
    using rest res named by auto
  ultimately show ?case using rest one(5) named(2) by simp
qed

lemma seed_facts:
  "(\<forall>e \<in> set es. map_of (fold seed_one es names) (lower (en_name e)) \<noteq> None) \<and>
   map_of names \<subseteq>\<^sub>m map_of (fold seed_one es names) \<and>
   snd ` set (fold seed_one es names) \<subseteq> snd ` set names \<union> en_id ` set es"
proof (induction es arbitrary: names)
  case (Cons e es)
  let ?n = "seed_one e names"
  have le: "map_of names \<subseteq>\<^sub>m map_of ?n" by (auto simp: seed_one_def map_le_def map_add_def split: option.split)
  have e: "map_of ?n (lower (en_name e)) \<noteq> None" by (simp add: seed_one_def map_add_def)
  have "snd ` set ?n \<subseteq> snd ` set names \<union> {en_id e}" by (auto simp: seed_one_def)
  then have "snd ` set (fold seed_one es ?n) \<subseteq> snd ` set names \<union> en_id ` set (e # es)"
    using Cons.IH [of ?n] by (simp only: set_simps image_insert) blast
  moreover have "map_of names \<subseteq>\<^sub>m map_of (fold seed_one es ?n)"
    using Cons.IH [of ?n] map_le_trans [OF le] by blast
  moreover have "map_of (fold seed_one es ?n) (lower (en_name e)) \<noteq> None"
    using Cons.IH [of ?n] e unfolding map_le_def by (metis domIff)
  ultimately show ?case using Cons.IH [of ?n] by simp
qed simp

definition lowered_mentions :: "batch_memory list \<Rightarrow> string set" where
  "lowered_mentions ms = lower ` set (concat (map kept_mentions ms))"

definition started :: "resolver \<Rightarrow> batch_memory list \<Rightarrow> entity list \<Rightarrow> batch" where
  "started w ms db = (empty_batch db)\<lparr>bt_names := seed_exact_matches w (concat (map kept_mentions ms)) db\<rparr>"

lemma started_good: "good w db (lowered_mentions ms) (started w ms db)"
proof -
  have "snd ` set (seed_exact_matches w (concat (map kept_mentions ms)) db) \<subseteq> en_id ` set db"
    using seed_facts [of "get_by_names w (concat (map kept_mentions ms)) db" "[]"]
    by (auto simp: seed_exact_matches_def get_by_names_def)
  moreover have "map (apply_update []) db = db" by (simp add: apply_update_def map_idI)
  ultimately show ?thesis
    by (auto simp: good_def batch_ok_def rows_ok_def known_ids_def new_ok_def objects_def started_def empty_batch_def)
qed

lemma started_fields: "bt_links (started w ms db) = []" "bt_edges (started w ms db) = []" "objects (started w ms db) = db"
  by (simp_all add: started_def empty_batch_def objects_def)

lemma batch_facts:
  fixes w ms db
  defines "t \<equiv> resolve_batch w ms db"
  assumes fresh: "ids_fresh w db"
  shows "good w db (lowered_mentions ms) t"
    and "mention_total (objects t) = mention_total db + int (length (concat (map kept_mentions ms)))"
    and "edges_ok t" and "\<forall>m \<in> set ms. all_named t (kept_mentions m)"
    and "set (bt_links t) = (\<Union>m \<in> set ms. link_of w m ` named_by t (kept_mentions m))"
    and "distinct (map bm_id ms) \<Longrightarrow> distinct (bt_links t)"
    and "e \<in> set db \<Longrightarrow> owned w e \<Longrightarrow> lower (en_name e) \<in> lowered_mentions ms \<Longrightarrow>
      \<exists>i \<in> en_id ` set db. map_of (bt_names t) (lower (en_name e)) = Some i"
proof -
  have "good w db (lowered_mentions ms) t \<and>
    mention_total (objects t) = mention_total db + int (length (concat (map kept_mentions ms))) \<and>
    edges_ok t \<and> (\<forall>m \<in> set ms. all_named t (kept_mentions m)) \<and>
    set (bt_links t) = (\<Union>m \<in> set ms. link_of w m ` named_by t (kept_mentions m)) \<and>
    (distinct (map bm_id ms) \<longrightarrow> distinct (bt_links t)) \<and>
    (e \<in> set db \<and> owned w e \<and> lower (en_name e) \<in> lowered_mentions ms \<longrightarrow>
      (\<exists>i \<in> en_id ` set db. map_of (bt_names t) (lower (en_name e)) = Some i))"
  proof (cases "concat (map kept_mentions ms) = []")
    case True
    then have t: "t = empty_batch db" by (simp add: t_def resolve_batch_def Let_def)
    have none: "kept_mentions m = []" if "m \<in> set ms" for m using True that by auto
    have "good w db (lowered_mentions ms) t"
      by (simp add: t good_def batch_ok_def rows_ok_def known_ids_def new_ok_def objects_def empty_batch_def apply_update_def map_idI)
    moreover have "lowered_mentions ms = {}" using True by (simp only: lowered_mentions_def) simp
    ultimately show ?thesis
      using none True by (simp add: t edges_ok_def all_named_def named_by_def empty_batch_def objects_def)
  next
    case False
    let ?s = "started w ms db"
    have t: "t = fold (resolve_memory w) ms ?s" using False by (simp only: t_def resolve_batch_def Let_def started_def if_False)
    have "\<forall>m \<in> set ms. lower ` set (kept_mentions m) \<subseteq> lowered_mentions ms" by (auto simp: lowered_mentions_def)
    note all = resolve_all_ok [OF started_good fresh this t]
    have g: "grows (length (concat (map kept_mentions ms))) ?s t" using all by blast
    have "\<exists>i \<in> en_id ` set db. map_of (bt_names t) (lower (en_name e)) = Some i"
      if e: "e \<in> set db" "owned w e" "lower (en_name e) \<in> lowered_mentions ms"
    proof -
      have "e \<in> set (get_by_names w (concat (map kept_mentions ms)) db)"
        using e by (auto simp: get_by_names_def lowered_mentions_def)
      then obtain i where i: "map_of (bt_names ?s) (lower (en_name e)) = Some i"
        using seed_facts [of "get_by_names w (concat (map kept_mentions ms)) db" "[]"]
        by (auto simp: started_def seed_exact_matches_def)
      have "batch_ok w db ?s" using started_good by (simp add: good_def)
      then have "i \<in> en_id ` set db" using known_name [OF i] by (auto simp: batch_ok_def started_fields)
      with growsD [OF g i] show ?thesis by blast
    qed
    moreover have "edges_ok ?s" by (simp add: edges_ok_def started_fields)
    ultimately show ?thesis using all g by (simp add: grows_def started_fields)
  qed
  then show "good w db (lowered_mentions ms) t"
    "mention_total (objects t) = mention_total db + int (length (concat (map kept_mentions ms)))"
    "edges_ok t" "\<forall>m \<in> set ms. all_named t (kept_mentions m)"
    "set (bt_links t) = (\<Union>m \<in> set ms. link_of w m ` named_by t (kept_mentions m))"
    "distinct (map bm_id ms) \<Longrightarrow> distinct (bt_links t)"
    "e \<in> set db \<Longrightarrow> owned w e \<Longrightarrow> lower (en_name e) \<in> lowered_mentions ms \<Longrightarrow>
      \<exists>i \<in> en_id ` set db. map_of (bt_names t) (lower (en_name e)) = Some i" by blast+
qed

text \<open>
  Claim C38.  No mention is lost: over all entities, old and new, the counts go up by the number of mentions
  kept, and the staged updates, one for each entity at most, make of the stored rows exactly what the
  objects of the session hold.
\<close>

theorem no_mention_lost:
  assumes "ids_fresh w db"
  shows "mention_total (bt_rows (resolve_batch w ms db) @ bt_new (resolve_batch w ms db)) =
      mention_total db + int (length (concat (map kept_mentions ms))) \<and>
    bt_rows (resolve_batch w ms db) = map (apply_update (bt_updates (resolve_batch w ms db))) db \<and>
    distinct (map fst (bt_updates (resolve_batch w ms db)))"
  using batch_facts(1,2) [OF assms, of ms] by (simp add: good_def batch_ok_def rows_ok_def objects_def)

text \<open>
  Claim C39.  One name, whatever its case, is one entity throughout a batch, and a memory is linked to exactly the
  entities its mentions name, once each.
\<close>

theorem links_are_mentions:
  assumes "ids_fresh w db" and "distinct (map bm_id ms)"
  shows "set (bt_links (resolve_batch w ms db)) =
      (\<Union>m \<in> set ms. link_of w m ` named_by (resolve_batch w ms db) (kept_mentions m)) \<and>
    list_all (\<lambda>m. all_named (resolve_batch w ms db) (kept_mentions m)) ms \<and>
    distinct (bt_links (resolve_batch w ms db))"
  using batch_facts(4,5,6) [OF assms(1), of ms] assms(2) by (simp add: list_all_iff)

text \<open>
  The edges of a batch connect two different entities of one memory, are of a pinned type, and no two
  are the same: they pass the constraints of the edge table.
\<close>

theorem edges_pass_the_constraints:
  assumes "ids_fresh w db"
  shows "edges_ok (resolve_batch w ms db)"
  by (rule batch_facts(3) [OF assms])

text \<open>\<open>uq_entity_identity\<close>\<close>

definition identity_of :: "entity \<Rightarrow> uuid \<times> uuid \<times> string" where
  "identity_of e = (en_org e, en_user e, lower (en_name e))"

text \<open>
  Claim C40.  A batch creates no entity twice: if no two rows of the table agree in tenant, user and name but for
  case, then neither do the rows with the new entities added.
\<close>

theorem entity_identity_kept:
  assumes "ids_fresh w db" and "distinct (map identity_of db)"
  shows "distinct (map identity_of (bt_rows (resolve_batch w ms db) @ bt_new (resolve_batch w ms db)))"
proof -
  let ?t = "resolve_batch w ms db"
  have ok: "batch_ok w db ?t" "new_ok w (lowered_mentions ms) ?t"
    using batch_facts(1) [OF assms(1), of ms] by (simp_all add: good_def)
  note ids = batch_ids [OF ok(1) assms(1)]
  have new: "map_of (bt_names ?t) (lower (en_name e)) = Some (en_id e)" "owned w e" "lower (en_name e) \<in> lowered_mentions ms"
    if "e \<in> set (bt_new ?t)" for e using ok(2) that by (simp_all add: new_ok_def)
  have "identity_of (apply_update us e) = identity_of e" for us e
    by (simp add: identity_of_def apply_update_def restore_def split: option.split)
  then have rows: "map identity_of (bt_rows ?t) = map identity_of db"
    using ok(1) by (simp add: batch_ok_def rows_ok_def comp_def)
  have "distinct (map en_id (bt_new ?t))" using ids(1) by (simp add: objects_def)
  moreover have "inj_on identity_of (set (bt_new ?t))"
  proof (rule inj_onI)
    fix e f assume ef: "e \<in> set (bt_new ?t)" "f \<in> set (bt_new ?t)" "identity_of e = identity_of f"
    then have "en_id e = en_id f" using new(1) [OF ef(1)] new(1) [OF ef(2)] by (simp add: identity_of_def)
    with ef \<open>distinct (map en_id (bt_new ?t))\<close> show "e = f" by (auto simp: distinct_map dest: inj_onD)
  qed
  ultimately have news: "distinct (map identity_of (bt_new ?t))" by (simp add: distinct_map)
  have "identity_of d \<noteq> identity_of e" if d: "d \<in> set db" and e: "e \<in> set (bt_new ?t)" for d e
  proof
    assume same: "identity_of d = identity_of e"
    have "owned w d" using same new(2) [OF e] by (simp add: identity_of_def owned_def)
    moreover have "lower (en_name d) = lower (en_name e)" using same by (simp add: identity_of_def)
    ultimately obtain i where "i \<in> en_id ` set db" "map_of (bt_names ?t) (lower (en_name e)) = Some i"
      using batch_facts(7) [OF assms(1) d, of ms] new(3) [OF e] by auto
    then have "en_id e \<in> en_id ` set db" using new(1) [OF e] by simp
    with ids(3) e show False by blast
  qed
  then have "set (map identity_of db) \<inter> set (map identity_of (bt_new ?t)) = {}" unfolding set_map by blast
  with news assms(2) show ?thesis by (simp add: rows)
qed


subsection \<open>Examples\<close>

definition demo_resolver :: resolver where
  "demo_resolver = \<lparr>rw_org = 1, rw_user = 2, rw_now = 10, rw_similarity = (\<lambda>_ _. 0), rw_prefilter = 3 / 10,
     rw_ids = (\<lambda>n. 100 + n), rw_edges = True\<rparr>"

definition demo_redis :: entity where
  "demo_redis = \<lparr>en_id = 7, en_org = 1, en_user = 2, en_type = ''technology'', en_name = ''Redis'', en_mentions = Some 4,
     en_attrs = ''{}'', en_updated = 0\<rparr>"

definition demo_memory_of :: "uuid \<Rightarrow> batch_memory" where
  "demo_memory_of i = \<lparr>bm_id = i, bm_type = ''fact'', bm_title = ''Cache'', bm_content = ''Luno uses Redis.'',
     bm_entities = [''Luno'', '' redis '', ''the'']\<rparr>"

lemma demo_kept: "kept_mentions (demo_memory_of i) = [''Luno'', ''redis'']"
  unfolding kept_mentions_def demo_memory_of_def batch_memory.simps by code_simp

lemma demo_fresh: "ids_fresh demo_resolver [demo_redis]"
  by (simp add: ids_fresh_def demo_resolver_def demo_redis_def inj_def)

lemma demo_total: "mention_total [demo_redis] = 4"
  by (simp add: mention_total_def mentions_of_def demo_redis_def)

theorem no_mention_lost_witness:
  "mention_total (bt_rows (resolve_batch demo_resolver [demo_memory_of 1, demo_memory_of 2] [demo_redis]) @
     bt_new (resolve_batch demo_resolver [demo_memory_of 1, demo_memory_of 2] [demo_redis])) = 8"
  unfolding no_mention_lost [OF demo_fresh, THEN conjunct1] demo_total by (simp add: demo_kept)

theorem links_are_mentions_witness:
  "distinct (bt_links (resolve_batch demo_resolver [demo_memory_of 1, demo_memory_of 2] [demo_redis]))"
  using links_are_mentions [OF demo_fresh, of "[demo_memory_of 1, demo_memory_of 2]"] by (simp add: demo_memory_of_def)

theorem edges_pass_the_constraints_witness:
  "edges_ok (resolve_batch demo_resolver [demo_memory_of 1] [demo_redis])"
  by (rule edges_pass_the_constraints [OF demo_fresh])

theorem entity_identity_kept_witness:
  "distinct (map identity_of (bt_rows (resolve_batch demo_resolver [demo_memory_of 1] [demo_redis]) @
     bt_new (resolve_batch demo_resolver [demo_memory_of 1] [demo_redis])))"
  by (rule entity_identity_kept [OF demo_fresh]) simp

text \<open>
  The text between two names is stripped before the patterns are tried, and the last pattern wants a
  blank behind the verb: without an article \<open>is\<close> states nothing.
\<close>

theorem bare_is_states_nothing:
  "relation_in (strip '' is '') = None \<and> relation_in (strip '' is a '') = Some ''is_a''"
  by code_simp

text \<open>A name that ends in a mark has no word boundary behind it in front of a blank, so it is never found in a text.\<close>

definition cpp :: entity where
  "cpp = demo_redis\<lparr>en_name := ''C++''\<rparr>"

theorem marked_names_are_not_found:
  "''c++'' \<in> set known_technologies \<and> present_entities [cpp] ''we use c++ daily'' = []"
  by code_simp

text \<open>Markers of types are looked for anywhere in a name.\<close>

theorem names_are_typed_by_substrings:
  "infer_entity_type ''Vincent'' [] = ''company'' \<and> infer_entity_type ''Capital City'' [] = ''technology''"
  by code_simp

text \<open>
  Two batches that read the same rows stage the same count, so of two mentions one is lost: the update
  writes a snapshot, it does not increment.
\<close>

definition one_mention :: "uuid \<Rightarrow> batch_memory" where
  "one_mention i = \<lparr>bm_id = i, bm_type = ''fact'', bm_title = ''Cache'', bm_content = ''Redis'', bm_entities = [''redis'']\<rparr>"

theorem concurrent_batches_lose_counts:
  "map en_mentions (map (apply_update (bt_updates (resolve_batch demo_resolver [one_mention 2] [demo_redis])))
      (map (apply_update (bt_updates (resolve_batch demo_resolver [one_mention 1] [demo_redis]))) [demo_redis])) = [Some 5] \<and>
   en_mentions demo_redis = Some 4"
  by code_simp

end
