(* ===== verification/Spec2Isabelle.thy ===== *)
theory Spec2Isabelle
  imports Ingestion_Outcomes Sensitive_Filter Truth_Properties Deduplication
    Context_Planner Graph_Cache Consolidation_Outcomes Chunking_Outcomes Block_Claims Fact_Claims Request_Path Mcp_Claims Mcp_Limiter Rank_Fusion Temporal_Claims Pii_Claims Entity_Batch
begin

section \<open>Contexta, a memory engine for agents: a verification development\<close>

text \<open>
  Contexta (\<open>src/contexta\<close>) stores what agents and their users say as memories of a tenant.  A
  request passes the middleware of \<open>api\<close>, is accepted into a durable ingestion store, is worked on by
  leased workers that extract claims from text, and ends as rows of the memory, fact and block
  tables, where contradicted rows are closed and duplicates merged.  Reads divide a token budget
  among evidence and walk an entity graph.  This development models the parts that decide (who may,
  what is stored, what is closed, what is returned); the database is lists of rows, and every call
  into a model, a provider, the clock or the network is an argument.

  \<^bold>\<open>Shared theories.\<close>  \<open>Prelude\<close>: rows, errors as sums, truthiness, the locale \<open>row_store\<close> of a table
  read and written by primary key.  \<open>Py_Text\<close>, \<open>Py_Canon\<close>, \<open>Py_Regex\<close>, \<open>Py_Uuid\<close>, \<open>Py_Value\<close>,
  \<open>Py_Difflib\<close>, \<open>Py_Date\<close>, \<open>Py_Number\<close>, \<open>Json_Decode\<close>, \<open>Net_Address\<close>: what the code uses of Python's
  \<open>str\<close>, \<open>re\<close>, \<open>uuid\<close>, \<open>json\<close>, \<open>difflib\<close>, \<open>datetime.date\<close> and \<open>ipaddress\<close>, with the facts the components
  need (a printed UUID reads back, \<open>casefold\<close> after blanks are joined is the words joined, the
  scanner's fuel suffices, dates and their ordinals correspond, a refused network is an interval).
  \<open>Regex_Groups\<close>: a pattern whose groups cannot be empty captures parts of the text it searches;
  \<open>Regex_Case\<close>: what a pattern under \<open>re.IGNORECASE\<close> does with a text in lower case it does with every
  casing of it.  Four interfaces are locales, each interpreted on the code's own
  operations: \<open>lease\<close> (observations and outbox events), \<open>idempotent_store\<close> (proposals and consolidated
  observations), \<open>tenant_table\<close> (the generic repository and the API keys), \<open>token_bucket\<close> (the API's and
  the MCP server's limiter); \<open>detector\<close> is the contradiction test truth maintenance is built on.

  \<^bold>\<open>Ingestion\<close> (\<open>models/ingestion.py\<close>, \<open>repositories/ingestion_repo.py\<close>, \<open>workers/extraction_tasks.py\<close>,
  \<open>workers/outbox_tasks.py\<close>).  \<open>Ingestion_Model\<close> has the tables and their constraints,
  \<open>Ingestion_Writes\<close> the one abstract step every operation refines (a tenant's write that keeps the
  constrained columns), \<open>Ingestion_Observations\<close> and \<open>Ingestion_Outbox\<close> the two repositories,
  \<open>Ingestion_Worker\<close> the consumer with its transactions (the hand-off of the embeddings after the commit
  is an argument: it may raise, and the attempt then counts as failed), \<open>Ingestion_Dispatch\<close> the
  sweep, \<open>Ingestion_Runs\<close> all of it as one transition system.  Shown: the constraints and the status
  discipline in every reachable state, tenants apart (\<open>Ingestion_Properties\<close>); in every run in which
  claims, renewals, completions, failures and releases alternate, who holds an observation and for how
  long (\<open>Ingestion_Leases\<close>, a run with the record of what was granted); what the end of a worker's run
  leaves behind on success and on failure (\<open>Ingestion_Outcomes\<close>, with the embeddings that are lost when the
  hand-off raises), idempotent acceptance.

  \<^bold>\<open>Text into claims\<close> (\<open>core/extraction/chunking.py\<close>, \<open>sensitive_filter.py\<close>, \<open>deduplication.py\<close>,
  \<open>core/pipeline.py\<close>).  \<open>Chunking\<close> splits a conversation, salvages a truncated JSON array and merges
  claims; \<open>Sensitive_Filter\<close> redacts credentials with the code's own patterns; \<open>Fact_Key\<close> computes the
  slot and value keys; \<open>Deduplication\<close> discards or merges near copies.  Shown: no word is lost and the
  limits hold, salvaging returns on every text and recovers every complete object, the fast precheck
  is exact, nothing is discarded without a row that holds it.

  \<^bold>\<open>Personal data\<close> (\<open>core/extraction/pii_filter.py\<close>, \<open>redact_all\<close> and \<open>secondary_redact\<close> of
  \<open>sensitive_filter.py\<close>).  \<open>Pii_Filter\<close> is the scan over any table of patterns: validators, overlaps,
  erasing, pseudonyms and the gate; \<open>Pii_Patterns\<close> the program's tables.  \<open>Pii_Claims\<close> shows, on every
  text, that the findings are where they say and apart, that erasing replaces the kept spans and
  nothing else, and that pseudonyms identify; its last section has the texts where something found
  stays in the output.

  \<^bold>\<open>Entities\<close> (\<open>core/entities/relation_extractor.py\<close>, \<open>bulk_resolver.py\<close>, parts of \<open>entity_repo.py\<close>).
  \<open>Relation_Extraction\<close> finds the relations a text states between entities, \<open>Entity_Resolver\<close> resolves
  the mentions of a batch of memories against the entity table.  \<open>Entity_Claims\<close> shows at most one
  relation for each pair; \<open>Entity_Batch\<close> that counts, links, updates and new rows are exactly those of
  the mentions, by an invariant (\<open>good\<close>) that every mention and memory keeps.

  \<^bold>\<open>Temporal grounding\<close> (\<open>core/temporal.py\<close>).  \<open>Temporal_Dates\<close> is the calendar arithmetic,
  \<open>Temporal_Match\<close> the first recogniser with its patterns and the parser of absolute dates.
  \<open>Temporal_Periods\<close> shows that weeks, months and years tile the calendar and says which weekday is meant by where it
  lies, \<open>Temporal_Claims\<close> that the phrases resolve to these dates and that ISO dates read back.

  \<^bold>\<open>Truth\<close> (\<open>core/truth/service.py\<close>, parts of \<open>repositories/memory_repo.py\<close>, \<open>fact_repo.py\<close>,
  \<open>block_repo.py\<close>).  \<open>Truth_Values\<close>, \<open>Truth_Service\<close>, \<open>Truth_Properties\<close>: classification of values,
  planning and closing.  Closing a row is a read that looks for the open row and a guarded UPDATE, which
  other sessions' reads and updates may come between: of all that try, one closes it, and a
  supersession writes one audit row naming each row it closed and no other.  \<open>Fact_Store\<close>,
  \<open>Fact_Claims\<close>: the bitemporal facts, immutable identity, gapless dated replacement, the as-of query.
  \<open>Block_Store\<close>, \<open>Block_History\<close>, \<open>Block_Steps\<close>, \<open>Block_Claims\<close>: blocks and their revisions.  \<open>Block_Steps\<close> has every
  operation of the two repositories as a step, appends on a block the session already held and updates
  by id included; an append after a fresh read adds one entry to the history in every state they
  reach, a version is taken by one append, and no step rewrites a revision.  What holds when every append reads fresh is in
  \<open>Block_History\<close>; the examples in \<open>Block_Claims\<close> show what does not when one does not.

  \<^bold>\<open>Consolidation\<close> (\<open>core/consolidation/memory.py\<close>, \<open>proposal_repo.py\<close>, \<open>consolidation_repo.py\<close>).
  \<open>Admission\<close> is the policy, \<open>Idempotent_Store\<close> and \<open>Proposal_Store\<close> the tables, \<open>Consolidation\<close> the
  service, \<open>Consolidation_Runs\<close> the steps of a proposal.  Shown: stored proposals are well typed,
  nothing but low risk becomes applicable without a reviewer, consolidating again changes nothing,
  the stores refine a map in which the first writer of a key wins.

  \<^bold>\<open>Requests\<close> (\<open>api/middleware\<close>, \<open>api_key_repo.py\<close>, \<open>repositories/base.py\<close>).  \<open>Tenant_Scope\<close> is the generic
  repository (an update by id may give a
  row to another tenant, as the code lets it; others can add rows to a tenant's that way, never change
  or remove any), \<open>Api_Keys\<close> the key table, \<open>Request_Gate\<close> authentication and tenancy, \<open>Rate_Limit\<close> the
  limiter, \<open>Cache_Entry\<close> and \<open>Response_Cache\<close> the single-flight response cache as a machine of callers
  and tasks, \<open>Request_Path\<close> the stack.  Shown: who passes the gate, that a revoked token stays dead,
  that a response is served only to the identity, method, path, query and body it was made for, that
  what is served is byte for byte what the layer below gave (all chunks of a stream; a stream that
  breaks is an empty one), one running task per key, the bound on what passes the limiter, isolation of tenants.

  \<^bold>\<open>MCP\<close> (\<open>mcp/security.py\<close>).  \<open>Mcp_Guard\<close>, \<open>Mcp_Limiter\<close>, \<open>Mcp_Claims\<close>: fetches request only checked URLs,
  files stay under their roots, callers are scoped as over HTTP; the limiter's buckets in Redis and in
  memory give the same answers where a bucket fills up before it expires, and not otherwise.

  \<^bold>\<open>Reading\<close> (\<open>core/context/planner.py\<close>, \<open>core/graph/cache.py\<close>, \<open>core/retrieval/fusion.py\<close>).
  \<open>Context_Planner\<close> selects within a token budget; \<open>Graph_Cache\<close> walks the graph breadth first with
  exact distances; \<open>Rank_Fusion\<close> fuses the channels' rankings, keeps what they agree on, and decides
  whether the primary channels suffice.
\<close>

text \<open>
  \<^bold>\<open>Bounds, fuel and abstractions.\<close>  Recursion is structural or has a measure, except: the JSON scanner
  takes fuel, and twice the length of the text plus one is shown to be enough; repetition in a
  pattern is bounded by the length of what is left, and every repeated body consumes something; the
  salvage loop is a \<open>partial_function (option)\<close>, shown to return on every text; a fetch has the code's
  own bound of \<open>MAX_REDIRECTS + 1\<close> rounds.  Numbers the code keeps in floats (confidences, weights,
  seconds, tokens) are rationals, so rounding is not modelled; where NaN matters it is a case of its
  own.  Characters are below code point 256.  A number inside a JSON value is the text it prints.
  SHA-256, \<open>str\<close> of containers, the similarity provider, trigram similarity, the order in which a set is iterated or equal
  rows are returned, UUIDs, the clock, name service, network and file system are parameters of the
  definitions that use them, unconstrained but where a theorem says so (a digest without a
  collision, fresh UUIDs).  A database call is atomic; rows other sessions commit between a read and
  a flush, rows other transactions hold locked, and whether a session takes statements after a
  failed flush are arguments.  An object the identity map already holds is an argument of the block
  repository, because a locking read does not refresh it.  Redis reads the caller's clock.  In the
  response cache storing an entry and ending the task are one step, and the call an entry was made
  for is a history variable no step reads.

  \<^bold>\<open>Not modelled.\<close>  The retrieval engine and query understanding (model calls and text heuristics around
  the database), the search queries of the memory repository (vector and full text operators of
  PostgreSQL), the kernel services, routes and workers that only pass values on, GPU model servers,
  Celery, encryption (AES-GCM of a package), migrations, benchmarks, the logging, metrics and
  compression middleware.  Of temporal grounding the extended patterns, times of day and intervals are
  left out: \<open>_resolve_extra_expression\<close> is the argument \<open>extra\<close>, and the time zone is never looked at.
  Decryption failures, the expiry of graph keys in Redis and time zones of
  timestamps in the database are not modelled either.  \<open>PROJECT.json\<close> lists every component.
\<close>

end
